(* ===== verification/Prelude.thy ===== *)
theory Prelude
  imports Main "HOL-Library.Word" "HOL-Library.AList"
begin

text \<open>
  Shared ground of the development: the machine integers of the C++ code as words, simulation
  time, the byte-addressed memory that the receive path writes with \<open>memcpy\<close>, the containers
  (\<open>std::map\<close> and \<open>std::unordered_map\<close> as association lists in iteration order) and the
  generic lemmas on them that the component theories share.
\<close>

section \<open>Machine integers and time\<close>

type_synonym u8 = "8 word"
type_synonym u16 = "16 word"
type_synonym u32 = "32 word"
type_synonym u64 = "64 word"

text \<open>Simulation time in nanoseconds (\<open>ns3::Time\<close>, a signed 64-bit count that a run never exhausts).\<close>

type_synonym ns = int
type_synonym ms = int

abbreviation now_ms :: "ns \<Rightarrow> ms" where
  "now_ms t \<equiv> t div 1000000"

named_theorems ue_defs \<open>definitions of small guards that the component proofs unfold\<close>
named_theorems ue_frame \<open>fields an operation leaves unchanged\<close>

section \<open>Words\<close>

lemma unat_add_nowrap:
  fixes a b :: "'a::len word"
  assumes "unat a + unat b < 2 ^ LENGTH('a)"
  shows "unat (a + b) = unat a + unat b"
  using assms by (simp add: unat_word_ariths)

lemma unat_sub_le:
  fixes a b :: "'a::len word"
  assumes "b \<le> a"
  shows "unat (a - b) = unat a - unat b"
  using assms by (simp add: unat_sub)

lemma unat_Suc_lt:
  fixes a b :: "'a::len word"
  assumes "a < b"
  shows "unat (a + 1) = Suc (unat a)"
proof -
  have "unat a < unat b" using assms by (simp add: word_less_nat_alt)
  moreover have "unat b < 2 ^ LENGTH('a)" by (rule unsigned_less)
  ultimately have "unat a + 1 < 2 ^ LENGTH('a)" by linarith
  then show ?thesis by (simp add: unat_word_ariths)
qed

lemma unat_inc_below:
  fixes a b :: "'a::len word"
  assumes "\<not> b \<le> a"
  shows "unat (a + 1) = Suc (unat a)" "a + 1 \<le> b"
proof -
  show u: "unat (a + 1) = Suc (unat a)" using assms by (intro unat_Suc_lt [of a b]) simp
  show "a + 1 \<le> b" using assms by (simp add: word_le_nat_alt u)
qed

lemma unat_dec_pos:
  fixes a :: "'a::len word"
  assumes "0 < a"
  shows "unat (a - 1) = unat a - 1"
proof -
  have "1 \<le> a" using assms by (simp add: word_le_nat_alt word_less_nat_alt)
  then show ?thesis by (simp add: unat_sub)
qed

lemma sub_min_one:
  fixes a :: "'a::len word"
  shows "a - min 1 a = (if a = 0 then 0 else a - 1)"
  by (simp add: min_def word_le_nat_alt unat_eq_zero) (metis One_nat_def leI less_one unat_eq_zero le_zero_eq)

lemma unat_sub_min:
  fixes a b :: "'a::len word"
  shows "unat (a - min a b) = unat a - unat b"
  by (cases "a \<le> b") (simp_all add: min_def unat_sub word_le_nat_alt)

lemma unat_of_nat_lt: "n < 2 ^ LENGTH('a) \<Longrightarrow> unat (of_nat n :: 'a::len word) = n"
  by (simp add: unat_of_nat take_bit_nat_eq_self)

lemma unat_ucast_u64: "unat (ucast (w :: u32) :: u64) = unat w"
  by (simp add: unsigned_ucast_eq take_bit_nat_eq_self order_less_trans [OF unsigned_less])

section \<open>Memory\<close>

type_synonym mem = "u64 \<Rightarrow> u8"

text \<open>\<open>std::memcpy (addr, bytes, length bytes)\<close> on the byte-addressed memory.\<close>

definition mem_write :: "u64 \<Rightarrow> u8 list \<Rightarrow> mem \<Rightarrow> mem" where
  "mem_write addr bs m = (\<lambda>a. if unat (a - addr) < length bs then bs ! unat (a - addr) else m a)"

definition mem_read :: "mem \<Rightarrow> u64 \<Rightarrow> nat \<Rightarrow> u8 list" where
  "mem_read m addr n = map (\<lambda>i. m (addr + of_nat i)) [0..<n]"

lemma mem_write_Nil [simp]: "mem_write addr [] m = m"
  by (simp add: mem_write_def)

lemma mem_write_outside:
  "length bs \<le> unat (a - addr) \<Longrightarrow> mem_write addr bs m a = m a"
  by (simp add: mem_write_def)

lemma mem_write_at:
  assumes "i < length bs" "length bs \<le> 2 ^ 64"
  shows "mem_write addr bs m (addr + of_nat i) = bs ! i"
proof -
  have "unat (of_nat i :: u64) = i"
    using assms by (simp add: unat_of_nat take_bit_eq_mod)
  then show ?thesis using assms by (simp add: mem_write_def)
qed

text \<open>A write at an offset of a buffer, seen from the buffer's base.\<close>

lemma mem_write_offset:
  assumes "i < 2 ^ 64" "off + length bs \<le> 2 ^ 64"
  shows "mem_write (base + of_nat off) bs m (base + of_nat i) =
    (if off \<le> i \<and> i < off + length bs then bs ! (i - off) else m (base + of_nat i))"
proof (cases "off \<le> i")
  case True
  then have "(base + of_nat i) - (base + of_nat off) = (of_nat (i - off) :: u64)"
    by (simp add: of_nat_diff)
  moreover have "unat (of_nat (i - off) :: u64) = i - off"
    using assms True by (simp only: unat_of_nat take_bit_eq_mod) simp
  ultimately show ?thesis using True by (auto simp: mem_write_def)
next
  case False
  have eq: "(base + of_nat i) - (base + of_nat off) = - (of_nat (off - i) :: u64)"
    using False by (simp add: of_nat_diff)
  show ?thesis
  proof (cases "bs = []")
    case True
    then show ?thesis by auto
  next
    case ne: False
    have lt: "off - i < 2 ^ 64" and pos: "0 < off - i"
      using assms ne False by (cases bs; simp)+
    have u: "unat (of_nat (off - i) :: u64) = off - i"
      using lt by (simp add: unat_of_nat take_bit_eq_mod)
    then have "(of_nat (off - i) :: u64) \<noteq> 0" using pos by (metis unat_0 less_numeral_extra(3))
    then have "unat (- (of_nat (off - i) :: u64)) = 2 ^ 64 - (off - i)"
      using u unat_sub_if' [of 0 "of_nat (off - i) :: u64"] pos by (simp add: word_size)
    moreover have "length bs \<le> 2 ^ 64 - (off - i)"
      using assms by linarith
    ultimately show ?thesis using False by (simp add: mem_write_def eq)
  qed
qed

lemma length_mem_read [simp]: "length (mem_read m addr n) = n"
  by (simp add: mem_read_def)

lemma nth_mem_read [simp]: "i < n \<Longrightarrow> mem_read m addr n ! i = m (addr + of_nat i)"
  by (simp add: mem_read_def)

end
