(* ===== verification/Transport.thy ===== *)
theory Transport
  imports Prelude
begin

text \<open>
  The vocabulary of \<open>model/common/transport-layer.h\<close> and the packet tags of
  \<open>model/common/soft-ue-packet-tag.h\<close>: enumerations, return codes, the metadata a packet
  carries, and the packet itself. An \<open>enum class\<close> read from the wire can hold any byte, so the
  two enumerations that are read from packets have a constructor for the other values.
\<close>

section \<open>Enumerations\<close>

datatype op_type = SEND | READ | WRITE | DEFERRABLE | OpTypeOther u8

fun op_type_to_u8 :: "op_type \<Rightarrow> u8" where
  "op_type_to_u8 SEND = 1"
| "op_type_to_u8 READ = 2"
| "op_type_to_u8 WRITE = 3"
| "op_type_to_u8 DEFERRABLE = 4"
| "op_type_to_u8 (OpTypeOther b) = b"

definition op_type_of_u8 :: "u8 \<Rightarrow> op_type" where
  "op_type_of_u8 b =
    (if b = 1 then SEND else if b = 2 then READ else if b = 3 then WRITE
     else if b = 4 then DEFERRABLE else OpTypeOther b)"

definition op_type_valid :: "op_type \<Rightarrow> bool" where
  "op_type_valid t = (case t of OpTypeOther _ \<Rightarrow> False | _ \<Rightarrow> True)"

lemma op_type_of_to [simp]: "op_type_valid t \<Longrightarrow> op_type_of_u8 (op_type_to_u8 t) = t"
  by (cases t) (simp_all add: op_type_of_u8_def op_type_valid_def)

datatype pds_type =
    RESERVED | TSS | RUD_REQ | ROD_REQ | RUDI_REQ | RUDI_RESP | UUD_REQ
  | ACK | ACK_CC | NACK | CP | PdsTypeOther u8

fun pds_type_to_u8 :: "pds_type \<Rightarrow> u8" where
  "pds_type_to_u8 RESERVED = 0"
| "pds_type_to_u8 TSS = 1"
| "pds_type_to_u8 RUD_REQ = 2"
| "pds_type_to_u8 ROD_REQ = 3"
| "pds_type_to_u8 RUDI_REQ = 4"
| "pds_type_to_u8 RUDI_RESP = 5"
| "pds_type_to_u8 UUD_REQ = 6"
| "pds_type_to_u8 ACK = 7"
| "pds_type_to_u8 ACK_CC = 8"
| "pds_type_to_u8 NACK = 9"
| "pds_type_to_u8 CP = 10"
| "pds_type_to_u8 (PdsTypeOther b) = b"

definition pds_types :: "pds_type list" where
  "pds_types = [RESERVED, TSS, RUD_REQ, ROD_REQ, RUDI_REQ, RUDI_RESP, UUD_REQ, ACK, ACK_CC, NACK, CP]"

definition pds_type_of_u8 :: "u8 \<Rightarrow> pds_type" where
  "pds_type_of_u8 b = (if unat b < 11 then pds_types ! unat b else PdsTypeOther b)"

definition pds_type_valid :: "pds_type \<Rightarrow> bool" where
  "pds_type_valid t = (case t of PdsTypeOther _ \<Rightarrow> False | _ \<Rightarrow> True)"

lemma pds_type_of_to [simp]: "pds_type_valid t \<Longrightarrow> pds_type_of_u8 (pds_type_to_u8 t) = t"
  by (cases t) (simp_all add: pds_type_of_u8_def pds_types_def pds_type_valid_def)

datatype delivery_mode = RUD | ROD | UUD | UOD

datatype pdc_type = IPDC | TPDC

text \<open>\<open>IsIpdc\<close>, \<open>IsTpdc\<close>, \<open>GetPdcType\<close>: PDC identifiers below \<open>MAX_PDC\<close> are IPDCs.\<close>

definition MAX_PDC :: nat where "MAX_PDC = 512"

definition is_ipdc :: "u16 \<Rightarrow> bool" where "is_ipdc i \<longleftrightarrow> unat i < MAX_PDC"
definition is_tpdc :: "u16 \<Rightarrow> bool" where "is_tpdc i \<longleftrightarrow> MAX_PDC \<le> unat i"
definition get_pdc_type :: "u16 \<Rightarrow> pdc_type" where
  "get_pdc_type i = (if is_ipdc i then IPDC else TPDC)"

text \<open>Return codes and response operation codes travel as bytes.\<close>

definition RC_OK :: u8 where "RC_OK = 0x00"
definition RC_PARTIAL_WRITE :: u8 where "RC_PARTIAL_WRITE = 0x01"
definition RC_NO_MATCH :: u8 where "RC_NO_MATCH = 0x02"
definition RC_RESOURCE_EXHAUST :: u8 where "RC_RESOURCE_EXHAUST = 0x31"

definition UET_RESPONSE :: u8 where "UET_RESPONSE = 0x00"
definition UET_DEFAULT_RESPONSE :: u8 where "UET_DEFAULT_RESPONSE = 0x01"
definition UET_RESPONSE_W_DATA :: u8 where "UET_RESPONSE_W_DATA = 0x02"
definition UET_NO_RESPONSE :: u8 where "UET_NO_RESPONSE = 0x03"
definition UET_NACK :: u8 where "UET_NACK = 0x04"

lemmas code_values = RC_OK_def RC_PARTIAL_WRITE_def RC_NO_MATCH_def RC_RESOURCE_EXHAUST_def
  UET_RESPONSE_def UET_DEFAULT_RESPONSE_def UET_RESPONSE_W_DATA_def UET_NO_RESPONSE_def UET_NACK_def

text \<open>Flag bits of the metadata tag and of the TPDC control tag.\<close>

definition METADATA_RESPONSE :: u8 where "METADATA_RESPONSE = 0x01"
definition METADATA_RETRY :: u8 where "METADATA_RETRY = 0x02"
definition CTRL_ACK :: u8 where "CTRL_ACK = 0x01"
definition CTRL_SACK :: u8 where "CTRL_SACK = 0x02"
definition CTRL_GAP_NACK :: u8 where "CTRL_GAP_NACK = 0x04"

datatype pds_error =
    SUCCESS | INVALID_PDC | PDC_FULL | INVALID_PACKET | RESOURCE_EXHAUSTED
  | PROTOCOL_ERROR | INTERNAL_ERROR

section \<open>Tags and packets\<close>

text \<open>\<open>SoftUeHeaderTag\<close>\<close>

record header_tag =
  ht_pds_type :: pds_type
  ht_pdc_id :: u16
  ht_psn :: u32
  ht_src :: u32
  ht_dst :: u32
  ht_job :: u32

text \<open>\<open>SoftUeMetadataTag\<close>\<close>

record meta_tag =
  mt_op :: op_type
  mt_msg_id :: u32
  mt_res_index :: u16
  mt_reliable :: bool
  mt_request_length :: u32
  mt_fragment_offset :: u32
  mt_remote_address :: u64
  mt_remote_key :: u64
  mt_flags :: u8
  mt_response_opcode :: u8
  mt_return_code :: u8
  mt_modified_length :: u32

text \<open>\<open>SoftUeTpdcControlTag\<close>\<close>

record ctrl_tag =
  ct_flags :: u8
  ct_cumulative_ack :: u32
  ct_selective_ack :: u32
  ct_gap_nack :: u32

text \<open>\<open>SoftUeRecoveryTag\<close>: \<open>None\<close> stands for the initial \<open>Time::Max ()\<close>.\<close>

record recovery_tag =
  rt_gap_nack_sent :: "ns option"
  rt_retransmit_tx :: "ns option"

text \<open>\<open>SoftUeTransportTimingTag\<close>\<close>

record transport_tag =
  tt_accept :: "ns option"
  tt_transmit :: "ns option"
  tt_queued :: bool

text \<open>\<open>PDSHeader\<close>\<close>

record pds_header =
  ph_pdc_id :: u16
  ph_seq :: u32
  ph_som :: bool
  ph_eom :: bool
  ph_reliable :: bool

text \<open>
  A packet: its UID, which copies keep, the PDS headers added in front (innermost last), the
  payload bytes, and at most one tag of each type (\<open>Packet::PeekPacketTag\<close> finds it, \<open>AddPacketTag\<close> sets it).
\<close>

record packet =
  pk_uid :: u64
  pk_headers :: "pds_header list"
  pk_payload :: "u8 list"
  pk_htag :: "header_tag option"
  pk_meta :: "meta_tag option"
  pk_ctrl :: "ctrl_tag option"
  pk_recovery :: "recovery_tag option"
  pk_transport :: "transport_tag option"
  pk_timing :: "ns option"

definition pds_header_size :: nat where "pds_header_size = 7"

definition pk_size :: "packet \<Rightarrow> nat" where
  "pk_size p = pds_header_size * length (pk_headers p) + length (pk_payload p)"

definition add_header :: "pds_header \<Rightarrow> packet \<Rightarrow> packet" where
  "add_header h p = p\<lparr>pk_headers := h # pk_headers p\<rparr>"

definition empty_packet :: packet where
  "empty_packet = \<lparr>pk_uid = 0, pk_headers = [], pk_payload = [], pk_htag = None, pk_meta = None, pk_ctrl = None,
     pk_recovery = None, pk_transport = None, pk_timing = None\<rparr>"

text \<open>\<open>Tpdc::IsReadResponsePacket\<close>: a packet whose metadata tag says READ response with data.\<close>

definition is_read_response_packet :: "packet \<Rightarrow> bool" where
  "is_read_response_packet p = (case pk_meta p of
      None \<Rightarrow> False
    | Some m \<Rightarrow> mt_op m = READ \<and> mt_response_opcode m = UET_RESPONSE_W_DATA)"

lemma pk_size_add_header: "pk_size (add_header h p) = pds_header_size + pk_size p"
  by (simp add: pk_size_def add_header_def algebra_simps)

end
