(* ===== verification/Wire.thy ===== *)
theory Wire
  imports Transport "HOL-Library.Monad_Syntax"
begin

text \<open>
  Wire formats: the byte primitives of \<open>ns3::TagBuffer\<close> and \<open>ns3::Buffer::Iterator\<close>
  (little endian), \<open>PDSHeader::Serialize\<close>/\<open>Deserialize\<close> and the packet tags'
  \<open>Serialize\<close>/\<open>Deserialize\<close>. The contract of a codec is the locale \<open>wire_codec\<close>; every
  header and tag interprets it.
\<close>

unbundle bit_operations_syntax

section \<open>Byte primitives\<close>

definition write_u8 :: "u8 \<Rightarrow> u8 list" where "write_u8 w = [w]"

definition write_u16 :: "u16 \<Rightarrow> u8 list" where
  "write_u16 w = [ucast w, ucast (drop_bit 8 w)]"

definition write_u32 :: "u32 \<Rightarrow> u8 list" where
  "write_u32 w = [ucast w, ucast (drop_bit 8 w), ucast (drop_bit 16 w), ucast (drop_bit 24 w)]"

definition write_u64 :: "u64 \<Rightarrow> u8 list" where
  "write_u64 w = [ucast w, ucast (drop_bit 8 w), ucast (drop_bit 16 w), ucast (drop_bit 24 w),
     ucast (drop_bit 32 w), ucast (drop_bit 40 w), ucast (drop_bit 48 w), ucast (drop_bit 56 w)]"

text \<open>A read past the end of the buffer fails the \<open>NS_ASSERT\<close> of \<open>ReadU8\<close>: \<open>None\<close>.\<close>

type_synonym 'a reader = "u8 list \<Rightarrow> ('a \<times> u8 list) option"

fun read_u8 :: "u8 reader" where
  "read_u8 [] = None"
| "read_u8 (b # bs) = Some (b, bs)"

definition read_u16 :: "u16 reader" where
  "read_u16 bs = do {
     (b0, bs) \<leftarrow> read_u8 bs;
     (b1, bs) \<leftarrow> read_u8 bs;
     Some (push_bit 8 (ucast b1) OR ucast b0, bs) }"

definition read_u32 :: "u32 reader" where
  "read_u32 bs = do {
     (b0, bs) \<leftarrow> read_u8 bs;
     (b1, bs) \<leftarrow> read_u8 bs;
     (b2, bs) \<leftarrow> read_u8 bs;
     (b3, bs) \<leftarrow> read_u8 bs;
     Some (push_bit 8 (push_bit 8 (push_bit 8 (ucast b3) OR ucast b2) OR ucast b1) OR ucast b0, bs) }"

definition read_u64 :: "u64 reader" where
  "read_u64 bs = do {
     (b0, bs) \<leftarrow> read_u8 bs;
     (b1, bs) \<leftarrow> read_u8 bs;
     (b2, bs) \<leftarrow> read_u8 bs;
     (b3, bs) \<leftarrow> read_u8 bs;
     (b4, bs) \<leftarrow> read_u8 bs;
     (b5, bs) \<leftarrow> read_u8 bs;
     (b6, bs) \<leftarrow> read_u8 bs;
     (b7, bs) \<leftarrow> read_u8 bs;
     Some (push_bit 8 (push_bit 8 (push_bit 8 (push_bit 8 (push_bit 8 (push_bit 8 (push_bit 8
       (ucast b7) OR ucast b6) OR ucast b5) OR ucast b4) OR ucast b3) OR ucast b2) OR ucast b1)
       OR ucast b0, bs) }"

named_theorems wire_rt \<open>what a reader returns on what the writer wrote\<close>
named_theorems wire_len \<open>how many bytes a writer emits\<close>

lemma write_len [wire_len]:
  "length (write_u8 b) = 1" "length (write_u16 h) = 2" "length (write_u32 w) = 4"
  "length (write_u64 d) = 8"
  by (simp_all add: write_u8_def write_u16_def write_u32_def write_u64_def)

lemma read_write_u8 [wire_rt]: "read_u8 (write_u8 b @ bs) = Some (b, bs)"
  by (simp add: write_u8_def)

text \<open>The bytes cut out of a word, put together again one byte at a time.\<close>

lemma join_byte:
  "push_bit 8 (drop_bit (k + 8) w) OR ucast (ucast (drop_bit k w) :: u8) = drop_bit k (w :: 'a::len word)"
proof (rule bit_word_eqI)
  fix n assume "n < LENGTH('a)"
  then show "bit (push_bit 8 (drop_bit (k + 8) w) OR ucast (ucast (drop_bit k w) :: u8)) n =
      bit (drop_bit k w) n"
    by (cases "n < 8") (auto simp: bit_simps add.assoc dest: bit_imp_le_length)
qed

lemma top_byte:
  assumes "LENGTH('a) \<le> k + 8"
  shows "ucast (ucast (drop_bit k w) :: u8) = drop_bit k (w :: 'a::len word)"
proof (rule bit_word_eqI)
  fix n assume "n < LENGTH('a)"
  moreover have "bit w (k + n) \<Longrightarrow> n < 8"
    using assms by (auto dest: bit_imp_le_length)
  ultimately show "bit (ucast (ucast (drop_bit k w) :: u8) :: 'a word) n = bit (drop_bit k w) n"
    by (auto simp: bit_simps)
qed

lemma join_u16: "push_bit 8 (ucast (ucast (drop_bit 8 w) :: u8)) OR ucast (ucast w :: u8) = (w :: u16)"
proof -
  have t: "ucast (ucast (drop_bit 8 w) :: u8) = drop_bit 8 w" by (rule top_byte) simp
  show ?thesis using join_byte [of 0 w] by (simp only: t add_0_left drop_bit_0 id_apply)
qed

lemma join_u32:
  "push_bit 8 (push_bit 8 (push_bit 8 (ucast (ucast (drop_bit 24 w) :: u8))
     OR ucast (ucast (drop_bit 16 w) :: u8)) OR ucast (ucast (drop_bit 8 w) :: u8))
     OR ucast (ucast w :: u8) = (w :: u32)"
proof -
  have t: "ucast (ucast (drop_bit 24 w) :: u8) = drop_bit 24 w" by (rule top_byte) simp
  show ?thesis
    using join_byte [of 16 w] join_byte [of 8 w] join_byte [of 0 w]
    by (simp only: t numeral_plus_numeral add_num_simps add_0_left drop_bit_0 id_apply)
qed

lemma join_u64:
  "push_bit 8 (push_bit 8 (push_bit 8 (push_bit 8 (push_bit 8 (push_bit 8 (push_bit 8
     (ucast (ucast (drop_bit 56 w) :: u8)) OR ucast (ucast (drop_bit 48 w) :: u8))
     OR ucast (ucast (drop_bit 40 w) :: u8)) OR ucast (ucast (drop_bit 32 w) :: u8))
     OR ucast (ucast (drop_bit 24 w) :: u8)) OR ucast (ucast (drop_bit 16 w) :: u8))
     OR ucast (ucast (drop_bit 8 w) :: u8)) OR ucast (ucast w :: u8) = (w :: u64)"
proof -
  have t: "ucast (ucast (drop_bit 56 w) :: u8) = drop_bit 56 w" by (rule top_byte) simp
  show ?thesis
    using join_byte [of 48 w] join_byte [of 40 w] join_byte [of 32 w] join_byte [of 24 w]
      join_byte [of 16 w] join_byte [of 8 w] join_byte [of 0 w]
    by (simp only: t numeral_plus_numeral add_num_simps add_0_left drop_bit_0 id_apply)
qed

lemma read_write_u16 [wire_rt]: "read_u16 (write_u16 w @ bs) = Some (w, bs)"
  by (simp add: write_u16_def read_u16_def) (rule join_u16)

lemma read_write_u32 [wire_rt]: "read_u32 (write_u32 w @ bs) = Some (w, bs)"
  by (simp add: write_u32_def read_u32_def del: push_bit_or) (rule join_u32)

lemma read_write_u64 [wire_rt]: "read_u64 (write_u64 w @ bs) = Some (w, bs)"
  by (simp add: write_u64_def read_u64_def del: push_bit_or) (rule join_u64)

text \<open>What a reader leaves is what it did not consume.\<close>

lemma read_u8_len: "read_u8 bs = Some (x, r) \<Longrightarrow> length bs = 1 + length r"
  by (cases bs) auto

lemma read_u16_len: "read_u16 bs = Some (x, r) \<Longrightarrow> length bs = 2 + length r"
  by (auto simp: read_u16_def bind_eq_Some_conv dest!: read_u8_len)

lemma read_u32_len: "read_u32 bs = Some (x, r) \<Longrightarrow> length bs = 4 + length r"
  by (auto simp: read_u32_def bind_eq_Some_conv dest!: read_u8_len)

lemma read_u64_len: "read_u64 bs = Some (x, r) \<Longrightarrow> length bs = 8 + length r"
  by (auto simp: read_u64_def bind_eq_Some_conv dest!: read_u8_len)

lemmas read_lens = read_u8_len read_u16_len read_u32_len read_u64_len

section \<open>The contract of a codec\<close>

fun decode_many :: "'a reader \<Rightarrow> nat \<Rightarrow> 'a list reader" where
  "decode_many dec 0 bs = Some ([], bs)"
| "decode_many dec (Suc n) bs = do {
     (x, bs) \<leftarrow> dec bs;
     (xs, bs) \<leftarrow> decode_many dec n bs;
     Some (x # xs, bs) }"

locale wire_codec =
  fixes enc :: "'a \<Rightarrow> u8 list"
    and dec :: "'a reader"
    and valid :: "'a \<Rightarrow> bool"
    and size :: nat
  assumes dec_enc: "valid x \<Longrightarrow> dec (enc x @ rest) = Some (x, rest)"
    and enc_size: "length (enc x) = size"
    and dec_consumes: "dec bs = Some (x, rest) \<Longrightarrow> length bs = size + length rest"
begin

lemma enc_prefix_free:
  assumes "valid x" "valid y" and eq: "enc x @ r = enc y @ s"
  shows "x = y \<and> r = s"
proof -
  have "Some (x, r) = dec (enc x @ r)" using assms(1) by (simp add: dec_enc)
  also have "\<dots> = dec (enc y @ s)" by (simp only: eq)
  also have "\<dots> = Some (y, s)" using assms(2) by (rule dec_enc)
  finally show ?thesis by simp
qed

lemma enc_inj: "valid x \<Longrightarrow> valid y \<Longrightarrow> enc x = enc y \<Longrightarrow> x = y"
  using enc_prefix_free [of x y "[]" "[]"] by simp

lemma dec_short: "length bs < size \<Longrightarrow> dec bs = None"
  using dec_consumes by (cases "dec bs") fastforce+

lemma decode_many_enc:
  "(\<And>x. x \<in> set xs \<Longrightarrow> valid x) \<Longrightarrow>
     decode_many dec (length xs) (concat (map enc xs) @ rest) = Some (xs, rest)"
  by (induction xs) (auto simp: dec_enc)

lemma length_enc_many: "length (concat (map enc xs)) = size * length xs"
  by (induction xs) (auto simp: enc_size)

end

section \<open>PDSHeader\<close>

definition header_flags :: "pds_header \<Rightarrow> u8" where
  "header_flags h = (if ph_som h then 0x01 else 0) OR (if ph_eom h then 0x02 else 0)
     OR (if ph_reliable h then 0x04 else 0)"

definition pds_header_serialize :: "pds_header \<Rightarrow> u8 list" where
  "pds_header_serialize h = write_u16 (ph_pdc_id h) @ write_u32 (ph_seq h) @ write_u8 (header_flags h)"

definition pds_header_deserialize :: "pds_header reader" where
  "pds_header_deserialize bs = do {
     (pdc, bs) \<leftarrow> read_u16 bs;
     (seq, bs) \<leftarrow> read_u32 bs;
     (flags, bs) \<leftarrow> read_u8 bs;
     Some (\<lparr>ph_pdc_id = pdc, ph_seq = seq, ph_som = (flags AND 0x01 \<noteq> 0),
            ph_eom = (flags AND 0x02 \<noteq> 0), ph_reliable = (flags AND 0x04 \<noteq> 0)\<rparr>, bs) }"

lemma header_flags_bits:
  "(header_flags h AND 0x01 \<noteq> 0) = ph_som h"
  "(header_flags h AND 0x02 \<noteq> 0) = ph_eom h"
  "(header_flags h AND 0x04 \<noteq> 0) = ph_reliable h"
  by (auto simp: header_flags_def)

lemma pds_header_roundtrip_aux:
  "pds_header_deserialize (pds_header_serialize h @ rest) = Some (h, rest)"
  by (simp only: pds_header_serialize_def pds_header_deserialize_def append_assoc wire_rt
      Option.bind.bind_lunit prod.case header_flags_bits pds_header.surjective [symmetric]) simp

lemma pds_header_consumes:
  assumes "pds_header_deserialize bs = Some (h, rest)"
  shows "length bs = 7 + length rest"
  using assms unfolding pds_header_deserialize_def
  by (fastforce simp only: bind_eq_Some_conv split_paired_Ex prod.case option.inject prod.inject
      dest!: read_lens)

interpretation pds_hdr: wire_codec pds_header_serialize pds_header_deserialize "\<lambda>_. True" pds_header_size
proof
  show "length (pds_header_serialize h) = pds_header_size" for h
    by (simp add: pds_header_serialize_def pds_header_size_def wire_len)
qed (use pds_header_roundtrip_aux pds_header_consumes in \<open>auto simp: pds_header_size_def\<close>)

text \<open>The bytes of a packet: its headers in front of its payload.\<close>

definition pk_bytes :: "packet \<Rightarrow> u8 list" where
  "pk_bytes p = concat (map pds_header_serialize (pk_headers p)) @ pk_payload p"

lemma length_pk_bytes: "length (pk_bytes p) = pk_size p"
  by (simp add: pk_bytes_def pk_size_def pds_hdr.length_enc_many)

text \<open>\<open>Packet::PeekHeader\<close> and \<open>RemoveHeader\<close> for a \<open>PDSHeader\<close>.\<close>

definition peek_header :: "packet \<Rightarrow> pds_header option" where
  "peek_header p = map_option fst (pds_header_deserialize (pk_bytes p))"

lemma peek_header_first: "pk_headers p = h # hs \<Longrightarrow> peek_header p = Some h"
  by (simp add: peek_header_def pk_bytes_def pds_header_roundtrip_aux)

lemma peek_add_header [simp]: "peek_header (add_header h p) = Some h"
  by (rule peek_header_first) (simp add: add_header_def)

lemma peek_header_short: "peek_header p = None \<longleftrightarrow> pk_size p < pds_header_size"
proof
  show "pk_size p < pds_header_size \<Longrightarrow> peek_header p = None"
    by (simp add: peek_header_def pds_hdr.dec_short length_pk_bytes)
  have "\<exists>x r. pds_header_deserialize bs = Some (x, r)" if "7 \<le> length bs" for bs
  proof -
    have "\<exists>b0 b1 b2 b3 b4 b5 b6 r. bs = b0 # b1 # b2 # b3 # b4 # b5 # b6 # r"
      using that by (auto simp: numeral_eq_Suc Suc_le_length_iff)
    then obtain b0 b1 b2 b3 b4 b5 b6 r where "bs = b0 # b1 # b2 # b3 # b4 # b5 # b6 # r" by blast
    then show ?thesis by (simp add: pds_header_deserialize_def read_u16_def read_u32_def)
  qed
  then show "peek_header p = None \<Longrightarrow> pk_size p < pds_header_size"
    by (metis (no_types, lifting) length_pk_bytes linorder_not_less map_option_is_None option.distinct(1)
        pds_header_size_def peek_header_def)
qed

end
