(* ===== verification/PdsRx.thy ===== *)
theory PdsRx
  imports Wire
begin

text \<open>
  Receive semantics of \<open>PdsManager\<close> (\<open>model/pds/pds-manager.cc\<close>), part one: the
  message contexts, the resource pool, and the operations that keep them.
\<close>

section \<open>State\<close>

datatype rx_mode = DIRECT_EXPECTED | UNEXPECTED_BUFFERED | UNEXPECTED_MATCHED | READ_RESPONSE

record rx_key =
  rk_op :: op_type
  rk_job :: u64
  rk_msg :: u16
  rk_src :: u32
  rk_pdc :: u16

record lookup_key =
  lk_job :: u64
  lk_msg :: u16
  lk_peer :: u32

record rx_ctx =
  cx_present :: bool
  cx_op :: op_type
  cx_src_fep :: u32
  cx_dst_fep :: u32
  cx_job_id :: u64
  cx_msg_id :: u16
  cx_pdc_id :: u16
  cx_total_length :: u32
  cx_payload_per_packet :: u32
  cx_expected_chunks :: u32
  cx_chunks_done :: u32
  cx_chunk_arrived :: "bool list"
  cx_mode :: rx_mode
  cx_semantic_accepted :: bool
  cx_buffered_complete :: bool
  cx_matched_to_recv :: bool
  cx_completed :: bool
  cx_failed :: bool
  cx_created_at :: ms
  cx_last_activity :: ms
  cx_target_base :: u64
  cx_target_length :: u32
  cx_buffer :: "u8 list"
  cx_response_sent :: bool
  cx_arrival_reserved :: bool
  cx_unexpected_reserved :: bool
  cx_read_track_reserved :: bool
  cx_retired :: bool
  cx_retired_at :: ms
  cx_gap_tracked :: bool
  cx_gap_visible :: bool
  cx_gap_completed :: bool
  cx_gap_missing :: u32

definition fresh_ctx :: rx_ctx where
  "fresh_ctx = \<lparr>cx_present = False, cx_op = SEND, cx_src_fep = 0, cx_dst_fep = 0, cx_job_id = 0,
     cx_msg_id = 0, cx_pdc_id = 0, cx_total_length = 0, cx_payload_per_packet = 0,
     cx_expected_chunks = 0, cx_chunks_done = 0, cx_chunk_arrived = [], cx_mode = DIRECT_EXPECTED,
     cx_semantic_accepted = False, cx_buffered_complete = False, cx_matched_to_recv = False,
     cx_completed = False, cx_failed = False, cx_created_at = 0, cx_last_activity = 0,
     cx_target_base = 0, cx_target_length = 0, cx_buffer = [], cx_response_sent = False,
     cx_arrival_reserved = False, cx_unexpected_reserved = False, cx_read_track_reserved = False,
     cx_retired = False, cx_retired_at = 0, cx_gap_tracked = False, cx_gap_visible = False,
     cx_gap_completed = False, cx_gap_missing = 0\<rparr>"

text \<open>\<open>PostedReceiveBinding\<close>, \<open>ReadResponseTarget\<close>, \<open>CompletedSendTombstone\<close>\<close>

record posted_receive =
  pr_base :: u64
  pr_length :: u32
  pr_consumed :: bool

record read_target =
  tg_base :: u64
  tg_length :: u32
  tg_registered_at :: ms

record tombstone =
  tb_modified_length :: u32
  tb_completed_at :: ms

text \<open>\<open>RudReceiveResourcePool\<close>\<close>

record rx_pool =
  pl_max_messages :: u32
  pl_max_bytes :: u32
  pl_max_arrival :: u32
  pl_max_tracks :: u32
  pl_messages :: u32
  pl_bytes :: u32
  pl_arrival :: u32
  pl_tracks :: u32
  pl_unexpected_failures :: u32
  pl_arrival_failures :: u32
  pl_track_failures :: u32

text \<open>The calls \<open>PdsManager\<close> makes on its \<open>SesManager\<close>, in the order it makes them.\<close>

datatype ses_note =
    NotifyReadResponseTargetRegistered u64 u16 u32 ns
  | NotifyReadResponseTargetReleased u64 u16 u32 ns
  | NotifyReadResponseFirstPacketNoContext u64 u16 u32 ns
  | NotifyReadResponseArrivalBlockReserveFailed u64 u16 u32 ns
  | NotifyReadResponseArrivalBlockReserved u64 u16 u32 ns
  | NotifyReadResponseArrivalContextReleased u64 u16 u32 ns
  | NotifyReadResponseGapDetected u64 u16 u32 u32 ns
  | NotifyReadResponseRecoveryVisible u64 u16 u32 u32 "ns option" "ns option" ns
  | NotifyReadResponseReassemblyUnblocked u64 u16 u32 u32 ns

record rx_state =
  rs_pool :: rx_pool
  rs_posted :: "(lookup_key \<times> posted_receive) list"
  rs_targets :: "(lookup_key \<times> read_target) list"
  rs_ctxs :: "(rx_key \<times> rx_ctx) list"
  rs_tombs :: "(rx_key \<times> tombstone) list"
  rs_lookup_tombs :: "(lookup_key \<times> tombstone) list"
  rs_stale_cleanups :: u32
  rs_state_timeout :: ms
  rs_payload_mtu :: u32
  rs_device_mtu :: "u16 option"
  rs_has_ses :: bool
  rs_notes :: "ses_note list"
  rs_mem :: mem

text \<open>\<open>PdcRxSemanticResult\<close>\<close>

record rx_result =
  rr_handled :: bool
  rr_response_ready :: bool
  rr_response_opcode :: u8
  rr_return_code :: u8
  rr_modified_length :: u32
  rr_semantic_accepted :: bool
  rr_matched_to_recv :: bool
  rr_delivery_complete :: bool
  rr_failed :: bool
  rr_consume_complete_ns :: ns

definition no_result :: rx_result where
  "no_result = \<lparr>rr_handled = False, rr_response_ready = False, rr_response_opcode = 0,
     rr_return_code = 0, rr_modified_length = 0, rr_semantic_accepted = False,
     rr_matched_to_recv = False, rr_delivery_complete = False, rr_failed = False,
     rr_consume_complete_ns = 0\<rparr>"

definition notify :: "ses_note \<Rightarrow> rx_state \<Rightarrow> rx_state" where
  "notify n s = (if rs_has_ses s then s\<lparr>rs_notes := rs_notes s @ [n]\<rparr> else s)"

section \<open>Chunks\<close>

definition kSemanticHeaderOverhead :: u32 where "kSemanticHeaderOverhead = 128"
definition kDefaultDeviceMtu :: u32 where "kDefaultDeviceMtu = 1500"

definition payload_capacity_from_device_mtu :: "u32 \<Rightarrow> u32" where
  "payload_capacity_from_device_mtu mtu =
    (if mtu \<le> kSemanticHeaderOverhead then 1 else mtu - kSemanticHeaderOverhead)"

definition compute_payload_per_packet :: "rx_state \<Rightarrow> u32" where
  "compute_payload_per_packet s =
    (if 0 < rs_payload_mtu s then rs_payload_mtu s
     else payload_capacity_from_device_mtu
       (case rs_device_mtu s of Some m \<Rightarrow> ucast m | None \<Rightarrow> kDefaultDeviceMtu))"

definition compute_expected_chunks :: "u32 \<Rightarrow> u32 \<Rightarrow> u32" where
  "compute_expected_chunks ppp tot = (if tot = 0 then 1 else (tot + ppp - 1) div ppp)"

definition compute_chunk_index :: "meta_tag \<Rightarrow> u32 \<Rightarrow> u32" where
  "compute_chunk_index m ppp = (if ppp = 0 then 0 else mt_fragment_offset m div ppp)"

definition count_contiguous_chunks :: "rx_ctx \<Rightarrow> u32" where
  "count_contiguous_chunks c = of_nat (length (takeWhile (\<lambda>b. b) (cx_chunk_arrived c)))"

definition copy_packet_bytes :: "packet option \<Rightarrow> u8 list" where
  "copy_packet_bytes p = (case p of None \<Rightarrow> [] | Some pk \<Rightarrow> pk_bytes pk)"

definition copy_packet_bytes_to_target ::
  "packet option \<Rightarrow> u64 \<Rightarrow> u32 \<Rightarrow> u32 \<Rightarrow> mem \<Rightarrow> bool \<times> mem" where
  "copy_packet_bytes_to_target p base off max_len m =
    (if p = None \<or> base = 0 \<or> max_len \<le> off then (False, m)
     else let bs = copy_packet_bytes p in
       if bs = [] then (True, m)
       else let copy_len = min (of_nat (length bs)) (max_len - off) in
         (True, mem_write (base + ucast off) (take (unat copy_len) bs) m))"

section \<open>Context and pool operations\<close>

definition is_context_active :: "rx_ctx \<Rightarrow> bool" where
  "is_context_active c \<longleftrightarrow> cx_present c \<and> \<not> cx_retired c"

definition reserve_arrival_block :: "rx_ctx \<Rightarrow> rx_pool \<Rightarrow> bool \<times> rx_ctx \<times> rx_pool" where
  "reserve_arrival_block c p =
    (if cx_arrival_reserved c then (True, c, p)
     else if pl_max_arrival p \<le> pl_arrival p
     then (False, c, p\<lparr>pl_arrival_failures := pl_arrival_failures p + 1\<rparr>)
     else (True, c\<lparr>cx_arrival_reserved := True\<rparr>, p\<lparr>pl_arrival := pl_arrival p + 1\<rparr>))"

definition reserve_unexpected_resources :: "rx_ctx \<Rightarrow> rx_pool \<Rightarrow> bool \<times> rx_ctx \<times> rx_pool" where
  "reserve_unexpected_resources c p =
    (if cx_unexpected_reserved c then (True, c, p)
     else if pl_max_messages p \<le> pl_messages p \<or> pl_max_bytes p < pl_bytes p + cx_total_length c
     then (False, c, p\<lparr>pl_unexpected_failures := pl_unexpected_failures p + 1\<rparr>)
     else (True, c\<lparr>cx_unexpected_reserved := True\<rparr>,
           p\<lparr>pl_messages := pl_messages p + 1, pl_bytes := pl_bytes p + cx_total_length c\<rparr>))"

definition reserve_read_track :: "rx_pool \<Rightarrow> bool \<times> rx_pool" where
  "reserve_read_track p =
    (if pl_max_tracks p \<le> pl_tracks p
     then (False, p\<lparr>pl_track_failures := pl_track_failures p + 1\<rparr>)
     else (True, p\<lparr>pl_tracks := pl_tracks p + 1\<rparr>))"

definition release_read_track :: "rx_pool \<Rightarrow> rx_pool" where
  "release_read_track p = p\<lparr>pl_tracks := pl_tracks p - min 1 (pl_tracks p)\<rparr>"

text \<open>
  \<open>StoreChunkInContext\<close>: the chunk goes to the context's own buffer and, when a receive buffer
  is bound, to that buffer; a chunk index outside the bitmap leaves everything unchanged.
\<close>

definition resize_buffer :: "nat \<Rightarrow> u8 list \<Rightarrow> u8 list" where
  "resize_buffer n bs = (if length bs < n then bs @ replicate (n - length bs) 0 else bs)"

definition splice :: "nat \<Rightarrow> u8 list \<Rightarrow> u8 list \<Rightarrow> u8 list" where
  "splice off bs buf = take off buf @ bs @ drop (off + length bs) buf"

definition store_chunk_in_context ::
  "ns \<Rightarrow> meta_tag \<Rightarrow> packet option \<Rightarrow> rx_ctx \<Rightarrow> mem \<Rightarrow> rx_ctx \<times> mem" where
  "store_chunk_in_context now m p c mm =
    (let ppp = max 1 (cx_payload_per_packet c);
         i = unat (compute_chunk_index m ppp) in
     if length (cx_chunk_arrived c) \<le> i then (c, mm)
     else
       let first = (\<not> cx_chunk_arrived c ! i);
           bs = copy_packet_bytes p;
           off = unat (mt_fragment_offset m);
           buf = resize_buffer (unat (cx_total_length c)) (cx_buffer c);
           buf' = (if bs \<noteq> [] \<and> off < length buf
                   then splice off (take (min (length bs) (length buf - off)) bs) buf else buf);
           mm' = (if cx_target_base c \<noteq> 0 \<and> cx_target_length c \<noteq> 0
                  then snd (copy_packet_bytes_to_target p (cx_target_base c) (mt_fragment_offset m)
                         (cx_target_length c) mm)
                  else mm);
           c' = c\<lparr>cx_buffer := buf',
                  cx_chunk_arrived := (if first then (cx_chunk_arrived c)[i := True] else cx_chunk_arrived c),
                  cx_chunks_done := (if first then cx_chunks_done c + 1 else cx_chunks_done c)\<rparr>
       in (c'\<lparr>cx_buffered_complete := (cx_expected_chunks c' \<le> cx_chunks_done c'),
              cx_last_activity := now_ms now\<rparr>, mm'))"

end
