(* ===== verification/PdsHandlers.thy ===== *)
theory PdsHandlers
  imports PdsRx
begin

text \<open>
  Receive semantics of \<open>PdsManager\<close>, part two: retiring and promoting message contexts,
  pruning, the registration of receive buffers, and the two packet handlers
  \<open>HandleIncomingSendPacket\<close> and \<open>HandleIncomingReadResponsePacket\<close>. A context is a
  reference into \<open>m_rxMessageContexts\<close> in the code; here each handler takes the context out of
  the table, passes it on, and stores it back at every exit.
\<close>

section \<open>Retiring and promoting a context\<close>

definition ctx_lookup :: "rx_ctx \<Rightarrow> lookup_key" where
  "ctx_lookup c = \<lparr>lk_job = cx_job_id c, lk_msg = cx_msg_id c, lk_peer = cx_src_fep c\<rparr>"

text \<open>\<open>RetireContextResources\<close>\<close>

definition release_unexpected :: "rx_ctx \<Rightarrow> rx_state \<Rightarrow> rx_state" where
  "release_unexpected c s =
    (if cx_unexpected_reserved c
     then s\<lparr>rs_pool := (rs_pool s)\<lparr>
              pl_messages := pl_messages (rs_pool s) - min 1 (pl_messages (rs_pool s)),
              pl_bytes := pl_bytes (rs_pool s) - min (pl_bytes (rs_pool s)) (cx_total_length c)\<rparr>\<rparr>
     else s)"

definition release_arrival :: "ns \<Rightarrow> rx_ctx \<Rightarrow> rx_state \<Rightarrow> rx_state" where
  "release_arrival now c s =
    (if cx_arrival_reserved c
     then let s' = (if cx_mode c = READ_RESPONSE
            then notify (NotifyReadResponseArrivalContextReleased (cx_job_id c) (cx_msg_id c) (cx_src_fep c) now) s
            else s)
          in s'\<lparr>rs_pool := (rs_pool s')\<lparr>
               pl_arrival := pl_arrival (rs_pool s') - min 1 (pl_arrival (rs_pool s'))\<rparr>\<rparr>
     else s)"

definition release_track :: "rx_ctx \<Rightarrow> rx_state \<Rightarrow> rx_state" where
  "release_track c s =
    (if cx_mode c = READ_RESPONSE \<and> cx_read_track_reserved c
     then s\<lparr>rs_pool := release_read_track (rs_pool s)\<rparr> else s)"

definition retire_context_resources :: "ns \<Rightarrow> rx_ctx \<Rightarrow> rx_state \<Rightarrow> rx_ctx \<times> rx_state" where
  "retire_context_resources now c s =
    (if cx_retired c then (c, s)
     else (c\<lparr>cx_unexpected_reserved := False, cx_arrival_reserved := False,
             cx_read_track_reserved :=
               (if cx_mode c = READ_RESPONSE then False else cx_read_track_reserved c),
             cx_buffer := [], cx_chunk_arrived := [], cx_retired := True,
             cx_retired_at := now_ms now, cx_last_activity := now_ms now\<rparr>,
           release_track c (release_arrival now c (release_unexpected c s))))"

text \<open>\<open>TryPromoteUnexpectedToMatched\<close>: bind the posted receive and copy what is buffered.\<close>

definition try_promote_unexpected :: "rx_ctx \<Rightarrow> rx_state \<Rightarrow> rx_ctx \<times> rx_state" where
  "try_promote_unexpected c s =
    (if cx_mode c \<noteq> UNEXPECTED_BUFFERED then (c, s)
     else case map_of (rs_posted s) (ctx_lookup c) of
       None \<Rightarrow> (c, s)
     | Some b \<Rightarrow>
        if pr_base b = 0 then (c, s)
        else
          let c' = c\<lparr>cx_target_base := pr_base b, cx_target_length := pr_length b,
                     cx_matched_to_recv := True, cx_mode := UNEXPECTED_MATCHED\<rparr>;
              copy_len = min (pr_length b) (of_nat (length (cx_buffer c)));
              b' = b\<lparr>pr_consumed := cx_buffered_complete c\<rparr>
          in (c', s\<lparr>rs_posted := AList.update (ctx_lookup c) b' (rs_posted s),
                     rs_mem := (if copy_len \<noteq> 0
                       then mem_write (pr_base b) (take (unat copy_len) (cx_buffer c)) (rs_mem s)
                       else rs_mem s)\<rparr>))"

definition mark_consumed :: "lookup_key \<Rightarrow> rx_state \<Rightarrow> rx_state" where
  "mark_consumed k s = (case map_of (rs_posted s) k of
      None \<Rightarrow> s
    | Some b \<Rightarrow> s\<lparr>rs_posted := AList.update k (b\<lparr>pr_consumed := True\<rparr>) (rs_posted s)\<rparr>)"

definition record_tombstone :: "ns \<Rightarrow> rx_key \<Rightarrow> rx_ctx \<Rightarrow> rx_state \<Rightarrow> rx_state" where
  "record_tombstone now k c s =
    (let t = \<lparr>tb_modified_length = cx_total_length c, tb_completed_at = now_ms now\<rparr> in
     s\<lparr>rs_tombs := AList.update k t (rs_tombs s),
       rs_lookup_tombs := AList.update (ctx_lookup c) t (rs_lookup_tombs s)\<rparr>)"

definition release_target :: "ns \<Rightarrow> rx_ctx \<Rightarrow> rx_state \<Rightarrow> rx_state" where
  "release_target now c s =
    (let s' = notify (NotifyReadResponseTargetReleased (cx_job_id c) (cx_msg_id c) (cx_src_fep c) now) s
     in s'\<lparr>rs_targets := AList.delete (ctx_lookup c) (rs_targets s')\<rparr>)"

text \<open>\<open>TryRetireCompletedContext\<close>\<close>

definition try_retire_completed :: "ns \<Rightarrow> rx_key \<Rightarrow> rx_ctx \<Rightarrow> rx_state \<Rightarrow> rx_ctx \<times> rx_state" where
  "try_retire_completed now k c s =
    (if \<not> cx_buffered_complete c then (c, s)
     else if cx_mode c = DIRECT_EXPECTED then
       let (c', s') = retire_context_resources now (c\<lparr>cx_completed := True\<rparr>) s
       in (c', record_tombstone now k c' (mark_consumed (ctx_lookup c') s'))
     else if cx_mode c = UNEXPECTED_MATCHED \<and> cx_matched_to_recv c then
       let c' = c\<lparr>cx_completed := True\<rparr>
       in retire_context_resources now c' (record_tombstone now k c' (mark_consumed (ctx_lookup c') s))
     else if cx_mode c = READ_RESPONSE then
       let c' = c\<lparr>cx_completed := True\<rparr>
       in retire_context_resources now c' (release_target now c' s)
     else (c, s))"

section \<open>Pruning\<close>

definition state_ttl :: "rx_state \<Rightarrow> ms" where
  "state_ttl s = max 500 (rs_state_timeout s * 4)"

definition prune_completed_tombstones :: "ns \<Rightarrow> rx_state \<Rightarrow> rx_state" where
  "prune_completed_tombstones now s =
    s\<lparr>rs_tombs := filter (\<lambda>(_, t). now_ms now - tb_completed_at t \<le> state_ttl s) (rs_tombs s),
      rs_lookup_tombs :=
        filter (\<lambda>(_, t). now_ms now - tb_completed_at t \<le> state_ttl s) (rs_lookup_tombs s)\<rparr>"

text \<open>One context of the loop of \<open>PruneReceiveState\<close>: a context that was idle too long is failed
  and retired; one retired long enough is erased (\<open>None\<close>).\<close>

definition prune_ctx :: "ns \<Rightarrow> rx_ctx \<Rightarrow> rx_state \<Rightarrow> rx_ctx option \<times> rx_state" where
  "prune_ctx now c s =
    (let (c', s') =
       (if \<not> cx_retired c \<and> state_ttl s \<le> now_ms now - cx_last_activity c
        then let c1 = c\<lparr>cx_failed := \<not> cx_completed c\<rparr>;
                 s1 = (if cx_mode c1 = READ_RESPONSE then release_target now c1 s else s);
                 (c2, s2) = retire_context_resources now c1 s1
             in (c2, s2\<lparr>rs_stale_cleanups := rs_stale_cleanups s2 + 1\<rparr>)
        else (c, s))
     in (if cx_retired c' \<and> state_ttl s' \<le> now_ms now - cx_retired_at c' then (None, s')
         else (Some c', s')))"

fun prune_ctxs :: "ns \<Rightarrow> (rx_key \<times> rx_ctx) list \<Rightarrow> rx_state \<Rightarrow> (rx_key \<times> rx_ctx) list \<times> rx_state" where
  "prune_ctxs now [] s = ([], s)"
| "prune_ctxs now ((k, c) # xs) s =
    (let (r, s1) = prune_ctx now c s;
         (ys, s2) = prune_ctxs now xs s1
     in (case r of None \<Rightarrow> ys | Some c' \<Rightarrow> (k, c') # ys, s2))"

definition prune_receive_state :: "ns \<Rightarrow> rx_state \<Rightarrow> rx_state" where
  "prune_receive_state now s =
    (let (cs, s') = prune_ctxs now (rs_ctxs s) (prune_completed_tombstones now s)
     in s'\<lparr>rs_ctxs := cs, rs_posted := filter (\<lambda>(_, b). \<not> pr_consumed b) (rs_posted s')\<rparr>)"

section \<open>Registering buffers\<close>

text \<open>\<open>RegisterPostedReceive\<close>: the loop over the contexts promotes the ones that match.\<close>

fun match_ctxs :: "ns \<Rightarrow> u64 \<Rightarrow> u16 \<Rightarrow> u32 \<Rightarrow> (rx_key \<times> rx_ctx) list \<Rightarrow> rx_state
    \<Rightarrow> (rx_key \<times> rx_ctx) list \<times> rx_state" where
  "match_ctxs now job msg src [] s = ([], s)"
| "match_ctxs now job msg src ((k, c) # xs) s =
    (let (c', s1) =
       (if \<not> is_context_active c \<or> cx_op c \<noteq> SEND \<or> cx_job_id c \<noteq> job \<or> cx_msg_id c \<noteq> msg
           \<or> cx_src_fep c \<noteq> src
        then (c, s)
        else let (c1, s1) = try_promote_unexpected c s in try_retire_completed now k c1 s1);
         (ys, s2) = match_ctxs now job msg src xs s1
     in ((k, c') # ys, s2))"

definition register_posted_receive ::
  "ns \<Rightarrow> u64 \<Rightarrow> u16 \<Rightarrow> u32 \<Rightarrow> u64 \<Rightarrow> u32 \<Rightarrow> rx_state \<Rightarrow> bool \<times> rx_state" where
  "register_posted_receive now job msg src base len s =
    (let s0 = prune_receive_state now s;
         k = \<lparr>lk_job = job, lk_msg = msg, lk_peer = src\<rparr>;
         s1 = s0\<lparr>rs_posted := AList.update k
                  \<lparr>pr_base = base, pr_length = len, pr_consumed = False\<rparr> (rs_posted s0)\<rparr>;
         (cs, s2) = match_ctxs now job msg src (rs_ctxs s1) s1
     in (True, s2\<lparr>rs_ctxs := cs\<rparr>))"

definition register_read_response_target ::
  "ns \<Rightarrow> u64 \<Rightarrow> u16 \<Rightarrow> u32 \<Rightarrow> u64 \<Rightarrow> u32 \<Rightarrow> rx_state \<Rightarrow> bool \<times> rx_state" where
  "register_read_response_target now job msg peer base len s =
    (let s0 = prune_receive_state now s;
         k = \<lparr>lk_job = job, lk_msg = msg, lk_peer = peer\<rparr>;
         s1 = s0\<lparr>rs_targets := AList.update k
                  \<lparr>tg_base = base, tg_length = len, tg_registered_at = now_ms now\<rparr> (rs_targets s0)\<rparr>
     in (True, notify (NotifyReadResponseTargetRegistered job msg peer now) s1))"

definition unregister_read_response_target ::
  "ns \<Rightarrow> u64 \<Rightarrow> u16 \<Rightarrow> u32 \<Rightarrow> rx_state \<Rightarrow> bool \<times> rx_state" where
  "unregister_read_response_target now job msg peer s =
    (let k = \<lparr>lk_job = job, lk_msg = msg, lk_peer = peer\<rparr> in
     case map_of (rs_targets s) k of
       None \<Rightarrow> (False, s)
     | Some _ \<Rightarrow>
        let s' = notify (NotifyReadResponseTargetReleased job msg peer now) s
        in (True, s'\<lparr>rs_targets := AList.delete k (rs_targets s')\<rparr>))"

section \<open>Incoming SEND packets\<close>

definition send_key :: "u16 \<Rightarrow> header_tag \<Rightarrow> meta_tag \<Rightarrow> rx_key" where
  "send_key pdc h m = \<lparr>rk_op = SEND, rk_job = ucast (ht_job h), rk_msg = ucast (mt_msg_id m),
     rk_src = ht_src h, rk_pdc = pdc\<rparr>"

definition tag_lookup :: "header_tag \<Rightarrow> meta_tag \<Rightarrow> lookup_key" where
  "tag_lookup h m = \<lparr>lk_job = ucast (ht_job h), lk_msg = ucast (mt_msg_id m), lk_peer = ht_src h\<rparr>"

text \<open>A completed message is answered again from its tombstone.\<close>

definition tombstone_result :: "tombstone \<Rightarrow> rx_result" where
  "tombstone_result t = no_result\<lparr>rr_handled := True, rr_response_ready := True,
     rr_response_opcode := UET_DEFAULT_RESPONSE, rr_return_code := RC_OK,
     rr_modified_length := tb_modified_length t, rr_delivery_complete := True,
     rr_semantic_accepted := True\<rparr>"

definition new_send_ctx :: "ns \<Rightarrow> u16 \<Rightarrow> header_tag \<Rightarrow> meta_tag \<Rightarrow> rx_state \<Rightarrow> rx_ctx" where
  "new_send_ctx now pdc h m s =
    (let ppp = compute_payload_per_packet s;
         n = compute_expected_chunks ppp (mt_request_length m) in
     fresh_ctx\<lparr>cx_present := True, cx_op := SEND, cx_src_fep := ht_src h, cx_dst_fep := ht_dst h,
       cx_job_id := ucast (ht_job h), cx_msg_id := ucast (mt_msg_id m), cx_pdc_id := pdc,
       cx_total_length := mt_request_length m, cx_payload_per_packet := ppp,
       cx_expected_chunks := n, cx_chunk_arrived := replicate (unat n) False,
       cx_created_at := now_ms now, cx_last_activity := now_ms now\<rparr>)"

definition open_ctx :: "rx_ctx \<Rightarrow> rx_key \<Rightarrow> rx_state \<Rightarrow> rx_ctx" where
  "open_ctx new k s = (case map_of (rs_ctxs s) k of
      None \<Rightarrow> new
    | Some c \<Rightarrow> if \<not> cx_present c \<or> cx_retired c then new else c)"

definition posted_for :: "lookup_key \<Rightarrow> rx_state \<Rightarrow> posted_receive option" where
  "posted_for k s = (case map_of (rs_posted s) k of
      None \<Rightarrow> None
    | Some b \<Rightarrow> if pr_base b = 0 then None else Some b)"

text \<open>A rejection: NACK with a return code, the context failed and its resources released.\<close>

definition nack_result :: "u8 \<Rightarrow> rx_result" where
  "nack_result rc = no_result\<lparr>rr_handled := True, rr_response_ready := True,
     rr_response_opcode := UET_NACK, rr_return_code := rc\<rparr>"

definition reject_ctx :: "ns \<Rightarrow> u8 \<Rightarrow> rx_ctx \<Rightarrow> rx_state \<Rightarrow> bool \<times> rx_result \<times> rx_ctx \<times> rx_state" where
  "reject_ctx now rc c s =
    (let (c', s') = retire_context_resources now (c\<lparr>cx_failed := True\<rparr>) s
     in (True, nack_result rc, c', s'))"

text \<open>Admission of a packet with a posted receive: an arrival block is needed to bind the buffer.\<close>

definition admit_expected ::
  "ns \<Rightarrow> posted_receive \<Rightarrow> rx_ctx \<Rightarrow> rx_state \<Rightarrow> bool \<times> rx_result \<times> rx_ctx \<times> rx_state" where
  "admit_expected now b c s =
    (let accept = (\<lambda>c s. (False, no_result,
           (if cx_semantic_accepted c then c
            else c\<lparr>cx_mode := DIRECT_EXPECTED, cx_semantic_accepted := True\<rparr>), s))
     in if cx_mode c = DIRECT_EXPECTED \<and> cx_target_base c = 0
        then let (ok, c1, p) = reserve_arrival_block c (rs_pool s); s1 = s\<lparr>rs_pool := p\<rparr>
             in if \<not> ok then reject_ctx now RC_RESOURCE_EXHAUST c1 s1
                else accept (c1\<lparr>cx_target_base := pr_base b, cx_target_length := pr_length b\<rparr>) s1
        else accept c s)"

text \<open>Admission without a posted receive: an unexpected message needs an arrival block and a place
  in the unexpected buffer, and is answered at once.\<close>

definition admit_unexpected ::
  "ns \<Rightarrow> rx_ctx \<Rightarrow> rx_state \<Rightarrow> bool \<times> rx_result \<times> rx_ctx \<times> rx_state" where
  "admit_unexpected now c s =
    (if cx_mode c = DIRECT_EXPECTED \<and> \<not> cx_semantic_accepted c \<and> cx_target_base c = 0
     then let (ok, c1, p) = reserve_arrival_block c (rs_pool s); s1 = s\<lparr>rs_pool := p\<rparr>
          in if \<not> ok
             then reject_ctx now
               (if pl_max_messages p = 0 \<or> pl_max_bytes p = 0 then RC_NO_MATCH else RC_RESOURCE_EXHAUST)
               c1 s1
             else let (ok2, c2, p2) = reserve_unexpected_resources c1 p; s2 = s1\<lparr>rs_pool := p2\<rparr>
               in if \<not> ok2 then reject_ctx now RC_NO_MATCH c2 s2
                  else (False,
                    no_result\<lparr>rr_response_ready := True, rr_response_opcode := UET_DEFAULT_RESPONSE,
                      rr_return_code := RC_OK, rr_modified_length := cx_total_length c2,
                      rr_semantic_accepted := True\<rparr>,
                    c2\<lparr>cx_mode := UNEXPECTED_BUFFERED, cx_semantic_accepted := True,
                       cx_buffer := replicate (unat (cx_total_length c2)) 0,
                       cx_response_sent := True\<rparr>, s2)
     else (False, no_result, c, s))"

definition admit_send ::
  "ns \<Rightarrow> lookup_key \<Rightarrow> rx_ctx \<Rightarrow> rx_state \<Rightarrow> bool \<times> rx_result \<times> rx_ctx \<times> rx_state" where
  "admit_send now k c s = (case posted_for k s of
      Some b \<Rightarrow> admit_expected now b c s
    | None \<Rightarrow> admit_unexpected now c s)"

text \<open>The admitted packet: copy, store the chunk, promote, retire when complete, answer.\<close>

definition store_send_chunk ::
  "ns \<Rightarrow> rx_key \<Rightarrow> meta_tag \<Rightarrow> packet option \<Rightarrow> rx_ctx \<Rightarrow> rx_state \<Rightarrow> rx_ctx \<times> rx_state" where
  "store_send_chunk now k m p c s =
    (let m1 = (if cx_mode c = DIRECT_EXPECTED
               then snd (copy_packet_bytes_to_target p (cx_target_base c) (mt_fragment_offset m)
                      (max 1 (cx_target_length c)) (rs_mem s))
               else rs_mem s);
         (c1, m2) = store_chunk_in_context now m p c m1;
         s1 = s\<lparr>rs_mem := m2\<rparr>;
         (c2, s2) = (if cx_mode c1 = UNEXPECTED_BUFFERED \<or> cx_mode c1 = UNEXPECTED_MATCHED
                     then try_promote_unexpected c1 s1 else (c1, s1))
     in try_retire_completed now k c2 s2)"

definition answer_send :: "ns \<Rightarrow> rx_result \<Rightarrow> rx_ctx \<Rightarrow> rx_result \<times> rx_ctx" where
  "answer_send now r c =
    (let respond = (cx_mode c = DIRECT_EXPECTED \<and> cx_completed c \<and> \<not> cx_response_sent c);
         r1 = (if respond
               then r\<lparr>rr_response_ready := True, rr_response_opcode := UET_DEFAULT_RESPONSE,
                      rr_return_code := RC_OK, rr_modified_length := cx_total_length c\<rparr>
               else r);
         c1 = (if respond then c\<lparr>cx_response_sent := True\<rparr> else c)
     in (r1\<lparr>rr_handled := True, rr_semantic_accepted := cx_semantic_accepted c1,
            rr_matched_to_recv := cx_matched_to_recv c1, rr_delivery_complete := cx_completed c1,
            rr_consume_complete_ns := (if cx_completed c1 then now else rr_consume_complete_ns r1),
            rr_failed := cx_failed c1\<rparr>, c1))"

definition put_ctx :: "rx_key \<Rightarrow> rx_ctx \<Rightarrow> rx_state \<Rightarrow> rx_state" where
  "put_ctx k c s = s\<lparr>rs_ctxs := AList.update k c (rs_ctxs s)\<rparr>"

definition process_send ::
  "ns \<Rightarrow> u16 \<Rightarrow> header_tag \<Rightarrow> meta_tag \<Rightarrow> packet option \<Rightarrow> rx_state \<Rightarrow> rx_result \<times> rx_state" where
  "process_send now pdc h m p s =
    (let k = send_key pdc h m;
         (rejected, r, c, s1) =
           admit_send now (tag_lookup h m) (open_ctx (new_send_ctx now pdc h m s) k s) s
     in if rejected then (r, put_ctx k c s1)
        else let (c2, s2) = store_send_chunk now k m p c s1;
                 (r2, c3) = answer_send now r c2
             in (r2, put_ctx k c3 s2))"

definition handle_incoming_send_packet ::
  "ns \<Rightarrow> u16 \<Rightarrow> header_tag \<Rightarrow> meta_tag \<Rightarrow> packet option \<Rightarrow> rx_state \<Rightarrow> rx_result \<times> rx_state" where
  "handle_incoming_send_packet now pdc h m p s =
    (let s0 = prune_receive_state now s in
     case map_of (rs_tombs s0) (send_key pdc h m) of
       Some t \<Rightarrow> (tombstone_result t, s0)
     | None \<Rightarrow> (case map_of (rs_lookup_tombs s0) (tag_lookup h m) of
         Some t \<Rightarrow> (tombstone_result t, s0)
       | None \<Rightarrow> process_send now pdc h m p s0))"

section \<open>Incoming READ responses\<close>

definition read_key :: "u16 \<Rightarrow> header_tag \<Rightarrow> meta_tag \<Rightarrow> rx_key" where
  "read_key pdc h m = \<lparr>rk_op = READ, rk_job = ucast (ht_job h), rk_msg = ucast (mt_msg_id m),
     rk_src = ht_src h, rk_pdc = pdc\<rparr>"

definition new_read_ctx ::
  "ns \<Rightarrow> u16 \<Rightarrow> header_tag \<Rightarrow> meta_tag \<Rightarrow> read_target \<Rightarrow> rx_state \<Rightarrow> rx_ctx" where
  "new_read_ctx now pdc h m t s =
    (let ppp = compute_payload_per_packet s;
         n = compute_expected_chunks ppp (mt_modified_length m) in
     fresh_ctx\<lparr>cx_present := True, cx_op := READ, cx_src_fep := ht_src h, cx_dst_fep := ht_dst h,
       cx_job_id := ucast (ht_job h), cx_msg_id := ucast (mt_msg_id m), cx_pdc_id := pdc,
       cx_total_length := mt_modified_length m, cx_payload_per_packet := ppp,
       cx_expected_chunks := n, cx_chunk_arrived := replicate (unat n) False,
       cx_mode := READ_RESPONSE, cx_semantic_accepted := True,
       cx_target_base := tg_base t, cx_target_length := tg_length t,
       cx_created_at := now_ms now, cx_last_activity := now_ms now\<rparr>)"

text \<open>The first packet of a response reserves a read track and an arrival block.\<close>

definition admit_read ::
  "ns \<Rightarrow> rx_ctx \<Rightarrow> rx_state \<Rightarrow> bool \<times> rx_result \<times> rx_ctx \<times> rx_state" where
  "admit_read now c s =
    (let (ok, p) = reserve_read_track (rs_pool s); s1 = s\<lparr>rs_pool := p\<rparr>
     in if \<not> ok then reject_ctx now RC_RESOURCE_EXHAUST c s1
        else
          let (ok2, c2, p2) = reserve_arrival_block (c\<lparr>cx_read_track_reserved := True\<rparr>) p;
              s2 = s1\<lparr>rs_pool := p2\<rparr>
          in if \<not> ok2
             then reject_ctx now RC_RESOURCE_EXHAUST c2
               (notify (NotifyReadResponseArrivalBlockReserveFailed
                  (cx_job_id c) (cx_msg_id c) (cx_src_fep c) now) s2)
             else (False, no_result, c2,
               notify (NotifyReadResponseArrivalBlockReserved
                  (cx_job_id c) (cx_msg_id c) (cx_src_fep c) now) s2))"

definition open_read ::
  "ns \<Rightarrow> u16 \<Rightarrow> header_tag \<Rightarrow> meta_tag \<Rightarrow> read_target \<Rightarrow> rx_state
    \<Rightarrow> bool \<times> rx_result \<times> rx_ctx \<times> rx_state" where
  "open_read now pdc h m t s =
    (let new = (\<lambda>s. admit_read now (new_read_ctx now pdc h m t s)
           (notify (NotifyReadResponseFirstPacketNoContext
              (ucast (ht_job h)) (ucast (mt_msg_id m)) (ht_src h) now) s))
     in case map_of (rs_ctxs s) (read_key pdc h m) of
       None \<Rightarrow> new s
     | Some c \<Rightarrow> if \<not> cx_present c \<or> cx_retired c then new s else (False, no_result, c, s))"

text \<open>The gap bookkeeping before and after the chunk is stored.\<close>

definition track_gap :: "ns \<Rightarrow> lookup_key \<Rightarrow> u32 \<Rightarrow> bool \<Rightarrow> rx_ctx \<Rightarrow> rx_state \<Rightarrow> rx_ctx \<times> rx_state" where
  "track_gap now lk i first c s =
    (if \<not> cx_gap_tracked c \<and> \<not> cx_gap_completed c \<and> first \<and> count_contiguous_chunks c < i
     then (c\<lparr>cx_gap_tracked := True, cx_gap_missing := count_contiguous_chunks c\<rparr>,
           notify (NotifyReadResponseGapDetected (lk_job lk) (lk_msg lk) (lk_peer lk)
             (count_contiguous_chunks c) now) s)
     else (c, s))"

definition note_recovery ::
  "ns \<Rightarrow> lookup_key \<Rightarrow> u32 \<Rightarrow> bool \<Rightarrow> packet option \<Rightarrow> rx_ctx \<Rightarrow> rx_state \<Rightarrow> rx_ctx \<times> rx_state" where
  "note_recovery now lk i first p c s =
    (if cx_gap_tracked c \<and> \<not> cx_gap_visible c \<and> first \<and> i = cx_gap_missing c
     then (case Option.bind p pk_recovery of
        None \<Rightarrow> (c, s)
      | Some rt \<Rightarrow>
          (c\<lparr>cx_gap_visible := True\<rparr>,
           notify (NotifyReadResponseRecoveryVisible (lk_job lk) (lk_msg lk) (lk_peer lk) i
             (rt_gap_nack_sent rt) (rt_retransmit_tx rt) now) s))
     else (c, s))"

definition close_gap :: "ns \<Rightarrow> lookup_key \<Rightarrow> bool \<Rightarrow> rx_ctx \<Rightarrow> rx_state \<Rightarrow> rx_ctx \<times> rx_state" where
  "close_gap now lk first c s =
    (if cx_gap_tracked c \<and> \<not> cx_gap_completed c \<and> first
        \<and> cx_gap_missing c < count_contiguous_chunks c
     then (c\<lparr>cx_gap_completed := True\<rparr>,
           notify (NotifyReadResponseReassemblyUnblocked (lk_job lk) (lk_msg lk) (lk_peer lk)
             (cx_gap_missing c) now) s)
     else (c, s))"

definition store_read_chunk ::
  "ns \<Rightarrow> rx_key \<Rightarrow> lookup_key \<Rightarrow> meta_tag \<Rightarrow> packet option \<Rightarrow> rx_ctx \<Rightarrow> rx_state \<Rightarrow> rx_ctx \<times> rx_state" where
  "store_read_chunk now k lk m p c s =
    (let i = compute_chunk_index m (max 1 (cx_payload_per_packet c));
         first = (unat i < length (cx_chunk_arrived c) \<and> \<not> cx_chunk_arrived c ! unat i);
         (c1, s1) = track_gap now lk i first c s;
         (c2, mm) = store_chunk_in_context now m p c1 (rs_mem s1);
         (c3, s3) = note_recovery now lk i first p c2 (s1\<lparr>rs_mem := mm\<rparr>);
         (c4, s4) = close_gap now lk first c3 s3
     in try_retire_completed now k c4 s4)"

definition handle_incoming_read_response_packet ::
  "ns \<Rightarrow> u16 \<Rightarrow> header_tag \<Rightarrow> meta_tag \<Rightarrow> packet option \<Rightarrow> rx_state \<Rightarrow> rx_result \<times> rx_state" where
  "handle_incoming_read_response_packet now pdc h m p s =
    (let s0 = prune_receive_state now s; k = read_key pdc h m in
     case map_of (rs_targets s0) (tag_lookup h m) of
       None \<Rightarrow> (no_result, s0)
     | Some t \<Rightarrow>
        let (rejected, r, c, s1) = open_read now pdc h m t s0
        in if rejected then (r, put_ctx k c s1)
           else let (c2, s2) = store_read_chunk now k (tag_lookup h m) m p c s1
             in (no_result\<lparr>rr_handled := True, rr_delivery_complete := cx_completed c2,
                   rr_modified_length := cx_total_length c2,
                   rr_response_opcode := UET_RESPONSE_W_DATA, rr_return_code := RC_OK\<rparr>,
                 put_ctx k c2 s2))"

section \<open>Reset\<close>

text \<open>The receive tables and the pool's counters in \<open>ResetReceiveState\<close>; the limits stay.\<close>

definition reset_rx_tables :: "rx_state \<Rightarrow> rx_state" where
  "reset_rx_tables s = s\<lparr>rs_posted := [], rs_targets := [], rs_ctxs := [], rs_tombs := [],
     rs_lookup_tombs := [],
     rs_pool := (rs_pool s)\<lparr>pl_messages := 0, pl_bytes := 0, pl_arrival := 0, pl_tracks := 0\<rparr>\<rparr>"

definition configure_receive_semantics :: "u32 \<Rightarrow> u32 \<Rightarrow> u32 \<Rightarrow> ms \<Rightarrow> rx_state \<Rightarrow> rx_state" where
  "configure_receive_semantics max_messages max_bytes max_arrival timeout s =
    s\<lparr>rs_state_timeout := timeout,
      rs_pool := (rs_pool s)\<lparr>pl_max_messages := max_messages, pl_max_bytes := max_bytes,
                            pl_max_arrival := max_arrival\<rparr>\<rparr>"

end
