(* ===== verification/PdsRxInv.thy ===== *)
theory PdsRxInv
  imports PdsHandlers
begin

text \<open>
  Resource accounting of the receive side: the counters of the resource pool are exactly the
  reservations of the contexts in the table, every operation keeps that, and a context that is
  retired holds nothing.
\<close>

section \<open>Weights and totals\<close>

definition w_arrival :: "rx_ctx \<Rightarrow> nat" where "w_arrival c = of_bool (cx_arrival_reserved c)"
definition w_message :: "rx_ctx \<Rightarrow> nat" where "w_message c = of_bool (cx_unexpected_reserved c)"
definition w_bytes :: "rx_ctx \<Rightarrow> nat" where
  "w_bytes c = (if cx_unexpected_reserved c then unat (cx_total_length c) else 0)"
definition w_track :: "rx_ctx \<Rightarrow> nat" where "w_track c = of_bool (cx_read_track_reserved c)"

lemmas w_defs = w_arrival_def w_message_def w_bytes_def w_track_def

definition table_total :: "('c \<Rightarrow> nat) \<Rightarrow> ('k \<times> 'c) list \<Rightarrow> nat" where
  "table_total f xs = sum_list (map (f \<circ> snd) xs)"

lemma table_total_simps [simp]:
  "table_total f [] = 0" "table_total f ((k, c) # xs) = f c + table_total f xs"
  by (simp_all add: table_total_def)

lemma table_total_delete:
  "distinct (map fst xs) \<Longrightarrow>
     table_total f xs = table_total f (AList.delete k xs) + (case map_of xs k of None \<Rightarrow> 0 | Some c \<Rightarrow> f c)"
proof (induction xs)
  case (Cons x xs)
  obtain k' c' where x: "x = (k', c')" by (cases x)
  have "AList.delete k' xs = xs" using Cons.prems x by (simp add: delete_id)
  then show ?case using Cons x by (cases "k' = k") simp_all
qed simp

lemma table_total_update:
  "distinct (map fst xs) \<Longrightarrow> table_total f (AList.update k c xs) = table_total f (AList.delete k xs) + f c"
proof (induction xs)
  case (Cons x xs)
  obtain k' c' where x: "x = (k', c')" by (cases x)
  have "AList.delete k' xs = xs" using Cons.prems x by (simp add: delete_id)
  then show ?case using Cons x by (cases "k' = k") simp_all
qed simp

text \<open>
  The pool agrees with a context that is held outside the table, on top of what the rest of the
  table reserves (\<open>na\<close> arrival blocks, \<open>nm\<close> unexpected messages of \<open>nb\<close> bytes, \<open>nt\<close> read tracks);
  the bytes only while \<open>exact\<close>, that is, as long as no admission wrapped around.
\<close>

definition acct :: "bool \<Rightarrow> nat \<Rightarrow> nat \<Rightarrow> nat \<Rightarrow> nat \<Rightarrow> rx_ctx \<Rightarrow> rx_pool \<Rightarrow> bool" where
  "acct exact na nm nb nt c p \<longleftrightarrow>
     unat (pl_arrival p) = na + w_arrival c \<and> unat (pl_messages p) = nm + w_message c \<and>
     (exact \<longrightarrow> unat (pl_bytes p) = nb + w_bytes c) \<and> unat (pl_tracks p) = nt + w_track c"

definition within_limits :: "rx_pool \<Rightarrow> bool" where
  "within_limits p \<longleftrightarrow> pl_arrival p \<le> pl_max_arrival p \<and> pl_messages p \<le> pl_max_messages p \<and>
     pl_bytes p \<le> pl_max_bytes p \<and> pl_tracks p \<le> pl_max_tracks p"

definition same_limits :: "rx_pool \<Rightarrow> rx_pool \<Rightarrow> bool" where
  "same_limits p q \<longleftrightarrow> pl_max_arrival q = pl_max_arrival p \<and> pl_max_messages q = pl_max_messages p \<and>
     pl_max_bytes q = pl_max_bytes p \<and> pl_max_tracks q = pl_max_tracks p"

text \<open>What a context in the table satisfies.\<close>

definition ctx_ok :: "rx_ctx \<Rightarrow> bool" where
  "ctx_ok c \<longleftrightarrow>
     (cx_retired c \<longrightarrow> \<not> cx_arrival_reserved c \<and> \<not> cx_unexpected_reserved c \<and> \<not> cx_read_track_reserved c) \<and>
     (\<not> cx_present c \<longrightarrow> \<not> cx_arrival_reserved c \<and> \<not> cx_unexpected_reserved c \<and> \<not> cx_read_track_reserved c) \<and>
     (cx_read_track_reserved c \<longrightarrow> cx_mode c = READ_RESPONSE)"

text \<open>The three outcomes of a reservation: held already, refused, granted.\<close>

lemma reserve_arrival_cases:
  assumes "reserve_arrival_block c p = (ok, c', p')"
  obtains "cx_arrival_reserved c" "ok" "c' = c" "p' = p"
  | "\<not> cx_arrival_reserved c" "\<not> ok" "c' = c" "p' = p\<lparr>pl_arrival_failures := pl_arrival_failures p + 1\<rparr>"
  | "\<not> cx_arrival_reserved c" "ok" "\<not> pl_max_arrival p \<le> pl_arrival p"
    "c' = c\<lparr>cx_arrival_reserved := True\<rparr>" "p' = p\<lparr>pl_arrival := pl_arrival p + 1\<rparr>"
proof (cases "cx_arrival_reserved c")
  case True
  then have e: "ok" "c' = c" "p' = p" using assms by (simp_all add: reserve_arrival_block_def)
  show ?thesis by (rule that(1)) (fact True e)+
next
  case False
  show ?thesis
  proof (cases "pl_max_arrival p \<le> pl_arrival p")
    case True
    then have e: "\<not> ok" "c' = c" "p' = p\<lparr>pl_arrival_failures := pl_arrival_failures p + 1\<rparr>"
      using assms False by (simp_all add: reserve_arrival_block_def)
    show ?thesis by (rule that(2)) (fact False e)+
  next
    case le: False
    then have e: "ok" "c' = c\<lparr>cx_arrival_reserved := True\<rparr>" "p' = p\<lparr>pl_arrival := pl_arrival p + 1\<rparr>"
      using assms False by (simp_all add: reserve_arrival_block_def)
    show ?thesis by (rule that(3)) (fact False le e)+
  qed
qed

lemma reserve_unexpected_cases:
  assumes "reserve_unexpected_resources c p = (ok, c', p')"
  obtains "cx_unexpected_reserved c" "ok" "c' = c" "p' = p"
  | "\<not> cx_unexpected_reserved c" "\<not> ok" "c' = c"
    "p' = p\<lparr>pl_unexpected_failures := pl_unexpected_failures p + 1\<rparr>"
  | "\<not> cx_unexpected_reserved c" "ok" "\<not> pl_max_messages p \<le> pl_messages p"
    "\<not> pl_max_bytes p < pl_bytes p + cx_total_length c"
    "c' = c\<lparr>cx_unexpected_reserved := True\<rparr>"
    "p' = p\<lparr>pl_messages := pl_messages p + 1, pl_bytes := pl_bytes p + cx_total_length c\<rparr>"
proof (cases "cx_unexpected_reserved c")
  case True
  then have e: "ok" "c' = c" "p' = p" using assms by (simp_all add: reserve_unexpected_resources_def)
  show ?thesis by (rule that(1)) (fact True e)+
next
  case False
  show ?thesis
  proof (cases "pl_max_messages p \<le> pl_messages p \<or> pl_max_bytes p < pl_bytes p + cx_total_length c")
    case True
    then have e: "\<not> ok" "c' = c" "p' = p\<lparr>pl_unexpected_failures := pl_unexpected_failures p + 1\<rparr>"
      using assms False by (simp_all add: reserve_unexpected_resources_def)
    show ?thesis by (rule that(2)) (fact False e)+
  next
    case le: False
    then have e: "ok" "c' = c\<lparr>cx_unexpected_reserved := True\<rparr>" "p' = p\<lparr>pl_messages := pl_messages p + 1, pl_bytes := pl_bytes p + cx_total_length c\<rparr>"
      using assms False by (simp_all add: reserve_unexpected_resources_def)
    have "\<not> pl_max_messages p \<le> pl_messages p" "\<not> pl_max_bytes p < pl_bytes p + cx_total_length c"
      using le by blast+
    then show ?thesis using False e by (intro that(3))
  qed
qed

lemma acct_reserve_arrival:
  assumes r: "reserve_arrival_block c p = (ok, c', p')" and a: "acct exact na nm nb nt c p" and l: "within_limits p"
  shows "acct exact na nm nb nt c' p' \<and> within_limits p' \<and> same_limits p p' \<and>
    c' = c\<lparr>cx_arrival_reserved := ok\<rparr>"
  using r
proof (cases rule: reserve_arrival_cases)
  case 1
  then show ?thesis using a l by (simp add: same_limits_def)
next
  case 2
  then show ?thesis using a l by (simp add: acct_def within_limits_def same_limits_def)
next
  case 3
  with unat_inc_below [OF 3(3)] show ?thesis using a l
    by (simp add: acct_def within_limits_def same_limits_def w_defs)
qed

lemma acct_reserve_unexpected:
  assumes r: "reserve_unexpected_resources c p = (ok, c', p')" and a: "acct exact na nm nb nt c p"
    and l: "within_limits p" and small: "exact \<longrightarrow> unat (pl_max_bytes p) + unat (cx_total_length c) < 2 ^ 32"
  shows "acct exact na nm nb nt c' p' \<and> within_limits p' \<and> same_limits p p' \<and>
    c' = c\<lparr>cx_unexpected_reserved := ok\<rparr>"
  using r
proof (cases rule: reserve_unexpected_cases)
  case 1
  then show ?thesis using a l by (simp add: same_limits_def)
next
  case 2
  then show ?thesis using a l by (simp add: acct_def within_limits_def same_limits_def)
next
  case 3
  have b: "exact \<longrightarrow> unat (pl_bytes p + cx_total_length c) = unat (pl_bytes p) + unat (cx_total_length c)"
    using l small by (intro impI unat_add_nowrap) (simp add: within_limits_def word_le_nat_alt)
  show ?thesis using 3 a l unat_inc_below [OF 3(3)]
    by (simp add: acct_def within_limits_def same_limits_def w_defs b)
qed

lemma acct_reserve_track:
  assumes r: "reserve_read_track p = (ok, p')" and a: "acct exact na nm nb nt c p" and l: "within_limits p"
    and n: "\<not> cx_read_track_reserved c"
  shows "acct exact na nm nb nt (c\<lparr>cx_read_track_reserved := ok\<rparr>) p' \<and> within_limits p' \<and> same_limits p p'"
proof (cases "pl_max_tracks p \<le> pl_tracks p")
  case True
  then have "\<not> ok" "p' = p\<lparr>pl_track_failures := pl_track_failures p + 1\<rparr>"
    using r by (simp_all add: reserve_read_track_def)
  then show ?thesis using a l n by (simp add: acct_def within_limits_def same_limits_def w_defs)
next
  case False
  then have "ok" "p' = p\<lparr>pl_tracks := pl_tracks p + 1\<rparr>"
    using r by (simp_all add: reserve_read_track_def)
  with unat_inc_below [OF False] show ?thesis using a l n
    by (simp add: acct_def within_limits_def same_limits_def w_defs)
qed

text \<open>Retiring gives back exactly what the context holds.\<close>

lemma rs_pool_notify [simp]: "rs_pool (notify n s) = rs_pool s"
  by (simp add: notify_def)

lemma pool_release_unexpected:
  "rs_pool (release_unexpected c s) = (rs_pool s)
     \<lparr>pl_messages := pl_messages (rs_pool s) - min (pl_messages (rs_pool s)) (of_nat (w_message c)),
      pl_bytes := pl_bytes (rs_pool s) - min (pl_bytes (rs_pool s)) (of_nat (w_bytes c))\<rparr>"
  by (simp add: release_unexpected_def w_defs min.commute)

lemma pool_release_arrival:
  "rs_pool (release_arrival now c s) = (rs_pool s)
     \<lparr>pl_arrival := pl_arrival (rs_pool s) - min (pl_arrival (rs_pool s)) (of_nat (w_arrival c))\<rparr>"
  by (simp add: release_arrival_def w_defs min.commute)

lemma pool_release_track:
  "cx_read_track_reserved c \<longrightarrow> cx_mode c = READ_RESPONSE \<Longrightarrow>
   rs_pool (release_track c s) = (rs_pool s)
     \<lparr>pl_tracks := pl_tracks (rs_pool s) - min (pl_tracks (rs_pool s)) (of_nat (w_track c))\<rparr>"
  by (simp add: release_track_def release_read_track_def w_defs min.commute)

lemmas pool_release = pool_release_unexpected pool_release_arrival pool_release_track

lemma unat_weights [simp]:
  "unat (of_nat (w_arrival c) :: u32) = w_arrival c" "unat (of_nat (w_message c) :: u32) = w_message c"
  "unat (of_nat (w_bytes c) :: u32) = w_bytes c" "unat (of_nat (w_track c) :: u32) = w_track c"
  by (simp_all add: w_defs)

lemma retire_pool:
  assumes "acct exact na nm nb nt c (rs_pool s)" "within_limits (rs_pool s)"
    and "cx_read_track_reserved c \<longrightarrow> cx_mode c = READ_RESPONSE" and "ctx_ok c"
    and "retire_context_resources now c s = (c', s')"
  shows "acct exact na nm nb nt c' (rs_pool s') \<and> within_limits (rs_pool s') \<and>
    same_limits (rs_pool s) (rs_pool s') \<and> ctx_ok c' \<and> cx_retired c'"
proof (cases "cx_retired c")
  case True
  then show ?thesis using assms by (simp add: retire_context_resources_def same_limits_def)
next
  case False
  let ?p = "rs_pool s" and ?q = "rs_pool s'"
  have c': "\<not> cx_arrival_reserved c'" "\<not> cx_unexpected_reserved c'" "\<not> cx_read_track_reserved c'" "cx_retired c'"
    using assms(3,5) False by (auto simp: retire_context_resources_def split: if_splits)
  have q_eq: "?q = rs_pool (release_track c (release_arrival now c (release_unexpected c s)))"
    using assms(5) False by (auto simp: retire_context_resources_def)
  have q: "unat (pl_arrival ?q) = unat (pl_arrival ?p) - w_arrival c"
      "unat (pl_messages ?q) = unat (pl_messages ?p) - w_message c"
      "unat (pl_bytes ?q) = unat (pl_bytes ?p) - w_bytes c"
      "unat (pl_tracks ?q) = unat (pl_tracks ?p) - w_track c"
    by (simp_all add: q_eq pool_release assms(3) unat_sub_min)
  have lim: "same_limits ?p ?q"
    by (simp add: q_eq pool_release assms(3) same_limits_def)
  have "acct exact na nm nb nt c' ?q" using assms(1) c' by (simp add: acct_def q w_defs)
  moreover have "within_limits ?q" using assms(2) lim
    by (auto simp: within_limits_def same_limits_def word_le_nat_alt q)
  ultimately show ?thesis using lim c' by (simp add: ctx_ok_def)
qed

section \<open>Steps that keep the accounts\<close>

text \<open>
  A step on a context and the state keeps the accounts when, whatever the rest of the table
  reserves, the pool that agreed with the old context agrees with the new one.
\<close>

definition keeps :: "rx_ctx \<Rightarrow> rx_ctx \<Rightarrow> bool" where
  "keeps c c' \<longleftrightarrow> cx_present c' = cx_present c \<and> (cx_semantic_accepted c \<longrightarrow> cx_semantic_accepted c') \<and>
     (cx_retired c \<longrightarrow> cx_retired c')"

lemma keeps_trans: "keeps a b \<Longrightarrow> keeps b c \<Longrightarrow> keeps a c"
  by (simp add: keeps_def)

definition acct_step :: "bool \<Rightarrow> rx_ctx \<Rightarrow> rx_state \<Rightarrow> rx_ctx \<Rightarrow> rx_state \<Rightarrow> bool" where
  "acct_step exact c s c' s' \<longleftrightarrow>
     rs_ctxs s' = rs_ctxs s \<and> same_limits (rs_pool s) (rs_pool s') \<and> keeps c c' \<and>
     (ctx_ok c \<longrightarrow> within_limits (rs_pool s) \<longrightarrow>
       ctx_ok c' \<and> within_limits (rs_pool s') \<and>
       (\<forall>na nm nb nt. acct exact na nm nb nt c (rs_pool s) \<longrightarrow> acct exact na nm nb nt c' (rs_pool s')))"

lemma acct_stepI:
  assumes "rs_ctxs s' = rs_ctxs s" "same_limits (rs_pool s) (rs_pool s')" "keeps c c'"
    and "\<And>na nm nb nt. ctx_ok c \<Longrightarrow> within_limits (rs_pool s) \<Longrightarrow>
      ctx_ok c' \<and> within_limits (rs_pool s')"
    and "\<And>na nm nb nt. ctx_ok c \<Longrightarrow> within_limits (rs_pool s) \<Longrightarrow>
      acct exact na nm nb nt c (rs_pool s) \<Longrightarrow> acct exact na nm nb nt c' (rs_pool s')"
  shows "acct_step exact c s c' s'"
  using assms by (simp add: acct_step_def)

lemma same_limits_refl [simp]: "same_limits p p"
  by (simp add: same_limits_def)

lemma same_limits_trans: "same_limits p q \<Longrightarrow> same_limits q r \<Longrightarrow> same_limits p r"
  by (simp add: same_limits_def)

lemma acct_step_trans [trans]:
  "acct_step exact c s c1 s1 \<Longrightarrow> acct_step exact c1 s1 c2 s2 \<Longrightarrow> acct_step exact c s c2 s2"
  unfolding acct_step_def by (auto intro: same_limits_trans keeps_trans)

text \<open>A step that touches neither the pool nor the table nor the reservations of the context.\<close>

lemma acct_step_frame:
  assumes "rs_ctxs s' = rs_ctxs s" "rs_pool s' = rs_pool s"
    and "cx_arrival_reserved c' = cx_arrival_reserved c"
    and "cx_unexpected_reserved c' = cx_unexpected_reserved c"
    and "cx_read_track_reserved c' = cx_read_track_reserved c"
    and "cx_total_length c' = cx_total_length c"
    and "cx_retired c' = cx_retired c" "cx_present c' = cx_present c"
    and "cx_semantic_accepted c \<longrightarrow> cx_semantic_accepted c'"
    and "cx_mode c' = cx_mode c \<or> \<not> cx_read_track_reserved c \<or> cx_mode c \<noteq> READ_RESPONSE"
  shows "acct_step exact c s c' s'"
proof -
  have w: "w_arrival c' = w_arrival c" "w_message c' = w_message c" "w_bytes c' = w_bytes c"
      "w_track c' = w_track c"
    using assms by (simp_all add: w_defs)
  have "ctx_ok c \<Longrightarrow> ctx_ok c'" using assms by (auto simp: ctx_ok_def)
  moreover have "keeps c c'" using assms by (simp add: keeps_def)
  ultimately show ?thesis using assms(1,2) by (auto simp: acct_step_def acct_def w)
qed

lemma acct_step_refl: "acct_step exact c s c s"
  by (rule acct_step_frame) simp_all

lemma ctxs_notify [simp]: "rs_ctxs (notify n s) = rs_ctxs s"
  by (simp add: notify_def)

lemma ctxs_release [simp]:
  "rs_ctxs (release_unexpected c s) = rs_ctxs s" "rs_ctxs (release_arrival now c s) = rs_ctxs s"
  "rs_ctxs (release_track c s) = rs_ctxs s"
  by (simp_all add: release_unexpected_def release_arrival_def release_track_def Let_def)

lemma same_limits_release [simp]:
  "same_limits (rs_pool s) (rs_pool (release_track c (release_arrival now c (release_unexpected c s))))"
  by (simp add: same_limits_def release_track_def release_read_track_def pool_release)

lemma acct_step_retire:
  assumes r: "retire_context_resources now c s = (c', s')"
  shows "acct_step exact c s c' s'"
proof (rule acct_stepI)
  show "rs_ctxs s' = rs_ctxs s" "same_limits (rs_pool s) (rs_pool s')"
    using r by (auto simp: retire_context_resources_def split: if_splits)
  show "keeps c c'"
    using r by (cases "cx_retired c") (auto simp: retire_context_resources_def keeps_def)
next
  assume ok: "ctx_ok c" "within_limits (rs_pool s)"
  then have tr: "cx_read_track_reserved c \<longrightarrow> cx_mode c = READ_RESPONSE" by (simp add: ctx_ok_def)
  show "ctx_ok c' \<and> within_limits (rs_pool s')"
  proof (cases "cx_retired c")
    case True
    then show ?thesis using r ok by (simp add: retire_context_resources_def)
  next
    case False
    then have "ctx_ok c'" using r tr by (auto simp: retire_context_resources_def ctx_ok_def split: if_splits)
    moreover have "within_limits (rs_pool s')"
      using r ok tr False
      by (auto simp: retire_context_resources_def pool_release within_limits_def word_le_nat_alt unat_sub_min)
    ultimately show ?thesis ..
  qed
next
  fix na nm nb nt assume "ctx_ok c" "within_limits (rs_pool s)" "acct exact na nm nb nt c (rs_pool s)"
  then show "acct exact na nm nb nt c' (rs_pool s')"
    using retire_pool [OF _ _ _ _ r] by (simp add: ctx_ok_def)
qed

lemma acct_step_promote:
  assumes "try_promote_unexpected c s = (c', s')"
  shows "acct_step exact c s c' s'"
  using assms
  by (intro acct_step_frame) (auto simp: try_promote_unexpected_def Let_def split: if_splits option.splits)

lemma frame_marks [simp]:
  "rs_ctxs (mark_consumed k s) = rs_ctxs s" "rs_pool (mark_consumed k s) = rs_pool s"
  "rs_ctxs (record_tombstone now rk c s) = rs_ctxs s" "rs_pool (record_tombstone now rk c s) = rs_pool s"
  "rs_ctxs (release_target now c s) = rs_ctxs s" "rs_pool (release_target now c s) = rs_pool s"
  by (simp_all add: mark_consumed_def record_tombstone_def release_target_def Let_def split: option.splits)

text \<open>Steps on the state alone.\<close>

lemma acct_step_state:
  "rs_ctxs s' = rs_ctxs s \<Longrightarrow> rs_pool s' = rs_pool s \<Longrightarrow> acct_step exact c s c s'"
  by (rule acct_step_frame) simp_all

lemma acct_step_completed: "acct_step exact c s (c\<lparr>cx_completed := b\<rparr>) s"
  by (rule acct_step_frame) simp_all

lemma acct_step_failed: "acct_step exact c s (c\<lparr>cx_failed := b\<rparr>) s"
  by (rule acct_step_frame) simp_all

lemma store_frame [ue_frame]:
  assumes "store_chunk_in_context now m p c mm = (c', mm')"
  shows "cx_arrival_reserved c' = cx_arrival_reserved c \<and> cx_unexpected_reserved c' = cx_unexpected_reserved c \<and>
    cx_read_track_reserved c' = cx_read_track_reserved c \<and> cx_total_length c' = cx_total_length c \<and>
    cx_retired c' = cx_retired c \<and> cx_present c' = cx_present c \<and> cx_mode c' = cx_mode c \<and>
    cx_semantic_accepted c' = cx_semantic_accepted c"
proof -
  have "c' = fst (store_chunk_in_context now m p c mm)" using assms by simp
  then show ?thesis
    by (cases "length (cx_chunk_arrived c) \<le> unat (compute_chunk_index m (max 1 (cx_payload_per_packet c)))")
      (simp_all add: store_chunk_in_context_def Let_def)
qed

lemma acct_step_store:
  "store_chunk_in_context now m p c mm = (c', mm') \<Longrightarrow> acct_step exact c s c' (s\<lparr>rs_mem := mm'\<rparr>)"
  by (drule store_frame) (simp add: acct_step_frame)

lemma acct_step_retire_completed:
  assumes "try_retire_completed now k c s = (c', s')"
  shows "acct_step exact c s c' s'"
proof -
  let ?c = "c\<lparr>cx_completed := True\<rparr>"
  have step: "acct_step exact c s c1 s2"
    if "retire_context_resources now ?c s0 = (c1, s1)" "rs_ctxs s0 = rs_ctxs s" "rs_pool s0 = rs_pool s"
      "rs_ctxs s2 = rs_ctxs s1" "rs_pool s2 = rs_pool s1" for s0 c1 s1 s2
  proof -
    have "acct_step exact c s ?c s" by (rule acct_step_completed)
    also have "acct_step exact ?c s ?c s0" using that by (intro acct_step_state)
    also have "acct_step exact ?c s0 c1 s1" using that(1) by (rule acct_step_retire)
    also have "acct_step exact c1 s1 c1 s2" using that by (intro acct_step_state)
    finally show ?thesis .
  qed
  show ?thesis using assms(1)
    by (auto simp: try_retire_completed_def Let_def acct_step_refl split: if_splits prod.splits
        intro!: step)
qed

section \<open>The accounts of the whole table\<close>

definition acct_table :: "bool \<Rightarrow> nat \<Rightarrow> nat \<Rightarrow> nat \<Rightarrow> nat \<Rightarrow> ('k \<times> rx_ctx) list \<Rightarrow> rx_pool \<Rightarrow> bool" where
  "acct_table exact na nm nb nt xs p \<longleftrightarrow>
     unat (pl_arrival p) = na + table_total w_arrival xs \<and>
     unat (pl_messages p) = nm + table_total w_message xs \<and>
     (exact \<longrightarrow> unat (pl_bytes p) = nb + table_total w_bytes xs) \<and>
     unat (pl_tracks p) = nt + table_total w_track xs"

lemma acct_table_Cons:
  "acct_table exact na nm nb nt ((k, c) # xs) p \<longleftrightarrow>
     acct exact (na + table_total w_arrival xs) (nm + table_total w_message xs)
       (nb + table_total w_bytes xs) (nt + table_total w_track xs) c p"
  by (simp add: acct_table_def acct_def add_ac)

lemma acct_table_shift:
  "acct_table exact na nm nb nt ((k, c) # xs) p \<longleftrightarrow>
     acct_table exact (na + w_arrival c) (nm + w_message c) (nb + w_bytes c) (nt + w_track c) xs p"
  by (simp add: acct_table_def add_ac)

text \<open>A context in the table was accepted when its first packet was admitted, or is retired.\<close>

definition settled :: "rx_ctx \<Rightarrow> bool" where
  "settled c \<longleftrightarrow> cx_present c \<and> (cx_semantic_accepted c \<or> cx_retired c)"

definition ctxs_ok :: "('k \<times> rx_ctx) list \<Rightarrow> bool" where
  "ctxs_ok xs \<longleftrightarrow> (\<forall>(k, c) \<in> set xs. ctx_ok c \<and> settled c)"

lemma ctxs_ok_simps [simp]:
  "ctxs_ok []" "ctxs_ok ((k, c) # xs) \<longleftrightarrow> ctx_ok c \<and> settled c \<and> ctxs_ok xs"
  by (simp_all add: ctxs_ok_def)

lemma keeps_settled: "keeps c c' \<Longrightarrow> settled c \<Longrightarrow> settled c'"
  by (auto simp: keeps_def settled_def)

definition rx_inv :: "bool \<Rightarrow> rx_state \<Rightarrow> bool" where
  "rx_inv exact s \<longleftrightarrow> distinct (map fst (rs_ctxs s)) \<and> ctxs_ok (rs_ctxs s) \<and>
     acct_table exact 0 0 0 0 (rs_ctxs s) (rs_pool s) \<and> within_limits (rs_pool s)"

text \<open>
  A pass over the table that changes each context by an accounted step, and drops only contexts
  that hold nothing, keeps the accounts (\<open>PruneReceiveState\<close> and the loop of
  \<open>RegisterPostedReceive\<close>).
\<close>

definition table_step ::
  "bool \<Rightarrow> ('k \<times> rx_ctx) list \<Rightarrow> rx_state \<Rightarrow> ('k \<times> rx_ctx) list \<Rightarrow> rx_state \<Rightarrow> bool" where
  "table_step exact xs s ys s' \<longleftrightarrow>
     rs_ctxs s' = rs_ctxs s \<and> same_limits (rs_pool s) (rs_pool s') \<and>
     set (map fst ys) \<subseteq> set (map fst xs) \<and> (distinct (map fst xs) \<longrightarrow> distinct (map fst ys)) \<and>
     (ctxs_ok xs \<longrightarrow> within_limits (rs_pool s) \<longrightarrow>
       ctxs_ok ys \<and> within_limits (rs_pool s') \<and>
       (\<forall>na nm nb nt. acct_table exact na nm nb nt xs (rs_pool s) \<longrightarrow> acct_table exact na nm nb nt ys (rs_pool s')))"

lemma table_step_Nil: "table_step exact [] s [] s"
  by (simp add: table_step_def)

lemma table_step_keep:
  assumes c: "acct_step exact c s c' s1" and xs: "table_step exact xs s1 ys s2"
  shows "table_step exact ((k, c) # xs) s ((k, c') # ys) s2"
proof -
  have "ctxs_ok ((k, c') # ys) \<and> within_limits (rs_pool s2) \<and>
      (\<forall>na nm nb nt. acct_table exact na nm nb nt ((k, c) # xs) (rs_pool s) \<longrightarrow>
        acct_table exact na nm nb nt ((k, c') # ys) (rs_pool s2))"
    if ok: "ctxs_ok ((k, c) # xs)" "within_limits (rs_pool s)"
  proof -
    have c': "ctx_ok c'" "settled c'" "within_limits (rs_pool s1)"
      using c ok keeps_settled by (auto simp: acct_step_def)
    have a1: "acct_table exact na nm nb nt ((k, c) # xs) (rs_pool s) \<Longrightarrow>
        acct_table exact na nm nb nt ((k, c') # xs) (rs_pool s1)" for na nm nb nt
      using c ok by (simp add: acct_step_def acct_table_Cons)
    show ?thesis using xs ok c' a1 by (simp add: table_step_def acct_table_shift)
  qed
  then show ?thesis using c xs
    by (auto simp: table_step_def acct_step_def intro: same_limits_trans)
qed

lemma table_step_drop:
  assumes c: "acct_step exact c s c' s1" and r: "cx_retired c'" and xs: "table_step exact xs s1 ys s2"
  shows "table_step exact ((k, c) # xs) s ys s2"
proof -
  have keep: "table_step exact ((k, c) # xs) s ((k, c') # ys) s2" by (rule table_step_keep [OF c xs])
  have "acct_table exact na nm nb nt ys (rs_pool s2)"
    if "ctx_ok c'" "acct_table exact na nm nb nt ((k, c') # ys) (rs_pool s2)" for na nm nb nt
    using that r by (simp add: acct_table_shift ctx_ok_def w_defs)
  with keep show ?thesis unfolding table_step_def by auto
qed

lemma pool_prune_tombstones [simp]:
  "rs_pool (prune_completed_tombstones now s) = rs_pool s"
  "rs_ctxs (prune_completed_tombstones now s) = rs_ctxs s"
  by (simp_all add: prune_completed_tombstones_def)

lemma prune_ctx_step:
  assumes "prune_ctx now c s = (r, s')"
  obtains c' where "acct_step exact c s c' s'" "r = Some c' \<or> r = None \<and> cx_retired c'"
proof -
  obtain c' s1 where p: "(if \<not> cx_retired c \<and> state_ttl s \<le> now_ms now - cx_last_activity c
        then let c1 = c\<lparr>cx_failed := \<not> cx_completed c\<rparr>;
                 s1 = (if cx_mode c1 = READ_RESPONSE then release_target now c1 s else s);
                 (c2, s2) = retire_context_resources now c1 s1
             in (c2, s2\<lparr>rs_stale_cleanups := rs_stale_cleanups s2 + 1\<rparr>)
        else (c, s)) = (c', s1)" by fastforce
  have "acct_step exact c s c' s1"
  proof (cases "\<not> cx_retired c \<and> state_ttl s \<le> now_ms now - cx_last_activity c")
    case True
    let ?c1 = "c\<lparr>cx_failed := \<not> cx_completed c\<rparr>"
    let ?s1 = "if cx_mode ?c1 = READ_RESPONSE then release_target now ?c1 s else s"
    obtain c2 s2 where r: "retire_context_resources now ?c1 ?s1 = (c2, s2)" by fastforce
    have "acct_step exact c s ?c1 s" by (rule acct_step_failed)
    also have "acct_step exact ?c1 s ?c1 ?s1" by (rule acct_step_state) simp_all
    also have "acct_step exact ?c1 ?s1 c2 s2" using r by (rule acct_step_retire)
    also have "acct_step exact c2 s2 c2 (s2\<lparr>rs_stale_cleanups := rs_stale_cleanups s2 + 1\<rparr>)"
      by (rule acct_step_state) simp_all
    finally show ?thesis using p True r by (simp add: Let_def)
  next
    case False
    then show ?thesis using p acct_step_refl by auto
  qed
  moreover have "s' = s1" "r = Some c' \<or> r = None \<and> cx_retired c'"
    using assms p by (auto simp: prune_ctx_def split: if_splits)
  ultimately show ?thesis using that by blast
qed

lemma prune_ctxs_step: "prune_ctxs now xs s = (ys, s') \<Longrightarrow> table_step exact xs s ys s'"
proof (induction now xs s arbitrary: ys s' rule: prune_ctxs.induct)
  case (1 now s)
  then show ?case by (simp add: table_step_Nil)
next
  case (2 now k c xs s)
  obtain r s1 where c: "prune_ctx now c s = (r, s1)" by fastforce
  obtain zs s2 where xs: "prune_ctxs now xs s1 = (zs, s2)" by fastforce
  obtain c' where c': "acct_step exact c s c' s1" "r = Some c' \<or> r = None \<and> cx_retired c'"
    using prune_ctx_step [OF c] by blast
  have "table_step exact xs s1 zs s2" using 2(1) [OF c [symmetric] refl xs] .
  then show ?case using 2(2) c xs c' by (auto intro: table_step_keep table_step_drop)
qed

lemma match_ctxs_step: "match_ctxs now job msg src xs s = (ys, s') \<Longrightarrow> table_step exact xs s ys s'"
proof (induction now job msg src xs s arbitrary: ys s' rule: match_ctxs.induct)
  case (1 now job msg src s)
  then show ?case by (simp add: table_step_Nil)
next
  case (2 now job msg src k c xs s)
  let ?skip = "\<not> is_context_active c \<or> cx_op c \<noteq> SEND \<or> cx_job_id c \<noteq> job \<or> cx_msg_id c \<noteq> msg
    \<or> cx_src_fep c \<noteq> src"
  obtain c' s1 where c: "(if ?skip then (c, s)
      else let (c1, s1) = try_promote_unexpected c s in try_retire_completed now k c1 s1) = (c', s1)"
    by fastforce
  have c': "acct_step exact c s c' s1"
  proof (cases ?skip)
    case False
    obtain c1 s0 where "try_promote_unexpected c s = (c1, s0)" by fastforce
    moreover have "try_retire_completed now k c1 s0 = (c', s1)" using c False calculation by simp
    ultimately show ?thesis
      using acct_step_promote acct_step_retire_completed acct_step_trans by blast
  qed (use c acct_step_refl in auto)
  obtain zs s2 where xs: "match_ctxs now job msg src xs s1 = (zs, s2)" by fastforce
  have "table_step exact xs s1 zs s2" using 2(1) [OF c [symmetric] refl xs] .
  then show ?case using 2(2) c xs c' by (auto intro: table_step_keep)
qed

lemma table_step_inv:
  assumes "rx_inv exact s" "table_step exact (rs_ctxs s) s1 ys s2" "rs_pool s1 = rs_pool s" "rs_pool s3 = rs_pool s2"
    and "rs_ctxs s3 = ys"
  shows "rx_inv exact s3"
  using assms by (simp add: rx_inv_def table_step_def)

lemma rx_inv_prune: "rx_inv exact s \<Longrightarrow> rx_inv exact (prune_receive_state now s)"
  by (auto simp: prune_receive_state_def split: prod.splits
      intro: table_step_inv [OF _ prune_ctxs_step])

lemma rx_inv_cong: "rs_ctxs s' = rs_ctxs s \<Longrightarrow> rs_pool s' = rs_pool s \<Longrightarrow> rx_inv exact s \<Longrightarrow> rx_inv exact s'"
  by (simp add: rx_inv_def)

lemma rx_inv_register_posted:
  assumes "rx_inv exact s" "register_posted_receive now job msg src base len s = (ok, s')"
  shows "rx_inv exact s'"
proof -
  have "rx_inv exact (prune_receive_state now s)" using assms(1) by (rule rx_inv_prune)
  then show ?thesis using assms(2)
    by (auto simp: register_posted_receive_def Let_def split: prod.splits
        elim!: table_step_inv [OF _ match_ctxs_step])
qed

lemma rx_inv_register_target:
  assumes "rx_inv exact s" "register_read_response_target now job msg peer base len s = (ok, s')"
  shows "rx_inv exact s'"
  using rx_inv_prune [OF assms(1), of now] assms(2)
  by (auto simp: register_read_response_target_def Let_def elim!: rx_inv_cong [rotated 2])

lemma rx_inv_unregister_target:
  assumes "rx_inv exact s" "unregister_read_response_target now job msg peer s = (ok, s')"
  shows "rx_inv exact s'"
  using assms by (auto simp: unregister_read_response_target_def Let_def split: option.splits
      elim!: rx_inv_cong [rotated 2])

section \<open>One context taken out of the table and put back\<close>

definition slot_ok :: "rx_key \<Rightarrow> rx_ctx \<Rightarrow> rx_state \<Rightarrow> bool" where
  "slot_ok k c s \<longleftrightarrow> ctx_ok c \<and>
     (\<forall>w \<in> {w_arrival, w_message, w_bytes, w_track}.
        w c = (case map_of (rs_ctxs s) k of None \<Rightarrow> 0 | Some d \<Rightarrow> w d))"

lemma slot_ok_Some: "map_of (rs_ctxs s) k = Some c \<Longrightarrow> ctx_ok c \<Longrightarrow> slot_ok k c s"
  by (simp add: slot_ok_def)

lemma slot_ok_idle:
  assumes "ctx_ok c" "\<not> cx_arrival_reserved c" "\<not> cx_unexpected_reserved c" "\<not> cx_read_track_reserved c"
    and "\<And>d. map_of (rs_ctxs s) k = Some d \<Longrightarrow> ctx_ok d \<and> (\<not> cx_present d \<or> cx_retired d)"
  shows "slot_ok k c s"
proof (cases "map_of (rs_ctxs s) k")
  case (Some d)
  then have "\<not> cx_arrival_reserved d \<and> \<not> cx_unexpected_reserved d \<and> \<not> cx_read_track_reserved d"
    using assms(5) [OF Some] by (auto simp: ctx_ok_def)
  then show ?thesis using assms(1-4) Some by (simp add: slot_ok_def w_defs)
qed (use assms(1-4) in \<open>simp add: slot_ok_def w_defs\<close>)

lemma set_update_subset: "set (AList.update k v xs) \<subseteq> insert (k, v) (set xs)"
  by (induction xs) auto

lemma ctxs_ok_update: "ctxs_ok xs \<Longrightarrow> ctx_ok c \<Longrightarrow> settled c \<Longrightarrow> ctxs_ok (AList.update k c xs)"
  using set_update_subset [of k c xs] by (auto simp: ctxs_ok_def)

lemma ctxs_ok_lookup: "ctxs_ok xs \<Longrightarrow> map_of xs k = Some c \<Longrightarrow> ctx_ok c \<and> settled c"
  by (auto simp: ctxs_ok_def dest!: map_of_SomeD)

lemma rx_inv_put:
  assumes inv: "rx_inv exact s" and slot: "slot_ok k c s" and step: "acct_step exact c s c' s'" and st: "settled c'"
  shows "rx_inv exact (put_ctx k c' s')"
proof -
  let ?xs = "rs_ctxs s"
  let ?n = "\<lambda>w. table_total w (AList.delete k ?xs)"
  have d: "distinct (map fst ?xs)" and ok: "ctxs_ok ?xs" and lim: "within_limits (rs_pool s)"
    and tab: "acct_table exact 0 0 0 0 ?xs (rs_pool s)"
    using inv by (simp_all add: rx_inv_def)
  have xs': "rs_ctxs s' = ?xs" using step by (simp add: acct_step_def)
  have "acct exact (?n w_arrival) (?n w_message) (?n w_bytes) (?n w_track) c (rs_pool s)"
    using tab slot by (simp add: acct_def acct_table_def slot_ok_def table_total_delete [OF d, of _ k])
  then have "ctx_ok c'" "within_limits (rs_pool s')"
    "acct exact (?n w_arrival) (?n w_message) (?n w_bytes) (?n w_track) c' (rs_pool s')"
    using step slot lim by (simp_all add: acct_step_def slot_ok_def)
  moreover from this(3) have "acct_table exact 0 0 0 0 (AList.update k c' ?xs) (rs_pool s')"
    by (simp add: acct_table_def acct_def table_total_update [OF d])
  ultimately show ?thesis using d ok st
    by (simp add: rx_inv_def put_ctx_def xs' ctxs_ok_update distinct_update)
qed

section \<open>Admission\<close>

lemma acct_step_reserve_arrival:
  assumes r: "reserve_arrival_block c (rs_pool s) = (ok, c', p)" and live: "cx_present c" "\<not> cx_retired c"
  shows "acct_step exact c s c' (s\<lparr>rs_pool := p\<rparr>)"
proof (rule acct_stepI)
  show "same_limits (rs_pool s) (rs_pool (s\<lparr>rs_pool := p\<rparr>))" "keeps c c'"
    using r by (cases rule: reserve_arrival_cases; simp add: same_limits_def keeps_def)+
  show "ctx_ok c' \<and> within_limits (rs_pool (s\<lparr>rs_pool := p\<rparr>))"
    if "ctx_ok c" "within_limits (rs_pool s)"
    using r
  proof (cases rule: reserve_arrival_cases)
    case 3
    then show ?thesis using that live unat_inc_below(2) [OF 3(3)] by (simp add: ctx_ok_def within_limits_def)
  qed (use that in \<open>simp_all add: within_limits_def\<close>)
  show "acct exact na nm nb nt c' (rs_pool (s\<lparr>rs_pool := p\<rparr>))"
    if "within_limits (rs_pool s)" "acct exact na nm nb nt c (rs_pool s)" for na nm nb nt
    using acct_reserve_arrival [OF r that(2,1), THEN conjunct1] by simp
qed simp

lemma acct_step_reserve_unexpected:
  assumes r: "reserve_unexpected_resources c (rs_pool s) = (ok, c', p)"
    and live: "cx_present c" "\<not> cx_retired c"
    and small: "exact \<longrightarrow> unat (pl_max_bytes (rs_pool s)) + unat (cx_total_length c) < 2 ^ 32"
  shows "acct_step exact c s c' (s\<lparr>rs_pool := p\<rparr>)"
proof (rule acct_stepI)
  show "same_limits (rs_pool s) (rs_pool (s\<lparr>rs_pool := p\<rparr>))" "keeps c c'"
    using r by (cases rule: reserve_unexpected_cases; simp add: same_limits_def keeps_def)+
  show "ctx_ok c' \<and> within_limits (rs_pool (s\<lparr>rs_pool := p\<rparr>))"
    if "ctx_ok c" "within_limits (rs_pool s)"
    using r
  proof (cases rule: reserve_unexpected_cases)
    case 3
    then show ?thesis using that live unat_inc_below(2) [OF 3(3)]
      by (simp add: ctx_ok_def within_limits_def linorder_not_less)
  qed (use that in \<open>simp_all add: within_limits_def\<close>)
  show "acct exact na nm nb nt c' (rs_pool (s\<lparr>rs_pool := p\<rparr>))"
    if "within_limits (rs_pool s)" "acct exact na nm nb nt c (rs_pool s)" for na nm nb nt
    using acct_reserve_unexpected [OF r that(2,1) small, THEN conjunct1] by simp
qed simp

lemma acct_step_reserve_track:
  assumes r: "reserve_read_track (rs_pool s) = (ok, p)" and live: "cx_present c" "\<not> cx_retired c"
    and new: "\<not> cx_read_track_reserved c" "cx_mode c = READ_RESPONSE"
  shows "acct_step exact c s (c\<lparr>cx_read_track_reserved := ok\<rparr>) (s\<lparr>rs_pool := p\<rparr>)"
proof (rule acct_stepI)
  show "same_limits (rs_pool s) (rs_pool (s\<lparr>rs_pool := p\<rparr>))"
    using r by (auto simp: reserve_read_track_def same_limits_def split: if_splits)
  show "ctx_ok (c\<lparr>cx_read_track_reserved := ok\<rparr>) \<and> within_limits (rs_pool (s\<lparr>rs_pool := p\<rparr>))"
    if "ctx_ok c" "within_limits (rs_pool s)"
    using that live new r unat_inc_below(2) [of "pl_max_tracks (rs_pool s)" "pl_tracks (rs_pool s)"]
    by (auto simp: reserve_read_track_def ctx_ok_def within_limits_def split: if_splits)
  show "acct exact na nm nb nt (c\<lparr>cx_read_track_reserved := ok\<rparr>) (rs_pool (s\<lparr>rs_pool := p\<rparr>))"
    if "within_limits (rs_pool s)" "acct exact na nm nb nt c (rs_pool s)" for na nm nb nt
    using acct_reserve_track [OF r that(2,1) new(1), THEN conjunct1] by simp
qed (simp_all add: keeps_def)

lemma retired_retire: "retire_context_resources now c s = (c', s') \<Longrightarrow> cx_retired c'"
  by (auto simp: retire_context_resources_def split: if_splits)

lemma acct_step_reject:
  assumes "reject_ctx now rc c s = (rej, r, c', s')"
  shows "acct_step exact c s c' s' \<and> rej \<and> cx_retired c'"
proof -
  have "retire_context_resources now (c\<lparr>cx_failed := True\<rparr>) s = (c', s')" "rej"
    using assms by (auto simp: reject_ctx_def split: prod.splits)
  then show ?thesis
    using acct_step_trans [OF acct_step_failed [of exact c s True] acct_step_retire] retired_retire by blast
qed

text \<open>What admission promises: accounted, and rejected with the context retired or accepted.\<close>

definition admitted :: "bool \<Rightarrow> rx_ctx \<Rightarrow> rx_state \<Rightarrow> bool \<times> rx_result \<times> rx_ctx \<times> rx_state \<Rightarrow> bool" where
  "admitted exact c s res \<longleftrightarrow> (case res of (rej, r, c', s') \<Rightarrow>
     acct_step exact c s c' s' \<and> (if rej then cx_retired c' else cx_semantic_accepted c'))"

lemma admitted_reject: "acct_step exact c s c1 s1 \<Longrightarrow> admitted exact c s (reject_ctx now rc c1 s1)"
  using acct_step_reject [of now rc c1 s1] acct_step_trans
  by (cases "reject_ctx now rc c1 s1") (fastforce simp: admitted_def)

lemma acct_step_accept:
  "cx_mode c = DIRECT_EXPECTED \<or> \<not> cx_read_track_reserved c \<Longrightarrow>
     acct_step exact c s (c\<lparr>cx_mode := DIRECT_EXPECTED, cx_semantic_accepted := True\<rparr>) s"
  by (rule acct_step_frame) auto

lemma admitted_expected:
  assumes live: "cx_present c" "\<not> cx_retired c" and st: "cx_semantic_accepted c \<or> cx_mode c = DIRECT_EXPECTED"
  shows "admitted exact c s (admit_expected now b c s)"
proof -
  have acc: "admitted exact c s (False, no_result, if cx_semantic_accepted d then d
      else d\<lparr>cx_mode := DIRECT_EXPECTED, cx_semantic_accepted := True\<rparr>, s')"
    if "acct_step exact c s d s'" "cx_semantic_accepted d \<or> cx_mode d = DIRECT_EXPECTED" for d s'
    using that acct_step_trans [OF that(1) acct_step_accept [of d exact s']]
    by (cases "cx_semantic_accepted d") (simp_all add: admitted_def)
  show ?thesis
  proof (cases "cx_mode c = DIRECT_EXPECTED \<and> cx_target_base c = 0")
    case True
    obtain ok c1 p where r: "reserve_arrival_block c (rs_pool s) = (ok, c1, p)" by (metis prod_cases3)
    have step: "acct_step exact c s c1 (s\<lparr>rs_pool := p\<rparr>)"
      by (rule acct_step_reserve_arrival [OF r live])
    have bind: "acct_step exact c1 (s\<lparr>rs_pool := p\<rparr>)
        (c1\<lparr>cx_target_base := pr_base b, cx_target_length := pr_length b\<rparr>) (s\<lparr>rs_pool := p\<rparr>)"
      by (rule acct_step_frame) simp_all
    have "cx_mode c1 = DIRECT_EXPECTED" using r True by (cases rule: reserve_arrival_cases) simp_all
    then show ?thesis using True r admitted_reject [OF step] acc [OF acct_step_trans [OF step bind]]
      by (simp add: admit_expected_def Let_def)
  next
    case False
    then show ?thesis using acc [OF acct_step_refl st] by (auto simp: admit_expected_def Let_def)
  qed
qed

lemma admitted_unexpected:
  assumes live: "cx_present c" "\<not> cx_retired c"
    and st: "cx_semantic_accepted c \<or> cx_mode c = DIRECT_EXPECTED \<and> cx_target_base c = 0"
    and small: "cx_semantic_accepted c \<or> (exact \<longrightarrow> unat (pl_max_bytes (rs_pool s)) + unat (cx_total_length c) < 2 ^ 32)"
  shows "admitted exact c s (admit_unexpected now c s)"
proof (cases "cx_mode c = DIRECT_EXPECTED \<and> \<not> cx_semantic_accepted c \<and> cx_target_base c = 0")
  case True
  obtain ok c1 p where r: "reserve_arrival_block c (rs_pool s) = (ok, c1, p)" by (metis prod_cases3)
  obtain ok2 c2 p2 where r2: "reserve_unexpected_resources c1 p = (ok2, c2, p2)" by (metis prod_cases3)
  have step: "acct_step exact c s c1 (s\<lparr>rs_pool := p\<rparr>)"
    by (rule acct_step_reserve_arrival [OF r live])
  have c1: "cx_present c1" "\<not> cx_retired c1" "cx_total_length c1 = cx_total_length c"
      "cx_mode c1 = DIRECT_EXPECTED"
    using r live True by (cases rule: reserve_arrival_cases; simp)+
  have m: "pl_max_bytes p = pl_max_bytes (rs_pool s)"
    using step by (simp add: acct_step_def same_limits_def)
  have step2: "acct_step exact c1 (s\<lparr>rs_pool := p\<rparr>) c2 ((s\<lparr>rs_pool := p\<rparr>)\<lparr>rs_pool := p2\<rparr>)"
    using r2 c1 small True m by (intro acct_step_reserve_unexpected [of _ _ ok2]) simp_all
  have "cx_mode c2 = DIRECT_EXPECTED"
    using r2 c1 by (cases rule: reserve_unexpected_cases) simp_all
  then have acc: "acct_step exact c2 (s\<lparr>rs_pool := p2\<rparr>) (c2\<lparr>cx_mode := UNEXPECTED_BUFFERED, cx_semantic_accepted := True,
      cx_buffer := replicate (unat (cx_total_length c2)) 0, cx_response_sent := True\<rparr>) (s\<lparr>rs_pool := p2\<rparr>)"
    by (intro acct_step_frame) auto
  have both: "acct_step exact c s c2 (s\<lparr>rs_pool := p2\<rparr>)" using acct_step_trans [OF step step2] by simp
  show ?thesis
    using True r r2 admitted_reject [OF step] admitted_reject [OF both] acct_step_trans [OF both acc]
    by (simp add: admit_unexpected_def Let_def) (simp add: admitted_def)
next
  case False
  then show ?thesis using st by (auto simp: admit_unexpected_def admitted_def acct_step_refl)
qed

lemma admitted_send:
  assumes "cx_present c" "\<not> cx_retired c"
    and "cx_semantic_accepted c \<or> cx_mode c = DIRECT_EXPECTED \<and> cx_target_base c = 0"
    and "cx_semantic_accepted c \<or> (exact \<longrightarrow> unat (pl_max_bytes (rs_pool s)) + unat (cx_total_length c) < 2 ^ 32)"
  shows "admitted exact c s (admit_send now lk c s)"
  using assms by (auto simp: admit_send_def admitted_expected admitted_unexpected split: option.split)

lemma admitted_read:
  assumes live: "cx_present c" "\<not> cx_retired c" and new: "\<not> cx_read_track_reserved c" "cx_mode c = READ_RESPONSE"
    and acc: "cx_semantic_accepted c"
  shows "admitted exact c s (admit_read now c s)"
proof -
  obtain ok p where r: "reserve_read_track (rs_pool s) = (ok, p)" by fastforce
  let ?c = "c\<lparr>cx_read_track_reserved := ok\<rparr>"
  obtain ok2 c2 p2 where r2: "reserve_arrival_block ?c p = (ok2, c2, p2)" by (metis prod_cases3)
  have step: "acct_step exact c s ?c (s\<lparr>rs_pool := p\<rparr>)"
    by (rule acct_step_reserve_track [OF r live new])
  have step2: "acct_step exact ?c (s\<lparr>rs_pool := p\<rparr>) c2 ((s\<lparr>rs_pool := p\<rparr>)\<lparr>rs_pool := p2\<rparr>)"
    using r2 live by (intro acct_step_reserve_arrival [of _ _ ok2]) simp_all
  have both: "acct_step exact c s c2 (s\<lparr>rs_pool := p2\<rparr>)" using acct_step_trans [OF step step2] by simp
  have noted: "acct_step exact c s c2 (notify n (s\<lparr>rs_pool := p2\<rparr>))" for n
    by (rule acct_step_trans [OF both acct_step_state]) simp_all
  have a2: "cx_semantic_accepted c2" using r2 acc by (cases rule: reserve_arrival_cases) simp_all
  have same: "\<not> ok \<Longrightarrow> ?c = c" using new(1) by simp
  show ?thesis
  proof (cases ok)
    case False
    have "admitted exact c s (reject_ctx now RC_RESOURCE_EXHAUST c (s\<lparr>rs_pool := p\<rparr>))"
      by (rule admitted_reject [OF step [unfolded same [OF False]]])
    then show ?thesis using r False by (simp add: admit_read_def)
  next
    case True
    have eq: "admit_read now c s =
      (if \<not> ok2 then reject_ctx now RC_RESOURCE_EXHAUST c2
         (notify (NotifyReadResponseArrivalBlockReserveFailed
            (cx_job_id c) (cx_msg_id c) (cx_src_fep c) now) (s\<lparr>rs_pool := p2\<rparr>))
       else (False, no_result, c2,
         notify (NotifyReadResponseArrivalBlockReserved
            (cx_job_id c) (cx_msg_id c) (cx_src_fep c) now) (s\<lparr>rs_pool := p2\<rparr>)))"
      using r r2 True by (simp add: admit_read_def)
    show ?thesis unfolding eq
      using admitted_reject [OF noted] noted a2 by (cases ok2) (simp_all add: admitted_def)
  qed
qed

section \<open>The handlers\<close>

lemma new_send_ctx_simps [simp]:
  "cx_present (new_send_ctx now pdc h m s)" "\<not> cx_retired (new_send_ctx now pdc h m s)"
  "\<not> cx_arrival_reserved (new_send_ctx now pdc h m s)" "\<not> cx_unexpected_reserved (new_send_ctx now pdc h m s)"
  "\<not> cx_read_track_reserved (new_send_ctx now pdc h m s)" "\<not> cx_semantic_accepted (new_send_ctx now pdc h m s)"
  "cx_mode (new_send_ctx now pdc h m s) = DIRECT_EXPECTED" "cx_target_base (new_send_ctx now pdc h m s) = 0"
  "cx_total_length (new_send_ctx now pdc h m s) = mt_request_length m"
  by (simp_all add: new_send_ctx_def fresh_ctx_def Let_def)

lemma new_read_ctx_simps [simp]:
  "cx_present (new_read_ctx now pdc h m t s)" "\<not> cx_retired (new_read_ctx now pdc h m t s)"
  "\<not> cx_arrival_reserved (new_read_ctx now pdc h m t s)" "\<not> cx_unexpected_reserved (new_read_ctx now pdc h m t s)"
  "\<not> cx_read_track_reserved (new_read_ctx now pdc h m t s)" "cx_semantic_accepted (new_read_ctx now pdc h m t s)"
  "cx_mode (new_read_ctx now pdc h m t s) = READ_RESPONSE"
  by (simp_all add: new_read_ctx_def fresh_ctx_def Let_def)

lemma ctx_ok_new [simp]: "ctx_ok (new_send_ctx now pdc h m s)" "ctx_ok (new_read_ctx now pdc h m t s)"
  by (simp_all add: ctx_ok_def)

lemma open_ctx_slot:
  assumes "rx_inv exact s"
  obtains (new) "open_ctx (new_send_ctx now pdc h m s) k s = new_send_ctx now pdc h m s"
    "slot_ok k (new_send_ctx now pdc h m s) s"
  | (old) c where "open_ctx (new_send_ctx now pdc h m s) k s = c" "slot_ok k c s"
    "cx_present c" "\<not> cx_retired c" "cx_semantic_accepted c"
proof -
  have look: "map_of (rs_ctxs s) k = Some c \<Longrightarrow> ctx_ok c \<and> settled c" for c
    using assms ctxs_ok_lookup by (fastforce simp: rx_inv_def)
  show ?thesis
  proof (cases "\<exists>c. map_of (rs_ctxs s) k = Some c \<and> cx_present c \<and> \<not> cx_retired c")
    case True
    then obtain c where "map_of (rs_ctxs s) k = Some c" "cx_present c" "\<not> cx_retired c" by blast
    then show ?thesis using look [of c] by (intro old) (auto simp: open_ctx_def settled_def slot_ok_Some)
  next
    case False
    then show ?thesis using look
      by (intro new slot_ok_idle) (auto simp: open_ctx_def split: option.split)
  qed
qed

lemma acct_step_put_mem: "acct_step exact c s c (s\<lparr>rs_mem := mm\<rparr>)"
  by (rule acct_step_state) simp_all

lemma acct_step_store_send:
  assumes "store_send_chunk now k m p c s = (c', s')"
  shows "acct_step exact c s c' s'"
proof -
  let ?m1 = "if cx_mode c = DIRECT_EXPECTED
    then snd (copy_packet_bytes_to_target p (cx_target_base c) (mt_fragment_offset m)
      (max 1 (cx_target_length c)) (rs_mem s)) else rs_mem s"
  obtain c1 m2 where st: "store_chunk_in_context now m p c ?m1 = (c1, m2)" by fastforce
  obtain c2 s2 where pr: "(if cx_mode c1 = UNEXPECTED_BUFFERED \<or> cx_mode c1 = UNEXPECTED_MATCHED
      then try_promote_unexpected c1 (s\<lparr>rs_mem := m2\<rparr>) else (c1, s\<lparr>rs_mem := m2\<rparr>)) = (c2, s2)"
    by fastforce
  have "acct_step exact c s c1 (s\<lparr>rs_mem := m2\<rparr>)" by (rule acct_step_store [OF st])
  also have "acct_step exact c1 (s\<lparr>rs_mem := m2\<rparr>) c2 s2"
    using pr acct_step_promote [of c1 "s\<lparr>rs_mem := m2\<rparr>" c2 s2] acct_step_refl by (auto split: if_splits)
  also have "acct_step exact c2 s2 c' s'"
    using assms by (intro acct_step_retire_completed [of now k]) (simp add: store_send_chunk_def Let_def st pr)
  finally show ?thesis .
qed

lemma answer_send_ctx: "answer_send now r c = (r', c') \<Longrightarrow>
    c' = c\<lparr>cx_response_sent := (cx_response_sent c \<or> cx_mode c = DIRECT_EXPECTED \<and> cx_completed c)\<rparr>"
  by (cases "cx_mode c = DIRECT_EXPECTED \<and> cx_completed c \<and> \<not> cx_response_sent c")
    (auto simp: answer_send_def Let_def)

lemma acct_step_answer: "answer_send now r c = (r', c') \<Longrightarrow> acct_step exact c s c' s"
  by (drule answer_send_ctx, rule acct_step_frame) simp_all

lemma acct_step_present: "acct_step exact c s c' s' \<Longrightarrow> cx_present c' = cx_present c"
  by (simp add: acct_step_def keeps_def)

lemma acct_step_accepted: "acct_step exact c s c' s' \<Longrightarrow> cx_semantic_accepted c \<Longrightarrow> cx_semantic_accepted c'"
  by (simp add: acct_step_def keeps_def)

lemma rx_inv_process_send:
  assumes inv: "rx_inv exact s" and proc: "process_send now pdc h m p s = (r, s')"
    and small: "exact \<longrightarrow> unat (pl_max_bytes (rs_pool s)) + unat (mt_request_length m) < 2 ^ 32"
  shows "rx_inv exact s' \<and> same_limits (rs_pool s) (rs_pool s')"
proof -
  let ?k = "send_key pdc h m" and ?lk = "tag_lookup h m"
  let ?c = "open_ctx (new_send_ctx now pdc h m s) ?k s"
  have c: "slot_ok ?k ?c s" "cx_present ?c" "\<not> cx_retired ?c" and adm: "admitted exact ?c s (admit_send now ?lk ?c s)"
    using inv small by (cases rule: open_ctx_slot [where now = now and pdc = pdc and h = h and m = m and k = ?k];
      simp add: admitted_send)+
  obtain rej r0 c1 s1 where a: "admit_send now ?lk ?c s = (rej, r0, c1, s1)" by (metis prod_cases4)
  have step: "acct_step exact ?c s c1 s1" and out: "if rej then cx_retired c1 else cx_semantic_accepted c1"
    using adm by (simp_all add: a admitted_def)
  have pres: "cx_present c1" using step c by (simp add: acct_step_present)
  show ?thesis
  proof (cases rej)
    case True
    then have "s' = put_ctx ?k c1 s1" using proc by (simp add: process_send_def a)
    then show ?thesis using rx_inv_put [OF inv c(1) step] step out pres True
      by (simp add: settled_def put_ctx_def acct_step_def)
  next
    case False
    obtain c2 s2 where st: "store_send_chunk now ?k m p c1 s1 = (c2, s2)" by fastforce
    obtain r3 c3 where an: "answer_send now r0 c2 = (r3, c3)" by fastforce
    have s': "s' = put_ctx ?k c3 s2" using proc False by (simp add: process_send_def a st an)
    have all: "acct_step exact ?c s c3 s2"
      using step acct_step_store_send [OF st] acct_step_answer [OF an] acct_step_trans by blast
    have "cx_semantic_accepted c3"
      using out False acct_step_accepted [OF acct_step_trans [OF acct_step_store_send [OF st] acct_step_answer [OF an]]]
      by simp
    then show ?thesis using rx_inv_put [OF inv c(1) all] all c
      by (simp add: s' settled_def acct_step_present [OF all]) (simp add: put_ctx_def acct_step_def)
  qed
qed

lemma acct_step_track_gap: "track_gap now lk i first c s = (c', s') \<Longrightarrow> acct_step exact c s c' s'"
  by (rule acct_step_frame) (auto simp: track_gap_def split: if_splits)

lemma acct_step_note_recovery: "note_recovery now lk i first p c s = (c', s') \<Longrightarrow> acct_step exact c s c' s'"
  by (rule acct_step_frame) (auto simp: note_recovery_def split: if_splits option.splits)

lemma acct_step_close_gap: "close_gap now lk first c s = (c', s') \<Longrightarrow> acct_step exact c s c' s'"
  by (rule acct_step_frame) (auto simp: close_gap_def split: if_splits)

lemma acct_step_store_read:
  assumes "store_read_chunk now k lk m p c s = (c', s')"
  shows "acct_step exact c s c' s'"
proof -
  let ?i = "compute_chunk_index m (max 1 (cx_payload_per_packet c))"
  let ?first = "unat ?i < length (cx_chunk_arrived c) \<and> \<not> cx_chunk_arrived c ! unat ?i"
  obtain c1 s1 where 1: "track_gap now lk ?i ?first c s = (c1, s1)" by fastforce
  obtain c2 mm where 2: "store_chunk_in_context now m p c1 (rs_mem s1) = (c2, mm)" by fastforce
  obtain c3 s3 where 3: "note_recovery now lk ?i ?first p c2 (s1\<lparr>rs_mem := mm\<rparr>) = (c3, s3)" by fastforce
  obtain c4 s4 where 4: "close_gap now lk ?first c3 s3 = (c4, s4)" by fastforce
  have "acct_step exact c s c1 s1" by (rule acct_step_track_gap [OF 1])
  also have "acct_step exact c1 s1 c2 (s1\<lparr>rs_mem := mm\<rparr>)" by (rule acct_step_store [OF 2])
  also have "acct_step exact c2 (s1\<lparr>rs_mem := mm\<rparr>) c3 s3" by (rule acct_step_note_recovery [OF 3])
  also have "acct_step exact c3 s3 c4 s4" by (rule acct_step_close_gap [OF 4])
  also have "acct_step exact c4 s4 c' s'"
    using assms by (intro acct_step_retire_completed [of now k]) (simp add: store_read_chunk_def Let_def 1 2 3 4)
  finally show ?thesis .
qed

lemma rx_inv_read_packet:
  assumes inv: "rx_inv exact s" and proc: "handle_incoming_read_response_packet now pdc h m p s = (r, s')"
  shows "rx_inv exact s'"
proof -
  let ?s0 = "prune_receive_state now s" and ?k = "read_key pdc h m"
  have inv0: "rx_inv exact ?s0" using inv by (rule rx_inv_prune)
  have look: "map_of (rs_ctxs ?s0) ?k = Some c \<Longrightarrow> ctx_ok c \<and> settled c" for c
    using inv0 ctxs_ok_lookup by (fastforce simp: rx_inv_def)
  show ?thesis
  proof (cases "map_of (rs_targets ?s0) (tag_lookup h m)")
    case None
    then show ?thesis using proc inv0 by (simp add: handle_incoming_read_response_packet_def Let_def)
  next
    case (Some t)
    obtain rej r0 c1 s1 where o: "open_read now pdc h m t ?s0 = (rej, r0, c1, s1)" by (metis prod_cases4)
    obtain c0 where c0: "slot_ok ?k c0 ?s0" "acct_step exact c0 ?s0 c1 s1" "cx_present c0"
      "if rej then cx_retired c1 else cx_semantic_accepted c1"
    proof (cases "\<exists>c. map_of (rs_ctxs ?s0) ?k = Some c \<and> cx_present c \<and> \<not> cx_retired c")
      case True
      then obtain c where "map_of (rs_ctxs ?s0) ?k = Some c" "cx_present c" "\<not> cx_retired c" by blast
      then show ?thesis using o look [of c] that [of c]
        by (simp add: open_read_def slot_ok_Some acct_step_refl settled_def)
    next
      case False
      let ?noted = "notify (NotifyReadResponseFirstPacketNoContext
        (ucast (ht_job h)) (ucast (mt_msg_id m)) (ht_src h) now) ?s0"
      let ?c = "new_read_ctx now pdc h m t ?noted"
      have "open_read now pdc h m t ?s0 = admit_read now (new_read_ctx now pdc h m t ?s0) ?noted"
        using False by (auto simp: open_read_def Let_def split: option.split)
      moreover have "new_read_ctx now pdc h m t ?s0 = ?c"
        by (simp add: new_read_ctx_def compute_payload_per_packet_def notify_def)
      ultimately have "admitted exact ?c ?noted (rej, r0, c1, s1)"
        using o admitted_read [of ?c exact ?noted now] by simp
      then have "acct_step exact ?c ?noted c1 s1" "if rej then cx_retired c1 else cx_semantic_accepted c1"
        by (simp_all add: admitted_def)
      moreover have "acct_step exact ?c ?s0 ?c ?noted" by (rule acct_step_state) simp_all
      moreover have "slot_ok ?k ?c ?s0" using look False by (intro slot_ok_idle) auto
      ultimately show ?thesis using that [of ?c] acct_step_trans by fastforce
    qed
    show ?thesis
    proof (cases rej)
      case True
      then show ?thesis using proc Some o rx_inv_put [OF inv0 c0(1,2)] c0(3,4) acct_step_present [OF c0(2)]
        by (simp add: handle_incoming_read_response_packet_def Let_def settled_def)
    next
      case False
      obtain c2 s2 where st: "store_read_chunk now ?k (tag_lookup h m) m p c1 s1 = (c2, s2)" by fastforce
      note all = acct_step_trans [OF c0(2) acct_step_store_read [OF st]]
      have "cx_semantic_accepted c2"
        using c0(4) False acct_step_accepted [OF acct_step_store_read [OF st]] by simp
      then show ?thesis using proc Some o st False rx_inv_put [OF inv0 c0(1) all] c0(3) acct_step_present [OF all]
        by (simp add: handle_incoming_read_response_packet_def Let_def settled_def)
    qed
  qed
qed

section \<open>Runs\<close>

lemma rx_inv_send_packet:
  assumes inv: "rx_inv exact s" and h: "handle_incoming_send_packet now pdc h m p s = (r, s')"
    and small: "exact \<longrightarrow> unat (pl_max_bytes (rs_pool s)) + unat (mt_request_length m) < 2 ^ 32"
  shows "rx_inv exact s'"
proof -
  let ?s0 = "prune_receive_state now s"
  have "table_step exact (rs_ctxs s) (prune_completed_tombstones now s)
      (fst (prune_ctxs now (rs_ctxs s) (prune_completed_tombstones now s)))
      (snd (prune_ctxs now (rs_ctxs s) (prune_completed_tombstones now s)))"
    by (intro prune_ctxs_step [of now]) simp
  then have lim: "pl_max_bytes (rs_pool ?s0) = pl_max_bytes (rs_pool s)"
    by (simp add: table_step_def same_limits_def prune_receive_state_def split_beta)
  have inv0: "rx_inv exact ?s0" using inv by (rule rx_inv_prune)
  show ?thesis
  proof (cases "map_of (rs_tombs ?s0) (send_key pdc h m)")
    case Some
    then show ?thesis using h inv0 by (simp add: handle_incoming_send_packet_def Let_def)
  next
    case None
    then show ?thesis using h inv0 small lim rx_inv_process_send [OF inv0, of now pdc h m p r s']
      by (simp add: handle_incoming_send_packet_def Let_def split: option.splits)
  qed
qed

lemma rx_inv_reset: "rx_inv exact (reset_rx_tables s)"
  by (simp add: rx_inv_def reset_rx_tables_def acct_table_def within_limits_def)

text \<open>
  Everything that reaches the receive side of \<open>PdsManager\<close>: packets of both kinds, buffers that
  are registered and withdrawn, and the reset. A step fits unless it is a SEND whose announced
  length and the configured limit together do not fit the 32-bit byte counter.
\<close>

inductive rx_step :: "bool \<Rightarrow> rx_state \<Rightarrow> rx_state \<Rightarrow> bool" where
  send: "handle_incoming_send_packet now pdc h m p s = (r, s') \<Longrightarrow>
    rx_step (unat (pl_max_bytes (rs_pool s)) + unat (mt_request_length m) < 2 ^ 32) s s'"
| read_response: "handle_incoming_read_response_packet now pdc h m p s = (r, s') \<Longrightarrow> rx_step True s s'"
| post: "register_posted_receive now job msg src base len s = (ok, s') \<Longrightarrow> rx_step True s s'"
| target: "register_read_response_target now job msg peer base len s = (ok, s') \<Longrightarrow> rx_step True s s'"
| untarget: "unregister_read_response_target now job msg peer s = (ok, s') \<Longrightarrow> rx_step True s s'"
| reset: "rx_step True s (reset_rx_tables s)"

inductive_cases rx_stepE: "rx_step fits s s'"

text \<open>The flag says whether all steps so far fitted.\<close>

inductive rx_reachable :: "rx_state \<Rightarrow> bool \<Rightarrow> rx_state \<Rightarrow> bool" for s0 where
  init: "rx_reachable s0 True (reset_rx_tables s0)"
| step: "rx_reachable s0 exact s \<Longrightarrow> rx_step fits s s' \<Longrightarrow> rx_reachable s0 (exact \<and> fits) s'"

lemma rx_inv_weaken: "rx_inv exact s \<Longrightarrow> rx_inv (exact \<and> fits) s"
  by (auto simp: rx_inv_def acct_table_def)

lemma rx_inv_step: "rx_step fits s s' \<Longrightarrow> rx_inv exact s \<Longrightarrow> exact \<longrightarrow> fits \<Longrightarrow> rx_inv exact s'"
  by (erule rx_stepE)
    (auto intro: rx_inv_send_packet rx_inv_read_packet rx_inv_register_posted rx_inv_register_target
      rx_inv_unregister_target rx_inv_reset)

lemma rx_inv_reachable: "rx_reachable s0 exact s \<Longrightarrow> rx_inv exact s"
proof (induction rule: rx_reachable.induct)
  case (step exact s fits s')
  then show ?case using rx_inv_step [OF step(2) rx_inv_weaken [OF step.IH, of fits]] by simp
qed (rule rx_inv_reset)

lemma table_total_of_bool:
  "table_total (\<lambda>c. of_bool (P c)) xs = length (filter (\<lambda>(_, c). P c) xs)"
  by (induction xs) auto

lemma rx_inv_counts:
  assumes "rx_inv exact s"
  shows "unat (pl_arrival (rs_pool s)) = length (filter (\<lambda>(_, c). cx_arrival_reserved c) (rs_ctxs s))"
    and "unat (pl_messages (rs_pool s)) = length (filter (\<lambda>(_, c). cx_unexpected_reserved c) (rs_ctxs s))"
    and "unat (pl_tracks (rs_pool s)) = length (filter (\<lambda>(_, c). cx_read_track_reserved c) (rs_ctxs s))"
    and "exact \<Longrightarrow> unat (pl_bytes (rs_pool s)) =
      (\<Sum>(_, c) \<leftarrow> filter (\<lambda>(_, c). cx_unexpected_reserved c) (rs_ctxs s). unat (cx_total_length c))"
proof -
  have b: "table_total w_bytes xs =
      (\<Sum>(_, c) \<leftarrow> filter (\<lambda>(_, c). cx_unexpected_reserved c) xs. unat (cx_total_length c))" for xs :: "(rx_key \<times> rx_ctx) list"
    by (induction xs) (auto simp: w_bytes_def)
  show "unat (pl_arrival (rs_pool s)) = length (filter (\<lambda>(_, c). cx_arrival_reserved c) (rs_ctxs s))"
    "unat (pl_messages (rs_pool s)) = length (filter (\<lambda>(_, c). cx_unexpected_reserved c) (rs_ctxs s))"
    "unat (pl_tracks (rs_pool s)) = length (filter (\<lambda>(_, c). cx_read_track_reserved c) (rs_ctxs s))"
    "exact \<Longrightarrow> unat (pl_bytes (rs_pool s)) =
      (\<Sum>(_, c) \<leftarrow> filter (\<lambda>(_, c). cx_unexpected_reserved c) (rs_ctxs s). unat (cx_total_length c))"
    using assms
    by (simp_all add: rx_inv_def acct_table_def b flip: table_total_of_bool)
      (simp_all add: table_total_def o_def w_defs)
qed

end
