(* ===== verification/PdsReassembly.thy ===== *)
theory PdsReassembly
  imports PdsHandlers
begin

text \<open>
  Reassembly: what storing the chunks of one message does to its context and to the receive
  buffer, in any order and with duplicates.
\<close>

section \<open>The chunks of a message\<close>

definition chunk :: "nat \<Rightarrow> nat \<Rightarrow> u8 list \<Rightarrow> u8 list" where
  "chunk P i msg = take P (drop (i * P) msg)"

definition n_chunks :: "nat \<Rightarrow> nat \<Rightarrow> nat" where
  "n_chunks P L = (if L = 0 then 1 else (L + P - 1) div P)"

lemma n_chunks_below: "0 < P \<Longrightarrow> i < n_chunks P L \<Longrightarrow> i * P < L \<or> L = 0 \<and> i = 0"
proof (cases "L = 0")
  case False
  assume "0 < P" "i < n_chunks P L"
  then have "Suc i \<le> (L + P - 1) div P" using False by (simp add: n_chunks_def)
  then have "Suc i * P \<le> L + P - 1" using \<open>0 < P\<close> by (simp add: less_eq_div_iff_mult_less_eq)
  then show ?thesis using \<open>0 < P\<close> False by simp
qed (simp add: n_chunks_def)

text \<open>Every byte of a message lies in one of its chunks.\<close>

lemma byte_in_chunk: "0 < P \<Longrightarrow> j < L \<Longrightarrow> j div P < n_chunks P L"
proof -
  assume P: "0 < P" and j: "j < L"
  have "j div P * P \<le> j" by simp
  then have "Suc (j div P) * P \<le> L + P - 1" unfolding mult_Suc using P j by linarith
  then have "Suc (j div P) \<le> (L + P - 1) div P" using P by (simp add: less_eq_div_iff_mult_less_eq)
  then show ?thesis using j by (simp add: n_chunks_def)
qed

lemma expected_chunks_nat:
  assumes "0 < unat ppp" "unat tot + unat ppp \<le> 2 ^ 32"
  shows "unat (compute_expected_chunks ppp tot) = n_chunks (unat ppp) (unat tot)"
proof (cases "tot = 0")
  case False
  have t: "0 < unat tot" using False by (simp add: unat_gt_0)
  have "tot + ppp - 1 = tot + (ppp - 1)" by simp
  also have "unat \<dots> = unat tot + (unat ppp - 1)"
    using assms by (subst unat_add_nowrap) (simp_all add: unat_dec_pos word_less_nat_alt)
  finally have "unat (tot + ppp - 1) = unat tot + unat ppp - 1" using assms by simp
  then show ?thesis using False t by (simp add: compute_expected_chunks_def n_chunks_def unat_div)
qed (simp add: compute_expected_chunks_def n_chunks_def)

lemma chunk_index_nat:
  assumes "mt_fragment_offset m = of_nat (i * P)" "P = unat ppp" "0 < P" "i * P < 2 ^ 32"
  shows "unat (compute_chunk_index m ppp) = i"
proof -
  have "unat (of_nat (i * P) :: u32) = i * P" by (rule unat_of_nat_lt) (use assms(4) in simp)
  then have "unat (mt_fragment_offset m) = i * P" by (simp only: assms(1))
  moreover have "ppp \<noteq> 0" using assms(2,3) by auto
  ultimately show ?thesis using assms(2,3) by (simp add: compute_chunk_index_def unat_div)
qed

section \<open>A context that assembles a message\<close>

definition arrived :: "rx_ctx \<Rightarrow> nat set" where
  "arrived c = {i. i < length (cx_chunk_arrived c) \<and> cx_chunk_arrived c ! i}"

definition assembling :: "u8 list \<Rightarrow> rx_ctx \<Rightarrow> bool" where
  "assembling msg c \<longleftrightarrow>
     (let P = unat (cx_payload_per_packet c); L = length msg; n = n_chunks P L in
      0 < P \<and> unat (cx_total_length c) = L \<and> n < 2 ^ 32 \<and> unat (cx_expected_chunks c) = n \<and>
      length (cx_chunk_arrived c) = n \<and> unat (cx_chunks_done c) = card (arrived c) \<and>
      (length (cx_buffer c) = L \<or> cx_buffer c = [] \<and> arrived c = {}) \<and>
      (\<forall>j < L. j div P \<in> arrived c \<longrightarrow> cx_buffer c ! j = msg ! j))"

lemma arrived_below: "arrived c \<subseteq> {..<length (cx_chunk_arrived c)}"
  by (auto simp: arrived_def)

lemma finite_arrived [simp]: "finite (arrived c)"
  using arrived_below finite_subset by blast

lemma nth_splice:
  "off + length bs \<le> length buf \<Longrightarrow> j < length buf \<Longrightarrow>
     splice off bs buf ! j = (if off \<le> j \<and> j < off + length bs then bs ! (j - off) else buf ! j)"
  by (auto simp: splice_def nth_append)

lemma length_splice: "off + length bs \<le> length buf \<Longrightarrow> length (splice off bs buf) = length buf"
  by (simp add: splice_def)

lemma length_chunk: "length (chunk P i msg) = min P (length msg - i * P)"
  by (simp add: chunk_def)

lemma nth_chunk: "j < P \<Longrightarrow> i * P + j < length msg \<Longrightarrow> chunk P i msg ! j = msg ! (i * P + j)"
  by (simp add: chunk_def)

lemma in_chunk_iff: "0 < P \<Longrightarrow> i * P \<le> j \<and> j < i * P + P \<longleftrightarrow> j div P = (i :: nat)"
proof
  assume "0 < P" "i * P \<le> j \<and> j < i * P + P"
  then show "j div P = i" by (intro div_nat_eqI) (simp_all add: mult.commute)
next
  assume "0 < P" "j div P = i"
  then show "i * P \<le> j \<and> j < i * P + P"
    by (metis add.commute div_times_less_eq_dividend dividend_less_times_div mult.commute)
qed

text \<open>Writing chunk \<open>i\<close> over a buffer of the message's length.\<close>

lemma splice_chunk:
  assumes "0 < P" "length buf = length msg" "j < length msg" "i * P < length msg"
  shows "splice (i * P) (chunk P i msg) buf ! j = (if j div P = i then msg ! j else buf ! j)"
proof -
  have "i * P \<le> j \<and> j < i * P + length (chunk P i msg) \<longleftrightarrow> j div P = i"
    using in_chunk_iff [OF assms(1), of i j] assms by (auto simp: length_chunk)
  moreover have "i * P + length (chunk P i msg) \<le> length buf"
    using assms by (simp add: length_chunk)
  ultimately show ?thesis using assms by (auto simp: nth_splice nth_chunk length_chunk)
qed

text \<open>The packet that carries chunk \<open>i\<close>.\<close>

definition carries :: "nat \<Rightarrow> nat \<Rightarrow> u8 list \<Rightarrow> meta_tag \<Rightarrow> packet option \<Rightarrow> bool" where
  "carries P i msg m p \<longleftrightarrow> mt_fragment_offset m = of_nat (i * P) \<and> copy_packet_bytes p = chunk P i msg"

lemma carries_offset:
  "carries P i msg m p \<Longrightarrow> i * P < 2 ^ 32 \<Longrightarrow> unat (mt_fragment_offset m) = i * P"
  using unat_of_nat_lt [of "i * P", where 'a = 32] by (simp add: carries_def del: of_nat_mult)

lemma carries_index:
  "carries (unat ppp) i msg m p \<Longrightarrow> 0 < unat ppp \<Longrightarrow> i * unat ppp < 2 ^ 32 \<Longrightarrow>
     unat (compute_chunk_index m ppp) = i"
  by (rule chunk_index_nat) (auto simp: carries_def)

lemma max_one_pos: "0 < unat w \<Longrightarrow> max 1 w = (w :: u32)"
  by (simp add: max_def word_le_nat_alt)

lemma arrived_update:
  "i < length (cx_chunk_arrived c) \<Longrightarrow>
   {j. j < length (cx_chunk_arrived c) \<and> (cx_chunk_arrived c)[i := True] ! j} = insert i (arrived c)"
  by (auto simp: arrived_def nth_list_update split: if_splits)

text \<open>The stored context, field by field.\<close>

lemma store_fields:
  assumes st: "store_chunk_in_context now m p c mm = (c', mm')"
    and i: "unat (compute_chunk_index m (max 1 (cx_payload_per_packet c))) = i"
    and lt: "i < length (cx_chunk_arrived c)"
  shows "arrived c' = insert i (arrived c)"
    and "length (cx_chunk_arrived c') = length (cx_chunk_arrived c)"
    and "cx_chunks_done c' = (if i \<in> arrived c then cx_chunks_done c else cx_chunks_done c + 1)"
    and "cx_expected_chunks c' = cx_expected_chunks c" "cx_payload_per_packet c' = cx_payload_per_packet c"
    and "cx_total_length c' = cx_total_length c"
    and "cx_buffered_complete c' \<longleftrightarrow> cx_expected_chunks c \<le> cx_chunks_done c'"
    and "cx_buffer c' =
      (let buf = resize_buffer (unat (cx_total_length c)) (cx_buffer c); bs = copy_packet_bytes p;
           off = unat (mt_fragment_offset m)
       in if bs \<noteq> [] \<and> off < length buf then splice off (take (min (length bs) (length buf - off)) bs) buf else buf)"
    and "cx_last_activity c' = now_ms now"
    and "mm' = (if cx_target_base c \<noteq> 0 \<and> cx_target_length c \<noteq> 0
      then snd (copy_packet_bytes_to_target p (cx_target_base c) (mt_fragment_offset m) (cx_target_length c) mm)
      else mm)"
proof -
  let ?ca = "if i \<in> arrived c then cx_chunk_arrived c else (cx_chunk_arrived c)[i := True]"
  let ?done = "if i \<in> arrived c then cx_chunks_done c else cx_chunks_done c + 1"
  let ?buf = "let buf = resize_buffer (unat (cx_total_length c)) (cx_buffer c); bs = copy_packet_bytes p;
           off = unat (mt_fragment_offset m)
       in if bs \<noteq> [] \<and> off < length buf then splice off (take (min (length bs) (length buf - off)) bs) buf else buf"
  have first: "(\<not> cx_chunk_arrived c ! i) = (i \<notin> arrived c)" using lt by (auto simp: arrived_def)
  have eq: "store_chunk_in_context now m p c mm =
    (c\<lparr>cx_buffer := ?buf, cx_chunk_arrived := ?ca, cx_chunks_done := ?done,
       cx_buffered_complete := (cx_expected_chunks c \<le> ?done), cx_last_activity := now_ms now\<rparr>,
     if cx_target_base c \<noteq> 0 \<and> cx_target_length c \<noteq> 0
      then snd (copy_packet_bytes_to_target p (cx_target_base c) (mt_fragment_offset m) (cx_target_length c) mm)
      else mm)"
    unfolding store_chunk_in_context_def Let_def i using lt first by (cases "i \<in> arrived c") simp_all
  have c': "c' = c\<lparr>cx_buffer := ?buf, cx_chunk_arrived := ?ca, cx_chunks_done := ?done,
       cx_buffered_complete := (cx_expected_chunks c \<le> ?done), cx_last_activity := now_ms now\<rparr>"
    using st unfolding eq by simp
  show "length (cx_chunk_arrived c') = length (cx_chunk_arrived c)" by (simp add: c')
  show "cx_chunks_done c' = ?done" by (simp_all add: c')
  show "cx_expected_chunks c' = cx_expected_chunks c" "cx_payload_per_packet c' = cx_payload_per_packet c"
    "cx_total_length c' = cx_total_length c" "cx_last_activity c' = now_ms now"
    "cx_buffered_complete c' \<longleftrightarrow> cx_expected_chunks c \<le> cx_chunks_done c'"
    "cx_buffer c' = ?buf" by (simp_all add: c')
  show "mm' = (if cx_target_base c \<noteq> 0 \<and> cx_target_length c \<noteq> 0
      then snd (copy_packet_bytes_to_target p (cx_target_base c) (mt_fragment_offset m) (cx_target_length c) mm)
      else mm)" using st unfolding eq by simp
  show "arrived c' = insert i (arrived c)"
  proof (cases "i \<in> arrived c")
    case True
    then have "arrived c' = arrived c" by (simp add: c' arrived_def)
    then show ?thesis using True by auto
  next
    case False
    then have "arrived c' = {j. j < length (cx_chunk_arrived c) \<and> (cx_chunk_arrived c)[i := True] ! j}"
      by (simp add: c' arrived_def [of "_ \<lparr> cx_last_activity := _ \<rparr>"])
    then show ?thesis by (simp only: arrived_update [OF lt])
  qed
qed

text \<open>One chunk stored: the set of arrived chunks grows by it, and the message is buffered
  completely exactly when none is missing.\<close>

lemma assembling_chunk:
  assumes a: "assembling msg c" and st: "store_chunk_in_context now m p c mm = (c', mm')"
    and car: "carries (unat (cx_payload_per_packet c)) i msg m p"
    and i: "i < n_chunks (unat (cx_payload_per_packet c)) (length msg)" and L: "length msg < 2 ^ 32"
  shows "assembling msg c' \<and> arrived c' = insert i (arrived c) \<and>
    (cx_buffered_complete c' \<longleftrightarrow> arrived c' = {..<n_chunks (unat (cx_payload_per_packet c)) (length msg)})"
proof -
  let ?P = "unat (cx_payload_per_packet c)" and ?L = "length msg"
  let ?n = "n_chunks ?P ?L"
  have P: "0 < ?P" and tot: "unat (cx_total_length c) = ?L" and n: "?n < 2 ^ 32"
    and ex: "unat (cx_expected_chunks c) = ?n" and len: "length (cx_chunk_arrived c) = ?n"
    and dn: "unat (cx_chunks_done c) = card (arrived c)"
    and buf: "length (cx_buffer c) = ?L \<or> cx_buffer c = [] \<and> arrived c = {}"
    and good: "\<And>j. j < ?L \<Longrightarrow> j div ?P \<in> arrived c \<Longrightarrow> cx_buffer c ! j = msg ! j"
    using a by (simp_all add: assembling_def Let_def)
  have off: "i * ?P < ?L \<or> ?L = 0 \<and> i = 0" using n_chunks_below [OF P i] .
  then have off32: "i * ?P < 2 ^ 32" using L by auto
  have ix: "unat (compute_chunk_index m (max 1 (cx_payload_per_packet c))) = i"
    unfolding max_one_pos [OF P] by (rule carries_index [OF car P off32])
  note fs = store_fields [OF st ix, unfolded len, OF i]
  have sub: "insert i (arrived c) \<subseteq> {..<?n}" using arrived_below [of c] i len by auto
  then have card: "card (insert i (arrived c)) \<le> ?n" using card_mono [OF _ sub] by simp
  have dn': "unat (cx_chunks_done c') = card (arrived c')"
  proof (cases "i \<in> arrived c")
    case False
    then have "unat (cx_chunks_done c) + 1 < 2 ^ 32" using card n dn by simp
    then show ?thesis using False fs(1,3) dn by (subst fs(3)) (simp add: unat_add_nowrap)
  qed (use fs(1,3) dn in \<open>simp add: insert_absorb\<close>)
  have buf': "length (cx_buffer c') = ?L \<and> (\<forall>j < ?L. j div ?P \<in> arrived c' \<longrightarrow> cx_buffer c' ! j = msg ! j)"
  proof -
    let ?b = "resize_buffer (unat (cx_total_length c)) (cx_buffer c)"
    have lb: "length ?b = ?L" using buf tot by (auto simp: resize_buffer_def)
    have gb: "?b ! j = msg ! j" if "j < ?L" "j div ?P \<in> arrived c" for j
      using good [OF that] buf that tot by (auto simp: resize_buffer_def)
    show ?thesis
    proof (cases "?L = 0")
      case True
      then show ?thesis using lb fs(8) by (simp add: Let_def tot)
    next
      case False
      then have lt: "i * ?P < ?L" using off by auto
      have c: "copy_packet_bytes p = chunk ?P i msg" using car by (simp add: carries_def)
      have "chunk ?P i msg \<noteq> []" using lt P length_chunk [of ?P i msg] by (metis length_0_conv min_0R not_less_zero zero_less_diff min_less_iff_conj)
      moreover have "length (chunk ?P i msg) \<le> ?L - i * ?P" by (simp add: length_chunk)
      ultimately have "cx_buffer c' = splice (i * ?P) (chunk ?P i msg) ?b"
        using lt fs(8) by (simp add: Let_def c lb carries_offset [OF car off32] min_absorb1)
      then show ?thesis using splice_chunk [OF P lb _ lt] gb lb lt fs(1)
        by (auto simp: length_splice length_chunk)
    qed
  qed
  have "cx_buffered_complete c' \<longleftrightarrow> ?n \<le> card (arrived c')"
    using fs(7) ex dn' by (simp add: word_le_nat_alt)
  also have "\<dots> \<longleftrightarrow> arrived c' = {..<?n}"
  proof
    assume "?n \<le> card (arrived c')"
    then show "arrived c' = {..<?n}" using sub by (intro card_seteq) (simp_all add: fs(1))
  qed simp
  finally show ?thesis
    using fs(1,2,4,5,6) P tot n ex len dn' buf' by (simp add: assembling_def Let_def)
qed

section \<open>The receive buffer\<close>

text \<open>
  Memory after the chunks in \<open>A\<close> were copied to a buffer of \<open>T\<close> bytes at \<open>base\<close>: their bytes, as
  far as the buffer reaches, and nothing else changed.
\<close>

definition placed :: "u8 list \<Rightarrow> nat \<Rightarrow> nat set \<Rightarrow> u64 \<Rightarrow> nat \<Rightarrow> mem \<Rightarrow> mem" where
  "placed msg P A base T mm = (\<lambda>a. let j = unat (a - base) in
     if j < T \<and> j < length msg \<and> j div P \<in> A then msg ! j else mm a)"

lemma placed_empty [simp]: "placed msg P {} base T mm = mm"
  by (simp add: placed_def)

lemma placed_all:
  assumes "0 < P"
  shows "placed msg P {..<n_chunks P (length msg)} base T mm = mem_write base (take T msg) mm"
  using byte_in_chunk [OF assms] by (auto simp: placed_def mem_write_def Let_def fun_eq_iff)

lemma copy_placed:
  assumes car: "carries P i msg m p" and P: "0 < P" and i: "i < n_chunks P (length msg)"
    and L: "length msg < 2 ^ 32" and p: "p \<noteq> None" and base: "base \<noteq> 0"
  shows "snd (copy_packet_bytes_to_target p base (mt_fragment_offset m) T (placed msg P A base (unat T) mm))
    = placed msg P (insert i A) base (unat T) mm"
proof -
  let ?off = "mt_fragment_offset m" and ?L = "length msg"
  have off: "i * P < ?L \<or> ?L = 0 \<and> i = 0" using n_chunks_below [OF P i] .
  then have off32: "i * P < 2 ^ 32" using L by auto
  have uo: "unat ?off = i * P" by (rule carries_offset [OF car off32])
  have bs: "copy_packet_bytes p = chunk P i msg" using car by (simp add: carries_def)
  note in_chunk = in_chunk_iff [OF P, of i]
  show ?thesis
  proof (cases "T \<le> ?off \<or> chunk P i msg = []")
    case True
    have "\<not> (j < unat T \<and> j < ?L \<and> j div P = i)" for j
    proof
      assume j: "j < unat T \<and> j < ?L \<and> j div P = i"
      then have "i * P \<le> j" "j < i * P + P" using in_chunk by auto
      then have "0 < length (chunk P i msg)" using j P by (auto simp: length_chunk)
      then show False using True j uo \<open>i * P \<le> j\<close> by (auto simp: word_le_nat_alt)
    qed
    then have "placed msg P (insert i A) base (unat T) mm = placed msg P A base (unat T) mm"
      by (auto simp: placed_def Let_def fun_eq_iff)
    then show ?thesis using True by (auto simp: copy_packet_bytes_to_target_def bs Let_def)
  next
    case False
    define kk where "kk = unat (min (of_nat (length (chunk P i msg))) (T - ?off))"
    have lc: "length (chunk P i msg) < 2 ^ 32" using L by (simp add: length_chunk)
    have k: "kk = min (length (chunk P i msg)) (unat T - i * P)"
      using False uo unat_of_nat_lt [of "length (chunk P i msg)", where 'a = 32] lc
      by (simp add: kk_def min_def word_le_nat_alt unat_sub_le)
    have bound: "(p = None \<or> base = 0 \<or> T \<le> ?off) = False" using False p base by blast
    have "snd (copy_packet_bytes_to_target p base ?off T m0) = mem_write (base + ucast ?off) (take kk (chunk P i msg)) m0" for m0
      using False unfolding copy_packet_bytes_to_target_def Let_def bs bound kk_def by simp
    moreover have "mem_write (base + ucast ?off) (take kk (chunk P i msg)) m0 a =
        (let j = unat (a - base) in if j < unat T \<and> j < ?L \<and> j div P = i then msg ! j else m0 a)" for m0 a
    proof -
      let ?j = "unat (a - base)"
      have "mem_write (base + of_nat (i * P)) (take kk (chunk P i msg)) m0 (base + of_nat ?j) =
        (if i * P \<le> ?j \<and> ?j < i * P + length (take kk (chunk P i msg))
         then take kk (chunk P i msg) ! (?j - i * P) else m0 (base + of_nat ?j))"
        using off32 lc unsigned_less [of "a - base"] by (intro mem_write_offset) (simp_all add: k)
      moreover have "(ucast ?off :: u64) = of_nat (i * P)"
        unfolding uo [symmetric] by (simp only: of_nat_unat)
      moreover have "i * P \<le> ?j \<and> ?j < i * P + length (take kk (chunk P i msg)) \<longleftrightarrow>
          ?j < unat T \<and> ?j < ?L \<and> ?j div P = i"
      proof -
        have "q \<le> j \<and> j < q + min (min P (?L - q)) (unat T - q) \<longleftrightarrow> (q \<le> j \<and> j < q + P) \<and> j < unat T \<and> j < ?L"
          for q j :: nat by (auto simp: min_def)
        moreover have "length (take kk (chunk P i msg)) = min (min P (?L - i * P)) (unat T - i * P)"
          by (simp add: k length_chunk)
        ultimately show ?thesis using in_chunk [of ?j] by (metis (no_types, lifting))
      qed
      moreover have "take kk (chunk P i msg) ! (?j - i * P) = msg ! ?j"
        if "i * P \<le> ?j" "?j < i * P + length (take kk (chunk P i msg))"
      proof -
        have len: "length (take kk (chunk P i msg)) = min (min P (?L - i * P)) (unat T - i * P)"
          by (simp add: k length_chunk)
        have "?j - i * P < length (take kk (chunk P i msg))" using that by linarith
        then have "?j - i * P < min (min P (?L - i * P)) (unat T - i * P)" unfolding len .
        then have "?j - i * P < P" "?j - i * P < ?L - i * P" "?j - i * P < unat T - i * P"
          unfolding min_less_iff_conj by blast+
        moreover have "?j - i * P < kk" using calculation by (simp add: k length_chunk)
        moreover have "?j < ?L" using calculation(2) that(1) by linarith
        ultimately show ?thesis using nth_chunk [of "?j - i * P" P i msg] that(1) by simp
      qed
      ultimately show ?thesis by (auto simp: Let_def simp del: nth_take length_take of_nat_mult)
    qed
    ultimately show ?thesis by (auto simp: placed_def Let_def fun_eq_iff)
  qed
qed

end
