(* ===== verification/PdsDelivery.thy ===== *)
theory PdsDelivery
  imports PdsReassembly
begin

text \<open>
  Delivery of one message through \<open>HandleIncomingSendPacket\<close>: the packets of a SEND with a
  posted receive, in any order and with duplicates, fill the posted buffer, and the message is
  answered when its last chunk is there and again for every later duplicate.
\<close>

section \<open>What pruning leaves alone\<close>

text \<open>Everything but the contexts, the resource counters, the targets and the notifications.\<close>

definition rx_kept :: "rx_state \<Rightarrow> rx_state \<Rightarrow> bool" where
  "rx_kept s s' \<longleftrightarrow> rs_mem s' = rs_mem s \<and> rs_posted s' = rs_posted s \<and> rs_tombs s' = rs_tombs s \<and>
     rs_lookup_tombs s' = rs_lookup_tombs s \<and> rs_state_timeout s' = rs_state_timeout s \<and>
     rs_payload_mtu s' = rs_payload_mtu s \<and> rs_device_mtu s' = rs_device_mtu s \<and>
     pl_max_arrival (rs_pool s') = pl_max_arrival (rs_pool s) \<and>
     pl_arrival (rs_pool s') \<le> pl_arrival (rs_pool s)"

lemma rx_kept_refl [simp]: "rx_kept s s"
  by (simp add: rx_kept_def)

lemma rx_kept_trans: "rx_kept a b \<Longrightarrow> rx_kept b c \<Longrightarrow> rx_kept a c"
  by (auto simp: rx_kept_def)

lemma sub_min_le: "a - min 1 a \<le> (a :: u32)"
  by (simp add: word_le_nat_alt min.commute [of 1] unat_sub_min)

lemma rx_kept_notify [simp]: "rx_kept s (notify n s)"
  by (simp add: rx_kept_def notify_def)

lemma rx_kept_retire:
  assumes "retire_context_resources now c s = (c', s')"
  shows "rx_kept s s'"
proof -
  have 1: "rx_kept s (release_unexpected c s)" for s by (simp add: rx_kept_def release_unexpected_def)
  have 2: "rx_kept s (release_arrival now c s)" for s
    by (simp add: rx_kept_def release_arrival_def notify_def sub_min_le Let_def)
  have 3: "rx_kept s (release_track c s)" for s
    by (simp add: rx_kept_def release_track_def release_read_track_def)
  have "s' = s \<or> s' = release_track c (release_arrival now c (release_unexpected c s))"
    using assms by (auto simp: retire_context_resources_def split: if_splits)
  then show ?thesis using 1 2 3 rx_kept_trans rx_kept_refl by metis
qed

lemma rx_kept_release_target [simp]: "rx_kept s (release_target now c s)"
  by (simp add: rx_kept_def release_target_def notify_def Let_def)

lemma rx_kept_prune_ctx:
  assumes "prune_ctx now c s = (r, s')"
  shows "rx_kept s s'"
proof -
  have t: "rx_kept s0 (s0\<lparr>rs_stale_cleanups := x\<rparr>)" for s0 x by (simp add: rx_kept_def)
  show ?thesis using assms
    by (auto simp: prune_ctx_def Let_def split: if_splits prod.splits
        dest!: rx_kept_retire intro: rx_kept_trans [OF _ t] rx_kept_trans [OF rx_kept_release_target] rx_kept_trans)
qed

lemma state_ttl_kept: "rx_kept s s' \<Longrightarrow> state_ttl s' = state_ttl s"
  by (simp add: rx_kept_def state_ttl_def)

text \<open>A context that is not idle survives the loop unchanged.\<close>

lemma prune_ctx_live:
  "\<not> cx_retired c \<Longrightarrow> now_ms now - cx_last_activity c < state_ttl s \<Longrightarrow> prune_ctx now c s = (Some c, s)"
  by (simp add: prune_ctx_def)

lemma prune_ctxs_lookup:
  assumes "prune_ctxs now xs s = (ys, s')"
  shows "rx_kept s s' \<and> (map_of xs k = None \<longrightarrow> map_of ys k = None) \<and>
    (\<forall>c. map_of xs k = Some c \<and> \<not> cx_retired c \<and> now_ms now - cx_last_activity c < state_ttl s
       \<longrightarrow> map_of ys k = Some c)"
  using assms
proof (induction now xs s arbitrary: ys s' rule: prune_ctxs.induct)
  case (2 now k' c xs s)
  obtain r s1 where c: "prune_ctx now c s = (r, s1)" by fastforce
  obtain zs s2 where xs: "prune_ctxs now xs s1 = (zs, s2)" by fastforce
  have kept: "rx_kept s s1" by (rule rx_kept_prune_ctx [OF c])
  have IH: "rx_kept s1 s2" "map_of xs k = None \<Longrightarrow> map_of zs k = None"
    "\<And>c. map_of xs k = Some c \<and> \<not> cx_retired c \<and> now_ms now - cx_last_activity c < state_ttl s
       \<Longrightarrow> map_of zs k = Some c"
    using 2(1) [OF c [symmetric] refl xs] state_ttl_kept [OF kept] by auto
  have res: "s' = s2" "ys = (case r of None \<Rightarrow> zs | Some c' \<Rightarrow> (k', c') # zs)"
    using 2(2) c xs by (auto split: option.splits)
  show ?case
  proof (cases "k' = k")
    case True
    then show ?thesis using res IH(1) kept rx_kept_trans c prune_ctx_live [of c now s]
      by auto
  next
    case False
    then show ?thesis using res IH kept rx_kept_trans by (auto split: option.split)
  qed
qed simp

lemma map_of_filter_keep:
  "map_of xs k = Some v \<Longrightarrow> P v \<Longrightarrow> map_of (filter (\<lambda>(_, v). P v) xs) k = Some v"
  by (induction xs) (auto split: if_splits)

lemma map_of_filter_None: "map_of xs k = None \<Longrightarrow> map_of (filter P xs) k = None"
  by (induction xs) auto

lemma prune_receive_state_live:
  fixes s now
  defines "s' \<equiv> prune_receive_state now s"
  shows "rs_mem s' = rs_mem s" "compute_payload_per_packet s' = compute_payload_per_packet s"
    "state_ttl s' = state_ttl s"
    "pl_arrival (rs_pool s) < pl_max_arrival (rs_pool s) \<Longrightarrow> pl_arrival (rs_pool s') < pl_max_arrival (rs_pool s')"
    "map_of (rs_ctxs s) k = None \<Longrightarrow> map_of (rs_ctxs s') k = None"
    "map_of (rs_ctxs s) k = Some c \<Longrightarrow> \<not> cx_retired c \<Longrightarrow> now_ms now - cx_last_activity c < state_ttl s \<Longrightarrow>
       map_of (rs_ctxs s') k = Some c"
    "map_of (rs_posted s) lk = Some b \<Longrightarrow> \<not> pr_consumed b \<Longrightarrow> map_of (rs_posted s') lk = Some b"
    "map_of (rs_posted s) lk = None \<Longrightarrow> map_of (rs_posted s') lk = None"
    "map_of (rs_tombs s) k = None \<Longrightarrow> map_of (rs_tombs s') k = None"
    "map_of (rs_tombs s) k = Some t \<Longrightarrow> now_ms now - tb_completed_at t \<le> state_ttl s \<Longrightarrow>
       map_of (rs_tombs s') k = Some t"
    "map_of (rs_lookup_tombs s) lk = None \<Longrightarrow> map_of (rs_lookup_tombs s') lk = None"
    "map_of (rs_lookup_tombs s) lk = Some t \<Longrightarrow> now_ms now - tb_completed_at t \<le> state_ttl s \<Longrightarrow>
       map_of (rs_lookup_tombs s') lk = Some t"
proof -
  let ?t = "prune_completed_tombstones now s"
  obtain cs u where p: "prune_ctxs now (rs_ctxs s) ?t = (cs, u)" by fastforce
  have s': "s' = u\<lparr>rs_ctxs := cs, rs_posted := filter (\<lambda>(_, b). \<not> pr_consumed b) (rs_posted u)\<rparr>"
    using p by (simp add: s'_def prune_receive_state_def)
  have kept: "rx_kept ?t u" and none: "\<And>k. map_of (rs_ctxs s) k = None \<Longrightarrow> map_of cs k = None"
    and live: "\<And>k c. map_of (rs_ctxs s) k = Some c \<Longrightarrow> \<not> cx_retired c \<Longrightarrow>
      now_ms now - cx_last_activity c < state_ttl ?t \<Longrightarrow> map_of cs k = Some c"
    using prune_ctxs_lookup [OF p] by auto
  have ttl: "state_ttl ?t = state_ttl s" by (simp add: state_ttl_def prune_completed_tombstones_def)
  note u = kept [unfolded rx_kept_def]
  show "rs_mem s' = rs_mem s" "compute_payload_per_packet s' = compute_payload_per_packet s"
    "state_ttl s' = state_ttl s"
    using u by (simp_all add: s' prune_completed_tombstones_def compute_payload_per_packet_def state_ttl_def)
  show "pl_arrival (rs_pool s) < pl_max_arrival (rs_pool s) \<Longrightarrow> pl_arrival (rs_pool s') < pl_max_arrival (rs_pool s')"
    using u by (auto simp: s' prune_completed_tombstones_def)
  show "map_of (rs_ctxs s) k = None \<Longrightarrow> map_of (rs_ctxs s') k = None"
    using none by (simp add: s')
  show "map_of (rs_ctxs s) k = Some c \<Longrightarrow> \<not> cx_retired c \<Longrightarrow> now_ms now - cx_last_activity c < state_ttl s \<Longrightarrow>
       map_of (rs_ctxs s') k = Some c"
    using live by (simp add: s' ttl)
  show "map_of (rs_posted s) lk = Some b \<Longrightarrow> \<not> pr_consumed b \<Longrightarrow> map_of (rs_posted s') lk = Some b"
    using u by (simp add: s' prune_completed_tombstones_def map_of_filter_keep [where P = "\<lambda>b. \<not> pr_consumed b"])
  show "map_of (rs_posted s) lk = None \<Longrightarrow> map_of (rs_posted s') lk = None"
    using u by (simp add: s' prune_completed_tombstones_def map_of_filter_None)
  show "map_of (rs_tombs s) k = None \<Longrightarrow> map_of (rs_tombs s') k = None"
    "map_of (rs_lookup_tombs s) lk = None \<Longrightarrow> map_of (rs_lookup_tombs s') lk = None"
    using u by (simp_all add: s' prune_completed_tombstones_def map_of_filter_None)
  show "map_of (rs_tombs s) k = Some t \<Longrightarrow> now_ms now - tb_completed_at t \<le> state_ttl s \<Longrightarrow>
       map_of (rs_tombs s') k = Some t"
    "map_of (rs_lookup_tombs s) lk = Some t \<Longrightarrow> now_ms now - tb_completed_at t \<le> state_ttl s \<Longrightarrow>
       map_of (rs_lookup_tombs s') lk = Some t"
    using u by (simp_all add: s' prune_completed_tombstones_def
        map_of_filter_keep [where P = "\<lambda>t. now_ms now - tb_completed_at t \<le> state_ttl s"])
qed

section \<open>The states of one message\<close>

text \<open>
  A message under reception with a posted receive: \<open>A\<close> is the set of chunks that arrived, \<open>t\<close> the
  time (in milliseconds) of the last packet. Before the first packet there is no context.
\<close>

definition receiving_ctx :: "lookup_key \<Rightarrow> posted_receive \<Rightarrow> u8 list \<Rightarrow> nat \<Rightarrow> nat set \<Rightarrow> rx_ctx \<Rightarrow> bool" where
  "receiving_ctx lk b msg P A c \<longleftrightarrow> cx_present c \<and> \<not> cx_retired c \<and> cx_mode c = DIRECT_EXPECTED \<and>
     cx_semantic_accepted c \<and> cx_target_base c = pr_base b \<and> cx_target_length c = pr_length b \<and>
     \<not> cx_response_sent c \<and> \<not> cx_completed c \<and> \<not> cx_failed c \<and> ctx_lookup c = lk \<and>
     unat (cx_payload_per_packet c) = P \<and> assembling msg c \<and> arrived c = A"

definition receiving ::
  "rx_key \<Rightarrow> lookup_key \<Rightarrow> posted_receive \<Rightarrow> u8 list \<Rightarrow> nat \<Rightarrow> mem \<Rightarrow> ms \<Rightarrow> nat set \<Rightarrow> rx_state \<Rightarrow> bool" where
  "receiving k lk b msg P mm t A s \<longleftrightarrow>
     map_of (rs_tombs s) k = None \<and> map_of (rs_lookup_tombs s) lk = None \<and>
     map_of (rs_posted s) lk = Some b \<and> \<not> pr_consumed b \<and>
     rs_mem s = placed msg P A (pr_base b) (unat (pr_length b)) mm \<and>
     (case map_of (rs_ctxs s) k of
        None \<Rightarrow> A = {} \<and> pl_arrival (rs_pool s) < pl_max_arrival (rs_pool s) \<and>
          unat (compute_payload_per_packet s) = P
      | Some c \<Rightarrow> receiving_ctx lk b msg P A c \<and> cx_last_activity c = t)"

definition delivered ::
  "rx_key \<Rightarrow> lookup_key \<Rightarrow> posted_receive \<Rightarrow> u8 list \<Rightarrow> mem \<Rightarrow> ms \<Rightarrow> rx_state \<Rightarrow> bool" where
  "delivered k lk b msg mm t s \<longleftrightarrow>
     (\<exists>tb. map_of (rs_tombs s) k = Some tb \<and> map_of (rs_lookup_tombs s) lk = Some tb \<and>
       unat (tb_modified_length tb) = length msg \<and> tb_completed_at tb = t) \<and>
     rs_mem s = mem_write (pr_base b) (take (unat (pr_length b)) msg) mm"

lemma new_send_ctx_assembling:
  assumes "unat (mt_request_length m) = length msg" "0 < unat (compute_payload_per_packet s)"
    "length msg + unat (compute_payload_per_packet s) \<le> 2 ^ 32"
  shows "assembling msg (new_send_ctx now pdc h m s)" "arrived (new_send_ctx now pdc h m s) = {}"
proof -
  let ?P = "compute_payload_per_packet s"
  have n: "unat (compute_expected_chunks ?P (mt_request_length m)) = n_chunks (unat ?P) (length msg)"
    using expected_chunks_nat [of ?P "mt_request_length m"] assms by simp
  show a: "arrived (new_send_ctx now pdc h m s) = {}"
    by (auto simp: arrived_def new_send_ctx_def Let_def)
  have "unat (compute_expected_chunks ?P (mt_request_length m)) < 2 ^ LENGTH(32)" by (rule unsigned_less)
  then have "n_chunks (unat ?P) (length msg) < 2 ^ 32" by (simp add: n)
  then show "assembling msg (new_send_ctx now pdc h m s)"
    using assms a n by (simp add: assembling_def Let_def)
      (simp add: new_send_ctx_def fresh_ctx_def Let_def)
qed

lemma store_kept:
  assumes "store_chunk_in_context now m p c mm = (c', mm')"
  shows "cx_target_base c' = cx_target_base c \<and> cx_target_length c' = cx_target_length c \<and>
    cx_mode c' = cx_mode c \<and> cx_response_sent c' = cx_response_sent c \<and> cx_completed c' = cx_completed c \<and>
    cx_failed c' = cx_failed c \<and> ctx_lookup c' = ctx_lookup c \<and> cx_present c' = cx_present c \<and>
    cx_retired c' = cx_retired c \<and> cx_semantic_accepted c' = cx_semantic_accepted c"
proof -
  have "c' = fst (store_chunk_in_context now m p c mm)" using assms by simp
  then show ?thesis
    by (cases "length (cx_chunk_arrived c) \<le> unat (compute_chunk_index m (max 1 (cx_payload_per_packet c)))")
      (simp_all add: store_chunk_in_context_def Let_def ctx_lookup_def)
qed

text \<open>Admission of a packet of the message: the context is open, bound to the posted buffer.\<close>

lemma admit_receiving:
  assumes rec: "receiving k lk b msg P mm t A s" and k: "k = send_key pdc h m" "lk = tag_lookup h m"
    and b: "pr_base b \<noteq> 0" and P: "0 < P" "length msg + P \<le> 2 ^ 32"
    and L: "unat (mt_request_length m) = length msg"
  obtains c s1 where "admit_send now lk (open_ctx (new_send_ctx now pdc h m s) k s) s = (False, no_result, c, s1)"
    "receiving_ctx lk b msg P A c" "s1 = s\<lparr>rs_pool := rs_pool s1\<rparr>"
proof -
  have post: "posted_for lk s = Some b" using rec b by (simp add: receiving_def posted_for_def)
  show ?thesis
  proof (cases "map_of (rs_ctxs s) k")
    case (Some c)
    then have rc: "receiving_ctx lk b msg P A c" using rec by (simp add: receiving_def)
    then have "open_ctx (new_send_ctx now pdc h m s) k s = c"
      using Some by (simp add: open_ctx_def receiving_ctx_def)
    then show ?thesis using that [of c s] rc b post
      by (simp add: admit_send_def admit_expected_def receiving_ctx_def Let_def)
  next
    case None
    let ?c = "new_send_ctx now pdc h m s"
    let ?p = "(rs_pool s)\<lparr>pl_arrival := pl_arrival (rs_pool s) + 1\<rparr>"
    let ?c' = "?c\<lparr>cx_arrival_reserved := True, cx_target_base := pr_base b, cx_target_length := pr_length b,
      cx_mode := DIRECT_EXPECTED, cx_semantic_accepted := True\<rparr>"
    have n: "A = {}" "pl_arrival (rs_pool s) < pl_max_arrival (rs_pool s)"
      "unat (compute_payload_per_packet s) = P"
      using rec None by (simp_all add: receiving_def)
    have new: "cx_mode ?c = DIRECT_EXPECTED" "cx_target_base ?c = 0" "\<not> cx_arrival_reserved ?c"
      "\<not> cx_semantic_accepted ?c" "cx_payload_per_packet ?c = compute_payload_per_packet s"
      by (simp_all add: new_send_ctx_def fresh_ctx_def Let_def)
    have res: "reserve_arrival_block ?c (rs_pool s) = (True, ?c\<lparr>cx_arrival_reserved := True\<rparr>, ?p)"
      using n new by (simp add: reserve_arrival_block_def linorder_not_le)
    have adm: "admit_send now lk (open_ctx ?c k s) s = (False, no_result, ?c', s\<lparr>rs_pool := ?p\<rparr>)"
      using None post new res by (simp add: admit_send_def open_ctx_def admit_expected_def Let_def)
    have "assembling msg ?c" "arrived ?c = {}"
      using new_send_ctx_assembling [of m msg s now pdc h] L P n by simp_all
    moreover have ar: "arrived ?c' = arrived ?c" by (simp add: arrived_def)
    moreover have "assembling msg ?c' = assembling msg ?c" unfolding assembling_def Let_def ar by simp
    ultimately have "assembling msg ?c'" "arrived ?c' = {}" by simp_all
    then have "receiving_ctx lk b msg P A ?c'"
      using n new k(2) by (simp add: receiving_ctx_def)
        (simp add: new_send_ctx_def fresh_ctx_def Let_def ctx_lookup_def tag_lookup_def)
    then show ?thesis using that [OF adm] by simp
  qed
qed

text \<open>The chunk of an admitted packet.\<close>

definition send_answer :: "ns \<Rightarrow> bool \<Rightarrow> nat \<Rightarrow> rx_result \<Rightarrow> bool" where
  "send_answer now complete L r \<longleftrightarrow>
     rr_handled r \<and> \<not> rr_failed r \<and> rr_semantic_accepted r \<and> rr_delivery_complete r = complete \<and>
     rr_response_ready r = complete \<and>
     (complete \<longrightarrow> rr_response_opcode r = UET_DEFAULT_RESPONSE \<and> rr_return_code r = RC_OK \<and>
       unat (rr_modified_length r) = L)"

lemma store_send_receiving:
  assumes rc: "receiving_ctx lk b msg P A c" and mem: "rs_mem s = placed msg P A (pr_base b) (unat (pr_length b)) mm"
    and b: "pr_base b \<noteq> 0" "pr_length b \<noteq> 0" and P: "0 < P" and car: "carries P i msg m p" and p: "p \<noteq> None"
    and i: "i < n_chunks P (length msg)" and L: "length msg < 2 ^ 32"
  obtains c1 where "receiving_ctx lk b msg P (insert i A) c1" "cx_last_activity c1 = now_ms now"
    "cx_buffered_complete c1 \<longleftrightarrow> insert i A = {..<n_chunks P (length msg)}"
    "store_send_chunk now k m p c s = try_retire_completed now k c1
       (s\<lparr>rs_mem := placed msg P (insert i A) (pr_base b) (unat (pr_length b)) mm\<rparr>)"
proof -
  let ?T = "pr_length b" and ?n = "n_chunks P (length msg)"
  have c: "cx_mode c = DIRECT_EXPECTED" "cx_target_base c = pr_base b" "cx_target_length c = ?T"
    "unat (cx_payload_per_packet c) = P" "assembling msg c" "arrived c = A"
    using rc by (simp_all add: receiving_ctx_def)
  let ?m = "placed msg P (insert i A) (pr_base b) (unat ?T) mm"
  have T: "max 1 ?T = ?T" using b(2) by (intro max_one_pos) (simp add: unat_gt_0)
  have m1: "snd (copy_packet_bytes_to_target p (pr_base b) (mt_fragment_offset m) ?T (rs_mem s)) = ?m"
    unfolding mem by (rule copy_placed [OF car P i L p b(1)])
  obtain c1 m2 where st: "store_chunk_in_context now m p c ?m = (c1, m2)" by fastforce
  have as: "assembling msg c1" "arrived c1 = insert i A" "cx_buffered_complete c1 \<longleftrightarrow> insert i A = {..<?n}"
    using assembling_chunk [OF c(5) st _ _ L, of i] car i c(4,6) by simp_all
  have lt: "i * P < 2 ^ 32" using n_chunks_below [OF P i] L by auto
  have ppos: "0 < unat (cx_payload_per_packet c)" using P c(4) by simp
  have ix: "unat (compute_chunk_index m (max 1 (cx_payload_per_packet c))) = i"
    unfolding max_one_pos [OF ppos] using carries_index [of "cx_payload_per_packet c" i msg m p] car P lt c(4) by simp
  have len: "i < length (cx_chunk_arrived c)" using c(4,5) i by (simp add: assembling_def Let_def)
  note fs = store_fields [OF st ix len]
  have "m2 = snd (copy_packet_bytes_to_target p (pr_base b) (mt_fragment_offset m) ?T ?m)"
    using fs(10) b c(2,3) by simp
  then have m2: "m2 = ?m" using copy_placed [OF car P i L p b(1), of ?T "insert i A" mm] by simp
  have rc1: "receiving_ctx lk b msg P (insert i A) c1"
    using rc store_kept [OF st] as fs(5) by (simp add: receiving_ctx_def)
  moreover have "store_send_chunk now k m p c s = try_retire_completed now k c1 (s\<lparr>rs_mem := ?m\<rparr>)"
    using c(1-3) T m1 st m2 rc1 by (simp add: store_send_chunk_def receiving_ctx_def)
  ultimately show ?thesis using that as(3) fs(9) by blast
qed

text \<open>Completion of a message with a posted receive.\<close>

lemma retire_receiving:
  assumes rc: "receiving_ctx lk b msg P A c" and full: "cx_buffered_complete c"
  obtains c' s' where "try_retire_completed now k c s = (c', s')"
    "cx_mode c' = DIRECT_EXPECTED" "cx_completed c'" "\<not> cx_response_sent c'" "\<not> cx_failed c'" "cx_semantic_accepted c'"
    "unat (cx_total_length c') = length msg" "rs_mem s' = rs_mem s" "state_ttl s' = state_ttl s"
    "map_of (rs_tombs s') k = Some \<lparr>tb_modified_length = cx_total_length c', tb_completed_at = now_ms now\<rparr>"
    "map_of (rs_lookup_tombs s') lk = Some \<lparr>tb_modified_length = cx_total_length c', tb_completed_at = now_ms now\<rparr>"
proof -
  obtain c' s1 where r: "retire_context_resources now (c\<lparr>cx_completed := True\<rparr>) s = (c', s1)" by fastforce
  have kept: "rx_kept s s1" by (rule rx_kept_retire [OF r])
  have c': "c' = fst (retire_context_resources now (c\<lparr>cx_completed := True\<rparr>) s)" using r by simp
  have f: "cx_mode c' = DIRECT_EXPECTED" "cx_completed c'" "\<not> cx_response_sent c'" "\<not> cx_failed c'"
    "cx_semantic_accepted c'" "cx_total_length c' = cx_total_length c" "ctx_lookup c' = lk"
    using rc by (simp_all add: c' receiving_ctx_def retire_context_resources_def ctx_lookup_def)
  have L: "unat (cx_total_length c) = length msg" using rc by (simp add: receiving_ctx_def assembling_def Let_def)
  let ?s' = "record_tombstone now k c' (mark_consumed lk s1)"
  have "try_retire_completed now k c s = (c', ?s')"
    using full rc r f(7) by (simp add: try_retire_completed_def receiving_ctx_def)
  moreover have "rs_mem ?s' = rs_mem s" "state_ttl ?s' = state_ttl s"
    using kept by (simp_all add: record_tombstone_def mark_consumed_def rx_kept_def state_ttl_def Let_def split: option.split)
  moreover have "map_of (rs_tombs ?s') k = Some \<lparr>tb_modified_length = cx_total_length c', tb_completed_at = now_ms now\<rparr>"
    "map_of (rs_lookup_tombs ?s') lk = Some \<lparr>tb_modified_length = cx_total_length c', tb_completed_at = now_ms now\<rparr>"
    using f(7) by (simp_all add: record_tombstone_def Let_def update_conv')
  ultimately show ?thesis using that f L by simp
qed

lemma lookup_put_ctx: "map_of (rs_ctxs (put_ctx k c s)) k = Some c"
  by (simp add: put_ctx_def update_conv')

lemma put_ctx_frame [simp]:
  "rs_mem (put_ctx k c s) = rs_mem s" "rs_tombs (put_ctx k c s) = rs_tombs s"
  "rs_lookup_tombs (put_ctx k c s) = rs_lookup_tombs s" "rs_posted (put_ctx k c s) = rs_posted s"
  "state_ttl (put_ctx k c s) = state_ttl s" "rs_pool (put_ctx k c s) = rs_pool s"
  by (simp_all add: put_ctx_def state_ttl_def)

lemma process_send_receiving:
  assumes rec: "receiving k lk b msg P mm t A s" and k: "k = send_key pdc h m" "lk = tag_lookup h m"
    and b: "pr_base b \<noteq> 0" "pr_length b \<noteq> 0" and P: "0 < P" "length msg + P \<le> 2 ^ 32"
    and L: "unat (mt_request_length m) = length msg"
    and car: "carries P i msg m p" and p: "p \<noteq> None" and i: "i < n_chunks P (length msg)"
    and proc: "process_send now pdc h m p s = (r, s')"
  shows "send_answer now (insert i A = {..<n_chunks P (length msg)}) (length msg) r \<and> state_ttl s' = state_ttl s \<and>
    (if insert i A = {..<n_chunks P (length msg)} then delivered k lk b msg mm (now_ms now) s'
     else receiving k lk b msg P mm (now_ms now) (insert i A) s')"
proof -
  let ?n = "n_chunks P (length msg)" and ?A = "insert i A"
  let ?m = "placed msg P ?A (pr_base b) (unat (pr_length b)) mm"
  obtain c s1 where adm: "admit_send now lk (open_ctx (new_send_ctx now pdc h m s) k s) s = (False, no_result, c, s1)"
    and rc: "receiving_ctx lk b msg P A c" and s1: "s1 = s\<lparr>rs_pool := rs_pool s1\<rparr>"
    using admit_receiving [OF rec k b(1) P L] by metis
  have mem1: "rs_mem s1 = placed msg P A (pr_base b) (unat (pr_length b)) mm"
    using rec by (subst s1) (simp add: receiving_def)
  have Lt: "length msg < 2 ^ 32" using P by simp
  obtain c1 where rc1: "receiving_ctx lk b msg P ?A c1" "cx_last_activity c1 = now_ms now"
    "cx_buffered_complete c1 \<longleftrightarrow> ?A = {..<?n}"
    and st: "store_send_chunk now k m p c s1 = try_retire_completed now k c1 (s1\<lparr>rs_mem := ?m\<rparr>)"
    using store_send_receiving [OF rc mem1 b P(1) car p i Lt] by metis
  show ?thesis
  proof (cases "?A = {..<?n}")
    case True
    obtain c2 s2 where re: "try_retire_completed now k c1 (s1\<lparr>rs_mem := ?m\<rparr>) = (c2, s2)"
      and c2: "cx_mode c2 = DIRECT_EXPECTED" "cx_completed c2" "\<not> cx_response_sent c2" "\<not> cx_failed c2" "cx_semantic_accepted c2"
        "unat (cx_total_length c2) = length msg"
      and s2: "rs_mem s2 = rs_mem (s1\<lparr>rs_mem := ?m\<rparr>)" "state_ttl s2 = state_ttl (s1\<lparr>rs_mem := ?m\<rparr>)"
        "map_of (rs_tombs s2) k = Some \<lparr>tb_modified_length = cx_total_length c2, tb_completed_at = now_ms now\<rparr>"
        "map_of (rs_lookup_tombs s2) lk = Some \<lparr>tb_modified_length = cx_total_length c2, tb_completed_at = now_ms now\<rparr>"
      using retire_receiving [OF rc1(1), of now k "s1\<lparr>rs_mem := ?m\<rparr>"] rc1(3) True by metis
    have ttl: "state_ttl s2 = state_ttl s" using s2(2) by (simp add: state_ttl_def) (subst s1, simp)
    have mem2: "rs_mem s2 = mem_write (pr_base b) (take (unat (pr_length b)) msg) mm"
      using s2(1) True by (simp add: placed_all P(1))
    obtain r3 c3 where an: "answer_send now no_result c2 = (r3, c3)" by fastforce
    have "r = r3" "s' = put_ctx k c3 s2"
      using proc adm st re an by (simp_all add: process_send_def k)
    moreover have "send_answer now True (length msg) r3"
      using an c2 by (auto simp: answer_send_def Let_def send_answer_def no_result_def)
    ultimately show ?thesis using True ttl mem2 s2(3,4) c2(6) by (simp add: delivered_def)
  next
    case False
    have re: "store_send_chunk now k m p c s1 = (c1, s1\<lparr>rs_mem := ?m\<rparr>)"
      using st rc1(3) False by (simp add: try_retire_completed_def)
    have an: "answer_send now no_result c1 = (no_result\<lparr>rr_handled := True, rr_semantic_accepted := True,
        rr_matched_to_recv := cx_matched_to_recv c1\<rparr>, c1)"
      using rc1(1) by (simp add: answer_send_def receiving_ctx_def no_result_def)
    have res: "r = no_result\<lparr>rr_handled := True, rr_semantic_accepted := True,
        rr_matched_to_recv := cx_matched_to_recv c1\<rparr>" "s' = put_ctx k c1 (s1\<lparr>rs_mem := ?m\<rparr>)"
      using proc adm re an by (simp_all add: process_send_def k)
    have "receiving k lk b msg P mm (now_ms now) ?A (put_ctx k c1 (s1\<lparr>rs_mem := ?m\<rparr>))"
      using rec rc1 by (subst s1) (simp add: receiving_def lookup_put_ctx)
    moreover have "state_ttl s1 = state_ttl s" by (subst s1) (simp add: state_ttl_def)
    then have "state_ttl s' = state_ttl s" by (simp add: res) (simp add: state_ttl_def)
    moreover have "send_answer now False (length msg) r" by (simp add: res send_answer_def no_result_def)
    ultimately show ?thesis using False res by simp
  qed
qed

section \<open>All packets of a message\<close>

fun receive_sends ::
  "u16 \<Rightarrow> header_tag \<Rightarrow> (ns \<times> meta_tag \<times> packet option) list \<Rightarrow> rx_state \<Rightarrow> rx_result list \<times> rx_state" where
  "receive_sends pdc h [] s = ([], s)"
| "receive_sends pdc h ((now, m, p) # xs) s =
    (let (r, s1) = handle_incoming_send_packet now pdc h m p s;
         (rs, s2) = receive_sends pdc h xs s1
     in (r # rs, s2))"

lemma receiving_prune:
  assumes "receiving k lk b msg P mm t A s" "now_ms now - t < state_ttl s"
  shows "receiving k lk b msg P mm t A (prune_receive_state now s)"
proof (cases "map_of (rs_ctxs s) k")
  case None
  then show ?thesis using assms prune_receive_state_live [where s = s and now = now]
    by (simp add: receiving_def)
next
  case (Some c)
  then have "map_of (rs_ctxs (prune_receive_state now s)) k = Some c"
    using assms by (intro prune_receive_state_live(6)) (auto simp: receiving_def receiving_ctx_def)
  then show ?thesis using assms Some prune_receive_state_live(1,7,9,11) [where s = s and now = now]
    by (simp add: receiving_def)
qed

lemma delivered_prune:
  assumes "delivered k lk b msg mm t s" "now_ms now - t \<le> state_ttl s"
  shows "delivered k lk b msg mm t (prune_receive_state now s)"
  using assms prune_receive_state_live(1,10,12) [where s = s and now = now] by (auto simp: delivered_def)

text \<open>A message with the chunks \<open>A\<close> there.\<close>

definition message_at ::
  "rx_key \<Rightarrow> lookup_key \<Rightarrow> posted_receive \<Rightarrow> u8 list \<Rightarrow> nat \<Rightarrow> mem \<Rightarrow> ms \<Rightarrow> nat set \<Rightarrow> rx_state \<Rightarrow> bool" where
  "message_at k lk b msg P mm t A s \<longleftrightarrow>
     (if A = {..<n_chunks P (length msg)} then delivered k lk b msg mm t s
      else receiving k lk b msg P mm t A s)"

lemma handle_send_message:
  assumes at: "message_at k lk b msg P mm t A s" and k: "k = send_key pdc h m" "lk = tag_lookup h m"
    and b: "pr_base b \<noteq> 0" "pr_length b \<noteq> 0" and P: "0 < P" "length msg + P \<le> 2 ^ 32"
    and L: "unat (mt_request_length m) = length msg"
    and car: "carries P i msg m p" and p: "p \<noteq> None" and i: "i < n_chunks P (length msg)"
    and time: "now_ms now - t < state_ttl s"
    and h: "handle_incoming_send_packet now pdc h m p s = (r, s')"
  shows "state_ttl s' = state_ttl s \<and>
    send_answer now (insert i A = {..<n_chunks P (length msg)}) (length msg) r \<and>
    (message_at k lk b msg P mm (now_ms now) (insert i A) s' \<or>
     A = {..<n_chunks P (length msg)} \<and> message_at k lk b msg P mm t (insert i A) s')"
proof (cases "A = {..<n_chunks P (length msg)}")
  case True
  then have ins: "insert i A = A" using i by auto
  have d: "delivered k lk b msg mm t (prune_receive_state now s)"
    using at True time by (intro delivered_prune) (simp_all add: message_at_def)
  then obtain tb where tb: "map_of (rs_tombs (prune_receive_state now s)) k = Some tb"
    "unat (tb_modified_length tb) = length msg" by (auto simp: delivered_def)
  then have "r = tombstone_result tb" "s' = prune_receive_state now s"
    using h by (simp_all add: handle_incoming_send_packet_def k)
  then show ?thesis using d tb True ins prune_receive_state_live(3) [where s = s and now = now]
    by (simp add: send_answer_def tombstone_result_def no_result_def message_at_def)
next
  case False
  have rec: "receiving k lk b msg P mm t A (prune_receive_state now s)"
    using at False time by (intro receiving_prune) (simp_all add: message_at_def)
  then have "process_send now pdc h m p (prune_receive_state now s) = (r, s')"
    using h by (simp add: handle_incoming_send_packet_def receiving_def k)
  from process_send_receiving [OF rec k b P L car p i this] show ?thesis
    using prune_receive_state_live(3) [where s = s and now = now] by (simp add: message_at_def)
qed

lemma less_window: "x < a + w \<Longrightarrow> a \<le> b \<Longrightarrow> x - b < (w :: int)"
  by simp

text \<open>A packet of the run: its chunk, the message it belongs to, its time in a window of \<open>w\<close> ms.\<close>

definition packet_of ::
  "u8 list \<Rightarrow> nat \<Rightarrow> u32 \<Rightarrow> ms \<Rightarrow> int \<Rightarrow> ns \<times> meta_tag \<times> packet option \<Rightarrow> nat \<Rightarrow> bool" where
  "packet_of msg P mid t0 w x i \<longleftrightarrow> (case x of (now, m, p) \<Rightarrow>
     carries P i msg m p \<and> p \<noteq> None \<and> i < n_chunks P (length msg) \<and> mt_msg_id m = mid \<and>
     unat (mt_request_length m) = length msg \<and> t0 \<le> now_ms now \<and> now_ms now < t0 + w)"

lemma receive_sends_message:
  assumes "list_all2 (packet_of msg P mid t0 w) xs idx" and "w = state_ttl s"
    and "message_at k lk b msg P mm t A s" "t0 \<le> t"
    and "\<And>m. mt_msg_id m = mid \<Longrightarrow> k = send_key pdc h m \<and> lk = tag_lookup h m"
    and "pr_base b \<noteq> 0" "pr_length b \<noteq> 0" "0 < P" "length msg + P \<le> 2 ^ 32"
    and "receive_sends pdc h xs s = (rs, s')"
  shows "(\<exists>t'. message_at k lk b msg P mm t' (A \<union> set idx) s') \<and> length rs = length xs \<and>
    (\<forall>j < length xs. send_answer (fst (xs ! j))
       (A \<union> set (take (Suc j) idx) = {..<n_chunks P (length msg)}) (length msg) (rs ! j))"
  using assms
proof (induction xs idx arbitrary: s t A rs rule: list_all2_induct)
  case Nil
  then show ?case by auto
next
  case (Cons x xs i idx)
  obtain now m p where x: "x = (now, m, p)" by (cases x)
  note px = Cons(1) [unfolded packet_of_def x, simplified]
  obtain r s1 where h: "handle_incoming_send_packet now pdc h m p s = (r, s1)" by fastforce
  obtain rs' where rest: "receive_sends pdc h xs s1 = (rs', s')" "rs = r # rs'"
    using Cons.prems(9) h x by (auto split: prod.splits)
  have k: "k = send_key pdc h m" "lk = tag_lookup h m" using Cons.prems(4) px by auto
  have time: "now_ms now - t < state_ttl s" 
    by (rule less_window [where a = t0]) (use px Cons.prems(1,3) in simp_all)
  have step: "state_ttl s1 = state_ttl s"
    "send_answer now (insert i A = {..<n_chunks P (length msg)}) (length msg) r"
    "message_at k lk b msg P mm (now_ms now) (insert i A) s1 \<or> message_at k lk b msg P mm t (insert i A) s1"
    using handle_send_message [OF Cons.prems(2) k Cons.prems(5-8) _ _ _ _ time h, of i] px by auto
  then obtain t1 where t1: "message_at k lk b msg P mm t1 (insert i A) s1" "t0 \<le> t1"
    using px Cons.prems(3) by blast
  have IH: "(\<exists>t'. message_at k lk b msg P mm t' (insert i A \<union> set idx) s') \<and> length rs' = length xs \<and>
    (\<forall>j < length xs. send_answer (fst (xs ! j))
       (insert i A \<union> set (take (Suc j) idx) = {..<n_chunks P (length msg)}) (length msg) (rs' ! j))"
    by (rule Cons.IH [OF _ t1 Cons.prems(4-8) rest(1)])
      (simp add: step(1) Cons.prems(1))
  have "send_answer (fst ((x # xs) ! j)) (A \<union> set (take (Suc j) (i # idx)) = {..<n_chunks P (length msg)})
      (length msg) (rs ! j)" if "j < length (x # xs)" for j
    using that IH step(2) rest(2) x by (cases j) auto
  then show ?case using IH rest(2) by auto
qed

lemma payload_per_packet_pos: "0 < unat (compute_payload_per_packet s)"
  by (auto simp: compute_payload_per_packet_def payload_capacity_from_device_mtu_def unat_gt_0
      kSemanticHeaderOverhead_def word_neq_0_conv [symmetric] split: option.split)

text \<open>
  C1: A SEND message whose receive is posted is delivered exactly. Let its packets come in any
  order, each at least once and any number of times, within one state time-to-live; then the
  posted buffer holds the message (cut off at the buffer's length), no other byte of memory
  changed, and every packet is answered the same way: not before the last missing chunk is there,
  and with the OK response and the message's length for that packet and for every later duplicate.
\<close>

theorem send_delivery:
  fixes s :: rx_state and msg :: "u8 list"
  defines "P \<equiv> unat (compute_payload_per_packet s)"
  assumes k: "k = \<lparr>rk_op = SEND, rk_job = ucast (ht_job h), rk_msg = ucast mid, rk_src = ht_src h, rk_pdc = pdc\<rparr>"
    and lk: "lk = \<lparr>lk_job = ucast (ht_job h), lk_msg = ucast mid, lk_peer = ht_src h\<rparr>"
    and new: "map_of (rs_ctxs s) k = None" "map_of (rs_tombs s) k = None" "map_of (rs_lookup_tombs s) lk = None"
    and posted: "map_of (rs_posted s) lk = Some b" "\<not> pr_consumed b" "pr_base b \<noteq> 0" "pr_length b \<noteq> 0"
    and free: "pl_arrival (rs_pool s) < pl_max_arrival (rs_pool s)"
    and fits: "length msg + P \<le> 2 ^ 32"
    and packets: "list_all2 (packet_of msg P mid from_ms (state_ttl s)) xs idx"
    and all_chunks: "set idx = {..<n_chunks P (length msg)}"
    and run: "receive_sends pdc h xs s = (rs, s')"
  shows "rs_mem s' = mem_write (pr_base b) (take (unat (pr_length b)) msg) (rs_mem s) \<and>
    length rs = length xs \<and>
    (\<forall>j < length xs. send_answer (fst (xs ! j))
       (set (take (Suc j) idx) = {..<n_chunks P (length msg)}) (length msg) (rs ! j))"
proof -
  have P: "0 < P" unfolding P_def by (rule payload_per_packet_pos)
  have n: "{} \<noteq> {..<n_chunks P (length msg)}"
    using P byte_in_chunk [OF P, of 0 "length msg"] by (cases msg) (auto simp: n_chunks_def)
  have key: "k = send_key pdc h m \<and> lk = tag_lookup h m" if "mt_msg_id m = mid" for m
    using that by (simp add: k lk send_key_def tag_lookup_def)
  have start: "message_at k lk b msg P (rs_mem s) from_ms {} s"
    using n new posted free by (simp add: message_at_def receiving_def P_def)
  from receive_sends_message [OF packets refl start order.refl key posted(3,4) P fits run]
  obtain t' where "message_at k lk b msg P (rs_mem s) t' (set idx) s'" "length rs = length xs"
    "\<forall>j < length xs. send_answer (fst (xs ! j))
       (set (take (Suc j) idx) = {..<n_chunks P (length msg)}) (length msg) (rs ! j)" by auto
  then show ?thesis by (simp add: message_at_def all_chunks delivered_def)
qed

text \<open>A concrete run: three bytes in chunks of two, the second chunk first and then again.\<close>

definition demo_header :: header_tag where
  "demo_header = \<lparr>ht_pds_type = RUD_REQ, ht_pdc_id = 7, ht_psn = 0, ht_src = 2, ht_dst = 1, ht_job = 5\<rparr>"

definition demo_meta :: "u32 \<Rightarrow> meta_tag" where
  "demo_meta off = \<lparr>mt_op = SEND, mt_msg_id = 9, mt_res_index = 0, mt_reliable = True, mt_request_length = 3,
     mt_fragment_offset = off, mt_remote_address = 0, mt_remote_key = 0, mt_flags = 0,
     mt_response_opcode = 0, mt_return_code = 0, mt_modified_length = 0\<rparr>"

definition demo_packet :: "u8 list \<Rightarrow> packet option" where
  "demo_packet bs = Some (empty_packet\<lparr>pk_payload := bs\<rparr>)"

definition demo_pool :: rx_pool where
  "demo_pool = \<lparr>pl_max_messages = 4, pl_max_bytes = 100, pl_max_arrival = 4, pl_max_tracks = 4,
     pl_messages = 0, pl_bytes = 0, pl_arrival = 0, pl_tracks = 0,
     pl_unexpected_failures = 0, pl_arrival_failures = 0, pl_track_failures = 0\<rparr>"

definition demo_state :: rx_state where
  "demo_state = \<lparr>rs_pool = demo_pool,
     rs_posted = [(\<lparr>lk_job = 5, lk_msg = 9, lk_peer = 2\<rparr>, \<lparr>pr_base = 0x1000, pr_length = 8, pr_consumed = False\<rparr>)],
     rs_targets = [], rs_ctxs = [], rs_tombs = [], rs_lookup_tombs = [], rs_stale_cleanups = 0,
     rs_state_timeout = 1000, rs_payload_mtu = 2, rs_device_mtu = None, rs_has_ses = True,
     rs_notes = [], rs_mem = (\<lambda>_. 0)\<rparr>"

definition demo_run :: "(ns \<times> meta_tag \<times> packet option) list" where
  "demo_run = [(1000, demo_meta 2, demo_packet [12]), (2000, demo_meta 2, demo_packet [12]),
     (3000, demo_meta 0, demo_packet [10, 11])]"

lemmas demo_defs = demo_header_def demo_meta_def demo_packet_def demo_pool_def demo_state_def demo_run_def

lemma send_delivery_witness:
  "rs_mem (snd (receive_sends 7 demo_header demo_run demo_state)) = mem_write 0x1000 [10, 11, 12] (\<lambda>_. 0)"
proof -
  let ?k = "\<lparr>rk_op = SEND, rk_job = 5, rk_msg = 9, rk_src = 2, rk_pdc = 7\<rparr>"
  let ?lk = "\<lparr>lk_job = 5, lk_msg = 9, lk_peer = 2\<rparr>"
  let ?b = "\<lparr>pr_base = 0x1000, pr_length = 8, pr_consumed = False\<rparr>"
  let ?msg = "[10, 11, 12] :: u8 list"
  have P: "unat (compute_payload_per_packet demo_state) = 2"
    by (simp add: demo_defs compute_payload_per_packet_def)
  have n3: "n_chunks 2 3 = 2" by (simp add: n_chunks_def)
  note n = n3 n3 [unfolded numeral_3_eq_3]
  have "list_all2 (packet_of ?msg 2 9 0 (state_ttl demo_state)) demo_run [1, 1, 0]"
    by (simp add: demo_defs packet_of_def n carries_def chunk_def copy_packet_bytes_def pk_bytes_def
        empty_packet_def state_ttl_def)
  then show ?thesis
    using send_delivery [where s = demo_state and k = ?k and lk = ?lk and h = demo_header and mid = 9 and pdc = 7
        and b = ?b and msg = ?msg and from_ms = 0 and xs = demo_run and idx = "[1, 1, 0]"
        and rs = "fst (receive_sends 7 demo_header demo_run demo_state)"
        and s' = "snd (receive_sends 7 demo_header demo_run demo_state)"]
    by (simp add: P n lessThan_nat_numeral lessThan_Suc insert_commute) (simp add: demo_defs)
qed

end
