(* ===== verification/PdsReceive.thy ===== *)
theory PdsReceive
  imports PdsRxInv PdsDelivery
begin

text \<open>
  What holds of the receive side of \<open>PdsManager\<close> after any sequence of packets and registrations:
  the pool's counters are exactly what the contexts hold and stay inside the limits. Then the
  arithmetic of the admission check and of the number of chunks at the ends of the 32-bit range.
\<close>

section \<open>Accounting over all reachable states\<close>

text \<open>
  C4: In every state that the receive side can reach, the counters of arrival blocks, unexpected
  messages and read tracks equal what the message contexts hold, no counter exceeds its limit, and
  a retired context holds nothing: resources are neither leaked nor given back twice. The byte
  counter equals the bytes of the unexpected messages held as long as no SEND announced a length
  that does not fit 32 bits together with the limit.
\<close>

theorem receive_accounting:
  assumes "rx_reachable s_start exact s"
  shows "unat (pl_arrival (rs_pool s)) = length (filter (\<lambda>(_, c). cx_arrival_reserved c) (rs_ctxs s)) \<and>
    unat (pl_messages (rs_pool s)) = length (filter (\<lambda>(_, c). cx_unexpected_reserved c) (rs_ctxs s)) \<and>
    unat (pl_tracks (rs_pool s)) = length (filter (\<lambda>(_, c). cx_read_track_reserved c) (rs_ctxs s)) \<and>
    (exact \<longrightarrow> unat (pl_bytes (rs_pool s)) =
      (\<Sum>(_, c) \<leftarrow> filter (\<lambda>(_, c). cx_unexpected_reserved c) (rs_ctxs s). unat (cx_total_length c))) \<and>
    pl_arrival (rs_pool s) \<le> pl_max_arrival (rs_pool s) \<and> pl_messages (rs_pool s) \<le> pl_max_messages (rs_pool s) \<and>
    pl_bytes (rs_pool s) \<le> pl_max_bytes (rs_pool s) \<and> pl_tracks (rs_pool s) \<le> pl_max_tracks (rs_pool s) \<and>
    (\<forall>(k, c) \<in> set (rs_ctxs s). cx_retired c \<longrightarrow>
       \<not> cx_arrival_reserved c \<and> \<not> cx_unexpected_reserved c \<and> \<not> cx_read_track_reserved c)"
proof -
  have inv: "rx_inv exact s" using assms by (rule rx_inv_reachable)
  then have "within_limits (rs_pool s)" "ctxs_ok (rs_ctxs s)" by (simp_all add: rx_inv_def)
  then have "pl_arrival (rs_pool s) \<le> pl_max_arrival (rs_pool s)" "pl_messages (rs_pool s) \<le> pl_max_messages (rs_pool s)"
    "pl_bytes (rs_pool s) \<le> pl_max_bytes (rs_pool s)" "pl_tracks (rs_pool s) \<le> pl_max_tracks (rs_pool s)"
    "\<forall>(k, c) \<in> set (rs_ctxs s). cx_retired c \<longrightarrow>
       \<not> cx_arrival_reserved c \<and> \<not> cx_unexpected_reserved c \<and> \<not> cx_read_track_reserved c"
    by (auto simp: within_limits_def ctxs_ok_def ctx_ok_def)
  then show ?thesis using rx_inv_counts [OF inv] by (intro conjI impI)
qed

definition demo_received :: rx_state where
  "demo_received = snd (handle_incoming_send_packet 0 7 demo_header (demo_meta 0) None (reset_rx_tables demo_state))"

lemma receive_accounting_witness:
  "unat (pl_arrival (rs_pool demo_received)) = length (filter (\<lambda>(_, c). cx_arrival_reserved c) (rs_ctxs demo_received)) \<and>
   unat (pl_bytes (rs_pool demo_received)) =
     (\<Sum>(_, c) \<leftarrow> filter (\<lambda>(_, c). cx_unexpected_reserved c) (rs_ctxs demo_received). unat (cx_total_length c))"
proof -
  have "rx_step True (reset_rx_tables demo_state) demo_received"
    using rx_step.send [OF surjective_pairing, of "reset_rx_tables demo_state" "demo_meta 0" 0 7 demo_header None]
    by (simp add: demo_received_def demo_defs reset_rx_tables_def)
  then have "rx_reachable demo_state (True \<and> True) demo_received" by (rule rx_reachable.step [OF rx_reachable.init])
  then show ?thesis using receive_accounting [of demo_state True demo_received] by simp
qed

section \<open>Where the 32-bit arithmetic ends\<close>

text \<open>
  C7: The admission check of unexpected messages adds in 32 bits. When the bytes in use and the
  announced length together reach \<open>2 ^ 32\<close>, the sum wraps: the message is admitted although it
  is larger than the limit, and the counter then shows \<open>2 ^ 32\<close> bytes less than are reserved.
\<close>

theorem unexpected_admission_wraps:
  assumes "\<not> cx_unexpected_reserved c" "pl_messages p < pl_max_messages p"
    and wrap: "2 ^ 32 \<le> unat (pl_bytes p) + unat (cx_total_length c)"
    and low: "unat (pl_bytes p) + unat (cx_total_length c) - 2 ^ 32 \<le> unat (pl_max_bytes p)"
  shows "fst (reserve_unexpected_resources c p) \<and>
    unat (pl_bytes (snd (snd (reserve_unexpected_resources c p)))) =
      unat (pl_bytes p) + unat (cx_total_length c) - 2 ^ 32"
proof -
  have "unat (pl_bytes p) < 2 ^ 32" "unat (cx_total_length c) < 2 ^ 32"
    using unsigned_less [of "pl_bytes p"] unsigned_less [of "cx_total_length c"] by simp_all
  then have sum: "unat (pl_bytes p + cx_total_length c) = unat (pl_bytes p) + unat (cx_total_length c) - 2 ^ 32"
    using wrap by (simp add: unat_word_ariths mod_if)
  then have "pl_bytes p + cx_total_length c \<le> pl_max_bytes p" using low by (simp add: word_le_nat_alt)
  then show ?thesis using assms(1,2) sum by (simp add: reserve_unexpected_resources_def not_le not_less)
qed

definition full_pool :: rx_pool where
  "full_pool = demo_pool\<lparr>pl_max_messages := 4, pl_max_bytes := 64, pl_messages := 1, pl_bytes := 32\<rparr>"

lemma unexpected_admission_wraps_witness:
  "fst (reserve_unexpected_resources (fresh_ctx\<lparr>cx_total_length := 0xFFFFFFF0\<rparr>) full_pool)"
  by (rule unexpected_admission_wraps [THEN conjunct1]) (simp_all add: full_pool_def demo_pool_def fresh_ctx_def)

text \<open>
  The number of chunks that a message is cut into is the length divided by the payload per
  packet, rounded up, and one for an empty message, as long as length and payload together stay
  below \<open>2 ^ 32\<close>; beyond that the sum wraps and fewer chunks are expected than are sent.
\<close>

theorem expected_chunks_exact:
  assumes "0 < ppp" "unat tot + unat ppp \<le> 2 ^ 32"
  shows "unat (compute_expected_chunks ppp tot) = (if tot = 0 then 1 else (unat tot + unat ppp - 1) div unat ppp)"
proof (cases "tot = 0")
  case False
  then have pos: "0 < unat ppp" "0 < unat tot" using assms(1) by (simp_all add: word_less_nat_alt unat_gt_0)
  have eq: "tot + ppp - 1 = (tot - 1) + ppp" by simp
  have "1 \<le> tot" using pos by (simp add: word_le_nat_alt)
  then have t: "unat (tot - 1) = unat tot - 1" by (simp add: unat_sub)
  have "unat (tot + ppp - 1) = unat tot + unat ppp - 1"
    unfolding eq using assms(2) pos t by (subst unat_add_nowrap) simp_all
  then show ?thesis using False by (simp add: compute_expected_chunks_def unat_div)
qed (simp add: compute_expected_chunks_def)

lemma expected_chunks_exact_witness: "unat (compute_expected_chunks 1372 5000) = 4"
  using expected_chunks_exact [of 1372 5000] by simp

end
