(* ===== verification/PdsBudget.thy ===== *)
theory PdsBudget
  imports Prelude
begin

text \<open>
  The control plane of \<open>PdsManager\<close> (\<open>model/pds/pds-manager.cc\<close>): the credits of a peer, and the
  three budgets (SEND admission, WRITE, READ responder) that bound the messages and bytes in
  flight. The contract of a budget is the locale \<open>admission_budget\<close>; the three interpret it.
\<close>

section \<open>State\<close>

text \<open>\<open>SemanticBudgetState\<close>; a limit of 0 means unlimited.\<close>

record budget =
  bg_message_limit :: u32
  bg_byte_limit :: u64
  bg_messages :: u32
  bg_bytes :: u64
  bg_blocked :: u32
  bg_blocked_messages :: u32
  bg_blocked_bytes :: u32
  bg_blocked_both :: u32
  bg_messages_peak :: u32
  bg_bytes_peak :: u64
  bg_releases :: u32
  bg_release_bytes :: u64

text \<open>\<open>RudControlState\<close>; \<open>ctl_event_pending\<close> stands for \<open>refreshEvent.IsPending ()\<close>.\<close>

record control =
  ctl_send_credits :: u32
  ctl_recv_credits :: u32
  ctl_gate_blocked :: bool
  ctl_refresh_pending :: bool
  ctl_pending_grant :: u32
  ctl_last_refresh :: ms
  ctl_event_pending :: bool

definition fresh_control :: control where
  "fresh_control = \<lparr>ctl_send_credits = 0, ctl_recv_credits = 0, ctl_gate_blocked = False,
     ctl_refresh_pending = False, ctl_pending_grant = 0, ctl_last_refresh = 0, ctl_event_pending = False\<rparr>"

text \<open>What the control plane reports to \<open>SesManager\<close>.\<close>

datatype credit_note = NotifyPeerCreditsAvailable u32 | NotifyPeerSendAdmissionReleased u32 u32

record plane =
  pn_controls :: "(u32 \<times> control) list"
  pn_gate_enabled :: bool
  pn_ack_enabled :: bool
  pn_initial_credits :: u32
  pn_max_arrival :: u32
  pn_refresh_sent :: u32
  pn_ack_sent :: u32
  pn_gate_blocked :: u32
  pn_send :: budget
  pn_write :: budget
  pn_read :: budget
  pn_has_ses :: bool
  pn_notes :: "credit_note list"

definition tell_ses :: "credit_note \<Rightarrow> plane \<Rightarrow> plane" where
  "tell_ses n s = (if pn_has_ses s then s\<lparr>pn_notes := pn_notes s @ [n]\<rparr> else s)"

section \<open>Credits\<close>

definition get_initial_credits :: "plane \<Rightarrow> u32" where
  "get_initial_credits s =
    (if pn_initial_credits s \<noteq> 0 then pn_initial_credits s else max 1 (pn_max_arrival s div 4))"

text \<open>\<open>GetControlState\<close>: the entry of the peer, created and filled on first use; the reference the
  code returns is the entry stored back by \<open>put_control\<close>.\<close>

definition control_of :: "ns \<Rightarrow> u32 \<Rightarrow> plane \<Rightarrow> control" where
  "control_of now peer s =
    (let c = (case map_of (pn_controls s) peer of None \<Rightarrow> fresh_control | Some c \<Rightarrow> c) in
     if ctl_send_credits c = 0 \<and> ctl_recv_credits c = 0 \<and> ctl_last_refresh c = 0
     then c\<lparr>ctl_send_credits := get_initial_credits s, ctl_recv_credits := get_initial_credits s,
            ctl_last_refresh := now_ms now\<rparr>
     else c)"

definition put_control :: "u32 \<Rightarrow> control \<Rightarrow> plane \<Rightarrow> plane" where
  "put_control peer c s = s\<lparr>pn_controls := AList.update peer c (pn_controls s)\<rparr>"

definition schedule_credit_refresh :: "ns \<Rightarrow> u32 \<Rightarrow> u32 \<Rightarrow> plane \<Rightarrow> plane" where
  "schedule_credit_refresh now peer min_credits s =
    (let c = control_of now peer s in
     put_control peer (c\<lparr>ctl_refresh_pending := True,
       ctl_pending_grant := max (ctl_pending_grant c) min_credits, ctl_event_pending := True\<rparr>) s)"

text \<open>\<open>ExecuteCreditRefresh\<close> runs as the scheduled event, which is then no longer pending.\<close>

definition execute_credit_refresh :: "ns \<Rightarrow> u32 \<Rightarrow> plane \<Rightarrow> plane" where
  "execute_credit_refresh now peer s =
    (let c = control_of now peer s;
         s1 = put_control peer (c\<lparr>
           ctl_send_credits := max (ctl_send_credits c) (max (get_initial_credits s) (ctl_pending_grant c)),
           ctl_refresh_pending := False, ctl_gate_blocked := False, ctl_pending_grant := 0,
           ctl_last_refresh := now_ms now, ctl_event_pending := False\<rparr>) s
     in tell_ses (NotifyPeerCreditsAvailable peer) (s1\<lparr>pn_refresh_sent := pn_refresh_sent s1 + 1\<rparr>))"

definition try_consume_send_credits :: "ns \<Rightarrow> u32 \<Rightarrow> u32 \<Rightarrow> plane \<Rightarrow> bool \<times> plane" where
  "try_consume_send_credits now peer n s =
    (if \<not> pn_gate_enabled s then (True, s)
     else let c = control_of now peer s in
       if n \<le> ctl_send_credits c
       then (True, put_control peer
               (c\<lparr>ctl_send_credits := ctl_send_credits c - n, ctl_gate_blocked := False\<rparr>) s)
       else (False, schedule_credit_refresh now peer n
               ((put_control peer (c\<lparr>ctl_gate_blocked := True\<rparr>) s)
                \<lparr>pn_gate_blocked := pn_gate_blocked s + 1\<rparr>)))"

definition return_send_credits :: "ns \<Rightarrow> u32 \<Rightarrow> u32 \<Rightarrow> bool \<Rightarrow> plane \<Rightarrow> plane" where
  "return_send_credits now peer n ack_control s =
    (let c = control_of now peer s;
         s1 = put_control peer (c\<lparr>ctl_send_credits := ctl_send_credits c + n,
                ctl_recv_credits := ctl_recv_credits c + n, ctl_gate_blocked := False,
                ctl_last_refresh := now_ms now\<rparr>) s;
         s2 = (if ack_control
               then (if pn_ack_enabled s1 then s1\<lparr>pn_ack_sent := pn_ack_sent s1 + 1\<rparr> else s1)
               else s1\<lparr>pn_refresh_sent := pn_refresh_sent s1 + 1\<rparr>)
     in tell_ses (NotifyPeerCreditsAvailable peer) s2)"

section \<open>Budgets\<close>

definition messages_ok :: "budget \<Rightarrow> bool" where
  "messages_ok b \<longleftrightarrow> bg_message_limit b = 0 \<or> bg_messages b + 1 \<le> bg_message_limit b"

definition bytes_ok :: "u32 \<Rightarrow> budget \<Rightarrow> bool" where
  "bytes_ok n b \<longleftrightarrow> bg_byte_limit b = 0 \<or> bg_bytes b + ucast n \<le> bg_byte_limit b"

definition take_budget :: "u32 \<Rightarrow> budget \<Rightarrow> budget" where
  "take_budget n b =
    (let m = bg_messages b + 1; y = bg_bytes b + ucast n in
     b\<lparr>bg_messages := m, bg_bytes := y, bg_messages_peak := max (bg_messages_peak b) m,
       bg_bytes_peak := max (bg_bytes_peak b) y\<rparr>)"

definition give_budget :: "u32 \<Rightarrow> budget \<Rightarrow> budget" where
  "give_budget n b = b\<lparr>bg_messages := (if 0 < bg_messages b then bg_messages b - 1 else bg_messages b),
     bg_bytes := (if ucast n \<le> bg_bytes b then bg_bytes b - ucast n else 0)\<rparr>"

definition block_peer :: "ns \<Rightarrow> u32 \<Rightarrow> bool \<Rightarrow> plane \<Rightarrow> plane" where
  "block_peer now peer b s = put_control peer ((control_of now peer s)\<lparr>ctl_gate_blocked := b\<rparr>) s"

definition try_reserve_send_admission :: "ns \<Rightarrow> u32 \<Rightarrow> u32 \<Rightarrow> plane \<Rightarrow> bool \<times> plane" where
  "try_reserve_send_admission now peer n s =
    (let b = pn_send s; m = messages_ok b; y = bytes_ok n b in
     if \<not> m \<or> \<not> y
     then let b1 = b\<lparr>bg_blocked := bg_blocked b + 1\<rparr>;
              b2 = (if \<not> m \<and> \<not> y then b1\<lparr>bg_blocked_both := bg_blocked_both b1 + 1\<rparr>
                    else if \<not> m then b1\<lparr>bg_blocked_messages := bg_blocked_messages b1 + 1\<rparr>
                    else b1\<lparr>bg_blocked_bytes := bg_blocked_bytes b1 + 1\<rparr>)
          in (False, block_peer now peer True (s\<lparr>pn_send := b2\<rparr>))
     else (True, s\<lparr>pn_send := take_budget n b\<rparr>))"

definition release_send_admission :: "ns \<Rightarrow> u32 \<Rightarrow> u32 \<Rightarrow> plane \<Rightarrow> plane" where
  "release_send_admission now peer n s =
    (let b = give_budget n (pn_send s);
         b' = b\<lparr>bg_releases := bg_releases b + 1, bg_release_bytes := bg_release_bytes b + ucast n\<rparr>
     in tell_ses (NotifyPeerSendAdmissionReleased peer n) (block_peer now peer False (s\<lparr>pn_send := b'\<rparr>)))"

definition try_reserve_write_budget :: "ns \<Rightarrow> u32 \<Rightarrow> u32 \<Rightarrow> plane \<Rightarrow> bool \<times> plane" where
  "try_reserve_write_budget now peer n s =
    (let b = pn_write s in
     if \<not> messages_ok b \<or> \<not> bytes_ok n b
     then (False, block_peer now peer True (s\<lparr>pn_write := b\<lparr>bg_blocked := bg_blocked b + 1\<rparr>\<rparr>))
     else (True, s\<lparr>pn_write := take_budget n b\<rparr>))"

definition release_write_budget :: "ns \<Rightarrow> u32 \<Rightarrow> u32 \<Rightarrow> plane \<Rightarrow> plane" where
  "release_write_budget now peer n s =
    tell_ses (NotifyPeerCreditsAvailable peer)
      (block_peer now peer False (s\<lparr>pn_write := give_budget n (pn_write s)\<rparr>))"

definition try_reserve_read_responder_budget :: "ns \<Rightarrow> u32 \<Rightarrow> u32 \<Rightarrow> plane \<Rightarrow> bool \<times> plane" where
  "try_reserve_read_responder_budget now peer n s =
    (let b = pn_read s in
     if \<not> messages_ok b \<or> \<not> bytes_ok n b
     then (False, block_peer now peer True (s\<lparr>pn_read := b\<lparr>bg_blocked := bg_blocked b + 1\<rparr>\<rparr>))
     else (True, s\<lparr>pn_read := take_budget n b\<rparr>))"

definition release_read_responder_budget :: "ns \<Rightarrow> u32 \<Rightarrow> u32 \<Rightarrow> plane \<Rightarrow> plane" where
  "release_read_responder_budget now peer n s =
    tell_ses (NotifyPeerCreditsAvailable peer)
      (block_peer now peer False (s\<lparr>pn_read := give_budget n (pn_read s)\<rparr>))"

text \<open>\<open>ConfigureSemanticBudgets\<close>, and the part of \<open>ResetReceiveState\<close> on budgets and credits.\<close>

definition configure_semantic_budgets :: "u32 \<Rightarrow> u64 \<Rightarrow> u32 \<Rightarrow> u64 \<Rightarrow> u32 \<Rightarrow> u64 \<Rightarrow> plane \<Rightarrow> plane" where
  "configure_semantic_budgets sm sb wm wb rm rb s =
    s\<lparr>pn_send := (pn_send s)\<lparr>bg_message_limit := sm, bg_byte_limit := sb\<rparr>,
      pn_write := (pn_write s)\<lparr>bg_message_limit := wm, bg_byte_limit := wb\<rparr>,
      pn_read := (pn_read s)\<lparr>bg_message_limit := rm, bg_byte_limit := rb\<rparr>\<rparr>"

definition configure_control_plane :: "bool \<Rightarrow> bool \<Rightarrow> u32 \<Rightarrow> plane \<Rightarrow> plane" where
  "configure_control_plane gate ack initial s =
    s\<lparr>pn_gate_enabled := gate, pn_ack_enabled := ack, pn_initial_credits := initial\<rparr>"

definition empty_budget :: "budget \<Rightarrow> budget" where
  "empty_budget b = b\<lparr>bg_messages := 0, bg_bytes := 0\<rparr>"

definition reset_plane :: "plane \<Rightarrow> plane" where
  "reset_plane s = s\<lparr>pn_send := empty_budget (pn_send s), pn_write := empty_budget (pn_write s),
     pn_read := empty_budget (pn_read s), pn_controls := []\<rparr>"

section \<open>The contract of a budget\<close>

text \<open>
  A client reserves for a peer and later gives back what it reserved. \<open>out\<close> lists the sizes that
  are reserved at the moment; a release is for one of them.
\<close>

datatype budget_op = Acquire ns u32 u32 | GiveBack ns u32 u32

fun budget_exec ::
  "(ns \<Rightarrow> u32 \<Rightarrow> u32 \<Rightarrow> 's \<Rightarrow> bool \<times> 's) \<Rightarrow> (ns \<Rightarrow> u32 \<Rightarrow> u32 \<Rightarrow> 's \<Rightarrow> 's)
    \<Rightarrow> budget_op list \<Rightarrow> 's \<Rightarrow> u32 list \<Rightarrow> 's \<times> u32 list" where
  "budget_exec reserve release [] s out = (s, out)"
| "budget_exec reserve release (Acquire now peer n # ops) s out =
    (let (ok, s1) = reserve now peer n s
     in budget_exec reserve release ops s1 (if ok then n # out else out))"
| "budget_exec reserve release (GiveBack now peer n # ops) s out =
    (if n \<in> set out then budget_exec reserve release ops (release now peer n s) (remove1 n out)
     else budget_exec reserve release ops s out)"

definition in_use :: "budget \<Rightarrow> u32 list \<Rightarrow> bool" where
  "in_use b out \<longleftrightarrow> unat (bg_messages b) = length out \<and> unat (bg_bytes b) = sum_list (map unat out)"

definition in_limits :: "budget \<Rightarrow> bool" where
  "in_limits b \<longleftrightarrow> (bg_message_limit b = 0 \<or> bg_messages b \<le> bg_message_limit b) \<and>
     (bg_byte_limit b = 0 \<or> bg_bytes b \<le> bg_byte_limit b)"

definition limits_of :: "budget \<Rightarrow> u32 \<times> u64" where
  "limits_of b = (bg_message_limit b, bg_byte_limit b)"

lemma in_use_remove:
  assumes "n \<in> set out" "in_use b out"
  shows "in_use (give_budget n b) (remove1 n out)"
proof -
  have len: "0 < length out" using assms(1) by (cases out) auto
  have sum: "unat n + sum_list (map unat (remove1 n out)) = sum_list (map unat out)"
    using assms(1) by (induction out) auto
  then have le: "ucast n \<le> bg_bytes b"
    using assms(2) by (simp add: in_use_def word_le_nat_alt unsigned_ucast_eq take_bit_nat_eq_self order_less_trans [OF unsigned_less])
  have u: "unat (ucast n :: u64) = unat n"
    by (simp add: unsigned_ucast_eq take_bit_nat_eq_self order_less_trans [OF unsigned_less])
  have "0 < bg_messages b" using len assms(2) by (simp add: in_use_def word_less_nat_alt)
  then show ?thesis using assms le sum len u
    by (simp add: in_use_def give_budget_def unat_dec_pos unat_sub_le length_remove1)
qed

lemma in_limits_give: "in_limits b \<Longrightarrow> in_limits (give_budget n b)"
  by (auto simp: in_limits_def give_budget_def word_le_nat_alt unat_dec_pos unat_sub_le word_less_nat_alt)

locale admission_budget =
  fixes reserve :: "ns \<Rightarrow> u32 \<Rightarrow> u32 \<Rightarrow> 's \<Rightarrow> bool \<times> 's"
    and release :: "ns \<Rightarrow> u32 \<Rightarrow> u32 \<Rightarrow> 's \<Rightarrow> 's"
    and budget_of :: "'s \<Rightarrow> budget"
  assumes reserve_granted: "reserve now peer n s = (True, s') \<Longrightarrow>
      messages_ok (budget_of s) \<and> bytes_ok n (budget_of s) \<and>
      bg_messages (budget_of s') = bg_messages (budget_of s) + 1 \<and>
      bg_bytes (budget_of s') = bg_bytes (budget_of s) + ucast n \<and>
      limits_of (budget_of s') = limits_of (budget_of s)"
    and reserve_refused: "reserve now peer n s = (False, s') \<Longrightarrow>
      (\<not> messages_ok (budget_of s) \<or> \<not> bytes_ok n (budget_of s)) \<and>
      bg_messages (budget_of s') = bg_messages (budget_of s) \<and>
      bg_bytes (budget_of s') = bg_bytes (budget_of s) \<and>
      limits_of (budget_of s') = limits_of (budget_of s)"
    and release_back: "bg_messages (budget_of (release now peer n s)) = bg_messages (give_budget n (budget_of s)) \<and>
      bg_bytes (budget_of (release now peer n s)) = bg_bytes (give_budget n (budget_of s)) \<and>
      limits_of (budget_of (release now peer n s)) = limits_of (budget_of s)"
begin

lemma acquire_step:
  assumes "reserve now peer n s = (ok, s')" "in_use (budget_of s) out" "in_limits (budget_of s)"
    and "length out < 2 ^ 32 - 1" "sum_list (map unat out) + unat n < 2 ^ 64"
  shows "in_use (budget_of s') (if ok then n # out else out) \<and> in_limits (budget_of s') \<and>
    limits_of (budget_of s') = limits_of (budget_of s)"
proof (cases ok)
  case True
  note g = reserve_granted [OF assms(1) [unfolded True [THEN eqTrueI]]]
  have m: "unat (bg_messages (budget_of s) + 1) = length out + 1"
    using assms by (subst unat_add_nowrap) (simp_all add: in_use_def)
  have y: "unat (bg_bytes (budget_of s) + ucast n) = sum_list (map unat out) + unat n"
    using assms by (subst unat_add_nowrap)
      (simp_all add: in_use_def unsigned_ucast_eq take_bit_nat_eq_self order_less_trans [OF unsigned_less])
  show ?thesis using g m y True
    by (auto simp: in_use_def in_limits_def limits_of_def messages_ok_def bytes_ok_def)
next
  case False
  then have "reserve now peer n s = (False, s')" using assms(1) by simp
  then show ?thesis using reserve_refused [of now peer n s s'] assms(2,3) False
    by (simp add: in_use_def in_limits_def limits_of_def)
qed

lemma give_step:
  assumes "in_use (budget_of s) out" "in_limits (budget_of s)" "n \<in> set out"
  shows "in_use (budget_of (release now peer n s)) (remove1 n out) \<and>
    in_limits (budget_of (release now peer n s)) \<and>
    limits_of (budget_of (release now peer n s)) = limits_of (budget_of s)"
proof -
  have "in_limits (give_budget n (budget_of s))" "in_use (give_budget n (budget_of s)) (remove1 n out)"
    using assms in_limits_give in_use_remove by blast+
  moreover have "limits_of (give_budget n b) = limits_of b" for b by (simp add: limits_of_def give_budget_def)
  ultimately show ?thesis using release_back [of now peer n s]
    by (simp add: in_use_def in_limits_def limits_of_def)
qed

lemma exec_bounded:
  assumes "budget_exec reserve release ops s out = (s', out')"
    and "in_use (budget_of s) out" "in_limits (budget_of s)"
    and "length out + length ops < 2 ^ 32" "sum_list (map unat out) + length ops * 2 ^ 32 \<le> 2 ^ 64"
  shows "in_use (budget_of s') out' \<and> in_limits (budget_of s') \<and>
    limits_of (budget_of s') = limits_of (budget_of s)"
  using assms
proof (induction ops arbitrary: s out)
  case Nil
  then show ?case by simp
next
  case (Cons op ops)
  have len: "length out + Suc (length ops) < 2 ^ 32"
    and sum: "sum_list (map unat out) + Suc (length ops) * 2 ^ 32 \<le> 2 ^ 64"
    using Cons.prems(4,5) by simp_all
  show ?case
  proof (cases op)
    case (Acquire now peer n)
    obtain ok s1 where r: "reserve now peer n s = (ok, s1)" by fastforce
    have n: "unat n < 2 ^ 32" using unsigned_less [of n] by simp
    have "sum_list (map unat out) + 4294967296 + length ops * 4294967296 \<le> 18446744073709551616"
      using sum by simp
    then have fits: "sum_list (map unat out) + unat n < 2 ^ 64" using n by simp
    have step: "in_use (budget_of s1) (if ok then n # out else out) \<and> in_limits (budget_of s1) \<and>
        limits_of (budget_of s1) = limits_of (budget_of s)"
      using len fits by (intro acquire_step [OF r Cons.prems(2,3)]) simp_all
    have rest: "budget_exec reserve release ops s1 (if ok then n # out else out) = (s', out')"
      using Cons.prems(1) Acquire r by simp
    have "length (if ok then n # out else out) + length ops < 2 ^ 32"
      "sum_list (map unat (if ok then n # out else out)) + length ops * 2 ^ 32 \<le> 2 ^ 64"
      using len sum n by simp_all
    then show ?thesis using Cons.IH [OF rest] step by simp
  next
    case (GiveBack now peer n)
    show ?thesis
    proof (cases "n \<in> set out")
      case True
      note step = give_step [OF Cons.prems(2,3) True, of now peer]
      have rest: "budget_exec reserve release ops (release now peer n s) (remove1 n out) = (s', out')"
        using Cons.prems(1) GiveBack True by simp
      have "unat n + sum_list (map unat (remove1 n out)) = sum_list (map unat out)"
        using True by (induction out) auto
      moreover have "length (remove1 n out) \<le> length out" by (simp add: length_remove1)
      ultimately have "length (remove1 n out) + length ops < 2 ^ 32"
        "sum_list (map unat (remove1 n out)) + length ops * 2 ^ 32 \<le> 2 ^ 64"
        using len sum by simp_all
      then show ?thesis using Cons.IH [OF rest] step by simp
    next
      case False
      then show ?thesis using Cons.IH [of s out] Cons.prems GiveBack len sum by simp
    qed
  qed
qed

end

section \<open>The three budgets keep the contract\<close>

lemma budget_frame [simp]:
  "pn_send (put_control peer c s) = pn_send s" "pn_write (put_control peer c s) = pn_write s"
  "pn_read (put_control peer c s) = pn_read s"
  "pn_send (tell_ses x s) = pn_send s" "pn_write (tell_ses x s) = pn_write s" "pn_read (tell_ses x s) = pn_read s"
  "pn_send (block_peer now peer b s) = pn_send s" "pn_write (block_peer now peer b s) = pn_write s"
  "pn_read (block_peer now peer b s) = pn_read s"
  by (simp_all add: put_control_def tell_ses_def block_peer_def)

lemma take_budget_fields [simp]:
  "bg_messages (take_budget n b) = bg_messages b + 1" "bg_bytes (take_budget n b) = bg_bytes b + ucast n"
  "limits_of (take_budget n b) = limits_of b" "limits_of (give_budget n b) = limits_of b"
  by (simp_all add: take_budget_def give_budget_def limits_of_def Let_def)

interpretation send_budget: admission_budget try_reserve_send_admission release_send_admission pn_send
proof
  show "messages_ok (pn_send s) \<and> bytes_ok n (pn_send s) \<and> bg_messages (pn_send s') = bg_messages (pn_send s) + 1 \<and>
      bg_bytes (pn_send s') = bg_bytes (pn_send s) + ucast n \<and> limits_of (pn_send s') = limits_of (pn_send s)"
    if "try_reserve_send_admission now peer n s = (True, s')" for now peer n s s'
    using that by (auto simp: try_reserve_send_admission_def Let_def split: if_splits)
  show "(\<not> messages_ok (pn_send s) \<or> \<not> bytes_ok n (pn_send s)) \<and> bg_messages (pn_send s') = bg_messages (pn_send s) \<and>
      bg_bytes (pn_send s') = bg_bytes (pn_send s) \<and> limits_of (pn_send s') = limits_of (pn_send s)"
    if "try_reserve_send_admission now peer n s = (False, s')" for now peer n s s'
    using that by (auto simp: try_reserve_send_admission_def Let_def limits_of_def split: if_splits)
qed (simp add: release_send_admission_def limits_of_def give_budget_def Let_def)

interpretation write_budget: admission_budget try_reserve_write_budget release_write_budget pn_write
  by unfold_locales
    (auto simp: try_reserve_write_budget_def release_write_budget_def Let_def limits_of_def give_budget_def
      take_budget_def split: if_splits)

interpretation read_budget: admission_budget try_reserve_read_responder_budget release_read_responder_budget pn_read
  by unfold_locales
    (auto simp: try_reserve_read_responder_budget_def release_read_responder_budget_def Let_def limits_of_def
      give_budget_def take_budget_def split: if_splits)

text \<open>
  C5: The three budgets are exact and never exceeded: after any sequence of reservations and
  releases, each budget counts exactly the messages that are reserved and not yet released, and
  their bytes, and it is within its limits.
\<close>

theorem budgets_exact_and_bounded:
  assumes send: "budget_exec try_reserve_send_admission release_send_admission ops s [] = (s1, out1)"
    and wri: "budget_exec try_reserve_write_budget release_write_budget ops s [] = (s2, out2)"
    and read: "budget_exec try_reserve_read_responder_budget release_read_responder_budget ops s [] = (s3, out3)"
    and start: "\<forall>b \<in> {pn_send s, pn_write s, pn_read s}. bg_messages b = 0 \<and> bg_bytes b = 0"
    and len: "length ops < 2 ^ 32"
  shows "in_use (pn_send s1) out1 \<and> in_limits (pn_send s1) \<and>
    in_use (pn_write s2) out2 \<and> in_limits (pn_write s2) \<and>
    in_use (pn_read s3) out3 \<and> in_limits (pn_read s3)"
proof -
  have fits: "sum_list (map unat []) + length ops * 2 ^ 32 \<le> 2 ^ 64" "length [] + length ops < 2 ^ 32"
    using len by simp_all
  have z: "in_use b [] \<and> in_limits b" if "bg_messages b = 0" "bg_bytes b = 0" for b
    using that by (simp add: in_use_def in_limits_def)
  show ?thesis
    using send_budget.exec_bounded [OF send _ _ fits(2,1)] write_budget.exec_bounded [OF wri _ _ fits(2,1)]
      read_budget.exec_bounded [OF read _ _ fits(2,1)] start z by simp
qed

definition demo_budget :: budget where
  "demo_budget = \<lparr>bg_message_limit = 2, bg_byte_limit = 1000, bg_messages = 0, bg_bytes = 0, bg_blocked = 0,
     bg_blocked_messages = 0, bg_blocked_bytes = 0, bg_blocked_both = 0, bg_messages_peak = 0,
     bg_bytes_peak = 0, bg_releases = 0, bg_release_bytes = 0\<rparr>"

definition demo_plane :: plane where
  "demo_plane = \<lparr>pn_controls = [], pn_gate_enabled = True, pn_ack_enabled = True, pn_initial_credits = 4,
     pn_max_arrival = 64, pn_refresh_sent = 0, pn_ack_sent = 0, pn_gate_blocked = 0,
     pn_send = demo_budget, pn_write = demo_budget, pn_read = demo_budget, pn_has_ses = True, pn_notes = []\<rparr>"

definition demo_ops :: "budget_op list" where
  "demo_ops = [Acquire 0 1 600, Acquire 0 2 300, Acquire 0 3 50, GiveBack 0 1 600]"

lemma budgets_exact_and_bounded_witness:
  "in_limits (pn_send (fst (budget_exec try_reserve_send_admission release_send_admission demo_ops demo_plane [])))"
  using budgets_exact_and_bounded [where ops = demo_ops and s = demo_plane, OF surjective_pairing surjective_pairing
      surjective_pairing]
  by (simp add: demo_plane_def demo_budget_def demo_ops_def)

section \<open>Credits\<close>

lemma lookup_put_control:
  "map_of (pn_controls (put_control peer c s)) peer' = (if peer' = peer then Some c else map_of (pn_controls s) peer')"
  by (simp add: put_control_def update_conv')

lemma tell_ses_frame [simp]:
  "pn_controls (tell_ses x s) = pn_controls s" "pn_gate_enabled (tell_ses x s) = pn_gate_enabled s"
  by (simp_all add: tell_ses_def)

lemma put_control_frame [simp]:
  "pn_gate_enabled (put_control peer c s) = pn_gate_enabled s"
  "pn_initial_credits (put_control peer c s) = pn_initial_credits s"
  "pn_max_arrival (put_control peer c s) = pn_max_arrival s"
  by (simp_all add: put_control_def)

lemma initial_credits_pos: "get_initial_credits s \<noteq> 0"
proof -
  have "1 \<le> max (1 :: u32) x" for x by simp
  then have "max (1 :: u32) x \<noteq> 0" for x by (metis word_le_0_iff zero_neq_one)
  then show ?thesis by (simp add: get_initial_credits_def)
qed

text \<open>A refresh is on its way to a peer, good for at least \<open>n\<close> credits.\<close>

definition refresh_due :: "u32 \<Rightarrow> u32 \<Rightarrow> plane \<Rightarrow> bool" where
  "refresh_due peer n s \<longleftrightarrow> (\<exists>c. map_of (pn_controls s) peer = Some c \<and> n \<le> ctl_pending_grant c \<and>
     ctl_event_pending c \<and> ctl_refresh_pending c)"

lemma control_of_fields:
  "map_of (pn_controls s) peer = Some c \<Longrightarrow> ctl_pending_grant (control_of now peer s) = ctl_pending_grant c \<and>
     ctl_event_pending (control_of now peer s) = ctl_event_pending c \<and>
     ctl_refresh_pending (control_of now peer s) = ctl_refresh_pending c"
  by (simp add: control_of_def Let_def)

lemma refresh_due_schedule: "n \<le> k \<Longrightarrow> refresh_due peer n (schedule_credit_refresh now peer k s)"
  by (simp add: refresh_due_def schedule_credit_refresh_def lookup_put_control Let_def le_max_iff_disj)

lemma refresh_due_schedule_keep:
  "refresh_due peer n s \<Longrightarrow> refresh_due peer n (schedule_credit_refresh now peer' k s)"
  using control_of_fields [of s peer]
  by (auto simp: refresh_due_def schedule_credit_refresh_def lookup_put_control Let_def le_max_iff_disj)

lemma refresh_due_put:
  "refresh_due peer n s \<Longrightarrow> ctl_pending_grant c = ctl_pending_grant (control_of now peer' s) \<Longrightarrow>
     ctl_event_pending c = ctl_event_pending (control_of now peer' s) \<Longrightarrow>
     ctl_refresh_pending c = ctl_refresh_pending (control_of now peer' s) \<Longrightarrow>
     refresh_due peer n (put_control peer' c s)"
  using control_of_fields [of s peer]
  by (auto simp: refresh_due_def lookup_put_control)

lemma refresh_due_cong: "pn_controls s' = pn_controls s \<Longrightarrow> refresh_due peer n s \<Longrightarrow> refresh_due peer n s'"
  by (simp add: refresh_due_def)

lemma refresh_due_consume:
  assumes "refresh_due peer n s"
  shows "refresh_due peer n (snd (try_consume_send_credits now peer' k s))"
proof (cases "pn_gate_enabled s \<and> \<not> k \<le> ctl_send_credits (control_of now peer' s)")
  case True
  have "refresh_due peer n (put_control peer' ((control_of now peer' s)\<lparr>ctl_gate_blocked := True\<rparr>) s)"
    by (rule refresh_due_put [OF assms]) simp_all
  then have "refresh_due peer n ((put_control peer' ((control_of now peer' s)\<lparr>ctl_gate_blocked := True\<rparr>) s)
      \<lparr>pn_gate_blocked := pn_gate_blocked s + 1\<rparr>)"
    by (rule refresh_due_cong [rotated]) simp
  then show ?thesis using True refresh_due_schedule_keep by (simp add: try_consume_send_credits_def Let_def)
next
  case False
  then show ?thesis using assms
    by (auto simp: try_consume_send_credits_def Let_def intro!: refresh_due_put)
qed

lemma refused_refresh_due:
  "try_consume_send_credits now peer n s = (False, s') \<Longrightarrow> refresh_due peer n s' \<and> pn_gate_enabled s'"
  by (auto simp: try_consume_send_credits_def Let_def refresh_due_schedule schedule_credit_refresh_def
      split: if_splits) (simp_all add: refresh_due_def lookup_put_control)

lemma refresh_grants:
  assumes "refresh_due peer n s"
  shows "fst (try_consume_send_credits later peer n (execute_credit_refresh now peer s))"
proof -
  let ?c = "control_of now peer s"
  let ?s = "execute_credit_refresh now peer s"
  have grant: "n \<le> ctl_pending_grant ?c" using assms control_of_fields [of s peer] by (auto simp: refresh_due_def)
  obtain d where d: "map_of (pn_controls ?s) peer = Some d"
    "ctl_send_credits d = max (ctl_send_credits ?c) (max (get_initial_credits s) (ctl_pending_grant ?c))"
    by (simp add: execute_credit_refresh_def lookup_put_control Let_def)
  have "get_initial_credits s \<le> ctl_send_credits d" by (simp add: d le_max_iff_disj)
  then have "ctl_send_credits d \<noteq> 0" using initial_credits_pos [of s] by (metis word_le_0_iff)
  then have "control_of later peer ?s = d" using d by (simp add: control_of_def)
  moreover have "n \<le> ctl_send_credits d" using grant by (simp add: d le_max_iff_disj)
  ultimately show ?thesis by (simp add: try_consume_send_credits_def)
qed

fun consume_attempts :: "(ns \<times> u32 \<times> u32) list \<Rightarrow> plane \<Rightarrow> plane" where
  "consume_attempts [] s = s"
| "consume_attempts ((now, peer, n) # xs) s = consume_attempts xs (snd (try_consume_send_credits now peer n s))"

lemma refresh_due_attempts: "refresh_due peer n s \<Longrightarrow> refresh_due peer n (consume_attempts xs s)"
  by (induction xs s rule: consume_attempts.induct) (auto intro: refresh_due_consume)

text \<open>
  C6: The credit gate never starves a sender: when \<open>n\<close> credits were refused to a peer, then
  whatever the peers try to take before the scheduled refresh runs, the refresh makes the
  credits available, and the same request is granted after it.
\<close>

theorem refused_credits_are_granted_after_refresh:
  assumes "try_consume_send_credits now peer n s = (False, s1)"
  shows "fst (try_consume_send_credits later peer n
    (execute_credit_refresh t peer (consume_attempts attempts s1)))"
  using refresh_grants refresh_due_attempts refused_refresh_due [OF assms] by blast

lemma refused_credits_are_granted_after_refresh_witness:
  "fst (try_consume_send_credits 9 1 6 (execute_credit_refresh 8 1 (consume_attempts [(7, 1, 3), (7, 2, 1)]
     (snd (try_consume_send_credits 6 1 6 demo_plane)))))"
proof -
  have "try_consume_send_credits 6 1 6 demo_plane = (False, snd (try_consume_send_credits 6 1 6 demo_plane))"
    by (simp add: try_consume_send_credits_def demo_plane_def control_of_def get_initial_credits_def
        fresh_control_def Let_def)
  then show ?thesis by (rule refused_credits_are_granted_after_refresh)
qed

end
