(* ===== verification/PdsStatistics.thy ===== *)
theory PdsStatistics
  imports Transport
begin

text \<open>
  \<open>PdsStatistics\<close> (\<open>model/pds/pds-statistics.cc\<close>): the counters of the PDS layer. Latencies, which
  the code keeps as \<open>double\<close> nanoseconds, are whole nanoseconds here; \<open>sx_min_latency = None\<close>
  stands for the initial largest \<open>double\<close>. The derived averages (throughput, mean latency, jitter)
  and the report string are not modelled.
\<close>

record pds_statistics =
  sx_received :: u64
  sx_sent :: u64
  sx_creations :: u64
  sx_destructions :: u64
  sx_success :: u64
  sx_invalid_pdc :: u64
  sx_pdc_full :: u64
  sx_invalid_packet :: u64
  sx_exhausted :: u64
  sx_protocol :: u64
  sx_bytes_received :: u64
  sx_bytes_sent :: u64
  sx_first :: ns
  sx_last :: ns
  sx_delays :: "ns list"
  sx_min_latency :: "ns option"
  sx_max_latency :: ns
  sx_total_latency :: ns

definition new_statistics :: pds_statistics where
  "new_statistics = \<lparr>sx_received = 0, sx_sent = 0, sx_creations = 0, sx_destructions = 0, sx_success = 0,
     sx_invalid_pdc = 0, sx_pdc_full = 0, sx_invalid_packet = 0, sx_exhausted = 0, sx_protocol = 0,
     sx_bytes_received = 0, sx_bytes_sent = 0, sx_first = 0, sx_last = 0, sx_delays = [],
     sx_min_latency = None, sx_max_latency = 0, sx_total_latency = 0\<rparr>"

definition statistics_reset :: "pds_statistics \<Rightarrow> pds_statistics" where
  "statistics_reset s = new_statistics"

definition increment_received :: "pds_statistics \<Rightarrow> pds_statistics" where
  "increment_received s = s\<lparr>sx_received := sx_received s + 1\<rparr>"

definition increment_sent :: "pds_statistics \<Rightarrow> pds_statistics" where
  "increment_sent s = s\<lparr>sx_sent := sx_sent s + 1\<rparr>"

definition increment_creations :: "pds_statistics \<Rightarrow> pds_statistics" where
  "increment_creations s = s\<lparr>sx_creations := sx_creations s + 1\<rparr>"

definition increment_destructions :: "pds_statistics \<Rightarrow> pds_statistics" where
  "increment_destructions s = s\<lparr>sx_destructions := sx_destructions s + 1\<rparr>"

text \<open>\<open>IncrementErrors\<close>: an internal error has no counter.\<close>

definition increment_errors :: "pds_error \<Rightarrow> pds_statistics \<Rightarrow> pds_statistics" where
  "increment_errors e s = (case e of
      SUCCESS \<Rightarrow> s\<lparr>sx_success := sx_success s + 1\<rparr>
    | INVALID_PDC \<Rightarrow> s\<lparr>sx_invalid_pdc := sx_invalid_pdc s + 1\<rparr>
    | PDC_FULL \<Rightarrow> s\<lparr>sx_pdc_full := sx_pdc_full s + 1\<rparr>
    | INVALID_PACKET \<Rightarrow> s\<lparr>sx_invalid_packet := sx_invalid_packet s + 1\<rparr>
    | RESOURCE_EXHAUSTED \<Rightarrow> s\<lparr>sx_exhausted := sx_exhausted s + 1\<rparr>
    | PROTOCOL_ERROR \<Rightarrow> s\<lparr>sx_protocol := sx_protocol s + 1\<rparr>
    | INTERNAL_ERROR \<Rightarrow> s)"

text \<open>A packet's time: the first one is kept, but a packet at time 0 does not count as the first.\<close>

definition mark_time :: "ns \<Rightarrow> pds_statistics \<Rightarrow> pds_statistics" where
  "mark_time now s = s\<lparr>sx_first := (if sx_first s = 0 then now else sx_first s), sx_last := now\<rparr>"

definition mark_latency :: "ns \<Rightarrow> pds_statistics \<Rightarrow> pds_statistics" where
  "mark_latency l s = s\<lparr>sx_total_latency := sx_total_latency s + l,
     sx_min_latency := (case sx_min_latency s of None \<Rightarrow> Some l | Some m \<Rightarrow> Some (min l m)),
     sx_max_latency := max (sx_max_latency s) l\<rparr>"

definition record_transmission :: "ns \<Rightarrow> u64 \<Rightarrow> ns \<Rightarrow> pds_statistics \<Rightarrow> pds_statistics" where
  "record_transmission now bytes l s =
    mark_time now (mark_latency l (s\<lparr>sx_sent := sx_sent s + 1, sx_bytes_sent := sx_bytes_sent s + bytes\<rparr>))"

definition record_reception :: "ns \<Rightarrow> u64 \<Rightarrow> ns \<Rightarrow> pds_statistics \<Rightarrow> pds_statistics" where
  "record_reception now bytes l s =
    mark_time now (mark_latency l (s\<lparr>sx_received := sx_received s + 1,
      sx_bytes_received := sx_bytes_received s + bytes, sx_delays := sx_delays s @ [l]\<rparr>))"

definition record_bytes_sent :: "ns \<Rightarrow> u64 \<Rightarrow> pds_statistics \<Rightarrow> pds_statistics" where
  "record_bytes_sent now bytes s = mark_time now (s\<lparr>sx_bytes_sent := sx_bytes_sent s + bytes\<rparr>)"

definition record_bytes_received :: "ns \<Rightarrow> u64 \<Rightarrow> pds_statistics \<Rightarrow> pds_statistics" where
  "record_bytes_received now bytes s = mark_time now (s\<lparr>sx_bytes_received := sx_bytes_received s + bytes\<rparr>)"

end
