(* ===== verification/PdcBase.thy ===== *)
theory PdcBase
  imports Transport "HOL-Library.Multiset"
begin

text \<open>
  \<open>PdcBase\<close> (\<open>model/pdc/pdc-base.cc\<close>): the part of a packet delivery context that TPDC and
  IPDC share. Trace callbacks and the floating-point latency averages are not modelled.
\<close>

section \<open>State\<close>

text \<open>The counters of \<open>PdcStatistics\<close>.\<close>

record pdc_stats =
  st_packets_sent :: u64
  st_packets_received :: u64
  st_bytes_transmitted :: u64
  st_bytes_received :: u64
  st_errors :: u64
  st_validation_errors :: u64
  st_protocol_errors :: u64
  st_buffer_errors :: u64
  st_network_errors :: u64
  st_packets_dropped :: u64
  st_last_activity :: ns

definition zero_stats :: pdc_stats where
  "zero_stats = \<lparr>st_packets_sent = 0, st_packets_received = 0, st_bytes_transmitted = 0,
     st_bytes_received = 0, st_errors = 0, st_validation_errors = 0, st_protocol_errors = 0,
     st_buffer_errors = 0, st_network_errors = 0, st_packets_dropped = 0, st_last_activity = 0\<rparr>"

text \<open>\<open>PdcConfig\<close>\<close>

record pdc_config =
  pc_pdc_id :: u16
  pc_local :: u32
  pc_remote :: u32
  pc_tc :: u8
  pc_type :: pdc_type
  pc_mode :: u8
  pc_max_packet :: u16
  pc_sequence :: u32

record pdc_base =
  pb_config :: pdc_config
  pb_active :: bool
  pb_stats :: pdc_stats
  pb_processing :: bool
  pb_queue :: "packet list"
  pb_timestamps :: "(u64 \<times> ns) list"
  pb_max_age :: ns
  pb_max_entries :: nat

section \<open>Operations\<close>

definition pdc_base_initialize :: "pdc_config \<Rightarrow> pdc_base \<Rightarrow> bool \<times> pdc_base" where
  "pdc_base_initialize cfg b =
    (let b1 = b\<lparr>pb_config := cfg, pb_stats := zero_stats, pb_active := False\<rparr> in
     if pc_local cfg = 0 \<or> pc_remote cfg = 0 then (False, b1)
     else (True, b1\<lparr>pb_processing := True\<rparr>))"

definition pdc_activate :: "pdc_base \<Rightarrow> pdc_base" where
  "pdc_activate b = b\<lparr>pb_active := True\<rparr>"

definition pdc_deactivate :: "pdc_base \<Rightarrow> pdc_base" where
  "pdc_deactivate b = (if pb_active b then b\<lparr>pb_active := False, pb_processing := False\<rparr> else b)"

definition pdc_update_configuration :: "pdc_config \<Rightarrow> pdc_base \<Rightarrow> bool \<times> pdc_base" where
  "pdc_update_configuration cfg b =
    (if pc_pdc_id cfg \<noteq> pc_pdc_id (pb_config b) \<or> pc_type cfg \<noteq> pc_type (pb_config b) then (False, b)
     else (True, b\<lparr>pb_config := cfg\<rparr>))"

definition create_pds_header :: "pdc_base \<Rightarrow> bool \<Rightarrow> bool \<Rightarrow> pds_header" where
  "create_pds_header b som eom =
    \<lparr>ph_pdc_id = pc_pdc_id (pb_config b), ph_seq = pc_sequence (pb_config b), ph_som = som, ph_eom = eom,
     ph_reliable = (pc_type (pb_config b) = TPDC)\<rparr>"

text \<open>\<open>ParsePdsHeader\<close> reads nothing from the packet: its destination is the local endpoint.\<close>

definition parsed_dest_fep :: "pdc_base \<Rightarrow> packet \<Rightarrow> u32" where
  "parsed_dest_fep b p = pc_local (pb_config b)"

definition pdc_update_statistics :: "ns \<Rightarrow> bool \<Rightarrow> packet \<Rightarrow> pdc_base \<Rightarrow> pdc_base" where
  "pdc_update_statistics now is_send p b =
    (let st = pb_stats b; n = of_nat (pk_size p);
         st1 = (if is_send
           then st\<lparr>st_packets_sent := st_packets_sent st + 1,
                   st_bytes_transmitted := st_bytes_transmitted st + n\<rparr>
           else st\<lparr>st_packets_received := st_packets_received st + 1,
                   st_bytes_received := st_bytes_received st + n\<rparr>)
     in b\<lparr>pb_stats := st1\<lparr>st_last_activity := now\<rparr>\<rparr>)"

definition pdc_validate_packet :: "pdc_base \<Rightarrow> packet \<Rightarrow> bool" where
  "pdc_validate_packet b p \<longleftrightarrow> pk_size p \<noteq> 0 \<and> pk_size p \<le> unat (pc_max_packet (pb_config b))"

definition pdc_handle_error :: "pds_error \<Rightarrow> pdc_base \<Rightarrow> pdc_base" where
  "pdc_handle_error e b =
    (let st = pb_stats b; st1 = st\<lparr>st_errors := st_errors st + 1\<rparr> in
     b\<lparr>pb_stats := (case e of
         INVALID_PACKET \<Rightarrow> st1\<lparr>st_validation_errors := st_validation_errors st1 + 1\<rparr>
       | PROTOCOL_ERROR \<Rightarrow> st1\<lparr>st_protocol_errors := st_protocol_errors st1 + 1\<rparr>
       | PDC_FULL \<Rightarrow> st1\<lparr>st_buffer_errors := st_buffer_errors st1 + 1,
                         st_packets_dropped := st_packets_dropped st1 + 1\<rparr>
       | _ \<Rightarrow> st1\<lparr>st_network_errors := st_network_errors st1 + 1\<rparr>)\<rparr>)"

text \<open>The timestamps of packets in processing, with the clean-up by age and then by number.\<close>

definition cleanup_expired_timestamps :: "ns \<Rightarrow> pdc_base \<Rightarrow> pdc_base" where
  "cleanup_expired_timestamps now b =
    (let young = filter (\<lambda>(_, t). \<not> pb_max_age b < now - t) (pb_timestamps b) in
     b\<lparr>pb_timestamps :=
        (if pb_max_entries b < length young
         then let oldest = map fst (take (length young - pb_max_entries b) (sort_key snd young))
              in filter (\<lambda>(k, _). k \<notin> set oldest) young
         else young)\<rparr>)"

definition record_packet_entry :: "ns \<Rightarrow> packet \<Rightarrow> pdc_base \<Rightarrow> pdc_base" where
  "record_packet_entry now p b =
    (let b1 = (if pb_max_entries b \<le> length (pb_timestamps b) then cleanup_expired_timestamps now b else b)
     in b1\<lparr>pb_timestamps := AList.update (pk_uid p) now (pb_timestamps b1)\<rparr>)"

definition measure_latency :: "ns \<Rightarrow> packet \<Rightarrow> pdc_base \<Rightarrow> ns option \<times> pdc_base" where
  "measure_latency now p b = (case map_of (pb_timestamps b) (pk_uid p) of
      None \<Rightarrow> (None, b)
    | Some t \<Rightarrow> (Some (now - t), b\<lparr>pb_timestamps := AList.delete (pk_uid p) (pb_timestamps b)\<rparr>))"

text \<open>\<open>ValidateAndRecordReceivedPacket\<close>: \<open>validate\<close> is the virtual \<open>ValidatePacket\<close>; the error is
  returned and the caller passes it to its \<open>HandleError\<close>.\<close>

definition validate_and_record ::
  "ns \<Rightarrow> (packet \<Rightarrow> bool) \<Rightarrow> packet option \<Rightarrow> pdc_base \<Rightarrow> pds_error option \<times> pdc_base" where
  "validate_and_record now validate po b = (case po of
      None \<Rightarrow> (Some INVALID_PACKET, b)
    | Some p \<Rightarrow>
        if \<not> pb_active b then (Some INVALID_PACKET, b)
        else if \<not> validate p then (Some INVALID_PACKET, b)
        else if parsed_dest_fep b p \<noteq> pc_local (pb_config b) then (Some PROTOCOL_ERROR, b)
        else (None, record_packet_entry now p b))"

definition pdc_queue_limit :: nat where "pdc_queue_limit = 1024"

text \<open>\<open>PdcBase::HandleReceivedPacket\<close> with its \<open>DropTailQueue\<close> of 1024 packets.\<close>

definition pdc_handle_received :: "ns \<Rightarrow> packet option \<Rightarrow> pdc_base \<Rightarrow> bool \<times> pdc_base" where
  "pdc_handle_received now po b =
    (case validate_and_record now (pdc_validate_packet b) po b of
       (Some e, b1) \<Rightarrow> (False, pdc_handle_error e b1)
     | (None, b1) \<Rightarrow>
         if length (pb_queue b1) < pdc_queue_limit
         then (True, b1\<lparr>pb_queue := pb_queue b1 @ [the po]\<rparr>) else (False, b1))"

fun pdc_process_queue :: "ns \<Rightarrow> packet list \<Rightarrow> pdc_base \<Rightarrow> pdc_base" where
  "pdc_process_queue now [] b = b"
| "pdc_process_queue now (p # ps) b =
    pdc_process_queue now ps (snd (measure_latency now p (pdc_update_statistics now False p b)))"

definition pdc_process_receive_queue :: "ns \<Rightarrow> pdc_base \<Rightarrow> pdc_base" where
  "pdc_process_receive_queue now b = pdc_process_queue now (pb_queue b) (b\<lparr>pb_queue := []\<rparr>)"

section \<open>The table of timestamps\<close>

lemma length_filter_oldest:
  assumes "distinct (map fst xs)" "n \<le> length xs"
  shows "length (filter (\<lambda>(k, _). k \<notin> set (map fst (take n (sort_key snd xs)))) xs) = length xs - n"
proof -
  let ?s = "sort_key snd xs"
  let ?keep = "\<lambda>(k, _). k \<notin> set (map fst (take n ?s))"
  have d: "distinct (map fst ?s)"
    using assms(1) by (simp add: distinct_map)
  have "mset (filter ?keep xs) = mset (filter ?keep ?s)" by (simp add: mset_filter)
  then have same: "length (filter ?keep xs) = length (filter ?keep ?s)" by (metis size_mset)
  have "filter ?keep (take n ?s @ drop n ?s) = drop n ?s"
  proof -
    have "filter ?keep (take n ?s) = []" by (force simp: filter_empty_conv)
    moreover have "k \<notin> set (map fst (take n ?s))" if "(k, v) \<in> set (drop n ?s)" for k v
    proof -
      have "distinct (map fst (take n ?s) @ map fst (drop n ?s))" using d by (simp flip: map_append)
      then show ?thesis using that by (force simp: image_iff)
    qed
    then have "filter ?keep (drop n ?s) = drop n ?s" by (auto simp: filter_id_conv)
    ultimately show ?thesis by (simp only: filter_append append_Nil)
  qed
  then show ?thesis using same assms(2) by (simp only: append_take_drop_id) simp
qed

definition timestamps_ok :: "pdc_base \<Rightarrow> bool" where
  "timestamps_ok b \<longleftrightarrow> distinct (map fst (pb_timestamps b)) \<and> length (pb_timestamps b) \<le> pb_max_entries b + 1"

lemma fst_subset_filter: "distinct (map fst xs) \<Longrightarrow> distinct (map fst (filter P xs))"
  by (simp add: distinct_map_filter)

lemma cleanup_bounded:
  assumes "distinct (map fst (pb_timestamps b))"
  shows "distinct (map fst (pb_timestamps (cleanup_expired_timestamps now b)))"
    and "length (pb_timestamps (cleanup_expired_timestamps now b)) \<le> pb_max_entries b"
    and "pb_max_entries (cleanup_expired_timestamps now b) = pb_max_entries b"
proof -
  let ?young = "filter (\<lambda>(_, t). \<not> pb_max_age b < now - t) (pb_timestamps b)"
  have d: "distinct (map fst ?young)" using assms by (rule fst_subset_filter)
  have len: "length (filter (\<lambda>(k, _). k \<notin> set (map fst (take n (sort_key snd ?young)))) ?young) = length ?young - n"
    if "n \<le> length ?young" for n using length_filter_oldest [OF d that] .
  show "length (pb_timestamps (cleanup_expired_timestamps now b)) \<le> pb_max_entries b"
    using len [of "length ?young - pb_max_entries b"] by (simp add: cleanup_expired_timestamps_def Let_def)
  show "distinct (map fst (pb_timestamps (cleanup_expired_timestamps now b)))"
    using d fst_subset_filter [OF d] by (simp add: cleanup_expired_timestamps_def Let_def)
  show "pb_max_entries (cleanup_expired_timestamps now b) = pb_max_entries b"
    by (simp add: cleanup_expired_timestamps_def Let_def)
qed

lemma length_update_le: "length (AList.update k v xs) \<le> Suc (length xs)"
  by (induction xs) auto

lemma timestamps_ok_record: "timestamps_ok b \<Longrightarrow> timestamps_ok (record_packet_entry now p b)"
  using cleanup_bounded [of b now] length_update_le [of "pk_uid p" now "pb_timestamps b"]
    length_update_le [of "pk_uid p" now "pb_timestamps (cleanup_expired_timestamps now b)"]
  by (auto simp: timestamps_ok_def record_packet_entry_def Let_def intro!: distinct_update)

lemma timestamps_ok_measure: "timestamps_ok b \<Longrightarrow> timestamps_ok (snd (measure_latency now p b))"
  using length_delete_le [of "pk_uid p" "pb_timestamps b"]
  by (auto simp: timestamps_ok_def measure_latency_def distinct_delete split: option.split)

lemma timestamps_ok_cong:
  "pb_timestamps b' = pb_timestamps b \<Longrightarrow> pb_max_entries b' = pb_max_entries b \<Longrightarrow> timestamps_ok b \<Longrightarrow> timestamps_ok b'"
  by (simp add: timestamps_ok_def)

lemma timestamps_ok_validate:
  "timestamps_ok b \<Longrightarrow> validate_and_record now v po b = (e, b') \<Longrightarrow> timestamps_ok b'"
  by (auto simp: validate_and_record_def timestamps_ok_record split: option.splits if_splits)

lemma timestamps_ok_error: "timestamps_ok b \<Longrightarrow> timestamps_ok (pdc_handle_error e b)"
  by (erule timestamps_ok_cong [rotated 2]) (simp_all add: pdc_handle_error_def Let_def)

lemma timestamps_ok_stats: "timestamps_ok b \<Longrightarrow> timestamps_ok (pdc_update_statistics now sent p b)"
  by (erule timestamps_ok_cong [rotated 2]) (simp_all add: pdc_update_statistics_def Let_def)

lemma timestamps_ok_process: "timestamps_ok b \<Longrightarrow> timestamps_ok (pdc_process_queue now ps b)"
  by (induction now ps b rule: pdc_process_queue.induct) (simp_all add: timestamps_ok_measure timestamps_ok_stats)

end
