(* ===== verification/Tpdc.thy ===== *)
theory Tpdc
  imports PdcBase Wire
begin

text \<open>
  \<open>Tpdc\<close> (\<open>model/pdc/tpdc.cc\<close>): the reliable packet delivery context, sender and receiver, as
  functions on its state. The simulator's events are fields that say whether they are scheduled
  and for when; packets handed to the channel are appended to \<open>tp_out\<close>, calls on the
  \<open>SesManager\<close> to \<open>tp_notes\<close>. Trace callbacks are not modelled.
\<close>

section \<open>State\<close>

text \<open>\<open>BufferedPacket\<close>; \<open>None\<close> stands for \<open>Time::Max ()\<close>, and for a timeout that is not pending.\<close>

record buffered =
  bp_packet :: packet
  bp_timestamp :: ns
  bp_last_retransmission :: ns
  bp_gap_nack_sent :: "ns option"
  bp_retransmit_tx :: "ns option"
  bp_retransmissions :: u8
  bp_acknowledged :: bool
  bp_som :: bool
  bp_eom :: bool
  bp_seq :: u32
  bp_timeout :: "ns option"

definition new_buffered :: "ns \<Rightarrow> packet \<Rightarrow> bool \<Rightarrow> bool \<Rightarrow> u32 \<Rightarrow> buffered" where
  "new_buffered now p som eom seq = \<lparr>bp_packet = p, bp_timestamp = now, bp_last_retransmission = 0,
     bp_gap_nack_sent = None, bp_retransmit_tx = None, bp_retransmissions = 0, bp_acknowledged = False,
     bp_som = som, bp_eom = eom, bp_seq = seq, bp_timeout = None\<rparr>"

text \<open>\<open>Acknowledgment\<close>\<close>

record acknowledgment =
  ak_seq :: u32
  ak_window :: u32
  ak_nacks :: "u32 list"
  ak_cumulative :: bool

text \<open>\<open>ReadGapDiagnosticContext\<close>\<close>

record gap_context =
  gc_job :: u64
  gc_msg :: u16
  gc_peer :: u32
  gc_missing :: u32
  gc_observed :: u32
  gc_detected :: ns

text \<open>\<open>TpdcConfig\<close>, without the part it inherits\<close>

record tpdc_config =
  tc_base :: pdc_config
  tc_max_send_buffer :: nat
  tc_max_receive_buffer :: nat
  tc_send_window :: u16
  tc_receive_window :: u16
  tc_max_retransmissions :: u8
  tc_initial_rto :: ns
  tc_max_rto :: ns
  tc_aggressive_drain :: bool
  tc_queue_priority :: bool

text \<open>The counters of \<open>TpdcStatistics\<close> and of the session.\<close>

record tpdc_stats =
  ts_errors :: u64
  ts_acks_sent :: u64
  ts_acks_received :: u64
  ts_duplicate_acks :: u64
  ts_out_of_order :: u64
  ts_cumulative_acks :: u64
  ts_timeouts :: u64
  ts_retransmissions :: u64
  ts_fast_retransmissions :: u64
  ts_send_overflows :: u64
  ts_receive_overflows :: u64
  ts_send_size :: u32
  ts_receive_size :: u32

record tpdc_totals =
  tt_tx_data :: u32
  tt_tx_control :: u32
  tt_rx_data :: u32
  tt_rx_control :: u32
  tt_ack_sent :: u32
  tt_ack_received :: u32
  tt_gap_nack_received :: u32
  tt_last_ack :: u32
  tt_send_size_max :: u32
  tt_ack_advances :: u32

datatype tpdc_note =
    GapNackObservedAtSender u64 u16 u32 u32 ns
  | TpdcReadGapNackObserved u64 u32 u32 u32 ns "ns option"
  | GapRetransmitTx u64 u16 u32 u32 ns
  | TpdcReadGapRetransmitTx u64 u32 u32 u32 ns
  | GapNackSent u64 u16 u32 u32 ns
  | TpdcReadGapNackSent u64 u16 u32 u32 ns ns
  | TpdcReadGapDetected u64 u16 u32 u32 u32 ns

record tpdc =
  tp_base :: pdc_base
  tp_config :: tpdc_config
  tp_next_send :: u32
  tp_next_receive :: u32
  tp_send_base :: u32
  tp_receive_base :: u32
  tp_highest :: u32
  tp_send_buffer :: "(u32 \<times> buffered) list"
  tp_receive_buffer :: "(u32 \<times> buffered) list"
  tp_send_queue :: "buffered list"
  tp_ack_event :: "ns option"
  tp_ack_interval :: ns
  tp_pending_sack :: u32
  tp_pending_gap_nack :: u32
  tp_rto :: ns
  tp_rtt :: ns
  tp_rtt_variance :: ns
  tp_gap_observed :: "(u32 \<times> ns) list"
  tp_read_gaps :: "(u32 \<times> gap_context) list"
  tp_stats :: tpdc_stats
  tp_totals :: tpdc_totals
  tp_device :: bool
  tp_channel :: bool
  tp_has_ses :: bool
  tp_out :: "packet list"
  tp_notes :: "tpdc_note list"

definition zero_tpdc_stats :: tpdc_stats where
  "zero_tpdc_stats = \<lparr>ts_errors = 0, ts_acks_sent = 0, ts_acks_received = 0, ts_duplicate_acks = 0,
     ts_out_of_order = 0, ts_cumulative_acks = 0, ts_timeouts = 0, ts_retransmissions = 0,
     ts_fast_retransmissions = 0, ts_send_overflows = 0, ts_receive_overflows = 0, ts_send_size = 0,
     ts_receive_size = 0\<rparr>"

definition zero_totals :: tpdc_totals where
  "zero_totals = \<lparr>tt_tx_data = 0, tt_tx_control = 0, tt_rx_data = 0, tt_rx_control = 0, tt_ack_sent = 0,
     tt_ack_received = 0, tt_gap_nack_received = 0, tt_last_ack = 0, tt_send_size_max = 0, tt_ack_advances = 0\<rparr>"

section \<open>Small operations\<close>

definition tpdc_note_ses :: "tpdc_note list \<Rightarrow> tpdc \<Rightarrow> tpdc" where
  "tpdc_note_ses ns t = (if tp_has_ses t then t\<lparr>tp_notes := tp_notes t @ ns\<rparr> else t)"

definition tpdc_initialize :: "tpdc_config \<Rightarrow> tpdc \<Rightarrow> bool \<times> tpdc" where
  "tpdc_initialize cfg t =
    (let (ok, b) = pdc_base_initialize (tc_base cfg) (tp_base t); t1 = t\<lparr>tp_base := b\<rparr> in
     if \<not> ok then (False, t1)
     else (True, t1\<lparr>tp_config := cfg, tp_next_send := 1, tp_next_receive := 1, tp_send_base := 1,
        tp_receive_base := 1, tp_highest := 0, tp_pending_sack := 0, tp_pending_gap_nack := 0,
        tp_rto := tc_initial_rto cfg, tp_totals := zero_totals, tp_gap_observed := [], tp_read_gaps := []\<rparr>))"

definition tpdc_validate_packet :: "tpdc \<Rightarrow> packet \<Rightarrow> bool" where
  "tpdc_validate_packet t p \<longleftrightarrow> pdc_validate_packet (tp_base t) p \<and>
     pk_size p \<le> unat (pc_max_packet (tc_base (tp_config t))) + 64"

definition tpdc_handle_error :: "pds_error \<Rightarrow> tpdc \<Rightarrow> tpdc" where
  "tpdc_handle_error e t = t\<lparr>tp_stats := (tp_stats t)\<lparr>ts_errors := ts_errors (tp_stats t) + 1\<rparr>,
     tp_base := pdc_handle_error e (tp_base t)\<rparr>"

definition tpdc_update_statistics :: "tpdc \<Rightarrow> tpdc" where
  "tpdc_update_statistics t =
    (let n = of_nat (length (tp_send_buffer t)) in
     t\<lparr>tp_stats := (tp_stats t)\<lparr>ts_send_size := n, ts_receive_size := of_nat (length (tp_receive_buffer t))\<rparr>,
       tp_totals := (tp_totals t)\<lparr>tt_send_size_max := max (tt_send_size_max (tp_totals t)) n\<rparr>\<rparr>)"

text \<open>The window checks: the upper end is computed in 32 bits.\<close>

definition is_in_send_window :: "u32 \<Rightarrow> tpdc \<Rightarrow> bool" where
  "is_in_send_window seq t \<longleftrightarrow> tp_send_base t \<le> seq \<and> seq < tp_send_base t + ucast (tc_send_window (tp_config t))"

definition is_in_receive_window :: "u32 \<Rightarrow> tpdc \<Rightarrow> bool" where
  "is_in_receive_window seq t \<longleftrightarrow>
     tp_receive_base t \<le> seq \<and> seq < tp_receive_base t + ucast (tc_receive_window (tp_config t))"

definition generate_sequence_number :: "tpdc \<Rightarrow> u32 \<times> tpdc" where
  "generate_sequence_number t = (tp_next_send t, t\<lparr>tp_next_send := tp_next_send t + 1\<rparr>)"

definition fresh_transport_tag :: transport_tag where
  "fresh_transport_tag = \<lparr>tt_accept = None, tt_transmit = None, tt_queued = False\<rparr>"

definition set_accept_timestamp :: "ns \<Rightarrow> bool \<Rightarrow> packet \<Rightarrow> packet" where
  "set_accept_timestamp now queued p =
    p\<lparr>pk_transport := Some ((case pk_transport p of None \<Rightarrow> fresh_transport_tag | Some x \<Rightarrow> x)
        \<lparr>tt_accept := Some now, tt_queued := queued\<rparr>)\<rparr>"

definition set_transmit_timestamp :: "ns \<Rightarrow> packet \<Rightarrow> packet" where
  "set_transmit_timestamp now p =
    p\<lparr>pk_transport := Some ((case pk_transport p of None \<Rightarrow> fresh_transport_tag | Some x \<Rightarrow> x)
        \<lparr>tt_transmit := Some now\<rparr>)\<rparr>"

text \<open>\<open>ArmTimeout\<close>, \<open>CancelTimeout\<close>\<close>

definition arm_timeout :: "ns \<Rightarrow> u32 \<Rightarrow> tpdc \<Rightarrow> tpdc" where
  "arm_timeout now seq t = (case map_of (tp_send_buffer t) seq of
      None \<Rightarrow> t
    | Some bp \<Rightarrow> t\<lparr>tp_send_buffer := AList.update seq (bp\<lparr>bp_timeout := Some (now + tp_rto t)\<rparr>) (tp_send_buffer t)\<rparr>)"

definition cancel_timeout :: "buffered \<Rightarrow> buffered" where
  "cancel_timeout bp = bp\<lparr>bp_timeout := None\<rparr>"

section \<open>Sending\<close>

text \<open>\<open>TransmitPacket\<close>: a copy with the transmit time, the recovery tag and the PDS header.\<close>

definition framed :: "ns \<Rightarrow> buffered \<Rightarrow> tpdc \<Rightarrow> packet" where
  "framed now bp t =
    (let p = set_transmit_timestamp now (bp_packet bp);
         p1 = (if bp_gap_nack_sent bp \<noteq> None \<or> bp_retransmit_tx bp \<noteq> None
               then p\<lparr>pk_recovery := Some \<lparr>rt_gap_nack_sent = bp_gap_nack_sent bp,
                                           rt_retransmit_tx = bp_retransmit_tx bp\<rparr>\<rparr>
               else p)
     in add_header ((create_pds_header (tp_base t) (bp_som bp) (bp_eom bp))
          \<lparr>ph_seq := bp_seq bp, ph_reliable := True\<rparr>) p1)"

definition transmit_packet :: "ns \<Rightarrow> buffered \<Rightarrow> tpdc \<Rightarrow> bool \<times> tpdc" where
  "transmit_packet now bp t =
    (if \<not> tp_device t then (False, t)
     else let p = framed now bp t;
              t1 = t\<lparr>tp_base := pdc_update_statistics now True p (tp_base t),
                     tp_totals := (tp_totals t)\<lparr>tt_tx_data := tt_tx_data (tp_totals t) + 1\<rparr>\<rparr>
       in if tp_channel t then (True, t1\<lparr>tp_out := tp_out t1 @ [p]\<rparr>) else (False, t1))"

definition buffer_packet_for_sending :: "ns \<Rightarrow> packet \<Rightarrow> bool \<Rightarrow> bool \<Rightarrow> tpdc \<Rightarrow> bool \<times> tpdc" where
  "buffer_packet_for_sending now p som eom t =
    (if tc_max_send_buffer (tp_config t) \<le> length (tp_send_buffer t)
     then (False, tpdc_handle_error PDC_FULL
             (t\<lparr>tp_stats := (tp_stats t)\<lparr>ts_send_overflows := ts_send_overflows (tp_stats t) + 1\<rparr>\<rparr>))
     else if \<not> is_in_send_window (tp_next_send t) t
     then let bp = new_buffered now (set_accept_timestamp now True p) som eom 0
          in (True, t\<lparr>tp_send_queue :=
                (if is_read_response_packet (bp_packet bp) \<and> tc_queue_priority (tp_config t)
                 then bp # tp_send_queue t else tp_send_queue t @ [bp])\<rparr>)
     else let (seq, t1) = generate_sequence_number t;
              bp = new_buffered now (set_accept_timestamp now False p) som eom seq;
              t2 = t1\<lparr>tp_send_buffer := AList.update seq bp (tp_send_buffer t1)\<rparr>;
              (sent, t3) = transmit_packet now bp t2
          in if \<not> sent then (False, t3\<lparr>tp_send_buffer := AList.delete seq (tp_send_buffer t3)\<rparr>)
             else (True, tpdc_update_statistics (arm_timeout now seq t3)))"

definition tpdc_send_packet :: "ns \<Rightarrow> packet option \<Rightarrow> bool \<Rightarrow> bool \<Rightarrow> tpdc \<Rightarrow> bool \<times> tpdc" where
  "tpdc_send_packet now po som eom t = (case po of
      None \<Rightarrow> (False, tpdc_handle_error INVALID_PACKET t)
    | Some p \<Rightarrow>
        if \<not> pb_active (tp_base t) then (False, tpdc_handle_error INVALID_PACKET t)
        else if \<not> tpdc_validate_packet t p then (False, tpdc_handle_error INVALID_PACKET t)
        else buffer_packet_for_sending now p som eom t)"

text \<open>\<open>ProcessSendQueue\<close>: \<open>select\<close> takes the packet to send next out of the queue.\<close>

definition select_queued :: "bool \<Rightarrow> buffered list \<Rightarrow> (buffered \<times> buffered list) option" where
  "select_queued aggressive q = (case q of
      [] \<Rightarrow> None
    | x # xs \<Rightarrow> Some
        (case dropWhile (\<lambda>b. \<not> is_read_response_packet (bp_packet b)) q of
           [] \<Rightarrow> (x, xs)
         | y # ys \<Rightarrow> if aggressive
             then (y, takeWhile (\<lambda>b. \<not> is_read_response_packet (bp_packet b)) q @ ys) else (x, xs)))"

lemma select_queued_length: "select_queued a q = Some (b, q') \<Longrightarrow> length q' < length q"
proof -
  assume s: "select_queued a q = Some (b, q')"
  let ?P = "\<lambda>b. \<not> is_read_response_packet (bp_packet b)"
  have "length (takeWhile ?P q) + length (dropWhile ?P q) = length q"
    by (metis length_append takeWhile_dropWhile_id)
  then show ?thesis using s
    by (auto simp: select_queued_def split: list.splits if_splits)
qed

function drain_send_queue :: "ns \<Rightarrow> tpdc \<Rightarrow> tpdc" where
  "drain_send_queue now t =
    (if is_in_send_window (tp_next_send t) t
     then (case select_queued (tc_aggressive_drain (tp_config t)) (tp_send_queue t) of
        None \<Rightarrow> t
      | Some (b, q) \<Rightarrow>
          let (seq, t1) = generate_sequence_number (t\<lparr>tp_send_queue := q\<rparr>);
              bp = b\<lparr>bp_seq := seq, bp_timestamp := now,
                     bp_packet := set_accept_timestamp now True (bp_packet b)\<rparr>;
              t2 = t1\<lparr>tp_send_buffer := AList.update seq bp (tp_send_buffer t1)\<rparr>;
              (sent, t3) = transmit_packet now bp t2
          in if sent then drain_send_queue now (arm_timeout now seq t3)
             else t3\<lparr>tp_send_buffer := AList.delete seq (tp_send_buffer t3)\<rparr>)
     else t)"
  by pat_completeness auto

lemma queue_kept [ue_frame]:
  "tp_send_queue (arm_timeout now seq t) = tp_send_queue t"
  "tp_send_queue (snd (transmit_packet now bp t)) = tp_send_queue t"
  by (simp_all add: arm_timeout_def transmit_packet_def Let_def split: option.split)

termination drain_send_queue
proof (relation "measure (\<lambda>(now, t). length (tp_send_queue t))", simp, clarsimp simp: generate_sequence_number_def)
  fix now t b q sent t3
  assume "select_queued (tc_aggressive_drain (tp_config t)) (tp_send_queue t) = Some (b, q)"
    and tr: "(True, t3) = transmit_packet now
      (b\<lparr>bp_seq := tp_next_send t, bp_timestamp := now, bp_packet := set_accept_timestamp now True (bp_packet b)\<rparr>)
      (t\<lparr>tp_send_queue := q, tp_next_send := tp_next_send t + 1,
         tp_send_buffer := AList.update (tp_next_send t)
           (b\<lparr>bp_seq := tp_next_send t, bp_timestamp := now, bp_packet := set_accept_timestamp now True (bp_packet b)\<rparr>)
           (tp_send_buffer t)\<rparr>)"
  then have "length q < length (tp_send_queue t)" by (intro select_queued_length)
  moreover have "tp_send_queue t3 = q" using queue_kept(2) [where t = "t\<lparr>tp_send_queue := q, tp_next_send := tp_next_send t + 1,
         tp_send_buffer := AList.update (tp_next_send t)
           (b\<lparr>bp_seq := tp_next_send t, bp_timestamp := now, bp_packet := set_accept_timestamp now True (bp_packet b)\<rparr>)
           (tp_send_buffer t)\<rparr>"]
    unfolding arg_cong [OF tr, of snd, simplified] by simp
  ultimately show "length (tp_send_queue (arm_timeout now (tp_next_send t) t3)) < length (tp_send_queue t)"
    by (simp add: ue_frame)
qed

declare drain_send_queue.simps [simp del]

definition process_send_queue :: "ns \<Rightarrow> tpdc \<Rightarrow> tpdc" where
  "process_send_queue now t = tpdc_update_statistics (drain_send_queue now t)"

section \<open>Retransmission\<close>

definition tag_job :: "packet \<Rightarrow> u64" where
  "tag_job p = (case pk_htag p of None \<Rightarrow> 0 | Some h \<Rightarrow> ucast (ht_job h))"

definition tag_destination :: "packet \<Rightarrow> u32" where
  "tag_destination p = (case pk_htag p of None \<Rightarrow> 0 | Some h \<Rightarrow> ht_dst h)"

definition tag_message :: "packet \<Rightarrow> u32" where
  "tag_message p = (case pk_meta p of None \<Rightarrow> 0 | Some m \<Rightarrow> mt_msg_id m)"

text \<open>\<open>RetransmitPacket\<close>: first the recovery marks of a READ response, then the attempt.\<close>

definition mark_recovery :: "ns \<Rightarrow> u32 \<Rightarrow> tpdc \<Rightarrow> tpdc" where
  "mark_recovery now seq t = (case map_of (tp_send_buffer t) seq of
      None \<Rightarrow> t
    | Some bp \<Rightarrow>
        if \<not> is_read_response_packet (bp_packet bp) then t
        else let p = bp_packet bp;
                 bp1 = (case map_of (tp_gap_observed t) seq of
                          None \<Rightarrow> bp
                        | Some g \<Rightarrow> bp\<lparr>bp_gap_nack_sent := Some g, bp_retransmit_tx := Some now\<rparr>)
             in tpdc_note_ses
                  [GapRetransmitTx (tag_job p) (ucast (tag_message p)) (tag_destination p) seq now,
                   TpdcReadGapRetransmitTx (tag_job p) (tag_message p) (tag_destination p) seq now]
                  (t\<lparr>tp_send_buffer := AList.update seq bp1 (tp_send_buffer t)\<rparr>))"

definition retransmit_packet :: "ns \<Rightarrow> u32 \<Rightarrow> tpdc \<Rightarrow> tpdc" where
  "retransmit_packet now seq t = (case map_of (tp_send_buffer t) seq of
      None \<Rightarrow> t
    | Some bp0 \<Rightarrow>
        if bp_acknowledged bp0 then t
        else let t1 = mark_recovery now seq t;
                 bp = the (map_of (tp_send_buffer t1) seq)
             in if tc_max_retransmissions (tp_config t1) \<le> bp_retransmissions bp
                then tpdc_handle_error PROTOCOL_ERROR t1
                else let n = bp_retransmissions bp + 1;
                         bp1 = bp\<lparr>bp_retransmissions := n, bp_last_retransmission := now\<rparr>;
                         st = (tp_stats t1)\<lparr>ts_retransmissions := ts_retransmissions (tp_stats t1) + 1\<rparr>;
                         t2 = t1\<lparr>tp_send_buffer := AList.update seq bp1 (tp_send_buffer t1),
                               tp_stats := (if n = 1
                                 then st\<lparr>ts_fast_retransmissions := ts_fast_retransmissions st + 1\<rparr> else st)\<rparr>;
                         (sent, t3) = transmit_packet now bp1 t2
                     in if sent then arm_timeout now seq t3 else t3)"

text \<open>\<open>HandleRtoTimeout\<close>, run as the timeout event of its packet, which is then no longer pending.\<close>

definition expire_timeout :: "u32 \<Rightarrow> tpdc \<Rightarrow> tpdc" where
  "expire_timeout seq t = (case map_of (tp_send_buffer t) seq of
      None \<Rightarrow> t
    | Some bp \<Rightarrow> t\<lparr>tp_send_buffer := AList.update seq (cancel_timeout bp) (tp_send_buffer t)\<rparr>)"

definition handle_rto_timeout :: "ns \<Rightarrow> u32 \<Rightarrow> tpdc \<Rightarrow> tpdc" where
  "handle_rto_timeout now seq t =
    retransmit_packet now seq (t\<lparr>tp_stats := (tp_stats t)\<lparr>ts_timeouts := ts_timeouts (tp_stats t) + 1\<rparr>\<rparr>)"

fun retransmit_all :: "ns \<Rightarrow> u32 list \<Rightarrow> tpdc \<Rightarrow> u32 \<times> tpdc" where
  "retransmit_all now [] t = (0, t)"
| "retransmit_all now (seq # seqs) t =
    (if (case map_of (tp_send_buffer t) seq of None \<Rightarrow> False | Some bp \<Rightarrow> \<not> bp_acknowledged bp)
     then let (n, t') = retransmit_all now seqs (retransmit_packet now seq t) in (n + 1, t')
     else retransmit_all now seqs t)"

definition force_retransmission :: "ns \<Rightarrow> tpdc \<Rightarrow> u32 \<times> tpdc" where
  "force_retransmission now t = retransmit_all now (map fst (tp_send_buffer t)) t"

section \<open>Acknowledgements at the sender\<close>

definition cleanup_acknowledged_packets :: "tpdc \<Rightarrow> tpdc" where
  "cleanup_acknowledged_packets t =
    (let acked = map fst (filter (\<lambda>(_, bp). bp_acknowledged bp) (tp_send_buffer t)) in
     t\<lparr>tp_gap_observed := filter (\<lambda>(k, _). k \<notin> set acked) (tp_gap_observed t),
       tp_send_buffer := filter (\<lambda>(_, bp). \<not> bp_acknowledged bp) (tp_send_buffer t)\<rparr>)"

text \<open>
  \<open>UpdateRtoEstimate\<close>. The code computes in \<open>double\<close> seconds; here the same recurrences are in
  whole nanoseconds, so the smoothed values agree up to rounding. The clamping is exact.
\<close>

definition update_rto_estimate :: "ns \<Rightarrow> tpdc \<Rightarrow> tpdc" where
  "update_rto_estimate measured t =
    (if measured = 0 then t
     else
       let t1 = (if tp_rtt t = 0 then t\<lparr>tp_rtt := measured, tp_rtt_variance := measured div 2\<rparr>
             else let e = measured - tp_rtt t in
               t\<lparr>tp_rtt := tp_rtt t + e div 8, tp_rtt_variance := (tp_rtt_variance t * 3 + \<bar>e\<bar>) div 4\<rparr>);
           rto = tp_rtt t1 + max (tp_rtt_variance t1 * 4) (tc_initial_rto (tp_config t1));
           rto1 = (if rto < tc_initial_rto (tp_config t1) then tc_initial_rto (tp_config t1) else rto);
           rto2 = (if tc_max_rto (tp_config t1) < rto1 then tc_max_rto (tp_config t1) else rto1)
       in t1\<lparr>tp_rto := rto2\<rparr>)"

text \<open>The loop of \<open>ProcessReceivedAcknowledgment\<close> over the sequence numbers from the window base
  up to the new base; \<open>n\<close> is how many remain.\<close>

fun ack_range :: "ns \<Rightarrow> nat \<Rightarrow> u32 \<Rightarrow> tpdc \<Rightarrow> bool \<times> tpdc" where
  "ack_range now 0 seq t = (False, t)"
| "ack_range now (Suc n) seq t =
    (case map_of (tp_send_buffer t) seq of
       None \<Rightarrow> ack_range now n (seq + 1) t
     | Some bp \<Rightarrow>
         if bp_acknowledged bp then ack_range now n (seq + 1) t
         else let t1 = update_rto_estimate (now - bp_timestamp bp)
                    (t\<lparr>tp_send_buffer := AList.update seq (bp\<lparr>bp_acknowledged := True\<rparr>) (tp_send_buffer t)\<rparr>);
                  (_, t2) = ack_range now n (seq + 1) t1
              in (True, t2))"

text \<open>One entry of the NACK list: note it, and retransmit.\<close>

definition observe_gap_nack :: "ns \<Rightarrow> ns option \<Rightarrow> u32 \<Rightarrow> tpdc \<Rightarrow> tpdc" where
  "observe_gap_nack now gap_time seq t = (case map_of (tp_send_buffer t) seq of
      None \<Rightarrow> t
    | Some bp \<Rightarrow>
        if bp_acknowledged bp then t
        else
          let p = bp_packet bp;
              t1 = (case gap_time of
                      None \<Rightarrow> t
                    | Some g \<Rightarrow> if map_of (tp_gap_observed t) seq = None
                                then t\<lparr>tp_gap_observed := AList.update seq g (tp_gap_observed t)\<rparr> else t);
              t2 = (if is_read_response_packet p
                    then tpdc_note_ses
                      [GapNackObservedAtSender (tag_job p) (ucast (tag_message p)) (tag_destination p) seq now,
                       TpdcReadGapNackObserved (tag_job p) (tag_message p) (tag_destination p) seq now gap_time] t1
                    else t1)
          in retransmit_packet now seq t2)"

fun observe_gap_nacks :: "ns \<Rightarrow> ns option \<Rightarrow> u32 list \<Rightarrow> tpdc \<Rightarrow> tpdc" where
  "observe_gap_nacks now gap_time [] t = t"
| "observe_gap_nacks now gap_time (n # ns) t = observe_gap_nacks now gap_time ns (observe_gap_nack now gap_time n t)"

definition process_received_acknowledgment :: "ns \<Rightarrow> acknowledgment \<Rightarrow> ns option \<Rightarrow> tpdc \<Rightarrow> bool \<times> tpdc" where
  "process_received_acknowledgment now ack gap_time t =
    (let st = tp_stats t; n = tp_totals t;
         n1 = n\<lparr>tt_rx_control := tt_rx_control n + 1, tt_ack_received := tt_ack_received n + 1,
                  tt_gap_nack_received :=
                    (if ak_nacks ack \<noteq> [] then tt_gap_nack_received n + 1 else tt_gap_nack_received n),
                  tt_last_ack := ak_seq ack\<rparr>;
         t1 = t\<lparr>tp_stats := st\<lparr>ts_acks_received := ts_acks_received st + 1\<rparr>, tp_totals := n1\<rparr>
     in if ak_seq ack + 1 < tp_send_base t1
        then (False, t1\<lparr>tp_stats := (tp_stats t1)\<lparr>ts_duplicate_acks := ts_duplicate_acks (tp_stats t1) + 1\<rparr>\<rparr>)
        else
          let new_base = max (tp_send_base t1) (ak_seq ack + 1);
              t2 = (if tp_send_base t1 < new_base
                    then t1\<lparr>tp_totals := (tp_totals t1)\<lparr>tt_ack_advances := tt_ack_advances (tp_totals t1) + 1\<rparr>\<rparr>
                    else t1);
              (advanced, t3) = ack_range now (unat (new_base - tp_send_base t2)) (tp_send_base t2) t2;
              t4 = observe_gap_nacks now gap_time (ak_nacks ack) (t3\<lparr>tp_send_base := new_base\<rparr>);
              t5 = process_send_queue now (cleanup_acknowledged_packets t4)
          in (advanced \<or> ak_nacks ack \<noteq> [], tpdc_update_statistics t5))"

section \<open>Receiving\<close>

definition schedule_acknowledgment :: "ns \<Rightarrow> bool \<Rightarrow> tpdc \<Rightarrow> tpdc" where
  "schedule_acknowledgment now immediate t =
    (if immediate then t\<lparr>tp_ack_event := Some now\<rparr>
     else case tp_ack_event t of
       None \<Rightarrow> t\<lparr>tp_ack_event := Some (now + tp_ack_interval t)\<rparr>
     | Some _ \<Rightarrow> t)"

definition prune_read_gaps :: "tpdc \<Rightarrow> tpdc" where
  "prune_read_gaps t = t\<lparr>tp_read_gaps := filter (\<lambda>(k, _). \<not> k < tp_next_receive t) (tp_read_gaps t)\<rparr>"

text \<open>The loop that takes the buffered successors: each turn removes an entry of the buffer.\<close>

lemma delete_shrinks: "map_of xs k \<noteq> None \<Longrightarrow> length (AList.delete k xs) < length xs"
proof (induction xs)
  case (Cons x xs)
  then show ?case using length_delete_le [of k xs] by (cases x) (auto split: if_splits)
qed simp

function take_in_order :: "u32 \<Rightarrow> (u32 \<times> buffered) list \<Rightarrow> u32 \<times> (u32 \<times> buffered) list" where
  "take_in_order seq buf =
    (if map_of buf seq \<noteq> None then take_in_order (seq + 1) (AList.delete seq buf) else (seq, buf))"
  by pat_completeness auto

termination take_in_order
  by (relation "measure (\<lambda>(_, buf). length buf)") (auto intro: delete_shrinks)

declare take_in_order.simps [simp del]

definition has_gap :: "tpdc \<Rightarrow> bool" where
  "has_gap t \<longleftrightarrow> tp_next_receive t \<le> tp_highest t \<and> tp_receive_buffer t \<noteq> []"

definition note_read_gap :: "ns \<Rightarrow> packet \<Rightarrow> u32 \<Rightarrow> tpdc \<Rightarrow> tpdc" where
  "note_read_gap now p seq t =
    (let missing = tp_next_receive t in
     if is_read_response_packet p \<and> map_of (tp_read_gaps t) missing = None
     then let g = \<lparr>gc_job = tag_job p, gc_msg = ucast (tag_message p),
               gc_peer = (case pk_htag p of None \<Rightarrow> pc_remote (tc_base (tp_config t)) | Some h \<Rightarrow> ht_src h),
               gc_missing = missing, gc_observed = seq, gc_detected = now\<rparr>
          in tpdc_note_ses [TpdcReadGapDetected (gc_job g) (gc_msg g) (gc_peer g) missing seq now]
               (t\<lparr>tp_read_gaps := AList.update missing g (tp_read_gaps t)\<rparr>)
     else t)"

text \<open>\<open>BufferPacketForReceiving\<close>: \<open>accept_in_order\<close> and \<open>accept_out_of_order\<close> are its two branches.\<close>

definition accept_in_order :: "tpdc \<Rightarrow> tpdc" where
  "accept_in_order t =
    (let (next, buf) = take_in_order (tp_next_receive t + 1) (tp_receive_buffer t)
     in t\<lparr>tp_next_receive := next, tp_receive_buffer := buf, tp_receive_base := next\<rparr>)"

definition accept_out_of_order :: "ns \<Rightarrow> packet \<Rightarrow> u32 \<Rightarrow> tpdc \<Rightarrow> bool \<times> tpdc" where
  "accept_out_of_order now p seq t =
    (if tc_max_receive_buffer (tp_config t) \<le> length (tp_receive_buffer t)
     then (False, tpdc_handle_error PDC_FULL
             (t\<lparr>tp_stats := (tp_stats t)\<lparr>ts_receive_overflows := ts_receive_overflows (tp_stats t) + 1\<rparr>\<rparr>))
     else if map_of (tp_receive_buffer t) seq = None
     then (True, t\<lparr>tp_receive_buffer := AList.update seq (new_buffered now p False False seq) (tp_receive_buffer t),
                   tp_stats := (tp_stats t)\<lparr>ts_out_of_order := ts_out_of_order (tp_stats t) + 1\<rparr>\<rparr>)
     else (True, t))"

definition buffer_packet_for_receiving :: "ns \<Rightarrow> packet \<Rightarrow> u32 \<Rightarrow> tpdc \<Rightarrow> bool \<times> tpdc" where
  "buffer_packet_for_receiving now p seq t =
    (let t1 = prune_read_gaps (t\<lparr>tp_totals := (tp_totals t)\<lparr>tt_rx_data := tt_rx_data (tp_totals t) + 1\<rparr>\<rparr>);
         count = (\<lambda>t. t\<lparr>tp_base := pdc_update_statistics now False p (tp_base t)\<rparr>)
     in if seq < tp_next_receive t1 then (True, schedule_acknowledgment now False (count t1))
        else if \<not> is_in_receive_window seq t1
        then (False, t1\<lparr>tp_stats := (tp_stats t1)\<lparr>ts_out_of_order := ts_out_of_order (tp_stats t1) + 1\<rparr>\<rparr>)
        else
          let t2 = count t1;
              t3 = t2\<lparr>tp_highest := max (tp_highest t2) seq\<rparr>;
              (ok, t4) = (if seq = tp_next_receive t3 then (True, accept_in_order t3)
                          else accept_out_of_order now p seq t3)
          in if \<not> ok then (False, t4)
             else
               let gap = has_gap t4;
                   t5 = t4\<lparr>tp_pending_sack := of_nat (length (tp_receive_buffer t4)),
                           tp_pending_gap_nack := (if gap then 1 else 0)\<rparr>;
                   t6 = (if gap then note_read_gap now p seq t5 else t5)
               in (True, tpdc_update_statistics (schedule_acknowledgment now gap t6)))"

section \<open>Acknowledgements at the receiver\<close>

definition create_acknowledgment :: "tpdc \<Rightarrow> acknowledgment" where
  "create_acknowledgment t =
    \<lparr>ak_seq = (if 0 < tp_next_receive t then tp_next_receive t - 1 else 0),
     ak_window = ucast (tc_receive_window (tp_config t)),
     ak_nacks = (if has_gap t then [tp_next_receive t] else []), ak_cumulative = True\<rparr>"

definition send_control_packet :: "ns \<Rightarrow> u8 \<Rightarrow> u32 \<Rightarrow> u32 \<Rightarrow> u32 \<Rightarrow> tpdc \<Rightarrow> bool \<times> tpdc" where
  "send_control_packet now flags cumulative selective gap t =
    (if \<not> tp_device t then (False, t)
     else
       let gap_set = (flags AND CTRL_GAP_NACK \<noteq> 0 \<and> gap \<noteq> 0);
           p = empty_packet\<lparr>pk_ctrl := Some \<lparr>ct_flags = flags, ct_cumulative_ack = cumulative,
                 ct_selective_ack = selective, ct_gap_nack = gap\<rparr>,
                 pk_recovery := (if gap_set then Some \<lparr>rt_gap_nack_sent = Some now, rt_retransmit_tx = None\<rparr> else None)\<rparr>;
           t1 = (case if gap_set then map_of (tp_read_gaps t) gap else None of
                   None \<Rightarrow> t
                 | Some g \<Rightarrow> tpdc_note_ses
                     [GapNackSent (gc_job g) (gc_msg g) (gc_peer g) gap now,
                      TpdcReadGapNackSent (gc_job g) (gc_msg g) (gc_peer g) gap (gc_detected g) now] t);
           p1 = add_header ((create_pds_header (tp_base t1) False False)\<lparr>ph_seq := 0, ph_reliable := True\<rparr>) p;
           t2 = t1\<lparr>tp_base := pdc_update_statistics now True p1 (tp_base t1),
                   tp_totals := (tp_totals t1)\<lparr>tt_tx_control := tt_tx_control (tp_totals t1) + 1\<rparr>\<rparr>
       in if tp_channel t2 then (True, t2\<lparr>tp_out := tp_out t2 @ [p1]\<rparr>) else (False, t2))"

definition send_acknowledgment :: "ns \<Rightarrow> acknowledgment \<Rightarrow> tpdc \<Rightarrow> bool \<times> tpdc" where
  "send_acknowledgment now ack t =
    (let sacked = map fst (tp_receive_buffer t);
         f1 = (if sacked \<noteq> [] then CTRL_ACK OR CTRL_SACK else CTRL_ACK);
         flags = (if ak_nacks ack \<noteq> [] then f1 OR CTRL_GAP_NACK else f1);
         selective = (if sacked \<noteq> [] then Min (set sacked) else 0);
         gap = (case ak_nacks ack of [] \<Rightarrow> 0 | n # _ \<Rightarrow> n);
         (ok, t1) = send_control_packet now flags (ak_seq ack) selective gap t
     in if \<not> ok then (False, t1)
        else let st = tp_stats t1 in
          (True, t1\<lparr>tp_stats := st\<lparr>ts_acks_sent := ts_acks_sent st + 1,
                      ts_cumulative_acks := (if ak_cumulative ack then ts_cumulative_acks st + 1 else ts_cumulative_acks st)\<rparr>,
                    tp_totals := (tp_totals t1)\<lparr>tt_ack_sent := tt_ack_sent (tp_totals t1) + 1\<rparr>,
                    tp_pending_sack := of_nat (length (tp_receive_buffer t1)),
                    tp_pending_gap_nack := (if ak_nacks ack = [] then 0 else 1)\<rparr>))"

text \<open>\<open>SendPendingAcknowledgments\<close>, run as the acknowledgement event.\<close>

definition send_pending_acknowledgments :: "ns \<Rightarrow> tpdc \<Rightarrow> tpdc" where
  "send_pending_acknowledgments now t =
    (let t1 = t\<lparr>tp_ack_event := None\<rparr> in snd (send_acknowledgment now (create_acknowledgment t1) t1))"

section \<open>Incoming packets\<close>

text \<open>A control packet as an acknowledgement, and its selective acknowledgement.\<close>

definition ack_of_control :: "ctrl_tag \<Rightarrow> tpdc \<Rightarrow> acknowledgment" where
  "ack_of_control c t = \<lparr>ak_seq = ct_cumulative_ack c, ak_window = ucast (tc_receive_window (tp_config t)),
     ak_nacks = (if ct_flags c AND CTRL_GAP_NACK \<noteq> 0 \<and> ct_gap_nack c \<noteq> 0 then [ct_gap_nack c] else []),
     ak_cumulative = (ct_flags c AND CTRL_ACK \<noteq> 0)\<rparr>"

definition mark_selective :: "u32 \<Rightarrow> bool \<Rightarrow> tpdc \<Rightarrow> bool \<times> tpdc" where
  "mark_selective seq handled t = (case map_of (tp_send_buffer t) seq of
      None \<Rightarrow> (handled, t)
    | Some bp \<Rightarrow> (True, t\<lparr>tp_send_buffer := AList.update seq (bp\<lparr>bp_acknowledged := True\<rparr>) (tp_send_buffer t)\<rparr>))"

definition handle_control :: "ns \<Rightarrow> ctrl_tag \<Rightarrow> ns option \<Rightarrow> tpdc \<Rightarrow> bool \<times> tpdc" where
  "handle_control now c gap_time t =
    (let (handled, t1) = process_received_acknowledgment now (ack_of_control c t) gap_time t
     in if ct_flags c AND CTRL_SACK \<noteq> 0 \<and> ct_selective_ack c \<noteq> 0
        then let (handled2, t2) = mark_selective (ct_selective_ack c) handled t1
             in (handled2, process_send_queue now (cleanup_acknowledged_packets t2))
        else (handled, t1))"

text \<open>\<open>HandleReceivedPacket\<close>. \<open>PdsManager\<close> hands over packets that carry a header; reading
  the header of a shorter packet would fail an assertion, here it is refused.\<close>

definition tpdc_handle_received :: "ns \<Rightarrow> packet option \<Rightarrow> tpdc \<Rightarrow> bool \<times> tpdc" where
  "tpdc_handle_received now po t =
    (case validate_and_record now (tpdc_validate_packet t) po (tp_base t) of
       (Some e, b) \<Rightarrow> (False, tpdc_handle_error e (t\<lparr>tp_base := b\<rparr>))
     | (None, b) \<Rightarrow>
         let p = the po; t1 = t\<lparr>tp_base := b\<rparr> in
         (case peek_header p of
            None \<Rightarrow> (False, t1)
          | Some h \<Rightarrow> (case pk_ctrl p of
              Some c \<Rightarrow> handle_control now c (Option.bind (pk_recovery p) rt_gap_nack_sent) t1
            | None \<Rightarrow> buffer_packet_for_receiving now p (ph_seq h) t1)))"

section \<open>Maintenance\<close>

definition clear_send_buffer :: "tpdc \<Rightarrow> u32 \<times> tpdc" where
  "clear_send_buffer t = (of_nat (length (tp_send_buffer t)),
     t\<lparr>tp_send_buffer := [], tp_gap_observed := [], tp_read_gaps := []\<rparr>)"

definition clear_receive_buffer :: "tpdc \<Rightarrow> u32 \<times> tpdc" where
  "clear_receive_buffer t = (of_nat (length (tp_receive_buffer t)),
     t\<lparr>tp_receive_buffer := [], tp_pending_sack := 0, tp_pending_gap_nack := 0\<rparr>)"

definition update_tpdc_configuration :: "tpdc_config \<Rightarrow> tpdc \<Rightarrow> bool \<times> tpdc" where
  "update_tpdc_configuration cfg t =
    (if pc_pdc_id (tc_base cfg) \<noteq> pc_pdc_id (tc_base (tp_config t)) then (False, t)
     else (True, t\<lparr>tp_config := cfg, tp_rto := tc_initial_rto cfg\<rparr>))"

end
