(* ===== verification/Ipdc.thy ===== *)
theory Ipdc
  imports PdcBase Wire
begin

text \<open>
  \<open>Ipdc\<close> (\<open>model/pdc/ipdc.cc\<close>): the unreliable packet delivery context, with its bounded receive
  queue, its flow-control credits and the clean-up of expired packets. Packets handed to the channel
  are appended to \<open>ip_out\<close>. Trace callbacks are not modelled.
\<close>

section \<open>State\<close>

text \<open>\<open>QueuedPacket\<close>\<close>

record queued =
  qp_packet :: packet
  qp_timestamp :: ns
  qp_som :: bool
  qp_eom :: bool
  qp_seq :: u32

text \<open>What \<open>IpdcConfig\<close> adds to \<open>PdcConfig\<close>.\<close>

record ipdc_limits =
  il_max_send :: u32
  il_max_receive :: u32
  il_send_window :: u16
  il_receive_window :: u16
  il_flow_control :: bool
  il_lifetime :: ns

record ipdc_stats =
  is_errors :: u64
  is_dropped :: u64
  is_expired :: u64
  is_flow_events :: u64
  is_average_queue_time :: ns

record ipdc =
  ip_base :: pdc_base
  ip_config :: pdc_config
  ip_limits :: ipdc_limits
  ip_next_seq :: u32
  ip_send_credits :: u16
  ip_receive_credits :: u16
  ip_flow_active :: bool
  ip_send_queue :: "queued list"
  ip_receive_queue :: "queued list"
  ip_cleanup_pending :: bool
  ip_stats :: ipdc_stats
  ip_device :: bool
  ip_channel :: bool
  ip_out :: "packet list"

definition default_limits :: ipdc_limits where
  "default_limits = \<lparr>il_max_send = 1024, il_max_receive = 1024, il_send_window = 64, il_receive_window = 64,
     il_flow_control = True, il_lifetime = 10000000000\<rparr>"

definition zero_ipdc_stats :: ipdc_stats where
  "zero_ipdc_stats = \<lparr>is_errors = 0, is_dropped = 0, is_expired = 0, is_flow_events = 0, is_average_queue_time = 0\<rparr>"

section \<open>Operations\<close>

definition schedule_queue_cleanup :: "ipdc \<Rightarrow> ipdc" where
  "schedule_queue_cleanup i = i\<lparr>ip_cleanup_pending := True\<rparr>"

text \<open>
  \<open>Initialize\<close> casts the \<open>PdcConfig\<close> it gets to \<open>IpdcConfig\<close> with \<open>static_cast\<close>, which is never checked.
  \<open>limits\<close> is what the memory behind the object holds: the fields of a real \<open>IpdcConfig\<close>, or
  anything at all when the caller passed a plain \<open>PdcConfig\<close>.
\<close>

definition ipdc_initialize :: "pdc_config \<Rightarrow> ipdc_limits \<Rightarrow> ipdc \<Rightarrow> bool \<times> ipdc" where
  "ipdc_initialize cfg limits i =
    (let (ok, b) = pdc_base_initialize cfg (ip_base i); i1 = i\<lparr>ip_base := b\<rparr> in
     if \<not> ok then (False, i1)
     else (True, schedule_queue_cleanup (i1\<lparr>ip_config := cfg, ip_limits := limits,
            ip_send_credits := il_send_window limits, ip_receive_credits := il_receive_window limits,
            ip_flow_active := False\<rparr>)))"

definition ipdc_validate_packet :: "ipdc \<Rightarrow> packet \<Rightarrow> bool" where
  "ipdc_validate_packet i p \<longleftrightarrow> pdc_validate_packet (ip_base i) p \<and> pk_size p \<le> unat (pc_max_packet (ip_config i))"

definition ipdc_handle_error :: "pds_error \<Rightarrow> ipdc \<Rightarrow> ipdc" where
  "ipdc_handle_error e i = i\<lparr>ip_stats := (ip_stats i)\<lparr>is_errors := is_errors (ip_stats i) + 1\<rparr>,
     ip_base := pdc_handle_error e (ip_base i)\<rparr>"

definition check_flow_control :: "ipdc \<Rightarrow> bool" where
  "check_flow_control i \<longleftrightarrow> \<not> il_flow_control (ip_limits i) \<or> (\<not> ip_flow_active i \<and> 0 < ip_send_credits i)"

definition ipdc_generate_sequence :: "ipdc \<Rightarrow> u32 \<times> ipdc" where
  "ipdc_generate_sequence i = (ip_next_seq i, i\<lparr>ip_next_seq := ip_next_seq i + 1\<rparr>)"

text \<open>\<open>TransmitPacket\<close>: the header comes from the configuration, not from the queued packet.\<close>

definition ipdc_transmit :: "queued \<Rightarrow> ipdc \<Rightarrow> bool \<times> ipdc" where
  "ipdc_transmit q i =
    (if \<not> ip_device i then (False, i)
     else if ip_channel i
     then (True, i\<lparr>ip_out := ip_out i @ [add_header (create_pds_header (ip_base i) (qp_som q) (qp_eom q)) (qp_packet q)]\<rparr>)
     else (False, i))"

definition transmit_now :: "ns \<Rightarrow> packet \<Rightarrow> bool \<Rightarrow> bool \<Rightarrow> ipdc \<Rightarrow> bool \<times> ipdc" where
  "transmit_now now p som eom i =
    (let (seq, i1) = ipdc_generate_sequence i;
         (ok, i2) = ipdc_transmit \<lparr>qp_packet = p, qp_timestamp = now, qp_som = som, qp_eom = eom, qp_seq = seq\<rparr> i1
     in (ok, if ok then i2\<lparr>ip_base := pdc_update_statistics now True p (ip_base i2)\<rparr> else i2))"

definition ipdc_send_packet :: "ns \<Rightarrow> packet option \<Rightarrow> bool \<Rightarrow> bool \<Rightarrow> ipdc \<Rightarrow> bool \<times> ipdc" where
  "ipdc_send_packet now po som eom i = (case po of
      None \<Rightarrow> (False, ipdc_handle_error INVALID_PACKET i)
    | Some p \<Rightarrow>
        if \<not> pb_active (ip_base i) then (False, ipdc_handle_error INVALID_PACKET i)
        else if \<not> ipdc_validate_packet i p then (False, ipdc_handle_error INVALID_PACKET i)
        else if \<not> check_flow_control i
        then (False, i\<lparr>ip_stats := (ip_stats i)\<lparr>is_flow_events := is_flow_events (ip_stats i) + 1\<rparr>\<rparr>)
        else transmit_now now p som eom i)"

definition ipdc_send_direct :: "ns \<Rightarrow> packet option \<Rightarrow> bool \<Rightarrow> bool \<Rightarrow> ipdc \<Rightarrow> bool \<times> ipdc" where
  "ipdc_send_direct now po som eom i = (case po of
      None \<Rightarrow> (False, i)
    | Some p \<Rightarrow> if \<not> pb_active (ip_base i) then (False, i) else transmit_now now p som eom i)"

text \<open>\<open>EnqueuePacket\<close> on a queue: a full queue drops its oldest packet when flow control is enabled,
  otherwise the new one. A sequence number is taken for an accepted packet.\<close>

definition count_drop :: "ipdc \<Rightarrow> ipdc" where
  "count_drop i = i\<lparr>ip_stats := (ip_stats i)\<lparr>is_dropped := is_dropped (ip_stats i) + 1\<rparr>\<rparr>"

definition enqueue_packet :: "ns \<Rightarrow> queued list \<Rightarrow> packet \<Rightarrow> bool \<Rightarrow> bool \<Rightarrow> u32 \<Rightarrow> ipdc \<Rightarrow> bool \<times> queued list \<times> ipdc" where
  "enqueue_packet now q p som eom max_size i =
    (let full = (unat max_size \<le> length q);
         push = (\<lambda>q i. let (seq, i1) = ipdc_generate_sequence i in
           (True, q @ [\<lparr>qp_packet = p, qp_timestamp = now, qp_som = som, qp_eom = eom, qp_seq = seq\<rparr>], i1))
     in if \<not> full then push q i
        else if il_flow_control (ip_limits i) then push (tl q) (count_drop i)
        else (False, q, count_drop i))"

definition ipdc_handle_received :: "ns \<Rightarrow> packet option \<Rightarrow> ipdc \<Rightarrow> bool \<times> ipdc" where
  "ipdc_handle_received now po i =
    (if po = None \<or> \<not> pb_active (ip_base i) then (False, ipdc_handle_error INVALID_PACKET i)
     else (case validate_and_record now (ipdc_validate_packet i) po (ip_base i) of
        (Some e, b) \<Rightarrow> (False, ipdc_handle_error e (i\<lparr>ip_base := b\<rparr>))
      | (None, b) \<Rightarrow>
          let i1 = i\<lparr>ip_base := b\<rparr>; p = the po in
          if \<not> ipdc_validate_packet i1 p then (False, ipdc_handle_error INVALID_PACKET i1)
          else if il_max_receive (ip_limits i1) = 0 then (False, i1)
          else let (ok, q, i2) = enqueue_packet now (ip_receive_queue i1) p False False (il_max_receive (ip_limits i1)) i1
               in (ok, i2\<lparr>ip_receive_queue := q\<rparr>)))"

definition note_queue_time :: "ns \<Rightarrow> queued \<Rightarrow> ipdc \<Rightarrow> ipdc" where
  "note_queue_time now q i = i\<lparr>ip_stats := (ip_stats i)\<lparr>is_average_queue_time :=
     (is_average_queue_time (ip_stats i) + (now - qp_timestamp q)) div 2\<rparr>\<rparr>"

text \<open>\<open>ProcessSendQueue\<close>, \<open>ProcessReceiveQueue\<close>: each turn takes the head of the queue.\<close>

function ipdc_process_send_queue :: "ns \<Rightarrow> ipdc \<Rightarrow> ipdc" where
  "ipdc_process_send_queue now i = (case ip_send_queue i of
      [] \<Rightarrow> i
    | q # qs \<Rightarrow>
        if \<not> check_flow_control i then i
        else let i1 = note_queue_time now q (i\<lparr>ip_send_queue := qs\<rparr>);
                 (ok, i2) = ipdc_transmit q i1
             in ipdc_process_send_queue now
                  (if ok then i2\<lparr>ip_base := pdc_update_statistics now True (qp_packet q) (ip_base i2),
                                 ip_send_credits := ip_send_credits i2 - 1\<rparr>
                   else ipdc_handle_error PROTOCOL_ERROR i2))"
  by pat_completeness auto

lemma send_queue_transmit: "ip_send_queue (snd (ipdc_transmit q i)) = ip_send_queue i"
  by (simp add: ipdc_transmit_def)

termination ipdc_process_send_queue
proof (relation "measure (\<lambda>(now, i). length (ip_send_queue i))", simp, clarsimp)
  fix now i q qs ok i2
  assume "ip_send_queue i = q # qs" "(ok, i2) = ipdc_transmit q (note_queue_time now q (i\<lparr>ip_send_queue := qs\<rparr>))"
  then have "ip_send_queue i2 = qs"
    using send_queue_transmit [of q "note_queue_time now q (i\<lparr>ip_send_queue := qs\<rparr>)"]
    by (metis ipdc.select_convs(8) ipdc.surjective ipdc.update_convs(8) ipdc.update_convs(11) note_queue_time_def snd_conv)
  then show "(ok \<longrightarrow> length (ip_send_queue i2) < Suc (length qs)) \<and>
      (\<not> ok \<longrightarrow> length (ip_send_queue (ipdc_handle_error PROTOCOL_ERROR i2)) < Suc (length qs))"
    by (simp add: ipdc_handle_error_def)
qed

declare ipdc_process_send_queue.simps [simp del]

definition update_flow_control :: "ipdc \<Rightarrow> ipdc" where
  "update_flow_control i =
    (let active = (ip_send_credits i < il_send_window (ip_limits i) div 4);
         i1 = (if active \<noteq> ip_flow_active i
               then i\<lparr>ip_flow_active := active,
                      ip_stats := (ip_stats i)\<lparr>is_flow_events := is_flow_events (ip_stats i) + 1\<rparr>\<rparr>
               else i)
     in if \<not> active \<and> ip_send_credits i1 < il_send_window (ip_limits i1)
        then i1\<lparr>ip_send_credits := ip_send_credits i1 + 1\<rparr> else i1)"

fun receive_all :: "ns \<Rightarrow> queued list \<Rightarrow> ipdc \<Rightarrow> ipdc" where
  "receive_all now [] i = i"
| "receive_all now (q # qs) i =
    (let i1 = note_queue_time now q i;
         i2 = i1\<lparr>ip_base := pdc_update_statistics now False (qp_packet q) (ip_base i1)\<rparr>
     in receive_all now qs
          (if ip_receive_credits i2 < il_receive_window (ip_limits i2)
           then i2\<lparr>ip_receive_credits := ip_receive_credits i2 + 1\<rparr> else i2))"

definition ipdc_process_receive_queue :: "ns \<Rightarrow> ipdc \<Rightarrow> ipdc" where
  "ipdc_process_receive_queue now i =
    update_flow_control (receive_all now (ip_receive_queue i) (i\<lparr>ip_receive_queue := []\<rparr>))"

text \<open>\<open>CleanupExpiredPackets\<close>, run as its event, which is then no longer pending.\<close>

definition cleanup_expired_packets :: "ns \<Rightarrow> ipdc \<Rightarrow> ipdc" where
  "cleanup_expired_packets now i =
    (let young = (\<lambda>q. now - qp_timestamp q < il_lifetime (ip_limits i));
         gone = length (filter (\<lambda>q. \<not> young q) (ip_send_queue i)) + length (filter (\<lambda>q. \<not> young q) (ip_receive_queue i))
     in i\<lparr>ip_send_queue := filter young (ip_send_queue i), ip_receive_queue := filter young (ip_receive_queue i),
          ip_stats := (ip_stats i)\<lparr>is_expired := is_expired (ip_stats i) + of_nat gone\<rparr>,
          ip_cleanup_pending := False\<rparr>)"

definition update_ipdc_configuration :: "pdc_config \<Rightarrow> ipdc_limits \<Rightarrow> ipdc \<Rightarrow> bool \<times> ipdc" where
  "update_ipdc_configuration cfg limits i =
    (if pc_pdc_id cfg \<noteq> pc_pdc_id (ip_config i) then (False, i)
     else (True, i\<lparr>ip_config := cfg, ip_limits := limits,
            ip_send_credits := min (ip_send_credits i) (il_send_window limits),
            ip_receive_credits := min (ip_receive_credits i) (il_receive_window limits)\<rparr>))"

definition clear_send_queue :: "ipdc \<Rightarrow> u32 \<times> ipdc" where
  "clear_send_queue i = (of_nat (length (ip_send_queue i)), i\<lparr>ip_send_queue := []\<rparr>)"

definition clear_receive_queue :: "ipdc \<Rightarrow> u32 \<times> ipdc" where
  "clear_receive_queue i = (of_nat (length (ip_receive_queue i)), i\<lparr>ip_receive_queue := []\<rparr>)"

definition handle_packet_delivery :: "ns \<Rightarrow> packet \<Rightarrow> bool \<Rightarrow> ipdc \<Rightarrow> ipdc" where
  "handle_packet_delivery now p ok i =
    (if ok then i\<lparr>ip_base := pdc_update_statistics now True p (ip_base i)\<rparr>
     else ipdc_handle_error PROTOCOL_ERROR (count_drop i))"

definition set_flow_control_enabled :: "bool \<Rightarrow> ipdc \<Rightarrow> ipdc" where
  "set_flow_control_enabled b i = i\<lparr>ip_limits := (ip_limits i)\<lparr>il_flow_control := b\<rparr>\<rparr>"

definition set_packet_lifetime :: "ns \<Rightarrow> ipdc \<Rightarrow> ipdc" where
  "set_packet_lifetime t i = i\<lparr>ip_limits := (ip_limits i)\<lparr>il_lifetime := t\<rparr>\<rparr>"

text \<open>\<open>ConvertFepToAddress\<close>: the six bytes of a MAC address.\<close>

definition convert_fep_to_address :: "u32 \<Rightarrow> u8 list" where
  "convert_fep_to_address fep =
    [0x02, 0x00, 0x5E, ucast (drop_bit 24 fep), ucast (drop_bit 16 fep), ucast (drop_bit 8 fep)]"

end
