(* ===== verification/PdcFrames.thy ===== *)
theory PdcFrames
  imports Tpdc Ipdc
begin

text \<open>
  What no packet changes about a packet delivery context: its configuration, whether it is active,
  its device and channel. The contract that \<open>PdsManager\<close> relies on when it calls a context through
  \<open>PdcBase\<close> is the locale \<open>delivery_context\<close>; TPDC and IPDC interpret it.
\<close>

section \<open>Identity of a base\<close>

definition base_identity :: "pdc_base \<Rightarrow> pdc_config \<times> bool" where
  "base_identity b = (pb_config b, pb_active b)"

lemma base_identity_frame [simp]:
  "base_identity (pdc_update_statistics now s p b) = base_identity b"
  "base_identity (pdc_handle_error e b) = base_identity b"
  "base_identity (record_packet_entry now p b) = base_identity b"
  by (simp_all add: base_identity_def pdc_update_statistics_def pdc_handle_error_def record_packet_entry_def
      cleanup_expired_timestamps_def Let_def)

lemma base_identity_validate: "base_identity (snd (validate_and_record now v po b)) = base_identity b"
  by (simp add: validate_and_record_def split: option.split)

section \<open>Identity of a TPDC\<close>

definition tpdc_identity :: "tpdc \<Rightarrow> (pdc_config \<times> bool) \<times> tpdc_config \<times> bool \<times> bool" where
  "tpdc_identity t = (base_identity (tp_base t), tp_config t, tp_device t, tp_channel t)"

lemma tpdc_identity_frame [simp]:
  "tpdc_identity (tpdc_handle_error e t) = tpdc_identity t"
  "tpdc_identity (tpdc_update_statistics t) = tpdc_identity t"
  "tpdc_identity (tpdc_note_ses ns t) = tpdc_identity t"
  "tpdc_identity (arm_timeout now seq t) = tpdc_identity t"
  "tpdc_identity (snd (transmit_packet now bp t)) = tpdc_identity t"
  "tpdc_identity (mark_recovery now seq t) = tpdc_identity t"
  "tpdc_identity (cleanup_acknowledged_packets t) = tpdc_identity t"
  "tpdc_identity (update_rto_estimate m t) = tpdc_identity t"
  "tpdc_identity (schedule_acknowledgment now i t) = tpdc_identity t"
  "tpdc_identity (prune_read_gaps t) = tpdc_identity t"
  "tpdc_identity (note_read_gap now p seq t) = tpdc_identity t"
  "tpdc_identity (accept_in_order t) = tpdc_identity t"
  "tpdc_identity (snd (accept_out_of_order now p seq t)) = tpdc_identity t"
  "tpdc_identity (snd (mark_selective seq h t)) = tpdc_identity t"
  by (simp_all add: tpdc_identity_def tpdc_handle_error_def tpdc_update_statistics_def tpdc_note_ses_def arm_timeout_def
      transmit_packet_def mark_recovery_def cleanup_acknowledged_packets_def update_rto_estimate_def
      schedule_acknowledgment_def prune_read_gaps_def note_read_gap_def accept_in_order_def accept_out_of_order_def
      mark_selective_def Let_def case_prod_beta split: option.split)

lemma tpdc_identity_fields [simp]:
  "tpdc_identity (t\<lparr>tp_next_send := n\<rparr>) = tpdc_identity t"
  "tpdc_identity (t\<lparr>tp_send_buffer := b\<rparr>) = tpdc_identity t"
  "tpdc_identity (t\<lparr>tp_send_queue := q\<rparr>) = tpdc_identity t"
  "tpdc_identity (t\<lparr>tp_stats := st\<rparr>) = tpdc_identity t"
  "tpdc_identity (t\<lparr>tp_totals := tt\<rparr>) = tpdc_identity t"
  "tpdc_identity (t\<lparr>tp_gap_observed := g\<rparr>) = tpdc_identity t"
  "tpdc_identity (t\<lparr>tp_send_base := n\<rparr>) = tpdc_identity t"
  "tpdc_identity (t\<lparr>tp_highest := n\<rparr>) = tpdc_identity t"
  "tpdc_identity (t\<lparr>tp_pending_sack := n\<rparr>) = tpdc_identity t"
  "tpdc_identity (t\<lparr>tp_pending_gap_nack := n\<rparr>) = tpdc_identity t"
  "tpdc_identity (t\<lparr>tp_base := pdc_update_statistics now s p (tp_base t)\<rparr>) = tpdc_identity t"
  by (simp_all add: tpdc_identity_def)

lemma tpdc_identity_drain: "tpdc_identity (drain_send_queue now t) = tpdc_identity t"
proof (induction now t rule: drain_send_queue.induct)
  case (1 now t)
  show ?case
  proof (cases "is_in_send_window (tp_next_send t) t \<and>
      select_queued (tc_aggressive_drain (tp_config t)) (tp_send_queue t) \<noteq> None")
    case False
    then show ?thesis by (subst drain_send_queue.simps) (auto split: option.split)
  next
    case True
    then obtain b q where sel: "select_queued (tc_aggressive_drain (tp_config t)) (tp_send_queue t) = Some (b, q)"
      and win: "is_in_send_window (tp_next_send t) t" by auto
    define bp where "bp = b\<lparr>bp_seq := tp_next_send t, bp_timestamp := now,
      bp_packet := set_accept_timestamp now True (bp_packet b)\<rparr>"
    define t2 where "t2 = t\<lparr>tp_send_queue := q, tp_next_send := tp_next_send t + 1,
      tp_send_buffer := AList.update (tp_next_send t) bp (tp_send_buffer t)\<rparr>"
    obtain sent t3 where tr: "transmit_packet now bp t2 = (sent, t3)" by (metis surj_pair)
    have t3: "tpdc_identity t3 = tpdc_identity t"
      using tpdc_identity_frame(5) [of now bp t2] unfolding tr by (simp add: t2_def)
    have step: "drain_send_queue now t = (if sent then drain_send_queue now (arm_timeout now (tp_next_send t) t3)
        else t3\<lparr>tp_send_buffer := AList.delete (tp_next_send t) (tp_send_buffer t3)\<rparr>)"
      using sel win tr by (subst drain_send_queue.simps) (simp add: generate_sequence_number_def bp_def t2_def)
    have "tpdc_identity (drain_send_queue now (arm_timeout now (tp_next_send t) t3)) = tpdc_identity t" if sent
      using 1 [OF win sel] tr that t3 by (auto simp: generate_sequence_number_def bp_def t2_def)
    then show ?thesis using t3 by (simp add: step)
  qed
qed

lemma tpdc_identity_process [simp]: "tpdc_identity (process_send_queue now t) = tpdc_identity t"
  by (simp add: process_send_queue_def tpdc_identity_drain)

lemma tpdc_identity_retransmit [simp]: "tpdc_identity (retransmit_packet now seq t) = tpdc_identity t"
  by (simp add: retransmit_packet_def Let_def case_prod_beta split: option.split)

lemma tpdc_identity_ack_range [simp]: "tpdc_identity (snd (ack_range now n seq t)) = tpdc_identity t"
  by (induction now n seq t rule: ack_range.induct) (simp_all add: Let_def case_prod_beta split: option.split)

lemma tpdc_identity_nack [simp]: "tpdc_identity (observe_gap_nack now g seq t) = tpdc_identity t"
  by (simp add: observe_gap_nack_def Let_def split: option.split)

lemma tpdc_identity_nacks [simp]: "tpdc_identity (observe_gap_nacks now g ns t) = tpdc_identity t"
  by (induction now g ns t rule: observe_gap_nacks.induct) simp_all

lemma tpdc_identity_ack [simp]: "tpdc_identity (snd (process_received_acknowledgment now ack g t)) = tpdc_identity t"
  by (simp add: process_received_acknowledgment_def Let_def case_prod_beta)

lemma tpdc_identity_control [simp]: "tpdc_identity (snd (handle_control now c g t)) = tpdc_identity t"
  by (simp add: handle_control_def Let_def case_prod_beta)

lemma tpdc_identity_send: "tpdc_identity (snd (tpdc_send_packet now po som eom t)) = tpdc_identity t"
  by (simp add: tpdc_send_packet_def buffer_packet_for_sending_def generate_sequence_number_def Let_def case_prod_beta
      split: option.split)

lemma tpdc_identity_buffer [simp]: "tpdc_identity (snd (buffer_packet_for_receiving now p seq t)) = tpdc_identity t"
  by (simp add: buffer_packet_for_receiving_def Let_def case_prod_beta)

lemma tpdc_identity_receive: "tpdc_identity (snd (tpdc_handle_received now po t)) = tpdc_identity t"
proof (cases "validate_and_record now (tpdc_validate_packet t) po (tp_base t)")
  case (Pair e b)
  then have "base_identity b = base_identity (tp_base t)" by (metis base_identity_validate snd_conv)
  then have "tpdc_identity (t\<lparr>tp_base := b\<rparr>) = tpdc_identity t" by (simp add: tpdc_identity_def)
  then show ?thesis using Pair by (simp add: tpdc_handle_received_def Let_def split: option.split)
qed

section \<open>Identity of an IPDC\<close>

definition ipdc_identity :: "ipdc \<Rightarrow> (pdc_config \<times> bool) \<times> pdc_config \<times> ipdc_limits \<times> bool \<times> bool" where
  "ipdc_identity i = (base_identity (ip_base i), ip_config i, ip_limits i, ip_device i, ip_channel i)"

lemma ipdc_identity_frame [simp]:
  "ipdc_identity (ipdc_handle_error e i) = ipdc_identity i"
  "ipdc_identity (snd (ipdc_transmit q i)) = ipdc_identity i"
  "ipdc_identity (snd (transmit_now now p som eom i)) = ipdc_identity i"
  "ipdc_identity (i\<lparr>ip_stats := st\<rparr>) = ipdc_identity i"
  "ipdc_identity (i\<lparr>ip_receive_queue := q'\<rparr>) = ipdc_identity i"
  by (simp_all add: ipdc_identity_def ipdc_handle_error_def ipdc_transmit_def transmit_now_def
      ipdc_generate_sequence_def Let_def case_prod_beta)

lemma ipdc_identity_enqueue [simp]: "ipdc_identity (snd (snd (enqueue_packet now q p som eom n i))) = ipdc_identity i"
  by (simp add: enqueue_packet_def ipdc_identity_def ipdc_generate_sequence_def count_drop_def Let_def)

lemma ipdc_identity_send: "ipdc_identity (snd (ipdc_send_packet now po som eom i)) = ipdc_identity i"
  by (simp add: ipdc_send_packet_def split: option.split)

lemma ipdc_identity_receive: "ipdc_identity (snd (ipdc_handle_received now po i)) = ipdc_identity i"
proof (cases "validate_and_record now (ipdc_validate_packet i) po (ip_base i)")
  case (Pair e b)
  then have "base_identity b = base_identity (ip_base i)" by (metis base_identity_validate snd_conv)
  then have "ipdc_identity (i\<lparr>ip_base := b\<rparr>) = ipdc_identity i" by (simp add: ipdc_identity_def)
  then show ?thesis using Pair
    by (simp add: ipdc_handle_received_def Let_def case_prod_beta split: option.split)
qed

section \<open>The contract of a delivery context\<close>

text \<open>
  \<open>send\<close> and \<open>receive\<close> are the virtual \<open>SendPacket\<close> and \<open>HandleReceivedPacket\<close>: they keep the
  identity of the context, and refuse everything while it is not active.
\<close>

locale delivery_context =
  fixes base :: "'p \<Rightarrow> pdc_base"
    and send :: "ns \<Rightarrow> packet option \<Rightarrow> bool \<Rightarrow> bool \<Rightarrow> 'p \<Rightarrow> bool \<times> 'p"
    and receive :: "ns \<Rightarrow> packet option \<Rightarrow> 'p \<Rightarrow> bool \<times> 'p"
  assumes send_identity: "base_identity (base (snd (send now po som eom x))) = base_identity (base x)"
    and receive_identity: "base_identity (base (snd (receive now po x))) = base_identity (base x)"
    and inactive_refuses: "\<not> pb_active (base x) \<Longrightarrow> \<not> fst (send now po som eom x) \<and> \<not> fst (receive now po x)"
    and null_refused: "\<not> fst (send now None som eom x) \<and> \<not> fst (receive now None x)"

context delivery_context
begin

text \<open>A script of sends and receives.\<close>

lemma script_identity:
  "base_identity (base (fold (\<lambda>(out, now, po) x. if out then snd (send now po True True x) else snd (receive now po x)) ops x)) =
   base_identity (base x)"
  by (induction ops arbitrary: x) (auto simp: send_identity receive_identity)

lemma accepted_active: "fst (send now po som eom x) \<Longrightarrow> pb_active (base x) \<and> po \<noteq> None"
  using inactive_refuses null_refused by (cases po) blast+

end

interpretation tpdc_context: delivery_context tp_base tpdc_send_packet tpdc_handle_received
proof
  fix now po som eom and t :: tpdc
  show "base_identity (tp_base (snd (tpdc_send_packet now po som eom t))) = base_identity (tp_base t)"
    using tpdc_identity_send [of now po som eom t] by (simp add: tpdc_identity_def)
  show "base_identity (tp_base (snd (tpdc_handle_received now po t))) = base_identity (tp_base t)"
    using tpdc_identity_receive [of now po t] by (simp add: tpdc_identity_def)
  show "\<not> fst (tpdc_send_packet now None som eom t) \<and> \<not> fst (tpdc_handle_received now None t)"
    by (simp add: tpdc_send_packet_def tpdc_handle_received_def validate_and_record_def)
  show "\<not> fst (tpdc_send_packet now po som eom t) \<and> \<not> fst (tpdc_handle_received now po t)" if "\<not> pb_active (tp_base t)"
    using that by (simp add: tpdc_send_packet_def tpdc_handle_received_def validate_and_record_def split: option.split)
qed

interpretation ipdc_context: delivery_context ip_base ipdc_send_packet ipdc_handle_received
proof
  fix now po som eom and i :: ipdc
  show "base_identity (ip_base (snd (ipdc_send_packet now po som eom i))) = base_identity (ip_base i)"
    using ipdc_identity_send [of now po som eom i] by (simp add: ipdc_identity_def)
  show "base_identity (ip_base (snd (ipdc_handle_received now po i))) = base_identity (ip_base i)"
    using ipdc_identity_receive [of now po i] by (simp add: ipdc_identity_def)
  show "\<not> fst (ipdc_send_packet now None som eom i) \<and> \<not> fst (ipdc_handle_received now None i)"
    by (simp add: ipdc_send_packet_def ipdc_handle_received_def)
  show "\<not> fst (ipdc_send_packet now po som eom i) \<and> \<not> fst (ipdc_handle_received now po i)" if "\<not> pb_active (ip_base i)"
    using that by (simp add: ipdc_send_packet_def ipdc_handle_received_def split: option.split)
qed

end
