(* ===== verification/OpMetadata.thy ===== *)
theory OpMetadata
  imports Transport
begin

text \<open>
  \<open>OperationMetadata\<close> (\<open>model/common/transport-layer.h\<close>), its extension
  \<open>ExtendedOperationMetadata\<close> (\<open>model/ses/operation-metadata.cc\<close>), and the metadata tag that
  a packet of the operation carries.
\<close>

record op_metadata =
  om_op :: op_type
  om_delivery_mode :: u8
  om_rkey :: u64
  om_idempotent_safe :: bool
  om_start_addr :: u64
  om_length :: u64
  om_imm_data :: u64
  om_s_pid :: u32
  om_t_pid :: u32
  om_job_id :: u32
  om_res_index :: u16
  om_messages_id :: u32
  om_relative :: bool
  om_optimized :: bool
  om_has_imm :: bool
  om_som :: bool
  om_eom :: bool
  om_expect_response :: bool
  om_is_retry :: bool

definition default_metadata :: op_metadata where
  "default_metadata = \<lparr>om_op = SEND, om_delivery_mode = 0, om_rkey = 0, om_idempotent_safe = False,
     om_start_addr = 0, om_length = 0, om_imm_data = 0, om_s_pid = 0, om_t_pid = 0, om_job_id = 0,
     om_res_index = 0, om_messages_id = 0, om_relative = False, om_optimized = False, om_has_imm = False,
     om_som = True, om_eom = True, om_expect_response = True, om_is_retry = False\<rparr>"

text \<open>\<open>ExtendedOperationMetadata\<close>\<close>

record ext_metadata = op_metadata +
  em_src_node :: u32
  em_src_endpoint :: u16
  em_dst_node :: u32
  em_dst_endpoint :: u16

definition set_source_endpoint :: "u32 \<Rightarrow> u16 \<Rightarrow> ext_metadata \<Rightarrow> ext_metadata" where
  "set_source_endpoint node ep m = m\<lparr>em_src_node := node, em_src_endpoint := ep\<rparr>"

definition set_destination_endpoint :: "u32 \<Rightarrow> u16 \<Rightarrow> ext_metadata \<Rightarrow> ext_metadata" where
  "set_destination_endpoint node ep m = m\<lparr>em_dst_node := node, em_dst_endpoint := ep\<rparr>"

definition ext_metadata_valid :: "ext_metadata \<Rightarrow> bool" where
  "ext_metadata_valid m \<longleftrightarrow> (0 < em_src_node m \<or> 0 < em_dst_node m) \<and> (0 < em_src_endpoint m \<or> 0 < em_dst_endpoint m)"

text \<open>The length is a \<open>size_t\<close>, cut to 32 bits before it is divided.\<close>

definition calculate_packet_count :: "u32 \<Rightarrow> 'a op_metadata_scheme \<Rightarrow> u32" where
  "calculate_packet_count capacity m =
    (let len = ucast (om_length m) :: u32 in
     if len = 0 then 1 else if capacity = 0 then 1 else (len + capacity - 1) div capacity)"

definition requires_fragmentation :: "u32 \<Rightarrow> 'a op_metadata_scheme \<Rightarrow> bool" where
  "requires_fragmentation capacity m \<longleftrightarrow> 1 < calculate_packet_count capacity m"

text \<open>The tag that \<open>SoftUeMetadataTag (const OperationMetadata&)\<close> builds.\<close>

definition metadata_tag :: "'a op_metadata_scheme \<Rightarrow> meta_tag" where
  "metadata_tag m = \<lparr>mt_op = om_op m, mt_msg_id = om_messages_id m, mt_res_index = om_res_index m,
     mt_reliable = (om_delivery_mode m = 0), mt_request_length = ucast (om_length m), mt_fragment_offset = 0,
     mt_remote_address = (if om_op m = READ then om_imm_data m else om_start_addr m),
     mt_remote_key = om_rkey m, mt_flags = (if om_is_retry m then METADATA_RETRY else 0),
     mt_response_opcode = 0, mt_return_code = 0, mt_modified_length = 0\<rparr>"

lemma validity_endpoints:
  "ext_metadata_valid (set_source_endpoint n e (set_destination_endpoint n' e' m)) \<longleftrightarrow>
     (0 < n \<or> 0 < n') \<and> (0 < e \<or> 0 < e')"
  by (simp add: ext_metadata_valid_def set_source_endpoint_def set_destination_endpoint_def)

end
