(* ===== verification/TagCodec.thy ===== *)
theory TagCodec
  imports Wire OpMetadata
begin

text \<open>
  \<open>Serialize\<close> and \<open>Deserialize\<close> of the packet tags (\<open>model/common/soft-ue-packet-tag.cc\<close>), each an
  interpretation of \<open>wire_codec\<close>, and the flag bits of the metadata tag. A \<open>Time\<close> goes over the
  wire as its signed 64-bit count of nanoseconds.
\<close>

section \<open>Times\<close>

definition time_max :: ns where "time_max = 2 ^ 63 - 1"

definition time_valid :: "ns \<Rightarrow> bool" where "time_valid t \<longleftrightarrow> - (2 ^ 63) \<le> t \<and> t < 2 ^ 63"

definition write_time :: "ns \<Rightarrow> u8 list" where "write_time t = write_u64 (word_of_int t)"

definition read_time :: "ns reader" where
  "read_time bs = do { (w, bs) \<leftarrow> read_u64 bs; Some (sint w, bs) }"

text \<open>\<open>None\<close> is \<open>Time::Max ()\<close>.\<close>

definition opt_time_valid :: "ns option \<Rightarrow> bool" where
  "opt_time_valid t = (case t of None \<Rightarrow> True | Some x \<Rightarrow> time_valid x \<and> x \<noteq> time_max)"

definition write_opt_time :: "ns option \<Rightarrow> u8 list" where
  "write_opt_time t = write_time (case t of None \<Rightarrow> time_max | Some x \<Rightarrow> x)"

definition read_opt_time :: "ns option reader" where
  "read_opt_time bs = do { (t, bs) \<leftarrow> read_time bs; Some (if t = time_max then None else Some t, bs) }"

definition write_bool :: "bool \<Rightarrow> u8 list" where "write_bool b = write_u8 (if b then 1 else 0)"

definition read_bool :: "bool reader" where
  "read_bool bs = do { (b, bs) \<leftarrow> read_u8 bs; Some (b \<noteq> 0, bs) }"

lemma read_write_time [wire_rt]: "time_valid t \<Longrightarrow> read_time (write_time t @ bs) = Some (t, bs)"
  by (simp add: read_time_def write_time_def wire_rt time_valid_def signed_of_int signed_take_bit_int_eq_self)

lemma time_max_valid: "time_valid time_max"
  by (simp add: time_valid_def time_max_def)

lemma read_write_opt_time [wire_rt]: "opt_time_valid t \<Longrightarrow> read_opt_time (write_opt_time t @ bs) = Some (t, bs)"
  by (cases t) (simp_all add: read_opt_time_def write_opt_time_def opt_time_valid_def wire_rt time_max_valid)

lemma read_write_bool [wire_rt]: "read_bool (write_bool b @ bs) = Some (b, bs)"
  by (simp add: read_bool_def write_bool_def wire_rt)

lemma time_len [wire_len]: "length (write_time t) = 8" "length (write_opt_time o') = 8" "length (write_bool b) = 1"
  by (simp_all add: write_time_def write_opt_time_def write_bool_def wire_len)

lemma read_time_len: "read_time bs = Some (x, r) \<Longrightarrow> length bs = 8 + length r"
  by (auto simp: read_time_def bind_eq_Some_conv dest!: read_u64_len)

lemma read_opt_time_len: "read_opt_time bs = Some (x, r) \<Longrightarrow> length bs = 8 + length r"
  by (auto simp: read_opt_time_def bind_eq_Some_conv dest!: read_time_len)

lemma read_bool_len: "read_bool bs = Some (x, r) \<Longrightarrow> length bs = 1 + length r"
  by (auto simp: read_bool_def bind_eq_Some_conv dest!: read_u8_len)

lemmas tag_lens = read_lens read_time_len read_opt_time_len read_bool_len

section \<open>The tags\<close>

text \<open>\<open>SoftUeHeaderTag\<close>\<close>

definition header_tag_serialize :: "header_tag \<Rightarrow> u8 list" where
  "header_tag_serialize h = write_u8 (pds_type_to_u8 (ht_pds_type h)) @ write_u16 (ht_pdc_id h) @
     write_u32 (ht_psn h) @ write_u32 (ht_src h) @ write_u32 (ht_dst h) @ write_u32 (ht_job h)"

definition header_tag_deserialize :: "header_tag reader" where
  "header_tag_deserialize bs = do {
     (ty, bs) \<leftarrow> read_u8 bs;
     (pdc, bs) \<leftarrow> read_u16 bs;
     (psn, bs) \<leftarrow> read_u32 bs;
     (src, bs) \<leftarrow> read_u32 bs;
     (dst, bs) \<leftarrow> read_u32 bs;
     (job, bs) \<leftarrow> read_u32 bs;
     Some (\<lparr>ht_pds_type = pds_type_of_u8 ty, ht_pdc_id = pdc, ht_psn = psn, ht_src = src, ht_dst = dst,
            ht_job = job\<rparr>, bs) }"

definition header_tag_size :: nat where "header_tag_size = 1 + 2 + 4 * 4"

text \<open>\<open>SoftUeMetadataTag\<close>: the operation type is written as 32 bits and cast back to a byte.\<close>

definition meta_tag_serialize :: "meta_tag \<Rightarrow> u8 list" where
  "meta_tag_serialize m = write_u32 (ucast (op_type_to_u8 (mt_op m))) @ write_u32 (mt_msg_id m) @
     write_u16 (mt_res_index m) @ write_bool (mt_reliable m) @ write_u32 (mt_request_length m) @
     write_u32 (mt_fragment_offset m) @ write_u64 (mt_remote_address m) @ write_u64 (mt_remote_key m) @
     write_u8 (mt_flags m) @ write_u8 (mt_response_opcode m) @ write_u8 (mt_return_code m) @
     write_u32 (mt_modified_length m)"

definition meta_tag_deserialize :: "meta_tag reader" where
  "meta_tag_deserialize bs = do {
     (ty, bs) \<leftarrow> read_u32 bs;
     (msg, bs) \<leftarrow> read_u32 bs;
     (res, bs) \<leftarrow> read_u16 bs;
     (rel, bs) \<leftarrow> read_bool bs;
     (len, bs) \<leftarrow> read_u32 bs;
     (off, bs) \<leftarrow> read_u32 bs;
     (addr, bs) \<leftarrow> read_u64 bs;
     (rkey, bs) \<leftarrow> read_u64 bs;
     (flags, bs) \<leftarrow> read_u8 bs;
     (opc, bs) \<leftarrow> read_u8 bs;
     (rc, bs) \<leftarrow> read_u8 bs;
     (ml, bs) \<leftarrow> read_u32 bs;
     Some (\<lparr>mt_op = op_type_of_u8 (ucast ty), mt_msg_id = msg, mt_res_index = res, mt_reliable = rel,
            mt_request_length = len, mt_fragment_offset = off, mt_remote_address = addr, mt_remote_key = rkey,
            mt_flags = flags, mt_response_opcode = opc, mt_return_code = rc, mt_modified_length = ml\<rparr>, bs) }"

definition meta_tag_size :: nat where "meta_tag_size = 4 * 5 + 2 + 4 + 8 * 2"

text \<open>\<open>SoftUeTpdcControlTag\<close>\<close>

definition ctrl_tag_serialize :: "ctrl_tag \<Rightarrow> u8 list" where
  "ctrl_tag_serialize c = write_u8 (ct_flags c) @ write_u32 (ct_cumulative_ack c) @
     write_u32 (ct_selective_ack c) @ write_u32 (ct_gap_nack c)"

definition ctrl_tag_deserialize :: "ctrl_tag reader" where
  "ctrl_tag_deserialize bs = do {
     (flags, bs) \<leftarrow> read_u8 bs;
     (cum, bs) \<leftarrow> read_u32 bs;
     (sel, bs) \<leftarrow> read_u32 bs;
     (gap, bs) \<leftarrow> read_u32 bs;
     Some (\<lparr>ct_flags = flags, ct_cumulative_ack = cum, ct_selective_ack = sel, ct_gap_nack = gap\<rparr>, bs) }"

definition ctrl_tag_size :: nat where "ctrl_tag_size = 1 + 4 * 3"

text \<open>\<open>SoftUeTimingTag\<close>, \<open>SoftUeChannelTimingTag\<close>\<close>

record timing_tag =
  tm_timestamp :: ns
  tm_expected :: "ns option"
  tm_detail :: "ns option"

record channel_timing_tag =
  cm_baseline :: "ns option"
  cm_release :: "ns option"
  cm_receive :: "ns option"

definition timing_tag_size :: nat where "timing_tag_size = 3 * 8"

definition timing_tag_serialize :: "timing_tag \<Rightarrow> u8 list" where
  "timing_tag_serialize t = write_time (tm_timestamp t) @ write_opt_time (tm_expected t) @ write_opt_time (tm_detail t)"

definition timing_tag_deserialize :: "timing_tag reader" where
  "timing_tag_deserialize bs = do {
     (ts, bs) \<leftarrow> read_time bs;
     (ex, bs) \<leftarrow> read_opt_time bs;
     (de, bs) \<leftarrow> read_opt_time bs;
     Some (\<lparr>tm_timestamp = ts, tm_expected = ex, tm_detail = de\<rparr>, bs) }"

definition timing_tag_valid :: "timing_tag \<Rightarrow> bool" where
  "timing_tag_valid t \<longleftrightarrow> time_valid (tm_timestamp t) \<and> opt_time_valid (tm_expected t) \<and> opt_time_valid (tm_detail t)"

definition channel_timing_tag_size :: nat where "channel_timing_tag_size = 3 * 8"

definition channel_timing_tag_serialize :: "channel_timing_tag \<Rightarrow> u8 list" where
  "channel_timing_tag_serialize t = write_opt_time (cm_baseline t) @ write_opt_time (cm_release t) @
     write_opt_time (cm_receive t)"

definition channel_timing_tag_deserialize :: "channel_timing_tag reader" where
  "channel_timing_tag_deserialize bs = do {
     (ba, bs) \<leftarrow> read_opt_time bs;
     (re, bs) \<leftarrow> read_opt_time bs;
     (ch, bs) \<leftarrow> read_opt_time bs;
     Some (\<lparr>cm_baseline = ba, cm_release = re, cm_receive = ch\<rparr>, bs) }"

definition channel_timing_tag_valid :: "channel_timing_tag \<Rightarrow> bool" where
  "channel_timing_tag_valid t \<longleftrightarrow>
     opt_time_valid (cm_baseline t) \<and> opt_time_valid (cm_release t) \<and> opt_time_valid (cm_receive t)"

text \<open>\<open>SoftUeTransportTimingTag\<close>, \<open>SoftUeRecoveryTag\<close>\<close>

definition transport_tag_size :: nat where "transport_tag_size = 2 * 8 + 1"

definition transport_tag_serialize :: "transport_tag \<Rightarrow> u8 list" where
  "transport_tag_serialize t = write_opt_time (tt_accept t) @ write_opt_time (tt_transmit t) @ write_bool (tt_queued t)"

definition transport_tag_deserialize :: "transport_tag reader" where
  "transport_tag_deserialize bs = do {
     (ac, bs) \<leftarrow> read_opt_time bs;
     (tx, bs) \<leftarrow> read_opt_time bs;
     (qu, bs) \<leftarrow> read_bool bs;
     Some (\<lparr>tt_accept = ac, tt_transmit = tx, tt_queued = qu\<rparr>, bs) }"

definition transport_tag_valid :: "transport_tag \<Rightarrow> bool" where
  "transport_tag_valid t \<longleftrightarrow> opt_time_valid (tt_accept t) \<and> opt_time_valid (tt_transmit t)"

definition recovery_tag_size :: nat where "recovery_tag_size = 2 * 8"

definition recovery_tag_serialize :: "recovery_tag \<Rightarrow> u8 list" where
  "recovery_tag_serialize t = write_opt_time (rt_gap_nack_sent t) @ write_opt_time (rt_retransmit_tx t)"

definition recovery_tag_deserialize :: "recovery_tag reader" where
  "recovery_tag_deserialize bs = do {
     (ga, bs) \<leftarrow> read_opt_time bs;
     (re, bs) \<leftarrow> read_opt_time bs;
     Some (\<lparr>rt_gap_nack_sent = ga, rt_retransmit_tx = re\<rparr>, bs) }"

definition recovery_tag_valid :: "recovery_tag \<Rightarrow> bool" where
  "recovery_tag_valid t \<longleftrightarrow> opt_time_valid (rt_gap_nack_sent t) \<and> opt_time_valid (rt_retransmit_tx t)"

text \<open>\<open>SoftUeFragmentTag\<close>, \<open>SoftUeTransactionTag\<close>: an index and a total.\<close>

record index_tag =
  ix_index :: u32
  ix_total :: u32

definition index_tag_size :: nat where "index_tag_size = 4 * 2"

definition index_tag_serialize :: "index_tag \<Rightarrow> u8 list" where
  "index_tag_serialize t = write_u32 (ix_index t) @ write_u32 (ix_total t)"

definition index_tag_deserialize :: "index_tag reader" where
  "index_tag_deserialize bs = do {
     (i, bs) \<leftarrow> read_u32 bs;
     (n, bs) \<leftarrow> read_u32 bs;
     Some (\<lparr>ix_index = i, ix_total = n\<rparr>, bs) }"

section \<open>Round trips\<close>

lemmas reader_step = append_assoc wire_rt Option.bind.bind_lunit prod.case

lemma ucast_u8_u32: "ucast (ucast (b :: u8) :: u32) = b"
  by (rule bit_word_eqI) (simp add: bit_simps)

interpretation header_tag: wire_codec header_tag_serialize header_tag_deserialize
    "\<lambda>h. pds_type_valid (ht_pds_type h)" header_tag_size
proof
  show "header_tag_deserialize (header_tag_serialize h @ rest) = Some (h, rest)" if "pds_type_valid (ht_pds_type h)" for h rest
    unfolding header_tag_serialize_def header_tag_deserialize_def by (simp only: reader_step pds_type_of_to [OF that]) simp
  show "length (header_tag_serialize h) = header_tag_size" for h
    by (simp add: header_tag_serialize_def header_tag_size_def wire_len)
  show "length bs = header_tag_size + length rest" if "header_tag_deserialize bs = Some (h, rest)" for bs h rest
    using that unfolding header_tag_deserialize_def header_tag_size_def
    by (auto simp: bind_eq_Some_conv dest!: tag_lens)
qed

interpretation meta_tag: wire_codec meta_tag_serialize meta_tag_deserialize
    "\<lambda>m. op_type_valid (mt_op m)" meta_tag_size
proof
  show "meta_tag_deserialize (meta_tag_serialize m @ rest) = Some (m, rest)" if "op_type_valid (mt_op m)" for m rest
    unfolding meta_tag_serialize_def meta_tag_deserialize_def
    by (simp only: reader_step ucast_u8_u32 op_type_of_to [OF that]) simp
  show "length (meta_tag_serialize m) = meta_tag_size" for m
    by (simp add: meta_tag_serialize_def meta_tag_size_def wire_len)
  show "length bs = meta_tag_size + length rest" if "meta_tag_deserialize bs = Some (m, rest)" for bs m rest
    using that unfolding meta_tag_deserialize_def meta_tag_size_def
    by (auto simp: bind_eq_Some_conv dest!: tag_lens)
qed

interpretation ctrl_tag: wire_codec ctrl_tag_serialize ctrl_tag_deserialize "\<lambda>_. True" ctrl_tag_size
proof
  show "ctrl_tag_deserialize (ctrl_tag_serialize c @ rest) = Some (c, rest)" for c rest
    unfolding ctrl_tag_serialize_def ctrl_tag_deserialize_def by (simp only: reader_step) simp
  show "length (ctrl_tag_serialize c) = ctrl_tag_size" for c
    by (simp add: ctrl_tag_serialize_def ctrl_tag_size_def wire_len)
  show "length bs = ctrl_tag_size + length rest" if "ctrl_tag_deserialize bs = Some (c, rest)" for bs c rest
    using that unfolding ctrl_tag_deserialize_def ctrl_tag_size_def
    by (auto simp: bind_eq_Some_conv dest!: tag_lens)
qed

interpretation timing_tag: wire_codec timing_tag_serialize timing_tag_deserialize timing_tag_valid timing_tag_size
proof
  show "timing_tag_deserialize (timing_tag_serialize t @ rest) = Some (t, rest)" if "timing_tag_valid t" for t rest
    using that by (simp add: timing_tag_serialize_def timing_tag_deserialize_def timing_tag_valid_def wire_rt)
  show "length (timing_tag_serialize t) = timing_tag_size" for t by (simp add: timing_tag_size_def timing_tag_serialize_def wire_len)
  show "length bs = timing_tag_size + length rest" if "timing_tag_deserialize bs = Some (t, rest)" for bs t rest
    using that unfolding timing_tag_deserialize_def timing_tag_size_def by (auto simp: bind_eq_Some_conv dest!: tag_lens)
qed

interpretation channel_timing_tag: wire_codec channel_timing_tag_serialize channel_timing_tag_deserialize
    channel_timing_tag_valid channel_timing_tag_size
proof
  show "channel_timing_tag_deserialize (channel_timing_tag_serialize t @ rest) = Some (t, rest)"
    if "channel_timing_tag_valid t" for t rest
    using that
    by (simp add: channel_timing_tag_serialize_def channel_timing_tag_deserialize_def channel_timing_tag_valid_def wire_rt)
  show "length (channel_timing_tag_serialize t) = channel_timing_tag_size" for t by (simp add: channel_timing_tag_size_def channel_timing_tag_serialize_def wire_len)
  show "length bs = channel_timing_tag_size + length rest" if "channel_timing_tag_deserialize bs = Some (t, rest)" for bs t rest
    using that unfolding channel_timing_tag_deserialize_def channel_timing_tag_size_def by (auto simp: bind_eq_Some_conv dest!: tag_lens)
qed

interpretation transport_tag: wire_codec transport_tag_serialize transport_tag_deserialize transport_tag_valid transport_tag_size
proof
  show "transport_tag_deserialize (transport_tag_serialize t @ rest) = Some (t, rest)" if "transport_tag_valid t" for t rest
    using that by (simp add: transport_tag_serialize_def transport_tag_deserialize_def transport_tag_valid_def wire_rt)
  show "length (transport_tag_serialize t) = transport_tag_size" for t by (simp add: transport_tag_size_def transport_tag_serialize_def wire_len)
  show "length bs = transport_tag_size + length rest" if "transport_tag_deserialize bs = Some (t, rest)" for bs t rest
    using that unfolding transport_tag_deserialize_def transport_tag_size_def by (auto simp: bind_eq_Some_conv dest!: tag_lens)
qed

interpretation recovery_tag: wire_codec recovery_tag_serialize recovery_tag_deserialize recovery_tag_valid recovery_tag_size
proof
  show "recovery_tag_deserialize (recovery_tag_serialize t @ rest) = Some (t, rest)" if "recovery_tag_valid t" for t rest
    using that by (simp add: recovery_tag_serialize_def recovery_tag_deserialize_def recovery_tag_valid_def wire_rt)
  show "length (recovery_tag_serialize t) = recovery_tag_size" for t by (simp add: recovery_tag_size_def recovery_tag_serialize_def wire_len)
  show "length bs = recovery_tag_size + length rest" if "recovery_tag_deserialize bs = Some (t, rest)" for bs t rest
    using that unfolding recovery_tag_deserialize_def recovery_tag_size_def by (auto simp: bind_eq_Some_conv dest!: tag_lens)
qed

interpretation index_tag: wire_codec index_tag_serialize index_tag_deserialize "\<lambda>_. True" index_tag_size
proof
  show "index_tag_deserialize (index_tag_serialize t @ rest) = Some (t, rest)" for t rest
    by (simp add: index_tag_serialize_def index_tag_deserialize_def wire_rt)
  show "length (index_tag_serialize t) = index_tag_size" for t by (simp add: index_tag_size_def index_tag_serialize_def wire_len)
  show "length bs = index_tag_size + length rest" if "index_tag_deserialize bs = Some (t, rest)" for bs t rest
    using that unfolding index_tag_deserialize_def index_tag_size_def by (auto simp: bind_eq_Some_conv dest!: tag_lens)
qed

text \<open>
  C12: Every header and tag of the protocol whose enumerations and times are in the range of their
  fields survives the wire: reading what was written returns the value and leaves the bytes after it,
  also when the buffer goes on. For every header and tag, exactly the number of bytes that
  \<open>GetSerializedSize\<close> announces is written.
\<close>

theorem tags_roundtrip:
  "pds_header_deserialize (pds_header_serialize hd' @ rest) = Some (hd', rest) \<and>
    length (pds_header_serialize hd') = pds_header_size \<and>
   (pds_type_valid (ht_pds_type ht) \<longrightarrow> header_tag_deserialize (header_tag_serialize ht @ rest) = Some (ht, rest)) \<and>
    length (header_tag_serialize ht) = header_tag_size \<and>
   (op_type_valid (mt_op mt) \<longrightarrow> meta_tag_deserialize (meta_tag_serialize mt @ rest) = Some (mt, rest)) \<and>
    length (meta_tag_serialize mt) = meta_tag_size \<and>
   ctrl_tag_deserialize (ctrl_tag_serialize ct @ rest) = Some (ct, rest) \<and> length (ctrl_tag_serialize ct) = ctrl_tag_size \<and>
   (timing_tag_valid tm \<longrightarrow> timing_tag_deserialize (timing_tag_serialize tm @ rest) = Some (tm, rest)) \<and>
    length (timing_tag_serialize tm) = timing_tag_size \<and>
   (channel_timing_tag_valid cm \<longrightarrow>
      channel_timing_tag_deserialize (channel_timing_tag_serialize cm @ rest) = Some (cm, rest)) \<and>
    length (channel_timing_tag_serialize cm) = channel_timing_tag_size \<and>
   (transport_tag_valid tr \<longrightarrow> transport_tag_deserialize (transport_tag_serialize tr @ rest) = Some (tr, rest)) \<and>
    length (transport_tag_serialize tr) = transport_tag_size \<and>
   (recovery_tag_valid rc \<longrightarrow> recovery_tag_deserialize (recovery_tag_serialize rc @ rest) = Some (rc, rest)) \<and>
    length (recovery_tag_serialize rc) = recovery_tag_size \<and>
   index_tag_deserialize (index_tag_serialize ix @ rest) = Some (ix, rest) \<and> length (index_tag_serialize ix) = index_tag_size"
  by (intro conjI impI)
    (simp_all add: pds_hdr.dec_enc pds_hdr.enc_size header_tag.dec_enc meta_tag.dec_enc ctrl_tag.dec_enc
      timing_tag.dec_enc channel_timing_tag.dec_enc transport_tag.dec_enc recovery_tag.dec_enc index_tag.dec_enc
      header_tag.enc_size meta_tag.enc_size ctrl_tag.enc_size timing_tag.enc_size channel_timing_tag.enc_size
      transport_tag.enc_size recovery_tag.enc_size index_tag.enc_size)

lemma tags_roundtrip_witness:
  "meta_tag_deserialize (meta_tag_serialize (metadata_tag default_metadata)) = Some (metadata_tag default_metadata, [])"
  using tags_roundtrip [of undefined "[]" undefined "metadata_tag default_metadata"]
  by (simp add: metadata_tag_def default_metadata_def op_type_valid_def)

section \<open>The flag bits of the metadata tag\<close>

definition is_response :: "meta_tag \<Rightarrow> bool" where "is_response m \<longleftrightarrow> mt_flags m AND METADATA_RESPONSE \<noteq> 0"
definition is_retry :: "meta_tag \<Rightarrow> bool" where "is_retry m \<longleftrightarrow> mt_flags m AND METADATA_RETRY \<noteq> 0"

definition set_is_response :: "bool \<Rightarrow> meta_tag \<Rightarrow> meta_tag" where
  "set_is_response b m = m\<lparr>mt_flags := (if b then mt_flags m OR METADATA_RESPONSE else mt_flags m AND NOT METADATA_RESPONSE)\<rparr>"

definition set_is_retry :: "bool \<Rightarrow> meta_tag \<Rightarrow> meta_tag" where
  "set_is_retry b m = m\<lparr>mt_flags := (if b then mt_flags m OR METADATA_RETRY else mt_flags m AND NOT METADATA_RETRY)\<rparr>"

lemma and_flag_bit: "w AND 2 ^ n \<noteq> 0 \<longleftrightarrow> bit w n" if "n < LENGTH('a)" for w :: "'a::len word"
  using that by (simp add: and_exp_eq_0_iff_not_bit)

text \<open>
  The two flags of the metadata tag are independent: setting or clearing one reads back as set
  or cleared, leaves the other as it was, and the order of the two makes no difference.
\<close>

theorem metadata_flags_independent:
  "is_response (set_is_response b m) = b \<and> is_retry (set_is_response b m) = is_retry m \<and>
   is_retry (set_is_retry b m) = b \<and> is_response (set_is_retry b m) = is_response m \<and>
   set_is_retry c (set_is_response b m) = set_is_response b (set_is_retry c m)"
proof -
  have bits: "w AND METADATA_RESPONSE \<noteq> 0 \<longleftrightarrow> bit w 0" "w AND METADATA_RETRY \<noteq> 0 \<longleftrightarrow> bit w 1" for w :: u8
    using and_flag_bit [of 0 w] and_flag_bit [of 1 w] by (simp_all add: METADATA_RESPONSE_def METADATA_RETRY_def)
  have one: "bit METADATA_RESPONSE n \<longleftrightarrow> n = 0" "bit METADATA_RETRY n \<longleftrightarrow> n = 1" for n
    using bit_exp_iff [of 0 n, where ?'a = u8] bit_exp_iff [of 1 n, where ?'a = u8]
    by (auto simp: METADATA_RESPONSE_def METADATA_RETRY_def dest: bit_imp_le_length)
  note defs = is_response_def is_retry_def set_is_response_def set_is_retry_def
  have "set_is_retry c (set_is_response b m) = set_is_response b (set_is_retry c m)"
  proof (rule meta_tag.equality)
    show "mt_flags (set_is_retry c (set_is_response b m)) = mt_flags (set_is_response b (set_is_retry c m))"
      by (rule bit_word_eqI) (auto simp: defs bit_simps one)
  qed (simp_all add: defs)
  then show ?thesis by (auto simp: defs bits bit_simps one)
qed

end
