(* ===== verification/PdsManager.thy ===== *)
theory PdsManager
  imports PdsHandlers PdsBudget PdsStatistics PdcFrames TagCodec
begin

text \<open>
  \<open>PdsManager\<close> (\<open>model/pds/pds-manager.cc\<close>), the part that owns the packet delivery contexts:
  their allocation and release, requests from the SES layer, packets from the network, the manager's
  state machine, its probes and statistics. The receive semantics and the control plane are the
  states of \<open>PdsHandlers\<close> and \<open>PdsBudget\<close>, held in the fields \<open>mg_rx\<close> and \<open>mg_plane\<close>.
\<close>

section \<open>State\<close>

text \<open>A \<open>Ptr<PdcBase>\<close> points to one of the two kinds of context.\<close>

datatype pdc = PTpdc tpdc | PIpdc ipdc

fun pdc_base_of :: "pdc \<Rightarrow> pdc_base" where
  "pdc_base_of (PTpdc t) = tp_base t"
| "pdc_base_of (PIpdc i) = ip_base i"

fun pdc_send :: "ns \<Rightarrow> packet option \<Rightarrow> bool \<Rightarrow> bool \<Rightarrow> pdc \<Rightarrow> bool \<times> pdc" where
  "pdc_send now po som eom (PTpdc t) = map_prod id PTpdc (tpdc_send_packet now po som eom t)"
| "pdc_send now po som eom (PIpdc i) = map_prod id PIpdc (ipdc_send_packet now po som eom i)"

fun pdc_receive :: "ns \<Rightarrow> packet option \<Rightarrow> pdc \<Rightarrow> bool \<times> pdc" where
  "pdc_receive now po (PTpdc t) = map_prod id PTpdc (tpdc_handle_received now po t)"
| "pdc_receive now po (PIpdc i) = map_prod id PIpdc (ipdc_handle_received now po i)"

text \<open>What the contexts use of the \<open>SoftUeNetDevice\<close>.\<close>

record net_device =
  dv_fep :: u32
  dv_mtu :: u16
  dv_channel :: bool
  dv_has_ses :: bool

datatype pds_state = PDS_IDLE | PDS_BUSY | PDS_ERROR

text \<open>\<open>SesPdsRequest\<close>, the fields that \<open>PdsManager\<close> reads, and what it hands to the SES layer.\<close>

record ses_request =
  sr_src :: u32
  sr_dst :: u32
  sr_mode :: u8
  sr_tc :: u8
  sr_packet :: "packet option"
  sr_len :: u16
  sr_som :: bool
  sr_eom :: bool

record pdc_ses_request =
  pq_pdc_id :: u16
  pq_packet :: packet
  pq_len :: u16
  pq_psn :: u32

record pdc_ses_response =
  ps_pdc_id :: u16
  ps_packet :: packet
  ps_len :: u16

text \<open>The diagnostic calls on the \<open>SesManager\<close>.\<close>

datatype manager_note =
    NotifyPause bool
  | NotifyPdsErrorEvent u16 pds_error string
  | NotifyTxResponse u16
  | NotifyEagerSize u32

record manager =
  mg_device :: "net_device option"
  mg_has_ses :: bool
  mg_stats :: "pds_statistics option"
  mg_stats_enabled :: bool
  mg_pdcs :: "(u16 \<times> pdc) list"
  mg_receive :: "((u32 \<times> u16) \<times> pdc) list"
  mg_sessions :: "((u32 \<times> u8 \<times> u8) \<times> u16) list"
  mg_next :: u16
  mg_max :: u32
  mg_used :: "u16 \<Rightarrow> bool"
  mg_free :: "u16 list"
  mg_aggressive :: bool
  mg_priority :: bool
  mg_sack_sent :: u32
  mg_gap_nack_sent :: u32
  mg_state :: pds_state
  mg_notes :: "manager_note list"
  mg_delivered :: "packet list"
  mg_ipdc_memory :: ipdc_limits
  mg_rx :: rx_state
  mg_plane :: plane

text \<open>The constructor, given the initial receive state and control plane; \<open>memory\<close> is what
  \<open>Ipdc::Initialize\<close> finds behind a plain \<open>PdcConfig\<close>.\<close>

definition new_manager :: "ipdc_limits \<Rightarrow> rx_state \<Rightarrow> plane \<Rightarrow> manager" where
  "new_manager memory rx pl = \<lparr>mg_device = None, mg_has_ses = False, mg_stats = None, mg_stats_enabled = True,
     mg_pdcs = [], mg_receive = [], mg_sessions = [], mg_next = 0, mg_max = 1024, mg_used = (\<lambda>_. False),
     mg_free = [], mg_aggressive = False, mg_priority = False, mg_sack_sent = 0, mg_gap_nack_sent = 0,
     mg_state = PDS_IDLE, mg_notes = [], mg_delivered = [], mg_ipdc_memory = memory, mg_rx = rx, mg_plane = pl\<rparr>"

definition manager_initialize :: "manager \<Rightarrow> manager" where
  "manager_initialize m = (if mg_stats m = None then m\<lparr>mg_stats := Some new_statistics\<rparr> else m)"

definition set_net_device :: "net_device option \<Rightarrow> manager \<Rightarrow> manager" where
  "set_net_device d m = m\<lparr>mg_device := d\<rparr>"

text \<open>\<open>if (m_statistics && m_statisticsEnabled)\<close>, and \<open>if (m_sesManager)\<close>.\<close>

definition count_stat :: "(pds_statistics \<Rightarrow> pds_statistics) \<Rightarrow> manager \<Rightarrow> manager" where
  "count_stat f m = (if mg_stats_enabled m then m\<lparr>mg_stats := map_option f (mg_stats m)\<rparr> else m)"

definition inform :: "manager_note list \<Rightarrow> manager \<Rightarrow> manager" where
  "inform ns m = (if mg_has_ses m then m\<lparr>mg_notes := mg_notes m @ ns\<rparr> else m)"

section \<open>New contexts\<close>

definition default_pdc_config :: pdc_config where
  "default_pdc_config = \<lparr>pc_pdc_id = 0, pc_local = 0, pc_remote = 0, pc_tc = 0, pc_type = IPDC, pc_mode = 0,
     pc_max_packet = 1500, pc_sequence = 1\<rparr>"

definition default_tpdc_config :: tpdc_config where
  "default_tpdc_config = \<lparr>tc_base = default_pdc_config\<lparr>pc_type := TPDC\<rparr>, tc_max_send_buffer = 2048,
     tc_max_receive_buffer = 2048, tc_send_window = 128, tc_receive_window = 128, tc_max_retransmissions = 5,
     tc_initial_rto = 200000000, tc_max_rto = 2000000000, tc_aggressive_drain = False, tc_queue_priority = False\<rparr>"

definition new_base :: pdc_base where
  "new_base = \<lparr>pb_config = default_pdc_config, pb_active = False, pb_stats = zero_stats, pb_processing = False,
     pb_queue = [], pb_timestamps = [], pb_max_age = 60000000000, pb_max_entries = 10000\<rparr>"

text \<open>\<open>Create<Tpdc>\<close> and \<open>Create<Ipdc>\<close> followed by \<open>SetNetDevice\<close>.\<close>

definition new_tpdc :: "net_device \<Rightarrow> tpdc" where
  "new_tpdc dv = \<lparr>tp_base = new_base, tp_config = default_tpdc_config, tp_next_send = 1, tp_next_receive = 1,
     tp_send_base = 1, tp_receive_base = 1, tp_highest = 0, tp_send_buffer = [], tp_receive_buffer = [],
     tp_send_queue = [], tp_ack_event = None, tp_ack_interval = 1000000, tp_pending_sack = 0,
     tp_pending_gap_nack = 0, tp_rto = 30000000, tp_rtt = 0, tp_rtt_variance = 0, tp_gap_observed = [],
     tp_read_gaps = [], tp_stats = zero_tpdc_stats, tp_totals = zero_totals, tp_device = True,
     tp_channel = dv_channel dv, tp_has_ses = dv_has_ses dv, tp_out = [], tp_notes = []\<rparr>"

definition new_ipdc :: "net_device \<Rightarrow> ipdc" where
  "new_ipdc dv = \<lparr>ip_base = new_base, ip_config = default_pdc_config, ip_limits = default_limits, ip_next_seq = 1,
     ip_send_credits = 64, ip_receive_credits = 64, ip_flow_active = False, ip_send_queue = [],
     ip_receive_queue = [], ip_cleanup_pending = False, ip_stats = zero_ipdc_stats, ip_device = True,
     ip_channel = dv_channel dv, ip_out = []\<rparr>"

text \<open>The configurations that \<open>AllocatePdc\<close> and \<open>EnsureReceivePdc\<close> build; \<open>rto\<close> is 30 ms, its maximum 120 ms.\<close>

definition context_config :: "net_device \<Rightarrow> u16 \<Rightarrow> u32 \<Rightarrow> u8 \<Rightarrow> u8 \<Rightarrow> pdc_config" where
  "context_config dv pdc_id remote tc mode = default_pdc_config\<lparr>pc_pdc_id := pdc_id, pc_local := dv_fep dv,
     pc_remote := remote, pc_tc := tc, pc_mode := mode, pc_max_packet := dv_mtu dv\<rparr>"

definition reliable_config :: "manager \<Rightarrow> net_device \<Rightarrow> u16 \<Rightarrow> u32 \<Rightarrow> u8 \<Rightarrow> u8 \<Rightarrow> u8 \<Rightarrow> tpdc_config" where
  "reliable_config m dv pdc_id remote tc mode retransmissions =
    default_tpdc_config\<lparr>tc_base := (context_config dv pdc_id remote tc mode)\<lparr>pc_type := TPDC\<rparr>,
      tc_max_retransmissions := retransmissions, tc_initial_rto := 30000000, tc_max_rto := 120000000,
      tc_aggressive_drain := mg_aggressive m, tc_queue_priority := mg_priority m\<rparr>"

text \<open>Creation, \<open>Initialize\<close> and \<open>Activate\<close>; \<open>None\<close> when \<open>Initialize\<close> fails.\<close>

definition create_tpdc :: "tpdc_config \<Rightarrow> net_device \<Rightarrow> tpdc option" where
  "create_tpdc cfg dv = (let (ok, t) = tpdc_initialize cfg (new_tpdc dv) in
     if ok then Some (t\<lparr>tp_base := pdc_activate (tp_base t)\<rparr>) else None)"

definition create_ipdc :: "pdc_config \<Rightarrow> ipdc_limits \<Rightarrow> net_device \<Rightarrow> ipdc option" where
  "create_ipdc cfg memory dv = (let (ok, i) = ipdc_initialize cfg memory (new_ipdc dv) in
     if ok then Some (i\<lparr>ip_base := pdc_activate (ip_base i)\<rparr>) else None)"

section \<open>Allocation\<close>

definition get_pdc :: "u16 \<Rightarrow> manager \<Rightarrow> pdc option" where
  "get_pdc i m = map_of (mg_pdcs m) i"

definition get_receive_pdc :: "u32 \<Rightarrow> u16 \<Rightarrow> manager \<Rightarrow> pdc option" where
  "get_receive_pdc src i m = map_of (mg_receive m) (src, i)"

definition is_reliable_mode :: "u8 \<Rightarrow> bool" where
  "is_reliable_mode dm \<longleftrightarrow> dm = 0 \<or> dm = 1"

text \<open>
  \<open>while (m_nextPdcId <= MAX_PDC_ID)\<close>: a 16-bit number never exceeds 65535, so the loop ends only
  at an identifier that is not in use, wrapping around the end; \<open>None\<close> when there is none. The
  second search of the code, after the loop, is never reached.
\<close>

partial_function (option) next_free_id :: "(u16 \<Rightarrow> bool) \<Rightarrow> u16 \<Rightarrow> (u16 \<times> u16) option" where
  "next_free_id used n = (if \<not> used n then Some (n, n + 1) else next_free_id used (n + 1))"

definition take_id :: "manager \<Rightarrow> (u16 \<times> manager) option" where
  "take_id m = (case mg_free m of
      i # is \<Rightarrow> Some (i, m\<lparr>mg_free := is\<rparr>)
    | [] \<Rightarrow> map_option (\<lambda>(i, n). (i, m\<lparr>mg_next := n\<rparr>)) (next_free_id (mg_used m) (mg_next m)))"

text \<open>\<open>UINT16_MAX\<close> is the result for a failure.\<close>

definition NO_PDC :: u16 where "NO_PDC = 0xFFFF"

definition create_outgoing :: "net_device \<Rightarrow> u16 \<Rightarrow> u32 \<Rightarrow> u8 \<Rightarrow> u8 \<Rightarrow> manager \<Rightarrow> pdc option" where
  "create_outgoing dv i dest tc dm m =
    (if is_reliable_mode dm then map_option PTpdc (create_tpdc (reliable_config m dv i dest tc dm 6) dv)
     else map_option PIpdc (create_ipdc (context_config dv i dest tc dm) (mg_ipdc_memory m) dv))"

definition install_pdc :: "u16 \<Rightarrow> pdc \<Rightarrow> u32 \<Rightarrow> u8 \<Rightarrow> u8 \<Rightarrow> manager \<Rightarrow> manager" where
  "install_pdc i p dest tc dm m = count_stat increment_creations
    (m\<lparr>mg_pdcs := AList.update i p (mg_pdcs m), mg_next := i + 1,
       mg_sessions := (if is_reliable_mode dm then AList.update (dest, tc, dm) i (mg_sessions m) else mg_sessions m)\<rparr>)"

text \<open>The part of \<open>AllocatePdc\<close> after the session look-up. It uses the device without a check:
  \<open>None\<close> also stands for the null dereference.\<close>

definition allocate_new :: "u32 \<Rightarrow> u8 \<Rightarrow> u8 \<Rightarrow> manager \<Rightarrow> (u16 \<times> manager) option" where
  "allocate_new dest tc dm m =
    (if unat (mg_max m) \<le> length (mg_pdcs m) then Some (NO_PDC, count_stat (increment_errors PDC_FULL) m)
     else (case take_id m of
        None \<Rightarrow> None
      | Some (i, m1) \<Rightarrow>
          let m2 = m1\<lparr>mg_used := (mg_used m1)(i := True)\<rparr> in
          (case mg_device m2 of
             None \<Rightarrow> None
           | Some dv \<Rightarrow> (case create_outgoing dv i dest tc dm m2 of
               None \<Rightarrow> Some (NO_PDC, m2\<lparr>mg_used := (mg_used m2)(i := False)\<rparr>)
             | Some p \<Rightarrow> Some (i, install_pdc i p dest tc dm m2)))))"

definition allocate_pdc :: "u32 \<Rightarrow> u8 \<Rightarrow> u8 \<Rightarrow> manager \<Rightarrow> (u16 \<times> manager) option" where
  "allocate_pdc dest tc dm m =
    (case if is_reliable_mode dm then map_of (mg_sessions m) (dest, tc, dm) else None of
       None \<Rightarrow> allocate_new dest tc dm m
     | Some i \<Rightarrow>
         if get_pdc i m \<noteq> None then Some (i, m)
         else allocate_new dest tc dm (m\<lparr>mg_sessions := AList.delete (dest, tc, dm) (mg_sessions m)\<rparr>))"

definition release_pdc :: "u16 \<Rightarrow> manager \<Rightarrow> bool \<times> manager" where
  "release_pdc i m =
    (if get_pdc i m = None then (False, m)
     else (True, count_stat increment_destructions
       (m\<lparr>mg_pdcs := AList.delete i (mg_pdcs m),
          mg_sessions := filter (\<lambda>(_, j). j \<noteq> i) (mg_sessions m),
          mg_used := (mg_used m)(i := False), mg_free := mg_free m @ [i]\<rparr>)))"

text \<open>\<open>EnsureReceivePdc\<close>, called with a device present.\<close>

definition create_passive :: "net_device \<Rightarrow> u16 \<Rightarrow> u32 \<Rightarrow> bool \<Rightarrow> manager \<Rightarrow> pdc option" where
  "create_passive dv i src reliable m =
    (if reliable then map_option PTpdc (create_tpdc (reliable_config m dv i src 0 0 5) dv)
     else map_option PIpdc (create_ipdc (context_config dv i src 0 0) (mg_ipdc_memory m) dv))"

definition ensure_receive_pdc :: "net_device \<Rightarrow> u16 \<Rightarrow> u32 \<Rightarrow> bool \<Rightarrow> manager \<Rightarrow> bool \<times> manager" where
  "ensure_receive_pdc dv i src reliable m =
    (if get_receive_pdc src i m \<noteq> None then (True, m)
     else if unat (mg_max m) \<le> length (mg_pdcs m) + length (mg_receive m) then (False, m)
     else (case create_passive dv i src reliable m of
         None \<Rightarrow> (False, m)
       | Some p \<Rightarrow> (True, count_stat increment_creations
           (m\<lparr>mg_receive := AList.update (src, i) p (mg_receive m)\<rparr>))))"

section \<open>Sending\<close>

definition send_packet_through_pdc :: "ns \<Rightarrow> u16 \<Rightarrow> packet option \<Rightarrow> bool \<Rightarrow> bool \<Rightarrow> manager \<Rightarrow> bool \<times> manager" where
  "send_packet_through_pdc now i po som eom m =
    (if po = None then (False, count_stat (increment_errors INVALID_PDC) m)
     else (case get_pdc i m of
        None \<Rightarrow> (False, count_stat (increment_errors INVALID_PDC) m)
      | Some p \<Rightarrow>
          let (ok, p') = pdc_send now po som eom p; m1 = m\<lparr>mg_pdcs := AList.update i p' (mg_pdcs m)\<rparr>
          in if ok then (True, count_stat increment_sent m1)
             else (False, count_stat (increment_errors PROTOCOL_ERROR) m1)))"

definition dispatch_packet :: "ns \<Rightarrow> ses_request \<Rightarrow> manager \<Rightarrow> (bool \<times> manager) option" where
  "dispatch_packet now r m =
    (case allocate_pdc (sr_dst r) (sr_tc r) (sr_mode r) (inform [NotifyPause True] m) of
       None \<Rightarrow> None
     | Some (i, m1) \<Rightarrow> Some
         (if i = NO_PDC
          then (False, inform [NotifyPdsErrorEvent 0 PDC_FULL ''PDC allocation failed'']
                         (count_stat (increment_errors PDC_FULL) m1))
          else let (ok, m2) = send_packet_through_pdc now i (sr_packet r) (sr_som r) (sr_eom r) m1
               in (ok, inform (if ok then [NotifyTxResponse i, NotifyEagerSize 1372, NotifyPause False]
                               else [NotifyPause False]) m2)))"

definition validate_ses_request :: "ses_request \<Rightarrow> bool" where
  "validate_ses_request r = (case sr_packet r of
      None \<Rightarrow> False
    | Some p \<Rightarrow> pk_size p \<noteq> 0 \<and> pk_size p \<le> 65536 \<and> sr_dst r \<noteq> 0 \<and> sr_src r \<noteq> 0 \<and> sr_mode r \<le> 7 \<and>
        unat (sr_len r) = pk_size p)"

definition process_ses_request :: "ns \<Rightarrow> ses_request \<Rightarrow> manager \<Rightarrow> (bool \<times> manager) option" where
  "process_ses_request now r m =
    (if mg_state m = PDS_BUSY then Some (False, count_stat (increment_errors RESOURCE_EXHAUSTED) m)
     else if mg_state m = PDS_ERROR then Some (False, count_stat (increment_errors INTERNAL_ERROR) m)
     else
       let m1 = inform [NotifyPause True] (m\<lparr>mg_state := PDS_BUSY\<rparr>) in
       if \<not> validate_ses_request r
       then Some (False, (inform [NotifyPdsErrorEvent 0 PROTOCOL_ERROR ''Invalid SES PDS request'']
              (count_stat (increment_errors PROTOCOL_ERROR) m1))\<lparr>mg_state := PDS_ERROR\<rparr>)
       else if mg_device m1 = None
       then Some (False, (inform [NotifyPdsErrorEvent 0 RESOURCE_EXHAUSTED ''Network device not available'']
              (count_stat (increment_errors RESOURCE_EXHAUSTED) m1))\<lparr>mg_state := PDS_ERROR\<rparr>)
       else (case dispatch_packet now r m1 of
           None \<Rightarrow> None
         | Some (ok, m2) \<Rightarrow> Some (if ok then (True, inform [NotifyPause False] (m2\<lparr>mg_state := PDS_IDLE\<rparr>))
                                  else (False, m2\<lparr>mg_state := PDS_ERROR\<rparr>))))"

definition manager_reset :: "manager \<Rightarrow> manager" where
  "manager_reset m = m\<lparr>mg_state := PDS_IDLE\<rparr>"

definition handle_pdc_error :: "u16 \<Rightarrow> pds_error \<Rightarrow> string \<Rightarrow> manager \<Rightarrow> manager" where
  "handle_pdc_error i e details m = inform [NotifyPdsErrorEvent i e details] (count_stat (increment_errors e) m)"

section \<open>Receiving\<close>

text \<open>\<open>RemoveHeader\<close>: of a packet without a header it takes bytes of the payload.\<close>

definition remove_header :: "packet \<Rightarrow> packet" where
  "remove_header p = (case pk_headers p of
      h # hs \<Rightarrow> p\<lparr>pk_headers := hs\<rparr> | [] \<Rightarrow> p\<lparr>pk_payload := drop pds_header_size (pk_payload p)\<rparr>)"

text \<open>The context that gets the packet: \<open>GetPdc\<close> for a control packet, else or failing that the
  receiving one. \<open>True\<close> says it is an outgoing one.\<close>

definition route_packet :: "bool \<Rightarrow> u32 \<Rightarrow> u16 \<Rightarrow> manager \<Rightarrow> (bool \<times> pdc) option" where
  "route_packet control src i m =
    (case if control then get_pdc i m else get_receive_pdc src i m of
       Some p \<Rightarrow> Some (control, p)
     | None \<Rightarrow> map_option (Pair False) (get_receive_pdc src i m))"

definition put_routed :: "bool \<Rightarrow> u32 \<Rightarrow> u16 \<Rightarrow> pdc \<Rightarrow> manager \<Rightarrow> manager" where
  "put_routed outgoing src i p m =
    (if outgoing then m\<lparr>mg_pdcs := AList.update i p (mg_pdcs m)\<rparr>
     else m\<lparr>mg_receive := AList.update (src, i) p (mg_receive m)\<rparr>)"

definition count_control :: "packet \<Rightarrow> ctrl_tag \<Rightarrow> manager \<Rightarrow> manager" where
  "count_control p c m =
    (let m1 = (if ct_flags c AND CTRL_SACK \<noteq> 0 then m\<lparr>mg_sack_sent := mg_sack_sent m + 1\<rparr> else m);
         m2 = (if ct_flags c AND CTRL_GAP_NACK \<noteq> 0 then m1\<lparr>mg_gap_nack_sent := mg_gap_nack_sent m1 + 1\<rparr> else m1)
     in m2)"

text \<open>The latency when the packet carries a timing tag, otherwise its bytes.\<close>

definition count_reception :: "ns \<Rightarrow> packet \<Rightarrow> manager \<Rightarrow> manager" where
  "count_reception now p m = count_stat (\<lambda>s. increment_errors SUCCESS
     (case pk_timing p of
        Some sent \<Rightarrow> record_reception now (of_nat (pk_size p)) (now - sent) s
      | None \<Rightarrow> record_bytes_received now (of_nat (pk_size p)) (increment_received s))) m"

text \<open>
  \<open>ProcessReceivedPacket\<close>. \<open>request\<close> and \<open>response\<close> are \<open>SesManager::ProcessReceiveRequest\<close> and
  \<open>ProcessReceiveResponse\<close>, which may call back into the manager.
\<close>

definition pass_to_ses ::
  "(pdc_ses_request \<Rightarrow> manager \<Rightarrow> bool \<times> manager) \<Rightarrow> (pdc_ses_response \<Rightarrow> manager \<Rightarrow> bool \<times> manager) \<Rightarrow>
    pds_header \<Rightarrow> packet \<Rightarrow> manager \<Rightarrow> bool \<times> manager" where
  "pass_to_ses request response h p m =
    (if \<not> mg_has_ses m then (False, m)
     else case pk_meta p of
       Some t \<Rightarrow>
         if is_response t
         then response \<lparr>ps_pdc_id = ph_pdc_id h, ps_packet = p, ps_len = of_nat (pk_size p)\<rparr> m
         else request \<lparr>pq_pdc_id = ph_pdc_id h, pq_packet = p, pq_len = of_nat (pk_size p), pq_psn = ph_seq h\<rparr> m
     | None \<Rightarrow> request \<lparr>pq_pdc_id = ph_pdc_id h, pq_packet = p, pq_len = of_nat (pk_size p), pq_psn = ph_seq h\<rparr> m)"

text \<open>What is counted for a control packet.\<close>

definition count_control_reception :: "ns \<Rightarrow> packet \<Rightarrow> manager \<Rightarrow> manager" where
  "count_control_reception now p m = count_stat (\<lambda>s. increment_errors SUCCESS
     (record_bytes_received now (of_nat (pk_size p)) (increment_received s))) m"

definition process_received_packet ::
  "ns \<Rightarrow> (pdc_ses_request \<Rightarrow> manager \<Rightarrow> bool \<times> manager) \<Rightarrow> (pdc_ses_response \<Rightarrow> manager \<Rightarrow> bool \<times> manager) \<Rightarrow>
    packet option \<Rightarrow> u32 \<Rightarrow> manager \<Rightarrow> bool \<times> manager" where
  "process_received_packet now request response po src m = (case (po, mg_device m) of
      (Some p, Some dv) \<Rightarrow>
        (if pk_size p < pds_header_size then (False, count_stat (increment_errors INVALID_PACKET) m)
         else
           let h = the (peek_header p); i = ph_pdc_id h;
               m1 = snd (ensure_receive_pdc dv i src (ph_reliable h) m)
           in (case (pk_ctrl p, route_packet (pk_ctrl p \<noteq> None) src i m1) of
                (Some c, Some (out, x)) \<Rightarrow>
                  (let (ok, x') = pdc_receive now (Some p) x
                   in (ok, put_routed out src i x' (count_control_reception now p (count_control p c m1))))
              | (_, route) \<Rightarrow>
                  let m2 = (case route of None \<Rightarrow> m1
                       | Some (out, x) \<Rightarrow> put_routed out src i (snd (pdc_receive now (Some p) x)) m1);
                      p1 = remove_header p;
                      (taken, m3) = pass_to_ses request response h p1 (count_reception now p1 m2)
                  in (True, if taken then m3 else m3\<lparr>mg_delivered := mg_delivered m3 @ [p1]\<rparr>)))
    | _ \<Rightarrow> (False, count_stat (increment_errors INVALID_PACKET) m))"

section \<open>Probes and statistics\<close>

definition all_pdcs :: "manager \<Rightarrow> pdc list" where
  "all_pdcs m = map snd (mg_pdcs m) @ map snd (mg_receive m)"

definition get_active_pdcs :: "manager \<Rightarrow> u32" where
  "get_active_pdcs m = of_nat (length (mg_pdcs m) + length (mg_receive m))"

text \<open>The four sums over the TPDCs differ in what they add up.\<close>

definition tpdcs :: "manager \<Rightarrow> tpdc list" where
  "tpdcs m = List.map_filter (\<lambda>p. case p of PTpdc t \<Rightarrow> Some t | PIpdc _ \<Rightarrow> None) (all_pdcs m)"

definition get_active_tpdc_count :: "manager \<Rightarrow> u32" where
  "get_active_tpdc_count m = of_nat (length (tpdcs m))"

definition get_tpdc_inflight_packets :: "manager \<Rightarrow> u32" where
  "get_tpdc_inflight_packets m = sum_list (map (\<lambda>t. of_nat (length (tp_send_buffer t))) (tpdcs m))"

definition get_tpdc_out_of_order_packets :: "manager \<Rightarrow> u32" where
  "get_tpdc_out_of_order_packets m = sum_list (map (\<lambda>t. of_nat (length (tp_receive_buffer t))) (tpdcs m))"

definition get_tpdc_pending_sacks :: "manager \<Rightarrow> u32" where
  "get_tpdc_pending_sacks m = sum_list (map tp_pending_sack (tpdcs m))"

definition get_tpdc_pending_gap_nacks :: "manager \<Rightarrow> u32" where
  "get_tpdc_pending_gap_nacks m = sum_list (map tp_pending_gap_nack (tpdcs m))"

definition reset_budget_counters :: "bool \<Rightarrow> budget \<Rightarrow> budget" where
  "reset_budget_counters full b =
    (let b1 = b\<lparr>bg_blocked := 0, bg_messages_peak := 0, bg_bytes_peak := 0\<rparr> in
     if full then b1\<lparr>bg_blocked_messages := 0, bg_blocked_bytes := 0, bg_blocked_both := 0, bg_releases := 0,
                     bg_release_bytes := 0\<rparr> else b1)"

definition reset_statistics :: "manager \<Rightarrow> manager" where
  "reset_statistics m = m\<lparr>mg_stats := map_option statistics_reset (mg_stats m), mg_sack_sent := 0,
     mg_gap_nack_sent := 0,
     mg_plane := (mg_plane m)\<lparr>pn_refresh_sent := 0, pn_ack_sent := 0, pn_gate_blocked := 0,
       pn_send := reset_budget_counters True (pn_send (mg_plane m)),
       pn_write := reset_budget_counters False (pn_write (mg_plane m)),
       pn_read := reset_budget_counters False (pn_read (mg_plane m))\<rparr>\<rparr>"

definition set_statistics_enabled :: "bool \<Rightarrow> manager \<Rightarrow> manager" where
  "set_statistics_enabled b m = m\<lparr>mg_stats_enabled := b\<rparr>"

definition configure_read_response_scheduling :: "bool \<Rightarrow> bool \<Rightarrow> manager \<Rightarrow> manager" where
  "configure_read_response_scheduling drain priority m = m\<lparr>mg_aggressive := drain, mg_priority := priority\<rparr>"

text \<open>\<open>UnexpectedSendProbe\<close> and \<open>QueryUnexpectedSendProbe\<close>\<close>

record send_probe =
  up_present :: bool
  up_semantic_accepted :: bool
  up_buffered_complete :: bool
  up_matched_to_recv :: bool
  up_chunks_done :: u32
  up_expected_chunks :: u32
  up_completed :: bool
  up_failed :: bool
  up_last_activity :: ms

definition no_probe :: send_probe where
  "no_probe = \<lparr>up_present = False, up_semantic_accepted = False, up_buffered_complete = False,
     up_matched_to_recv = False, up_chunks_done = 0, up_expected_chunks = 0, up_completed = False,
     up_failed = False, up_last_activity = 0\<rparr>"

definition build_unexpected_probe :: "rx_ctx \<Rightarrow> send_probe" where
  "build_unexpected_probe c = \<lparr>up_present = cx_present c, up_semantic_accepted = cx_semantic_accepted c,
     up_buffered_complete = cx_buffered_complete c, up_matched_to_recv = cx_matched_to_recv c,
     up_chunks_done = cx_chunks_done c, up_expected_chunks = cx_expected_chunks c,
     up_completed = cx_completed c, up_failed = cx_failed c, up_last_activity = cx_last_activity c\<rparr>"

definition query_unexpected_send_probe :: "u64 \<Rightarrow> u16 \<Rightarrow> u32 \<Rightarrow> rx_state \<Rightarrow> send_probe" where
  "query_unexpected_send_probe job msg src s =
    (case find (\<lambda>(_, c). cx_op c = SEND \<and> is_context_active c \<and> cx_job_id c = job \<and> cx_msg_id c = msg \<and>
        cx_src_fep c = src \<and> (cx_mode c = UNEXPECTED_BUFFERED \<or> cx_mode c = UNEXPECTED_MATCHED)) (rs_ctxs s) of
       None \<Rightarrow> no_probe | Some (_, c) \<Rightarrow> build_unexpected_probe c)"

text \<open>\<open>QueryRxMessageProbe\<close>: the probe's mode and operation come with the common fields.\<close>

definition query_rx_message_probe :: "u64 \<Rightarrow> u16 \<Rightarrow> u32 \<Rightarrow> op_type \<Rightarrow> rx_state \<Rightarrow> (send_probe \<times> rx_mode \<times> op_type)" where
  "query_rx_message_probe job msg src oper s =
    (case find (\<lambda>(_, c). is_context_active c \<and> cx_job_id c = job \<and> cx_msg_id c = msg \<and>
        cx_src_fep c = src \<and> cx_op c = oper) (rs_ctxs s) of
       None \<Rightarrow> (no_probe, DIRECT_EXPECTED, SEND)
     | Some (_, c) \<Rightarrow> (build_unexpected_probe c, cx_mode c, cx_op c))"

end
