(* ===== verification/TpdcSender.thy ===== *)
theory TpdcSender
  imports Tpdc
begin

text \<open>
  The sender half of a TPDC session: which sequence numbers it still holds, against the set of
  those that the receiver has.
\<close>

section \<open>The invariant\<close>

definition keys :: "(u32 \<times> 'b) list \<Rightarrow> nat set" where
  "keys xs = unat ` fst ` set xs"

definition data_packet :: "nat \<Rightarrow> packet \<Rightarrow> bool" where
  "data_packet n p \<longleftrightarrow> pk_ctrl p = None \<and> (\<exists>h hs. pk_headers p = h # hs \<and> 1 \<le> unat (ph_seq h) \<and> unat (ph_seq h) < n)"

definition entry_ok :: "nat set \<Rightarrow> u32 \<Rightarrow> u32 \<times> buffered \<Rightarrow> bool" where
  "entry_ok A n e \<longleftrightarrow> (case e of (k, bp) \<Rightarrow> bp_seq bp = k \<and> pk_ctrl (bp_packet bp) = None \<and>
     1 \<le> unat k \<and> unat k < unat n \<and> (bp_acknowledged bp \<longrightarrow> unat k \<in> A))"

definition queued_ok :: "buffered \<Rightarrow> bool" where
  "queued_ok b \<longleftrightarrow> pk_ctrl (bp_packet b) = None \<and> \<not> bp_acknowledged b"

text \<open>
  \<open>A\<close> is what the receiver has. Every number given out is still buffered or in \<open>A\<close>; everything
  below the window base is in \<open>A\<close>; the numbers given out reach at most to the end of the window.
\<close>

definition sender_inv :: "nat set \<Rightarrow> tpdc \<Rightarrow> bool" where
  "sender_inv A t \<longleftrightarrow>
     (let N = unat (tp_next_send t); B = unat (tp_send_base t); w = unat (tc_send_window (tp_config t)) in
      tp_device t \<and> tp_channel t \<and> B + 2 ^ 16 < 2 ^ 32 \<and> 1 \<le> B \<and> B \<le> N \<and> N \<le> B + w \<and>
      distinct (map fst (tp_send_buffer t)) \<and>
      (\<forall>e \<in> set (tp_send_buffer t). entry_ok A (tp_next_send t) e) \<and>
      (\<forall>b \<in> set (tp_send_queue t). queued_ok b) \<and>
      (\<forall>p \<in> set (tp_out t). data_packet N p) \<and>
      {s. 1 \<le> s \<and> s < N} \<subseteq> keys (tp_send_buffer t) \<union> A \<and> {s. 1 \<le> s \<and> s < B} \<subseteq> A)"

definition sender_view :: "tpdc \<Rightarrow> u32 \<times> u32 \<times> (u32 \<times> buffered) list \<times> buffered list \<times> packet list \<times> bool \<times> bool \<times> u16" where
  "sender_view t = (tp_next_send t, tp_send_base t, tp_send_buffer t, tp_send_queue t, tp_out t, tp_device t,
     tp_channel t, tc_send_window (tp_config t))"

lemma sender_inv_view: "sender_view t' = sender_view t \<Longrightarrow> sender_inv A t \<Longrightarrow> sender_inv A t'"
  by (simp add: sender_inv_def sender_view_def)

lemma entry_ok_mono: "entry_ok A n e \<Longrightarrow> A \<subseteq> A' \<Longrightarrow> entry_ok A' n e"
  by (auto simp: entry_ok_def)

lemma sender_inv_mono: "sender_inv A t \<Longrightarrow> A \<subseteq> A' \<Longrightarrow> sender_inv A' t"
  unfolding sender_inv_def Let_def
  by (elim conjE, intro conjI; (assumption | blast intro: entry_ok_mono))

lemma view_frame [simp]:
  "sender_view (tpdc_update_statistics t) = sender_view t"
  "sender_view (tpdc_handle_error e t) = sender_view t"
  "sender_view (tpdc_note_ses ns t) = sender_view t"
  "sender_view (update_rto_estimate m t) = sender_view t"
  by (simp_all add: sender_view_def tpdc_update_statistics_def tpdc_handle_error_def tpdc_note_ses_def
      update_rto_estimate_def Let_def)

section \<open>Elementary steps\<close>

lemma keys_update: "map_of xs k \<noteq> None \<Longrightarrow> keys (AList.update k v xs) = keys xs"
proof -
  assume "map_of xs k \<noteq> None"
  then have "k \<in> fst ` set xs" by (metis domIff dom_map_of_conv_image_fst)
  then show ?thesis by (simp add: keys_def dom_update insert_absorb)
qed

lemma keys_insert: "keys (AList.update k v xs) = insert (unat k) (keys xs)"
  by (simp add: keys_def dom_update)

lemma buffer_update_subset: "set (AList.update k v xs) \<subseteq> insert (k, v) (set xs)"
  by (induction xs) auto

lemma sender_inv_update:
  assumes "sender_inv A t" "map_of (tp_send_buffer t) k = Some bp" "entry_ok A (tp_next_send t) (k, bp')"
  shows "sender_inv A (t\<lparr>tp_send_buffer := AList.update k bp' (tp_send_buffer t)\<rparr>)"
  using assms buffer_update_subset [of k bp' "tp_send_buffer t"] keys_update [of "tp_send_buffer t" k bp']
  by (auto simp: sender_inv_def Let_def distinct_update)

lemma sender_entry:
  "sender_inv A t \<Longrightarrow> map_of (tp_send_buffer t) k = Some bp \<Longrightarrow> entry_ok A (tp_next_send t) (k, bp)"
  by (auto simp: sender_inv_def Let_def dest: map_of_SomeD)

lemma sender_inv_arm: "sender_inv A t \<Longrightarrow> sender_inv A (arm_timeout now k t)"
  by (auto simp: arm_timeout_def entry_ok_def split: option.split dest: sender_entry intro!: sender_inv_update)

lemma framed_data:
  "entry_ok A n (k, bp) \<Longrightarrow> bp_packet b' = bp_packet bp \<Longrightarrow> bp_seq b' = bp_seq bp \<Longrightarrow> data_packet (unat n) (framed now b' t)"
  by (auto simp: entry_ok_def data_packet_def framed_def add_header_def set_transmit_timestamp_def Let_def)

lemma sender_inv_out:
  assumes "sender_inv A t" "data_packet (unat (tp_next_send t)) p"
  shows "sender_inv A (t\<lparr>tp_out := tp_out t @ [p]\<rparr>)"
  using assms by (auto simp: sender_inv_def Let_def)

lemma transmit_ok:
  assumes inv: "sender_inv A t" and e: "entry_ok A (tp_next_send t) (k, bp)"
  obtains t' where "transmit_packet now bp t = (True, t')" "sender_inv A t'"
    "tp_send_buffer t' = tp_send_buffer t" "tp_next_send t' = tp_next_send t" "tp_send_base t' = tp_send_base t"
    "tp_config t' = tp_config t"
proof -
  let ?p = "framed now bp t"
  let ?t1 = "t\<lparr>tp_base := pdc_update_statistics now True ?p (tp_base t),
    tp_totals := (tp_totals t)\<lparr>tt_tx_data := tt_tx_data (tp_totals t) + 1\<rparr>\<rparr>"
  have up: "tp_device t" "tp_channel t" using inv by (simp_all add: sender_inv_def Let_def)
  have "sender_inv A ?t1" by (rule sender_inv_view [OF _ inv]) (simp add: sender_view_def)
  moreover have "data_packet (unat (tp_next_send ?t1)) ?p" using framed_data [OF e] by simp
  ultimately have "sender_inv A (?t1\<lparr>tp_out := tp_out ?t1 @ [?p]\<rparr>)" by (rule sender_inv_out)
  then show ?thesis using up that [of "?t1\<lparr>tp_out := tp_out ?t1 @ [?p]\<rparr>"]
    by (simp add: transmit_packet_def Let_def)
qed

text \<open>A new packet takes the next number, inside the window.\<close>

lemma sender_inv_new:
  assumes inv: "sender_inv A t" and win: "is_in_send_window (tp_next_send t) t"
    and ctrl: "pk_ctrl (bp_packet bp) = None" "bp_seq bp = tp_next_send t" "\<not> bp_acknowledged bp"
  shows "sender_inv A (t\<lparr>tp_next_send := tp_next_send t + 1,
      tp_send_buffer := AList.update (tp_next_send t) bp (tp_send_buffer t)\<rparr>)"
    and "entry_ok A (tp_next_send t + 1) (tp_next_send t, bp)"
proof -
  let ?N = "tp_next_send t" and ?w = "tc_send_window (tp_config t)"
  have B: "unat (tp_send_base t) + 2 ^ 16 < 2 ^ 32" "1 \<le> unat (tp_send_base t)" "unat (tp_send_base t) \<le> unat ?N"
    and buf: "distinct (map fst (tp_send_buffer t))" "\<And>e. e \<in> set (tp_send_buffer t) \<Longrightarrow> entry_ok A ?N e"
    and out: "\<And>p. p \<in> set (tp_out t) \<Longrightarrow> data_packet (unat ?N) p"
    and cov: "{s. 1 \<le> s \<and> s < unat ?N} \<subseteq> keys (tp_send_buffer t) \<union> A"
    using inv by (simp_all add: sender_inv_def Let_def)
  have w: "unat (ucast ?w :: u32) = unat ?w"
    by (simp add: unsigned_ucast_eq take_bit_nat_eq_self order_less_trans [OF unsigned_less])
  have wlt: "unat ?w < 2 ^ 16" using unsigned_less [of ?w] by simp
  have "unat (tp_send_base t + ucast ?w) = unat (tp_send_base t) + unat ?w"
    using B(1) wlt by (subst unat_add_nowrap) (simp_all add: w)
  then have lt: "unat ?N < unat (tp_send_base t) + unat ?w"
    using win by (simp add: is_in_send_window_def word_less_nat_alt)
  then have suc: "unat (?N + 1) = Suc (unat ?N)"
    using B(1) wlt by (subst unat_add_nowrap) simp_all
  have mono: "entry_ok A (?N + 1) e" if "entry_ok A ?N e" for e
    using that suc by (auto simp: entry_ok_def split: prod.splits)
  show new: "entry_ok A (?N + 1) (?N, bp)"
    using ctrl B suc by (simp add: entry_ok_def)
  have dmono: "data_packet (unat (?N + 1)) p" if "data_packet (unat ?N) p" for p
    using that suc by (auto simp: data_packet_def)
  have cov': "{s. 1 \<le> s \<and> s < unat (?N + 1)} \<subseteq> keys (AList.update ?N bp (tp_send_buffer t)) \<union> A"
    using cov by (auto simp: suc keys_insert less_Suc_eq)
  show "sender_inv A (t\<lparr>tp_next_send := ?N + 1, tp_send_buffer := AList.update ?N bp (tp_send_buffer t)\<rparr>)"
    using inv B lt suc buf mono new out dmono cov' buffer_update_subset [of ?N bp "tp_send_buffer t"]
    by (auto simp: sender_inv_def Let_def distinct_update)
qed

section \<open>Operations\<close>

lemma sender_inv_queue:
  "sender_inv A t \<Longrightarrow> \<forall>b \<in> set q. queued_ok b \<Longrightarrow> sender_inv A (t\<lparr>tp_send_queue := q\<rparr>)"
  by (simp add: sender_inv_def Let_def)

lemma ctrl_set_accept [simp]: "pk_ctrl (set_accept_timestamp now q p) = pk_ctrl p"
  by (simp add: set_accept_timestamp_def)

lemma select_queued_subset:
  assumes "select_queued a q = Some (b, q')"
  shows "b \<in> set q" "set q' \<subseteq> set q"
proof -
  let ?P = "\<lambda>b. \<not> is_read_response_packet (bp_packet b)"
  have sub: "x \<in> set (takeWhile ?P q) \<Longrightarrow> x \<in> set q" "x \<in> set (dropWhile ?P q) \<Longrightarrow> x \<in> set q" for x
    by (drule set_takeWhileD, simp) (erule set_dropWhileD)
  have "b \<in> set q \<and> set q' \<subseteq> set q"
  proof (cases q)
    case Nil
    then show ?thesis using assms by (simp add: select_queued_def)
  next
    case (Cons x xs)
    show ?thesis
    proof (cases "dropWhile ?P q")
      case Nil
      then show ?thesis using assms Cons by (auto simp: select_queued_def)
    next
      case dw: (Cons y ys)
      have y: "y \<in> set q" "set ys \<subseteq> set q" using sub(2) by (auto simp: dw)
      have "select_queued a q = Some (if a then (y, takeWhile ?P q @ ys) else (x, xs))"
        unfolding select_queued_def dw using Cons by simp
      moreover have "x \<in> set q" "set xs \<subseteq> set q" using Cons by auto
      ultimately show ?thesis using assms y sub(1) by (cases a) auto
    qed
  qed
  then show "b \<in> set q" "set q' \<subseteq> set q" by simp_all
qed

text \<open>One turn of the loop: the packet taken from the queue gets the next number and is sent.\<close>

lemma drain_turn:
  assumes inv: "sender_inv A t" and win: "is_in_send_window (tp_next_send t) t"
    and sel: "select_queued (tc_aggressive_drain (tp_config t)) (tp_send_queue t) = Some (b, q)"
  obtains t3 where "drain_send_queue now t = drain_send_queue now (arm_timeout now (tp_next_send t) t3)"
    "sender_inv A (arm_timeout now (tp_next_send t) t3)"
    "transmit_packet now (b\<lparr>bp_seq := tp_next_send t, bp_timestamp := now,
        bp_packet := set_accept_timestamp now True (bp_packet b)\<rparr>)
      (t\<lparr>tp_send_queue := q, tp_next_send := tp_next_send t + 1,
         tp_send_buffer := AList.update (tp_next_send t) (b\<lparr>bp_seq := tp_next_send t, bp_timestamp := now,
           bp_packet := set_accept_timestamp now True (bp_packet b)\<rparr>) (tp_send_buffer t)\<rparr>) = (True, t3)"
proof -
  let ?seq = "tp_next_send t"
  let ?bp = "b\<lparr>bp_seq := ?seq, bp_timestamp := now, bp_packet := set_accept_timestamp now True (bp_packet b)\<rparr>"
  let ?tq = "t\<lparr>tp_send_queue := q\<rparr>"
  let ?t2 = "?tq\<lparr>tp_next_send := ?seq + 1, tp_send_buffer := AList.update ?seq ?bp (tp_send_buffer t)\<rparr>"
  have "\<forall>x \<in> set (tp_send_queue t). queued_ok x" using inv by (simp add: sender_inv_def Let_def)
  then have b: "queued_ok b" and q: "\<forall>x \<in> set q. queued_ok x"
    using select_queued_subset [OF sel] by auto
  have tq: "sender_inv A ?tq" by (rule sender_inv_queue [OF inv q])
  have win': "is_in_send_window (tp_next_send ?tq) ?tq" using win by (simp add: is_in_send_window_def)
  have bp: "pk_ctrl (bp_packet ?bp) = None" "bp_seq ?bp = tp_next_send ?tq" "\<not> bp_acknowledged ?bp"
    using b by (simp_all add: queued_ok_def)
  have t2: "sender_inv A ?t2" using sender_inv_new(1) [OF tq win' bp] by simp
  have e: "entry_ok A (tp_next_send ?t2) (?seq, ?bp)" using sender_inv_new(2) [OF tq win' bp] by simp
  obtain t3 where t3: "transmit_packet now ?bp ?t2 = (True, t3)" "sender_inv A t3"
    using transmit_ok [OF t2 e] by metis
  have "drain_send_queue now t = drain_send_queue now (arm_timeout now ?seq t3)"
    using win sel t3(1) by (subst drain_send_queue.simps) (simp add: generate_sequence_number_def)
  then show ?thesis by (rule that [OF _ sender_inv_arm [OF t3(2)] t3(1)])
qed

lemma sender_inv_drain: "sender_inv A t \<Longrightarrow> sender_inv A (drain_send_queue now t)"
proof (induction "length (tp_send_queue t)" arbitrary: t rule: less_induct)
  case less
  show ?case
  proof (cases "is_in_send_window (tp_next_send t) t")
    case False
    then show ?thesis using less.prems by (subst drain_send_queue.simps) simp
  next
    case win: True
    show ?thesis
    proof (cases "select_queued (tc_aggressive_drain (tp_config t)) (tp_send_queue t)")
      case None
      then show ?thesis using less.prems by (subst drain_send_queue.simps) simp
    next
      case (Some x)
      then obtain b q where sel: "select_queued (tc_aggressive_drain (tp_config t)) (tp_send_queue t) = Some (b, q)"
        by (cases x) simp
      obtain t3 where d: "drain_send_queue now t = drain_send_queue now (arm_timeout now (tp_next_send t) t3)"
        "sender_inv A (arm_timeout now (tp_next_send t) t3)"
        and tr: "transmit_packet now (b\<lparr>bp_seq := tp_next_send t, bp_timestamp := now,
            bp_packet := set_accept_timestamp now True (bp_packet b)\<rparr>)
          (t\<lparr>tp_send_queue := q, tp_next_send := tp_next_send t + 1,
             tp_send_buffer := AList.update (tp_next_send t) (b\<lparr>bp_seq := tp_next_send t, bp_timestamp := now,
               bp_packet := set_accept_timestamp now True (bp_packet b)\<rparr>) (tp_send_buffer t)\<rparr>) = (True, t3)"
        using drain_turn [OF less.prems win sel] by metis
      have "tp_send_queue t3 = q"
        using arg_cong [OF tr, of "\<lambda>x. tp_send_queue (snd x)"] by (simp add: queue_kept)
      then have "length (tp_send_queue (arm_timeout now (tp_next_send t) t3)) < length (tp_send_queue t)"
        using select_queued_length [OF sel] by (simp add: queue_kept)
      then show ?thesis using less.hyps d by simp
    qed
  qed
qed

lemma sender_inv_process: "sender_inv A t \<Longrightarrow> sender_inv A (process_send_queue now t)"
  by (rule sender_inv_view [of _ "drain_send_queue now t"]) (simp_all add: process_send_queue_def sender_inv_drain)

lemma sender_inv_mark: "sender_inv A t \<Longrightarrow> sender_inv A (mark_recovery now seq t)"
proof (cases "map_of (tp_send_buffer t) seq")
  case (Some bp)
  assume inv: "sender_inv A t"
  have up: "sender_inv A (t\<lparr>tp_send_buffer := AList.update seq b (tp_send_buffer t)\<rparr>)"
    if "bp_packet b = bp_packet bp" "bp_seq b = bp_seq bp" "bp_acknowledged b = bp_acknowledged bp" for b
    using sender_entry [OF inv Some] that by (intro sender_inv_update [OF inv Some]) (simp add: entry_ok_def)
  have "sender_inv A (tpdc_note_ses ns (t\<lparr>tp_send_buffer := AList.update seq b (tp_send_buffer t)\<rparr>))"
    if "bp_packet b = bp_packet bp" "bp_seq b = bp_seq bp" "bp_acknowledged b = bp_acknowledged bp" for b ns
    by (rule sender_inv_view [OF _ up [OF that]]) simp
  then show ?thesis using inv Some by (simp add: mark_recovery_def Let_def split: option.split)
qed (simp add: mark_recovery_def)

lemma mark_recovery_entry:
  assumes "map_of (tp_send_buffer t) seq = Some bp"
  obtains bp' where "map_of (tp_send_buffer (mark_recovery now seq t)) seq = Some bp'"
    "bp_acknowledged bp' = bp_acknowledged bp" "bp_retransmissions bp' = bp_retransmissions bp"
  using assms that
  by (cases "is_read_response_packet (bp_packet bp)"; cases "map_of (tp_gap_observed t) seq")
    (simp_all add: mark_recovery_def tpdc_note_ses_def Let_def update_conv')

lemma sender_inv_retransmit: "sender_inv A t \<Longrightarrow> sender_inv A (retransmit_packet now seq t)"
proof (cases "map_of (tp_send_buffer t) seq")
  case (Some bp0)
  assume inv: "sender_inv A t"
  show ?thesis
  proof (cases "bp_acknowledged bp0")
    case False
    let ?t1 = "mark_recovery now seq t"
    have inv1: "sender_inv A ?t1" by (rule sender_inv_mark [OF inv])
    obtain bp where bp: "map_of (tp_send_buffer ?t1) seq = Some bp" using mark_recovery_entry [OF Some] by metis
    let ?n = "bp_retransmissions bp + 1"
    let ?bp1 = "bp\<lparr>bp_retransmissions := ?n, bp_last_retransmission := now\<rparr>"
    let ?st = "(tp_stats ?t1)\<lparr>ts_retransmissions := ts_retransmissions (tp_stats ?t1) + 1\<rparr>"
    let ?t1' = "?t1\<lparr>tp_send_buffer := AList.update seq ?bp1 (tp_send_buffer ?t1)\<rparr>"
    let ?t2 = "?t1'\<lparr>tp_stats := (if ?n = 1
      then ?st\<lparr>ts_fast_retransmissions := ts_fast_retransmissions ?st + 1\<rparr> else ?st)\<rparr>"
    have e: "entry_ok A (tp_next_send ?t1) (seq, ?bp1)"
      using sender_entry [OF inv1 bp] by (simp add: entry_ok_def)
    have "sender_inv A ?t1'" by (rule sender_inv_update [OF inv1 bp e])
    then have inv2: "sender_inv A ?t2" by (rule sender_inv_view [rotated]) (simp add: sender_view_def)
    have e2: "entry_ok A (tp_next_send ?t2) (seq, ?bp1)" using e by simp
    obtain t3 where t3: "transmit_packet now ?bp1 ?t2 = (True, t3)" "sender_inv A t3"
      by (rule transmit_ok [OF inv2 e2])
    have "retransmit_packet now seq t =
      (if tc_max_retransmissions (tp_config ?t1) \<le> bp_retransmissions bp then tpdc_handle_error PROTOCOL_ERROR ?t1
       else arm_timeout now seq t3)"
      using Some False bp t3(1) unfolding retransmit_packet_def Let_def by simp
    moreover have "sender_inv A (tpdc_handle_error PROTOCOL_ERROR ?t1)"
      by (rule sender_inv_view [OF _ inv1]) simp
    ultimately show ?thesis using sender_inv_arm [OF t3(2)] by simp
  qed (use inv Some in \<open>simp add: retransmit_packet_def\<close>)
qed (simp add: retransmit_packet_def)

lemma sender_inv_timeout: "sender_inv A t \<Longrightarrow> sender_inv A (handle_rto_timeout now seq t)"
  unfolding handle_rto_timeout_def
  by (rule sender_inv_retransmit, erule sender_inv_view [rotated]) (simp add: sender_view_def)

lemma sender_inv_expire: "sender_inv A t \<Longrightarrow> sender_inv A (expire_timeout seq t)"
  by (auto simp: expire_timeout_def cancel_timeout_def entry_ok_def split: option.split
      dest: sender_entry intro!: sender_inv_update)

lemma sender_inv_retransmit_all: "sender_inv A t \<Longrightarrow> sender_inv A (snd (retransmit_all now seqs t))"
  by (induction now seqs t rule: retransmit_all.induct) (auto simp: split_beta intro: sender_inv_retransmit)

text \<open>Sending.\<close>

lemma sender_inv_buffer:
  assumes inv: "sender_inv A t" and p: "pk_ctrl p = None"
  shows "sender_inv A (snd (buffer_packet_for_sending now p som eom t))"
proof -
  let ?over = "t\<lparr>tp_stats := (tp_stats t)\<lparr>ts_send_overflows := ts_send_overflows (tp_stats t) + 1\<rparr>\<rparr>"
  consider (full) "tc_max_send_buffer (tp_config t) \<le> length (tp_send_buffer t)"
    | (queue) "\<not> tc_max_send_buffer (tp_config t) \<le> length (tp_send_buffer t)" "\<not> is_in_send_window (tp_next_send t) t"
    | (send) "\<not> tc_max_send_buffer (tp_config t) \<le> length (tp_send_buffer t)" "is_in_send_window (tp_next_send t) t"
    by blast
  then show ?thesis
  proof cases
    case full
    have "sender_inv A (tpdc_handle_error PDC_FULL ?over)"
      by (rule sender_inv_view [OF _ inv]) (simp, simp add: sender_view_def)
    then show ?thesis using full by (simp add: buffer_packet_for_sending_def)
  next
    case queue
    let ?bp = "new_buffered now (set_accept_timestamp now True p) som eom 0"
    have ok: "queued_ok ?bp" "\<forall>b \<in> set (tp_send_queue t). queued_ok b"
      using p inv by (simp_all add: queued_ok_def new_buffered_def sender_inv_def Let_def)
    have "sender_inv A (t\<lparr>tp_send_queue := (if is_read_response_packet (bp_packet ?bp) \<and> tc_queue_priority (tp_config t)
        then ?bp # tp_send_queue t else tp_send_queue t @ [?bp])\<rparr>)"
      by (rule sender_inv_queue [OF inv]) (use ok in auto)
    then show ?thesis using queue by (simp add: buffer_packet_for_sending_def Let_def)
  next
    case send
    let ?seq = "tp_next_send t"
    let ?bp = "new_buffered now (set_accept_timestamp now False p) som eom ?seq"
    let ?t2 = "t\<lparr>tp_next_send := ?seq + 1, tp_send_buffer := AList.update ?seq ?bp (tp_send_buffer t)\<rparr>"
    have bp: "pk_ctrl (bp_packet ?bp) = None" "bp_seq ?bp = tp_next_send t" "\<not> bp_acknowledged ?bp"
      using p by (simp_all add: new_buffered_def)
    have t2: "sender_inv A ?t2" by (rule sender_inv_new(1) [OF inv send(2) bp])
    have e: "entry_ok A (tp_next_send ?t2) (?seq, ?bp)" using sender_inv_new(2) [OF inv send(2) bp] by simp
    obtain t3 where t3: "transmit_packet now ?bp ?t2 = (True, t3)" "sender_inv A t3"
      by (rule transmit_ok [OF t2 e])
    have "snd (buffer_packet_for_sending now p som eom t) = tpdc_update_statistics (arm_timeout now ?seq t3)"
      using send t3(1) by (simp add: buffer_packet_for_sending_def generate_sequence_number_def Let_def)
    moreover have "sender_inv A (tpdc_update_statistics (arm_timeout now ?seq t3))"
      by (rule sender_inv_view [OF _ sender_inv_arm [OF t3(2)]]) simp
    ultimately show ?thesis by simp
  qed
qed

lemma sender_inv_error: "sender_inv A t \<Longrightarrow> sender_inv A (tpdc_handle_error e t)"
  by (rule sender_inv_view [of _ t]) simp_all

lemma sender_inv_send:
  assumes "sender_inv A t" "\<And>p. po = Some p \<Longrightarrow> pk_ctrl p = None"
  shows "sender_inv A (snd (tpdc_send_packet now po som eom t))"
  using assms by (auto simp: tpdc_send_packet_def sender_inv_error sender_inv_buffer split: option.split)

text \<open>Acknowledgements: what they cover is with the receiver.\<close>

lemma ack_range_inv:
  assumes "sender_inv A t" "ack_range now n seq t = (adv, t')"
    and "\<And>i. i < n \<Longrightarrow> unat (seq + of_nat i) \<in> A"
  shows "sender_inv A t' \<and> tp_send_base t' = tp_send_base t \<and> tp_next_send t' = tp_next_send t \<and> tp_config t' = tp_config t"
  using assms
proof (induction now n seq t arbitrary: adv t' rule: ack_range.induct)
  case (1 now seq t)
  then show ?case by simp
next
  case (2 now n seq t)
  have A: "unat (seq + 1 + of_nat i) \<in> A" if "i < n" for i
    using 2(6) [of "Suc i"] that by (simp add: add.assoc)
  show ?case
  proof (cases "map_of (tp_send_buffer t) seq")
    case None
    then show ?thesis using 2(1) [OF None] 2(4,5) A by simp
  next
    case (Some bp)
    show ?thesis
    proof (cases "bp_acknowledged bp")
      case True
      then show ?thesis using 2(2) [OF Some True] 2(4,5) A Some by simp
    next
      case False
      let ?t = "t\<lparr>tp_send_buffer := AList.update seq (bp\<lparr>bp_acknowledged := True\<rparr>) (tp_send_buffer t)\<rparr>"
      let ?t1 = "update_rto_estimate (now - bp_timestamp bp) ?t"
      obtain a t2 where r: "ack_range now n (seq + 1) ?t1 = (a, t2)" by fastforce
      have "unat seq \<in> A" using 2(6) [of 0] by simp
      then have "sender_inv A ?t"
        using sender_entry [OF 2(4) Some] by (intro sender_inv_update [OF 2(4) Some]) (simp add: entry_ok_def)
      then have "sender_inv A ?t1" by (rule sender_inv_view [rotated]) simp
      moreover have "tp_send_base ?t1 = tp_send_base t \<and> tp_next_send ?t1 = tp_next_send t \<and> tp_config ?t1 = tp_config t"
        by (simp add: update_rto_estimate_def Let_def)
      ultimately show ?thesis using 2(3) [OF Some False refl _ r] A 2(5) Some False r by simp
    qed
  qed
qed

lemma sender_inv_cleanup: 
  assumes inv: "sender_inv A t"
  shows "sender_inv A (cleanup_acknowledged_packets t)"
proof -
  let ?buf = "filter (\<lambda>(_, bp). \<not> bp_acknowledged bp) (tp_send_buffer t)"
  have e: "\<And>e. e \<in> set (tp_send_buffer t) \<Longrightarrow> entry_ok A (tp_next_send t) e"
    and cov: "{s. 1 \<le> s \<and> s < unat (tp_next_send t)} \<subseteq> keys (tp_send_buffer t) \<union> A"
    using inv by (simp_all add: sender_inv_def Let_def)
  have "s \<in> keys ?buf \<union> A" if "s \<in> keys (tp_send_buffer t)" for s
  proof -
    obtain k bp where kb: "(k, bp) \<in> set (tp_send_buffer t)" "s = unat k" using \<open>s \<in> keys _\<close> by (auto simp: keys_def)
    show ?thesis
    proof (cases "bp_acknowledged bp")
      case True
      then show ?thesis using e [OF kb(1)] kb(2) by (simp add: entry_ok_def)
    next
      case False
      then have "(k, bp) \<in> set ?buf" using kb(1) by simp
      then have "s \<in> keys ?buf" unfolding keys_def kb(2) by (metis fst_conv imageI)
      then show ?thesis ..
    qed
  qed
  then have "{s. 1 \<le> s \<and> s < unat (tp_next_send t)} \<subseteq> keys ?buf \<union> A" using cov by blast
  moreover have "distinct (map fst (tp_send_buffer t)) \<Longrightarrow> distinct (map fst ?buf)" by (rule distinct_map_filter)
  ultimately show ?thesis using inv
    by (simp add: sender_inv_def Let_def cleanup_acknowledged_packets_def)
qed

lemma sender_inv_nack: "sender_inv A t \<Longrightarrow> sender_inv A (observe_gap_nack now g seq t)"
proof -
  assume inv: "sender_inv A t"
  have v: "sender_inv A (t\<lparr>tp_gap_observed := x\<rparr>)" for x
    by (rule sender_inv_view [OF _ inv]) (simp add: sender_view_def)
  have n: "sender_inv A (tpdc_note_ses ns u)" if "sender_inv A u" for ns u
    by (rule sender_inv_view [OF _ that]) simp
  show ?thesis using inv v n sender_inv_retransmit
    by (auto simp: observe_gap_nack_def Let_def split: option.split)
qed

lemma sender_inv_nacks: "sender_inv A t \<Longrightarrow> sender_inv A (observe_gap_nacks now g ns t)"
  by (induction now g ns t rule: observe_gap_nacks.induct) (auto intro: sender_inv_nack)

lemma sender_inv_base:
  assumes "sender_inv A t" "tp_send_base t \<le> b" "b \<le> tp_next_send t" "unat b + 2 ^ 16 < 2 ^ 32"
    and "{s. 1 \<le> s \<and> s < unat b} \<subseteq> A"
  shows "sender_inv A (t\<lparr>tp_send_base := b\<rparr>)"
  using assms by (simp add: sender_inv_def Let_def word_le_nat_alt)

text \<open>An acknowledgement is truthful when the receiver has everything it covers.\<close>

definition truthful :: "nat set \<Rightarrow> u32 \<Rightarrow> u32 \<Rightarrow> bool" where
  "truthful A n seq \<longleftrightarrow> {s. 1 \<le> s \<and> s \<le> unat seq} \<subseteq> A \<and> unat seq < unat n"

lemma sender_inv_ack:
  assumes inv: "sender_inv A t" and tr: "truthful A (tp_next_send t) (ak_seq ack)"
    and room: "unat (tp_next_send t) + 2 ^ 16 < 2 ^ 32"
  shows "sender_inv A (snd (process_received_acknowledgment now ack g t))"
proof -
  let ?n = "tp_totals t"
  let ?n1 = "?n\<lparr>tt_rx_control := tt_rx_control ?n + 1, tt_ack_received := tt_ack_received ?n + 1,
      tt_gap_nack_received := (if ak_nacks ack \<noteq> [] then tt_gap_nack_received ?n + 1 else tt_gap_nack_received ?n),
      tt_last_ack := ak_seq ack\<rparr>"
  let ?t1 = "t\<lparr>tp_stats := (tp_stats t)\<lparr>ts_acks_received := ts_acks_received (tp_stats t) + 1\<rparr>, tp_totals := ?n1\<rparr>"
  have dup: "sender_inv A (?t1\<lparr>tp_stats := x\<rparr>)" for x
    by (rule sender_inv_view [OF _ inv]) (simp add: sender_view_def)
  show ?thesis
  proof (cases "ak_seq ack + 1 < tp_send_base t")
    case True
    then show ?thesis using dup by (simp add: process_received_acknowledgment_def Let_def)
  next
    case False
    let ?b = "max (tp_send_base t) (ak_seq ack + 1)"
    let ?t2 = "if tp_send_base ?t1 < ?b
      then ?t1\<lparr>tp_totals := (tp_totals ?t1)\<lparr>tt_ack_advances := tt_ack_advances (tp_totals ?t1) + 1\<rparr>\<rparr> else ?t1"
    have suc: "unat (ak_seq ack + 1) = Suc (unat (ak_seq ack))"
      using tr room by (subst unat_add_nowrap) (simp_all add: truthful_def)
    have B: "unat (tp_send_base t) \<le> unat (tp_next_send t)" "{s. 1 \<le> s \<and> s < unat (tp_send_base t)} \<subseteq> A" "1 \<le> unat (tp_send_base t)"
      using inv by (simp_all add: sender_inv_def Let_def)
    have b: "unat ?b \<le> unat (tp_next_send t)" "{s. 1 \<le> s \<and> s < unat ?b} \<subseteq> A"
      using B suc tr by (auto simp: max_def truthful_def)
    have t2: "sender_inv A ?t2" "tp_send_base ?t2 = tp_send_base t" "tp_next_send ?t2 = tp_next_send t"
      using sender_inv_view [OF _ inv] by (auto simp: sender_view_def)
    obtain adv t3 where r: "ack_range now (unat (?b - tp_send_base t)) (tp_send_base t) ?t2 = (adv, t3)" by fastforce
    have cover: "unat (tp_send_base t + of_nat i) \<in> A" if i: "i < unat (?b - tp_send_base t)" for i
    proof -
      have le: "tp_send_base t \<le> ?b" by simp
      then have "unat (?b - tp_send_base t) = unat ?b - unat (tp_send_base t)" by (rule unat_sub_le)
      then have lt: "unat (tp_send_base t) + i < unat ?b" using i by linarith
      have "unat (of_nat i :: u32) = i"
        using i order_less_trans [OF i unsigned_less] by (simp add: unat_of_nat take_bit_nat_eq_self)
      then have "unat (tp_send_base t + of_nat i) = unat (tp_send_base t) + i"
        using order_less_trans [OF lt unsigned_less] by (subst unat_add_nowrap) simp_all
      then show ?thesis using lt b(2) B(3) by auto
    qed
    have t3: "sender_inv A t3" "tp_send_base t3 = tp_send_base t" "tp_next_send t3 = tp_next_send t"
      using ack_range_inv [OF t2(1) r cover] t2 by simp_all
    have "sender_inv A (t3\<lparr>tp_send_base := ?b\<rparr>)"
    proof (rule sender_inv_base [OF t3(1)])
      show "tp_send_base t3 \<le> ?b" by (simp add: t3(2))
      show "?b \<le> tp_next_send t3" unfolding t3(3) word_le_nat_alt by (rule b(1))
      show "unat ?b + 2 ^ 16 < 2 ^ 32" using b(1) room by linarith
    qed (rule b(2))
    then have "sender_inv A (process_send_queue now (cleanup_acknowledged_packets
        (observe_gap_nacks now g (ak_nacks ack) (t3\<lparr>tp_send_base := ?b\<rparr>))))"
      by (intro sender_inv_process sender_inv_cleanup sender_inv_nacks)
    then have "sender_inv A (tpdc_update_statistics (process_send_queue now (cleanup_acknowledged_packets
        (observe_gap_nacks now g (ak_nacks ack) (t3\<lparr>tp_send_base := ?b\<rparr>)))))"
      by (rule sender_inv_view [rotated]) simp
    moreover have "snd (process_received_acknowledgment now ack g t) = tpdc_update_statistics
      (process_send_queue now (cleanup_acknowledged_packets
        (observe_gap_nacks now g (ak_nacks ack) (t3\<lparr>tp_send_base := ?b\<rparr>))))"
      using False r t2(2) unfolding process_received_acknowledgment_def Let_def by simp
    ultimately show ?thesis by simp
  qed
qed

lemma sender_inv_selective:
  assumes t: "sender_inv A t" and sel: "unat seq \<in> A"
  shows "sender_inv A (snd (mark_selective seq h t))"
proof (cases "map_of (tp_send_buffer t) seq")
  case (Some bp)
  have "sender_inv A (t\<lparr>tp_send_buffer := AList.update seq (bp\<lparr>bp_acknowledged := True\<rparr>) (tp_send_buffer t)\<rparr>)"
    using sender_entry [OF t Some] sel by (intro sender_inv_update [OF t Some]) (simp add: entry_ok_def)
  then show ?thesis using Some by (simp add: mark_selective_def)
qed (use t in \<open>simp add: mark_selective_def\<close>)

lemma sender_inv_control:
  assumes inv: "sender_inv A t" and tr: "truthful A (tp_next_send t) (ct_cumulative_ack c)"
    and sel: "ct_selective_ack c \<noteq> 0 \<Longrightarrow> unat (ct_selective_ack c) \<in> A"
    and room: "unat (tp_next_send t) + 2 ^ 16 < 2 ^ 32"
  shows "sender_inv A (snd (handle_control now c g t))"
proof -
  obtain h t1 where r: "process_received_acknowledgment now (ack_of_control c t) g t = (h, t1)" by fastforce
  obtain h2 t2 where m: "mark_selective (ct_selective_ack c) h t1 = (h2, t2)" by fastforce
  have t1: "sender_inv A t1"
    using sender_inv_ack [OF inv _ room, of "ack_of_control c t" now g] tr
    unfolding r by (simp add: ack_of_control_def)
  have "sender_inv A t2" if "ct_selective_ack c \<noteq> 0"
    using sender_inv_selective [OF t1 sel [OF that], of h] by (simp add: m)
  then show ?thesis using t1 r m
    by (auto simp: handle_control_def intro: sender_inv_process sender_inv_cleanup)
qed

text \<open>A control packet that arrives at the sender.\<close>

lemma sender_inv_receive_control:
  assumes inv: "sender_inv A t" and c: "pk_ctrl p = Some c"
    and tr: "truthful A (tp_next_send t) (ct_cumulative_ack c)"
    and sel: "ct_selective_ack c \<noteq> 0 \<Longrightarrow> unat (ct_selective_ack c) \<in> A"
    and room: "unat (tp_next_send t) + 2 ^ 16 < 2 ^ 32"
  shows "sender_inv A (snd (tpdc_handle_received now (Some p) t))"
proof -
  obtain e b where v: "validate_and_record now (tpdc_validate_packet t) (Some p) (tp_base t) = (e, b)" by fastforce
  have t: "sender_inv A (t\<lparr>tp_base := b\<rparr>)" by (rule sender_inv_view [OF _ inv]) (simp add: sender_view_def)
  have "sender_inv A (snd (handle_control now c g (t\<lparr>tp_base := b\<rparr>)))" for g
    by (rule sender_inv_control [OF t]) (use tr sel room in simp_all)
  moreover have "sender_inv A (tpdc_handle_error x (t\<lparr>tp_base := b\<rparr>))" for x
    by (rule sender_inv_error [OF t])
  ultimately show ?thesis using t v c
    by (simp add: tpdc_handle_received_def Let_def split: option.split)
qed

end
