(* ===== verification/TpdcReceiver.thy ===== *)
theory TpdcReceiver
  imports TpdcSender
begin

text \<open>
  The receiver half of a TPDC session: the set of sequence numbers it has, and what its
  acknowledgements claim.
\<close>

section \<open>The invariant\<close>

definition received :: "tpdc \<Rightarrow> nat set" where
  "received t = {s. 1 \<le> s \<and> s < unat (tp_next_receive t)} \<union> keys (tp_receive_buffer t)"

definition claim_ok :: "nat \<Rightarrow> nat set \<Rightarrow> packet \<Rightarrow> bool" where
  "claim_ok n R p \<longleftrightarrow> (\<exists>c. pk_ctrl p = Some c \<and> {s. 1 \<le> s \<and> s \<le> unat (ct_cumulative_ack c)} \<subseteq> R \<and>
     unat (ct_cumulative_ack c) < n \<and> (ct_selective_ack c \<noteq> 0 \<longrightarrow> unat (ct_selective_ack c) \<in> R))"

text \<open>All numbers are below \<open>n\<close>, the next number of the sender; the buffer holds numbers above
  the next expected one.\<close>

definition receiver_inv :: "nat \<Rightarrow> tpdc \<Rightarrow> bool" where
  "receiver_inv n t \<longleftrightarrow>
     1 \<le> unat (tp_next_receive t) \<and> unat (tp_next_receive t) \<le> n \<and> n < 2 ^ 32 \<and>
     distinct (map fst (tp_receive_buffer t)) \<and>
     (\<forall>k \<in> keys (tp_receive_buffer t). unat (tp_next_receive t) < k \<and> k < n) \<and>
     (\<forall>p \<in> set (tp_out t). claim_ok n (received t) p)"

lemma claim_ok_mono: "claim_ok n R p \<Longrightarrow> R \<subseteq> R' \<Longrightarrow> n \<le> n' \<Longrightarrow> claim_ok n' R' p"
  unfolding claim_ok_def by (meson le_trans less_le_trans subset_iff)

lemma receiver_inv_mono: "receiver_inv n t \<Longrightarrow> n \<le> n' \<Longrightarrow> n' < 2 ^ 32 \<Longrightarrow> receiver_inv n' t"
  unfolding receiver_inv_def using claim_ok_mono [of n "received t" _ "received t" n'] by (meson le_trans less_le_trans order_refl)

lemma received_below: "receiver_inv n t \<Longrightarrow> s \<in> received t \<Longrightarrow> 1 \<le> s \<and> s < n"
  by (auto simp: receiver_inv_def received_def)

definition receiver_view :: "tpdc \<Rightarrow> u32 \<times> (u32 \<times> buffered) list \<times> packet list" where
  "receiver_view t = (tp_next_receive t, tp_receive_buffer t, tp_out t)"

lemma receiver_inv_view: "receiver_view t' = receiver_view t \<Longrightarrow> receiver_inv n t \<Longrightarrow> receiver_inv n t'"
  by (simp add: receiver_inv_def receiver_view_def received_def)

lemma received_view: "receiver_view t' = receiver_view t \<Longrightarrow> received t' = received t"
  by (simp add: receiver_view_def received_def)

lemma receiver_view_frame [simp]:
  "receiver_view (tpdc_update_statistics t) = receiver_view t"
  "receiver_view (tpdc_handle_error e t) = receiver_view t"
  "receiver_view (tpdc_note_ses ns t) = receiver_view t"
  "receiver_view (schedule_acknowledgment now b t) = receiver_view t"
  "receiver_view (note_read_gap now p seq t) = receiver_view t"
  "receiver_view (prune_read_gaps t) = receiver_view t"
  by (simp_all add: receiver_view_def tpdc_update_statistics_def tpdc_handle_error_def tpdc_note_ses_def
      schedule_acknowledgment_def note_read_gap_def prune_read_gaps_def Let_def split: option.split)

lemma receiver_view_update [simp]:
  "receiver_view (t\<lparr>tp_base := b\<rparr>) = receiver_view t"
  "receiver_view (t\<lparr>tp_totals := n\<rparr>) = receiver_view t"
  "receiver_view (t\<lparr>tp_stats := st\<rparr>) = receiver_view t"
  "receiver_view (t\<lparr>tp_highest := k\<rparr>) = receiver_view t"
  "receiver_view (t\<lparr>tp_ack_event := e\<rparr>) = receiver_view t"
  "receiver_view (t\<lparr>tp_pending_sack := m\<rparr>) = receiver_view t"
  "receiver_view (t\<lparr>tp_pending_gap_nack := m\<rparr>) = receiver_view t"
  by (simp_all add: receiver_view_def)

lemma receiver_view_next: "receiver_view t' = receiver_view t \<Longrightarrow> tp_next_receive t' = tp_next_receive t"
  by (simp add: receiver_view_def)

lemma receiver_view_out:
  "receiver_view t' = receiver_view t \<Longrightarrow>
     receiver_view (t'\<lparr>tp_out := tp_out t' @ [p]\<rparr>) = receiver_view (t\<lparr>tp_out := tp_out t @ [p]\<rparr>)"
  by (simp add: receiver_view_def)

section \<open>Taking the buffered successors\<close>

lemma inj_unat: "inj (unat :: u32 \<Rightarrow> nat)"
  by (rule injI) (simp add: word_unat_eq_iff)

lemma keys_alt: "keys xs = unat ` set (map fst xs)"
  by (simp add: keys_def)

lemma keys_delete: "keys (AList.delete k xs) = keys xs - {unat k}"
proof -
  have "set (map fst (AList.delete k xs)) = set (map fst xs) - {k}" by (simp add: delete_keys set_diff_eq)
  then show ?thesis unfolding keys_alt by (simp only: image_set_diff [OF inj_unat] image_insert image_empty)
qed

lemma in_keys: "unat k \<in> keys xs \<longleftrightarrow> map_of xs k \<noteq> None"
  unfolding keys_def inj_image_mem_iff [OF inj_unat] map_of_eq_None_iff by simp

lemma take_in_order_spec:
  assumes "take_in_order seq buf = (n, rest)" "distinct (map fst buf)" "\<And>k. k \<in> keys buf \<Longrightarrow> k < m" "m < 2 ^ 32"
    and "unat seq \<le> m"
  shows "unat seq \<le> unat n \<and> unat n \<le> m \<and> {s. unat seq \<le> s \<and> s < unat n} \<subseteq> keys buf \<and>
    keys rest = keys buf - {s. unat seq \<le> s \<and> s < unat n} \<and> unat n \<notin> keys buf \<and> distinct (map fst rest)"
  using assms
proof (induction seq buf rule: take_in_order.induct)
  case (1 seq buf)
  show ?case
  proof (cases "map_of buf seq = None")
    case True
    then have "n = seq" "rest = buf" using 1(2) by (simp_all add: take_in_order.simps [of seq buf])
    then show ?thesis using True 1(3,6) in_keys [of seq buf] by auto
  next
    case False
    then have k: "unat seq \<in> keys buf" using in_keys [of seq buf] by simp
    then have "unat seq < m" using 1(4) by simp
    then have suc: "unat (seq + 1) = Suc (unat seq)" using 1(5) by (subst unat_add_nowrap) simp_all
    have step: "take_in_order (seq + 1) (AList.delete seq buf) = (n, rest)"
      using 1(2) False by (simp add: take_in_order.simps [of seq buf])
    have "unat (seq + 1) \<le> unat n \<and> unat n \<le> m \<and> {s. unat (seq + 1) \<le> s \<and> s < unat n} \<subseteq> keys (AList.delete seq buf) \<and>
      keys rest = keys (AList.delete seq buf) - {s. unat (seq + 1) \<le> s \<and> s < unat n} \<and>
      unat n \<notin> keys (AList.delete seq buf) \<and> distinct (map fst rest)"
    proof (rule 1(1) [OF _ step])
      show "distinct (map fst (AList.delete seq buf))" using 1(3) by (rule distinct_delete)
    qed (use False 1(4,5) suc \<open>unat seq < m\<close> in \<open>auto simp: keys_delete\<close>)
    note H = this [unfolded keys_delete suc]
    have IH: "Suc (unat seq) \<le> unat n" "unat n \<le> m"
      "{s. Suc (unat seq) \<le> s \<and> s < unat n} \<subseteq> keys buf - {unat seq}"
      "keys rest = keys buf - {unat seq} - {s. Suc (unat seq) \<le> s \<and> s < unat n}"
      "unat n \<notin> keys buf - {unat seq}" "distinct (map fst rest)"
      by (rule H [THEN conjunct1], rule H [THEN conjunct2, THEN conjunct1],
          rule H [THEN conjunct2, THEN conjunct2, THEN conjunct1],
          rule H [THEN conjunct2, THEN conjunct2, THEN conjunct2, THEN conjunct1],
          rule H [THEN conjunct2, THEN conjunct2, THEN conjunct2, THEN conjunct2, THEN conjunct1],
          rule H [THEN conjunct2, THEN conjunct2, THEN conjunct2, THEN conjunct2, THEN conjunct2])
    have eq: "{s. unat seq \<le> s \<and> s < unat n} = insert (unat seq) {s. Suc (unat seq) \<le> s \<and> s < unat n}"
      using IH(1) by auto
    have "{s. unat seq \<le> s \<and> s < unat n} \<subseteq> keys buf"
      unfolding eq using k IH(3) by (simp only: insert_subset subset_Diff_insert) simp
    moreover have "keys rest = keys buf - {s. unat seq \<le> s \<and> s < unat n}"
      unfolding eq IH(4) by (rule Diff_insert2 [symmetric])
    moreover have "unat n \<notin> keys buf" using IH(1,5) by auto
    moreover have "unat seq \<le> unat n" using IH(1) by linarith
    ultimately show ?thesis using IH(2,6) by (intro conjI)
  qed
qed

lemma cover_split:
  assumes "\<And>s. x < s \<Longrightarrow> s < m \<Longrightarrow> s \<in> K" "\<And>s. s \<in> K \<Longrightarrow> x < s" "x < m" "(1 :: nat) \<le> x"
  shows "(1 \<le> s \<and> s < m) \<or> (s \<in> K \<and> \<not> (x < s \<and> s < m)) \<longleftrightarrow> s = x \<or> (1 \<le> s \<and> s < x) \<or> s \<in> K"
  using assms(1) [of s] assms(2) [of s] assms(3,4) by (cases "s = x"; cases "s < x") auto

lemma accept_in_order_spec:
  assumes inv: "receiver_inv n t" and lt: "unat (tp_next_receive t) < n"
  shows "receiver_inv n (accept_in_order t) \<and>
    received (accept_in_order t) = insert (unat (tp_next_receive t)) (received t)"
proof -
  let ?x = "tp_next_receive t" and ?buf = "tp_receive_buffer t"
  obtain m rest where tk: "take_in_order (?x + 1) ?buf = (m, rest)" by fastforce
  have I: "1 \<le> unat ?x" "n < 2 ^ 32" "distinct (map fst ?buf)"
    "\<And>k. k \<in> keys ?buf \<Longrightarrow> unat ?x < k \<and> k < n" "\<And>p. p \<in> set (tp_out t) \<Longrightarrow> claim_ok n (received t) p"
    using inv by (simp_all add: receiver_inv_def)
  have suc: "unat (?x + 1) = Suc (unat ?x)" using lt I(2) by (subst unat_add_nowrap) simp_all
  have sp: "unat (?x + 1) \<le> unat m" "unat m \<le> n" "{s. unat (?x + 1) \<le> s \<and> s < unat m} \<subseteq> keys ?buf"
    "keys rest = keys ?buf - {s. unat (?x + 1) \<le> s \<and> s < unat m}" "unat m \<notin> keys ?buf" "distinct (map fst rest)"
    using take_in_order_spec [OF tk I(3) _ I(2)] I(4) lt suc by auto
  have acc: "accept_in_order t = t\<lparr>tp_next_receive := m, tp_receive_buffer := rest, tp_receive_base := m\<rparr>"
    using tk by (simp add: accept_in_order_def)
  have rec: "received (accept_in_order t) = insert (unat ?x) (received t)"
  proof (rule set_eqI)
    fix s
    have "s \<in> received (accept_in_order t) \<longleftrightarrow> (1 \<le> s \<and> s < unat m) \<or> (s \<in> keys ?buf \<and> \<not> (unat ?x < s \<and> s < unat m))"
      by (simp add: acc received_def sp(4) suc) linarith
    also have "\<dots> \<longleftrightarrow> s = unat ?x \<or> (1 \<le> s \<and> s < unat ?x) \<or> s \<in> keys ?buf"
    proof (rule cover_split)
      show "s \<in> keys ?buf" if "unat ?x < s" "s < unat m" for s
        using sp(3) that unfolding suc by auto
      show "unat ?x < unat m" using sp(1) suc by linarith
    qed (use I in auto)
    finally show "s \<in> received (accept_in_order t) \<longleftrightarrow> s \<in> insert (unat ?x) (received t)"
      by (auto simp: received_def)
  qed
  have "\<forall>k \<in> keys rest. unat m < k \<and> k < n"
  proof
    fix k assume "k \<in> keys rest"
    then have k: "k \<in> keys ?buf" "\<not> (unat (?x + 1) \<le> k \<and> k < unat m)" using sp(4) by blast+
    then have "unat ?x < k" "k < n" "k \<noteq> unat m" using I(4) sp(5) by blast+
    then show "unat m < k \<and> k < n" using k(2) suc by linarith
  qed
  moreover have "\<forall>p \<in> set (tp_out t). claim_ok n (received (accept_in_order t)) p"
    using I(5) rec claim_ok_mono by blast
  ultimately have "receiver_inv n (accept_in_order t)"
    using sp(1,2,6) I(2) suc by (simp add: receiver_inv_def acc)
  then show ?thesis using rec by simp
qed

section \<open>Receiving a data packet\<close>

lemma received_update:
  "received (t\<lparr>tp_receive_buffer := AList.update k v (tp_receive_buffer t), tp_stats := x\<rparr>) = insert (unat k) (received t)"
  by (auto simp: received_def keys_insert)

lemma accept_out_of_order_spec:
  assumes inv: "receiver_inv n t" and seq: "unat (tp_next_receive t) < unat seq" "unat seq < n"
    and acc: "accept_out_of_order now p seq t = (ok, t')"
  shows "receiver_inv n t' \<and> received t \<subseteq> received t' \<and> received t' \<subseteq> insert (unat seq) (received t)"
proof -
  let ?new = "t\<lparr>tp_receive_buffer := AList.update seq (new_buffered now p False False seq) (tp_receive_buffer t),
    tp_stats := (tp_stats t)\<lparr>ts_out_of_order := ts_out_of_order (tp_stats t) + 1\<rparr>\<rparr>"
  have rec: "received ?new = insert (unat seq) (received t)" by (rule received_update)
  have "\<forall>q \<in> set (tp_out t). claim_ok n (received ?new) q"
    using inv claim_ok_mono unfolding rec receiver_inv_def by blast
  then have new: "receiver_inv n ?new"
    using inv seq by (simp add: receiver_inv_def keys_insert distinct_update)
  have "receiver_view t' = receiver_view t \<or> t' = ?new"
    using acc by (auto simp: accept_out_of_order_def split: if_splits)
  then show ?thesis
  proof
    assume v: "receiver_view t' = receiver_view t"
    then show ?thesis using receiver_inv_view [OF v inv] received_view [OF v] by auto
  qed (use new rec in auto)
qed

text \<open>The receiver gains at most the number it is handed, and loses nothing.\<close>

definition gains :: "nat \<Rightarrow> nat \<Rightarrow> tpdc \<Rightarrow> tpdc \<Rightarrow> bool" where
  "gains n k t t' \<longleftrightarrow> receiver_inv n t' \<and> received t \<subseteq> received t' \<and> received t' \<subseteq> insert k (received t)"

lemma gains_view: "receiver_view t' = receiver_view t \<Longrightarrow> receiver_inv n t \<Longrightarrow> gains n k t t'"
  using receiver_inv_view [of t' t n] received_view [of t' t] unfolding gains_def by blast

lemma gains_view_left: "gains n k t t' \<Longrightarrow> receiver_view t = receiver_view u \<Longrightarrow> gains n k u t'"
  by (simp add: gains_def received_view [of t u])

lemma gains_view_right: "gains n k t t' \<Longrightarrow> receiver_view u = receiver_view t' \<Longrightarrow> gains n k t u"
  unfolding gains_def using receiver_inv_view [of u t'] received_view [of u t'] by simp

lemma gains_accept:
  assumes inv: "receiver_inv n t" and seq: "unat seq < n" "\<not> seq < tp_next_receive t"
    and acc: "(if seq = tp_next_receive t then (True, accept_in_order t) else accept_out_of_order now p seq t) = (ok, t')"
  shows "gains n (unat seq) t t'"
proof (cases "seq = tp_next_receive t")
  case True
  then show ?thesis using accept_in_order_spec [OF inv] seq acc by (auto simp: gains_def)
next
  case False
  then have "tp_next_receive t < seq" using seq(2) by simp
  then show ?thesis
    using accept_out_of_order_spec [OF inv _ seq(1)] False acc by (simp add: gains_def word_less_nat_alt)
qed

lemma gains_buffer:
  assumes inv: "receiver_inv n t" and seq: "unat seq < n"
  shows "gains n (unat seq) t (snd (buffer_packet_for_receiving now p seq t))"
proof -
  define t1 where "t1 = prune_read_gaps (t\<lparr>tp_totals := (tp_totals t)\<lparr>tt_rx_data := tt_rx_data (tp_totals t) + 1\<rparr>\<rparr>)"
  define t2 where "t2 = t1\<lparr>tp_base := pdc_update_statistics now False p (tp_base t1)\<rparr>"
  define t3 where "t3 = t2\<lparr>tp_highest := max (tp_highest t2) seq\<rparr>"
  have v1: "receiver_view t1 = receiver_view t" and v2: "receiver_view t2 = receiver_view t"
    and v3: "receiver_view t3 = receiver_view t" by (simp_all add: t1_def t2_def t3_def)
  have next3: "tp_next_receive t3 = tp_next_receive t1" by (simp add: t3_def t2_def)
  obtain ok t4 where r: "(if seq = tp_next_receive t3 then (True, accept_in_order t3)
      else accept_out_of_order now p seq t3) = (ok, t4)" by fastforce
  have unf: "buffer_packet_for_receiving now p seq t =
    (if seq < tp_next_receive t1
     then (True, schedule_acknowledgment now False t2)
     else if \<not> is_in_receive_window seq t1
     then (False, t1\<lparr>tp_stats := (tp_stats t1)\<lparr>ts_out_of_order := ts_out_of_order (tp_stats t1) + 1\<rparr>\<rparr>)
     else if \<not> ok then (False, t4)
     else let t5 = t4\<lparr>tp_pending_sack := of_nat (length (tp_receive_buffer t4)),
                 tp_pending_gap_nack := (if has_gap t4 then 1 else 0)\<rparr>
       in (True, tpdc_update_statistics (schedule_acknowledgment now (has_gap t4)
             (if has_gap t4 then note_read_gap now p seq t5 else t5))))"
    unfolding buffer_packet_for_receiving_def Let_def t1_def [symmetric] t2_def [symmetric] t3_def [symmetric] r prod.case
    by simp
  show ?thesis
  proof (cases "\<not> seq < tp_next_receive t1 \<and> is_in_receive_window seq t1")
    case False
    then have "receiver_view (snd (buffer_packet_for_receiving now p seq t)) = receiver_view t"
      using v1 v2 unfolding unf by (auto simp: Let_def)
    then show ?thesis by (rule gains_view [OF _ inv])
  next
    case True
    have "gains n (unat seq) t3 t4"
      by (rule gains_accept [OF receiver_inv_view [OF v3 inv] seq _ r]) (use True next3 in simp)
    then have g: "gains n (unat seq) t t4" using v3 by (rule gains_view_left)
    have "receiver_view (snd (buffer_packet_for_receiving now p seq t)) = receiver_view t4"
      using True unfolding unf Let_def by simp
    then show ?thesis by (rule gains_view_right [OF g])
  qed
qed

section \<open>Acknowledging\<close>

lemma receiver_inv_emit:
  assumes inv: "receiver_inv n t" and claim: "claim_ok n (received t) p"
    and view: "receiver_view t' = receiver_view (t\<lparr>tp_out := tp_out t @ [p]\<rparr>)"
  shows "receiver_inv n t' \<and> received t' = received t"
proof -
  have "receiver_inv n (t\<lparr>tp_out := tp_out t @ [p]\<rparr>)"
    using inv claim by (auto simp: receiver_inv_def received_def)
  then show ?thesis using receiver_inv_view [OF view] received_view [OF view] by (simp add: received_def)
qed

lemma send_control_view:
  assumes "send_control_packet now flags cumulative selective gap t = (ok, t')"
  shows "receiver_view t' = receiver_view t \<or>
    (\<exists>p c. pk_ctrl p = Some c \<and> ct_cumulative_ack c = cumulative \<and> ct_selective_ack c = selective \<and>
      receiver_view t' = receiver_view (t\<lparr>tp_out := tp_out t @ [p]\<rparr>))"
proof (cases "tp_device t")
  case True
  let ?gap_set = "flags AND CTRL_GAP_NACK \<noteq> 0 \<and> gap \<noteq> 0"
  let ?c = "\<lparr>ct_flags = flags, ct_cumulative_ack = cumulative, ct_selective_ack = selective, ct_gap_nack = gap\<rparr>"
  define t1 where "t1 = (case if ?gap_set then map_of (tp_read_gaps t) gap else None of
      None \<Rightarrow> t
    | Some g \<Rightarrow> tpdc_note_ses [GapNackSent (gc_job g) (gc_msg g) (gc_peer g) gap now,
        TpdcReadGapNackSent (gc_job g) (gc_msg g) (gc_peer g) gap (gc_detected g) now] t)"
  define p where "p = add_header ((create_pds_header (tp_base t1) False False)\<lparr>ph_seq := 0, ph_reliable := True\<rparr>)
    (empty_packet\<lparr>pk_ctrl := Some ?c,
       pk_recovery := (if ?gap_set then Some \<lparr>rt_gap_nack_sent = Some now, rt_retransmit_tx = None\<rparr> else None)\<rparr>)"
  define t2 where "t2 = t1\<lparr>tp_base := pdc_update_statistics now True p (tp_base t1),
    tp_totals := (tp_totals t1)\<lparr>tt_tx_control := tt_tx_control (tp_totals t1) + 1\<rparr>\<rparr>"
  have "receiver_view t1 = receiver_view t" by (simp add: t1_def split: option.split)
  then have v: "receiver_view t2 = receiver_view t" by (simp add: t2_def)
  have "t' = (if tp_channel t2 then t2\<lparr>tp_out := tp_out t2 @ [p]\<rparr> else t2)"
    using assms True unfolding send_control_packet_def Let_def t1_def [symmetric] p_def [symmetric] t2_def [symmetric]
    by (auto split: if_splits)
  moreover have "pk_ctrl p = Some ?c" by (simp add: p_def add_header_def)
  ultimately show ?thesis
    by (cases "tp_channel t2") (auto simp: v receiver_view_out [OF v, of p] intro!: exI [of _ p] exI [of _ ?c])
qed (use assms in \<open>simp add: send_control_packet_def\<close>)

lemma receiver_claims:
  assumes inv: "receiver_inv n t"
  shows "{s. 1 \<le> s \<and> s \<le> unat (ak_seq (create_acknowledgment t))} \<subseteq> received t"
    and "unat (ak_seq (create_acknowledgment t)) < n"
proof -
  have "1 \<le> tp_next_receive t" using inv by (simp add: receiver_inv_def word_le_nat_alt)
  then have "unat (tp_next_receive t - 1) = unat (tp_next_receive t) - 1" by (simp add: unat_sub)
  moreover have "0 < tp_next_receive t" using inv by (simp add: receiver_inv_def word_less_nat_alt)
  ultimately have "unat (ak_seq (create_acknowledgment t)) = unat (tp_next_receive t) - 1"
    by (simp add: create_acknowledgment_def)
  then show "{s. 1 \<le> s \<and> s \<le> unat (ak_seq (create_acknowledgment t))} \<subseteq> received t"
    "unat (ak_seq (create_acknowledgment t)) < n"
    using inv by (auto simp: receiver_inv_def received_def)
qed

lemma selective_received:
  assumes "tp_receive_buffer t \<noteq> []"
  shows "unat (Min (set (map fst (tp_receive_buffer t)))) \<in> received t"
proof -
  have "Min (set (map fst (tp_receive_buffer t))) \<in> set (map fst (tp_receive_buffer t))"
    using assms by (intro Min_in) simp_all
  then have "unat (Min (set (map fst (tp_receive_buffer t)))) \<in> keys (tp_receive_buffer t)"
    unfolding keys_alt by (rule imageI)
  then show ?thesis by (simp add: received_def)
qed

lemma receiver_inv_send_ack:
  assumes inv: "receiver_inv n t" and ack: "{s. 1 \<le> s \<and> s \<le> unat (ak_seq a)} \<subseteq> received t" "unat (ak_seq a) < n"
  shows "receiver_inv n (snd (send_acknowledgment now a t)) \<and> received (snd (send_acknowledgment now a t)) = received t"
proof -
  let ?sacked = "map fst (tp_receive_buffer t)"
  let ?sel = "if ?sacked \<noteq> [] then Min (set ?sacked) else 0"
  let ?f1 = "if ?sacked \<noteq> [] then CTRL_ACK OR CTRL_SACK else CTRL_ACK"
  let ?flags = "if ak_nacks a \<noteq> [] then ?f1 OR CTRL_GAP_NACK else ?f1"
  let ?gap = "case ak_nacks a of [] \<Rightarrow> 0 | n # _ \<Rightarrow> n"
  obtain ok t1 where r: "send_control_packet now ?flags (ak_seq a) ?sel ?gap t = (ok, t1)" by fastforce
  have sel: "?sel \<noteq> 0 \<longrightarrow> unat ?sel \<in> received t" using selective_received [of t] by simp
  have "receiver_view (snd (send_acknowledgment now a t)) = receiver_view t1"
    using r unfolding send_acknowledgment_def Let_def by simp
  moreover have "claim_ok n (received t) p" if "pk_ctrl p = Some c" "ct_cumulative_ack c = ak_seq a"
    "ct_selective_ack c = ?sel" for p c
    unfolding claim_ok_def using that ack sel by (intro exI [of _ c]) simp
  ultimately show ?thesis
    using send_control_view [OF r] receiver_inv_view [OF _ inv] received_view receiver_inv_emit [OF inv] by metis
qed

lemma receiver_inv_ack_event:
  assumes inv: "receiver_inv n t"
  shows "receiver_inv n (send_pending_acknowledgments now t) \<and> received (send_pending_acknowledgments now t) = received t"
proof -
  let ?t1 = "t\<lparr>tp_ack_event := None\<rparr>"
  have v: "receiver_view ?t1 = receiver_view t" by (simp add: receiver_view_def)
  have inv1: "receiver_inv n ?t1" by (rule receiver_inv_view [OF v inv])
  show ?thesis
    using receiver_inv_send_ack [OF inv1 receiver_claims [OF inv1]] received_view [OF v]
    by (simp add: send_pending_acknowledgments_def Let_def)
qed

end
