(* ===== verification/TpdcSession.thy ===== *)
theory TpdcSession
  imports TpdcReceiver PdcFrames
begin

text \<open>
  A TPDC session: a sender and a receiver joined by a network that may lose, repeat, delay and
  reorder packets in both directions. The steps are the operations of \<open>Tpdc\<close>; the invariant joins
  \<open>sender_inv\<close> and \<open>receiver_inv\<close>.
\<close>

section \<open>The next sequence number only grows\<close>

lemma next_send_frame [simp]:
  "tp_next_send (arm_timeout now seq t) = tp_next_send t"
  "tp_next_send (snd (transmit_packet now bp t)) = tp_next_send t"
  "tp_next_send (tpdc_update_statistics t) = tp_next_send t"
  "tp_next_send (tpdc_handle_error e t) = tp_next_send t"
  "tp_next_send (tpdc_note_ses ns t) = tp_next_send t"
  "tp_next_send (update_rto_estimate m t) = tp_next_send t"
  "tp_next_send (mark_recovery now seq t) = tp_next_send t"
  "tp_next_send (expire_timeout seq t) = tp_next_send t"
  "tp_next_send (cleanup_acknowledged_packets t) = tp_next_send t"
  "tp_next_send (snd (mark_selective seq h t)) = tp_next_send t"
  by (simp_all add: arm_timeout_def transmit_packet_def tpdc_update_statistics_def tpdc_handle_error_def
      tpdc_note_ses_def update_rto_estimate_def mark_recovery_def expire_timeout_def mark_selective_def
      cleanup_acknowledged_packets_def Let_def split: option.split)

lemma next_send_transmit: "transmit_packet now bp t = (ok, t') \<Longrightarrow> tp_next_send t' = tp_next_send t"
  using next_send_frame(2) [of now bp t] by simp

lemma next_send_retransmit [simp]: "tp_next_send (retransmit_packet now seq t) = tp_next_send t"
  by (simp add: retransmit_packet_def Let_def next_send_transmit split: option.split prod.split)

lemma next_send_timeout [simp]: "tp_next_send (handle_rto_timeout now seq t) = tp_next_send t"
  by (simp add: handle_rto_timeout_def)

lemma next_send_retransmit_all [simp]: "tp_next_send (snd (retransmit_all now seqs t)) = tp_next_send t"
  by (induction seqs arbitrary: t) (simp_all add: case_prod_beta)

lemma next_send_ack_range [simp]: "tp_next_send (snd (ack_range now n seq t)) = tp_next_send t"
  by (induction n arbitrary: seq t) (simp_all add: case_prod_beta Let_def split: option.split)

lemma next_send_nack [simp]: "tp_next_send (observe_gap_nack now g seq t) = tp_next_send t"
  by (simp add: observe_gap_nack_def Let_def split: option.split)

lemma next_send_nacks [simp]: "tp_next_send (observe_gap_nacks now g ns t) = tp_next_send t"
  by (induction ns arbitrary: t) simp_all

lemma next_send_Suc: "is_in_send_window (tp_next_send t) t \<Longrightarrow> unat (tp_next_send t + 1) = Suc (unat (tp_next_send t))"
  unfolding is_in_send_window_def by (elim conjE) (rule unat_Suc_lt)

lemma next_send_drain: "unat (tp_next_send t) \<le> unat (tp_next_send (drain_send_queue now t))"
proof (induction "length (tp_send_queue t)" arbitrary: t rule: less_induct)
  case less
  show ?case
  proof (cases "is_in_send_window (tp_next_send t) t")
    case win: True
    show ?thesis
    proof (cases "select_queued (tc_aggressive_drain (tp_config t)) (tp_send_queue t)")
      case None
      then show ?thesis by (subst drain_send_queue.simps) simp
    next
      case (Some x)
      obtain b q where sel: "select_queued (tc_aggressive_drain (tp_config t)) (tp_send_queue t) = Some (b, q)"
        using Some by (cases x) simp
      let ?bp = "b\<lparr>bp_seq := tp_next_send t, bp_timestamp := now, bp_packet := set_accept_timestamp now True (bp_packet b)\<rparr>"
      let ?t1 = "t\<lparr>tp_send_queue := q, tp_next_send := tp_next_send t + 1\<rparr>"
      let ?t2 = "?t1\<lparr>tp_send_buffer := AList.update (tp_next_send t) ?bp (tp_send_buffer t)\<rparr>"
      obtain sent t3 where tr: "transmit_packet now ?bp ?t2 = (sent, t3)" by fastforce
      have n3: "tp_next_send t3 = tp_next_send t + 1" using next_send_transmit [OF tr] by simp
      have step: "drain_send_queue now t = (if sent then drain_send_queue now (arm_timeout now (tp_next_send t) t3)
          else t3\<lparr>tp_send_buffer := AList.delete (tp_next_send t) (tp_send_buffer t3)\<rparr>)"
        using win sel tr by (subst drain_send_queue.simps) (simp add: generate_sequence_number_def)
      have "tp_send_queue t3 = q" using arg_cong [OF tr, of "\<lambda>x. tp_send_queue (snd x)"] by (simp add: queue_kept)
      then have "length (tp_send_queue (arm_timeout now (tp_next_send t) t3)) < length (tp_send_queue t)"
        using select_queued_length [OF sel] by (simp add: queue_kept)
      from less [OF this]
      have "unat (tp_next_send t + 1) \<le> unat (tp_next_send (drain_send_queue now (arm_timeout now (tp_next_send t) t3)))"
        by (simp add: n3)
      then show ?thesis using next_send_Suc [OF win] by (cases sent) (simp_all add: step n3)
    qed
  qed (subst drain_send_queue.simps, simp)
qed

lemma next_send_process: "unat (tp_next_send t) \<le> unat (tp_next_send (process_send_queue now t))"
  by (simp add: process_send_queue_def next_send_drain)

lemma next_send_send: "unat (tp_next_send t) \<le> unat (tp_next_send (snd (tpdc_send_packet now po som eom t)))"
  using next_send_Suc [of t]
  by (auto simp: tpdc_send_packet_def buffer_packet_for_sending_def generate_sequence_number_def Let_def
      next_send_transmit split: option.split prod.split)

lemma next_send_ack: "unat (tp_next_send t) \<le> unat (tp_next_send (snd (process_received_acknowledgment now ack g t)))"
proof -
  have mono: "unat (tp_next_send t) \<le> unat (tp_next_send (process_send_queue now u))"
    if "tp_next_send u = tp_next_send t" for u using next_send_process [of u now] by (simp add: that)
  have range: "tp_next_send u = tp_next_send v" if "ack_range now n seq v = (x, u)" for u v n seq x
    using next_send_ack_range [of now n seq v] by (simp add: that)
  show ?thesis
    by (auto simp: process_received_acknowledgment_def Let_def split: prod.split dest!: range intro!: mono)
qed

lemma next_send_control: "unat (tp_next_send t) \<le> unat (tp_next_send (snd (handle_control now c g t)))"
proof -
  obtain h t1 where r: "process_received_acknowledgment now (ack_of_control c t) g t = (h, t1)" by fastforce
  obtain h2 t2 where m: "mark_selective (ct_selective_ack c) h t1 = (h2, t2)" by fastforce
  have "unat (tp_next_send t) \<le> unat (tp_next_send t1)" using next_send_ack [of t now "ack_of_control c t" g] by (simp add: r)
  moreover have "tp_next_send t2 = tp_next_send t1" using next_send_frame(10) [of "ct_selective_ack c" h t1] by (simp add: m)
  ultimately show ?thesis
    using next_send_process [of "cleanup_acknowledged_packets t2" now] r m by (simp add: handle_control_def)
qed

lemma next_send_receive: "unat (tp_next_send t) \<le> unat (tp_next_send (snd (tpdc_handle_received now po t)))" if "po = Some p" "pk_ctrl p = Some c"
  for po
proof -
  obtain e b where v: "validate_and_record now (tpdc_validate_packet t) po (tp_base t) = (e, b)" by fastforce
  have "unat (tp_next_send t) \<le> unat (tp_next_send (snd (handle_control now c g (t\<lparr>tp_base := b\<rparr>))))" for g
    using next_send_control [of "t\<lparr>tp_base := b\<rparr>" now c g] by simp
  then show ?thesis using v that by (simp add: tpdc_handle_received_def Let_def split: option.split)
qed

section \<open>The session\<close>

record session =
  ss_snd :: tpdc
  ss_rcv :: tpdc

text \<open>A PDC as its constructor leaves it, with a device and a channel.\<close>

definition fresh_tpdc :: "tpdc \<Rightarrow> bool" where
  "fresh_tpdc t \<longleftrightarrow> tp_send_buffer t = [] \<and> tp_receive_buffer t = [] \<and> tp_send_queue t = [] \<and> tp_out t = [] \<and>
     tp_device t \<and> tp_channel t"

text \<open>
  The steps. \<open>tp_out\<close> is everything an end has put on the wire: a packet of it may arrive at the
  other end at any time, any number of times, or never. The sender stops short of the end of the
  32-bit sequence space (\<open>room\<close>).
\<close>

inductive session_step :: "session \<Rightarrow> session \<Rightarrow> bool" where
  send: "(\<And>p. po = Some p \<Longrightarrow> pk_ctrl p = None) \<Longrightarrow>
    session_step s (s\<lparr>ss_snd := snd (tpdc_send_packet now po som eom (ss_snd s))\<rparr>)"
| timeout: "map_of (tp_send_buffer (ss_snd s)) seq = Some bp \<Longrightarrow> bp_timeout bp = Some now \<Longrightarrow>
    session_step s (s\<lparr>ss_snd := handle_rto_timeout now seq (expire_timeout seq (ss_snd s))\<rparr>)"
| force: "session_step s (s\<lparr>ss_snd := snd (force_retransmission now (ss_snd s))\<rparr>)"
| process: "session_step s (s\<lparr>ss_snd := process_send_queue now (ss_snd s)\<rparr>)"
| ack: "p \<in> set (tp_out (ss_rcv s)) \<Longrightarrow> unat (tp_next_send (ss_snd s)) + 2 ^ 16 < 2 ^ 32 \<Longrightarrow>
    session_step s (s\<lparr>ss_snd := snd (tpdc_handle_received now (Some p) (ss_snd s))\<rparr>)"
| data: "p \<in> set (tp_out (ss_snd s)) \<Longrightarrow>
    session_step s (s\<lparr>ss_rcv := snd (tpdc_handle_received now (Some p) (ss_rcv s))\<rparr>)"
| ack_event: "tp_ack_event (ss_rcv s) = Some now \<Longrightarrow>
    session_step s (s\<lparr>ss_rcv := send_pending_acknowledgments now (ss_rcv s)\<rparr>)"
| activate: "session_step s (s\<lparr>ss_snd := (ss_snd s)\<lparr>tp_base := pdc_activate (tp_base (ss_snd s))\<rparr>,
    ss_rcv := (ss_rcv s)\<lparr>tp_base := pdc_activate (tp_base (ss_rcv s))\<rparr>\<rparr>)"

inductive_cases session_stepE: "session_step s s'"

inductive session_reachable :: "session \<Rightarrow> bool" where
  init: "fresh_tpdc a \<Longrightarrow> fresh_tpdc b \<Longrightarrow> tpdc_initialize ca a = (True, sa) \<Longrightarrow> tpdc_initialize cb b = (True, sb) \<Longrightarrow>
    session_reachable \<lparr>ss_snd = sa, ss_rcv = sb\<rparr>"
| step: "session_reachable s \<Longrightarrow> session_step s s' \<Longrightarrow> session_reachable s'"

definition session_inv :: "session \<Rightarrow> bool" where
  "session_inv s \<longleftrightarrow> sender_inv (received (ss_rcv s)) (ss_snd s) \<and>
     receiver_inv (unat (tp_next_send (ss_snd s))) (ss_rcv s)"

lemma session_inv_init:
  assumes "fresh_tpdc a" "fresh_tpdc b" "tpdc_initialize ca a = (True, sa)" "tpdc_initialize cb b = (True, sb)"
  shows "session_inv \<lparr>ss_snd = sa, ss_rcv = sb\<rparr>"
proof -
  have "fresh_tpdc sa \<and> tp_next_send sa = 1 \<and> tp_send_base sa = 1"
    using assms(1,3) by (auto simp: tpdc_initialize_def fresh_tpdc_def Let_def split: prod.splits if_splits)
  moreover have "fresh_tpdc sb \<and> tp_next_receive sb = 1"
    using assms(2,4) by (auto simp: tpdc_initialize_def fresh_tpdc_def Let_def split: prod.splits if_splits)
  ultimately show ?thesis
    by (auto simp: session_inv_def sender_inv_def receiver_inv_def fresh_tpdc_def keys_def)
qed

text \<open>A step of the sender, and a step of the receiver.\<close>

lemma session_inv_snd:
  assumes "session_inv s" "sender_inv (received (ss_rcv s)) t"
    and "unat (tp_next_send (ss_snd s)) \<le> unat (tp_next_send t)"
  shows "session_inv (s\<lparr>ss_snd := t\<rparr>)"
proof -
  have "unat (tp_next_send t) < 2 ^ LENGTH(32)" by (rule unsigned_less)
  then have "unat (tp_next_send t) < 2 ^ 32" by simp
  then show ?thesis using assms(1,2) receiver_inv_mono [OF _ assms(3)] by (simp add: session_inv_def)
qed

lemma session_inv_rcv:
  assumes "session_inv s" "gains (unat (tp_next_send (ss_snd s))) k (ss_rcv s) t"
  shows "session_inv (s\<lparr>ss_rcv := t\<rparr>)"
  using assms by (auto simp: session_inv_def gains_def intro: sender_inv_mono)

lemma sender_view_base [simp]: "sender_view (t\<lparr>tp_base := b\<rparr>) = sender_view t"
  by (simp add: sender_view_def)

lemma sender_inv_data:
  assumes "sender_inv A t" "p \<in> set (tp_out t)"
  obtains h where "pk_ctrl p = None" "peek_header p = Some h" "1 \<le> unat (ph_seq h)" "unat (ph_seq h) < unat (tp_next_send t)"
proof -
  have "data_packet (unat (tp_next_send t)) p" using assms by (simp add: sender_inv_def Let_def)
  then show ?thesis using that peek_header_first by (auto simp: data_packet_def)
qed

lemma gains_data:
  assumes inv: "receiver_inv n t" and p: "pk_ctrl p = None" "peek_header p = Some h" "unat (ph_seq h) < n"
  shows "gains n (unat (ph_seq h)) t (snd (tpdc_handle_received now (Some p) t))"
proof -
  obtain e b where v: "validate_and_record now (tpdc_validate_packet t) (Some p) (tp_base t) = (e, b)" by fastforce
  have b: "receiver_inv n (t\<lparr>tp_base := b\<rparr>)" by (rule receiver_inv_view [OF _ inv]) simp
  have "gains n (unat (ph_seq h)) t (snd (buffer_packet_for_receiving now p (ph_seq h) (t\<lparr>tp_base := b\<rparr>)))"
    by (rule gains_view_left [OF gains_buffer [OF b p(3)]]) simp
  then show ?thesis using v p gains_view [OF _ inv]
    by (simp add: tpdc_handle_received_def Let_def split: option.split)
qed

lemma session_inv_ack:
  assumes inv: "session_inv s" and p: "p \<in> set (tp_out (ss_rcv s))"
    and room: "unat (tp_next_send (ss_snd s)) + 2 ^ 16 < 2 ^ 32"
  shows "session_inv (s\<lparr>ss_snd := snd (tpdc_handle_received now (Some p) (ss_snd s))\<rparr>)"
proof -
  have "claim_ok (unat (tp_next_send (ss_snd s))) (received (ss_rcv s)) p"
    using inv p by (simp add: session_inv_def receiver_inv_def)
  then obtain c where c: "pk_ctrl p = Some c" "{s. 1 \<le> s \<and> s \<le> unat (ct_cumulative_ack c)} \<subseteq> received (ss_rcv s)"
    "unat (ct_cumulative_ack c) < unat (tp_next_send (ss_snd s))"
    "ct_selective_ack c \<noteq> 0 \<longrightarrow> unat (ct_selective_ack c) \<in> received (ss_rcv s)" by (auto simp: claim_ok_def)
  have "sender_inv (received (ss_rcv s)) (snd (tpdc_handle_received now (Some p) (ss_snd s)))"
    by (rule sender_inv_receive_control [OF _ c(1) _ _ room])
      (use inv c in \<open>auto simp: session_inv_def truthful_def\<close>)
  then show ?thesis by (rule session_inv_snd [OF inv]) (rule next_send_receive [OF refl c(1)])
qed

lemma session_inv_step:
  assumes "session_step s s'" and inv: "session_inv s"
  shows "session_inv s'"
  using assms(1)
proof cases
  case (send po now som eom)
  have "sender_inv (received (ss_rcv s)) (snd (tpdc_send_packet now po som eom (ss_snd s)))"
    using inv by (intro sender_inv_send send) (simp add: session_inv_def)
  then show ?thesis unfolding send by (rule session_inv_snd [OF inv]) (rule next_send_send)
next
  case (timeout seq bp now)
  have "sender_inv (received (ss_rcv s)) (handle_rto_timeout now seq (expire_timeout seq (ss_snd s)))"
    using inv by (intro sender_inv_timeout sender_inv_expire) (simp add: session_inv_def)
  then show ?thesis unfolding timeout by (rule session_inv_snd [OF inv]) simp
next
  case (force now)
  have "sender_inv (received (ss_rcv s)) (snd (force_retransmission now (ss_snd s)))"
    using inv unfolding force_retransmission_def by (intro sender_inv_retransmit_all) (simp add: session_inv_def)
  then show ?thesis unfolding force by (rule session_inv_snd [OF inv]) (simp add: force_retransmission_def)
next
  case (process now)
  have "sender_inv (received (ss_rcv s)) (process_send_queue now (ss_snd s))"
    using inv by (intro sender_inv_process) (simp add: session_inv_def)
  then show ?thesis unfolding process by (rule session_inv_snd [OF inv]) (rule next_send_process)
next
  case (ack p now)
  then show ?thesis using session_inv_ack [OF inv] by simp
next
  case (data p now)
  obtain h where "pk_ctrl p = None" "peek_header p = Some h" "unat (ph_seq h) < unat (tp_next_send (ss_snd s))"
    using sender_inv_data [OF _ data(2)] inv by (metis session_inv_def)
  then show ?thesis
    using data(1) session_inv_rcv [OF inv gains_data] inv by (simp add: session_inv_def)
next
  case (ack_event now)
  have "receiver_inv (unat (tp_next_send (ss_snd s))) (ss_rcv s)" using inv by (simp add: session_inv_def)
  note receiver_inv_ack_event [OF this, of now]
  then show ?thesis using inv ack_event by (simp add: session_inv_def)
next
  case activate
  have "sender_inv A (t\<lparr>tp_base := b\<rparr>)" if "sender_inv A t" for A t b
    by (rule sender_inv_view [OF _ that]) simp
  moreover have "receiver_inv n (t\<lparr>tp_base := b\<rparr>)" if "receiver_inv n t" for n t b
    by (rule receiver_inv_view [OF _ that]) simp
  ultimately show ?thesis using inv activate
    by (simp add: session_inv_def received_view [of "t\<lparr>tp_base := b\<rparr>" t for t b])
qed

lemma session_inv_reachable: "session_reachable s \<Longrightarrow> session_inv s"
  by (induction rule: session_reachable.induct) (auto intro: session_inv_init session_inv_step)

section \<open>What a session promises\<close>

lemma session_next_receive:
  assumes "session_reachable s"
  shows "unat (tp_next_receive (ss_rcv s)) \<notin> received (ss_rcv s)"
    "unat (tp_send_base (ss_snd s)) \<le> unat (tp_next_receive (ss_rcv s))"
    "unat (tp_next_receive (ss_rcv s)) \<le> unat (tp_next_send (ss_snd s))"
proof -
  have inv: "sender_inv (received (ss_rcv s)) (ss_snd s)" "receiver_inv (unat (tp_next_send (ss_snd s))) (ss_rcv s)"
    using session_inv_reachable [OF assms] by (simp_all add: session_inv_def)
  show fresh: "unat (tp_next_receive (ss_rcv s)) \<notin> received (ss_rcv s)"
    using inv(2) by (auto simp: receiver_inv_def received_def)
  have "1 \<le> unat (tp_next_receive (ss_rcv s))" using inv(2) by (simp add: receiver_inv_def)
  have "{k. 1 \<le> k \<and> k < unat (tp_send_base (ss_snd s))} \<subseteq> received (ss_rcv s)"
    using inv(1) by (simp add: sender_inv_def Let_def)
  then have "\<not> unat (tp_next_receive (ss_rcv s)) < unat (tp_send_base (ss_snd s))"
    using fresh \<open>1 \<le> unat (tp_next_receive (ss_rcv s))\<close> by blast
  then show "unat (tp_send_base (ss_snd s)) \<le> unat (tp_next_receive (ss_rcv s))" by simp
  show "unat (tp_next_receive (ss_rcv s)) \<le> unat (tp_next_send (ss_snd s))" using inv(2) by (simp add: receiver_inv_def)
qed

text \<open>
  C8: The sender never gives up a packet that the receiver does not have. In every reachable state of
  a session, over a network that may lose, repeat, delay and reorder packets and acknowledgements,
  each sequence number the sender has given out is still in its buffer or has been received, and the
  receiver has only numbers that were given out.
\<close>

theorem session_no_loss:
  assumes "session_reachable s"
  shows "(\<forall>k. 1 \<le> k \<and> k < unat (tp_next_send (ss_snd s)) \<longrightarrow>
      k \<in> keys (tp_send_buffer (ss_snd s)) \<or> k \<in> received (ss_rcv s)) \<and>
    (\<forall>k \<in> received (ss_rcv s). 1 \<le> k \<and> k < unat (tp_next_send (ss_snd s)))"
proof -
  have inv: "sender_inv (received (ss_rcv s)) (ss_snd s)" "receiver_inv (unat (tp_next_send (ss_snd s))) (ss_rcv s)"
    using session_inv_reachable [OF assms] by (simp_all add: session_inv_def)
  then have cover: "{k. 1 \<le> k \<and> k < unat (tp_next_send (ss_snd s))} \<subseteq>
      keys (tp_send_buffer (ss_snd s)) \<union> received (ss_rcv s)" by (simp add: sender_inv_def Let_def)
  show ?thesis
    using subsetD [OF cover] received_below [OF inv(2)] by (intro conjI allI ballI impI) simp_all
qed

text \<open>
  C11: The two windows stay together: the sender's base never passes the number the receiver waits
  for, which never passes the sender's next number, and that is at most the window size beyond
  the base.
\<close>

theorem session_windows:
  assumes "session_reachable s"
  shows "unat (tp_send_base (ss_snd s)) \<le> unat (tp_next_receive (ss_rcv s)) \<and>
    unat (tp_next_receive (ss_rcv s)) \<le> unat (tp_next_send (ss_snd s)) \<and>
    unat (tp_next_send (ss_snd s)) \<le> unat (tp_send_base (ss_snd s)) + unat (tc_send_window (tp_config (ss_snd s)))"
  using session_next_receive(2,3) [OF assms] session_inv_reachable [OF assms]
  by (simp add: session_inv_def sender_inv_def Let_def)

text \<open>
  C10: When the sender's buffer is empty, the transfer is complete: the receiver has every number
  the sender has given out, in order, and holds nothing back.
\<close>

theorem session_complete:
  assumes reach: "session_reachable s" and drained: "tp_send_buffer (ss_snd s) = []"
  shows "received (ss_rcv s) = {1..<unat (tp_next_send (ss_snd s))} \<and>
    tp_next_receive (ss_rcv s) = tp_next_send (ss_snd s) \<and> tp_receive_buffer (ss_rcv s) = []"
proof -
  let ?N = "unat (tp_next_send (ss_snd s))" and ?R = "unat (tp_next_receive (ss_rcv s))"
  have inv: "sender_inv (received (ss_rcv s)) (ss_snd s)" "receiver_inv ?N (ss_rcv s)"
    using session_inv_reachable [OF reach] by (simp_all add: session_inv_def)
  have "k \<in> received (ss_rcv s)" if "1 \<le> k" "k < ?N" for k
    using inv(1) that drained by (auto simp: sender_inv_def Let_def keys_def)
  then have all: "received (ss_rcv s) = {1..<?N}" using received_below [OF inv(2)] by auto
  have "1 \<le> ?R" using inv(2) by (simp add: receiver_inv_def)
  then have "?R = ?N" using session_next_receive [OF reach] all by auto
  moreover have "keys (tp_receive_buffer (ss_rcv s)) = {}"
    using inv(2) \<open>?R = ?N\<close> by (auto simp: receiver_inv_def)
  ultimately show ?thesis using all by (simp add: keys_def word_unat_eq_iff)
qed

section \<open>Recovery from loss\<close>

lemma mark_recovery_frame:
  "tp_out (mark_recovery now seq t) = tp_out t" "tp_config (mark_recovery now seq t) = tp_config t"
  "tp_device (mark_recovery now seq t) = tp_device t" "tp_channel (mark_recovery now seq t) = tp_channel t"
  by (simp_all add: mark_recovery_def tpdc_note_ses_def Let_def split: option.split)

lemma mark_recovery_packet:
  assumes "map_of (tp_send_buffer t) seq = Some bp"
  obtains bp' where "map_of (tp_send_buffer (mark_recovery now seq t)) seq = Some bp'"
    "bp_packet bp' = bp_packet bp" "bp_seq bp' = bp_seq bp" "bp_retransmissions bp' = bp_retransmissions bp"
  using assms that
  by (cases "is_read_response_packet (bp_packet bp)"; cases "map_of (tp_gap_observed t) seq")
    (simp_all add: mark_recovery_def tpdc_note_ses_def Let_def update_conv')

lemma out_arm [simp]: "tp_out (arm_timeout now seq t) = tp_out t"
  by (simp add: arm_timeout_def split: option.split)

lemma retransmit_emits:
  assumes bp: "map_of (tp_send_buffer t) seq = Some bp" "\<not> bp_acknowledged bp"
    "bp_retransmissions bp < tc_max_retransmissions (tp_config t)" and up: "tp_device t" "tp_channel t"
  obtains b u where "tp_out (retransmit_packet now seq t) = tp_out t @ [framed now b u]"
    "bp_packet b = bp_packet bp" "bp_seq b = bp_seq bp"
proof -
  let ?t1 = "mark_recovery now seq t"
  obtain b where b: "map_of (tp_send_buffer ?t1) seq = Some b" "bp_packet b = bp_packet bp" "bp_seq b = bp_seq bp"
    "bp_retransmissions b = bp_retransmissions bp" by (rule mark_recovery_packet [OF bp(1)])
  let ?n = "bp_retransmissions b + 1"
  let ?b = "b\<lparr>bp_retransmissions := ?n, bp_last_retransmission := now\<rparr>"
  let ?st = "(tp_stats ?t1)\<lparr>ts_retransmissions := ts_retransmissions (tp_stats ?t1) + 1\<rparr>"
  let ?t2 = "?t1\<lparr>tp_send_buffer := AList.update seq ?b (tp_send_buffer ?t1),
    tp_stats := (if ?n = 1 then ?st\<lparr>ts_fast_retransmissions := ts_fast_retransmissions ?st + 1\<rparr> else ?st)\<rparr>"
  obtain sent t3 where tr: "transmit_packet now ?b ?t2 = (sent, t3)" by fastforce
  have out: "sent \<and> tp_out t3 = tp_out t @ [framed now ?b ?t2]"
    using tr up by (auto simp: transmit_packet_def Let_def mark_recovery_frame)
  have "\<not> tc_max_retransmissions (tp_config ?t1) \<le> bp_retransmissions b"
    using bp(3) b(4) by (simp add: mark_recovery_frame)
  then have "retransmit_packet now seq t = arm_timeout now seq t3"
    using bp b(1) tr out unfolding retransmit_packet_def Let_def by simp
  then show ?thesis using that [of ?b ?t2] out b by simp
qed

text \<open>The state of the receiver in which it takes the packet it waits for.\<close>

definition ready_for :: "packet \<Rightarrow> tpdc \<Rightarrow> bool" where
  "ready_for p t \<longleftrightarrow> pb_active (tp_base t) \<and> pk_size p + pds_header_size \<le> unat (pc_max_packet (pb_config (tp_base t))) \<and>
     pb_config (tp_base t) = tc_base (tp_config t) \<and> is_in_receive_window (tp_next_receive t) t"

lemma pk_size_framed: "pk_size (framed now b u) = pds_header_size + pk_size (bp_packet b)"
  by (simp add: framed_def Let_def pk_size_add_header) (simp add: pk_size_def set_transmit_timestamp_def)

lemma next_receive_accepted:
  assumes inv: "receiver_inv n t" and lt: "unat (tp_next_receive t) < n" and ready: "ready_for (bp_packet b) t"
    and b: "bp_seq b = tp_next_receive t" "pk_ctrl (bp_packet b) = None"
  shows "unat (tp_next_receive t) \<in> received (snd (tpdc_handle_received now (Some (framed later b u)) t))"
proof -
  let ?p = "framed later b u"
  obtain bb where v: "validate_and_record now (tpdc_validate_packet t) (Some ?p) (tp_base t) = (None, bb)"
    using ready by (auto simp: validate_and_record_def tpdc_validate_packet_def pdc_validate_packet_def
        parsed_dest_fep_def pk_size_framed pds_header_size_def ready_for_def)
  have h: "pk_ctrl ?p = None" "\<exists>h. peek_header ?p = Some h \<and> ph_seq h = tp_next_receive t"
    using b by (simp_all add: framed_def Let_def) (simp_all add: add_header_def set_transmit_timestamp_def)
  define t1 where "t1 = prune_read_gaps (t\<lparr>tp_base := bb, tp_totals := (tp_totals t)\<lparr>tt_rx_data := tt_rx_data (tp_totals t) + 1\<rparr>\<rparr>)"
  define t3 where "t3 = t1\<lparr>tp_base := pdc_update_statistics now False ?p bb, tp_highest := max (tp_highest t1) (tp_next_receive t)\<rparr>"
  have v3: "receiver_view t3 = receiver_view t" by (simp add: t3_def t1_def)
  have "receiver_view (snd (buffer_packet_for_receiving now ?p (tp_next_receive t) (t\<lparr>tp_base := bb\<rparr>))) =
      receiver_view (accept_in_order t3)"
    using ready receiver_view_next [OF v3]
    by (simp add: buffer_packet_for_receiving_def Let_def prune_read_gaps_def is_in_receive_window_def ready_for_def
        t3_def t1_def)
  then have "received (snd (tpdc_handle_received now (Some ?p) t)) = received (accept_in_order t3)"
    using v h by (auto simp: tpdc_handle_received_def Let_def intro!: received_view)
  moreover have "tp_next_receive t3 = tp_next_receive t" by (rule receiver_view_next [OF v3])
  ultimately show ?thesis
    using accept_in_order_spec [OF receiver_inv_view [OF v3 inv]] lt by simp
qed

section \<open>What follows a step\<close>

lemma tpdc_identity_expire: "tpdc_identity (expire_timeout seq t) = tpdc_identity t"
  by (simp add: expire_timeout_def split: option.split)

text \<open>
  An operation puts packets on the wire, with the identifier of its context, and never takes one
  back; it does not change that identifier.
\<close>

definition end_id :: "tpdc \<Rightarrow> u16" where
  "end_id t = pc_pdc_id (fst (fst (tpdc_identity t)))"

definition stamped :: "u16 \<Rightarrow> packet \<Rightarrow> bool" where
  "stamped i p \<longleftrightarrow> (\<exists>h. peek_header p = Some h \<and> ph_pdc_id h = i \<and> ph_reliable h)"

definition out_grows :: "tpdc \<Rightarrow> tpdc \<Rightarrow> bool" where
  "out_grows t t' \<longleftrightarrow> end_id t' = end_id t \<and> set (tp_out t) \<subseteq> set (tp_out t') \<and>
     (\<forall>p \<in> set (tp_out t'). p \<in> set (tp_out t) \<or> stamped (end_id t) p)"

lemma out_grows_refl [simp]: "out_grows t t" by (simp add: out_grows_def)

lemma out_grows_trans [trans]: "out_grows a b \<Longrightarrow> out_grows b c \<Longrightarrow> out_grows a c" by (auto simp: out_grows_def)

text \<open>What does not matter.\<close>

lemma out_grows_same: "tp_out t' = tp_out t \<Longrightarrow> tpdc_identity t' = tpdc_identity t \<Longrightarrow> out_grows t t'"
  by (simp add: out_grows_def end_id_def)

lemma out_grows_from: "out_grows t' u \<Longrightarrow> tp_out t' = tp_out t \<Longrightarrow> tpdc_identity t' = tpdc_identity t \<Longrightarrow> out_grows t u"
  by (simp add: out_grows_def end_id_def)

lemma out_grows_to: "tp_out u' = tp_out u \<Longrightarrow> tpdc_identity u' = tpdc_identity u \<Longrightarrow> out_grows t u' \<longleftrightarrow> out_grows t u"
  by (simp add: out_grows_def end_id_def)

lemma stamped_framed: "stamped (end_id t) (framed now bp t)"
  by (simp add: stamped_def framed_def Let_def create_pds_header_def end_id_def tpdc_identity_def base_identity_def)

lemma out_kept [simp]:
  "tp_out (tpdc_update_statistics t) = tp_out t" "tp_out (tpdc_handle_error e t) = tp_out t"
  "tp_out (tpdc_note_ses ns t) = tp_out t" "tp_out (update_rto_estimate m t) = tp_out t"
  "tp_out (expire_timeout seq t) = tp_out t" "tp_out (cleanup_acknowledged_packets t) = tp_out t"
  "tp_out (snd (mark_selective seq h t)) = tp_out t"
  by (simp_all add: tpdc_update_statistics_def tpdc_handle_error_def tpdc_note_ses_def update_rto_estimate_def
      expire_timeout_def mark_selective_def cleanup_acknowledged_packets_def Let_def split: option.split)

lemma out_transmit: "out_grows u (snd (transmit_packet now bp u))"
  using stamped_framed [of u now bp] by (auto simp: transmit_packet_def Let_def out_grows_def end_id_def tpdc_identity_def)

lemma out_transmit_from: "tp_out u = tp_out t \<Longrightarrow> tpdc_identity u = tpdc_identity t \<Longrightarrow> out_grows t (snd (transmit_packet now bp u))"
  by (rule out_grows_from [OF out_transmit])

lemma out_grows_frame:
  "out_grows t (arm_timeout now seq u) \<longleftrightarrow> out_grows t u" "out_grows t (tpdc_update_statistics u) \<longleftrightarrow> out_grows t u"
  "out_grows t (u\<lparr>tp_send_buffer := b\<rparr>) \<longleftrightarrow> out_grows t u"
  by (rule out_grows_to; simp)+

lemma out_retransmit: "out_grows t (retransmit_packet now seq t)"
  by (cases "map_of (tp_send_buffer t) seq")
    (auto simp: retransmit_packet_def Let_def mark_recovery_frame case_prod_beta out_grows_frame
      intro!: out_transmit_from, simp_all add: out_grows_same mark_recovery_frame)

lemma out_timeout: "out_grows t (handle_rto_timeout now seq t)"
  unfolding handle_rto_timeout_def by (rule out_grows_from [OF out_retransmit]) simp_all

lemma out_retransmit_all: "out_grows t (snd (retransmit_all now seqs t))"
proof (induction seqs arbitrary: t)
  case (Cons seq seqs)
  have "out_grows t (snd (retransmit_all now seqs t))" "out_grows t (snd (retransmit_all now seqs (retransmit_packet now seq t)))"
    using Cons.IH out_grows_trans [OF out_retransmit Cons.IH] by blast+
  then show ?case by (simp add: case_prod_beta)
qed simp

lemma out_ack_range [simp]: "tp_out (snd (ack_range now n seq t)) = tp_out t"
  by (induction n arbitrary: seq t) (simp_all add: case_prod_beta Let_def split: option.split)

lemma out_gap_nack: "out_grows t (observe_gap_nack now g seq t)"
proof -
  have "out_grows t (retransmit_packet now seq u)" if "tp_out u = tp_out t" "tpdc_identity u = tpdc_identity t" for u
    by (rule out_grows_from [OF out_retransmit that])
  then show ?thesis by (simp add: observe_gap_nack_def Let_def split: option.split)
qed

lemma out_gap_nacks: "out_grows t (observe_gap_nacks now g ns t)"
proof (induction ns arbitrary: t)
  case (Cons n ns)
  show ?case using out_grows_trans [OF out_gap_nack Cons] by simp
qed simp

lemma out_drain: "out_grows t (drain_send_queue now t)"
proof (induction "length (tp_send_queue t)" arbitrary: t rule: less_induct)
  case less
  show ?case
  proof (cases "is_in_send_window (tp_next_send t) t")
    case win: True
    show ?thesis
    proof (cases "select_queued (tc_aggressive_drain (tp_config t)) (tp_send_queue t)")
      case (Some x)
      obtain b q where sel: "select_queued (tc_aggressive_drain (tp_config t)) (tp_send_queue t) = Some (b, q)"
        using Some by (cases x) simp
      let ?bp = "b\<lparr>bp_seq := tp_next_send t, bp_timestamp := now, bp_packet := set_accept_timestamp now True (bp_packet b)\<rparr>"
      let ?t1 = "t\<lparr>tp_send_queue := q, tp_next_send := tp_next_send t + 1\<rparr>"
      let ?t2 = "?t1\<lparr>tp_send_buffer := AList.update (tp_next_send t) ?bp (tp_send_buffer t)\<rparr>"
      obtain sent t3 where tr: "transmit_packet now ?bp ?t2 = (sent, t3)" by fastforce
      have g: "out_grows t t3" using out_transmit_from [of ?t2 t now ?bp] tr by simp
      have step: "drain_send_queue now t = (if sent then drain_send_queue now (arm_timeout now (tp_next_send t) t3)
          else t3\<lparr>tp_send_buffer := AList.delete (tp_next_send t) (tp_send_buffer t3)\<rparr>)"
        using win sel tr by (subst drain_send_queue.simps) (simp add: generate_sequence_number_def)
      have "tp_send_queue t3 = q" using arg_cong [OF tr, of "\<lambda>x. tp_send_queue (snd x)"] by (simp add: queue_kept)
      then have "length (tp_send_queue (arm_timeout now (tp_next_send t) t3)) < length (tp_send_queue t)"
        using select_queued_length [OF sel] by (simp add: queue_kept)
      then have "out_grows (arm_timeout now (tp_next_send t) t3) (drain_send_queue now (arm_timeout now (tp_next_send t) t3))"
        by (rule less)
      then have "out_grows t (drain_send_queue now (arm_timeout now (tp_next_send t) t3))"
        by (rule out_grows_trans [OF g out_grows_from]) simp_all
      then show ?thesis using g by (simp add: step out_grows_frame)
    qed (subst drain_send_queue.simps, simp)
  qed (subst drain_send_queue.simps, simp)
qed

lemma out_process: "tp_out u = tp_out t \<Longrightarrow> tpdc_identity u = tpdc_identity t \<Longrightarrow> out_grows t (process_send_queue now u)"
  unfolding process_send_queue_def out_grows_frame by (rule out_grows_from [OF out_drain])

lemma out_send: "out_grows t (snd (tpdc_send_packet now po som eom t))"
  by (auto simp: tpdc_send_packet_def buffer_packet_for_sending_def generate_sequence_number_def Let_def
      case_prod_beta out_grows_frame intro!: out_transmit_from split: option.split) (simp_all add: out_grows_same)

lemma out_ack: "out_grows t (snd (process_received_acknowledgment now ack g t))"
proof -
  have "out_grows t (process_send_queue now (cleanup_acknowledged_packets (observe_gap_nacks now g ns u)))"
    if "tp_out u = tp_out t" "tpdc_identity u = tpdc_identity t" for ns u
  proof -
    have "out_grows t (observe_gap_nacks now g ns u)" by (rule out_grows_from [OF out_gap_nacks that])
    also have "out_grows \<dots> (process_send_queue now (cleanup_acknowledged_packets \<dots>))" by (rule out_process) simp_all
    finally show ?thesis .
  qed
  then show ?thesis
    by (simp add: process_received_acknowledgment_def Let_def case_prod_beta out_grows_frame) (simp add: out_grows_same)
qed

lemma out_control: "out_grows t (snd (handle_control now c g t))"
proof -
  obtain h t1 where r: "process_received_acknowledgment now (ack_of_control c t) g t = (h, t1)" by fastforce
  have "out_grows t t1" using out_ack [of t now "ack_of_control c t" g] by (simp add: r)
  also have "out_grows t1 (process_send_queue now (cleanup_acknowledged_packets (snd (mark_selective (ct_selective_ack c) h t1))))"
    by (rule out_process) simp_all
  finally show ?thesis using \<open>out_grows t t1\<close> by (simp add: handle_control_def r case_prod_beta)
qed

lemma out_parts [simp]:
  "tp_out (prune_read_gaps t) = tp_out t" "tp_out (schedule_acknowledgment now b t) = tp_out t"
  "tp_out (accept_in_order t) = tp_out t" "tp_out (snd (accept_out_of_order now p seq t)) = tp_out t"
  "tp_out (note_read_gap now p seq t) = tp_out t"
  by (simp_all add: prune_read_gaps_def schedule_acknowledgment_def accept_in_order_def accept_out_of_order_def
      note_read_gap_def Let_def case_prod_beta split: option.split)

lemma out_buffer [simp]: "tp_out (snd (buffer_packet_for_receiving now p seq t)) = tp_out t"
  by (simp add: buffer_packet_for_receiving_def Let_def case_prod_beta)

lemma out_receive: "out_grows t (snd (tpdc_handle_received now po t))"
proof -
  obtain e b where v: "validate_and_record now (tpdc_validate_packet t) po (tp_base t) = (e, b)" by fastforce
  have "base_identity b = base_identity (tp_base t)"
    using base_identity_validate [of now "tpdc_validate_packet t" po "tp_base t"] by (simp add: v)
  then have b: "tp_out (t\<lparr>tp_base := b\<rparr>) = tp_out t" "tpdc_identity (t\<lparr>tp_base := b\<rparr>) = tpdc_identity t"
    by (simp_all add: tpdc_identity_def)
  have "out_grows t (snd (handle_control now c g (t\<lparr>tp_base := b\<rparr>)))" for c g
    by (rule out_grows_from [OF out_control b])
  then show ?thesis using v b
    by (simp add: tpdc_handle_received_def Let_def out_grows_same split: option.split)
qed

lemma out_send_control:
  assumes "tpdc_identity u = tpdc_identity t" "tp_out u = tp_out t"
  shows "out_grows t (snd (send_control_packet now flags cumulative selective gap u))"
proof (cases "tp_device u")
  case True
  let ?gap_set = "flags AND CTRL_GAP_NACK \<noteq> 0 \<and> gap \<noteq> 0"
  define t1 where "t1 = (case if ?gap_set then map_of (tp_read_gaps u) gap else None of
      None \<Rightarrow> u
    | Some g \<Rightarrow> tpdc_note_ses [GapNackSent (gc_job g) (gc_msg g) (gc_peer g) gap now,
        TpdcReadGapNackSent (gc_job g) (gc_msg g) (gc_peer g) gap (gc_detected g) now] u)"
  define p where "p = add_header ((create_pds_header (tp_base t1) False False)\<lparr>ph_seq := 0, ph_reliable := True\<rparr>)
    (empty_packet\<lparr>pk_ctrl := Some \<lparr>ct_flags = flags, ct_cumulative_ack = cumulative, ct_selective_ack = selective, ct_gap_nack = gap\<rparr>,
       pk_recovery := (if ?gap_set then Some \<lparr>rt_gap_nack_sent = Some now, rt_retransmit_tx = None\<rparr> else None)\<rparr>)"
  define t2 where "t2 = t1\<lparr>tp_base := pdc_update_statistics now True p (tp_base t1),
    tp_totals := (tp_totals t1)\<lparr>tt_tx_control := tt_tx_control (tp_totals t1) + 1\<rparr>\<rparr>"
  have t1: "tpdc_identity t1 = tpdc_identity t" "tp_out t1 = tp_out t" using assms by (simp_all add: t1_def split: option.split)
  then have t2: "tpdc_identity t2 = tpdc_identity t" "tp_out t2 = tp_out t" by (simp_all add: t2_def tpdc_identity_def)
  have "end_id t = pc_pdc_id (pb_config (tp_base t1))" using t1(1) by (simp add: end_id_def base_identity_def tpdc_identity_def)
  then have "stamped (end_id t) p" by (simp add: stamped_def p_def create_pds_header_def)
  then have "out_grows t (t2\<lparr>tp_out := tp_out t2 @ [p]\<rparr>)" using t2 by (auto simp: out_grows_def end_id_def tpdc_identity_def)
  moreover have "snd (send_control_packet now flags cumulative selective gap u) =
      (if tp_channel t2 then t2\<lparr>tp_out := tp_out t2 @ [p]\<rparr> else t2)"
    using True unfolding send_control_packet_def Let_def t1_def [symmetric] p_def [symmetric] t2_def [symmetric] by simp
  ultimately show ?thesis using out_grows_same [OF t2(2,1)] by simp
qed (use assms in \<open>simp add: send_control_packet_def out_grows_same\<close>)

lemma out_ack_event: "out_grows t (send_pending_acknowledgments now t)"
proof -
  have fr: "out_grows t (u\<lparr>tp_stats := a, tp_totals := b, tp_pending_sack := c, tp_pending_gap_nack := d\<rparr>) \<longleftrightarrow> out_grows t u"
    for u a b c d by (rule out_grows_to) simp_all
  have "out_grows t (snd (send_control_packet now flags cumulative selective gap (t\<lparr>tp_ack_event := None\<rparr>)))"
    for flags cumulative selective gap by (rule out_send_control) (simp_all add: tpdc_identity_def)
  then show ?thesis by (simp add: send_pending_acknowledgments_def send_acknowledgment_def Let_def case_prod_beta fr)
qed

text \<open>A step of a session.\<close>

definition later_than :: "session \<Rightarrow> session \<Rightarrow> bool" where
  "later_than s s' \<longleftrightarrow> out_grows (ss_snd s) (ss_snd s') \<and> out_grows (ss_rcv s) (ss_rcv s') \<and>
     received (ss_rcv s) \<subseteq> received (ss_rcv s') \<and> unat (tp_next_send (ss_snd s)) \<le> unat (tp_next_send (ss_snd s'))"

lemma session_step_later:
  assumes "session_step s s'" and inv: "session_inv s"
  shows "later_than s s'"
  using assms(1)
proof cases
  case (send po now som eom)
  then show ?thesis by (simp add: later_than_def out_send next_send_send)
next
  case (timeout seq bp now)
  have "out_grows (ss_snd s) (handle_rto_timeout now seq (expire_timeout seq (ss_snd s)))"
    by (rule out_grows_from [OF out_timeout]) (simp_all add: tpdc_identity_expire)
  then show ?thesis using timeout by (simp add: later_than_def)
next
  case (force now)
  then show ?thesis by (simp add: later_than_def force_retransmission_def out_retransmit_all)
next
  case (process now)
  then show ?thesis by (simp add: later_than_def out_process next_send_process)
next
  case (ack p now)
  obtain c where c: "pk_ctrl p = Some c"
    using inv ack(2) by (auto simp: session_inv_def receiver_inv_def claim_ok_def)
  then show ?thesis using ack next_send_receive [OF refl c] out_receive by (simp add: later_than_def)
next
  case (data p now)
  obtain h where "pk_ctrl p = None" "peek_header p = Some h" "unat (ph_seq h) < unat (tp_next_send (ss_snd s))"
    using sender_inv_data [OF _ data(2)] inv by (metis session_inv_def)
  then have "gains (unat (tp_next_send (ss_snd s))) (unat (ph_seq h)) (ss_rcv s) (snd (tpdc_handle_received now (Some p) (ss_rcv s)))"
    using gains_data inv by (simp add: session_inv_def)
  then show ?thesis using data out_receive by (simp add: later_than_def gains_def)
next
  case (ack_event now)
  have "receiver_inv (unat (tp_next_send (ss_snd s))) (ss_rcv s)" using inv by (simp add: session_inv_def)
  note receiver_inv_ack_event [OF this, of now]
  then show ?thesis using ack_event out_ack_event by (simp add: later_than_def)
next
  case activate
  then show ?thesis by (simp add: later_than_def out_grows_def end_id_def tpdc_identity_def base_identity_def pdc_activate_def
      received_view [of "t\<lparr>tp_base := b\<rparr>" t for t b])
qed

lemma session_steps_later:
  assumes "session_step\<^sup>*\<^sup>* s s'" "session_reachable s"
  shows "session_reachable s' \<and> later_than s s'"
  using assms
proof (induction rule: rtranclp_induct)
  case base
  then show ?case by (simp add: later_than_def)
next
  case (step y z)
  then have y: "session_reachable y" "later_than s y" by simp_all
  have "later_than y z" by (rule session_step_later [OF step(2) session_inv_reachable [OF y(1)]])
  then show ?case using y session_reachable.step [OF y(1) step(2)] out_grows_trans by (fastforce simp: later_than_def)
qed

text \<open>A copy of the packet the receiver waited for arrives, before or after another one.\<close>

lemma recovered_copy:
  assumes reach: "session_reachable s" and b: "bp_seq b = seq" "pk_ctrl (bp_packet b) = None"
    and pos: "1 \<le> unat seq" and below: "\<And>k. 1 \<le> k \<Longrightarrow> k < unat seq \<Longrightarrow> k \<in> received (ss_rcv s)"
    and lt: "unat seq < unat (tp_next_send (ss_snd s))" and ready: "ready_for (bp_packet b) (ss_rcv s)"
  shows "unat seq \<in> received (snd (tpdc_handle_received later (Some (framed now b u)) (ss_rcv s)))"
proof (cases "unat seq \<in> received (ss_rcv s)")
  case True
  let ?p = "framed now b u" and ?N = "unat (tp_next_send (ss_snd s))"
  have inv: "receiver_inv ?N (ss_rcv s)" using session_inv_reachable [OF reach] by (simp add: session_inv_def)
  have h: "pk_ctrl ?p = None" "\<exists>h. peek_header ?p = Some h \<and> ph_seq h = seq"
    using b by (simp_all add: framed_def Let_def) (simp_all add: add_header_def set_transmit_timestamp_def)
  then show ?thesis using gains_data [OF inv h(1)] lt True by (auto simp: gains_def)
next
  case False
  let ?n = "tp_next_receive (ss_rcv s)" and ?N = "unat (tp_next_send (ss_snd s))"
  have inv: "receiver_inv ?N (ss_rcv s)" using session_inv_reachable [OF reach] by (simp add: session_inv_def)
  have one: "1 \<le> unat ?n" using inv by (simp add: receiver_inv_def)
  have "\<not> unat ?n < unat seq" using below [OF one] session_next_receive(1) [OF reach] by blast
  moreover have "\<not> unat seq < unat ?n" using False pos by (auto simp: received_def)
  ultimately have n: "?n = seq" by (simp add: word_unat_eq_iff)
  show ?thesis using next_receive_accepted [OF inv _ ready] lt b by (simp add: n)
qed


section \<open>A concrete session\<close>

definition demo_pdc_config :: "u32 \<Rightarrow> u32 \<Rightarrow> pdc_config" where
  "demo_pdc_config a b = \<lparr>pc_pdc_id = 600, pc_local = a, pc_remote = b, pc_tc = 0, pc_type = TPDC, pc_mode = 0,
     pc_max_packet = 1500, pc_sequence = 0\<rparr>"

definition demo_tpdc_config :: "u32 \<Rightarrow> u32 \<Rightarrow> tpdc_config" where
  "demo_tpdc_config a b = \<lparr>tc_base = demo_pdc_config a b, tc_max_send_buffer = 8, tc_max_receive_buffer = 8,
     tc_send_window = 4, tc_receive_window = 4, tc_max_retransmissions = 3, tc_initial_rto = 100, tc_max_rto = 1000,
     tc_aggressive_drain = False, tc_queue_priority = False\<rparr>"

definition blank_tpdc :: tpdc where
  "blank_tpdc = \<lparr>tp_base = \<lparr>pb_config = demo_pdc_config 0 0, pb_active = False, pb_stats = zero_stats,
       pb_processing = False, pb_queue = [], pb_timestamps = [], pb_max_age = 1000, pb_max_entries = 10\<rparr>,
     tp_config = demo_tpdc_config 0 0, tp_next_send = 1, tp_next_receive = 1, tp_send_base = 1, tp_receive_base = 1,
     tp_highest = 0, tp_send_buffer = [], tp_receive_buffer = [], tp_send_queue = [], tp_ack_event = None,
     tp_ack_interval = 10, tp_pending_sack = 0, tp_pending_gap_nack = 0, tp_rto = 100, tp_rtt = 0,
     tp_rtt_variance = 0, tp_gap_observed = [], tp_read_gaps = [], tp_stats = zero_tpdc_stats,
     tp_totals = zero_totals, tp_device = True, tp_channel = True, tp_has_ses = True, tp_out = [], tp_notes = []\<rparr>"

definition demo_start :: session where
  "demo_start = \<lparr>ss_snd = snd (tpdc_initialize (demo_tpdc_config 1 2) blank_tpdc),
     ss_rcv = snd (tpdc_initialize (demo_tpdc_config 2 1) blank_tpdc)\<rparr>"

definition demo_active :: session where
  "demo_active = demo_start\<lparr>
     ss_snd := (ss_snd demo_start)\<lparr>tp_base := pdc_activate (tp_base (ss_snd demo_start))\<rparr>,
     ss_rcv := (ss_rcv demo_start)\<lparr>tp_base := pdc_activate (tp_base (ss_rcv demo_start))\<rparr>\<rparr>"

definition demo_data :: packet where
  "demo_data = empty_packet\<lparr>pk_payload := [1, 2, 3]\<rparr>"

definition demo_sent :: session where
  "demo_sent = demo_active\<lparr>ss_snd := snd (tpdc_send_packet 5 (Some demo_data) True True (ss_snd demo_active))\<rparr>"

lemmas demo_session_defs = demo_sent_def demo_active_def demo_start_def demo_data_def blank_tpdc_def
  demo_tpdc_config_def demo_pdc_config_def

lemma demo_start_reachable: "session_reachable demo_start"
proof -
  have "fst (tpdc_initialize (demo_tpdc_config 1 2) blank_tpdc)" "fst (tpdc_initialize (demo_tpdc_config 2 1) blank_tpdc)"
    by (simp_all add: tpdc_initialize_def pdc_base_initialize_def demo_session_defs)
  then show ?thesis unfolding demo_start_def
    by (intro session_reachable.init [of blank_tpdc blank_tpdc "demo_tpdc_config 1 2" _ "demo_tpdc_config 2 1"])
      (simp_all add: fresh_tpdc_def blank_tpdc_def prod_eq_iff)
qed

lemma demo_active_reachable: "session_reachable demo_active"
  unfolding demo_active_def by (rule session_reachable.step [OF demo_start_reachable session_step.activate])

lemma demo_sent_reachable: "session_reachable demo_sent"
  unfolding demo_sent_def
  by (rule session_reachable.step [OF demo_active_reachable session_step.send]) (simp add: demo_data_def empty_packet_def)

lemma demo_sent_sender:
  "map_of (tp_send_buffer (ss_snd demo_sent)) 1 =
     Some ((new_buffered 5 (set_accept_timestamp 5 False demo_data) True True 1)\<lparr>bp_timeout := Some 105\<rparr>)"
  "tp_next_send (ss_snd demo_sent) = 2" "tp_config (ss_snd demo_sent) = demo_tpdc_config 1 2"
  by (simp_all add: demo_session_defs tpdc_initialize_def pdc_base_initialize_def pdc_activate_def tpdc_send_packet_def
      tpdc_validate_packet_def pdc_validate_packet_def pk_size_def empty_packet_def buffer_packet_for_sending_def
      is_in_send_window_def generate_sequence_number_def transmit_packet_def arm_timeout_def tpdc_update_statistics_def
      Let_def)

lemma session_no_loss_witness:
  "1 \<in> keys (tp_send_buffer (ss_snd demo_sent)) \<or> 1 \<in> received (ss_rcv demo_sent)"
  using session_no_loss [OF demo_sent_reachable] by (simp add: demo_sent_sender)

lemma session_windows_witness:
  "unat (tp_next_send (ss_snd demo_sent)) \<le> unat (tp_send_base (ss_snd demo_sent)) + 4"
  using session_windows [OF demo_sent_reachable] by (simp add: demo_sent_sender demo_tpdc_config_def)

lemma session_complete_witness: "received (ss_rcv demo_active) = {}"
proof -
  have "tp_send_buffer (ss_snd demo_active) = []" "tp_next_send (ss_snd demo_active) = 1"
    by (simp_all add: demo_session_defs tpdc_initialize_def pdc_base_initialize_def)
  then show ?thesis using session_complete [OF demo_active_reachable] by simp
qed


end
