(* ===== verification/PdsManagerInv.thy ===== *)
theory PdsManagerInv
  imports PdsManager TpdcSession
begin

text \<open>
  What the tables of \<open>PdsManager\<close> keep: the invariant of identifiers, contexts and sessions over every
  operation of the manager, and what follows for allocation and for requests.
\<close>

section \<open>The search for an identifier\<close>

lemma next_free_id_here: "\<not> used n \<Longrightarrow> next_free_id used n = Some (n, n + 1)"
  by (simp add: next_free_id.simps)

lemma next_free_id_next: "used n \<Longrightarrow> next_free_id used n = next_free_id used (n + 1)"
  by (subst next_free_id.simps) simp

lemma next_free_id_sound:
  assumes "next_free_id used n = Some r"
  shows "\<not> used (fst r) \<and> snd r = fst r + 1"
proof (rule next_free_id.raw_induct [where P = "\<lambda>used n r. \<not> used (fst r) \<and> snd r = fst r + 1", OF _ assms])
  fix f and used :: "u16 \<Rightarrow> bool" and n r
  assume IH: "\<And>used n r. f used n = Some r \<Longrightarrow> \<not> used (fst r) \<and> snd r = fst r + 1"
    and eq: "(if \<not> used n then Some (n, n + 1) else f used (n + 1)) = Some r"
  show "\<not> used (fst r) \<and> snd r = fst r + 1"
  proof (cases "used n")
    case True
    then show ?thesis using IH [of used "n + 1" r] eq by simp
  qed (use eq in auto)
qed

text \<open>The loop returns whenever some identifier is free, however far away.\<close>

lemma next_free_id_returns:
  assumes "\<not> used i"
  obtains j where "next_free_id used n = Some (j, j + 1)" "\<not> used j"
proof -
  have "\<exists>r. next_free_id used n = Some r"
  proof (induction "unat (i - n)" arbitrary: n)
    case 0
    then have "n = i" by (simp add: unat_eq_zero)
    then show ?case using next_free_id_here [of used n] assms by auto
  next
    case (Suc d)
    have "i - n \<noteq> 0" using Suc.hyps(2) by auto
    then have "unat (i - n - 1) = unat (i - n) - 1" by (intro unat_dec_pos) (simp add: word_greater_zero_iff)
    then have "unat (i - (n + 1)) = d" using Suc.hyps(2) by (simp add: algebra_simps)
    then obtain r where "next_free_id used (n + 1) = Some r" using Suc.hyps(1) by blast
    then show ?case using next_free_id_here [of used n] next_free_id_next [of used n] by (cases "used n") auto
  qed
  then obtain r where "next_free_id used n = Some r" ..
  then show ?thesis using next_free_id_sound [of used n r] that by (cases r) auto
qed

text \<open>When exactly the identifiers below \<open>k\<close> are used, the search finds \<open>k\<close>.\<close>

lemma next_free_id_first:
  assumes "\<And>i. used i \<longleftrightarrow> unat i < k" "k < 2 ^ 16" "unat n \<le> k"
  shows "next_free_id used n = Some (of_nat k, of_nat k + 1)"
  using assms(3)
proof (induction "k - unat n" arbitrary: n)
  case 0
  then have "n = of_nat k" using word_of_nat_eq_iff [of k "unat n"] by simp
  moreover have "unat (of_nat k :: u16) = k" using assms(2) by (simp add: unat_of_nat take_bit_eq_mod)
  moreover have "\<not> used n" using assms(1) [of n] 0 by simp
  ultimately show ?case using next_free_id_here [of used n] by simp
next
  case (Suc d)
  then have lt: "unat n < k" by simp
  then have "unat (n + 1) = unat n + 1" using assms(2) by (simp add: unat_word_ariths)
  then have "next_free_id used (n + 1) = Some (of_nat k, of_nat k + 1)" using Suc lt by simp
  moreover have "used n" using assms(1) lt by blast
  ultimately show ?case using next_free_id_next [of used n] by simp
qed

section \<open>The invariant\<close>

text \<open>A context that the manager has made: active, and configured for this identifier and peer.\<close>

definition serves :: "u16 \<Rightarrow> u32 \<Rightarrow> pdc \<Rightarrow> bool" where
  "serves i remote p \<longleftrightarrow> pb_active (pdc_base_of p) \<and> pc_pdc_id (pb_config (pdc_base_of p)) = i \<and>
     pc_remote (pb_config (pdc_base_of p)) = remote"

definition session_of :: "u32 \<times> u8 \<times> u8 \<Rightarrow> pdc \<Rightarrow> bool" where
  "session_of key p = (case key of (dest, tc, dm) \<Rightarrow> is_reliable_mode dm \<and> (\<exists>t. p = PTpdc t) \<and>
     pc_remote (pb_config (pdc_base_of p)) = dest \<and> pc_tc (pb_config (pdc_base_of p)) = tc \<and>
     pc_mode (pb_config (pdc_base_of p)) = dm)"

definition ids_ok :: "manager \<Rightarrow> bool" where
  "ids_ok m \<longleftrightarrow> mg_max m = 1024 \<and> distinct (map fst (mg_pdcs m)) \<and> length (mg_pdcs m) \<le> 1024 \<and>
     (\<forall>i. mg_used m i \<longleftrightarrow> get_pdc i m \<noteq> None) \<and>
     distinct (mg_free m) \<and> (\<forall>i \<in> set (mg_free m). get_pdc i m = None)"

definition contexts_ok :: "manager \<Rightarrow> bool" where
  "contexts_ok m \<longleftrightarrow> (\<forall>i p. get_pdc i m = Some p \<longrightarrow> (\<exists>remote. serves i remote p))"

definition sessions_ok :: "manager \<Rightarrow> bool" where
  "sessions_ok m \<longleftrightarrow> distinct (map fst (mg_sessions m)) \<and>
     (\<forall>key i. map_of (mg_sessions m) key = Some i \<longrightarrow> (\<exists>p. get_pdc i m = Some p \<and> session_of key p))"

definition receive_ok :: "manager \<Rightarrow> bool" where
  "receive_ok m \<longleftrightarrow> distinct (map fst (mg_receive m)) \<and> length (mg_receive m) \<le> 1024 \<and>
     (\<forall>src i p. get_receive_pdc src i m = Some p \<longrightarrow> serves i src p)"

definition manager_inv :: "manager \<Rightarrow> bool" where
  "manager_inv m \<longleftrightarrow> ids_ok m \<and> contexts_ok m \<and> sessions_ok m \<and> receive_ok m"

text \<open>The invariant sees only the tables.\<close>

definition tables :: "manager \<Rightarrow> _" where
  "tables m = (mg_max m, mg_pdcs m, mg_receive m, mg_sessions m, mg_used m, mg_free m)"

lemma manager_inv_tables:
  assumes "tables m' = tables m" "manager_inv m"
  shows "manager_inv m'"
proof -
  have eqs: "mg_max m' = mg_max m" "mg_pdcs m' = mg_pdcs m" "mg_receive m' = mg_receive m"
    "mg_sessions m' = mg_sessions m" "mg_used m' = mg_used m" "mg_free m' = mg_free m"
    using assms(1) by (simp_all add: tables_def)
  have get: "get_pdc i m' = get_pdc i m" "get_receive_pdc src i m' = get_receive_pdc src i m" for i src
    by (simp_all add: get_pdc_def get_receive_pdc_def eqs)
  have "manager_inv m' = manager_inv m"
    by (simp only: manager_inv_def ids_ok_def contexts_ok_def sessions_ok_def receive_ok_def eqs get)
  then show ?thesis using assms(2) by simp
qed

lemma tables_frame [simp]:
  "tables (count_stat f m) = tables m"
  "tables (inform ns m) = tables m"
  "tables (m\<lparr>mg_state := s\<rparr>) = tables m"
  "tables (m\<lparr>mg_delivered := d\<rparr>) = tables m"
  "tables (m\<lparr>mg_device := dev\<rparr>) = tables m"
  "tables (m\<lparr>mg_has_ses := b\<rparr>) = tables m"
  "tables (m\<lparr>mg_rx := rx\<rparr>) = tables m"
  "tables (m\<lparr>mg_plane := pl\<rparr>) = tables m"
  "tables (m\<lparr>mg_next := n\<rparr>) = tables m"
  "tables (count_control p c m) = tables m"
  "tables (count_control_reception now p m) = tables m"
  "tables (count_reception now p m) = tables m"
  "tables (manager_initialize m) = tables m"
  "tables (reset_statistics m) = tables m"
  "tables (set_statistics_enabled b m) = tables m"
  "tables (configure_read_response_scheduling drain prio m) = tables m"
  by (simp_all add: tables_def count_stat_def inform_def count_control_def count_control_reception_def
      count_reception_def manager_initialize_def reset_statistics_def set_statistics_enabled_def
      configure_read_response_scheduling_def Let_def)

lemmas inv_frame [simp] = manager_inv_tables [OF tables_frame(1)] manager_inv_tables [OF tables_frame(2)]
  manager_inv_tables [OF tables_frame(3)] manager_inv_tables [OF tables_frame(4)]

text \<open>The outgoing table and the passive table as lookups.\<close>

lemma get_pdc_frame [simp]:
  "get_pdc i (count_stat f m) = get_pdc i m" "get_pdc i (inform ns m) = get_pdc i m"
  "get_pdc i (m\<lparr>mg_state := s\<rparr>) = get_pdc i m" "get_pdc i (m\<lparr>mg_free := fr\<rparr>) = get_pdc i m"
  "get_pdc i (m\<lparr>mg_used := u\<rparr>) = get_pdc i m" "get_pdc i (m\<lparr>mg_next := n\<rparr>) = get_pdc i m"
  "get_pdc i (m\<lparr>mg_sessions := se\<rparr>) = get_pdc i m" "get_pdc i (m\<lparr>mg_receive := re\<rparr>) = get_pdc i m"
  by (simp_all add: get_pdc_def count_stat_def inform_def)

lemma get_pdc_update [simp]: "get_pdc i (m\<lparr>mg_pdcs := AList.update j p (mg_pdcs m)\<rparr>) = (if i = j then Some p else get_pdc i m)"
  by (simp add: get_pdc_def update_conv')

lemma get_pdc_delete [simp]: "get_pdc i (m\<lparr>mg_pdcs := AList.delete j (mg_pdcs m)\<rparr>) = (if i = j then None else get_pdc i m)"
  by (simp add: get_pdc_def delete_conv')

lemma get_receive_update [simp]:
  "get_receive_pdc src i (m\<lparr>mg_receive := AList.update (src', j) p (mg_receive m)\<rparr>) =
    (if src = src' \<and> i = j then Some p else get_receive_pdc src i m)"
  by (simp add: get_receive_pdc_def update_conv')

section \<open>Creating contexts\<close>

lemma create_tpdc_some:
  "create_tpdc cfg dv = Some t \<longleftrightarrow> pc_local (tc_base cfg) \<noteq> 0 \<and> pc_remote (tc_base cfg) \<noteq> 0 \<and>
     t = (snd (tpdc_initialize cfg (new_tpdc dv)))\<lparr>tp_base := pdc_activate (tp_base (snd (tpdc_initialize cfg (new_tpdc dv))))\<rparr>"
  by (auto simp: create_tpdc_def tpdc_initialize_def pdc_base_initialize_def Let_def)

lemma create_ipdc_some:
  "create_ipdc cfg mem dv = Some i \<longleftrightarrow> pc_local cfg \<noteq> 0 \<and> pc_remote cfg \<noteq> 0 \<and>
     i = (snd (ipdc_initialize cfg mem (new_ipdc dv)))\<lparr>ip_base := pdc_activate (ip_base (snd (ipdc_initialize cfg mem (new_ipdc dv))))\<rparr>"
  by (auto simp: create_ipdc_def ipdc_initialize_def pdc_base_initialize_def Let_def)

lemma created_base:
  "create_tpdc cfg dv = Some t \<Longrightarrow> pb_config (tp_base t) = tc_base cfg \<and> pb_active (tp_base t)"
  "create_ipdc cfg' mem dv = Some i \<Longrightarrow> pb_config (ip_base i) = cfg' \<and> pb_active (ip_base i)"
  by (auto simp: create_tpdc_some create_ipdc_some tpdc_initialize_def ipdc_initialize_def pdc_base_initialize_def
      pdc_activate_def schedule_queue_cleanup_def Let_def)

lemma create_outgoing_none: "create_outgoing dv i dest tc dm m = None \<longleftrightarrow> dv_fep dv = 0 \<or> dest = 0"
  by (auto simp: create_outgoing_def create_tpdc_def tpdc_initialize_def create_ipdc_def ipdc_initialize_def
      pdc_base_initialize_def reliable_config_def context_config_def Let_def)

lemma create_outgoing_some:
  assumes "create_outgoing dv i dest tc dm m = Some p"
  shows "serves i dest p" "is_reliable_mode dm \<Longrightarrow> session_of (dest, tc, dm) p"
    "pb_config (pdc_base_of p) = (context_config dv i dest tc dm)\<lparr>pc_type := (if is_reliable_mode dm then TPDC else IPDC)\<rparr>"
proof -
  show cfg: "pb_config (pdc_base_of p) = (context_config dv i dest tc dm)\<lparr>pc_type := (if is_reliable_mode dm then TPDC else IPDC)\<rparr>"
    using assms created_base by (fastforce simp: create_outgoing_def reliable_config_def context_config_def default_pdc_config_def
        default_tpdc_config_def split: if_splits)
  have "pb_active (pdc_base_of p)" using assms created_base by (fastforce simp: create_outgoing_def split: if_splits)
  then show "serves i dest p" by (simp add: serves_def cfg context_config_def default_pdc_config_def)
  show "session_of (dest, tc, dm) p" if "is_reliable_mode dm"
    using assms that by (auto simp: session_of_def cfg context_config_def default_pdc_config_def create_outgoing_def)
qed

lemma create_passive_some:
  assumes "create_passive dv i src reliable m = Some p"
  shows "serves i src p"
  using assms created_base by (fastforce simp: create_passive_def serves_def reliable_config_def context_config_def
      default_pdc_config_def default_tpdc_config_def split: if_splits)

section \<open>Taking an identifier\<close>

lemma some_id_free:
  assumes "ids_ok m"
  obtains i where "\<not> mg_used m i"
proof -
  let ?D = "fst ` set (mg_pdcs m)"
  have "card ?D \<le> length (mg_pdcs m)" by (metis card_length length_map set_map)
  also have "\<dots> < card (UNIV :: u16 set)" using assms by (simp add: ids_ok_def card_word)
  finally have "?D \<noteq> UNIV" by auto
  then obtain i where "i \<notin> ?D" by auto
  then have "get_pdc i m = None" by (simp add: get_pdc_def map_of_eq_None_iff)
  then show ?thesis using assms that by (auto simp: ids_ok_def)
qed

lemma take_id_spec:
  assumes "ids_ok m"
  obtains i fr n where "take_id m = Some (i, m\<lparr>mg_free := fr, mg_next := n\<rparr>)" "get_pdc i m = None"
    "distinct fr" "set fr \<subseteq> set (mg_free m) - {i}"
proof (cases "mg_free m")
  case Nil
  obtain i where "\<not> mg_used m i" by (rule some_id_free [OF assms])
  then obtain j where "next_free_id (mg_used m) (mg_next m) = Some (j, j + 1)" "\<not> mg_used m j"
    by (rule next_free_id_returns)
  then show ?thesis using assms Nil that [of j "j + 1" "[]"] by (auto simp: take_id_def ids_ok_def)
next
  case (Cons i fr)
  have "m\<lparr>mg_free := fr\<rparr> = m\<lparr>mg_free := fr, mg_next := mg_next m\<rparr>" by simp
  then show ?thesis using assms Cons that [of i "mg_next m" fr] by (auto simp: take_id_def ids_ok_def)
qed

section \<open>Allocation keeps the invariant\<close>

lemma length_update_new: "map_of xs k = None \<Longrightarrow> length (AList.update k v xs) = Suc (length xs)"
  by (induction xs) (auto split: if_splits)

lemma inv_next_used:
  assumes "manager_inv m" "get_pdc i m = None" "distinct fr" "set fr \<subseteq> set (mg_free m) - {i}"
  shows "manager_inv (m\<lparr>mg_free := fr, mg_next := n\<rparr>)"
  using assms by (auto simp: manager_inv_def ids_ok_def contexts_ok_def sessions_ok_def receive_ok_def
      get_receive_pdc_def)

lemma session_lookup:
  assumes "manager_inv m" "map_of (mg_sessions m) key = Some i"
  obtains p where "get_pdc i m = Some p" "session_of key p"
  using assms unfolding manager_inv_def sessions_ok_def by blast

text \<open>A context whose identifier has just been taken.\<close>

lemma inv_install:
  assumes inv: "manager_inv m" and new: "get_pdc i m = None" "i \<notin> set (mg_free m)" "length (mg_pdcs m) < 1024"
    and p: "serves i dest p" "is_reliable_mode dm \<Longrightarrow> session_of (dest, tc, dm) p"
  shows "manager_inv (install_pdc i p dest tc dm (m\<lparr>mg_used := (mg_used m)(i := True)\<rparr>))"
proof -
  let ?s = "if is_reliable_mode dm then AList.update (dest, tc, dm) i (mg_sessions m) else mg_sessions m"
  let ?m = "m\<lparr>mg_used := (mg_used m)(i := True), mg_pdcs := AList.update i p (mg_pdcs m), mg_next := i + 1, mg_sessions := ?s\<rparr>"
  have get: "get_pdc j ?m = (if j = i then Some p else get_pdc j m)" for j
    by (simp add: get_pdc_def update_conv')
  have len: "length (AList.update i p (mg_pdcs m)) = Suc (length (mg_pdcs m))"
    using new(1) by (simp add: get_pdc_def length_update_new)
  have "ids_ok ?m" using inv new len unfolding ids_ok_def get
    by (auto simp: manager_inv_def ids_ok_def intro!: distinct_update)
  moreover have "contexts_ok ?m" using inv p(1) unfolding contexts_ok_def get
    by (auto simp: manager_inv_def contexts_ok_def)
  moreover have "sessions_ok ?m"
  proof -
    have "\<exists>q. get_pdc j ?m = Some q \<and> session_of key q" if "map_of ?s key = Some j" for key j
    proof (cases "is_reliable_mode dm \<and> key = (dest, tc, dm)")
      case True
      then show ?thesis using that p(2) unfolding get by (auto simp: update_conv')
    next
      case False
      then have "map_of (mg_sessions m) key = Some j" using that by (auto simp: update_conv' split: if_splits)
      then obtain q where "get_pdc j m = Some q" "session_of key q" by (rule session_lookup [OF inv])
      then show ?thesis using new(1) unfolding get by auto
    qed
    then show ?thesis using inv by (auto simp: manager_inv_def sessions_ok_def intro!: distinct_update)
  qed
  moreover have "receive_ok ?m" using inv by (simp add: manager_inv_def receive_ok_def get_receive_pdc_def)
  ultimately have "manager_inv ?m" by (simp add: manager_inv_def)
  moreover have "install_pdc i p dest tc dm (m\<lparr>mg_used := (mg_used m)(i := True)\<rparr>) = count_stat increment_creations ?m"
    by (simp add: install_pdc_def)
  ultimately show ?thesis by (simp only: inv_frame(1))
qed

text \<open>The three outcomes of \<open>allocate_new\<close>: the table is full, the context cannot be initialized, or
  a new context has a fresh identifier.\<close>

lemma allocate_new_cases:
  assumes inv: "manager_inv m" and dev: "mg_device m = Some dv"
  obtains
    (full) "length (mg_pdcs m) = 1024" "allocate_new dest tc dm m = Some (NO_PDC, count_stat (increment_errors PDC_FULL) m)"
  | (failed) i m1 where "dv_fep dv = 0 \<or> dest = 0" "allocate_new dest tc dm m = Some (NO_PDC, m1)"
      "manager_inv m1" "mg_pdcs m1 = mg_pdcs m" "mg_receive m1 = mg_receive m" "mg_sessions m1 = mg_sessions m"
  | (new) i p m1 where "length (mg_pdcs m) < 1024" "allocate_new dest tc dm m = Some (i, m1)" "manager_inv m1"
      "get_pdc i m = None" "mg_pdcs m1 = AList.update i p (mg_pdcs m)" "mg_receive m1 = mg_receive m"
      "mg_sessions m1 = (if is_reliable_mode dm then AList.update (dest, tc, dm) i (mg_sessions m) else mg_sessions m)"
      "create_outgoing dv i dest tc dm m = Some p"
proof (cases "length (mg_pdcs m) < 1024")
  case False
  moreover have "length (mg_pdcs m) \<le> 1024" "mg_max m = 1024" using inv by (simp_all add: manager_inv_def ids_ok_def)
  ultimately show thesis by (intro full) (simp_all add: allocate_new_def)
next
  case True
  have ids: "ids_ok m" "mg_max m = 1024" using inv by (simp_all add: manager_inv_def ids_ok_def)
  obtain i fr n where id: "take_id m = Some (i, m\<lparr>mg_free := fr, mg_next := n\<rparr>)" "get_pdc i m = None"
      "distinct fr" "set fr \<subseteq> set (mg_free m) - {i}"
    by (rule take_id_spec [OF ids(1)])
  let ?m = "m\<lparr>mg_free := fr, mg_next := n\<rparr>"
  have inv1: "manager_inv ?m" by (rule inv_next_used [OF inv id(2-4)])
  have co: "create_outgoing dv i dest tc dm (?m\<lparr>mg_used := (mg_used m)(i := True)\<rparr>) = create_outgoing dv i dest tc dm m"
    by (simp add: create_outgoing_def reliable_config_def)
  have an: "allocate_new dest tc dm m = (case create_outgoing dv i dest tc dm m of
      None \<Rightarrow> Some (NO_PDC, ?m\<lparr>mg_used := (mg_used m)(i := False)\<rparr>)
    | Some p \<Rightarrow> Some (i, install_pdc i p dest tc dm (?m\<lparr>mg_used := (mg_used m)(i := True)\<rparr>)))"
    using True dev id(1) ids(2) by (simp add: allocate_new_def co Let_def split: option.split)
  show thesis
  proof (cases "create_outgoing dv i dest tc dm m")
    case None
    have "\<not> mg_used m i" using ids(1) id(2) by (simp add: ids_ok_def)
    then have "(mg_used m)(i := False) = mg_used m" by (simp add: fun_upd_idem)
    then have "allocate_new dest tc dm m = Some (NO_PDC, ?m)" using an None by simp
    then show thesis using failed [of ?m] None inv1 by (simp add: create_outgoing_none)
  next
    case (Some p)
    let ?m1 = "install_pdc i p dest tc dm (?m\<lparr>mg_used := (mg_used ?m)(i := True)\<rparr>)"
    have "i \<notin> set fr" using id(4) by blast
    then have "manager_inv ?m1"
      using inv_install [OF inv1, of i dest p dm tc] id(2) True create_outgoing_some [OF Some] by simp
    then show thesis using new [of i ?m1 p] True an Some id(2) by (simp add: install_pdc_def count_stat_def)
  qed
qed

lemma inv_allocate:
  assumes "manager_inv m" "allocate_pdc dest tc dm m = Some (i, m')"
  shows "manager_inv m'"
proof (cases "if is_reliable_mode dm then map_of (mg_sessions m) (dest, tc, dm) else None")
  case (Some j)
  then have "map_of (mg_sessions m) (dest, tc, dm) = Some j" by (simp split: if_splits)
  then obtain p where "get_pdc j m = Some p" by (rule session_lookup [OF assms(1)])
  then have "m' = m" using assms(2) Some by (simp add: allocate_pdc_def)
  then show ?thesis using assms(1) by simp
next
  case None
  then have an: "allocate_new dest tc dm m = Some (i, m')" using assms(2) by (simp add: allocate_pdc_def)
  show ?thesis
  proof (cases "mg_device m")
    case None
    then show ?thesis using an assms(1)
      by (cases "take_id m") (auto simp: allocate_new_def take_id_def Let_def split: if_splits list.splits)
  next
    case (Some dv)
    show ?thesis
      by (rule allocate_new_cases [OF assms(1) Some, of dest tc dm]) (use an assms(1) in auto)
  qed
qed

section \<open>The other operations keep it\<close>

lemma inv_release: "manager_inv m \<Longrightarrow> manager_inv (snd (release_pdc i m))"
proof (cases "get_pdc i m = None")
  case False
  assume inv: "manager_inv m"
  let ?m = "m\<lparr>mg_pdcs := AList.delete i (mg_pdcs m), mg_sessions := filter (\<lambda>(_, j). j \<noteq> i) (mg_sessions m),
      mg_used := (mg_used m)(i := False), mg_free := mg_free m @ [i]\<rparr>"
  have get: "get_pdc j ?m = (if j = i then None else get_pdc j m)" for j by (simp add: get_pdc_def delete_conv')
  have fresh: "i \<notin> set (mg_free m)" using inv False by (auto simp: manager_inv_def ids_ok_def)
  have "length (AList.delete i (mg_pdcs m)) \<le> length (mg_pdcs m)" by (rule length_delete_le)
  then have "ids_ok ?m" using inv fresh unfolding ids_ok_def get
    by (auto simp: manager_inv_def ids_ok_def intro: distinct_delete)
  moreover have "contexts_ok ?m" using inv unfolding contexts_ok_def get by (auto simp: manager_inv_def contexts_ok_def)
  moreover have "sessions_ok ?m"
  proof -
    have d: "distinct (map fst (mg_sessions m))" using inv by (simp add: manager_inv_def sessions_ok_def)
    have "\<exists>q. get_pdc j ?m = Some q \<and> session_of key q" if "map_of (mg_sessions ?m) key = Some j" for key j
    proof -
      have "(key, j) \<in> set (mg_sessions m)" "j \<noteq> i" using map_of_SomeD [OF that] by auto
      then obtain q where "get_pdc j m = Some q" "session_of key q"
        using session_lookup [OF inv map_of_is_SomeI [OF d]] by blast
      then show ?thesis using \<open>j \<noteq> i\<close> unfolding get by auto
    qed
    then show ?thesis using d by (auto simp: sessions_ok_def distinct_map_filter)
  qed
  moreover have "receive_ok ?m" using inv by (simp add: manager_inv_def receive_ok_def get_receive_pdc_def)
  ultimately have "manager_inv ?m" by (simp add: manager_inv_def)
  moreover obtain p where "get_pdc i m = Some p" using False by auto
  ultimately show ?thesis by (simp add: release_pdc_def inv_frame(1))
qed (simp add: release_pdc_def)

text \<open>Replacing a context by one with the same identity, in either table.\<close>

definition same_identity :: "pdc \<Rightarrow> pdc \<Rightarrow> bool" where
  "same_identity p q \<longleftrightarrow> base_identity (pdc_base_of p) = base_identity (pdc_base_of q) \<and>
     ((\<exists>t. p = PTpdc t) \<longleftrightarrow> (\<exists>t. q = PTpdc t))"

lemma same_identity_serves: "same_identity p q \<Longrightarrow> serves i r p = serves i r q" "same_identity p q \<Longrightarrow> session_of k p = session_of k q"
  by (auto simp: same_identity_def serves_def session_of_def base_identity_def)

lemma length_update_old: "map_of xs k \<noteq> None \<Longrightarrow> length (AList.update k v xs) = length xs"
  by (induction xs) (auto split: if_splits)

lemma inv_replace:
  assumes inv: "manager_inv m" and p: "get_pdc i m = Some p" "same_identity p q"
  shows "manager_inv (m\<lparr>mg_pdcs := AList.update i q (mg_pdcs m)\<rparr>)"
proof -
  let ?m = "m\<lparr>mg_pdcs := AList.update i q (mg_pdcs m)\<rparr>"
  have len: "length (AList.update i q (mg_pdcs m)) = length (mg_pdcs m)"
    using p(1) by (intro length_update_old) (simp add: get_pdc_def)
  have "ids_ok ?m" using inv p(1) len unfolding ids_ok_def get_pdc_update
    by (auto simp: manager_inv_def ids_ok_def intro!: distinct_update)
  moreover have "\<exists>r. serves i r q"
    using inv p(1) same_identity_serves(1) [OF p(2)] unfolding manager_inv_def contexts_ok_def by blast
  then have "contexts_ok ?m" using inv unfolding contexts_ok_def get_pdc_update
    by (auto simp: manager_inv_def contexts_ok_def)
  moreover have "sessions_ok ?m"
  proof -
    have "\<exists>x. get_pdc j ?m = Some x \<and> session_of key x" if j: "map_of (mg_sessions m) key = Some j" for key j
    proof -
      obtain x where x: "get_pdc j m = Some x" "session_of key x" by (rule session_lookup [OF inv j])
      have "session_of key q" if "i = j"
        using that x p(1) same_identity_serves(2) [OF p(2), of key] by simp
      then show ?thesis using x unfolding get_pdc_update by auto
    qed
    then show ?thesis using inv by (simp add: manager_inv_def sessions_ok_def)
  qed
  moreover have "receive_ok ?m" using inv by (simp add: manager_inv_def receive_ok_def get_receive_pdc_def)
  ultimately show ?thesis by (simp add: manager_inv_def)
qed

lemma inv_replace_receive:
  assumes inv: "manager_inv m" and p: "get_receive_pdc src i m = Some p" "same_identity p q"
  shows "manager_inv (m\<lparr>mg_receive := AList.update (src, i) q (mg_receive m)\<rparr>)"
proof -
  have "length (AList.update (src, i) q (mg_receive m)) = length (mg_receive m)"
    using p(1) by (intro length_update_old) (simp add: get_receive_pdc_def)
  moreover have "serves i src q"
    using inv p(1) same_identity_serves(1) [OF p(2)] unfolding manager_inv_def receive_ok_def by blast
  ultimately have "receive_ok (m\<lparr>mg_receive := AList.update (src, i) q (mg_receive m)\<rparr>)"
    using inv unfolding receive_ok_def get_receive_update
    by (auto simp: manager_inv_def receive_ok_def intro!: distinct_update)
  then show ?thesis using inv by (simp add: manager_inv_def ids_ok_def contexts_ok_def sessions_ok_def)
qed

lemma pdc_identity:
  "same_identity p (snd (pdc_send now po som eom p))" "same_identity p (snd (pdc_receive now po p))"
  by (cases p; simp add: same_identity_def tpdc_context.send_identity ipdc_context.send_identity
      tpdc_context.receive_identity ipdc_context.receive_identity snd_map_prod)+

lemma inv_send:
  assumes "manager_inv m"
  shows "manager_inv (snd (send_packet_through_pdc now i po som eom m))"
proof (cases "po = None \<or> get_pdc i m = None")
  case False
  then obtain p where p: "get_pdc i m = Some p" by auto
  obtain ok q where send: "pdc_send now po som eom p = (ok, q)" by (metis surj_pair)
  have "manager_inv (m\<lparr>mg_pdcs := AList.update i q (mg_pdcs m)\<rparr>)"
    using inv_replace [OF assms p, of q] pdc_identity(1) [of p now po som eom] by (simp add: send)
  moreover obtain x where "po = Some x" using False by auto
  ultimately show ?thesis using p send by (simp add: send_packet_through_pdc_def Let_def inv_frame(1))
qed (use assms in \<open>auto simp: send_packet_through_pdc_def inv_frame(1) split: option.split\<close>)

lemma inv_dispatch:
  assumes "manager_inv m" "dispatch_packet now r m = Some (ok, m')"
  shows "manager_inv m'"
proof -
  obtain i m1 where al: "allocate_pdc (sr_dst r) (sr_tc r) (sr_mode r) (inform [NotifyPause True] m) = Some (i, m1)"
    using assms(2) by (auto simp: dispatch_packet_def split: option.splits)
  have "manager_inv m1" by (rule inv_allocate [OF inv_frame(2) [OF assms(1)] al])
  then have "manager_inv (snd (send_packet_through_pdc now i (sr_packet r) (sr_som r) (sr_eom r) m1))"
    "manager_inv m1" by (simp_all add: inv_send)
  then show ?thesis using assms(2) al
    by (auto simp: dispatch_packet_def case_prod_beta Let_def inv_frame(1,2) split: if_splits)
qed

lemma inv_request:
  assumes "manager_inv m" "process_ses_request now r m = Some (ok, m')"
  shows "manager_inv m'"
proof -
  let ?m1 = "inform [NotifyPause True] (m\<lparr>mg_state := PDS_BUSY\<rparr>)"
  have inv1: "manager_inv ?m1" using assms(1) by (simp add: inv_frame)
  show ?thesis
  proof (cases "mg_state m = PDS_IDLE \<and> validate_ses_request r \<and> mg_device ?m1 \<noteq> None")
    case False
    then show ?thesis using assms inv1
      by (cases "mg_state m") (auto simp: process_ses_request_def Let_def inv_frame split: if_splits)
  next
    case True
    then obtain ok' m2 where d: "dispatch_packet now r ?m1 = Some (ok', m2)"
      using assms(2) by (auto simp: process_ses_request_def Let_def split: option.splits)
    have "manager_inv m2" by (rule inv_dispatch [OF inv1 d])
    then show ?thesis using True assms(2) d by (auto simp: process_ses_request_def Let_def inv_frame split: if_splits)
  qed
qed

lemma inv_ensure: "manager_inv m \<Longrightarrow> manager_inv (snd (ensure_receive_pdc dv i src reliable m))"
proof (cases "get_receive_pdc src i m = None \<and> length (mg_pdcs m) + length (mg_receive m) < 1024 \<and>
    create_passive dv i src reliable m \<noteq> None")
  case True
  assume inv: "manager_inv m"
  obtain p where p: "create_passive dv i src reliable m = Some p" using True by auto
  let ?m = "m\<lparr>mg_receive := AList.update (src, i) p (mg_receive m)\<rparr>"
  have "length (AList.update (src, i) p (mg_receive m)) = Suc (length (mg_receive m))"
    using True by (simp add: get_receive_pdc_def length_update_new)
  then have "receive_ok ?m"
    using inv True create_passive_some [OF p] unfolding receive_ok_def get_receive_update
    by (auto simp: manager_inv_def receive_ok_def intro!: distinct_update)
  then have "manager_inv ?m" using inv by (simp add: manager_inv_def ids_ok_def contexts_ok_def sessions_ok_def)
  moreover have "mg_max m = 1024" using inv by (simp add: manager_inv_def ids_ok_def)
  ultimately show ?thesis using True p by (simp add: ensure_receive_pdc_def inv_frame(1))
qed (auto simp: ensure_receive_pdc_def manager_inv_def ids_ok_def split: option.split)

lemma route_packet_some:
  assumes "route_packet control src i m = Some (out, p)"
  shows "(if out then get_pdc i m else get_receive_pdc src i m) = Some p"
  using assms by (auto simp: route_packet_def split: option.splits if_splits)

lemma inv_put_routed:
  assumes "manager_inv m" "route_packet control src i m' = Some (out, p)" "tables m = tables m'" "same_identity p q"
  shows "manager_inv (put_routed out src i q m)"
proof -
  have "get_pdc i m = get_pdc i m'" "get_receive_pdc src i m = get_receive_pdc src i m'"
    using assms(3) by (simp_all add: tables_def get_pdc_def get_receive_pdc_def)
  then show ?thesis
    using route_packet_some [OF assms(2)] inv_replace [OF assms(1) _ assms(4)] inv_replace_receive [OF assms(1) _ assms(4)]
    by (cases out) (simp_all add: put_routed_def)
qed

text \<open>A received packet, up to what the SES layer does with it.\<close>

lemma inv_receive:
  assumes inv: "manager_inv m"
    and ses: "\<And>q m. manager_inv m \<Longrightarrow> manager_inv (snd (request q m))" "\<And>q m. manager_inv m \<Longrightarrow> manager_inv (snd (response q m))"
  shows "manager_inv (snd (process_received_packet now request response po src m))"
proof (cases "\<exists>p dv. po = Some p \<and> mg_device m = Some dv \<and> \<not> pk_size p < pds_header_size")
  case False
  then show ?thesis using inv by (auto simp: process_received_packet_def inv_frame(1) split: option.split)
next
  case True
  then obtain p dv where p: "po = Some p" "mg_device m = Some dv" "\<not> pk_size p < pds_header_size" by auto
  define h where "h = the (peek_header p)"
  define m1 where "m1 = snd (ensure_receive_pdc dv (ph_pdc_id h) src (ph_reliable h) m)"
  define route where "route = route_packet (pk_ctrl p \<noteq> None) src (ph_pdc_id h) m1"
  define m2 where "m2 = (case route of None \<Rightarrow> m1
     | Some (out, x) \<Rightarrow> put_routed out src (ph_pdc_id h) (snd (pdc_receive now (Some p) x)) m1)"
  define r where "r = pass_to_ses request response h (remove_header p) (count_reception now (remove_header p) m2)"
  have inv1: "manager_inv m1" unfolding m1_def by (rule inv_ensure [OF inv])
  have inv2: "manager_inv m2" using inv1 inv_put_routed [OF inv1 _ refl pdc_identity(2)]
    by (auto simp: m2_def route_def split: option.split)
  have "manager_inv (count_reception now (remove_header p) m2)" by (rule manager_inv_tables [OF tables_frame(12) inv2])
  then have "manager_inv (snd r)" by (auto simp: r_def pass_to_ses_def ses split: option.split)
  then have data: "manager_inv (if fst r then snd r else (snd r)\<lparr>mg_delivered := mg_delivered (snd r) @ [remove_header p]\<rparr>)"
    by (simp add: inv_frame)
  have control: "manager_inv (put_routed out src (ph_pdc_id h) (snd (pdc_receive now (Some p) x))
      (count_control_reception now p (count_control p c m1)))" if "route = Some (out, x)" for out x c
    by (rule inv_put_routed [OF _ that [unfolded route_def] _ pdc_identity(2)])
      (auto intro: manager_inv_tables [OF _ inv1])
  have "snd (process_received_packet now request response po src m) =
      (case (pk_ctrl p, route) of
         (Some c, Some (out, x)) \<Rightarrow> put_routed out src (ph_pdc_id h) (snd (pdc_receive now (Some p) x))
           (count_control_reception now p (count_control p c m1))
       | _ \<Rightarrow> if fst r then snd r else (snd r)\<lparr>mg_delivered := mg_delivered (snd r) @ [remove_header p]\<rparr>)"
    using p by (simp add: process_received_packet_def Let_def case_prod_beta r_def m2_def route_def m1_def h_def
        split: option.split)
  then show ?thesis using data control by (auto split: option.split)
qed

section \<open>Reachable states\<close>

text \<open>What the simulator's events do to a context: retransmission timers, the acknowledgement event,
  the periodic processing of \<open>PdcBase\<close>, the clean-up of an IPDC.\<close>

inductive pdc_event :: "pdc \<Rightarrow> pdc \<Rightarrow> bool" where
  rto: "pdc_event (PTpdc t) (PTpdc (handle_rto_timeout now seq (expire_timeout seq t)))"
| ack: "pdc_event (PTpdc t) (PTpdc (send_pending_acknowledgments now t))"
| tpdc_periodic: "pdc_event (PTpdc t) (PTpdc (t\<lparr>tp_base := pdc_process_receive_queue now (tp_base t)\<rparr>))"
| ipdc_periodic: "pdc_event (PIpdc i) (PIpdc (i\<lparr>ip_base := pdc_process_receive_queue now (ip_base i)\<rparr>))"
| cleanup: "pdc_event (PIpdc i) (PIpdc (cleanup_expired_packets now i))"

inductive_cases pdc_eventE: "pdc_event p q"

lemma base_identity_process: "base_identity (pdc_process_receive_queue now b) = base_identity b"
proof -
  have "base_identity (pdc_process_queue now ps b) = base_identity b" for ps b
    by (induction now ps b rule: pdc_process_queue.induct) (simp_all add: measure_latency_def base_identity_def
        pdc_update_statistics_def Let_def split: option.split)
  then show ?thesis by (simp add: pdc_process_receive_queue_def base_identity_def)
qed

lemma tpdc_identity_timeout: "tpdc_identity (handle_rto_timeout now seq t) = tpdc_identity t"
  by (simp add: handle_rto_timeout_def)

lemma tpdc_identity_pending: "tpdc_identity (send_pending_acknowledgments now t) = tpdc_identity t"
  by (simp add: send_pending_acknowledgments_def send_acknowledgment_def send_control_packet_def tpdc_note_ses_def
      tpdc_identity_def Let_def split: option.split)

lemmas tpdc_identity_events = tpdc_identity_timeout tpdc_identity_expire tpdc_identity_pending

lemma pdc_event_identity: "pdc_event p q \<Longrightarrow> same_identity p q"
  using tpdc_identity_events
  by (auto elim!: pdc_eventE simp: same_identity_def base_identity_process tpdc_identity_def cleanup_expired_packets_def Let_def)

text \<open>The operations that the node, its timers and the SES layer call.\<close>

inductive manager_op :: "manager \<Rightarrow> manager \<Rightarrow> bool" where
  allocate: "allocate_pdc dest tc dm m = Some (i, m') \<Longrightarrow> manager_op m m'"
| release: "manager_op m (snd (release_pdc i m))"
| request: "process_ses_request now r m = Some (ok, m') \<Longrightarrow> manager_op m m'"
| dispatch: "dispatch_packet now r m = Some (ok, m') \<Longrightarrow> manager_op m m'"
| send: "manager_op m (snd (send_packet_through_pdc now i po som eom m))"
| event: "get_pdc i m = Some p \<Longrightarrow> pdc_event p q \<Longrightarrow> manager_op m (m\<lparr>mg_pdcs := AList.update i q (mg_pdcs m)\<rparr>)"
| receive_event: "get_receive_pdc src i m = Some p \<Longrightarrow> pdc_event p q \<Longrightarrow>
    manager_op m (m\<lparr>mg_receive := AList.update (src, i) q (mg_receive m)\<rparr>)"
| device: "manager_op m (set_net_device dev m)"
| ses: "manager_op m (m\<lparr>mg_has_ses := b\<rparr>)"
| initialize: "manager_op m (manager_initialize m)"
| reset: "manager_op m (manager_reset m)"
| error: "manager_op m (handle_pdc_error i e details m)"
| statistics: "manager_op m (reset_statistics m)"
| enable: "manager_op m (set_statistics_enabled b m)"
| scheduling: "manager_op m (configure_read_response_scheduling drain prio m)"
| clear_receive: "manager_op m (m\<lparr>mg_receive := []\<rparr>)"
| semantics: "manager_op m (m\<lparr>mg_rx := rx\<rparr>)"
| control_plane: "manager_op m (m\<lparr>mg_plane := pl\<rparr>)"

inductive_cases manager_opE: "manager_op m m'"

text \<open>A received packet, whose SES callbacks do any sequence of these operations.\<close>

inductive manager_step :: "manager \<Rightarrow> manager \<Rightarrow> bool" where
  op: "manager_op m m' \<Longrightarrow> manager_step m m'"
| receive: "(\<And>q m. manager_op\<^sup>*\<^sup>* m (snd (request q m))) \<Longrightarrow> (\<And>q m. manager_op\<^sup>*\<^sup>* m (snd (response q m))) \<Longrightarrow>
    manager_step m (snd (process_received_packet now request response po src m))"

inductive manager_reachable :: "manager \<Rightarrow> bool" where
  init: "manager_reachable (new_manager memory rx pl)"
| step: "manager_reachable m \<Longrightarrow> manager_step m m' \<Longrightarrow> manager_reachable m'"

lemmas inv_unseen = tables_frame [THEN manager_inv_tables]

lemma inv_op:
  assumes "manager_op m m'" and inv: "manager_inv m"
  shows "manager_inv m'"
  using assms(1)
proof (cases rule: manager_op.cases)
  case (event i p q)
  then show ?thesis using inv_replace [OF inv] pdc_event_identity by simp
next
  case (receive_event src i p q)
  then show ?thesis using inv_replace_receive [OF inv] pdc_event_identity by simp
next
  case allocate
  then show ?thesis using inv_allocate [OF inv] by simp
next
  case request
  then show ?thesis using inv_request [OF inv] by simp
next
  case dispatch
  then show ?thesis using inv_dispatch [OF inv] by simp
next
  case clear_receive
  then show ?thesis using inv
    by (simp add: manager_inv_def ids_ok_def contexts_ok_def sessions_ok_def receive_ok_def get_receive_pdc_def)
qed (simp_all add: inv_release inv_send handle_pdc_error_def set_net_device_def manager_reset_def inv_unseen inv)

lemma inv_script: "manager_op\<^sup>*\<^sup>* m m' \<Longrightarrow> manager_inv m \<Longrightarrow> manager_inv m'"
  by (induction rule: rtranclp_induct) (auto intro: inv_op)

lemma inv_reachable: "manager_reachable m \<Longrightarrow> manager_inv m"
proof (induction rule: manager_reachable.induct)
  case (init memory rx pl)
  show ?case by (simp add: manager_inv_def ids_ok_def contexts_ok_def sessions_ok_def receive_ok_def new_manager_def
      get_pdc_def get_receive_pdc_def)
next
  case (step m m')
  from step.hyps(2) show ?case
  proof cases
    case op
    then show ?thesis using step.IH inv_op by blast
  next
    case (receive request response now po src)
    then show ?thesis using inv_receive [OF step.IH] inv_script by blast
  qed
qed

end
