(* ===== verification/PdsManagerProps.thy ===== *)
theory PdsManagerProps
  imports PdsManagerInv
begin

text \<open>
  The properties of \<open>PdsManager\<close>'s contexts and requests, on the invariant of \<open>PdsManagerInv\<close>.
\<close>

section \<open>A concrete manager\<close>

definition demo_device :: net_device where
  "demo_device = \<lparr>dv_fep = 7, dv_mtu = 1500, dv_channel = True, dv_has_ses = False\<rparr>"

definition demo_rx :: rx_state where
  "demo_rx = \<lparr>rs_pool = \<lparr>pl_max_messages = 64, pl_max_bytes = 1048576, pl_max_arrival = 64, pl_max_tracks = 64,
       pl_messages = 0, pl_bytes = 0, pl_arrival = 0, pl_tracks = 0, pl_unexpected_failures = 0,
       pl_arrival_failures = 0, pl_track_failures = 0\<rparr>,
     rs_posted = [], rs_targets = [], rs_ctxs = [], rs_tombs = [], rs_lookup_tombs = [], rs_stale_cleanups = 0,
     rs_state_timeout = 80, rs_payload_mtu = 0, rs_device_mtu = None, rs_has_ses = False, rs_notes = [], rs_mem = (\<lambda>_. 0)\<rparr>"

definition unlimited_budget :: budget where
  "unlimited_budget = \<lparr>bg_message_limit = 0, bg_byte_limit = 0, bg_messages = 0, bg_bytes = 0, bg_blocked = 0,
     bg_blocked_messages = 0, bg_blocked_bytes = 0, bg_blocked_both = 0, bg_messages_peak = 0, bg_bytes_peak = 0,
     bg_releases = 0, bg_release_bytes = 0\<rparr>"

definition demo_plane :: plane where
  "demo_plane = \<lparr>pn_controls = [], pn_gate_enabled = False, pn_ack_enabled = False, pn_initial_credits = 0,
     pn_max_arrival = 64, pn_refresh_sent = 0, pn_ack_sent = 0, pn_gate_blocked = 0, pn_send = unlimited_budget,
     pn_write = unlimited_budget, pn_read = unlimited_budget, pn_has_ses = False, pn_notes = []\<rparr>"

definition demo_manager :: manager where
  "demo_manager = set_net_device (Some demo_device) (new_manager default_limits demo_rx demo_plane)"

lemma demo_manager_reachable: "manager_reachable demo_manager"
  unfolding demo_manager_def
  by (rule manager_reachable.step [OF manager_reachable.init]) (rule manager_step.op [OF manager_op.device])

lemma demo_manager_device: "mg_device demo_manager = Some demo_device" "dv_fep demo_device = 7"
  by (simp_all add: demo_manager_def set_net_device_def demo_device_def)

section \<open>The tables\<close>

text \<open>
  C15: The context tables stay consistent in every reachable state, whatever the SES layer does in its
  callbacks: an identifier is marked as used exactly when a context has it, the identifiers kept
  for reuse are distinct and free, no table exceeds 1024 contexts, every context is active and
  configured for its own identifier and peer, and every session points to a live reliable
  context for exactly that destination, traffic class and mode.
\<close>

theorem manager_tables_consistent:
  assumes "manager_reachable m"
  shows "(\<forall>i. mg_used m i \<longleftrightarrow> get_pdc i m \<noteq> None) \<and> distinct (mg_free m) \<and> (\<forall>i \<in> set (mg_free m). \<not> mg_used m i) \<and>
    length (mg_pdcs m) \<le> 1024 \<and> length (mg_receive m) \<le> 1024 \<and>
    (\<forall>i p. get_pdc i m = Some p \<longrightarrow> (\<exists>remote. serves i remote p)) \<and>
    (\<forall>src i p. get_receive_pdc src i m = Some p \<longrightarrow> serves i src p) \<and>
    (\<forall>key i. map_of (mg_sessions m) key = Some i \<longrightarrow> (\<exists>p. get_pdc i m = Some p \<and> session_of key p))"
proof -
  have "ids_ok m" "contexts_ok m" "sessions_ok m" "receive_ok m"
    using inv_reachable [OF assms] by (simp_all add: manager_inv_def)
  then show ?thesis
    unfolding ids_ok_def contexts_ok_def sessions_ok_def receive_ok_def by (intro conjI) (blast | simp)+
qed

section \<open>Allocation\<close>

lemma allocate_new_aborts:
  assumes "manager_inv m"
  shows "allocate_new dest tc dm m = None \<longleftrightarrow> mg_device m = None \<and> length (mg_pdcs m) < 1024"
proof (cases "mg_device m")
  case None
  have ids: "ids_ok m" "mg_max m = 1024" using assms by (simp_all add: manager_inv_def ids_ok_def)
  show ?thesis
    by (rule take_id_spec [OF ids(1)]) (use None ids(2) in \<open>auto simp: allocate_new_def\<close>)
next
  case (Some dv)
  show ?thesis by (rule allocate_new_cases [OF assms Some, of dest tc dm]) (simp_all add: Some)
qed

text \<open>
  C16: Allocation returns from every reachable state unless it needs the device and there is none,
  when the code dereferences a null pointer: that is exactly when a new context is needed and there
  is room for it. Otherwise it gives an active context that has the identifier returned and is
  configured for this destination, class and mode, reliable exactly when asked, and every other
  context is as before; or the failure result, with contexts and sessions unchanged, and then the
  table is full, or the destination or the device's endpoint is zero.
\<close>

theorem allocate_correct:
  assumes reach: "manager_reachable m"
  shows "(allocate_pdc dest tc dm m = None \<longleftrightarrow> mg_device m = None \<and> length (mg_pdcs m) < 1024 \<and>
      \<not> (is_reliable_mode dm \<and> map_of (mg_sessions m) (dest, tc, dm) \<noteq> None)) \<and>
    (\<forall>i m'. allocate_pdc dest tc dm m = Some (i, m') \<longrightarrow>
      i = NO_PDC \<and> mg_pdcs m' = mg_pdcs m \<and> mg_receive m' = mg_receive m \<and> mg_sessions m' = mg_sessions m \<and>
        (length (mg_pdcs m) = 1024 \<or> dest = 0 \<or> (\<exists>dv. mg_device m = Some dv \<and> dv_fep dv = 0)) \<or>
      (\<exists>p. get_pdc i m' = Some p \<and> serves i dest p \<and> (is_reliable_mode dm \<longleftrightarrow> (\<exists>t. p = PTpdc t)) \<and>
        pc_tc (pb_config (pdc_base_of p)) = tc \<and> pc_mode (pb_config (pdc_base_of p)) = dm \<and>
        (get_pdc i m = None \<or> m' = m) \<and> (\<forall>j. j \<noteq> i \<longrightarrow> get_pdc j m' = get_pdc j m)))"
proof (cases "if is_reliable_mode dm then map_of (mg_sessions m) (dest, tc, dm) else None")
  case (Some j)
  note inv = inv_reachable [OF reach]
  from Some have rel: "is_reliable_mode dm" and s: "map_of (mg_sessions m) (dest, tc, dm) = Some j" by (simp_all split: if_splits)
  obtain p where p: "get_pdc j m = Some p" "session_of (dest, tc, dm) p" by (rule session_lookup [OF inv s])
  obtain remote where "serves j remote p" using inv p(1) unfolding manager_inv_def contexts_ok_def by blast
  then have "serves j dest p" using p(2) by (simp add: serves_def session_of_def)
  moreover have "allocate_pdc dest tc dm m = Some (j, m)" using Some p(1) by (simp add: allocate_pdc_def)
  ultimately show ?thesis using p rel s by (auto simp: session_of_def)
next
  case None
  note inv = inv_reachable [OF reach]
  have an: "allocate_pdc dest tc dm m = allocate_new dest tc dm m" using None by (simp add: allocate_pdc_def)
  have no_session: "\<not> (is_reliable_mode dm \<and> map_of (mg_sessions m) (dest, tc, dm) \<noteq> None)" using None by (auto split: if_splits)
  show ?thesis
  proof (cases "mg_device m")
    case None
    then have "length (mg_pdcs m) = 1024 \<and> allocate_new dest tc dm m = Some (NO_PDC, count_stat (increment_errors PDC_FULL) m)"
      if "\<not> length (mg_pdcs m) < 1024"
      using inv that by (simp add: manager_inv_def ids_ok_def allocate_new_def)
    then show ?thesis using None no_session allocate_new_aborts [OF inv, of dest tc dm]
      by (cases "length (mg_pdcs m) < 1024") (auto simp: an count_stat_def)
  next
    case (Some dv)
    show ?thesis
    proof (rule allocate_new_cases [OF inv Some, of dest tc dm])
      assume "length (mg_pdcs m) = 1024" "allocate_new dest tc dm m = Some (NO_PDC, count_stat (increment_errors PDC_FULL) m)"
      then show ?thesis using Some by (auto simp: an count_stat_def)
    next
      fix i m1
      assume "dv_fep dv = 0 \<or> dest = 0" "allocate_new dest tc dm m = Some (NO_PDC, m1)" "mg_pdcs m1 = mg_pdcs m"
        "mg_receive m1 = mg_receive m" "mg_sessions m1 = mg_sessions m"
      then show ?thesis using Some by (auto simp: an)
    next
      fix i p m1
      assume new: "allocate_new dest tc dm m = Some (i, m1)" "get_pdc i m = None" "mg_pdcs m1 = AList.update i p (mg_pdcs m)"
        and p: "create_outgoing dv i dest tc dm m = Some p"
      have "get_pdc j m1 = (if j = i then Some p else get_pdc j m)" for j
        using new(3) by (simp add: get_pdc_def update_conv')
      moreover have "is_reliable_mode dm \<longleftrightarrow> (\<exists>t. p = PTpdc t)" using p by (auto simp: create_outgoing_def split: if_splits)
      ultimately show ?thesis using new(1,2) create_outgoing_some [OF p] Some
        by (auto simp: an context_config_def default_pdc_config_def)
    qed
  qed
qed

text \<open>
  A reliable session is kept: once \<open>AllocatePdc\<close> has given a reliable context for a destination,
  class and mode, every further allocation for them gives the same context and changes nothing.
\<close>

theorem session_reused:
  assumes "manager_reachable m" "mg_device m = Some dv" "is_reliable_mode dm" "length (mg_pdcs m) < 1024"
    and "allocate_pdc dest tc dm m = Some (i, m')" "get_pdc i m' \<noteq> None" "dv_fep dv \<noteq> 0" "dest \<noteq> 0"
  shows "allocate_pdc dest tc dm m' = Some (i, m')"
proof (cases "map_of (mg_sessions m) (dest, tc, dm)")
  case (Some j)
  obtain p where "get_pdc j m = Some p" by (rule session_lookup [OF inv_reachable [OF assms(1)] Some])
  then show ?thesis using assms(3,5) Some by (simp add: allocate_pdc_def)
next
  case None
  then have an: "allocate_new dest tc dm m = Some (i, m')" using assms(3,5) by (simp add: allocate_pdc_def)
  have "map_of (mg_sessions m') (dest, tc, dm) = Some i"
    by (rule allocate_new_cases [OF inv_reachable [OF assms(1)] assms(2), of dest tc dm])
      (use an assms in \<open>auto simp: update_conv'\<close>)
  then show ?thesis using assms(3,6) by (simp add: allocate_pdc_def)
qed

section \<open>Requests\<close>

lemma dispatch_keeps_state: "dispatch_packet now r m = Some (ok, m') \<Longrightarrow> mg_state m' = mg_state m"
proof -
  have al: "mg_state m1 = mg_state m" if "allocate_pdc dest tc dm m = Some (i, m1)" for dest tc dm i m m1
    using that by (auto simp: allocate_pdc_def allocate_new_def take_id_def install_pdc_def count_stat_def Let_def
        split: option.splits if_splits list.splits)
  have se: "mg_state (snd (send_packet_through_pdc now i po som eom m)) = mg_state m" for i po som eom m
    by (simp add: send_packet_through_pdc_def count_stat_def Let_def case_prod_beta split: option.split)
  assume "dispatch_packet now r m = Some (ok, m')"
  then show ?thesis using al se
    by (fastforce simp: dispatch_packet_def inform_def count_stat_def Let_def case_prod_beta split: option.splits if_splits)
qed

text \<open>A sequence of requests, with their results.\<close>

fun run_requests :: "(ns \<times> ses_request) list \<Rightarrow> manager \<Rightarrow> (bool list \<times> manager) option" where
  "run_requests [] m = Some ([], m)"
| "run_requests ((now, r) # rs) m = (case process_ses_request now r m of
      None \<Rightarrow> None
    | Some (ok, m1) \<Rightarrow> map_option (\<lambda>(oks, m2). (ok # oks, m2)) (run_requests rs m1))"

lemma request_outcome:
  assumes "process_ses_request now r m = Some (ok, m')"
  shows "(mg_state m = PDS_IDLE \<longrightarrow> mg_state m' = (if ok then PDS_IDLE else PDS_ERROR)) \<and>
    (mg_state m \<noteq> PDS_IDLE \<longrightarrow> \<not> ok \<and> mg_state m' = mg_state m \<and> tables m' = tables m)"
proof (cases "mg_state m = PDS_IDLE")
  case False
  then show ?thesis using assms by (cases "mg_state m") (auto simp: process_ses_request_def count_stat_def tables_def)
next
  case True
  then show ?thesis using assms
    by (auto simp: process_ses_request_def Let_def inform_def split: option.splits if_splits)
qed

text \<open>
  The state machine of requests. A request that is processed in the idle state ends there when it
  was sent and in the error state otherwise, never in the busy state. In the error state every
  request is refused and changes no table, for ever: only \<open>Reset\<close> leaves the state.
\<close>

theorem error_state_sticks:
  assumes "run_requests rs m = Some (oks, m')" "mg_state m = PDS_ERROR"
  shows "\<not> list_ex id oks \<and> mg_state m' = PDS_ERROR \<and> tables m' = tables m \<and> mg_state (manager_reset m') = PDS_IDLE"
  using assms
proof (induction rs arbitrary: m oks)
  case (Cons x rs)
  obtain now r where x: "x = (now, r)" by (cases x)
  obtain ok m1 oks' where step: "process_ses_request now r m = Some (ok, m1)" "run_requests rs m1 = Some (oks', m')" "oks = ok # oks'"
    using Cons.prems(1) by (auto simp: x split: option.splits)
  show ?case using Cons.IH [OF step(2)] request_outcome [OF step(1)] Cons.prems(2) step(3) by simp
qed (simp add: manager_reset_def)

text \<open>
  C18: A request that fails validation (no packet, an empty packet, a zero endpoint, a mode above 7,
  a length that is not the packet's) is refused before anything is allocated; a request that
  succeeds was valid, and the packet went through a live context for its destination.
\<close>

theorem request_validated:
  assumes "process_ses_request now r m = Some (ok, m')"
  shows "(\<not> validate_ses_request r \<longrightarrow> \<not> ok \<and> tables m' = tables m) \<and>
    (ok \<longrightarrow> mg_device m \<noteq> None \<and> (\<exists>p. sr_packet r = Some p \<and> 0 < pk_size p \<and> pk_size p < 65536 \<and> unat (sr_len r) = pk_size p))"
proof -
  have lt: "unat (sr_len r) < 65536" using unsigned_less [of "sr_len r"] by simp
  have refused: "\<not> ok \<and> tables m' = tables m" if "\<not> validate_ses_request r"
    using assms that by (auto simp: process_ses_request_def Let_def split: if_splits)
  have "mg_device m \<noteq> None" if ok
    using assms that by (auto simp: process_ses_request_def Let_def inform_def split: if_splits)
  moreover have "\<exists>p. sr_packet r = Some p \<and> 0 < pk_size p \<and> pk_size p < 65536 \<and> unat (sr_len r) = pk_size p" if ok
  proof -
    have "validate_ses_request r" using refused that by blast
    then show ?thesis using lt by (auto simp: validate_ses_request_def split: option.splits)
  qed
  ultimately show ?thesis using refused by blast
qed

text \<open>An unreliable request that succeeds has a context of its own.\<close>

lemma unreliable_request_adds:
  assumes inv: "manager_inv m" and req: "process_ses_request now r m = Some (ok, m')" and mode: "\<not> is_reliable_mode (sr_mode r)"
  shows "length (mg_pdcs m) + (if ok then 1 else 0) \<le> length (mg_pdcs m')"
proof (cases "mg_state m = PDS_IDLE \<and> validate_ses_request r \<and> mg_device m \<noteq> None")
  case False
  have "length (mg_pdcs m') = length (mg_pdcs m) \<and> \<not> ok"
    using False req by (cases "mg_state m") (auto simp: process_ses_request_def Let_def inform_def count_stat_def split: if_splits)
  then show ?thesis by simp
next
  case True
  let ?m1 = "inform [NotifyPause True] (m\<lparr>mg_state := PDS_BUSY\<rparr>)"
  let ?m2 = "inform [NotifyPause True] ?m1"
  have inv2: "manager_inv ?m2" using inv by (simp add: inv_frame)
  have pd: "mg_pdcs ?m2 = mg_pdcs m" "mg_device ?m2 = mg_device m" by (simp_all add: inform_def)
  obtain dv where dv: "mg_device ?m2 = Some dv" using True pd by auto
  obtain ok' m3 where d: "dispatch_packet now r ?m1 = Some (ok', m3)" and out: "ok = ok'" "mg_pdcs m' = mg_pdcs m3"
    using True req by (auto simp: process_ses_request_def Let_def inform_def split: option.splits if_splits)
  obtain i m4 where al: "allocate_new (sr_dst r) (sr_tc r) (sr_mode r) ?m2 = Some (i, m4)"
    using d mode by (auto simp: dispatch_packet_def allocate_pdc_def split: option.splits)
  have sent: "length (mg_pdcs (snd (send_packet_through_pdc now i po som eom m4))) = length (mg_pdcs m4)" for po som eom
    by (simp add: send_packet_through_pdc_def count_stat_def Let_def case_prod_beta get_pdc_def length_update_old split: option.split)
  have m3: "length (mg_pdcs m3) = length (mg_pdcs m4) \<and> (i = NO_PDC \<longrightarrow> \<not> ok')"
    using d al mode sent by (auto simp: dispatch_packet_def allocate_pdc_def inform_def count_stat_def Let_def case_prod_beta
        split: if_splits)
  have "length (mg_pdcs m) \<le> length (mg_pdcs m4) \<and> (i \<noteq> NO_PDC \<longrightarrow> Suc (length (mg_pdcs m)) \<le> length (mg_pdcs m4))"
    by (rule allocate_new_cases [OF inv2 dv, of "sr_dst r" "sr_tc r" "sr_mode r"])
      (use al pd in \<open>auto simp: count_stat_def get_pdc_def length_update_new\<close>)
  then show ?thesis using m3 out by auto
qed

text \<open>
  C17: Unreliable sending runs out. Every unreliable request that succeeds leaves one more context
  behind, so without \<open>ReleasePdc\<close> a manager can send at most 1024 unreliable packets in its life,
  however the requests are spread over destinations and time.
\<close>

theorem unreliable_requests_run_out:
  assumes "manager_reachable m" "run_requests rs m = Some (oks, m')" "\<forall>(now, r) \<in> set rs. \<not> is_reliable_mode (sr_mode r)"
  shows "length (mg_pdcs m) + length (filter id oks) \<le> length (mg_pdcs m') \<and> length (mg_pdcs m') \<le> 1024"
  using inv_reachable [OF assms(1)] assms(2,3)
proof (induction rs arbitrary: m oks)
  case (Cons x rs)
  obtain now r where x: "x = (now, r)" by (cases x)
  obtain ok m1 oks' where step: "process_ses_request now r m = Some (ok, m1)" "run_requests rs m1 = Some (oks', m')" "oks = ok # oks'"
    using Cons.prems(2) by (auto simp: x split: option.splits)
  have "length (mg_pdcs m) + (if ok then 1 else 0) \<le> length (mg_pdcs m1)"
    using unreliable_request_adds [OF Cons.prems(1) step(1)] Cons.prems(3) x by simp
  then show ?case using Cons.IH [OF inv_request [OF Cons.prems(1) step(1)] step(2)] Cons.prems(3) step(3) by auto
qed (simp add: manager_inv_def ids_ok_def)

section \<open>The failure result\<close>

fun allocate_many :: "(u32 \<times> u8 \<times> u8) list \<Rightarrow> manager \<Rightarrow> (u16 list \<times> manager) option" where
  "allocate_many [] m = Some ([], m)"
| "allocate_many ((dest, tc, dm) # as) m = (case allocate_pdc dest tc dm m of
      None \<Rightarrow> None
    | Some (i, m1) \<Rightarrow> map_option (\<lambda>(is, m2). (i # is, m2)) (allocate_many as m1))"

lemma allocate_fails:
  assumes "mg_pdcs m = []" "mg_free m = []" "mg_used m = (\<lambda>_. False)" "mg_max m = 1024" "mg_device m = Some dv"
  shows "allocate_pdc 0 tc 2 m = Some (NO_PDC, m\<lparr>mg_next := mg_next m + 1\<rparr>)"
proof -
  have "create_outgoing dv i 0 tc 2 m' = None" for i m' by (simp add: create_outgoing_none)
  moreover have "m\<lparr>mg_next := n, mg_used := \<lambda>_. False\<rparr> = m\<lparr>mg_next := n\<rparr>" for n
    using assms(3) by (cases m) simp
  moreover have "(\<lambda>a. a = i \<and> a \<noteq> i) = (\<lambda>_. False)" for i :: u16 by auto
  ultimately show ?thesis
    using assms by (simp add: allocate_pdc_def is_reliable_mode_def allocate_new_def take_id_def next_free_id_here Let_def
        fun_upd_def cong: if_cong)
qed

lemma allocate_fails_many:
  assumes "mg_pdcs m = []" "mg_free m = []" "mg_used m = (\<lambda>_. False)" "mg_max m = 1024" "mg_device m = Some dv"
  shows "allocate_many (replicate n (0, tc, 2)) m = Some (replicate n NO_PDC, m\<lparr>mg_next := mg_next m + of_nat n\<rparr>)"
  using assms
proof (induction n arbitrary: m)
  case (Suc n)
  show ?case using allocate_fails [OF Suc.prems] Suc.IH [of "m\<lparr>mg_next := mg_next m + 1\<rparr>"] Suc.prems
    by (simp add: algebra_simps)
qed simp

text \<open>
  C20: The failure result is also an identifier. After 65535 allocations that failed (for the invalid
  destination 0) a new manager gives out the identifier 65535: the call creates the context and
  stores it, but the caller reads the result as a failure, and nobody ever sends through the
  context or releases it.
\<close>

theorem failure_result_allocated:
  assumes "mg_device m = Some dv" "dv_fep dv \<noteq> 0" "dest \<noteq> 0" "m = set_net_device (Some dv) (new_manager memory rx pl)"
  shows "\<exists>m1 m2. allocate_many (replicate 65535 (0, tc, 2)) m = Some (replicate 65535 NO_PDC, m1) \<and> mg_pdcs m1 = [] \<and>
    allocate_pdc dest tc 2 m1 = Some (NO_PDC, m2) \<and> get_pdc NO_PDC m2 \<noteq> None"
proof -
  let ?m1 = "m\<lparr>mg_next := 65535\<rparr>"
  have m: "mg_pdcs m = []" "mg_free m = []" "mg_used m = (\<lambda>_. False)" "mg_max m = 1024" "mg_next m = 0"
    by (simp_all add: assms(4) set_net_device_def new_manager_def)
  have "allocate_many (replicate 65535 (0, tc, 2)) m = Some (replicate 65535 NO_PDC, ?m1)"
    using allocate_fails_many [OF m(1-4) assms(1), of 65535] unfolding m(5) by simp
  moreover obtain p where p: "create_outgoing dv NO_PDC dest tc 2 (?m1\<lparr>mg_next := NO_PDC + 1, mg_used := (mg_used ?m1)(NO_PDC := True)\<rparr>) = Some p"
    using assms(2,3) create_outgoing_none [of dv NO_PDC dest tc 2] by (metis option.exhaust)
  have "take_id ?m1 = Some (NO_PDC, ?m1\<lparr>mg_next := NO_PDC + 1\<rparr>)"
    using m by (simp add: take_id_def next_free_id_here NO_PDC_def)
  then have "allocate_pdc dest tc 2 ?m1 = Some (NO_PDC, install_pdc NO_PDC p dest tc 2
      (?m1\<lparr>mg_next := NO_PDC + 1, mg_used := (mg_used ?m1)(NO_PDC := True)\<rparr>))"
    using p m assms(1) by (simp add: allocate_pdc_def is_reliable_mode_def allocate_new_def Let_def)
  moreover have "get_pdc NO_PDC (install_pdc NO_PDC p dest tc 2 x) \<noteq> None" for x
    by (simp add: install_pdc_def get_pdc_def count_stat_def update_conv')
  moreover have "mg_pdcs ?m1 = []" using m by simp
  ultimately show ?thesis by blast
qed

section \<open>Receiving\<close>

text \<open>
  C19: Peers do not interfere. By itself a data packet from one endpoint changes no outgoing context and
  no session, and of the receiving contexts only the one of its source and identifier (\<open>m2\<close>). After
  that it is handed, without its PDS header, to the SES layer, and to the application when there is no
  SES layer or that does not take it: everything else that changes is what the SES layer's callback did.
\<close>

theorem data_packet_isolated:
  assumes "mg_device m = Some dv" "pk_ctrl p = None"
    and r: "process_received_packet now request response (Some (add_header h p)) src m = (ok, m')"
  shows "\<exists>m2. mg_pdcs m2 = mg_pdcs m \<and> mg_sessions m2 = mg_sessions m \<and> mg_delivered m2 = mg_delivered m \<and>
    mg_has_ses m2 = mg_has_ses m \<and>
    (\<forall>src' i. (src', i) \<noteq> (src, ph_pdc_id h) \<longrightarrow> get_receive_pdc src' i m2 = get_receive_pdc src' i m) \<and> ok \<and>
    (if mg_has_ses m
     then (case pass_to_ses request response h p m2 of
        (taken, m3) \<Rightarrow> m' = (if taken then m3 else m3\<lparr>mg_delivered := mg_delivered m3 @ [p]\<rparr>))
     else m' = m2\<lparr>mg_delivered := mg_delivered m @ [p]\<rparr>)"
proof -
  let ?p = "add_header h p" and ?i = "ph_pdc_id h"
  define m1 where "m1 = snd (ensure_receive_pdc dv ?i src (ph_reliable h) m)"
  define m2 where "m2 = (case route_packet False src ?i m1 of None \<Rightarrow> m1
     | Some (out, x) \<Rightarrow> put_routed out src ?i (snd (pdc_receive now (Some ?p) x)) m1)"
  have size: "\<not> pk_size ?p < pds_header_size" by (simp add: pk_size_add_header)
  have ctrl: "pk_ctrl ?p = None" and rem: "remove_header ?p = p" using assms(2) by (simp_all add: add_header_def remove_header_def)
  have frame1: "mg_pdcs m1 = mg_pdcs m" "mg_sessions m1 = mg_sessions m" "mg_delivered m1 = mg_delivered m" "mg_has_ses m1 = mg_has_ses m"
    "\<And>src' i. (src', i) \<noteq> (src, ?i) \<Longrightarrow> get_receive_pdc src' i m1 = get_receive_pdc src' i m"
    by (auto simp: m1_def ensure_receive_pdc_def count_stat_def get_receive_pdc_def update_conv' split: option.split)
  have frame2: "mg_pdcs m2 = mg_pdcs m1" "mg_sessions m2 = mg_sessions m1" "mg_delivered m2 = mg_delivered m1" "mg_has_ses m2 = mg_has_ses m1"
    "\<And>src' i. (src', i) \<noteq> (src, ?i) \<Longrightarrow> get_receive_pdc src' i m2 = get_receive_pdc src' i m1"
    by (auto simp: m2_def put_routed_def route_packet_def get_receive_pdc_def update_conv' split: option.split)
  let ?m2 = "count_reception now p m2"
  have frame3: "mg_pdcs ?m2 = mg_pdcs m2" "mg_sessions ?m2 = mg_sessions m2" "mg_delivered ?m2 = mg_delivered m2"
    "mg_has_ses ?m2 = mg_has_ses m2" "get_receive_pdc src' i ?m2 = get_receive_pdc src' i m2" for src' i
    by (simp_all add: count_reception_def count_stat_def get_receive_pdc_def)
  have out: "(ok, m') = (let (taken, m3) = pass_to_ses request response h p ?m2
      in (True, if taken then m3 else m3\<lparr>mg_delivered := mg_delivered m3 @ [p]\<rparr>))"
    using r assms(1) size ctrl unfolding m2_def m1_def by (simp add: process_received_packet_def Let_def rem)
  have none: "pass_to_ses request response h p ?m2 = (False, ?m2)" if "\<not> mg_has_ses m"
    using that frame1(4) frame2(4) frame3(4) by (simp add: pass_to_ses_def)
  show ?thesis using out none frame1 frame2 frame3
    by (intro exI [of _ ?m2]) (auto simp: Let_def split: prod.splits)
qed

section \<open>The properties on concrete managers\<close>

text \<open>Node 7 allocates a reliable context to node 9, which makes the receiving one.\<close>

definition demo_allocated :: manager where
  "demo_allocated = snd (the (allocate_pdc 9 0 0 demo_manager))"

lemma demo_manager_tables:
  "mg_pdcs demo_manager = []" "mg_sessions demo_manager = []" "mg_receive demo_manager = []" "mg_max demo_manager = 1024"
  "mg_free demo_manager = []" "mg_used demo_manager = (\<lambda>_. False)" "mg_next demo_manager = 0" "\<not> mg_has_ses demo_manager"
  "mg_state demo_manager = PDS_IDLE"
  by (simp_all add: demo_manager_def set_net_device_def new_manager_def)

lemma demo_allocates:
  obtains t where "allocate_pdc 9 0 0 demo_manager = Some (0, demo_allocated)" "get_pdc 0 demo_allocated = Some (PTpdc t)"
    "get_pdc 0 demo_manager = None"
proof -
  let ?m = "demo_manager\<lparr>mg_next := 1, mg_used := (\<lambda>_. False)(0 := True)\<rparr>"
  have "create_outgoing demo_device 0 9 0 0 ?m \<noteq> None" by (simp add: create_outgoing_none demo_manager_device)
  then obtain t where t: "create_outgoing demo_device 0 9 0 0 ?m = Some (PTpdc t)"
    by (auto simp: create_outgoing_def is_reliable_mode_def)
  then have "allocate_pdc 9 0 0 demo_manager = Some (0, install_pdc 0 (PTpdc t) 9 0 0 ?m)"
    by (simp add: allocate_pdc_def is_reliable_mode_def demo_manager_tables demo_manager_device allocate_new_def take_id_def
        next_free_id_here Let_def)
  moreover have "get_pdc 0 (install_pdc 0 (PTpdc t) 9 0 0 ?m) = Some (PTpdc t)"
    by (simp add: install_pdc_def get_pdc_def count_stat_def update_conv')
  ultimately show ?thesis using that by (simp add: demo_allocated_def get_pdc_def demo_manager_tables)
qed

lemma demo_allocated_reachable: "manager_reachable demo_allocated"
  by (rule demo_allocates) (rule manager_reachable.step [OF demo_manager_reachable manager_step.op [OF manager_op.allocate]])

lemma manager_tables_consistent_witness: "mg_used demo_allocated 0 \<and> length (mg_pdcs demo_allocated) \<le> 1024"
  using manager_tables_consistent [OF demo_allocated_reachable] demo_allocates by (metis option.distinct(1))

lemma allocate_correct_witness:
  "\<exists>i m' p. allocate_pdc 9 0 0 demo_manager = Some (i, m') \<and> get_pdc i m' = Some p \<and> serves i 9 p"
proof -
  note a = allocate_correct [OF demo_manager_reachable, of 9 0 0]
  then obtain i m' where "allocate_pdc 9 0 0 demo_manager = Some (i, m')" by (auto simp: demo_manager_device)
  then show ?thesis using a by (fastforce simp: demo_manager_device demo_manager_tables)
qed

lemma session_reused_witness: "allocate_pdc 9 0 0 demo_allocated = Some (0, demo_allocated)"
proof -
  obtain t where t: "allocate_pdc 9 0 0 demo_manager = Some (0, demo_allocated)" "get_pdc 0 demo_allocated = Some (PTpdc t)"
    by (rule demo_allocates)
  show ?thesis
    by (rule session_reused [OF demo_manager_reachable demo_manager_device(1) _ _ t(1)])
      (simp_all add: t(2) demo_manager_device demo_manager_tables is_reliable_mode_def)
qed

definition demo_request :: "u8 \<Rightarrow> packet option \<Rightarrow> ses_request" where
  "demo_request dm po = \<lparr>sr_src = 7, sr_dst = 9, sr_mode = dm, sr_tc = 0, sr_packet = po, sr_len = 3, sr_som = True, sr_eom = True\<rparr>"

lemma error_state_sticks_witness:
  "mg_state (snd (the (run_requests [(5, demo_request 0 None)] (demo_manager\<lparr>mg_state := PDS_ERROR\<rparr>)))) = PDS_ERROR"
proof -
  obtain oks m' where r: "run_requests [(5, demo_request 0 None)] (demo_manager\<lparr>mg_state := PDS_ERROR\<rparr>) = Some (oks, m')"
    by (simp add: process_ses_request_def)
  have "mg_state m' = PDS_ERROR" using error_state_sticks [OF r] by simp
  then show ?thesis unfolding r by simp
qed

lemma request_validated_witness: "\<not> fst (the (process_ses_request 5 (demo_request 0 None) demo_manager))"
proof -
  have "\<exists>x. process_ses_request 5 (demo_request 0 None) demo_manager = Some x"
    by (auto simp: process_ses_request_def demo_manager_tables validate_ses_request_def demo_request_def)
  then obtain ok m' where r: "process_ses_request 5 (demo_request 0 None) demo_manager = Some (ok, m')" by auto
  have "\<not> ok" using request_validated [OF r] by (simp add: validate_ses_request_def demo_request_def)
  then show ?thesis unfolding r by simp
qed

lemma unreliable_requests_run_out_witness:
  "length (mg_pdcs (snd (the (run_requests [(5, demo_request 2 (Some demo_data))] demo_manager)))) \<le> 1024"
proof -
  let ?m = "inform [NotifyPause True] (inform [NotifyPause True] (demo_manager\<lparr>mg_state := PDS_BUSY\<rparr>))"
  have m: "?m = demo_manager\<lparr>mg_state := PDS_BUSY\<rparr>" by (simp add: inform_def demo_manager_tables)
  have "manager_inv ?m" "mg_device ?m = Some demo_device"
    using inv_reachable [OF demo_manager_reachable] demo_manager_device(1) by (simp_all add: inv_frame m)
  then have "allocate_new 9 0 2 ?m \<noteq> None" by (rule allocate_new_cases [of _ _ 9 0 2]) simp_all
  then obtain i m1 where "allocate_new 9 0 2 ?m = Some (i, m1)" by auto
  then have "\<exists>x. dispatch_packet 5 (demo_request 2 (Some demo_data)) (inform [NotifyPause True] (demo_manager\<lparr>mg_state := PDS_BUSY\<rparr>)) = Some x"
    by (simp add: dispatch_packet_def demo_request_def allocate_pdc_def is_reliable_mode_def)
  then obtain ok m2 where d: "dispatch_packet 5 (demo_request 2 (Some demo_data)) (inform [NotifyPause True] (demo_manager\<lparr>mg_state := PDS_BUSY\<rparr>)) = Some (ok, m2)"
    by auto
  have "\<exists>x. run_requests [(5, demo_request 2 (Some demo_data))] demo_manager = Some x"
    using d by (auto simp: process_ses_request_def demo_manager_tables demo_manager_device inform_def Let_def split: if_splits)
  then obtain oks m' where r: "run_requests [(5, demo_request 2 (Some demo_data))] demo_manager = Some (oks, m')" by auto
  have "length (mg_pdcs m') \<le> 1024"
    using unreliable_requests_run_out [OF demo_manager_reachable r] by (simp add: demo_request_def is_reliable_mode_def)
  then show ?thesis unfolding r by simp
qed

lemma failure_result_allocated_witness:
  "\<exists>m1 m2. allocate_many (replicate 65535 (0, 0, 2)) demo_manager = Some (replicate 65535 NO_PDC, m1) \<and>
    allocate_pdc 9 0 2 m1 = Some (NO_PDC, m2) \<and> get_pdc NO_PDC m2 \<noteq> None"
proof -
  have "dv_fep demo_device \<noteq> 0" "(9 :: u32) \<noteq> 0" by (simp_all add: demo_manager_device)
  from failure_result_allocated [OF demo_manager_device(1) this demo_manager_def, of 0] show ?thesis by blast
qed

lemma data_packet_isolated_witness:
  "mg_delivered (snd (process_received_packet 5 (\<lambda>q m. (False, m)) (\<lambda>q m. (False, m)) (Some (add_header
     \<lparr>ph_pdc_id = 3, ph_seq = 1, ph_som = True, ph_eom = True, ph_reliable = False\<rparr> demo_data)) 9 demo_manager)) = [demo_data]"
proof -
  let ?r = "process_received_packet 5 (\<lambda>q m. (False, m)) (\<lambda>q m. (False, m)) (Some (add_header
     \<lparr>ph_pdc_id = 3, ph_seq = 1, ph_som = True, ph_eom = True, ph_reliable = False\<rparr> demo_data)) 9 demo_manager"
  have r: "?r = (fst ?r, snd ?r)" by simp
  have "pk_ctrl demo_data = None" by (simp add: demo_data_def empty_packet_def)
  moreover have "mg_delivered demo_manager = []" by (simp add: demo_manager_def set_net_device_def new_manager_def)
  ultimately show ?thesis
    using data_packet_isolated [OF demo_manager_device(1) _ r] by (auto simp: demo_manager_tables)
qed

end
