(* ===== verification/PdsSession.thy ===== *)
theory PdsSession
  imports PdsManagerProps
begin

text \<open>
  Two nodes: the reliable context that one \<open>PdsManager\<close> allocates, and the receiving context that the
  other creates for its packets. Whatever the two managers do, the two contexts are the two ends of
  a TPDC session, and the packets between them are routed to the right context.
\<close>

section \<open>The two contexts\<close>

text \<open>The context of one end: its identifier and peer, and what it has put on the wire.\<close>

definition end_ok :: "u16 \<Rightarrow> u32 \<Rightarrow> tpdc \<Rightarrow> bool" where
  "end_ok i remote t \<longleftrightarrow> serves i remote (PTpdc t) \<and> (\<forall>p \<in> set (tp_out t). stamped i p)"

lemma end_ok_grows:
  assumes "end_ok i remote t" "out_grows t t'" "tpdc_identity t' = tpdc_identity t"
  shows "end_ok i remote t'"
proof -
  have "end_id t = i" using assms(1) by (simp add: end_ok_def serves_def end_id_def tpdc_identity_def base_identity_def)
  moreover have "serves i remote (PTpdc t')"
    using assms(1,3) by (auto simp: end_ok_def serves_def tpdc_identity_def base_identity_def)
  ultimately show ?thesis using assms(1,2) by (auto simp: end_ok_def out_grows_def)
qed

lemma created_end:
  assumes "create_tpdc cfg dv = Some t"
  shows "tp_out t = []" "\<exists>t0. tpdc_initialize cfg (new_tpdc dv) = (True, t0) \<and> t = t0\<lparr>tp_base := pdc_activate (tp_base t0)\<rparr>"
proof -
  obtain t0 where t: "tpdc_initialize cfg (new_tpdc dv) = (True, t0)" "t = t0\<lparr>tp_base := pdc_activate (tp_base t0)\<rparr>"
    using assms by (auto simp: create_tpdc_def split: prod.splits if_splits)
  then show "\<exists>t0. tpdc_initialize cfg (new_tpdc dv) = (True, t0) \<and> t = t0\<lparr>tp_base := pdc_activate (tp_base t0)\<rparr>" by blast
  have "tp_out t0 = []" using t(1) by (auto simp: tpdc_initialize_def new_tpdc_def Let_def split: prod.splits if_splits)
  then show "tp_out t = []" by (simp add: t(2))
qed

text \<open>The receiving end before its first packet: what \<open>EnsureReceivePdc\<close> will create.\<close>

definition first_receiver :: "u32 \<Rightarrow> u16 \<Rightarrow> tpdc \<Rightarrow> bool" where
  "first_receiver a i r \<longleftrightarrow> (\<exists>dv m. dv_channel dv \<and> create_passive dv i a True m = Some (PTpdc r))"

lemma first_receiver_end:
  assumes "first_receiver a i r"
  shows "end_ok i a r"
proof -
  obtain dv m where c: "create_passive dv i a True m = Some (PTpdc r)" using assms by (auto simp: first_receiver_def)
  then obtain cfg where "create_tpdc cfg dv = Some r" by (auto simp: create_passive_def)
  then show ?thesis using create_passive_some [OF c] created_end(1) by (simp add: end_ok_def)
qed

lemma first_receiver_exists: "a \<noteq> 0 \<Longrightarrow> \<exists>r. first_receiver a i r"
proof -
  assume "a \<noteq> 0"
  then have "create_passive demo_device i a True demo_manager \<noteq> None"
    by (simp add: create_passive_def create_tpdc_def tpdc_initialize_def pdc_base_initialize_def reliable_config_def
        context_config_def default_tpdc_config_def demo_device_def Let_def)
  then obtain r where "create_passive demo_device i a True demo_manager = Some (PTpdc r)" by (auto simp: create_passive_def)
  moreover have "dv_channel demo_device" by (simp add: demo_device_def)
  ultimately show ?thesis unfolding first_receiver_def by blast
qed

lemma new_session:
  assumes "create_tpdc ca dva = Some s" "dv_channel dva" "create_tpdc cb dvb = Some r" "dv_channel dvb"
  shows "session_reachable \<lparr>ss_snd = s, ss_rcv = r\<rparr>"
proof -
  obtain s0 where s: "tpdc_initialize ca (new_tpdc dva) = (True, s0)" "s = s0\<lparr>tp_base := pdc_activate (tp_base s0)\<rparr>"
    using created_end(2) [OF assms(1)] by blast
  obtain r0 where r: "tpdc_initialize cb (new_tpdc dvb) = (True, r0)" "r = r0\<lparr>tp_base := pdc_activate (tp_base r0)\<rparr>"
    using created_end(2) [OF assms(3)] by blast
  have "fresh_tpdc (new_tpdc dva)" "fresh_tpdc (new_tpdc dvb)" using assms(2,4) by (simp_all add: fresh_tpdc_def new_tpdc_def)
  then have "session_reachable \<lparr>ss_snd = s0, ss_rcv = r0\<rparr>" using s(1) r(1) by (rule session_reachable.init)
  from session_reachable.step [OF this session_step.activate] show ?thesis by (simp add: s(2) r(2))
qed

section \<open>Runs of the two nodes\<close>

definition ses_calls ::
  "(pdc_ses_request \<Rightarrow> manager \<Rightarrow> bool \<times> manager) \<Rightarrow> (pdc_ses_response \<Rightarrow> manager \<Rightarrow> bool \<times> manager) \<Rightarrow> bool" where
  "ses_calls request response \<longleftrightarrow> (\<forall>q m. manager_op\<^sup>*\<^sup>* m (snd (request q m))) \<and> (\<forall>q m. manager_op\<^sup>*\<^sup>* m (snd (response q m)))"

text \<open>
  \<open>a\<close>, \<open>b\<close>: the endpoints; \<open>i\<close>: the identifier of the context. The first node sends through any of its
  contexts, directly or for a SES request; its timers expire; a packet that either context has put on
  the wire arrives, whenever and as often as the network likes, or never; acknowledgements are sent;
  and both nodes do anything else that leaves these two contexts alone (\<open>other\<close>): other requests,
  other peers' packets, allocations, releases. The SES layer does not reset the receive side while it
  takes a packet of this context.
\<close>

inductive pair_step :: "u32 \<Rightarrow> u32 \<Rightarrow> u16 \<Rightarrow> manager \<times> manager \<Rightarrow> manager \<times> manager \<Rightarrow> bool" for a b i where
  send: "(\<And>p. po = Some p \<Longrightarrow> pk_ctrl p = None) \<Longrightarrow>
    pair_step a b i (ma, mb) (snd (send_packet_through_pdc now j po som eom ma), mb)"
| request: "process_ses_request now r ma = Some (ok, ma') \<Longrightarrow> (\<And>p. sr_packet r = Some p \<Longrightarrow> pk_ctrl p = None) \<Longrightarrow>
    pair_step a b i (ma, mb) (ma', mb)"
| timeout: "get_pdc i ma = Some (PTpdc t) \<Longrightarrow> map_of (tp_send_buffer t) seq = Some bp \<Longrightarrow> bp_timeout bp = Some now \<Longrightarrow>
    pair_step a b i (ma, mb)
      (ma\<lparr>mg_pdcs := AList.update i (PTpdc (handle_rto_timeout now seq (expire_timeout seq t))) (mg_pdcs ma)\<rparr>, mb)"
| data: "get_pdc i ma = Some (PTpdc t) \<Longrightarrow> p \<in> set (tp_out t) \<Longrightarrow> mg_device mb = Some dv \<Longrightarrow> dv_channel dv \<Longrightarrow>
    ses_calls request response \<Longrightarrow> (\<And>q m. get_receive_pdc a i (snd (request q m)) = get_receive_pdc a i m) \<Longrightarrow>
    (\<And>q m. get_receive_pdc a i (snd (response q m)) = get_receive_pdc a i m) \<Longrightarrow>
    pair_step a b i (ma, mb) (ma, snd (process_received_packet now request response (Some p) a mb))"
| ack_event: "get_receive_pdc a i mb = Some (PTpdc t) \<Longrightarrow> tp_ack_event t = Some now \<Longrightarrow>
    pair_step a b i (ma, mb) (ma, mb\<lparr>mg_receive := AList.update (a, i) (PTpdc (send_pending_acknowledgments now t)) (mg_receive mb)\<rparr>)"
| ack: "get_receive_pdc a i mb = Some (PTpdc r) \<Longrightarrow> p \<in> set (tp_out r) \<Longrightarrow> get_pdc i ma = Some (PTpdc t) \<Longrightarrow>
    unat (tp_next_send t) + 2 ^ 16 < 2 ^ 32 \<Longrightarrow> ses_calls request response \<Longrightarrow>
    pair_step a b i (ma, mb) (snd (process_received_packet now request response (Some p) b ma), mb)"
| other: "manager_step\<^sup>*\<^sup>* ma ma' \<Longrightarrow> manager_step\<^sup>*\<^sup>* mb mb' \<Longrightarrow> get_pdc i ma' = get_pdc i ma \<Longrightarrow>
    get_receive_pdc a i mb' = get_receive_pdc a i mb \<Longrightarrow> pair_step a b i (ma, mb) (ma', mb')"

text \<open>The start: the first node allocates the context, the second has none for it yet.\<close>

inductive pair_reachable :: "u32 \<Rightarrow> u32 \<Rightarrow> u16 \<Rightarrow> manager \<times> manager \<Rightarrow> bool" for a b i where
  start: "manager_reachable ma \<Longrightarrow> manager_reachable mb \<Longrightarrow> mg_device ma = Some dv \<Longrightarrow> dv_channel dv \<Longrightarrow>
    dv_fep dv = a \<Longrightarrow> allocate_pdc b tc dm ma = Some (i, ma') \<Longrightarrow> get_pdc i ma = None \<Longrightarrow> get_pdc i ma' = Some (PTpdc s) \<Longrightarrow>
    get_receive_pdc a i mb = None \<Longrightarrow> pair_reachable a b i (ma', mb)"
| step: "pair_reachable a b i st \<Longrightarrow> pair_step a b i st st' \<Longrightarrow> pair_reachable a b i st'"

section \<open>The simulation\<close>

definition linked :: "u32 \<Rightarrow> u32 \<Rightarrow> u16 \<Rightarrow> manager \<times> manager \<Rightarrow> bool" where
  "linked a b i st \<longleftrightarrow> a \<noteq> 0 \<and> (case st of (ma, mb) \<Rightarrow> manager_reachable ma \<and> manager_reachable mb \<and>
     (\<exists>s. get_pdc i ma = Some (PTpdc s) \<and> end_ok i b s \<and>
       (case get_receive_pdc a i mb of
          None \<Rightarrow> (\<forall>r. first_receiver a i r \<longrightarrow> session_reachable \<lparr>ss_snd = s, ss_rcv = r\<rparr>)
        | Some x \<Rightarrow> (\<exists>r. x = PTpdc r \<and> end_ok i a r \<and> session_reachable \<lparr>ss_snd = s, ss_rcv = r\<rparr>))))"

lemma reachable_op: "manager_reachable m \<Longrightarrow> manager_op m m' \<Longrightarrow> manager_reachable m'"
  by (rule manager_reachable.step [OF _ manager_step.op])

lemma reachable_receive:
  "manager_reachable m \<Longrightarrow> ses_calls request response \<Longrightarrow>
    manager_reachable (snd (process_received_packet now request response po src m))"
  by (rule manager_reachable.step [OF _ manager_step.receive]) (simp_all add: ses_calls_def)

lemma reachable_steps: "manager_step\<^sup>*\<^sup>* m m' \<Longrightarrow> manager_reachable m \<Longrightarrow> manager_reachable m'"
  by (induction rule: rtranclp_induct) (auto intro: manager_reachable.step)

text \<open>The sender's context takes a step of the session, whatever the receiver is.\<close>

lemma linked_sender:
  assumes l: "linked a b i (ma, mb)" and s: "get_pdc i ma = Some (PTpdc s)" and m: "manager_reachable ma'"
    and s': "get_pdc i ma' = Some (PTpdc s')" "out_grows s s'" "tpdc_identity s' = tpdc_identity s"
    and step: "\<And>r. session_reachable \<lparr>ss_snd = s, ss_rcv = r\<rparr> \<Longrightarrow> session_reachable \<lparr>ss_snd = s', ss_rcv = r\<rparr>"
  shows "linked a b i (ma', mb)"
  using l s m s'(1) step end_ok_grows [OF _ s'(2,3)]
  by (auto simp: linked_def split: option.splits)

lemma sender_step:
  assumes "session_step \<lparr>ss_snd = s, ss_rcv = r\<rparr> (\<lparr>ss_snd = s, ss_rcv = r\<rparr>\<lparr>ss_snd := s'\<rparr>)" "session_reachable \<lparr>ss_snd = s, ss_rcv = r\<rparr>"
  shows "session_reachable \<lparr>ss_snd = s', ss_rcv = r\<rparr>"
  using session_reachable.step [OF assms(2,1)] by simp

text \<open>What sending does to the context: nothing, or one \<open>SendPacket\<close>.\<close>

definition sends :: "ns \<Rightarrow> packet option \<Rightarrow> tpdc \<Rightarrow> tpdc \<Rightarrow> bool" where
  "sends now po s s' \<longleftrightarrow> s' = s \<or> (\<exists>som eom. s' = snd (tpdc_send_packet now po som eom s))"

lemma send_context:
  assumes "get_pdc i m = Some (PTpdc s)"
  shows "\<exists>s'. get_pdc i (snd (send_packet_through_pdc now j po som eom m)) = Some (PTpdc s') \<and> sends now po s s'"
proof (cases "po = None \<or> get_pdc j m = None")
  case True
  then show ?thesis using assms by (auto simp: send_packet_through_pdc_def get_pdc_def count_stat_def sends_def split: option.split)
next
  case False
  then obtain p where p: "get_pdc j m = Some p" by auto
  have "get_pdc i (snd (send_packet_through_pdc now j po som eom m)) =
      (if i = j then Some (snd (pdc_send now po som eom p)) else get_pdc i m)"
    using False p by (auto simp: send_packet_through_pdc_def get_pdc_def count_stat_def Let_def case_prod_beta update_conv')
  then show ?thesis using assms p by (cases "i = j") (auto simp: sends_def snd_map_prod)
qed

lemma allocate_keeps:
  assumes inv: "manager_inv m" and al: "allocate_pdc dest tc dm m = Some (j, m')" and i: "get_pdc i m \<noteq> None"
  shows "get_pdc i m' = get_pdc i m"
proof (cases "if is_reliable_mode dm then map_of (mg_sessions m) (dest, tc, dm) else None")
  case (Some k)
  then have "map_of (mg_sessions m) (dest, tc, dm) = Some k" by (simp split: if_splits)
  then obtain p where "get_pdc k m = Some p" by (rule session_lookup [OF inv])
  then show ?thesis using al Some by (simp add: allocate_pdc_def)
next
  case None
  then have an: "allocate_new dest tc dm m = Some (j, m')" using al by (simp add: allocate_pdc_def)
  show ?thesis
  proof (cases "mg_device m")
    case None
    then show ?thesis using an
      by (cases "take_id m") (auto simp: allocate_new_def take_id_def count_stat_def get_pdc_def Let_def split: if_splits list.splits)
  next
    case (Some dv)
    show ?thesis
      by (rule allocate_new_cases [OF inv Some, of dest tc dm])
        (use an i in \<open>auto simp: get_pdc_def update_conv' count_stat_def\<close>)
  qed
qed

lemma dispatch_context:
  assumes inv: "manager_inv m" and d: "dispatch_packet now r m = Some (ok, m')" and i: "get_pdc i m = Some (PTpdc s)"
  shows "\<exists>s'. get_pdc i m' = Some (PTpdc s') \<and> sends now (sr_packet r) s s'"
proof -
  let ?m0 = "inform [NotifyPause True] m"
  obtain j m1 where al: "allocate_pdc (sr_dst r) (sr_tc r) (sr_mode r) ?m0 = Some (j, m1)"
    using d by (auto simp: dispatch_packet_def split: option.splits)
  have i1: "get_pdc i m1 = Some (PTpdc s)" using allocate_keeps [OF inv_frame(2) [OF inv] al] i by simp
  obtain s' where "get_pdc i (snd (send_packet_through_pdc now j (sr_packet r) (sr_som r) (sr_eom r) m1)) = Some (PTpdc s')"
    "sends now (sr_packet r) s s'" using send_context [OF i1] by blast
  moreover have "get_pdc i m' = (if j = NO_PDC then get_pdc i m1
      else get_pdc i (snd (send_packet_through_pdc now j (sr_packet r) (sr_som r) (sr_eom r) m1)))"
    using d al by (auto simp: dispatch_packet_def case_prod_beta Let_def split: if_splits)
  moreover have "sends now (sr_packet r) s s" by (simp add: sends_def)
  ultimately show ?thesis using i1 by auto
qed

lemma request_context:
  assumes inv: "manager_inv m" and d: "process_ses_request now r m = Some (ok, m')" and i: "get_pdc i m = Some (PTpdc s)"
  shows "\<exists>s'. get_pdc i m' = Some (PTpdc s') \<and> sends now (sr_packet r) s s'"
proof -
  let ?m1 = "inform [NotifyPause True] (m\<lparr>mg_state := PDS_BUSY\<rparr>)"
  have inv1: "manager_inv ?m1" using inv by (simp add: inv_frame)
  have i1: "get_pdc i ?m1 = Some (PTpdc s)" using i by (simp add: get_pdc_def inform_def)
  have same: "?thesis" if "get_pdc i m' = get_pdc i m" using that i by (auto simp: sends_def)
  show ?thesis
  proof (cases "mg_state m = PDS_IDLE \<and> validate_ses_request r \<and> mg_device ?m1 \<noteq> None")
    case False
    then have "get_pdc i m' = get_pdc i m" using d
      by (cases "mg_state m") (auto simp: process_ses_request_def Let_def get_pdc_def inform_def count_stat_def split: if_splits)
    then show ?thesis by (rule same)
  next
    case True
    then obtain ok' m2 where 2: "dispatch_packet now r ?m1 = Some (ok', m2)" and m': "get_pdc i m' = get_pdc i m2"
      using d by (auto simp: process_ses_request_def Let_def get_pdc_def inform_def split: option.splits if_splits)
    then show ?thesis using dispatch_context [OF inv1 2 i1] by simp
  qed
qed

lemma linked_sends:
  assumes l: "linked a b i (ma, mb)" and s: "get_pdc i ma = Some (PTpdc s)" and m: "manager_reachable ma'"
    and s': "get_pdc i ma' = Some (PTpdc s')" "sends now po s s'" and po: "\<And>p. po = Some p \<Longrightarrow> pk_ctrl p = None"
  shows "linked a b i (ma', mb)"
proof (rule linked_sender [OF l s m s'(1)])
  show "out_grows s s'" "tpdc_identity s' = tpdc_identity s"
    using s'(2) out_send tpdc_identity_send by (auto simp: sends_def)
  show "session_reachable \<lparr>ss_snd = s', ss_rcv = r\<rparr>" if r: "session_reachable \<lparr>ss_snd = s, ss_rcv = r\<rparr>" for r
  proof -
    have "session_reachable \<lparr>ss_snd = snd (tpdc_send_packet now po som eom s), ss_rcv = r\<rparr>" for som eom
      using session_reachable.step [OF r session_step.send [of po, OF po]] by simp
    then show ?thesis using s'(2) r by (auto simp: sends_def)
  qed
qed

text \<open>A packet of this context arrives at the second node, or an acknowledgement at the first.\<close>

lemma data_context:
  assumes dev: "mg_device m = Some dv" and p: "stamped i p" "pk_ctrl p = None"
    and quiet: "\<And>q m. get_receive_pdc a i (snd (request q m)) = get_receive_pdc a i m"
      "\<And>q m. get_receive_pdc a i (snd (response q m)) = get_receive_pdc a i m"
  shows "get_receive_pdc a i (snd (process_received_packet now request response (Some p) a m)) =
    map_option (\<lambda>x. snd (pdc_receive now (Some p) x)) (get_receive_pdc a i (snd (ensure_receive_pdc dv i a True m)))"
proof -
  obtain h where h: "peek_header p = Some h" "ph_pdc_id h = i" "ph_reliable h" using p(1) by (auto simp: stamped_def)
  then have size: "\<not> pk_size p < pds_header_size" using peek_header_short [of p] by auto
  define m1 where "m1 = snd (ensure_receive_pdc dv (ph_pdc_id h) a (ph_reliable h) m)"
  define m2 where "m2 = (case route_packet False a i m1 of None \<Rightarrow> m1
     | Some (out, x) \<Rightarrow> put_routed out a i (snd (pdc_receive now (Some p) x)) m1)"
  define m3 where "m3 = snd (pass_to_ses request response h (remove_header p) (count_reception now (remove_header p) m2))"
  have 2: "get_receive_pdc a i m2 = map_option (\<lambda>x. snd (pdc_receive now (Some p) x)) (get_receive_pdc a i m1)"
    by (auto simp: m2_def route_packet_def put_routed_def get_receive_pdc_def update_conv' split: option.split)
  have "get_receive_pdc a i m3 = get_receive_pdc a i m2"
    using quiet by (auto simp: m3_def pass_to_ses_def count_reception_def count_stat_def get_receive_pdc_def split: option.split)
  moreover have "get_receive_pdc a i (snd (process_received_packet now request response (Some p) a m)) = get_receive_pdc a i m3"
    using dev p(2) size h(1) unfolding m3_def m2_def m1_def h(2) [symmetric]
    by (simp add: process_received_packet_def Let_def case_prod_beta get_receive_pdc_def)
  ultimately show ?thesis by (simp add: 2 m1_def h(2,3))
qed

lemma ack_context:
  assumes p: "stamped i p" "pk_ctrl p = Some c" and i: "get_pdc i m = Some (PTpdc s)"
  shows "get_pdc i (snd (process_received_packet now request response (Some p) b m)) =
    Some (PTpdc (if mg_device m = None then s else snd (tpdc_handle_received now (Some p) s)))"
proof (cases "mg_device m")
  case None
  then show ?thesis using i by (simp add: process_received_packet_def get_pdc_def count_stat_def)
next
  case (Some dv)
  obtain h where h: "peek_header p = Some h" "ph_pdc_id h = i" "ph_reliable h" using p(1) by (auto simp: stamped_def)
  then have size: "\<not> pk_size p < pds_header_size" using peek_header_short [of p] by auto
  define m1 where "m1 = snd (ensure_receive_pdc dv i b True m)"
  have "get_pdc i m1 = Some (PTpdc s)"
    using i by (simp add: m1_def ensure_receive_pdc_def get_pdc_def count_stat_def split: option.split)
  then have "route_packet True b i m1 = Some (True, PTpdc s)" by (simp add: route_packet_def)
  then show ?thesis using Some p(2) size h
    by (simp add: process_received_packet_def Let_def case_prod_beta m1_def put_routed_def get_pdc_def update_conv' snd_map_prod)
qed

lemma linked_data:
  assumes l: "linked a b i (ma, mb)" and s: "get_pdc i ma = Some (PTpdc s)" "p \<in> set (tp_out s)"
    and dev: "mg_device mb = Some dv" "dv_channel dv" and ses: "ses_calls request response"
    and quiet: "\<And>q m. get_receive_pdc a i (snd (request q m)) = get_receive_pdc a i m"
      "\<And>q m. get_receive_pdc a i (snd (response q m)) = get_receive_pdc a i m"
  shows "linked a b i (ma, snd (process_received_packet now request response (Some p) a mb))"
proof -
  let ?m' = "snd (process_received_packet now request response (Some p) a mb)"
  let ?x = "get_receive_pdc a i (snd (ensure_receive_pdc dv i a True mb))"
  have reach: "manager_reachable ma" "manager_reachable ?m'" and ok: "end_ok i b s"
    using l s(1) reachable_receive [OF _ ses] by (auto simp: linked_def)
  have st: "stamped i p" using ok s(2) by (simp add: end_ok_def)
  have "?x = None \<and> get_receive_pdc a i mb = None \<or>
      (\<exists>r. ?x = Some (PTpdc r) \<and> end_ok i a r \<and> session_reachable \<lparr>ss_snd = s, ss_rcv = r\<rparr>)"
  proof (cases "get_receive_pdc a i mb")
    case None
    have "?x = None \<or> ?x = create_passive dv i a True mb"
      using None by (auto simp: ensure_receive_pdc_def get_receive_pdc_def count_stat_def update_conv' split: option.split)
    moreover have "\<exists>r. create_passive dv i a True mb = Some (PTpdc r)" if "create_passive dv i a True mb \<noteq> None"
      using that by (auto simp: create_passive_def)
    ultimately show ?thesis using None l s(1) dev(2) first_receiver_end
      by (fastforce simp: linked_def first_receiver_def)
  next
    case (Some y)
    then show ?thesis using l s(1) by (auto simp: linked_def ensure_receive_pdc_def)
  qed
  note case_x = this
  have c: "pk_ctrl p = None" if "session_reachable \<lparr>ss_snd = s, ss_rcv = r\<rparr>" for r
  proof -
    have "sender_inv (received r) s" using session_inv_reachable [OF that] by (simp add: session_inv_def)
    then show ?thesis using sender_inv_data [OF _ s(2)] by metis
  qed
  from case_x show ?thesis
  proof
    assume n: "?x = None \<and> get_receive_pdc a i mb = None"
    obtain r where "first_receiver a i r" using l first_receiver_exists by (auto simp: linked_def)
    then have "pk_ctrl p = None" using c [of r] l s(1) n by (auto simp: linked_def)
    then have "get_receive_pdc a i ?m' = None" using data_context [OF dev(1) st _ quiet] n by simp
    then show ?thesis using l s(1) n reach by (simp add: linked_def)
  next
    assume "\<exists>r. ?x = Some (PTpdc r) \<and> end_ok i a r \<and> session_reachable \<lparr>ss_snd = s, ss_rcv = r\<rparr>"
    then obtain r where r: "?x = Some (PTpdc r)" "end_ok i a r" "session_reachable \<lparr>ss_snd = s, ss_rcv = r\<rparr>" by blast
    let ?r = "snd (tpdc_handle_received now (Some p) r)"
    have "get_receive_pdc a i ?m' = Some (PTpdc ?r)"
      using data_context [OF dev(1) st c [OF r(3)] quiet] r(1) by (simp add: snd_map_prod)
    moreover have "session_reachable \<lparr>ss_snd = s, ss_rcv = ?r\<rparr>"
      using session_reachable.step [OF r(3) session_step.data] s(2) by simp
    moreover have "end_ok i a ?r" using r(2) out_receive tpdc_identity_receive by (rule end_ok_grows)
    moreover have "a \<noteq> 0" using l by (simp add: linked_def)
    ultimately show ?thesis using s(1) reach ok by (simp add: linked_def)
  qed
qed

lemma linked_step:
  assumes "pair_step a b i st st'" and l: "linked a b i st"
  shows "linked a b i st'"
  using assms
proof (induction rule: pair_step.induct)
  case (send po ma mb now j som eom)
  then obtain s where s: "manager_reachable ma" "get_pdc i ma = Some (PTpdc s)" by (auto simp: linked_def)
  obtain s' where "get_pdc i (snd (send_packet_through_pdc now j po som eom ma)) = Some (PTpdc s')" "sends now po s s'"
    using send_context [OF s(2)] by blast
  then show ?case using linked_sends [OF send(2) s(2) reachable_op [OF s(1) manager_op.send]] send(1) by blast
next
  case (request now r ma ok ma' mb)
  then obtain s where s: "manager_reachable ma" "get_pdc i ma = Some (PTpdc s)" by (auto simp: linked_def)
  obtain s' where "get_pdc i ma' = Some (PTpdc s')" "sends now (sr_packet r) s s'"
    using request_context [OF inv_reachable [OF s(1)] request(1) s(2)] by blast
  then show ?case using linked_sends [OF request(3) s(2) reachable_op [OF s(1) manager_op.request [OF request(1)]]] request(2) by blast
next
  case (timeout ma t seq bp now mb)
  let ?t = "handle_rto_timeout now seq (expire_timeout seq t)"
  have m: "manager_reachable (ma\<lparr>mg_pdcs := AList.update i (PTpdc ?t) (mg_pdcs ma)\<rparr>)"
    using timeout(1,4) by (intro reachable_op [OF _ manager_op.event [OF _ pdc_event.rto]]) (auto simp: linked_def)
  show ?case
  proof (rule linked_sender [OF timeout(4,1) m])
    show "out_grows t ?t" by (rule out_grows_from [OF out_timeout]) (simp_all add: tpdc_identity_expire)
    show "tpdc_identity ?t = tpdc_identity t" by (simp add: tpdc_identity_timeout tpdc_identity_expire)
    show "session_reachable \<lparr>ss_snd = ?t, ss_rcv = r\<rparr>" if r: "session_reachable \<lparr>ss_snd = t, ss_rcv = r\<rparr>" for r
      using session_reachable.step [OF r session_step.timeout] timeout(2,3) by simp
  qed simp
next
  case (data ma t p mb dv request response now)
  then show ?case by (intro linked_data)
next
  case (ack_event mb t now ma)
  let ?t = "send_pending_acknowledgments now t"
  obtain s where s: "manager_reachable ma" "manager_reachable mb" "a \<noteq> 0" "get_pdc i ma = Some (PTpdc s)" "end_ok i b s" "end_ok i a t"
    "session_reachable \<lparr>ss_snd = s, ss_rcv = t\<rparr>" using ack_event by (auto simp: linked_def)
  have "manager_reachable (mb\<lparr>mg_receive := AList.update (a, i) (PTpdc ?t) (mg_receive mb)\<rparr>)"
    using ack_event(1) s(2) by (intro reachable_op [OF _ manager_op.receive_event [OF _ pdc_event.ack]])
  moreover have "end_ok i a ?t" using s(6) out_ack_event tpdc_identity_pending by (rule end_ok_grows)
  moreover have "session_reachable \<lparr>ss_snd = s, ss_rcv = ?t\<rparr>"
    using session_reachable.step [OF s(7) session_step.ack_event] ack_event(2) by simp
  ultimately show ?case using s by (simp add: linked_def)
next
  case (ack mb r p ma t request response now)
  have ok: "manager_reachable ma" "end_ok i a r" "session_reachable \<lparr>ss_snd = t, ss_rcv = r\<rparr>"
    using ack by (auto simp: linked_def)
  let ?m' = "snd (process_received_packet now request response (Some p) b ma)"
  have "receiver_inv (unat (tp_next_send t)) r" using session_inv_reachable [OF ok(3)] by (simp add: session_inv_def)
  then obtain c where c: "pk_ctrl p = Some c" using ack(2) by (auto simp: receiver_inv_def claim_ok_def)
  have st: "stamped i p" using ok(2) ack(2) by (simp add: end_ok_def)
  have m: "manager_reachable ?m'" by (rule reachable_receive [OF ok(1) ack(5)])
  let ?t = "if mg_device ma = None then t else snd (tpdc_handle_received now (Some p) t)"
  have i: "get_pdc i ?m' = Some (PTpdc ?t)" by (rule ack_context [OF st c ack(3)])
  have "session_reachable \<lparr>ss_snd = ?t, ss_rcv = r\<rparr>"
    using session_reachable.step [OF ok(3) session_step.ack] ack(2,4) ok(3) by simp
  moreover have "end_ok i b ?t" if "end_ok i b t"
    using end_ok_grows [OF that out_receive tpdc_identity_receive] that by simp
  ultimately show ?case using ack(1,3,6) m i by (auto simp: linked_def)
next
  case (other ma ma' mb mb')
  then show ?case using reachable_steps by (auto simp: linked_def)
qed

lemma linked_reachable: "pair_reachable a b i st \<Longrightarrow> linked a b i st"
proof (induction rule: pair_reachable.induct)
  case (start ma mb dv tc dm ma' s)
  have inv: "manager_inv ma" by (rule inv_reachable [OF start(1)])
  have an: "allocate_new b tc dm ma = Some (i, ma')"
  proof (cases "if is_reliable_mode dm then map_of (mg_sessions ma) (b, tc, dm) else None")
    case (Some j)
    then have "map_of (mg_sessions ma) (b, tc, dm) = Some j" by (simp split: if_splits)
    then obtain p where "get_pdc j ma = Some p" by (rule session_lookup [OF inv])
    then show ?thesis using Some start(6,7) by (simp add: allocate_pdc_def)
  qed (use start(6) in \<open>simp add: allocate_pdc_def\<close>)
  have co: "create_outgoing dv i b tc dm ma = Some (PTpdc s)"
    by (rule allocate_new_cases [OF inv start(3), of b tc dm])
      (use an start(7,8) in \<open>auto simp: get_pdc_def update_conv' count_stat_def split: if_splits\<close>)
  then obtain ca where ca: "create_tpdc ca dv = Some s" by (auto simp: create_outgoing_def split: if_splits)
  have "dv_fep dv \<noteq> 0" using co create_outgoing_none [of dv i b tc dm ma] by auto
  moreover have "end_ok i b s" using create_outgoing_some(1) [OF co] created_end(1) [OF ca] by (simp add: end_ok_def)
  moreover have "session_reachable \<lparr>ss_snd = s, ss_rcv = r\<rparr>" if f: "first_receiver a i r" for r
  proof -
    obtain dvb m where "dv_channel dvb" "create_passive dvb i a True m = Some (PTpdc r)" using f by (auto simp: first_receiver_def)
    then show ?thesis using new_session [OF ca start(4)] by (auto simp: create_passive_def)
  qed
  moreover have "manager_reachable ma'" by (rule reachable_op [OF start(1) manager_op.allocate [OF start(6)]])
  ultimately show ?case using start(2,5,8,9) by (simp add: linked_def)
qed (rule linked_step)


section \<open>Two concrete nodes\<close>

text \<open>Node 7 has sent its first packet to node 9, and the packet has arrived.\<close>

definition demo_peer :: manager where
  "demo_peer = set_net_device (Some (demo_device\<lparr>dv_fep := 9\<rparr>)) (new_manager default_limits demo_rx demo_plane)"

definition demo_opening :: tpdc where
  "demo_opening = the (create_tpdc (reliable_config demo_manager demo_device 0 9 0 0 6) demo_device)"

definition demo_second :: tpdc where
  "demo_second = snd (tpdc_send_packet 5 (Some demo_data) True True demo_opening)"

definition demo_sender :: manager where
  "demo_sender = snd (send_packet_through_pdc 5 0 (Some demo_data) True True demo_allocated)"

definition no_ses :: "'q \<Rightarrow> manager \<Rightarrow> bool \<times> manager" where
  "no_ses q m = (False, m)"

definition demo_receiver :: manager where
  "demo_receiver = snd (process_received_packet 6 no_ses no_ses (Some (hd (tp_out demo_second))) 7 demo_peer)"

lemma demo_first_allocated: "get_pdc 0 demo_allocated = Some (PTpdc demo_opening)"
proof -
  let ?m = "demo_manager\<lparr>mg_next := 1, mg_used := (\<lambda>_. False)(0 := True)\<rparr>"
  have "create_outgoing demo_device 0 9 0 0 ?m \<noteq> None" by (simp add: create_outgoing_none demo_manager_device)
  moreover have "reliable_config ?m demo_device 0 9 0 0 6 = reliable_config demo_manager demo_device 0 9 0 0 6"
    by (simp add: reliable_config_def)
  ultimately have t: "create_outgoing demo_device 0 9 0 0 ?m = Some (PTpdc demo_opening)"
    by (auto simp: create_outgoing_def is_reliable_mode_def demo_opening_def)
  then have "allocate_pdc 9 0 0 demo_manager = Some (0, install_pdc 0 (PTpdc demo_opening) 9 0 0 ?m)"
    by (simp add: allocate_pdc_def is_reliable_mode_def demo_manager_tables demo_manager_device allocate_new_def take_id_def
        next_free_id_here Let_def)
  then show ?thesis by (simp add: demo_allocated_def install_pdc_def get_pdc_def count_stat_def update_conv')
qed

lemma demo_second_sent: "get_pdc 0 demo_sender = Some (PTpdc demo_second)"
  using demo_first_allocated
  by (simp add: demo_sender_def send_packet_through_pdc_def get_pdc_def count_stat_def case_prod_beta Let_def update_conv' snd_map_prod demo_second_def)

lemma demo_sent_once: "map pk_ctrl (tp_out demo_second) = [None]"
  by code_simp

lemma demo_facts: "tp_out demo_second \<noteq> []" "pk_ctrl (hd (tp_out demo_second)) = None" "get_receive_pdc 7 0 demo_peer = None"
  "mg_device demo_peer = Some (demo_device\<lparr>dv_fep := 9\<rparr>)" "dv_channel (demo_device\<lparr>dv_fep := 9\<rparr>)" "dv_channel demo_device"
  "pk_ctrl demo_data = None"
  using demo_sent_once
  by (cases "tp_out demo_second"; simp add: demo_peer_def get_receive_pdc_def set_net_device_def new_manager_def demo_device_def
      demo_data_def empty_packet_def)+

lemma demo_peer_reachable: "manager_reachable demo_peer"
  unfolding demo_peer_def
  by (rule manager_reachable.step [OF manager_reachable.init]) (rule manager_step.op [OF manager_op.device])

lemma demo_sent: "pair_reachable 7 9 0 (demo_sender, demo_peer)"
proof -
  obtain t where al: "allocate_pdc 9 0 0 demo_manager = Some (0, demo_allocated)" "get_pdc 0 demo_manager = None"
    by (rule demo_allocates)
  have "pair_reachable 7 9 0 (demo_allocated, demo_peer)"
    by (rule pair_reachable.start [OF demo_manager_reachable demo_peer_reachable demo_manager_device(1) demo_facts(6)
          demo_manager_device(2) al demo_first_allocated demo_facts(3)])
  then show ?thesis
    unfolding demo_sender_def by (rule pair_reachable.step [OF _ pair_step.send]) (simp add: demo_facts(7))
qed

lemma demo_pair: "pair_reachable 7 9 0 (demo_sender, demo_receiver)"
  unfolding demo_receiver_def
  by (rule pair_reachable.step [OF demo_sent pair_step.data [OF demo_second_sent _ demo_facts(4,5)]])
    (simp_all add: demo_facts(1) ses_calls_def no_ses_def)

lemma demo_created: "get_receive_pdc 7 0 demo_receiver \<noteq> None"
proof -
  let ?dv = "demo_device\<lparr>dv_fep := 9\<rparr>" and ?p = "hd (tp_out demo_second)"
  have peer: "mg_pdcs demo_peer = []" "mg_receive demo_peer = []" "mg_max demo_peer = 1024"
    by (simp_all add: demo_peer_def set_net_device_def new_manager_def)
  have "create_passive ?dv 0 7 True demo_peer \<noteq> None"
    by (simp add: create_passive_def create_tpdc_def tpdc_initialize_def pdc_base_initialize_def reliable_config_def
        context_config_def default_tpdc_config_def Let_def)
  then have e: "get_receive_pdc 7 0 (snd (ensure_receive_pdc ?dv 0 7 True demo_peer)) \<noteq> None"
    using peer by (auto simp: ensure_receive_pdc_def get_receive_pdc_def count_stat_def)
  have "stamped 0 ?p" using linked_reachable [OF demo_sent] demo_second_sent demo_facts(1) by (auto simp: linked_def end_ok_def)
  then show ?thesis
    using e demo_facts(2) data_context [OF demo_facts(4), of 0 ?p 7 no_ses no_ses 6] by (simp add: demo_receiver_def no_ses_def)
qed


end
