(* ===== verification/FabricChannel.thy ===== *)
theory FabricChannel
  imports TagCodec
begin

text \<open>
  \<open>SoftUeChannel\<close> (\<open>model/network/soft-ue-channel.cc\<close>): the fabric that connects the devices, with
  its serialised paths, the choice of a path per flow, and its faults (planned and random drops, one held
  packet). \<open>None\<close> is an access to a path that does not exist. The outcomes of the random draws are
  arguments, and so is the floating-point quotient of bits and bits per second, as a time.
\<close>

unbundle bit_operations_syntax

section \<open>State\<close>

text \<open>A packet with the tag that only the channel writes.\<close>

record fabric_frame =
  fr_packet :: packet
  fr_timing :: "channel_timing_tag option"

text \<open>A device of the channel; the endpoint of its configuration, if it is a \<open>SoftUeNetDevice\<close>.\<close>

record attached =
  at_id :: nat
  at_fep :: "u32 option"

record held_transmission =
  he_frame :: fabric_frame
  he_dest :: attached
  he_src :: u32
  he_dst :: u32
  he_delay :: ns

record path_state =
  pt_next :: ns
  pt_bytes :: u64
  pt_packets :: u64
  pt_depth_max :: u32
  pt_depth_total :: u64
  pt_depth_count :: u64
  pt_marks :: u64
  pt_finish :: "ns list"
  pt_flows :: "u64 set"

definition blank_path :: path_state where
  "blank_path = \<lparr>pt_next = 0, pt_bytes = 0, pt_packets = 0, pt_depth_max = 0, pt_depth_total = 0, pt_depth_count = 0,
     pt_marks = 0, pt_finish = [], pt_flows = {}\<rparr>"

text \<open>A scheduled call of \<open>ReceivePacket\<close>.\<close>

record delivery =
  dl_at :: ns
  dl_frame :: fabric_frame
  dl_dest :: attached
  dl_src :: u32
  dl_dst :: u32

text \<open>\<open>ch_flush\<close>: the automatic flush, its time and its argument. \<open>ch_seconds\<close>: see above.\<close>

record channel =
  ch_devices :: "attached list"
  ch_seconds :: "u32 \<Rightarrow> u64 \<Rightarrow> ns"
  ch_rate :: u64
  ch_path_rate :: u64
  ch_delay :: ns
  ch_path_delay :: ns
  ch_extra :: ns
  ch_hold_delay :: ns
  ch_held :: "held_transmission option"
  ch_drop_requests :: u32
  ch_drop_responses :: u32
  ch_hold_response :: bool
  ch_flush :: "(ns \<times> ns) option"
  ch_serialize :: bool
  ch_next :: ns
  ch_path_count :: u32
  ch_ecmp :: bool
  ch_dynamic :: bool
  ch_ecn :: bool
  ch_paths :: "path_state list"
  ch_assigned :: "(u64 \<times> u32) list"
  ch_hotspots :: "(u32 \<times> u64) list"
  ch_assign_total :: u32
  ch_reuse_total :: u32
  ch_assign_peak :: u32
  ch_score_total :: u64
  ch_score_count :: u64
  ch_score_min :: u64
  ch_score_max :: u64
  ch_pending :: "delivery list"

definition new_channel :: "(u32 \<Rightarrow> u64 \<Rightarrow> ns) \<Rightarrow> channel" where
  "new_channel seconds = \<lparr>ch_devices = [], ch_seconds = seconds, ch_rate = 1000000000, ch_path_rate = 1000000000,
     ch_delay = 100, ch_path_delay = 100, ch_extra = 0, ch_hold_delay = 0, ch_held = None, ch_drop_requests = 0,
     ch_drop_responses = 0, ch_hold_response = False, ch_flush = None, ch_serialize = False, ch_next = 0,
     ch_path_count = 1, ch_ecmp = False, ch_dynamic = False, ch_ecn = False, ch_paths = [], ch_assigned = [],
     ch_hotspots = [], ch_assign_total = 0, ch_reuse_total = 0, ch_assign_peak = 0, ch_score_total = 0,
     ch_score_count = 0, ch_score_min = 0, ch_score_max = 0, ch_pending = []\<rparr>"

section \<open>Devices and the fault plan\<close>

definition attach :: "attached \<Rightarrow> channel \<Rightarrow> channel" where
  "attach d c =
    (if at_id d \<in> at_id ` set (ch_devices c) then c
     else if 1000 \<le> length (ch_devices c) then c
     else c\<lparr>ch_devices := ch_devices c @ [d]\<rparr>)"

definition connect :: "attached list \<Rightarrow> channel \<Rightarrow> channel" where
  "connect ds c = fold attach ds c"

definition drop_next_requests :: "u32 \<Rightarrow> channel \<Rightarrow> channel" where
  "drop_next_requests n c = c\<lparr>ch_drop_requests := ch_drop_requests c + n\<rparr>"

definition drop_next_responses :: "u32 \<Rightarrow> channel \<Rightarrow> channel" where
  "drop_next_responses n c = c\<lparr>ch_drop_responses := ch_drop_responses c + n\<rparr>"

definition hold_next_response :: "channel \<Rightarrow> channel" where
  "hold_next_response c = c\<lparr>ch_hold_response := True\<rparr>"

definition clear_fault_plan :: "channel \<Rightarrow> channel" where
  "clear_fault_plan c = c\<lparr>ch_drop_requests := 0, ch_drop_responses := 0, ch_hold_response := False\<rparr>"

definition is_response_packet :: "packet \<Rightarrow> bool" where
  "is_response_packet p = (case pk_meta p of None \<Rightarrow> False | Some m \<Rightarrow> is_response m)"

definition is_gap_nack :: "packet \<Rightarrow> bool" where
  "is_gap_nack p = (case pk_ctrl p of None \<Rightarrow> False | Some t \<Rightarrow> ct_flags t AND CTRL_GAP_NACK \<noteq> 0)"

text \<open>\<open>GetDestinationFepForDevice\<close>, for the device at a position.\<close>

definition device_fep :: "nat \<Rightarrow> attached \<Rightarrow> u32" where
  "device_fep i d = (case at_fep d of Some fep \<Rightarrow> fep | None \<Rightarrow> of_nat i + 1)"

section \<open>Times and paths\<close>

definition transmission_time :: "fabric_frame \<Rightarrow> u64 \<Rightarrow> channel \<Rightarrow> ns" where
  "transmission_time f rate c =
    (let bits = of_nat (pk_size (fr_packet f)) * 8 :: u32 in if 0 < rate then ch_seconds c bits rate else 0)"

definition schedule_delay :: "ns \<Rightarrow> fabric_frame \<Rightarrow> channel \<Rightarrow> ns \<times> channel" where
  "schedule_delay now f c =
    (let tx = transmission_time f (ch_rate c) c
     in if \<not> ch_serialize c then (ch_delay c + ch_extra c + tx, c)
        else let finish = max now (ch_next c) + tx
          in (finish - now + ch_delay c + ch_extra c, c\<lparr>ch_next := finish\<rparr>))"

definition mix_flow_key :: "u64 \<Rightarrow> u64" where
  "mix_flow_key v0 =
    (let v1 = v0 + 0x9e3779b97f4a7c15;
         v2 = (v1 XOR drop_bit 30 v1) * 0xbf58476d1ce4e5b9;
         v3 = (v2 XOR drop_bit 27 v2) * 0x94d049bb133111eb
     in v3 XOR drop_bit 31 v3)"

definition build_flow_key :: "packet \<Rightarrow> u32 \<Rightarrow> u32 \<Rightarrow> u64" where
  "build_flow_key p src dst =
    (let op = (case pk_meta p of None \<Rightarrow> 0 | Some m \<Rightarrow> ucast (op_type_to_u8 (mt_op m))) :: u64
     in push_bit 32 (ucast src) XOR ucast dst XOR push_bit 56 op)"

definition ensure_paths :: "channel \<Rightarrow> channel" where
  "ensure_paths c =
    (let n = unat (max 1 (ch_path_count c))
     in c\<lparr>ch_paths := take n (ch_paths c) @ replicate (n - length (ch_paths c)) blank_path\<rparr>)"

definition refresh_path :: "ns \<Rightarrow> path_state \<Rightarrow> path_state" where
  "refresh_path now p = p\<lparr>pt_finish := dropWhile (\<lambda>t. t \<le> now) (pt_finish p)\<rparr>"

definition path_score :: "ns \<Rightarrow> ns \<Rightarrow> path_state \<Rightarrow> u64" where
  "path_score now tx p =
    (let backlog = (if now < pt_next p then pt_next p - now else 0)
     in of_int (max 0 backlog) + ucast (of_nat (length (pt_finish p)) :: u32) * of_int (max 0 tx))"

text \<open>The loop of \<open>SelectAdaptivePathIndex\<close>: the lowest score so far and the paths that have it.\<close>

fun scan_scores :: "u32 \<Rightarrow> u64 list \<Rightarrow> (u64 \<times> u32 list) option \<Rightarrow> (u64 \<times> u32 list) option" where
  "scan_scores i [] best = best"
| "scan_scores i (x # xs) best = scan_scores (i + 1) xs (case best of
       None \<Rightarrow> Some (x, [i])
     | Some (y, is) \<Rightarrow> if x < y then Some (x, [i]) else if x = y then Some (y, is @ [i]) else Some (y, is))"

definition note_score :: "u64 \<Rightarrow> channel \<Rightarrow> channel" where
  "note_score x c = c\<lparr>ch_score_total := ch_score_total c + x, ch_score_count := ch_score_count c + 1,
     ch_score_min := (if ch_score_count c + 1 = 1 then x else min (ch_score_min c) x),
     ch_score_max := (if ch_score_count c + 1 = 1 then x else max (ch_score_max c) x)\<rparr>"

definition select_adaptive :: "ns \<Rightarrow> fabric_frame \<Rightarrow> u32 \<Rightarrow> u32 \<Rightarrow> channel \<Rightarrow> u32 \<times> channel" where
  "select_adaptive now f src dst c0 =
    (if ch_path_count c0 \<le> 1 then (0, c0)
     else let c = ensure_paths c0; key = build_flow_key (fr_packet f) src dst
       in case map_of (ch_assigned c) key of
            Some i \<Rightarrow> (i, c\<lparr>ch_reuse_total := ch_reuse_total c + 1\<rparr>)
          | None \<Rightarrow>
              let tx = transmission_time f (ch_path_rate c) c;
                  ps = map (refresh_path now) (ch_paths c);
                  (best, is) = (case scan_scores 0 (map (path_score now tx) ps) None of None \<Rightarrow> (0, []) | Some b \<Rightarrow> b);
                  i = (if is = [] then 0 else if length is = 1 \<or> \<not> ch_ecmp c then hd is
                       else is ! unat (mix_flow_key key mod of_nat (length is)));
                  as = AList.update key i (ch_assigned c)
              in (i, note_score best (c\<lparr>ch_paths := ps, ch_assigned := as, ch_assign_total := ch_assign_total c + 1,
                    ch_assign_peak := max (ch_assign_peak c) (of_nat (length as))\<rparr>)))"

definition select_path :: "ns \<Rightarrow> fabric_frame \<Rightarrow> u32 \<Rightarrow> u32 \<Rightarrow> channel \<Rightarrow> u32 \<times> channel" where
  "select_path now f src dst c =
    (if ch_dynamic c then select_adaptive now f src dst c
     else if ch_path_count c \<le> 1 \<or> \<not> ch_ecmp c then (0, c)
     else (ucast (mix_flow_key (build_flow_key (fr_packet f) src dst) mod ucast (ch_path_count c)), c))"

text \<open>What sending a packet of \<open>n\<close> bytes at \<open>finish\<close> does to its path.\<close>

definition use_path :: "ns \<Rightarrow> ns \<Rightarrow> u64 \<Rightarrow> u64 \<Rightarrow> bool \<Rightarrow> path_state \<Rightarrow> path_state" where
  "use_path now finish n key ecn p0 =
    (let p = refresh_path now p0; depth = of_nat (length (pt_finish p)) :: u32
     in p\<lparr>pt_depth_max := max (pt_depth_max p) depth, pt_depth_total := pt_depth_total p + ucast depth,
          pt_depth_count := pt_depth_count p + 1,
          pt_marks := (if ecn \<and> 8 \<le> depth then pt_marks p + 1 else pt_marks p),
          pt_next := finish, pt_finish := pt_finish p @ [finish], pt_bytes := pt_bytes p + n,
          pt_packets := pt_packets p + 1, pt_flows := insert key (pt_flows p)\<rparr>)"

definition reserve_path :: "ns \<Rightarrow> fabric_frame \<Rightarrow> u32 \<Rightarrow> u32 \<Rightarrow> channel \<Rightarrow> (ns \<times> channel) option" where
  "reserve_path now f src dst c0 =
    (let (i, c) = select_path now f src dst (ensure_paths c0); n = of_nat (pk_size (fr_packet f))
     in if length (ch_paths c) \<le> unat i then None
        else let p = ch_paths c ! unat i;
                 finish = max now (pt_next p) + transmission_time f (ch_path_rate c) c;
                 p' = use_path now finish n (build_flow_key (fr_packet f) src dst) (ch_ecn c) p;
                 old = (case map_of (ch_hotspots c) dst of None \<Rightarrow> 0 | Some b \<Rightarrow> b)
          in Some (finish - now + ch_path_delay c + ch_extra c,
               c\<lparr>ch_paths := (ch_paths c)[unat i := p'],
                 ch_hotspots := (if dst \<noteq> 0 then AList.update dst (old + n) (ch_hotspots c) else ch_hotspots c)\<rparr>))"

section \<open>Transmission\<close>

definition stamp :: "(channel_timing_tag \<Rightarrow> channel_timing_tag) \<Rightarrow> fabric_frame \<Rightarrow> fabric_frame" where
  "stamp g f = f\<lparr>fr_timing := Some (g (case fr_timing f of
     None \<Rightarrow> \<lparr>cm_baseline = None, cm_release = None, cm_receive = None\<rparr> | Some t \<Rightarrow> t))\<rparr>"

definition schedule_receive :: "ns \<Rightarrow> ns \<Rightarrow> fabric_frame \<Rightarrow> attached \<Rightarrow> u32 \<Rightarrow> u32 \<Rightarrow> channel \<Rightarrow> channel" where
  "schedule_receive now delay f d src dst c = c\<lparr>ch_pending := ch_pending c @
     [\<lparr>dl_at = now + delay, dl_frame = f, dl_dest = d, dl_src = src, dl_dst = dst\<rparr>]\<rparr>"

definition hold_packet :: "ns \<Rightarrow> ns \<Rightarrow> fabric_frame \<Rightarrow> attached \<Rightarrow> u32 \<Rightarrow> u32 \<Rightarrow> channel \<Rightarrow> channel" where
  "hold_packet now delay f d src dst c =
    c\<lparr>ch_held := Some \<lparr>he_frame = stamp (\<lambda>t. t\<lparr>cm_baseline := Some (now + delay)\<rparr>) f, he_dest = d, he_src = src,
          he_dst = dst, he_delay = delay\<rparr>,
      ch_flush := (if 0 < ch_hold_delay c \<and> ch_flush c = None then Some (now + ch_hold_delay c, delay) else ch_flush c)\<rparr>"

text \<open>The delay of a packet; a packet for several devices reserves its path once.\<close>

definition packet_delay :: "ns \<Rightarrow> fabric_frame \<Rightarrow> u32 \<Rightarrow> u32 \<Rightarrow> ns option \<Rightarrow> channel \<Rightarrow> (ns \<times> ns option \<times> channel) option" where
  "packet_delay now f src dst reserved c =
    (if 1 < ch_path_count c \<and> ch_ecmp c
     then (case reserved of
         Some t \<Rightarrow> Some (t, Some t, c)
       | None \<Rightarrow> map_option (\<lambda>(t, c1). (t, Some t, c1)) (reserve_path now f src dst c))
     else let (t, c1) = schedule_delay now f c in Some (t, reserved, c1))"

text \<open>One device of the loop. \<open>lost\<close> and \<open>late\<close>: the random draws fall below the probabilities.\<close>

definition offer_to ::
  "ns \<Rightarrow> bool \<Rightarrow> bool \<Rightarrow> fabric_frame \<Rightarrow> attached \<Rightarrow> u32 \<Rightarrow> u32 \<Rightarrow> ns option \<times> channel \<Rightarrow> (ns option \<times> channel) option" where
  "offer_to now lost late f d src dst st =
    (let (reserved, c) = st; resp = is_response_packet (fr_packet f); nack = is_gap_nack (fr_packet f)
     in if \<not> resp \<and> 0 < ch_drop_requests c then Some (reserved, c\<lparr>ch_drop_requests := ch_drop_requests c - 1\<rparr>)
        else if resp \<and> 0 < ch_drop_responses c then Some (reserved, c\<lparr>ch_drop_responses := ch_drop_responses c - 1\<rparr>)
        else if \<not> nack \<and> lost then Some (reserved, c)
        else case packet_delay now f src dst reserved c of
          None \<Rightarrow> None
        | Some (delay, reserved', c1) \<Rightarrow> Some (reserved',
            if ch_held c1 = None \<and> resp \<and> ch_hold_response c1
            then hold_packet now delay f d src dst (c1\<lparr>ch_hold_response := False\<rparr>)
            else if ch_held c1 = None \<and> \<not> nack \<and> late then hold_packet now delay f d src dst c1
            else schedule_receive now delay
              (stamp (\<lambda>t. t\<lparr>cm_baseline := Some (now + delay), cm_release := Some (now + delay)\<rparr>) f) d src dst c1))"

definition is_target :: "nat \<Rightarrow> u32 \<Rightarrow> nat \<Rightarrow> attached \<Rightarrow> bool" where
  "is_target from dst i d \<longleftrightarrow> at_id d \<noteq> from \<and> (dst = 0 \<or> dst = device_fep i d)"

fun transmit_loop ::
  "ns \<Rightarrow> (nat \<Rightarrow> bool) \<Rightarrow> (nat \<Rightarrow> bool) \<Rightarrow> fabric_frame \<Rightarrow> nat \<Rightarrow> u32 \<Rightarrow> u32 \<Rightarrow> nat \<Rightarrow> attached list \<Rightarrow> ns option \<times> channel \<Rightarrow>
   (ns option \<times> channel) option" where
  "transmit_loop now lost late f from src dst i [] st = Some st"
| "transmit_loop now lost late f from src dst i (d # ds) st =
    (case (if is_target from dst i d then offer_to now (lost i) (late i) f d src dst st else Some st) of
       None \<Rightarrow> None
     | Some st1 \<Rightarrow> transmit_loop now lost late f from src dst (i + 1) ds st1)"

definition transmit ::
  "ns \<Rightarrow> (nat \<Rightarrow> bool) \<Rightarrow> (nat \<Rightarrow> bool) \<Rightarrow> fabric_frame \<Rightarrow> nat \<Rightarrow> u32 \<Rightarrow> u32 \<Rightarrow> channel \<Rightarrow> channel option" where
  "transmit now lost late f from src dst c =
    map_option snd (transmit_loop now lost late f from src dst 0 (ch_devices c) (None, ensure_paths c))"

section \<open>The held packet and reception\<close>

definition release_held_packet :: "ns \<Rightarrow> ns \<Rightarrow> channel \<Rightarrow> channel option" where
  "release_held_packet now delay c0 = (case ch_held c0 of
     None \<Rightarrow> Some c0
   | Some h \<Rightarrow>
       let c = c0\<lparr>ch_flush := None\<rparr>
       in map_option (\<lambda>(t, c1). (schedule_receive now t (stamp (\<lambda>x. x\<lparr>cm_release := Some now\<rparr>) (he_frame h))
              (he_dest h) (he_src h) (he_dst h) c1)\<lparr>ch_held := None\<rparr>)
            (if 1 < ch_path_count c \<and> ch_ecmp c then reserve_path now (he_frame h) (he_src h) (he_dst h) c
             else Some (if ch_serialize c then schedule_delay now (he_frame h) c else (delay, c))))"

definition flush_held_packet :: "ns \<Rightarrow> channel \<Rightarrow> channel option" where
  "flush_held_packet now c = (if ch_held c = None then Some c else release_held_packet now 1 c)"

text \<open>The automatic flush runs as the scheduled event, which is then no longer pending.\<close>

definition run_flush :: "ns \<Rightarrow> channel \<Rightarrow> channel option" where
  "run_flush now c = (case ch_flush c of
     None \<Rightarrow> Some c
   | Some (_, delay) \<Rightarrow> release_held_packet now delay (c\<lparr>ch_flush := None\<rparr>))"

text \<open>\<open>ReceivePacket\<close>: what the destination's \<open>ReceivePacket\<close> is called with, if it is a \<open>SoftUeNetDevice\<close>.\<close>

definition receive_packet :: "ns \<Rightarrow> delivery \<Rightarrow> (fabric_frame \<times> u32 \<times> u32) option" where
  "receive_packet now x =
    (if at_fep (dl_dest x) = None then None
     else Some (if fr_timing (dl_frame x) = None then dl_frame x
                else stamp (\<lambda>t. t\<lparr>cm_receive := Some now\<rparr>) (dl_frame x), dl_src x, dl_dst x))"

end
