(* ===== verification/SesState.thy ===== *)
theory SesState
  imports PdsManager OpMetadata
begin

text \<open>
  The state of \<open>SesManager\<close> (\<open>model/ses/ses-manager.h\<close>) and its checks. The manager is attached to a
  PDS manager, whose state it holds; pointers to metadata and packets are never null. Diagnostic
  records, latency statistics and the time stamps kept only for them are left out.
\<close>

unbundle bit_operations_syntax

section \<open>Vocabulary\<close>

definition RC_INVALID_OP :: u8 where "RC_INVALID_OP = 0x03"
definition RC_INVALID_KEY :: u8 where "RC_INVALID_KEY = 0x11"
definition RC_ACCESS_DENIED :: u8 where "RC_ACCESS_DENIED = 0x12"
definition RC_ADDR_UNREACHABLE :: u8 where "RC_ADDR_UNREACHABLE = 0x13"
definition RC_INTERNAL_ERROR :: u8 where "RC_INTERNAL_ERROR = 0x30"
definition RC_PROTOCOL_ERROR :: u8 where "RC_PROTOCOL_ERROR = 0x32"

definition Max_RTO_Retx_Cnt :: u16 where "Max_RTO_Retx_Cnt = 5"

datatype terminal_reason =
    NO_REASON | RC_OK_RESPONSE | RC_NO_MATCH_TERMINAL | RETRY_EXHAUSTED | INVALID_REQUEST
  | PROTOCOL_ERROR_REASON | RESPONSE_TIMEOUT_EXHAUSTED

datatype retry_trigger = NO_TRIGGER | NO_MATCH_TRIGGER | RESPONSE_TIMEOUT

datatype ses_phase = SES_IDLE | SES_BUSY | SES_ERROR

text \<open>\<open>RequestKey\<close>: job, message and peer, the fields of \<open>lookup_key\<close>.\<close>

type_synonym request_key = lookup_key

definition build_request_key :: "u64 \<Rightarrow> u16 \<Rightarrow> u32 \<Rightarrow> request_key" where
  "build_request_key job msg peer = \<lparr>lk_job = job, lk_msg = msg, lk_peer = peer\<rparr>"

definition metadata_key :: "ext_metadata \<Rightarrow> request_key" where
  "metadata_key m = build_request_key (ucast (om_job_id m)) (ucast (om_messages_id m)) (em_dst_node m)"

definition tag_key :: "header_tag \<Rightarrow> meta_tag \<Rightarrow> request_key" where
  "tag_key h m = build_request_key (ucast (ht_job h)) (ucast (mt_msg_id m)) (ht_src h)"

section \<open>State\<close>

text \<open>\<open>SimulatedMemoryRegion\<close>, \<open>RequestLifecycleState\<close>, \<open>RetryState\<close>; a pending event is its due time.\<close>

record region =
  mr_start :: u64
  mr_length :: u32
  mr_readable :: bool
  mr_writable :: bool

record request_state =
  rq_meta :: ext_metadata
  rq_packet :: packet
  rq_waiting :: bool
  rq_started :: bool
  rq_attempt :: u32
  rq_waiting_attempt :: u32
  rq_response_attempt :: u32
  rq_target :: bool
  rq_blocked :: bool
  rq_linked :: bool
  rq_send_reserved :: bool
  rq_send_bytes :: u32
  rq_write_reserved :: bool
  rq_write_bytes :: u32
  rq_terminal :: bool
  rq_reason :: terminal_reason
  rq_terminal_at :: ms
  rq_progress :: ms
  rq_deadline :: ms
  rq_pending :: u32
  rq_retries :: u16
  rq_timeout_retries :: u16
  rq_no_match_retries :: u16
  rq_trigger :: retry_trigger
  rq_exhausted :: bool
  rq_packets :: u32
  rq_created :: u64
  rq_consumed :: u64
  rq_return_code :: u8
  rq_completed_bytes :: u32
  rq_counted :: bool

record retry_state =
  ry_meta :: ext_metadata
  ry_packet :: packet
  ry_waiting :: bool
  ry_count :: u16
  ry_next :: ms
  ry_attempt :: u32
  ry_trigger :: retry_trigger
  ry_event :: "ns option"

text \<open>\<open>BlockedPeerQueueState\<close>: the wake-up event is scheduled for the current moment.\<close>

record blocked_queue =
  bq_requests :: "request_key list"
  bq_wakeup :: bool

record pending_response =
  pe_meta :: ext_metadata
  pe_payload :: packet
  pe_opcode :: u8
  pe_return_code :: u8
  pe_modified :: u32
  pe_with_data :: bool
  pe_reserved :: bool
  pe_peer :: u32
  pe_bytes :: u32
  pe_packets :: u32
  pe_retries :: u16
  pe_next :: ms
  pe_enqueued :: bool
  pe_terminal :: bool

record pending_queue =
  pq_responses :: "request_key list"
  pq_drain :: "ns option"

record response_event =
  re_job :: u64
  re_msg :: u16
  re_opcode :: u8
  re_return_code :: u8
  re_modified :: u32
  re_at :: ms

text \<open>The counters: of requests, of errors, of the semantic statistics, of skipped and late events.\<close>

record ses_counts =
  sc_send :: u64
  sc_receive :: u64
  sc_responses :: u64
  sc_successful :: u64
  sc_errors :: u64
  sc_generated :: u64
  sc_started :: u64
  sc_terminal :: u64
  sc_success :: u64
  sc_failed :: u64
  sc_stale_timeouts :: u64
  sc_stale_retries :: u64
  sc_late :: u64
  sc_duplicate_ok :: u64
  sc_missing :: u64
  sc_response_failures :: u64
  sc_response_retries :: u64

definition zero_counts :: ses_counts where
  "zero_counts = \<lparr>sc_send = 0, sc_receive = 0, sc_responses = 0, sc_successful = 0, sc_errors = 0,
     sc_generated = 0, sc_started = 0, sc_terminal = 0, sc_success = 0, sc_failed = 0, sc_stale_timeouts = 0,
     sc_stale_retries = 0, sc_late = 0, sc_duplicate_ok = 0, sc_missing = 0, sc_response_failures = 0,
     sc_response_retries = 0\<rparr>"

record ses =
  se_manager :: manager
  se_device :: "net_device option"
  se_message_id :: u16
  se_payload_mtu :: u32
  se_phase :: ses_phase
  se_rud :: bool
  se_retry_enabled :: bool
  se_allow_all :: bool
  se_strict :: bool
  se_checker :: "(u32 \<Rightarrow> u64 \<Rightarrow> bool) option"
  se_jobs :: "u64 list"
  se_regions :: "u64 \<rightharpoonup> region"
  se_requests :: "(request_key \<times> request_state) list"
  se_retries :: "(request_key \<times> retry_state) list"
  se_blocked :: "(u32 \<times> blocked_queue) list"
  se_pending :: "(request_key \<times> pending_response) list"
  se_queues :: "(u32 \<times> pending_queue) list"
  se_history :: "response_event list"
  se_retry_timeout :: ns
  se_interval :: ns
  se_fail_next :: u32
  se_process :: "ns option"
  se_counts :: ses_counts

text \<open>The constructor, \<open>SetPdsManager\<close> and \<open>Initialize\<close> at time \<open>now\<close>.\<close>

definition new_ses :: "manager \<Rightarrow> net_device option \<Rightarrow> ses" where
  "new_ses m d = \<lparr>se_manager = m, se_device = d, se_message_id = 0, se_payload_mtu = 0, se_phase = SES_IDLE,
     se_rud = True, se_retry_enabled = True, se_allow_all = True, se_strict = True, se_checker = None, se_jobs = [],
     se_regions = Map.empty, se_requests = [], se_retries = [], se_blocked = [], se_pending = [], se_queues = [],
     se_history = [], se_retry_timeout = 80000000, se_interval = 10000000, se_fail_next = 0, se_process = None,
     se_counts = zero_counts\<rparr>"

definition bump :: "(ses_counts \<Rightarrow> ses_counts) \<Rightarrow> ses \<Rightarrow> ses" where
  "bump f s = s\<lparr>se_counts := f (se_counts s)\<rparr>"

definition request_of :: "request_key \<Rightarrow> ses \<Rightarrow> request_state option" where
  "request_of k s = map_of (se_requests s) k"

definition put_request :: "request_key \<Rightarrow> request_state \<Rightarrow> ses \<Rightarrow> ses" where
  "put_request k r s = s\<lparr>se_requests := AList.update k r (se_requests s)\<rparr>"

definition change_request :: "request_key \<Rightarrow> (request_state \<Rightarrow> request_state) \<Rightarrow> ses \<Rightarrow> ses" where
  "change_request k f s = (case request_of k s of None \<Rightarrow> s | Some r \<Rightarrow> put_request k (f r) s)"

section \<open>Configuration\<close>

definition schedule_processing :: "ns \<Rightarrow> ses \<Rightarrow> ses" where
  "schedule_processing now s =
    (if se_process s = None then s\<lparr>se_process := Some (now + se_interval s)\<rparr> else s)"

definition configure_retry :: "bool \<Rightarrow> ns \<Rightarrow> ses \<Rightarrow> ses" where
  "configure_retry enabled timeout s = s\<lparr>se_retry_enabled := enabled, se_retry_timeout := timeout\<rparr>"

definition authorize_job :: "u64 \<Rightarrow> ses \<Rightarrow> ses" where
  "authorize_job job s = (if job \<noteq> 0 then s\<lparr>se_jobs := List.insert job (se_jobs s)\<rparr> else s)"

definition revoke_job_authorization :: "u64 \<Rightarrow> ses \<Rightarrow> ses" where
  "revoke_job_authorization job s = s\<lparr>se_jobs := removeAll job (se_jobs s)\<rparr>"

definition register_memory_region :: "u64 \<Rightarrow> u64 \<Rightarrow> u32 \<Rightarrow> bool \<Rightarrow> bool \<Rightarrow> ses \<Rightarrow> ses" where
  "register_memory_region rkey start len readable writable s =
    s\<lparr>se_regions := (se_regions s)(rkey \<mapsto>
        \<lparr>mr_start = start, mr_length = len, mr_readable = readable, mr_writable = writable\<rparr>)\<rparr>"

definition post_receive :: "ns \<Rightarrow> u64 \<Rightarrow> u16 \<Rightarrow> u32 \<Rightarrow> u64 \<Rightarrow> u32 \<Rightarrow> ses \<Rightarrow> bool \<times> ses" where
  "post_receive now job msg src base len s =
    (let (ok, rx) = register_posted_receive now job msg src base len (mg_rx (se_manager s))
     in (ok, s\<lparr>se_manager := (se_manager s)\<lparr>mg_rx := rx\<rparr>\<rparr>))"

definition get_payload_mtu :: "ses \<Rightarrow> u32" where
  "get_payload_mtu s = (if 0 < se_payload_mtu s then se_payload_mtu s
     else payload_capacity_from_device_mtu
       (case se_device s of Some d \<Rightarrow> ucast (dv_mtu d) | None \<Rightarrow> kDefaultDeviceMtu))"

definition generate_message_id :: "u32 \<Rightarrow> ses \<Rightarrow> u16 \<times> ses" where
  "generate_message_id msg s =
    (if msg \<noteq> 0 then (ucast msg, s)
     else let i = (if se_message_id s = 0xFFFF then 1 else se_message_id s + 1) in (i, s\<lparr>se_message_id := i\<rparr>))"

section \<open>Checks\<close>

definition validate_operation :: "op_type \<Rightarrow> bool" where
  "validate_operation t \<longleftrightarrow> t = SEND \<or> t = READ \<or> t = WRITE \<or> t = DEFERRABLE"

definition validate_authorization :: "ext_metadata \<Rightarrow> ses \<Rightarrow> bool" where
  "validate_authorization m s = (case se_checker s of
      Some check \<Rightarrow> check (em_src_node m) (ucast (om_job_id m))
    | None \<Rightarrow> se_allow_all s \<or> ucast (om_job_id m) \<in> set (se_jobs s))"

definition validate_operation_metadata :: "ext_metadata \<Rightarrow> ses \<Rightarrow> bool" where
  "validate_operation_metadata m s \<longleftrightarrow>
     ext_metadata_valid m \<and> validate_operation (om_op m) \<and> om_job_id m \<noteq> 0 \<and> om_messages_id m \<noteq> 0 \<and>
     em_src_node m \<noteq> 0 \<and> em_dst_node m \<noteq> 0 \<and> validate_authorization m s \<and>
     \<not> ((om_op m = READ \<or> om_op m = WRITE) \<and> om_rkey m = 0) \<and> \<not> (om_length m = 0 \<and> om_op m \<noteq> READ)"

text \<open>The results carry the return code of the failed check; \<open>None\<close> is success.\<close>

definition validate_inbound_header :: "header_tag \<Rightarrow> meta_tag \<Rightarrow> ses \<Rightarrow> u8 option" where
  "validate_inbound_header h m s =
    (if ht_pds_type h \<noteq> RUD_REQ then Some RC_PROTOCOL_ERROR
     else if \<not> validate_operation (mt_op m) then Some RC_INVALID_OP
     else if ht_pdc_id h = 0xFFFF \<or> 0x80000000 \<le> ht_psn h then Some RC_PROTOCOL_ERROR
     else if se_strict s \<and> (ht_job h = 0 \<or> ht_src h = 0 \<or> ht_dst h = 0) then Some RC_PROTOCOL_ERROR
     else None)"

definition validate_rma_request :: "header_tag \<Rightarrow> meta_tag \<Rightarrow> bool \<Rightarrow> u32 \<Rightarrow> ses \<Rightarrow> u8 option" where
  "validate_rma_request h m write_request actual s =
    (case validate_inbound_header h m s of
       Some rc \<Rightarrow> Some rc
     | None \<Rightarrow>
        if \<not> se_allow_all s \<and> ucast (ht_job h) \<notin> set (se_jobs s) then Some RC_ACCESS_DENIED
        else (case se_regions s (mt_remote_key m) of
          None \<Rightarrow> Some RC_INVALID_KEY
        | Some r \<Rightarrow>
            if (if write_request then \<not> mr_writable r else \<not> mr_readable r) then Some RC_ACCESS_DENIED
            else let addr = (if write_request then mt_remote_address m + ucast (mt_fragment_offset m)
                             else mt_remote_address m) :: u64;
                     len = (if write_request then ucast (max 1 actual) else ucast (mt_request_length m)) :: u64;
                     last = mr_start r + ucast (mr_length r)
              in if addr < mr_start r \<or> last < addr + len then Some RC_ADDR_UNREACHABLE else None))"

definition validate_pdc_ses_request :: "pdc_ses_request \<Rightarrow> ses \<Rightarrow> bool" where
  "validate_pdc_ses_request q s \<longleftrightarrow> pq_pdc_id q \<noteq> 0xFFFF \<and> pk_size (pq_packet q) \<le> unat (get_payload_mtu s)"

definition try_get_packet_tags :: "packet \<Rightarrow> (header_tag \<times> meta_tag) option" where
  "try_get_packet_tags p = (case (pk_htag p, pk_meta p) of (Some h, Some m) \<Rightarrow> Some (h, m) | _ \<Rightarrow> None)"

end
