(* ===== verification/SesDispatch.thy ===== *)
theory SesDispatch
  imports SesState
begin

text \<open>
  The requester's side of \<open>SesManager\<close> (\<open>model/ses/ses-manager.cc\<close>): budgets, the queues of requests
  blocked on a budget, dispatching a request's packets, retries, and the end of a request.
  \<open>None\<close> is a failed assertion or a loop that does not end.
\<close>

section \<open>Call-backs from the control plane\<close>

definition schedule_blocked_wakeup :: "u32 \<Rightarrow> ses \<Rightarrow> ses" where
  "schedule_blocked_wakeup peer s = (case map_of (se_blocked s) peer of
     None \<Rightarrow> s
   | Some q \<Rightarrow> if bq_requests q = [] \<or> bq_wakeup q then s
       else s\<lparr>se_blocked := AList.update peer (q\<lparr>bq_wakeup := True\<rparr>) (se_blocked s)\<rparr>)"

definition schedule_response_drain :: "ns \<Rightarrow> u32 \<Rightarrow> bool \<Rightarrow> ses \<Rightarrow> ses" where
  "schedule_response_drain now peer immediate s = (case map_of (se_queues s) peer of
     None \<Rightarrow> s
   | Some q \<Rightarrow> if pq_responses q = [] \<or> pq_drain q \<noteq> None then s
       else s\<lparr>se_queues := AList.update peer
           (q\<lparr>pq_drain := Some (if immediate then now else now + se_interval s)\<rparr>) (se_queues s)\<rparr>)"

text \<open>\<open>NotifyPeerCreditsAvailable\<close>; \<open>NotifyPeerSendAdmissionReleased\<close> only adds statistics to it.\<close>

definition notify_peer_credits :: "ns \<Rightarrow> u32 \<Rightarrow> ses \<Rightarrow> ses" where
  "notify_peer_credits now peer s = schedule_response_drain now peer True (schedule_blocked_wakeup peer s)"

fun hear :: "ns \<Rightarrow> credit_note \<Rightarrow> ses \<Rightarrow> ses" where
  "hear now (NotifyPeerCreditsAvailable peer) s = notify_peer_credits now peer s"
| "hear now (NotifyPeerSendAdmissionReleased peer n) s = notify_peer_credits now peer s"

text \<open>A call on the control plane of the PDS manager, and the call-backs it makes.\<close>

definition on_plane :: "ns \<Rightarrow> (plane \<Rightarrow> bool \<times> plane) \<Rightarrow> ses \<Rightarrow> bool \<times> ses" where
  "on_plane now f s =
    (let (ok, p) = f ((mg_plane (se_manager s))\<lparr>pn_notes := []\<rparr>)
     in (ok, fold (hear now) (pn_notes p) (s\<lparr>se_manager := (se_manager s)\<lparr>mg_plane := p\<rparr>\<rparr>)))"

definition on_rx :: "(rx_state \<Rightarrow> 'a \<times> rx_state) \<Rightarrow> ses \<Rightarrow> 'a \<times> ses" where
  "on_rx f s = (let (x, rx) = f (mg_rx (se_manager s))
     in (x, s\<lparr>se_manager := (se_manager s)\<lparr>mg_rx := rx\<rparr>\<rparr>))"

section \<open>Requests blocked on a budget\<close>

definition is_blocked_head :: "request_key \<Rightarrow> ses \<Rightarrow> bool" where
  "is_blocked_head k s = (case map_of (se_blocked s) (lk_peer k) of
     None \<Rightarrow> False
   | Some q \<Rightarrow> (case bq_requests q of [] \<Rightarrow> False | h # _ \<Rightarrow> h = k))"

definition enqueue_blocked :: "request_key \<Rightarrow> ses \<Rightarrow> ses" where
  "enqueue_blocked k s = (case request_of k s of
     None \<Rightarrow> s
   | Some r \<Rightarrow>
       if rq_linked r then s
       else let q = (case map_of (se_blocked s) (lk_peer k) of
                None \<Rightarrow> \<lparr>bq_requests = [], bq_wakeup = False\<rparr> | Some q \<Rightarrow> q)
         in put_request k (r\<lparr>rq_linked := True, rq_blocked := True\<rparr>)
              (s\<lparr>se_blocked := AList.update (lk_peer k) (q\<lparr>bq_requests := bq_requests q @ [k]\<rparr>) (se_blocked s)\<rparr>))"

definition unqueue :: "request_key \<Rightarrow> ses \<Rightarrow> ses" where
  "unqueue k s = (case map_of (se_blocked s) (lk_peer k) of
     None \<Rightarrow> s
   | Some q \<Rightarrow>
       let ks = remove1 k (bq_requests q)
       in s\<lparr>se_blocked := (if ks = [] then AList.delete (lk_peer k) (se_blocked s)
              else AList.update (lk_peer k) (q\<lparr>bq_requests := ks\<rparr>) (se_blocked s))\<rparr>)"

definition remove_blocked :: "request_key \<Rightarrow> ses \<Rightarrow> ses" where
  "remove_blocked k s = unqueue k (change_request k (\<lambda>r. r\<lparr>rq_linked := False, rq_blocked := False\<rparr>) s)"

section \<open>Budgets\<close>

definition try_reserve_dispatch_budget :: "ns \<Rightarrow> request_key \<Rightarrow> request_state \<Rightarrow> ses \<Rightarrow> bool \<times> ses" where
  "try_reserve_dispatch_budget now k r s =
    (let n = ucast (om_length (rq_meta r)) :: u32
     in if om_op (rq_meta r) = SEND then
          (if rq_send_reserved r then (True, s)
           else let (ok, s1) = on_plane now (try_reserve_send_admission now (lk_peer k) n) s
             in (ok, if ok then change_request k (\<lambda>r. r\<lparr>rq_send_reserved := True, rq_send_bytes := n\<rparr>) s1 else s1))
        else if om_op (rq_meta r) = WRITE then
          (if rq_write_reserved r then (True, s)
           else let (ok, s1) = on_plane now (try_reserve_write_budget now (lk_peer k) n) s
             in (ok, if ok then change_request k (\<lambda>r. r\<lparr>rq_write_reserved := True, rq_write_bytes := n\<rparr>) s1 else s1))
        else (True, s))"

definition release_send_part :: "ns \<Rightarrow> request_key \<Rightarrow> ses \<Rightarrow> ses" where
  "release_send_part now k s = (case request_of k s of
     None \<Rightarrow> s
   | Some r \<Rightarrow> if rq_send_reserved r
       then change_request k (\<lambda>r. r\<lparr>rq_send_reserved := False, rq_send_bytes := 0\<rparr>)
         (snd (on_plane now (\<lambda>p. (True, release_send_admission now (lk_peer k) (rq_send_bytes r) p)) s))
       else s)"

definition release_write_part :: "ns \<Rightarrow> request_key \<Rightarrow> ses \<Rightarrow> ses" where
  "release_write_part now k s = (case request_of k s of
     None \<Rightarrow> s
   | Some r \<Rightarrow> if rq_write_reserved r
       then change_request k (\<lambda>r. r\<lparr>rq_write_reserved := False, rq_write_bytes := 0\<rparr>)
         (snd (on_plane now (\<lambda>p. (True, release_write_budget now (lk_peer k) (rq_write_bytes r) p)) s))
       else s)"

definition release_dispatch_budget :: "ns \<Rightarrow> request_key \<Rightarrow> ses \<Rightarrow> ses" where
  "release_dispatch_budget now k s = release_write_part now k (release_send_part now k s)"

section \<open>The end of a request\<close>

definition set_request_completion_outcome :: "request_key \<Rightarrow> u8 \<Rightarrow> u32 \<Rightarrow> ses \<Rightarrow> ses" where
  "set_request_completion_outcome k rc n s =
    change_request k (\<lambda>r. r\<lparr>rq_return_code := rc, rq_completed_bytes := n\<rparr>) s"

definition record_response_event :: "ns \<Rightarrow> request_key \<Rightarrow> u8 \<Rightarrow> u8 \<Rightarrow> u32 \<Rightarrow> ses \<Rightarrow> ses" where
  "record_response_event now k opcode rc n s = s\<lparr>se_history := se_history s @
     [\<lparr>re_job = lk_job k, re_msg = lk_msg k, re_opcode = opcode, re_return_code = rc, re_modified = n,
       re_at = now_ms now\<rparr>]\<rparr>"

definition record_completion :: "request_state \<Rightarrow> ses \<Rightarrow> ses" where
  "record_completion r s =
    (if rq_counted r then s
     else bump (\<lambda>c. if rq_reason r = RC_OK_RESPONSE \<and> rq_return_code r = RC_OK
       then c\<lparr>sc_terminal := sc_terminal c + 1, sc_success := sc_success c + 1\<rparr>
       else c\<lparr>sc_terminal := sc_terminal c + 1, sc_failed := sc_failed c + 1\<rparr>) s)"

definition finish :: "ns \<Rightarrow> terminal_reason \<Rightarrow> request_state \<Rightarrow> request_state" where
  "finish now why r = r\<lparr>rq_terminal := True, rq_reason := why, rq_terminal_at := now_ms now, rq_waiting := False,
     rq_started := False, rq_pending := 0, rq_deadline := 0, rq_waiting_attempt := 0\<rparr>"

definition release_read_target :: "ns \<Rightarrow> request_key \<Rightarrow> ses \<Rightarrow> ses" where
  "release_read_target now k s = (case request_of k s of
     None \<Rightarrow> s
   | Some r \<Rightarrow> if om_op (rq_meta r) = READ \<and> rq_target r
       then change_request k (\<lambda>r. r\<lparr>rq_target := False\<rparr>)
         (snd (on_rx (unregister_read_response_target now (lk_job k) (lk_msg k) (lk_peer k)) s))
       else s)"

definition count_completion :: "request_key \<Rightarrow> ses \<Rightarrow> ses" where
  "count_completion k s = (case request_of k s of
     None \<Rightarrow> s
   | Some r \<Rightarrow> change_request k (\<lambda>r. r\<lparr>rq_counted := True\<rparr>) (record_completion r s))"

definition terminalize_request :: "ns \<Rightarrow> request_key \<Rightarrow> terminal_reason \<Rightarrow> ses \<Rightarrow> ses" where
  "terminalize_request now k why s =
    (if request_of k s = None then s
     else count_completion k (release_read_target now k (change_request k (finish now why)
       (release_dispatch_budget now k (remove_blocked k (s\<lparr>se_retries := AList.delete k (se_retries s)\<rparr>))))))"

definition fail_request :: "ns \<Rightarrow> request_key \<Rightarrow> u8 \<Rightarrow> terminal_reason \<Rightarrow> ses \<Rightarrow> ses" where
  "fail_request now k rc why s = terminalize_request now k why (set_request_completion_outcome k rc 0 s)"

definition handle_dispatch_failure :: "ns \<Rightarrow> request_key \<Rightarrow> ses \<Rightarrow> ses" where
  "handle_dispatch_failure now k s =
    (case request_of k s of
       None \<Rightarrow> remove_blocked k s
     | Some r \<Rightarrow> if rq_terminal r then remove_blocked k s
         else bump (\<lambda>c. c\<lparr>sc_errors := sc_errors c + 1\<rparr>)
                (fail_request now k RC_INTERNAL_ERROR PROTOCOL_ERROR_REASON s))"

section \<open>Dispatching packets\<close>

definition attach_semantic_tags ::
  "ext_metadata \<Rightarrow> u32 \<Rightarrow> u32 \<Rightarrow> bool \<Rightarrow> u8 \<Rightarrow> u8 \<Rightarrow> u32 \<Rightarrow> packet \<Rightarrow> packet" where
  "attach_semantic_tags m off len response opcode rc modified p =
    p\<lparr>pk_htag := Some \<lparr>ht_pds_type = (if response then RUDI_RESP else RUD_REQ), ht_pdc_id = 0, ht_psn = 0,
        ht_src = em_src_node m, ht_dst = em_dst_node m, ht_job = om_job_id m\<rparr>,
      pk_meta := Some (set_is_response response (set_is_retry (om_is_retry m)
        ((metadata_tag m)\<lparr>mt_msg_id := om_messages_id m, mt_request_length := len, mt_fragment_offset := off,
           mt_remote_address := (if om_op m = READ then om_imm_data m else om_start_addr m),
           mt_remote_key := om_rkey m, mt_response_opcode := opcode, mt_return_code := rc,
           mt_modified_length := modified\<rparr>)))\<rparr>"

text \<open>\<open>Packet::CreateFragment\<close> asserts that the bytes are there.\<close>

definition create_fragment :: "u32 \<Rightarrow> u32 \<Rightarrow> packet \<Rightarrow> packet option" where
  "create_fragment off len p =
    (if pk_size p < unat off + unat len then None
     else Some (p\<lparr>pk_headers := [], pk_payload := take (unat len) (drop (unat off) (pk_bytes p))\<rparr>))"

text \<open>\<open>InitializeSesHeader\<close> and \<open>DispatchSemanticPacket\<close>.\<close>

definition initialize_ses_header :: "ext_metadata \<Rightarrow> packet \<Rightarrow> ses_request" where
  "initialize_ses_header m p = \<lparr>sr_src = em_src_node m, sr_dst = em_dst_node m, sr_mode = om_delivery_mode m,
     sr_tc = 0, sr_packet = Some p, sr_len = of_nat (pk_size p), sr_som = om_som m, sr_eom = om_eom m\<rparr>"

definition dispatch_semantic_packet :: "ns \<Rightarrow> ext_metadata \<Rightarrow> packet \<Rightarrow> ses \<Rightarrow> (bool \<times> ses) option" where
  "dispatch_semantic_packet now m p s =
    map_option (map_prod id (\<lambda>g. s\<lparr>se_manager := g\<rparr>)) (dispatch_packet now (initialize_ses_header m p) (se_manager s))"

definition request_fragment :: "ns \<Rightarrow> u32 \<Rightarrow> u32 \<Rightarrow> u32 \<Rightarrow> request_state \<Rightarrow> packet option" where
  "request_fragment now mtu n i r =
    (let m = rq_meta r; off = i * mtu; total = ucast (om_length m)
     in map_option (\<lambda>p. (attach_semantic_tags m off total False 0 0 total p)\<lparr>pk_timing := Some now\<rparr>)
          (if n = 1 \<or> om_op m = READ then Some (rq_packet r)
           else create_fragment off (min mtu (total - off)) (rq_packet r)))"

fun dispatch_fragments :: "ns \<Rightarrow> request_key \<Rightarrow> u32 \<Rightarrow> request_state \<Rightarrow> nat list \<Rightarrow> ses \<Rightarrow> (bool \<times> ses) option" where
  "dispatch_fragments now k n r [] s = Some (True, s)"
| "dispatch_fragments now k n r (i # is) s =
    (case request_fragment now (get_payload_mtu s) n (of_nat i) r of
       None \<Rightarrow> None
     | Some p \<Rightarrow> (case dispatch_semantic_packet now (rq_meta r) p s of
         None \<Rightarrow> None
       | Some (ok, s1) \<Rightarrow>
           if ok then dispatch_fragments now k n r is (bump (\<lambda>c. c\<lparr>sc_generated := sc_generated c + 1\<rparr>) s1)
           else Some (False, release_dispatch_budget now k s1)))"

definition arm_response_timeout :: "ns \<Rightarrow> ses \<Rightarrow> request_state \<Rightarrow> request_state" where
  "arm_response_timeout now s r =
    (if \<not> rq_waiting r \<or> \<not> rq_started r then r\<lparr>rq_deadline := 0, rq_waiting_attempt := 0\<rparr>
     else r\<lparr>rq_waiting_attempt := (if rq_waiting_attempt r = 0 then rq_attempt r else rq_waiting_attempt r),
            rq_deadline := now_ms now + now_ms (se_retry_timeout s)\<rparr>)"

definition dispatched :: "ns \<Rightarrow> ses \<Rightarrow> request_state \<Rightarrow> request_state" where
  "dispatched now s r =
    (let a = rq_attempt r + 1; waits = om_expect_response (rq_meta r)
     in (arm_response_timeout now s (r\<lparr>rq_attempt := a, rq_started := True, rq_waiting := waits,
           rq_waiting_attempt := (if waits then a else 0)\<rparr>))\<lparr>rq_progress := now_ms now\<rparr>)"

text \<open>A READ registers the target of its response first.\<close>

definition register_target :: "ns \<Rightarrow> request_key \<Rightarrow> request_state \<Rightarrow> ses \<Rightarrow> bool \<times> ses" where
  "register_target now k r s =
    (let m = rq_meta r
     in if om_op m = READ \<and> \<not> rq_target r then
          (let (ok, s1) = on_rx (register_read_response_target now (ucast (om_job_id m)) (ucast (om_messages_id m))
                 (em_dst_node m) (om_start_addr m) (ucast (om_length m))) s
           in if ok then (True, change_request k (\<lambda>r. r\<lparr>rq_target := True\<rparr>) s1)
              else (False, fail_request now k RC_RESOURCE_EXHAUST PROTOCOL_ERROR_REASON
                     (record_response_event now k UET_NACK RC_RESOURCE_EXHAUST 0 s1)))
        else (True, s))"

text \<open>\<open>DispatchRequestPackets\<close>, after the budget has been granted.\<close>

definition send_request_packets :: "ns \<Rightarrow> request_key \<Rightarrow> request_state \<Rightarrow> ses \<Rightarrow> (bool \<times> ses) option" where
  "send_request_packets now k r s =
    (let s1 = change_request k (\<lambda>r. r\<lparr>rq_blocked := False\<rparr>) (if rq_linked r then remove_blocked k s else s);
         (ok, s2) = register_target now k r s1; n = max 1 (rq_packets r)
     in if \<not> ok then Some (False, s2)
        else map_option (\<lambda>(sent, s3). (sent, if sent then change_request k (dispatched now s3) s3 else s3))
               (dispatch_fragments now k n r [0..<unat n] s2))"

definition dispatch_request_packets :: "ns \<Rightarrow> request_key \<Rightarrow> ses \<Rightarrow> (bool \<times> ses) option" where
  "dispatch_request_packets now k s = (case request_of k s of
     None \<Rightarrow> Some (False, s)
   | Some r \<Rightarrow>
       if rq_terminal r then Some (False, remove_blocked k s)
       else if rq_linked r \<and> \<not> is_blocked_head k s
       then Some (True, change_request k (\<lambda>r. r\<lparr>rq_blocked := True\<rparr>) s)
       else let (ok, s1) = try_reserve_dispatch_budget now k r s
         in if ok then send_request_packets now k r s1
            else Some (True, change_request k (\<lambda>r. r\<lparr>rq_blocked := True\<rparr>) (enqueue_blocked k s1)))"

section \<open>New requests\<close>

definition blank_request :: "ext_metadata \<Rightarrow> packet \<Rightarrow> request_state" where
  "blank_request m p = \<lparr>rq_meta = m, rq_packet = p, rq_waiting = False, rq_started = False, rq_attempt = 0,
     rq_waiting_attempt = 0, rq_response_attempt = 0, rq_target = False, rq_blocked = False, rq_linked = False,
     rq_send_reserved = False, rq_send_bytes = 0, rq_write_reserved = False, rq_write_bytes = 0, rq_terminal = False,
     rq_reason = NO_REASON, rq_terminal_at = 0, rq_progress = 0, rq_deadline = 0, rq_pending = 0, rq_retries = 0,
     rq_timeout_retries = 0, rq_no_match_retries = 0, rq_trigger = NO_TRIGGER, rq_exhausted = False, rq_packets = 0,
     rq_created = 0, rq_consumed = 0, rq_return_code = RC_OK, rq_completed_bytes = 0, rq_counted = False\<rparr>"

text \<open>
  \<open>requestState = RequestLifecycleState ()\<close>, with what is kept of an earlier request of the same key:
  the numbers of retries and attempts always, the rest for a retry only.
\<close>

definition renew_request :: "ns \<Rightarrow> u32 \<Rightarrow> ext_metadata \<Rightarrow> packet \<Rightarrow> request_state option \<Rightarrow> request_state" where
  "renew_request now mtu m p earlier =
    (let e = (case earlier of None \<Rightarrow> blank_request m p | Some e \<Rightarrow> e); n = calculate_packet_count mtu m
     in (blank_request m p)\<lparr>rq_retries := rq_retries e, rq_timeout_retries := rq_timeout_retries e,
          rq_no_match_retries := rq_no_match_retries e, rq_trigger := rq_trigger e, rq_exhausted := rq_exhausted e,
          rq_attempt := rq_attempt e, rq_response_attempt := rq_response_attempt e,
          rq_created := (if om_is_retry m \<and> rq_created e \<noteq> 0 then rq_created e else of_int now),
          rq_consumed := (if om_is_retry m then rq_consumed e else 0), rq_progress := now_ms now, rq_pending := n,
          rq_packets := n, rq_target := om_is_retry m \<and> rq_target e\<rparr>)"

definition complete_metadata :: "ext_metadata \<Rightarrow> ses \<Rightarrow> ext_metadata \<times> ses" where
  "complete_metadata m s =
    (let (m1, s1) = (if om_job_id m = 0
           then let (i, s1) = generate_message_id (om_messages_id m) s
             in (m\<lparr>om_job_id := push_bit 16 (em_src_node m) XOR (ucast i + 1)\<rparr>, s1)
           else (m, s));
         (m2, s2) = (if om_messages_id m1 = 0
           then let (i, s2) = generate_message_id 0 s1 in (m1\<lparr>om_messages_id := ucast i\<rparr>, s2)
           else (m1, s1))
     in (if 3 < om_delivery_mode m2 then m2\<lparr>om_delivery_mode := 0\<rparr> else m2, s2))"

definition request_packet :: "ext_metadata \<Rightarrow> packet option \<Rightarrow> packet option" where
  "request_packet m po = (case po of
     Some p \<Rightarrow> Some p
   | None \<Rightarrow> if om_op m = READ then Some (empty_packet\<lparr>pk_payload := [0]\<rparr>) else None)"

text \<open>A retry that the caller makes itself replaces one that is still scheduled.\<close>

definition drop_scheduled_retry :: "request_key \<Rightarrow> ses \<Rightarrow> ses" where
  "drop_scheduled_retry k s = (case map_of (se_retries s) k of
     None \<Rightarrow> s
   | Some y \<Rightarrow> if ry_event y = None then s
       else bump (\<lambda>c. c\<lparr>sc_stale_retries := sc_stale_retries c + 1\<rparr>)
              (s\<lparr>se_retries := AList.delete k (se_retries s)\<rparr>))"

definition open_request :: "ns \<Rightarrow> ext_metadata \<Rightarrow> packet \<Rightarrow> ses \<Rightarrow> ses" where
  "open_request now m p s =
    (let k = metadata_key m; e = request_of k s;
         s1 = put_request k (renew_request now (get_payload_mtu s) m p e) s
     in if \<not> om_is_retry m \<or> (case e of None \<Rightarrow> True | Some e \<Rightarrow> rq_created e = 0)
        then bump (\<lambda>c. c\<lparr>sc_started := sc_started c + 1\<rparr>) s1 else s1)"

definition refuse :: "ses \<Rightarrow> bool \<times> ses" where
  "refuse s = (False, (bump (\<lambda>c. c\<lparr>sc_errors := sc_errors c + 1\<rparr>) s)\<lparr>se_phase := SES_IDLE\<rparr>)"

definition complete_unanswered :: "ns \<Rightarrow> request_key \<Rightarrow> ses \<Rightarrow> ses" where
  "complete_unanswered now k s = (case request_of k s of
     None \<Rightarrow> s
   | Some r \<Rightarrow> if \<not> om_expect_response (rq_meta r) \<and> rq_started r \<and> \<not> rq_blocked r \<and> \<not> rq_linked r
       then terminalize_request now k RC_OK_RESPONSE
         (set_request_completion_outcome k RC_OK (ucast (om_length (rq_meta r))) s)
       else s)"

definition start_request :: "ns \<Rightarrow> ext_metadata \<Rightarrow> packet \<Rightarrow> ses \<Rightarrow> (bool \<times> ses) option" where
  "start_request now m p s =
    (let k = metadata_key m;
         s1 = (if om_is_retry m then drop_scheduled_retry k s else s);
         s2 = open_request now m p s1
     in case dispatch_request_packets now k s2 of
          None \<Rightarrow> None
        | Some (ok, s3) \<Rightarrow> Some
            (if ok then (True, (bump (\<lambda>c. c\<lparr>sc_successful := sc_successful c + 1\<rparr>) (complete_unanswered now k s3))
                 \<lparr>se_phase := SES_IDLE\<rparr>)
             else (False, (handle_dispatch_failure now k s3)\<lparr>se_phase := SES_IDLE\<rparr>)))"

text \<open>\<open>ProcessSendRequest\<close>\<close>

definition process_send_request :: "ns \<Rightarrow> ext_metadata \<Rightarrow> packet option \<Rightarrow> ses \<Rightarrow> (bool \<times> ses) option" where
  "process_send_request now m po s =
    (let s0 = (bump (\<lambda>c. c\<lparr>sc_send := sc_send c + 1\<rparr>) s)\<lparr>se_phase := SES_BUSY\<rparr>;
         (m1, s1) = complete_metadata m s0
     in case request_packet m1 po of
          None \<Rightarrow> Some (refuse s1)
        | Some p \<Rightarrow>
            let m2 = m1\<lparr>om_length := max (om_length m1) (of_nat (pk_size p))\<rparr>
            in if \<not> validate_operation_metadata m2 s1 then Some (refuse s1)
               else start_request now m2 p (authorize_job (ucast (om_job_id m2)) s1))"

section \<open>Retries\<close>

definition next_retry :: "request_state \<Rightarrow> retry_trigger \<Rightarrow> retry_state option \<Rightarrow> retry_state" where
  "next_retry r trigger old = \<lparr>ry_meta = rq_meta r, ry_packet = rq_packet r, ry_waiting = False,
     ry_count = rq_retries r + 1, ry_next = (case old of None \<Rightarrow> 0 | Some y \<Rightarrow> ry_next y), ry_attempt = rq_attempt r,
     ry_trigger = trigger, ry_event = (case old of None \<Rightarrow> None | Some y \<Rightarrow> ry_event y)\<rparr>"

definition await_retry :: "retry_trigger \<Rightarrow> request_state \<Rightarrow> request_state" where
  "await_retry trigger r = r\<lparr>rq_retries := rq_retries r + 1, rq_trigger := trigger, rq_exhausted := False,
     rq_waiting := False, rq_started := False, rq_pending := 0, rq_deadline := 0, rq_waiting_attempt := 0,
     rq_timeout_retries := (if trigger = RESPONSE_TIMEOUT then rq_timeout_retries r + 1 else rq_timeout_retries r),
     rq_no_match_retries := (if trigger = NO_MATCH_TRIGGER then rq_no_match_retries r + 1 else rq_no_match_retries r)\<rparr>"

definition schedule_retry :: "ns \<Rightarrow> request_key \<Rightarrow> retry_trigger \<Rightarrow> ses \<Rightarrow> ses" where
  "schedule_retry now k trigger s = (case request_of k s of
     None \<Rightarrow> s
   | Some r \<Rightarrow>
       let y = next_retry r trigger (map_of (se_retries s) k);
           s1 = (put_request k (await_retry trigger r) s)\<lparr>se_retries := AList.update k y (se_retries s)\<rparr>
       in if Max_RTO_Retx_Cnt < ry_count y
          then fail_request now k RC_INTERNAL_ERROR
            (if trigger = RESPONSE_TIMEOUT then RESPONSE_TIMEOUT_EXHAUSTED else RETRY_EXHAUSTED)
            (change_request k (\<lambda>r. r\<lparr>rq_exhausted := True\<rparr>) s1)
          else s1\<lparr>se_retries := AList.update k (y\<lparr>ry_meta := (ry_meta y)\<lparr>om_is_retry := True\<rparr>,
                 ry_next := now_ms now + now_ms (se_retry_timeout s),
                 ry_event := Some (now + se_retry_timeout s)\<rparr>) (se_retries s)\<rparr>)"

text \<open>\<open>ExecuteRetry\<close> runs as the scheduled event, which is then no longer pending.\<close>

definition after_retry :: "request_key \<Rightarrow> ses \<Rightarrow> ses" where
  "after_retry k s = (case map_of (se_retries s) k of
     None \<Rightarrow> s
   | Some y \<Rightarrow> s\<lparr>se_retries := AList.update k (case request_of k s of
         None \<Rightarrow> y\<lparr>ry_waiting := False\<rparr>
       | Some r \<Rightarrow> y\<lparr>ry_waiting := rq_waiting r, ry_next := rq_deadline r, ry_attempt := rq_attempt r\<rparr>) (se_retries s)\<rparr>)"

definition execute_retry :: "ns \<Rightarrow> request_key \<Rightarrow> ses \<Rightarrow> ses option" where
  "execute_retry now k s = (case map_of (se_retries s) k of
     None \<Rightarrow> Some s
   | Some y \<Rightarrow>
       if (case request_of k s of None \<Rightarrow> False | Some r \<Rightarrow> rq_attempt r \<noteq> ry_attempt y)
       then Some (bump (\<lambda>c. c\<lparr>sc_stale_retries := sc_stale_retries c + 1\<rparr>)
                    (s\<lparr>se_retries := AList.delete k (se_retries s)\<rparr>))
       else map_option (\<lambda>(_, s1). after_retry k s1)
              (process_send_request now (ry_meta y) (Some (ry_packet y))
                 (s\<lparr>se_retries := AList.update k (y\<lparr>ry_event := None\<rparr>) (se_retries s)\<rparr>)))"

section \<open>Waking a blocked queue\<close>

text \<open>\<open>DrainBlockedPeerQueue\<close>: the loop, and the event that starts it.\<close>

partial_function (option) drain_loop :: "ns \<Rightarrow> u32 \<Rightarrow> ses \<Rightarrow> ses option" where
  "drain_loop now peer s = (case map_of (se_blocked s) peer of
     None \<Rightarrow> Some s
   | Some q \<Rightarrow> (case bq_requests q of
       [] \<Rightarrow> Some s
     | k # _ \<Rightarrow> (case request_of k s of
         None \<Rightarrow> drain_loop now peer (remove_blocked k s)
       | Some r \<Rightarrow>
           if rq_terminal r then drain_loop now peer (remove_blocked k s)
           else (case dispatch_request_packets now k s of
               None \<Rightarrow> None
             | Some (ok, s1) \<Rightarrow>
                 if \<not> ok then drain_loop now peer (handle_dispatch_failure now k s1)
                 else (case request_of k s1 of
                     None \<Rightarrow> drain_loop now peer s1
                   | Some r1 \<Rightarrow> if rq_linked r1 \<or> rq_blocked r1 then Some s1
                       else drain_loop now peer (complete_unanswered now k s1))))))"

declare drain_loop.simps [code]

definition drain_blocked_peer_queue :: "ns \<Rightarrow> u32 \<Rightarrow> ses \<Rightarrow> ses option" where
  "drain_blocked_peer_queue now peer s = (case map_of (se_blocked s) peer of
     None \<Rightarrow> Some s
   | Some q \<Rightarrow> drain_loop now peer
       (s\<lparr>se_blocked := AList.update peer (q\<lparr>bq_wakeup := False\<rparr>) (se_blocked s)\<rparr>))"

end
