(* ===== verification/NetDevice.thy ===== *)
theory NetDevice
  imports FabricChannel SesDispatch PdsManagerProps
begin

text \<open>
  \<open>SoftUeNetDevice\<close> (\<open>model/network/soft-ue-net-device.cc\<close>): the device between an application, the
  semantic sublayer and the fabric. The callbacks to the application are a log; the packet that
  \<open>ReceivePacket\<close> hands to the \<open>PdsManager\<close> is its result. The latency average and the statistics event,
  which only report, are left out.
\<close>

unbundle bit_operations_syntax

section \<open>State\<close>

text \<open>A \<open>Mac48Address\<close>.\<close>

type_synonym mac_address = "u8 \<times> u8 \<times> u8 \<times> u8 \<times> u8 \<times> u8"

record device_config =
  dc_address :: mac_address
  dc_fep :: u32
  dc_max_packet :: u16

text \<open>\<open>SoftUeStats\<close>, what the device counts.\<close>

record device_stats =
  dt_rx_bytes :: u64
  dt_tx_bytes :: u64
  dt_rx_packets :: u64
  dt_tx_packets :: u64
  dt_dropped :: u64
  dt_activity :: ns

text \<open>\<open>sd_id\<close>: the device's identity on its channel. \<open>sd_queue_max\<close>: \<open>MaxSize\<close> of the queue, in packets.
  \<open>sd_callback\<close>: whether the application set its callback; \<open>sd_delivered\<close>: the calls of it.\<close>

record ue_device =
  sd_id :: nat
  sd_address :: mac_address
  sd_mtu :: u16
  sd_link_up :: bool
  sd_fep :: u32
  sd_config :: device_config
  sd_channel :: bool
  sd_ses :: "ses option"
  sd_stats :: device_stats
  sd_queue :: "packet list"
  sd_queue_max :: nat
  sd_callback :: bool
  sd_delivered :: "(packet \<times> mac_address) list"
  sd_link_changes :: nat

definition new_device :: "nat \<Rightarrow> device_config \<Rightarrow> ue_device" where
  "new_device i config = \<lparr>sd_id = i, sd_address = (0, 0, 0, 0, 0, 0), sd_mtu = 1500, sd_link_up = False, sd_fep = 1,
     sd_config = config, sd_channel = False, sd_ses = None,
     sd_stats = \<lparr>dt_rx_bytes = 0, dt_tx_bytes = 0, dt_rx_packets = 0, dt_tx_packets = 0, dt_dropped = 0, dt_activity = 0\<rparr>,
     sd_queue = [], sd_queue_max = 100, sd_callback = False, sd_delivered = [], sd_link_changes = 0\<rparr>"

definition set_link_up :: "bool \<Rightarrow> ue_device \<Rightarrow> ue_device" where
  "set_link_up up d = (if sd_link_up d \<noteq> up then d\<lparr>sd_link_up := up, sd_link_changes := sd_link_changes d + 1\<rparr> else d)"

text \<open>\<open>stack\<close>: the managers that \<open>InitializeProtocolStack\<close> creates when there are none.\<close>

definition device_initialize :: "device_config \<Rightarrow> ses \<Rightarrow> ue_device \<Rightarrow> ue_device" where
  "device_initialize config stack d = set_link_up True (d\<lparr>sd_config := config, sd_address := dc_address config,
     sd_fep := dc_fep config, sd_mtu := dc_max_packet config,
     sd_ses := (case sd_ses d of None \<Rightarrow> Some stack | Some s \<Rightarrow> Some s)\<rparr>)"

definition update_configuration :: "device_config \<Rightarrow> ue_device \<Rightarrow> ue_device" where
  "update_configuration config d = d\<lparr>sd_config := config, sd_address := dc_address config, sd_fep := dc_fep config\<rparr>"

definition set_device_address :: "mac_address \<Rightarrow> ue_device \<Rightarrow> ue_device" where
  "set_device_address a d = d\<lparr>sd_address := a\<rparr>"

definition set_mtu :: "u16 \<Rightarrow> ue_device \<Rightarrow> bool \<times> ue_device" where
  "set_mtu mtu d =
    (if 0 < mtu then (True, d\<lparr>sd_mtu := mtu,
        sd_config := (if dc_max_packet (sd_config d) < mtu then (sd_config d)\<lparr>dc_max_packet := mtu\<rparr> else sd_config d)\<rparr>)
     else (False, d))"

definition set_max_packet_size :: "u16 \<Rightarrow> ue_device \<Rightarrow> ue_device" where
  "set_max_packet_size n d = d\<lparr>sd_config := (sd_config d)\<lparr>dc_max_packet := n\<rparr>, sd_mtu := n\<rparr>"

definition set_device_channel :: "bool \<Rightarrow> ue_device \<Rightarrow> ue_device" where
  "set_device_channel present d = d\<lparr>sd_channel := present\<rparr>"

definition set_receive_callback :: "bool \<Rightarrow> ue_device \<Rightarrow> ue_device" where
  "set_receive_callback present d = d\<lparr>sd_callback := present\<rparr>"

section \<open>Endpoints and addresses\<close>

definition extract_fep :: "mac_address \<Rightarrow> u16" where
  "extract_fep a = (case a of (_, _, _, _, x, y) \<Rightarrow> push_bit 8 (ucast x) OR ucast y)"

definition create_address :: "u32 \<Rightarrow> ue_device \<Rightarrow> mac_address" where
  "create_address fep d = (case sd_address d of (a, b, c, e, _, _) \<Rightarrow> (a, b, c, e, ucast (drop_bit 8 fep AND 0xFF), ucast (fep AND 0xFF)))"

section \<open>Sending\<close>

definition validate_packet :: "packet option \<Rightarrow> ue_device \<Rightarrow> bool" where
  "validate_packet po d = (case po of
     None \<Rightarrow> False
   | Some p \<Rightarrow> let n = of_nat (pk_size p) :: u32 in n \<noteq> 0 \<and> n \<le> ucast (sd_mtu d))"

definition drop_one :: "ue_device \<Rightarrow> ue_device" where
  "drop_one d = d\<lparr>sd_stats := (sd_stats d)\<lparr>dt_dropped := dt_dropped (sd_stats d) + 1\<rparr>\<rparr>"

text \<open>The metadata that \<open>Send\<close> builds.\<close>

definition send_metadata :: "u32 \<Rightarrow> u32 \<Rightarrow> packet \<Rightarrow> ext_metadata" where
  "send_metadata src dst p = (set_destination_endpoint dst 1 (set_source_endpoint src 1
     (op_metadata.extend default_metadata \<lparr>em_src_node = 0, em_src_endpoint = 0, em_dst_node = 0, em_dst_endpoint = 0\<rparr>)))
     \<lparr>om_length := ucast (of_nat (pk_size p) :: u32)\<rparr>"

definition device_send :: "ns \<Rightarrow> packet option \<Rightarrow> mac_address \<Rightarrow> ue_device \<Rightarrow> (bool \<times> ue_device) option" where
  "device_send now po dest d =
    (if \<not> sd_link_up d \<or> \<not> validate_packet po d \<or> extract_fep dest = 0 then Some (False, drop_one d)
     else (case sd_ses d of
         None \<Rightarrow> Some (False, drop_one d)
       | Some s \<Rightarrow> map_option (\<lambda>(ok, s'). let d' = d\<lparr>sd_ses := Some s'\<rparr> in (ok, if ok then d' else drop_one d'))
           (process_send_request now (send_metadata (sd_fep d) (ucast (extract_fep dest)) (the po)) po s)))"

text \<open>\<open>TransmitToChannel\<close>, with the channel's part of it (\<open>lost\<close>, \<open>late\<close>: the channel's random draws).\<close>

definition transmit_to_channel ::
  "ns \<Rightarrow> (nat \<Rightarrow> bool) \<Rightarrow> (nat \<Rightarrow> bool) \<Rightarrow> fabric_frame option \<Rightarrow> u32 \<Rightarrow> u32 \<Rightarrow> ue_device \<times> channel \<Rightarrow> (bool \<times> ue_device \<times> channel) option" where
  "transmit_to_channel now lost late po src dst st =
    (let (d, c) = st in case po of
       None \<Rightarrow> Some (False, d, c)
     | Some f \<Rightarrow>
         if \<not> sd_channel d then Some (False, d, c)
         else map_option (\<lambda>c'. (True, d\<lparr>sd_stats := (sd_stats d)
               \<lparr>dt_tx_packets := dt_tx_packets (sd_stats d) + 1,
                dt_tx_bytes := dt_tx_bytes (sd_stats d) + of_nat (pk_size (fr_packet f)), dt_activity := now\<rparr>\<rparr>, c'))
              (transmit now lost late f (sd_id d) src dst c))"

section \<open>Receiving\<close>

text \<open>\<open>ReceivePacket\<close>; the result is what the \<open>PdsManager\<close> is given.\<close>

definition device_receive :: "packet \<Rightarrow> u32 \<Rightarrow> u32 \<Rightarrow> ue_device \<Rightarrow> (packet \<times> u32) option \<times> ue_device" where
  "device_receive p src dst d =
    (if dst \<noteq> sd_fep d then (None, d) else if sd_ses d = None then (None, drop_one d) else (Some (p, src), d))"

text \<open>\<open>ProcessReceiveQueue\<close>: the loop ends when the queue is empty.\<close>

definition process_receive_queue :: "ue_device \<Rightarrow> ue_device" where
  "process_receive_queue d = d\<lparr>sd_queue := [],
     sd_delivered := sd_delivered d @ (if sd_callback d then map (\<lambda>p. (p, create_address (sd_fep d) d)) (sd_queue d) else [])\<rparr>"

definition deliver_received_packet :: "ns \<Rightarrow> packet option \<Rightarrow> ue_device \<Rightarrow> ue_device" where
  "deliver_received_packet now po d = (case po of
     None \<Rightarrow> d
   | Some p \<Rightarrow>
       let t = sd_stats d;
           d1 = d\<lparr>sd_stats := t\<lparr>dt_rx_packets := dt_rx_packets t + 1, dt_rx_bytes := dt_rx_bytes t + of_nat (pk_size p),
             dt_activity := now\<rparr>\<rparr>
       in if sd_queue_max d1 < length (sd_queue d1) + 1 then drop_one d1
          else process_receive_queue (d1\<lparr>sd_queue := sd_queue d1 @ [p]\<rparr>))"

section \<open>What a device reaches\<close>

lemma byte_mask: "(0xFF :: u32) = mask 8"
  by (simp add: mask_eq_exp_minus_1)

lemma address_roundtrip: "extract_fep (create_address fep d) = ucast fep"
proof -
  have "push_bit 8 (ucast (ucast (drop_bit 8 fep AND 0xFF) :: u8)) OR ucast (ucast (fep AND 0xFF) :: u8) = (ucast fep :: u16)"
    unfolding byte_mask by (rule bit_word_eqI) (auto simp: bit_simps)
  then show ?thesis by (simp add: extract_fep_def create_address_def split: prod.split)
qed

lemma short_endpoint: "ucast (ucast fep :: u16) = fep mod 0x10000" for fep :: u32
  by (simp add: unsigned_ucast_eq take_bit_eq_mod)

text \<open>
  The address of an endpoint names its number modulo 65536: a packet that may be sent goes to the semantic
  sublayer for exactly that endpoint, and is dropped if it is 0. So an endpoint can be reached through its
  address exactly if its number is below 65536.
\<close>

theorem send_reaches_endpoint:
  assumes "sd_link_up d" "pk_size p \<noteq> 0" "pk_size p \<le> unat (sd_mtu d)" "sd_ses d = Some s"
  shows "device_send now (Some p) (create_address fep other) d =
      (if fep mod 0x10000 = 0 then Some (False, drop_one d)
       else map_option (\<lambda>(ok, s'). (ok, if ok then d\<lparr>sd_ses := Some s'\<rparr> else drop_one (d\<lparr>sd_ses := Some s'\<rparr>)))
         (process_send_request now (send_metadata (sd_fep d) (fep mod 0x10000) p) (Some p) s)) \<and>
    (fep mod 0x10000 = fep \<longleftrightarrow> fep < 0x10000)"
proof -
  have b: "unat (sd_mtu d) < 0x10000" using unsigned_less [of "sd_mtu d", where ?'a = nat] by simp
  then have n: "unat (of_nat (pk_size p) :: u32) = pk_size p" using assms(3) by (simp add: unat_of_nat)
  have m: "unat (ucast (sd_mtu d) :: u32) = unat (sd_mtu d)" using b by (simp add: unsigned_ucast_eq take_bit_eq_mod)
  have v: "validate_packet (Some p) d"
    using assms(2,3) n m by (auto simp: validate_packet_def Let_def word_le_nat_alt unat_eq_zero [symmetric])
  have z: "(ucast fep :: u16) = 0 \<longleftrightarrow> fep mod 0x10000 = 0"
    unfolding short_endpoint [symmetric] by transfer simp
  have "unat fep mod 0x10000 = unat fep \<longleftrightarrow> unat fep < 0x10000"
    by (metis mod_less mod_less_divisor zero_less_numeral)
  then have "fep mod 0x10000 = fep \<longleftrightarrow> fep < 0x10000"
    by (simp add: word_less_nat_alt unat_mod word_unat_eq_iff)
  then show ?thesis using v z assms by (simp add: device_send_def address_roundtrip short_endpoint Let_def)
qed

section \<open>What the application gets\<close>

text \<open>A run of the device; \<open>heard\<close>: the packets delivered to it while the application's callback was set.\<close>

inductive device_run :: "ue_device \<Rightarrow> packet list \<Rightarrow> bool" where
  start: "device_run (new_device i config) []"
| initialize: "device_run d heard \<Longrightarrow> device_run (device_initialize config stack d) heard"
| configure: "device_run d heard \<Longrightarrow> device_run (update_configuration config d) heard"
| address: "device_run d heard \<Longrightarrow> device_run (set_device_address a d) heard"
| mtu: "device_run d heard \<Longrightarrow> device_run (snd (set_mtu m d)) heard"
| max_size: "device_run d heard \<Longrightarrow> device_run (set_max_packet_size m d) heard"
| link: "device_run d heard \<Longrightarrow> device_run (set_link_up up d) heard"
| channel: "device_run d heard \<Longrightarrow> device_run (set_device_channel present d) heard"
| callback: "device_run d heard \<Longrightarrow> device_run (set_receive_callback present d) heard"
| send: "device_run d heard \<Longrightarrow> device_send now po dest d = Some (ok, d') \<Longrightarrow> device_run d' heard"
| transmit: "device_run d heard \<Longrightarrow> transmit_to_channel now lost late fo src dst (d, c) = Some (ok, d', c') \<Longrightarrow> device_run d' heard"
| receive: "device_run d heard \<Longrightarrow> device_receive p src dst d = (handed, d') \<Longrightarrow> device_run d' heard"
| stack: "device_run d heard \<Longrightarrow> device_run (d\<lparr>sd_ses := s\<rparr>) heard"
| deliver: "device_run d heard \<Longrightarrow>
    device_run (deliver_received_packet now (Some p) d) (if sd_callback d then heard @ [p] else heard)"

definition app_view :: "ue_device \<Rightarrow> packet list \<times> packet list \<times> nat" where
  "app_view d = (sd_queue d, map fst (sd_delivered d), sd_queue_max d)"

lemma view_kept [simp]: "app_view (device_initialize config stack d) = app_view d" "app_view (update_configuration config d) = app_view d"
  "app_view (set_device_address a d) = app_view d" "app_view (snd (set_mtu m d)) = app_view d"
  "app_view (set_max_packet_size m d) = app_view d" "app_view (set_link_up up d) = app_view d"
  "app_view (set_device_channel b d) = app_view d" "app_view (set_receive_callback b d) = app_view d"
  "app_view (drop_one d) = app_view d" "app_view (d\<lparr>sd_ses := so\<rparr>) = app_view d"
  by (simp_all add: app_view_def device_initialize_def update_configuration_def set_device_address_def set_mtu_def
      set_max_packet_size_def set_link_up_def set_device_channel_def set_receive_callback_def drop_one_def)

lemma view_send: "device_send now po dest d = Some (ok, d') \<Longrightarrow> app_view d' = app_view d"
  by (auto simp: device_send_def Let_def split: if_splits option.splits)

lemma view_transmit: "transmit_to_channel now lost late fo src dst (d, c) = Some (ok, d', c') \<Longrightarrow> app_view d' = app_view d"
  by (auto simp: transmit_to_channel_def app_view_def split: if_splits option.splits)

lemma view_receive: "device_receive p src dst d = (handed, d') \<Longrightarrow> app_view d' = app_view d"
  by (auto simp: device_receive_def split: if_splits)

text \<open>
  The receive queue of a device never holds a packet between two events: each packet that is delivered to it
  reaches the application at once, in order and exactly once, if the application's callback is set, and is
  lost if it is not.
\<close>

theorem delivered_at_once:
  assumes "device_run d heard"
  shows "sd_queue d = [] \<and> map fst (sd_delivered d) = heard"
proof -
  have "app_view d = ([], heard, 100)" using assms
  proof (induction rule: device_run.induct)
    case (start i config)
    then show ?case by (simp add: app_view_def new_device_def)
  next
    case (deliver d heard now p)
    then show ?case by (simp add: app_view_def deliver_received_packet_def process_receive_queue_def Let_def comp_def)
  qed (simp_all add: view_send view_transmit view_receive)
  then show ?thesis by (simp add: app_view_def)
qed

lemma callback_kept: "sd_callback (deliver_received_packet now po d) = sd_callback d"
  by (simp add: deliver_received_packet_def process_receive_queue_def drop_one_def Let_def split: option.split)

definition demo_ue :: ue_device where
  "demo_ue = device_initialize \<lparr>dc_address = (0, 0, 0, 0, 0, 1), dc_fep = 1, dc_max_packet = 1500\<rparr>
     (new_ses (new_manager default_limits demo_rx demo_plane) None)
     (new_device 0 \<lparr>dc_address = (0, 0, 0, 0, 0, 1), dc_fep = 1, dc_max_packet = 1500\<rparr>)"

lemma send_reaches_endpoint_witness:
  "device_send 0 (Some (empty_packet\<lparr>pk_payload := [1]\<rparr>)) (create_address 0x10000 demo_ue) demo_ue = Some (False, drop_one demo_ue)"
proof -
  have "sd_link_up demo_ue" "sd_mtu demo_ue = 1500" "\<exists>s. sd_ses demo_ue = Some s"
    by (simp_all add: demo_ue_def device_initialize_def set_link_up_def new_device_def)
  then show ?thesis
    using send_reaches_endpoint [where d = demo_ue and p = "empty_packet\<lparr>pk_payload := [1]\<rparr>" and fep = "0x10000" and other = demo_ue and now = "0"]
    by (auto simp: pk_size_def empty_packet_def)
qed

lemma delivered_at_once_witness:
  "\<exists>d :: ue_device. map fst (sd_delivered d) = [empty_packet, empty_packet\<lparr>pk_payload := [1]\<rparr>] \<and> sd_queue d = []"
proof -
  let ?d = "set_receive_callback True demo_ue"
  have r: "device_run ?d []" unfolding demo_ue_def
    by (intro device_run.callback device_run.initialize device_run.start)
  have c: "sd_callback ?d" by (simp add: set_receive_callback_def)
  note device_run.deliver [OF device_run.deliver [OF r, of 0 empty_packet], of 0 "empty_packet\<lparr>pk_payload := [1]\<rparr>"]
  then have "device_run (deliver_received_packet 0 (Some (empty_packet\<lparr>pk_payload := [1]\<rparr>)) (deliver_received_packet 0 (Some empty_packet) ?d))
      [empty_packet, empty_packet\<lparr>pk_payload := [1]\<rparr>]" by (simp add: c callback_kept)
  then obtain d where d: "device_run d [empty_packet, empty_packet\<lparr>pk_payload := [1]\<rparr>]" by blast
  show ?thesis by (rule exI [of _ d]) (use delivered_at_once [OF d] in simp)
qed

end
