(* ===== verification/Cbfc.thy ===== *)
theory Cbfc
  imports Wire
begin

text \<open>
  Credit-based flow control of a SUE link (\<open>sue-sim-module/model/sue-cbfc.cc\<close>,
  \<open>sue-cbfc-header.cc\<close>): the credit tables of a port, the conversion of packet sizes to
  credits, the batched return of credits and the credit packet. The net device's two uses of the
  manager (a received data packet, a received credit packet) are at the end. The theory
  \<open>CbfcLink\<close> composes two ports over a wire.
\<close>

section \<open>State\<close>

type_synonym mac48 = "48 word"
type_synonym vc_id = u8

text \<open>
  \<open>std::map<Mac48Address, std::map<uint8_t, uint32_t>>\<close>, keyed by the pair: an inner map is
  only ever created together with one of its entries.
\<close>

type_synonym credit_table = "mac48 \<times> vc_id \<rightharpoonup> u32"

record cbfc =
  cb_initialized :: bool
  cb_enabled :: bool
  cb_tx :: credit_table
  cb_to_return :: credit_table
  cb_initial :: u32
  cb_num_vcs :: u8
  cb_batch :: u32
  cb_dynamic :: bool
  cb_base :: u32
  cb_transaction :: u32
  cb_header :: u32
  cb_bytes_per_credit :: u32
  cb_callbacks :: bool
  cb_generate_delay :: ns
  cb_protocol :: u16

text \<open>The constructor \<open>CbfcManager::CbfcManager\<close>.\<close>

definition new_cbfc :: cbfc where
  "new_cbfc = \<lparr>cb_initialized = False, cb_enabled = False, cb_tx = Map.empty, cb_to_return = Map.empty,
     cb_initial = 20, cb_num_vcs = 4, cb_batch = 1, cb_dynamic = True, cb_base = 1, cb_transaction = 256,
     cb_header = 52, cb_bytes_per_credit = 256, cb_callbacks = False, cb_generate_delay = 0, cb_protocol = 0\<rparr>"

definition configure :: "u8 \<Rightarrow> u32 \<Rightarrow> bool \<Rightarrow> u32 \<Rightarrow> cbfc \<Rightarrow> cbfc" where
  "configure num_vcs initial enable batch c = c\<lparr>cb_num_vcs := num_vcs, cb_initial := initial,
     cb_enabled := enable, cb_batch := batch\<rparr>"

definition initialize_basic :: "cbfc \<Rightarrow> cbfc" where
  "initialize_basic c =
    (if cb_initialized c then c
     else c\<lparr>cb_tx := Map.empty, cb_to_return := Map.empty, cb_initialized := True\<rparr>)"

text \<open>The callbacks are arguments of the operations that call them; the flag records that they are set.\<close>

definition set_callbacks :: "ns \<Rightarrow> u16 \<Rightarrow> cbfc \<Rightarrow> cbfc" where
  "set_callbacks delay protocol c = c\<lparr>cb_generate_delay := delay, cb_protocol := protocol, cb_callbacks := True\<rparr>"

section \<open>Peers\<close>

definition add_peer_vc :: "mac48 \<Rightarrow> u32 \<Rightarrow> vc_id \<Rightarrow> cbfc \<Rightarrow> cbfc" where
  "add_peer_vc peer credits vc c = c\<lparr>cb_tx := (cb_tx c)((peer, vc) \<mapsto> credits),
     cb_to_return := (cb_to_return c)((peer, vc) \<mapsto> 0)\<rparr>"

definition add_peer_device :: "mac48 \<Rightarrow> u32 \<Rightarrow> cbfc \<Rightarrow> cbfc" where
  "add_peer_device peer initial c0 =
    (let c = (if cb_initialized c0 then c0 else initialize_basic c0);
         credits = (if initial = 0 then cb_initial c else initial)
     in fold (add_peer_vc peer credits) (map of_nat [0..<unat (cb_num_vcs c)]) c)"

text \<open>The virtual channels that such a loop visits.\<close>

lemma vcs_below: "set (map of_nat [0..<unat k]) = {v :: u8. v < k}"
proof (rule set_eqI)
  fix v :: u8
  show "v \<in> set (map of_nat [0..<unat k]) \<longleftrightarrow> v \<in> {v. v < k}"
    by (auto simp: word_less_nat_alt unat_of_nat image_iff intro!: bexI [of _ "unat v"])
qed

text \<open>
  \<open>InitializePeerDeviceCredits\<close>: \<open>node\<close> is the list of the node's devices (a null device is
  \<open>None\<close>), or \<open>None\<close> when the callback returns no node.
\<close>

fun add_switch_peers :: "mac48 \<Rightarrow> u32 \<Rightarrow> mac48 option list \<Rightarrow> cbfc \<Rightarrow> cbfc" where
  "add_switch_peers local credits [] c = c"
| "add_switch_peers local credits (None # devices) c = add_switch_peers local credits devices c"
| "add_switch_peers local credits (Some mac # devices) c =
    (if mac = local then add_switch_peers local credits devices c
     else add_switch_peers local credits devices (add_peer_device mac credits c))"

definition initialize_peer_device_credits ::
  "mac48 \<Rightarrow> bool \<Rightarrow> u32 \<Rightarrow> mac48 option list option \<Rightarrow> mac48 \<Rightarrow> cbfc \<Rightarrow> cbfc" where
  "initialize_peer_device_credits remote is_switch switch_credits node local c0 =
    (let c = (if cb_initialized c0 then c0 else initialize_basic c0);
         c1 = add_peer_device remote (cb_initial c) c
     in if is_switch then
          (case node of Some devices \<Rightarrow> add_switch_peers local switch_credits devices c1 | None \<Rightarrow> c1)
        else c1)"

definition initialize_cbfc ::
  "u8 \<Rightarrow> u32 \<Rightarrow> bool \<Rightarrow> u32 \<Rightarrow> ns \<Rightarrow> u16 \<Rightarrow> mac48 \<Rightarrow> bool \<Rightarrow> u32 \<Rightarrow> mac48 option list option \<Rightarrow> mac48 \<Rightarrow> cbfc \<Rightarrow> cbfc" where
  "initialize_cbfc num_vcs initial enable batch delay protocol remote is_switch switch_credits node local c =
    initialize_peer_device_credits remote is_switch switch_credits node local
      (initialize_basic (set_callbacks delay protocol (configure num_vcs initial enable batch c)))"

section \<open>Transmit credits\<close>

definition get_tx_credits :: "cbfc \<Rightarrow> mac48 \<Rightarrow> vc_id \<Rightarrow> u32" where
  "get_tx_credits c mac vc = (case cb_tx c (mac, vc) of Some n \<Rightarrow> n | None \<Rightarrow> 0)"

definition decrement_tx_credit :: "mac48 \<Rightarrow> vc_id \<Rightarrow> cbfc \<Rightarrow> bool \<times> cbfc" where
  "decrement_tx_credit mac vc c = (case cb_tx c (mac, vc) of
     Some n \<Rightarrow> if 0 < n then (True, c\<lparr>cb_tx := (cb_tx c)((mac, vc) \<mapsto> n - 1)\<rparr>) else (False, c)
   | None \<Rightarrow> (False, c))"

definition decrement_tx_credits :: "mac48 \<Rightarrow> vc_id \<Rightarrow> u32 \<Rightarrow> cbfc \<Rightarrow> bool \<times> cbfc" where
  "decrement_tx_credits mac vc credits c = (case cb_tx c (mac, vc) of
     Some n \<Rightarrow> if credits \<le> n then (True, c\<lparr>cb_tx := (cb_tx c)((mac, vc) \<mapsto> n - credits)\<rparr>) else (False, c)
   | None \<Rightarrow> (False, c))"

definition add_tx_credits :: "mac48 \<Rightarrow> vc_id \<Rightarrow> u32 \<Rightarrow> cbfc \<Rightarrow> cbfc" where
  "add_tx_credits mac vc credits c =
    (if 0 < credits then c\<lparr>cb_tx := (cb_tx c)((mac, vc) \<mapsto> get_tx_credits c mac vc + credits)\<rparr> else c)"

definition set_dynamic_credit_mode :: "bool \<Rightarrow> u32 \<Rightarrow> u32 \<Rightarrow> u32 \<Rightarrow> cbfc \<Rightarrow> cbfc" where
  "set_dynamic_credit_mode enable base transaction header c = c\<lparr>cb_dynamic := enable, cb_base := base,
     cb_transaction := transaction, cb_header := header\<rparr>"

definition set_advanced_credit_calculation :: "u32 \<Rightarrow> cbfc \<Rightarrow> cbfc" where
  "set_advanced_credit_calculation bytes c = c\<lparr>cb_bytes_per_credit := bytes\<rparr>"

text \<open>
  \<open>CalculateCreditsForPacket\<close>, in 32 bits. A \<open>bytesPerCredit\<close> of 0 divides by zero in the code
  when the dynamic mode is on; the theorems exclude it by hypothesis.
\<close>

definition calculate_credits_for_packet :: "cbfc \<Rightarrow> u32 \<Rightarrow> u32" where
  "calculate_credits_for_packet c bytes =
    (if \<not> cb_dynamic c then cb_base c
     else max ((bytes + cb_bytes_per_credit c - 1) div cb_bytes_per_credit c) (cb_base c))"

definition has_enough_credits :: "cbfc \<Rightarrow> mac48 \<Rightarrow> vc_id \<Rightarrow> u32 \<Rightarrow> bool" where
  "has_enough_credits c mac vc bytes = (case cb_tx c (mac, vc) of
     Some n \<Rightarrow> calculate_credits_for_packet c bytes \<le> n | None \<Rightarrow> False)"

definition consume_dynamic_credits :: "mac48 \<Rightarrow> vc_id \<Rightarrow> u32 \<Rightarrow> cbfc \<Rightarrow> bool \<times> cbfc" where
  "consume_dynamic_credits mac vc bytes c =
    decrement_tx_credits mac vc (calculate_credits_for_packet c bytes) c"

section \<open>Credits to return\<close>

definition get_credits_to_return :: "cbfc \<Rightarrow> mac48 \<Rightarrow> vc_id \<Rightarrow> u32" where
  "get_credits_to_return c peer vc = (case cb_to_return c (peer, vc) of Some n \<Rightarrow> n | None \<Rightarrow> 0)"

definition clear_credits_to_return :: "mac48 \<Rightarrow> vc_id \<Rightarrow> cbfc \<Rightarrow> u32 \<times> cbfc" where
  "clear_credits_to_return peer vc c = (case cb_to_return c (peer, vc) of
     Some n \<Rightarrow> (n, c\<lparr>cb_to_return := (cb_to_return c)((peer, vc) \<mapsto> 0)\<rparr>)
   | None \<Rightarrow> (0, c))"

definition handle_credit_return :: "mac48 \<Rightarrow> vc_id \<Rightarrow> u32 \<Rightarrow> cbfc \<Rightarrow> cbfc" where
  "handle_credit_return source vc bytes c =
    (if cb_enabled c then
       c\<lparr>cb_to_return := (cb_to_return c)((source, vc) \<mapsto>
           get_credits_to_return c source vc + calculate_credits_for_packet c bytes)\<rparr>
     else c)"

section \<open>The credit packet\<close>

text \<open>\<open>SueCbfcHeader\<close>: two bytes, the virtual channel and the number of credits.\<close>

record cbfc_header =
  ch_vc :: u8
  ch_credits :: u8

definition serialize_cbfc_header :: "cbfc_header \<Rightarrow> u8 list" where
  "serialize_cbfc_header h = write_u8 (ch_vc h) @ write_u8 (ch_credits h)"

definition deserialize_cbfc_header :: "u8 list \<Rightarrow> (cbfc_header \<times> u8 list) option" where
  "deserialize_cbfc_header bs = (case read_u8 bs of
     Some (vc, bs1) \<Rightarrow> (case read_u8 bs1 of
        Some (n, bs2) \<Rightarrow> Some (\<lparr>ch_vc = vc, ch_credits = n\<rparr>, bs2) | None \<Rightarrow> None)
   | None \<Rightarrow> None)"

lemma cbfc_header_roundtrip: "deserialize_cbfc_header (serialize_cbfc_header h @ rest) = Some (h, rest)"
  by (simp add: deserialize_cbfc_header_def serialize_cbfc_header_def read_write_u8)

text \<open>A credit packet: the Ethernet addresses and the CBFC header in front of them.\<close>

record credit_packet =
  cp_source :: mac48
  cp_dest :: mac48
  cp_header :: cbfc_header

text \<open>
  \<open>CreditReturn\<close>: \<open>SetCredits\<close> takes a \<open>uint8_t\<close>, so the count is truncated to 8 bits; the
  packet is handed to the send callback after the generation delay, and the table is cleared.
\<close>

definition credit_return :: "mac48 \<Rightarrow> mac48 \<Rightarrow> vc_id \<Rightarrow> cbfc \<Rightarrow> credit_packet option \<times> cbfc" where
  "credit_return local target vc c =
    (if \<not> cb_enabled c \<or> \<not> cb_callbacks c then (None, c)
     else let credits = get_credits_to_return c target vc
       in if credits < cb_batch c then (None, c)
          else (Some \<lparr>cp_source = local, cp_dest = target,
                  cp_header = \<lparr>ch_vc = vc, ch_credits = ucast credits\<rparr>\<rparr>,
                snd (clear_credits_to_return target vc c)))"

section \<open>The net device's uses\<close>

text \<open>
  \<open>PointToPointSueNetDevice::Receive\<close> on a CBFC update: the credits are added for the packet's
  source when there are any. The flag says that \<open>TryTransmit\<close> is scheduled if the transmitter is
  ready.
\<close>

definition receive_credit_packet :: "credit_packet \<Rightarrow> cbfc \<Rightarrow> bool \<times> cbfc" where
  "receive_credit_packet p c =
    (let credits = ucast (ch_credits (cp_header p)) :: u32
     in if 0 < credits then (True, add_tx_credits (cp_source p) (ch_vc (cp_header p)) credits c)
        else (False, c))"

text \<open>
  The end of \<open>ProcessingReceivedPacket\<close> on an endpoint (XPU): \<open>bytes\<close> is the packet's size on
  the wire, of which the PPP header (2 bytes) was removed on reception and the Ethernet header (14
  bytes) just before the credits are counted.
\<close>

definition ppp_header_size :: u32 where "ppp_header_size = 2"
definition ethernet_header_size :: u32 where "ethernet_header_size = 14"

definition process_data_at_endpoint :: "mac48 \<Rightarrow> mac48 \<Rightarrow> vc_id \<Rightarrow> u32 \<Rightarrow> cbfc \<Rightarrow> credit_packet option \<times> cbfc" where
  "process_data_at_endpoint local source vc bytes c =
    credit_return local source vc
      (handle_credit_return source vc (bytes - ppp_header_size - ethernet_header_size) c)"

text \<open>
  \<open>InitializeCbfc\<close>: what a port makes of its manager before the first packet. The base credit is 1
  and the dynamic mode is on, whatever the configuration.
\<close>

definition prot_cbfc_update :: u16 where "prot_cbfc_update = 0xCBFC"

definition initialize_port ::
  "u8 \<Rightarrow> u32 \<Rightarrow> bool \<Rightarrow> u32 \<Rightarrow> ns \<Rightarrow> mac48 \<Rightarrow> bool \<Rightarrow> u32 \<Rightarrow> mac48 option list option \<Rightarrow> mac48 \<Rightarrow>
   u32 \<Rightarrow> u32 \<Rightarrow> u32 \<Rightarrow> cbfc \<Rightarrow> cbfc" where
  "initialize_port num_vcs initial enable batch delay remote is_switch switch_credits node local
     transaction header bytes c =
    (if cb_initialized c then c
     else set_advanced_credit_calculation bytes (set_dynamic_credit_mode True 1 transaction header
            (initialize_cbfc num_vcs initial enable batch delay prot_cbfc_update remote is_switch
               switch_credits node local c)))"

end
