(* ===== verification/SueQueue.thy ===== *)
theory SueQueue
  imports Cbfc
begin

text \<open>
  Packets of a SUE device as the stack of headers in front of the body, and the virtual-channel
  queues of \<open>sue-sim-module/model/sue-queue-manager.cc\<close> over ns-3's \<open>DropTailQueue\<close>
  (\<open>network/utils/queue.h\<close>): byte limits, reservations, and what a reservation guarantees.
\<close>

section \<open>Packets\<close>

text \<open>
  The headers the device code adds and removes, outermost first: PPP (the protocol), CBFC, Ethernet
  (source and destination). Behind them is the IP packet, of which the code reads the destination
  and the virtual channel of the SUE header.
\<close>

record sue_tag =
  st_seq :: u32
  st_link_type :: u8

record sue_packet =
  sk_ppp :: "u16 option"
  sk_cbfc :: "cbfc_header option"
  sk_eth :: "(mac48 \<times> mac48) option"
  sk_vc :: vc_id
  sk_body :: u32
  sk_tag :: "sue_tag option"
  sk_id :: nat

text \<open>\<open>Packet::GetSize\<close>.\<close>

definition sk_size :: "sue_packet \<Rightarrow> u32" where
  "sk_size p = sk_body p + (if sk_eth p = None then 0 else ethernet_header_size) +
     (if sk_cbfc p = None then 0 else 2) + (if sk_ppp p = None then 0 else ppp_header_size)"

section \<open>The drop-tail queue\<close>

text \<open>In byte mode; \<open>m_nPackets\<close> is the length of the list.\<close>

record drop_tail =
  dq_items :: "sue_packet list"
  dq_bytes :: u32
  dq_max :: u32

definition new_drop_tail :: "u32 \<Rightarrow> drop_tail" where
  "new_drop_tail limit = \<lparr>dq_items = [], dq_bytes = 0, dq_max = limit\<rparr>"

definition dq_enqueue :: "sue_packet \<Rightarrow> drop_tail \<Rightarrow> bool \<times> drop_tail" where
  "dq_enqueue p q =
    (if dq_max q < dq_bytes q + sk_size p then (False, q)
     else (True, q\<lparr>dq_items := dq_items q @ [p], dq_bytes := dq_bytes q + sk_size p\<rparr>))"

definition dq_dequeue :: "drop_tail \<Rightarrow> sue_packet option \<times> drop_tail" where
  "dq_dequeue q = (case dq_items q of
     [] \<Rightarrow> (None, q)
   | p # ps \<Rightarrow> (Some p, q\<lparr>dq_items := ps, dq_bytes := dq_bytes q - sk_size p\<rparr>))"

section \<open>The queue manager\<close>

record queue_manager =
  qm_initialized :: bool
  qm_num_vcs :: u8
  qm_max_bytes :: u32
  qm_header_size :: u32
  qm_queues :: "vc_id \<rightharpoonup> drop_tail"
  qm_reserved :: "vc_id \<rightharpoonup> u32"

definition new_queue_manager :: queue_manager where
  "new_queue_manager = \<lparr>qm_initialized = False, qm_num_vcs = 4, qm_max_bytes = 1048576, qm_header_size = 0,
     qm_queues = Map.empty, qm_reserved = Map.empty\<rparr>"

definition add_vc_queue :: "vc_id \<Rightarrow> queue_manager \<Rightarrow> queue_manager" where
  "add_vc_queue vc m = m\<lparr>qm_queues := (qm_queues m)(vc \<mapsto> new_drop_tail (qm_max_bytes m)),
     qm_reserved := (qm_reserved m)(vc \<mapsto> 0)\<rparr>"

definition qm_initialize :: "u8 \<Rightarrow> u32 \<Rightarrow> u32 \<Rightarrow> queue_manager \<Rightarrow> queue_manager" where
  "qm_initialize num_vcs limit header m =
    (if qm_initialized m then m
     else (fold add_vc_queue (map of_nat [0..<unat num_vcs])
        (m\<lparr>qm_num_vcs := num_vcs, qm_max_bytes := limit, qm_header_size := header,
           qm_queues := Map.empty, qm_reserved := Map.empty\<rparr>))\<lparr>qm_initialized := True\<rparr>)"

definition get_reserved :: "queue_manager \<Rightarrow> vc_id \<Rightarrow> u32" where
  "get_reserved m vc = (case qm_reserved m vc of Some n \<Rightarrow> n | None \<Rightarrow> 0)"

definition get_vc_available_capacity :: "queue_manager \<Rightarrow> vc_id \<Rightarrow> u32" where
  "get_vc_available_capacity m vc =
    (if qm_num_vcs m \<le> vc then 0
     else (case qm_queues m vc of
        None \<Rightarrow> qm_max_bytes m
      | Some q \<Rightarrow> let used = dq_bytes q + get_reserved m vc
          in if qm_max_bytes m \<le> used then 0 else qm_max_bytes m - used))"

definition reserve_vc_capacity :: "vc_id \<Rightarrow> u32 \<Rightarrow> queue_manager \<Rightarrow> bool \<times> queue_manager" where
  "reserve_vc_capacity vc amount m =
    (if qm_num_vcs m \<le> vc then (False, m)
     else let n = amount + qm_header_size m
       in if n \<le> get_vc_available_capacity m vc
          then (True, m\<lparr>qm_reserved := (qm_reserved m)(vc \<mapsto> get_reserved m vc + n)\<rparr>)
          else (False, m))"

definition release_vc_capacity :: "vc_id \<Rightarrow> u32 \<Rightarrow> queue_manager \<Rightarrow> queue_manager" where
  "release_vc_capacity vc amount m =
    (if qm_num_vcs m \<le> vc then m
     else (case qm_reserved m vc of
        None \<Rightarrow> m
      | Some r \<Rightarrow> let n = amount + qm_header_size m
          in m\<lparr>qm_reserved := (qm_reserved m)(vc \<mapsto> (if n \<le> r then r - n else 0))\<rparr>))"

definition enqueue_to_vc_queue :: "sue_packet \<Rightarrow> vc_id \<Rightarrow> queue_manager \<Rightarrow> bool \<times> queue_manager" where
  "enqueue_to_vc_queue p vc m =
    (if \<not> qm_initialized m then (False, m)
     else (case qm_queues m vc of
        None \<Rightarrow> (False, m)
      | Some q \<Rightarrow> let (ok, q') = dq_enqueue p q in (ok, m\<lparr>qm_queues := (qm_queues m)(vc \<mapsto> q')\<rparr>)))"

definition dequeue_from_vc_queue :: "vc_id \<Rightarrow> queue_manager \<Rightarrow> sue_packet option \<times> queue_manager" where
  "dequeue_from_vc_queue vc m = (case qm_queues m vc of
     None \<Rightarrow> (None, m)
   | Some q \<Rightarrow> let (p, q') = dq_dequeue q in (p, m\<lparr>qm_queues := (qm_queues m)(vc \<mapsto> q')\<rparr>))"

definition is_vc_queue_empty :: "queue_manager \<Rightarrow> vc_id \<Rightarrow> bool" where
  "is_vc_queue_empty m vc = (case qm_queues m vc of None \<Rightarrow> True | Some q \<Rightarrow> dq_items q = [])"

definition get_vc_queue_size :: "queue_manager \<Rightarrow> vc_id \<Rightarrow> u32" where
  "get_vc_queue_size m vc = (case qm_queues m vc of None \<Rightarrow> 0 | Some q \<Rightarrow> of_nat (length (dq_items q)))"

definition get_vc_queue_bytes :: "queue_manager \<Rightarrow> vc_id \<Rightarrow> u32" where
  "get_vc_queue_bytes m vc = (case qm_queues m vc of None \<Rightarrow> 0 | Some q \<Rightarrow> dq_bytes q)"

definition get_first_packet_size :: "queue_manager \<Rightarrow> vc_id \<Rightarrow> u32" where
  "get_first_packet_size m vc = (case qm_queues m vc of
     None \<Rightarrow> 0 | Some q \<Rightarrow> (case dq_items q of [] \<Rightarrow> 0 | p # ps \<Rightarrow> sk_size p))"

section \<open>What a reservation guarantees\<close>

text \<open>The byte counter of a queue counts its packets, without overflow.\<close>

definition dq_ok :: "drop_tail \<Rightarrow> bool" where
  "dq_ok q \<longleftrightarrow> unat (dq_bytes q) = (\<Sum>p\<leftarrow>dq_items q. unat (sk_size p)) \<and> dq_bytes q \<le> dq_max q"

lemma dq_ok_dequeue:
  assumes "dq_ok q"
  shows "dq_ok (snd (dq_dequeue q))" "dq_bytes (snd (dq_dequeue q)) \<le> dq_bytes q" "dq_max (snd (dq_dequeue q)) = dq_max q"
proof -
  have "dq_ok (snd (dq_dequeue q)) \<and> dq_bytes (snd (dq_dequeue q)) \<le> dq_bytes q \<and> dq_max (snd (dq_dequeue q)) = dq_max q"
  proof (cases "dq_items q")
    case (Cons p ps)
    then have b: "unat (dq_bytes q) = unat (sk_size p) + (\<Sum>p\<leftarrow>ps. unat (sk_size p))"
      using assms by (simp add: dq_ok_def)
    then have u: "unat (dq_bytes q - sk_size p) = (\<Sum>p\<leftarrow>ps. unat (sk_size p))"
      by (simp add: unat_sub word_le_nat_alt)
    then show ?thesis
      using Cons assms b by (simp add: dq_dequeue_def dq_ok_def word_le_nat_alt)
  qed (use assms in \<open>simp add: dq_dequeue_def\<close>)
  then show "dq_ok (snd (dq_dequeue q))" "dq_bytes (snd (dq_dequeue q)) \<le> dq_bytes q" "dq_max (snd (dq_dequeue q)) = dq_max q"
    by simp_all
qed

lemma dq_enqueue_room:
  assumes "dq_ok q" "unat (dq_bytes q) + unat (sk_size p) \<le> unat (dq_max q)"
  shows "dq_enqueue p q = (True, q\<lparr>dq_items := dq_items q @ [p], dq_bytes := dq_bytes q + sk_size p\<rparr>)"
    "dq_ok (snd (dq_enqueue p q))" "unat (dq_bytes q + sk_size p) = unat (dq_bytes q) + unat (sk_size p)"
proof -
  have u: "unat (dq_bytes q + sk_size p) = unat (dq_bytes q) + unat (sk_size p)"
    using assms(2) unsigned_less [of "dq_max q", where ?'a = nat] by (intro unat_add_nowrap) simp
  then show "dq_enqueue p q = (True, q\<lparr>dq_items := dq_items q @ [p], dq_bytes := dq_bytes q + sk_size p\<rparr>)"
    "unat (dq_bytes q + sk_size p) = unat (dq_bytes q) + unat (sk_size p)"
    using assms(2) by (simp_all add: dq_enqueue_def word_less_nat_alt)
  then show "dq_ok (snd (dq_enqueue p q))"
    using assms by (simp add: dq_ok_def word_le_nat_alt u)
qed

text \<open>
  The client's use of a port: it reserves, later hands the packet to the port, which queues it, and
  then releases the same amount; a failed send only releases; the transmitter dequeues. The list
  \<open>cq_open\<close> is a ghost: the reservations that are not yet released.
\<close>

record client_queue =
  cq_manager :: queue_manager
  cq_open :: "(vc_id \<times> u32) list"

definition cq_reserve :: "vc_id \<Rightarrow> u32 \<Rightarrow> client_queue \<Rightarrow> client_queue" where
  "cq_reserve vc n k = (let (ok, m) = reserve_vc_capacity vc n (cq_manager k)
     in k\<lparr>cq_manager := m, cq_open := (if ok then (vc, n) # cq_open k else cq_open k)\<rparr>)"

definition cq_send :: "vc_id \<Rightarrow> u32 \<Rightarrow> sue_packet \<Rightarrow> client_queue \<Rightarrow> client_queue" where
  "cq_send vc n p k = k\<lparr>cq_manager := release_vc_capacity vc n (snd (enqueue_to_vc_queue p vc (cq_manager k))),
     cq_open := remove1 (vc, n) (cq_open k)\<rparr>"

definition cq_fail :: "vc_id \<Rightarrow> u32 \<Rightarrow> client_queue \<Rightarrow> client_queue" where
  "cq_fail vc n k = k\<lparr>cq_manager := release_vc_capacity vc n (cq_manager k), cq_open := remove1 (vc, n) (cq_open k)\<rparr>"

definition cq_dequeue :: "vc_id \<Rightarrow> client_queue \<Rightarrow> client_queue" where
  "cq_dequeue vc k = k\<lparr>cq_manager := snd (dequeue_from_vc_queue vc (cq_manager k))\<rparr>"

inductive cq_reachable :: "u8 \<Rightarrow> u32 \<Rightarrow> u32 \<Rightarrow> client_queue \<Rightarrow> bool" for vcs limit header where
  start: "cq_reachable vcs limit header \<lparr>cq_manager = qm_initialize vcs limit header new_queue_manager, cq_open = []\<rparr>"
| reserve: "cq_reachable vcs limit header (cq_reserve vc n k)" if "cq_reachable vcs limit header k"
| send: "cq_reachable vcs limit header (cq_send vc n p k)"
    if "cq_reachable vcs limit header k" "(vc, n) \<in> set (cq_open k)" "sk_size p \<le> n + header"
| fail: "cq_reachable vcs limit header (cq_fail vc n k)"
    if "cq_reachable vcs limit header k" "(vc, n) \<in> set (cq_open k)"
| dequeue: "cq_reachable vcs limit header (cq_dequeue vc k)" if "cq_reachable vcs limit header k"

definition open_bytes :: "u32 \<Rightarrow> vc_id \<Rightarrow> (vc_id \<times> u32) list \<Rightarrow> nat" where
  "open_bytes header vc rs = (\<Sum>r\<leftarrow>rs. if fst r = vc then unat (snd r + header) else 0)"

lemma open_bytes_remove:
  assumes "(vc, n) \<in> set rs"
  shows "open_bytes header v rs = open_bytes header v (remove1 (vc, n) rs) + (if v = vc then unat (n + header) else 0)"
  using assms by (induction rs) (auto simp: open_bytes_def)

text \<open>One virtual channel: its queue, its reserved bytes and the limit.\<close>

definition vc_ok :: "u32 \<Rightarrow> drop_tail option \<Rightarrow> u32 \<Rightarrow> nat \<Rightarrow> bool" where
  "vc_ok limit q r n \<longleftrightarrow> (case q of None \<Rightarrow> False | Some d \<Rightarrow> dq_ok d \<and> dq_max d = limit \<and> unat r = n \<and>
     unat (dq_bytes d) + unat r \<le> unat limit)"

definition cq_inv :: "u8 \<Rightarrow> u32 \<Rightarrow> u32 \<Rightarrow> client_queue \<Rightarrow> bool" where
  "cq_inv vcs limit header k \<longleftrightarrow> qm_initialized (cq_manager k) \<and> qm_num_vcs (cq_manager k) = vcs \<and>
     qm_max_bytes (cq_manager k) = limit \<and> qm_header_size (cq_manager k) = header \<and>
     (\<forall>r\<in>set (cq_open k). fst r < vcs) \<and>
     (\<forall>v<vcs. qm_reserved (cq_manager k) v \<noteq> None \<and>
        vc_ok limit (qm_queues (cq_manager k) v) (get_reserved (cq_manager k) v) (open_bytes header v (cq_open k)))"

lemma add_vc_queues:
  "qm_max_bytes m = limit \<Longrightarrow> qm_queues (fold add_vc_queue vs m) v = (if v \<in> set vs then Some (new_drop_tail limit) else qm_queues m v)"
  "qm_reserved (fold add_vc_queue vs m) v = (if v \<in> set vs then Some 0 else qm_reserved m v)"
  "qm_num_vcs (fold add_vc_queue vs m) = qm_num_vcs m" "qm_max_bytes (fold add_vc_queue vs m) = qm_max_bytes m"
  "qm_header_size (fold add_vc_queue vs m) = qm_header_size m"
  by (induction vs arbitrary: m) (auto simp: add_vc_queue_def)

lemma reserve_fits:
  assumes "n \<le> get_vc_available_capacity m v" "v < qm_num_vcs m" "qm_queues m v = Some d" "qm_max_bytes m = limit"
    "unat (dq_bytes d) + unat (get_reserved m v) \<le> unat limit"
  shows "unat (get_reserved m v + n) = unat (get_reserved m v) + unat n"
    "unat (dq_bytes d) + unat (get_reserved m v) + unat n \<le> unat limit"
proof -
  let ?u = "dq_bytes d + get_reserved m v"
  have u: "unat ?u = unat (dq_bytes d) + unat (get_reserved m v)"
    using assms(5) unsigned_less [of limit, where ?'a = nat] by (intro unat_add_nowrap) simp
  have "unat n \<le> unat limit - unat ?u"
    using assms(1-4) by (auto simp: get_vc_available_capacity_def Let_def not_le word_le_nat_alt word_less_nat_alt unat_sub
        split: if_splits)
  then show l: "unat (dq_bytes d) + unat (get_reserved m v) + unat n \<le> unat limit"
    using u assms(5) by simp
  show "unat (get_reserved m v + n) = unat (get_reserved m v) + unat n"
    using l unsigned_less [of limit, where ?'a = nat] by (intro unat_add_nowrap) simp
qed

lemma vc_ok_reserve:
  assumes "vc_ok limit (qm_queues m v) (get_reserved m v) k" "n \<le> get_vc_available_capacity m v"
    "v < qm_num_vcs m" "qm_max_bytes m = limit"
  shows "vc_ok limit (qm_queues m v) (get_reserved m v + n) (k + unat n)"
proof -
  obtain d where d: "qm_queues m v = Some d" "dq_ok d" "dq_max d = limit" "unat (get_reserved m v) = k"
      "unat (dq_bytes d) + unat (get_reserved m v) \<le> unat limit"
    using assms(1) by (auto simp: vc_ok_def split: option.splits)
  then show ?thesis
    using reserve_fits [OF assms(2,3) d(1) assms(4) d(5)] by (simp add: vc_ok_def)
qed

lemma cq_inv_reserve:
  assumes "cq_inv vcs limit header k"
  shows "cq_inv vcs limit header (cq_reserve vc n k)"
proof (cases "vc < vcs \<and> n + header \<le> get_vc_available_capacity (cq_manager k) vc")
  case True
  then have "vc_ok limit (qm_queues (cq_manager k) vc) (get_reserved (cq_manager k) vc + (n + header))
      (open_bytes header vc (cq_open k) + unat (n + header))"
    using assms by (intro vc_ok_reserve) (simp_all add: cq_inv_def)
  then show ?thesis
    using assms True
    by (auto simp: cq_inv_def cq_reserve_def reserve_vc_capacity_def Let_def get_reserved_def open_bytes_def add.commute)
next
  case False
  then have "cq_reserve vc n k = k"
    using assms by (auto simp: cq_inv_def cq_reserve_def reserve_vc_capacity_def Let_def not_less)
  then show ?thesis using assms by simp
qed

text \<open>Queueing a packet within an open reservation, and giving the reservation back.\<close>

lemma vc_ok_release:
  assumes "vc_ok limit q r (k + unat n)"
  shows "n \<le> r" "vc_ok limit q (r - n) k"
proof -
  show le: "n \<le> r" using assms by (auto simp: vc_ok_def word_le_nat_alt split: option.splits)
  then have "unat (r - n) = unat r - unat n" by (simp add: unat_sub)
  then show "vc_ok limit q (r - n) k" using assms le by (auto simp: vc_ok_def split: option.splits)
qed

lemma vc_ok_send:
  assumes "vc_ok limit (Some d) r (k + unat n)" "sk_size p \<le> n"
  shows "fst (dq_enqueue p d)" "vc_ok limit (Some (snd (dq_enqueue p d))) (r - n) k"
proof -
  have v: "dq_ok d" "dq_max d = limit" "unat r = k + unat n" "unat (dq_bytes d) + unat r \<le> unat limit"
    using assms(1) by (simp_all add: vc_ok_def)
  have s: "unat (sk_size p) \<le> unat n" using assms(2) by (simp add: word_le_nat_alt)
  then have room: "unat (dq_bytes d) + unat (sk_size p) \<le> unat (dq_max d)" using v by simp
  note e = dq_enqueue_room [OF v(1) room]
  show "fst (dq_enqueue p d)" by (simp add: e(1))
  have "unat (r - n) = unat r - unat n" using vc_ok_release(1) [OF assms(1)] by (simp add: unat_sub)
  then show "vc_ok limit (Some (snd (dq_enqueue p d))) (r - n) k"
    using v s e(2,3) by (simp add: vc_ok_def e(1))
qed

lemma cq_inv_fail:
  assumes i: "cq_inv vcs limit header k" and m: "(vc, n) \<in> set (cq_open k)"
  shows "cq_inv vcs limit header (cq_fail vc n k)"
proof -
  let ?o = "open_bytes header vc (remove1 (vc, n) (cq_open k))"
  have vc: "vc < vcs" using i m by (auto simp: cq_inv_def)
  then obtain r where r: "qm_reserved (cq_manager k) vc = Some r" using i by (auto simp: cq_inv_def)
  have "vc_ok limit (qm_queues (cq_manager k) vc) r (?o + unat (n + header))"
    using i vc r open_bytes_remove [OF m, of header vc] by (auto simp: cq_inv_def get_reserved_def)
  note v = vc_ok_release [OF this]
  show ?thesis
    using i vc r v open_bytes_remove [OF m]
    by (auto simp: cq_inv_def cq_fail_def release_vc_capacity_def get_reserved_def Let_def notin_set_remove1)
qed

lemma cq_inv_vc:
  assumes "cq_inv vcs limit header k" "vc < vcs"
  obtains r d where "qm_reserved (cq_manager k) vc = Some r" "qm_queues (cq_manager k) vc = Some d"
    "vc_ok limit (Some d) r (open_bytes header vc (cq_open k))"
proof -
  have v: "qm_reserved (cq_manager k) vc \<noteq> None"
      "vc_ok limit (qm_queues (cq_manager k) vc) (get_reserved (cq_manager k) vc) (open_bytes header vc (cq_open k))"
    using assms unfolding cq_inv_def by blast+
  then obtain r where r: "qm_reserved (cq_manager k) vc = Some r" by blast
  obtain d where "qm_queues (cq_manager k) vc = Some d"
    using v(2) by (cases "qm_queues (cq_manager k) vc") (simp_all add: vc_ok_def)
  then show thesis using that r v(2) by (simp add: get_reserved_def)
qed

lemma cq_send_fits:
  assumes i: "cq_inv vcs limit header k" and m: "(vc, n) \<in> set (cq_open k)" and p: "sk_size p \<le> n + header"
  shows "fst (enqueue_to_vc_queue p vc (cq_manager k)) \<and> cq_inv vcs limit header (cq_send vc n p k)"
proof -
  let ?o = "open_bytes header vc (remove1 (vc, n) (cq_open k))"
  have vc: "vc < vcs" using i m by (auto simp: cq_inv_def)
  obtain r d where r: "qm_reserved (cq_manager k) vc = Some r" "qm_queues (cq_manager k) vc = Some d"
      and o: "vc_ok limit (Some d) r (open_bytes header vc (cq_open k))"
    by (rule cq_inv_vc [OF i vc])
  have v: "vc_ok limit (Some d) r (?o + unat (n + header))"
    using o open_bytes_remove [OF m, of header vc] by simp
  note s = vc_ok_send [OF v p] and le = vc_ok_release(1) [OF v]
  show ?thesis
    using i vc r s le open_bytes_remove [OF m]
    by (auto simp: cq_inv_def cq_send_def enqueue_to_vc_queue_def release_vc_capacity_def get_reserved_def Let_def
        case_prod_beta notin_set_remove1)
qed

lemma cq_inv_dequeue:
  assumes "cq_inv vcs limit header k"
  shows "cq_inv vcs limit header (cq_dequeue vc k)"
proof (cases "qm_queues (cq_manager k) vc")
  case (Some d)
  have "vc < vcs \<Longrightarrow> vc_ok limit (Some d) r n \<Longrightarrow> vc_ok limit (Some (snd (dq_dequeue d))) r n" for r n
    using dq_ok_dequeue [of d] by (auto simp: vc_ok_def word_le_nat_alt intro: order_trans add_le_mono1)
  then show ?thesis
    using assms Some
    by (auto simp: cq_inv_def cq_dequeue_def dequeue_from_vc_queue_def get_reserved_def case_prod_beta Let_def)
qed (use assms in \<open>simp add: cq_dequeue_def dequeue_from_vc_queue_def\<close>)

lemma cq_inv_reachable: "cq_reachable vcs limit header k \<Longrightarrow> cq_inv vcs limit header k"
proof (induction rule: cq_reachable.induct)
  case start
  show ?case
    by (auto simp: cq_inv_def qm_initialize_def new_queue_manager_def add_vc_queues vcs_below open_bytes_def
        vc_ok_def new_drop_tail_def dq_ok_def get_reserved_def simp del: set_map)
qed (simp_all add: cq_inv_reserve cq_send_fits cq_inv_fail cq_inv_dequeue)

text \<open>
  C27: As long as a port's queues are fed within reservations, a packet that is no larger than its
  reservation plus the additional header size is never dropped: when it arrives at the queue it
  fits, whatever was reserved, queued, released and dequeued in between; and the bytes queued and
  reserved on a virtual channel never exceed the queue's limit.
\<close>

theorem reserved_packets_fit:
  assumes "cq_reachable vcs limit header k" "(vc, n) \<in> set (cq_open k)" "sk_size p \<le> n + header"
  shows "fst (enqueue_to_vc_queue p vc (cq_manager k)) \<and>
    unat (get_vc_queue_bytes (cq_manager k) vc) + unat (get_reserved (cq_manager k) vc) \<le> unat limit"
proof -
  have i: "cq_inv vcs limit header k" by (rule cq_inv_reachable [OF assms(1)])
  then have "vc < vcs" using assms(2) by (auto simp: cq_inv_def)
  then have "unat (get_vc_queue_bytes (cq_manager k) vc) + unat (get_reserved (cq_manager k) vc) \<le> unat limit"
    using i by (auto simp: cq_inv_def vc_ok_def get_vc_queue_bytes_def split: option.splits)
  then show ?thesis using cq_send_fits [OF i assms(2,3)] by simp
qed

definition demo_sue_packet :: sue_packet where
  "demo_sue_packet = \<lparr>sk_ppp = Some 0x21, sk_cbfc = None, sk_eth = Some (1, 2), sk_vc = 1, sk_body = 128,
     sk_tag = None, sk_id = 0\<rparr>"

lemma reserved_packets_fit_witness:
  "\<exists>k :: client_queue. cq_open k = [(1, 100)] \<and> fst (enqueue_to_vc_queue demo_sue_packet 1 (cq_manager k))"
proof -
  let ?k = "cq_reserve 1 100 \<lparr>cq_manager = qm_initialize 4 1000 46 new_queue_manager, cq_open = []\<rparr>"
  have r: "cq_reachable 4 1000 46 ?k" by (rule cq_reachable.reserve [OF cq_reachable.start])
  have o: "cq_open ?k = [(1, 100)]" by code_simp
  have "sk_size demo_sue_packet \<le> 100 + 46" by code_simp
  then have f: "fst (enqueue_to_vc_queue demo_sue_packet 1 (cq_manager ?k))"
    using reserved_packets_fit [OF r, of 1 100 demo_sue_packet] by (simp add: o)
  show ?thesis using o f by blast
qed

end
