(* ===== verification/Ordered_Maps.thy ===== *)
theory Ordered_Maps
  imports Prelude
begin

text \<open>
  Ordered maps as sorted association lists: insertion, and erasing everything before a key.
\<close>

section \<open>Ordered maps\<close>

text \<open>\<open>std::map\<close> where the order of iteration matters: the entries in the order of their keys.\<close>

fun map_put :: "'k::linorder \<Rightarrow> 'v \<Rightarrow> ('k \<times> 'v) list \<Rightarrow> ('k \<times> 'v) list" where
  "map_put k v [] = [(k, v)]"
| "map_put k v ((l, w) # m) =
    (if k < l then (k, v) # (l, w) # m else if k = l then (k, v) # m else (l, w) # map_put k v m)"

definition erase_before :: "'k::linorder \<Rightarrow> ('k \<times> 'v) list \<Rightarrow> ('k \<times> 'v) list" where
  "erase_before k m = filter (\<lambda>e. \<not> fst e < k) m"

lemma map_of_put [simp]: "map_of (map_put k v m) = (map_of m)(k \<mapsto> v)"
  by (induction k v m rule: map_put.induct) auto

lemma map_of_erase_before: "map_of (erase_before k m) l = (if l < k then None else map_of m l)"
  by (induction m) (auto simp: erase_before_def)

lemma keys_put: "fst ` set (map_put k v m) = insert k (fst ` set m)"
  by (induction k v m rule: map_put.induct) auto

lemma sorted_put: "sorted (map fst m) \<Longrightarrow> sorted (map fst (map_put k v m))"
proof (induction k v m rule: map_put.induct)
  case (2 k v l w m)
  have "fst ` set (map_put k v m) = insert k (fst ` set m)" by (rule keys_put)
  then show ?case using 2 by auto
qed simp

lemma sorted_erase: "sorted (map fst m) \<Longrightarrow> sorted (map fst (erase_before k m))"
  unfolding erase_before_def by (rule sorted_filter)

end
