(* ===== verification/Llr.thy ===== *)
theory Llr
  imports Cbfc Ordered_Maps
begin

text \<open>
  Link-level retransmission of a SUE link (\<open>sue-sim-module/model/sue-llr.cc\<close>). One flow is what the
  managers keep per virtual channel (node manager) or per peer and virtual channel (switch port
  manager): the operations are written once over a flow, and the two managers are tables of flows.
  The stored packets are of any type \<open>'p\<close>.
\<close>

section \<open>A flow\<close>

record 'p llr_flow =
  fl_list :: "(u32 \<times> 'p) list"
  fl_wait :: u32
  fl_send :: u32
  fl_unack :: u32
  fl_resending :: bool
  fl_timer :: bool

definition new_flow :: "'p llr_flow" where
  "new_flow = \<lparr>fl_list = [], fl_wait = 0, fl_send = 0, fl_unack = 0, fl_resending = False, fl_timer = False\<rparr>"

datatype llr_reply = Llr_Ack u32 | Llr_Nack u32

text \<open>\<open>LlrSendPacket\<close>: the next number, a stored copy, and a timer unless one is pending.\<close>

definition flow_send :: "'p \<Rightarrow> 'p llr_flow \<Rightarrow> u32 \<times> 'p llr_flow" where
  "flow_send p f =
    (fl_send f, f\<lparr>fl_send := fl_send f + 1, fl_list := map_put (fl_send f) p (fl_list f),
       fl_unack := fl_unack f + 1, fl_timer := True\<rparr>)"

text \<open>\<open>LlrReceivePacket\<close>: the reply, and whether the switch port goes on with the packet.\<close>

definition flow_receive :: "u32 \<Rightarrow> 'p llr_flow \<Rightarrow> llr_reply \<times> bool \<times> 'p llr_flow" where
  "flow_receive seq f =
    (if seq = fl_wait f then (Llr_Ack seq, True, f\<lparr>fl_wait := fl_wait f + 1\<rparr>)
     else if fl_wait f < seq then (Llr_Nack (fl_wait f), False, f)
     else (Llr_Ack seq, False, f))"

text \<open>\<open>ProcessLlrAck\<close>: both roles of a port read and write the same \<open>m_waitSeq\<close>.\<close>

definition flow_ack :: "u32 \<Rightarrow> 'p llr_flow \<Rightarrow> 'p llr_flow" where
  "flow_ack seq f =
    (if seq < fl_wait f then f
     else if map_of (fl_list f) seq = None then f
     else f\<lparr>fl_list := AList.delete seq (erase_before seq (fl_list f)), fl_wait := seq + 1,
            fl_resending := False, fl_timer := False\<rparr>)"

text \<open>\<open>ProcessLlrNack\<close>: the number to resend from is returned, the managers store it.\<close>

definition flow_nack :: "u32 \<Rightarrow> 'p llr_flow \<Rightarrow> u32 option \<times> 'p llr_flow" where
  "flow_nack seq f =
    (if seq < fl_wait f then (None, f)
     else if map_of (fl_list f) seq = None then (None, f)
     else (Some seq, f\<lparr>fl_list := erase_before seq (fl_list f), fl_wait := seq,
            fl_resending := True, fl_timer := True\<rparr>))"

text \<open>\<open>Resend\<close>, the timer's event; with a number it ends by calling \<open>m_tryTransmit\<close>.\<close>

definition flow_resend :: "'p llr_flow \<Rightarrow> u32 option \<times> 'p llr_flow" where
  "flow_resend f = (case fl_list f of
     [] \<Rightarrow> (None, f\<lparr>fl_resending := False, fl_timer := False\<rparr>)
   | (k, p) # m \<Rightarrow> (Some k, f\<lparr>fl_resending := True, fl_timer := False\<rparr>))"

text \<open>\<open>LlrResendPacket\<close> at the number stored by the manager: the packet, when there is one.\<close>

definition flow_resend_packet :: "u32 \<Rightarrow> 'p llr_flow \<Rightarrow> (u32 \<times> 'p) option \<times> 'p llr_flow" where
  "flow_resend_packet seq f =
    (if \<not> fl_resending f \<or> fl_list f = [] then (None, f)
     else (case map_of (fl_list f) seq of
        None \<Rightarrow> (None, f\<lparr>fl_resending := False\<rparr>)
      | Some p \<Rightarrow> (Some (seq, p), f)))"

text \<open>\<open>Initialize\<close> on the part of one flow: the stored packets go, everything else stays.\<close>

definition clear_flow :: "'p llr_flow \<Rightarrow> 'p llr_flow" where
  "clear_flow f = f\<lparr>fl_list := []\<rparr>"

section \<open>The node manager\<close>

record 'p llr_node =
  ln_enabled :: bool
  ln_window :: u32
  ln_timeout :: ns
  ln_num_vcs :: u8
  ln_switch_mac :: mac48
  ln_flows :: "'p llr_flow list"
  ln_resend_seq :: u32

definition new_llr_node :: "'p llr_node" where
  "new_llr_node = \<lparr>ln_enabled = False, ln_window = 10, ln_timeout = 10000, ln_num_vcs = 4,
     ln_switch_mac = 0, ln_flows = [], ln_resend_seq = 0\<rparr>"

text \<open>\<open>std::vector::resize (n, x)\<close>.\<close>

definition resize :: "nat \<Rightarrow> 'a \<Rightarrow> 'a list \<Rightarrow> 'a list" where
  "resize n x xs = take n xs @ replicate (n - length xs) x"

definition llr_node_initialize :: "bool \<Rightarrow> u32 \<Rightarrow> ns \<Rightarrow> u8 \<Rightarrow> mac48 \<Rightarrow> 'p llr_node \<Rightarrow> 'p llr_node" where
  "llr_node_initialize enabled window timeout num_vcs remote n =
    n\<lparr>ln_enabled := enabled, ln_window := window, ln_timeout := timeout, ln_num_vcs := num_vcs,
      ln_switch_mac := remote,
      ln_flows := map clear_flow (resize (unat num_vcs) new_flow (ln_flows n))\<rparr>"

text \<open>The number given to the packet; without LLR every packet gets 0 and nothing is stored.\<close>

definition llr_node_send :: "'p \<Rightarrow> vc_id \<Rightarrow> 'p llr_node \<Rightarrow> u32 \<times> 'p llr_node" where
  "llr_node_send p vc n =
    (if \<not> ln_enabled n then (0, n)
     else if ln_num_vcs n \<le> vc then (0, n)
     else let (seq, f) = flow_send p (ln_flows n ! unat vc)
       in (seq, n\<lparr>ln_flows := (ln_flows n)[unat vc := f]\<rparr>))"

text \<open>A node goes on with every packet, whatever the reply.\<close>

definition llr_node_receive :: "vc_id \<Rightarrow> u32 \<Rightarrow> 'p llr_node \<Rightarrow> llr_reply option \<times> 'p llr_node" where
  "llr_node_receive vc seq n =
    (if \<not> ln_enabled n then (None, n)
     else if ln_num_vcs n \<le> vc then (None, n)
     else let (r, ok, f) = flow_receive seq (ln_flows n ! unat vc)
       in (Some r, n\<lparr>ln_flows := (ln_flows n)[unat vc := f]\<rparr>))"

definition llr_node_ack :: "vc_id \<Rightarrow> u32 \<Rightarrow> 'p llr_node \<Rightarrow> 'p llr_node" where
  "llr_node_ack vc seq n =
    (if \<not> ln_enabled n \<or> ln_num_vcs n \<le> vc then n
     else n\<lparr>ln_flows := (ln_flows n)[unat vc := flow_ack seq (ln_flows n ! unat vc)]\<rparr>)"

text \<open>One number to resend from for all virtual channels.\<close>

definition put_resend_seq :: "u32 option \<Rightarrow> 'p llr_node \<Rightarrow> 'p llr_node" where
  "put_resend_seq s n = (case s of Some k \<Rightarrow> n\<lparr>ln_resend_seq := k\<rparr> | None \<Rightarrow> n)"

definition llr_node_nack :: "vc_id \<Rightarrow> u32 \<Rightarrow> 'p llr_node \<Rightarrow> 'p llr_node" where
  "llr_node_nack vc seq n =
    (if \<not> ln_enabled n \<or> ln_num_vcs n \<le> vc then n
     else let (s, f) = flow_nack seq (ln_flows n ! unat vc)
       in put_resend_seq s (n\<lparr>ln_flows := (ln_flows n)[unat vc := f]\<rparr>))"

text \<open>The flag says that \<open>m_tryTransmit\<close> is called.\<close>

definition llr_node_resend :: "vc_id \<Rightarrow> 'p llr_node \<Rightarrow> bool \<times> 'p llr_node" where
  "llr_node_resend vc n =
    (if \<not> ln_enabled n \<or> ln_num_vcs n \<le> vc then (False, n)
     else let (s, f) = flow_resend (ln_flows n ! unat vc)
       in (s \<noteq> None, put_resend_seq s (n\<lparr>ln_flows := (ln_flows n)[unat vc := f]\<rparr>)))"

definition llr_node_resend_packet :: "vc_id \<Rightarrow> 'p llr_node \<Rightarrow> (u32 \<times> 'p) option \<times> 'p llr_node" where
  "llr_node_resend_packet vc n =
    (if \<not> ln_enabled n \<or> ln_num_vcs n \<le> vc then (None, n)
     else let (e, f) = flow_resend_packet (ln_resend_seq n) (ln_flows n ! unat vc);
              n1 = n\<lparr>ln_flows := (ln_flows n)[unat vc := f]\<rparr>
       in (e, if e = None then n1 else n1\<lparr>ln_resend_seq := ln_resend_seq n + 1\<rparr>))"

section \<open>The switch port manager\<close>

text \<open>
  The flows of every peer. The code indexes \<open>m_...[mac][vcId]\<close> without a check: for a peer that was
  not initialised the access is out of range, written as no flow, and the operation as \<open>None\<close>.
\<close>

record 'p llr_port =
  lp_enabled :: bool
  lp_window :: u32
  lp_timeout :: ns
  lp_num_vcs :: u8
  lp_peer :: mac48
  lp_flows :: "mac48 \<rightharpoonup> ('p llr_flow \<times> u32) list"

definition new_llr_port :: "'p llr_port" where
  "new_llr_port = \<lparr>lp_enabled = False, lp_window = 10, lp_timeout = 10000, lp_num_vcs = 4, lp_peer = 0,
     lp_flows = Map.empty\<rparr>"

definition initialize_peer_flows :: "mac48 \<Rightarrow> 'p llr_port \<Rightarrow> 'p llr_port" where
  "initialize_peer_flows mac n =
    (let fs = (case lp_flows n mac of Some fs \<Rightarrow> fs | None \<Rightarrow> [])
     in n\<lparr>lp_flows := (lp_flows n)(mac \<mapsto>
           map (\<lambda>(f, s). (clear_flow f, s)) (resize (unat (lp_num_vcs n)) (new_flow, 0) fs))\<rparr>)"

definition llr_port_initialize ::
  "bool \<Rightarrow> u32 \<Rightarrow> ns \<Rightarrow> u8 \<Rightarrow> mac48 \<Rightarrow> bool \<Rightarrow> mac48 option list option \<Rightarrow> mac48 \<Rightarrow> 'p llr_port \<Rightarrow> 'p llr_port" where
  "llr_port_initialize enabled window timeout num_vcs peer switch node local n =
    (let n1 = initialize_peer_flows peer (n\<lparr>lp_enabled := enabled, lp_window := window, lp_timeout := timeout,
                lp_num_vcs := num_vcs, lp_peer := peer\<rparr>)
     in if switch then
          (case node of None \<Rightarrow> n1
           | Some devices \<Rightarrow> fold (\<lambda>d m. case d of None \<Rightarrow> m
               | Some mac \<Rightarrow> if mac \<noteq> local \<and> mac \<noteq> peer then initialize_peer_flows mac m else m) devices n1)
        else n1)"

definition port_flow :: "'p llr_port \<Rightarrow> mac48 \<Rightarrow> vc_id \<Rightarrow> ('p llr_flow \<times> u32) option" where
  "port_flow n mac vc = (case lp_flows n mac of
     Some fs \<Rightarrow> if unat vc < length fs then Some (fs ! unat vc) else None | None \<Rightarrow> None)"

definition put_port_flow :: "mac48 \<Rightarrow> vc_id \<Rightarrow> 'p llr_flow \<times> u32 \<Rightarrow> 'p llr_port \<Rightarrow> 'p llr_port" where
  "put_port_flow mac vc e n = (case lp_flows n mac of
     Some fs \<Rightarrow> n\<lparr>lp_flows := (lp_flows n)(mac \<mapsto> fs[unat vc := e])\<rparr> | None \<Rightarrow> n)"

definition llr_port_send :: "'p \<Rightarrow> vc_id \<Rightarrow> mac48 \<Rightarrow> 'p llr_port \<Rightarrow> (u32 \<times> 'p llr_port) option" where
  "llr_port_send p vc mac n =
    (if \<not> lp_enabled n \<or> lp_num_vcs n \<le> vc then Some (0, n)
     else (case port_flow n mac vc of None \<Rightarrow> None
       | Some (f, s) \<Rightarrow> let (seq, g) = flow_send p f in Some (seq, put_port_flow mac vc (g, s) n)))"

text \<open>With the flag whether the packet is processed further.\<close>

definition llr_port_receive :: "vc_id \<Rightarrow> u32 \<Rightarrow> mac48 \<Rightarrow> 'p llr_port \<Rightarrow> (llr_reply option \<times> bool \<times> 'p llr_port) option" where
  "llr_port_receive vc seq source n =
    (if \<not> lp_enabled n then Some (None, True, n)
     else if lp_num_vcs n \<le> vc then Some (None, False, n)
     else (case port_flow n source vc of None \<Rightarrow> None
       | Some (f, s) \<Rightarrow> let (r, ok, g) = flow_receive seq f
           in Some (Some r, ok, put_port_flow source vc (g, s) n)))"

definition llr_port_ack :: "vc_id \<Rightarrow> u32 \<Rightarrow> mac48 \<Rightarrow> 'p llr_port \<Rightarrow> 'p llr_port option" where
  "llr_port_ack vc seq mac n =
    (if \<not> lp_enabled n \<or> lp_num_vcs n \<le> vc then Some n
     else (case port_flow n mac vc of None \<Rightarrow> None
       | Some (f, s) \<Rightarrow> Some (put_port_flow mac vc (flow_ack seq f, s) n)))"

definition llr_port_nack :: "vc_id \<Rightarrow> u32 \<Rightarrow> mac48 \<Rightarrow> 'p llr_port \<Rightarrow> 'p llr_port option" where
  "llr_port_nack vc seq mac n =
    (if \<not> lp_enabled n \<or> lp_num_vcs n \<le> vc then Some n
     else (case port_flow n mac vc of None \<Rightarrow> None
       | Some (f, s) \<Rightarrow> let (t, g) = flow_nack seq f
           in Some (put_port_flow mac vc (g, case t of Some k \<Rightarrow> k | None \<Rightarrow> s) n)))"

definition llr_port_resend :: "vc_id \<Rightarrow> mac48 \<Rightarrow> 'p llr_port \<Rightarrow> (bool \<times> 'p llr_port) option" where
  "llr_port_resend vc mac n =
    (if \<not> lp_enabled n \<or> lp_num_vcs n \<le> vc then Some (False, n)
     else (case port_flow n mac vc of None \<Rightarrow> None
       | Some (f, s) \<Rightarrow> let (t, g) = flow_resend f
           in Some (t \<noteq> None, put_port_flow mac vc (g, case t of Some k \<Rightarrow> k | None \<Rightarrow> s) n)))"

definition llr_port_resend_packet :: "vc_id \<Rightarrow> mac48 \<Rightarrow> 'p llr_port \<Rightarrow> ((u32 \<times> 'p) option \<times> 'p llr_port) option" where
  "llr_port_resend_packet vc mac n =
    (if \<not> lp_enabled n \<or> lp_num_vcs n \<le> vc then Some (None, n)
     else (case port_flow n mac vc of None \<Rightarrow> None
       | Some (f, s) \<Rightarrow> let (e, g) = flow_resend_packet s f
           in Some (e, put_port_flow mac vc (g, if e = None then s else s + 1) n)))"

end
