(* ===== verification/SueDevice.thy ===== *)
theory SueDevice
  imports SueQueue Llr
begin

text \<open>
  \<open>PointToPointSueNetDevice\<close> (\<open>sue-sim-module/model/point-to-point-sue-net-device.cc\<close>): the transmitter
  over the main queue and the virtual-channel queues, reception, the processing queue, and the forwarding
  of \<open>SueSwitch\<close> (\<open>sue-switch.cc\<close>). The credit manager, the queue manager and the two retransmission
  managers are those of \<open>Cbfc\<close>, \<open>SueQueue\<close> and \<open>Llr\<close>. \<open>None\<close> is a failed assertion, or an access behind
  the end of a packet or of a table. Statistics, traces and delay tags are left out.
\<close>

unbundle bit_operations_syntax

section \<open>State\<close>

text \<open>\<open>sc_tx_time\<close>, \<open>sc_processing_time\<close>: \<open>CalculateBytesTxTime\<close> of the two data rates.\<close>

record sue_config =
  sc_num_vcs :: u8
  sc_initial :: u32
  sc_batch :: u32
  sc_switch_credits :: u32
  sc_vc_bytes :: u32
  sc_extra_header :: u32
  sc_header :: u32
  sc_transaction :: u32
  sc_cbfc :: bool
  sc_bytes_per_credit :: u32
  sc_processing_max :: u32
  sc_main_max :: nat
  sc_gap :: ns
  sc_generate_delay :: ns
  sc_forward_delay :: ns
  sc_vc_delay :: ns
  sc_schedule_delay :: ns
  sc_llr :: bool
  sc_window :: u32
  sc_llr_timeout :: ns
  sc_ack_header_delay :: ns
  sc_ack_process_delay :: ns
  sc_tx_time :: "u32 \<Rightarrow> ns"
  sc_processing_time :: "u32 \<Rightarrow> ns"

text \<open>\<open>SueSwitch\<close>; nothing sets its retransmission managers, so they stay null.\<close>

record sue_switch =
  sw_table :: "(mac48 \<times> u32) list"
  sw_busy :: bool

record process_item =
  pi_original :: sue_packet
  pi_packet :: sue_packet
  pi_vc :: vc_id
  pi_protocol :: u16

text \<open>The pending events of a device.\<close>

datatype sue_event =
    TryTransmit
  | TransmitComplete
  | EgressReturn mac48 vc_id u32
  | StartProcessing
  | ProcessReceived process_item
  | ForwardingComplete mac48 sue_packet mac48 vc_id
  | HandleReturn mac48 vc_id u32
  | SendReturn mac48 vc_id
  | SendCredits credit_packet
  | SendReply sue_packet u16
  | LlrAck sue_packet
  | LlrNack sue_packet

text \<open>\<open>sv_ports\<close>: interface index and address of the node's devices; the addresses are distinct. \<open>sv_wire\<close>: what
  the channel was given; \<open>sv_internal\<close>, \<open>sv_forwarded\<close>: calls of \<open>Receive\<close> (with its time) and \<open>EnqueueToVcQueue\<close> on
  other devices of the node; \<open>sv_delivered\<close>: calls of the receive callback.\<close>

record sue_device =
  sv_config :: sue_config
  sv_address :: mac48
  sv_remote :: mac48
  sv_index :: u32
  sv_ports :: "(u32 \<times> mac48) list"
  sv_link_up :: bool
  sv_busy :: bool
  sv_current :: "sue_packet option"
  sv_main :: "sue_packet list"
  sv_cbfc :: cbfc
  sv_queues :: queue_manager
  sv_processing :: "process_item list"
  sv_processing_size :: u32
  sv_processing_bytes :: u32
  sv_scheduled :: bool
  sv_switch :: sue_switch
  sv_node_llr :: "sue_packet llr_node"
  sv_port_llr :: "sue_packet llr_port"
  sv_events :: "(ns \<times> sue_event) list"
  sv_wire :: "(ns \<times> sue_packet) list"
  sv_internal :: "(ns \<times> mac48 \<times> sue_packet) list"
  sv_forwarded :: "(mac48 \<times> sue_packet) list"
  sv_delivered :: "(sue_packet \<times> u16) list"

definition new_sue_device :: "sue_config \<Rightarrow> mac48 \<Rightarrow> mac48 \<Rightarrow> u32 \<Rightarrow> (u32 \<times> mac48) list \<Rightarrow> (mac48 \<times> u32) list \<Rightarrow> sue_device" where
  "new_sue_device config addr remote index ports table = \<lparr>sv_config = config, sv_address = addr, sv_remote = remote,
     sv_index = index, sv_ports = ports, sv_link_up = False, sv_busy = False, sv_current = None, sv_main = [],
     sv_cbfc = new_cbfc, sv_queues = new_queue_manager, sv_processing = [], sv_processing_size = 0, sv_processing_bytes = 0,
     sv_scheduled = False, sv_switch = \<lparr>sw_table = table, sw_busy = False\<rparr>, sv_node_llr = new_llr_node,
     sv_port_llr = new_llr_port, sv_events = [], sv_wire = [], sv_internal = [], sv_forwarded = [], sv_delivered = []\<rparr>"

text \<open>\<open>Attach\<close>\<close>

definition sue_attach :: "sue_device \<Rightarrow> sue_device" where
  "sue_attach d = d\<lparr>sv_link_up := True\<rparr>"

definition schedule :: "ns \<Rightarrow> sue_event \<Rightarrow> sue_device \<Rightarrow> sue_device" where
  "schedule t e d = d\<lparr>sv_events := sv_events d @ [(t, e)]\<rparr>"

text \<open>An even last byte is a switch's.\<close>

definition is_switch_address :: "mac48 \<Rightarrow> bool" where
  "is_switch_address mac \<longleftrightarrow> (ucast mac :: u8) mod 2 = 0"

definition is_switch :: "sue_device \<Rightarrow> bool" where
  "is_switch d \<longleftrightarrow> is_switch_address (sv_address d)"

definition init_cbfc :: "sue_device \<Rightarrow> sue_device" where
  "init_cbfc d =
    (if cb_initialized (sv_cbfc d) then d
     else let s = sv_config d in d\<lparr>
       sv_cbfc := initialize_port (sc_num_vcs s) (sc_initial s) (sc_cbfc s) (sc_batch s) (sc_generate_delay s) (sv_remote d)
         (is_switch d) (sc_switch_credits s) (Some (map (Some \<circ> snd) (sv_ports d))) (sv_address d)
         (sc_transaction s) (sc_header s) (sc_bytes_per_credit s) (sv_cbfc d),
       sv_queues := qm_initialize (sc_num_vcs s) (sc_vc_bytes s) (sc_extra_header s) (sv_queues d)\<rparr>)"

definition init_llr :: "sue_device \<Rightarrow> sue_device" where
  "init_llr d =
    (let s = sv_config d in
     if \<not> sc_llr s then d
     else if is_switch d
     then d\<lparr>sv_port_llr := llr_port_initialize True (sc_window s) (sc_llr_timeout s) (sc_num_vcs s) (sv_remote d) True
            (Some (map (Some \<circ> snd) (sv_ports d))) (sv_address d) (sv_port_llr d)\<rparr>
     else d\<lparr>sv_node_llr := llr_node_initialize True (sc_window s) (sc_llr_timeout s) (sc_num_vcs s) (sv_remote d) (sv_node_llr d)\<rparr>)"

section \<open>Packets\<close>

definition ack_rev :: u16 where "ack_rev = 0x1111"
definition nack_rev :: u16 where "nack_rev = 0x2222"

text \<open>\<open>EtherToPpp\<close> and \<open>PppToEther\<close>; another number fails their assertion.\<close>

definition ether_to_ppp :: "u16 \<Rightarrow> u16 option" where
  "ether_to_ppp n =
    (if n = 0x0800 then Some 0x0021 else if n = 0x86DD then Some 0x0057 else if n = prot_cbfc_update then Some 0x00FB
     else if n = ack_rev then Some 0x1111 else if n = nack_rev then Some 0x2222 else None)"

definition ppp_to_ether :: "u16 \<Rightarrow> u16 option" where
  "ppp_to_ether n =
    (if n = 0x0021 then Some 0x0800 else if n = 0x0057 then Some 0x86DD else if n = 0x00FB then Some prot_cbfc_update
     else if n = 0x1111 then Some ack_rev else if n = 0x2222 then Some nack_rev else None)"

text \<open>
  \<open>ExtractVcIdFromPacket\<close>: without a PPP header the first two bytes are those of the destination; if they are
  not 0 they are taken for one. \<open>None\<close>: the headers that are parsed are not there.
\<close>

definition extract_vc :: "sue_packet \<Rightarrow> vc_id option" where
  "extract_vc p = (case (sk_cbfc p, sk_eth p) of
     (Some h, Some _) \<Rightarrow> if sk_ppp p = Some 0x00FB then Some (ch_vc h) else None
   | (None, Some (src, dst)) \<Rightarrow>
       if sk_ppp p = Some 0x00FB \<or> sk_ppp p = Some 0 \<or> (sk_ppp p = None \<and> drop_bit 32 dst \<noteq> 0) then None
       else Some (sk_vc p)
   | _ \<Rightarrow> None)"

text \<open>
  \<open>ExtractSourceMac\<close> takes off a PPP header first. From a data packet without one it takes two bytes of the
  destination, and finds the source two bytes further on.
\<close>

definition shifted_source :: "mac48 \<Rightarrow> mac48" where
  "shifted_source src = push_bit 16 src OR 0x0800"

definition extract_source :: "sue_packet \<Rightarrow> mac48 option" where
  "extract_source p = (case (sk_cbfc p, sk_eth p) of
     (None, Some (src, dst)) \<Rightarrow> Some (if sk_ppp p = None then shifted_source src else src)
   | _ \<Rightarrow> None)"

text \<open>\<open>LlrSendPacket\<close> of the two managers, with what it does to the packet.\<close>

definition frame_at_node :: "sue_packet \<Rightarrow> vc_id \<Rightarrow> sue_device \<Rightarrow> sue_packet \<times> sue_device" where
  "frame_at_node p vc d =
    (let n = sv_node_llr d; (seq, n') = llr_node_send p vc n
     in if ln_enabled n \<and> ln_num_vcs n \<le> vc then (p, d)
        else (p\<lparr>sk_ppp := Some 0x0021, sk_tag := Some \<lparr>st_seq = seq, st_link_type = 0\<rparr>\<rparr>, d\<lparr>sv_node_llr := n'\<rparr>))"

definition frame_at_port :: "sue_packet \<Rightarrow> vc_id \<Rightarrow> mac48 \<Rightarrow> sue_device \<Rightarrow> (sue_packet \<times> sue_device) option" where
  "frame_at_port p vc mac d =
    (let n = sv_port_llr d
     in if \<not> lp_enabled n then Some (p\<lparr>sk_ppp := Some 0x0021\<rparr>, d)
        else if lp_num_vcs n \<le> vc then Some (p, d)
        else map_option (\<lambda>(seq, n'). (p\<lparr>sk_ppp := Some 0x0021, sk_tag := Some \<lparr>st_seq = seq,
               st_link_type = (if sk_tag p = None then 1 else if is_switch_address mac then 1 else 2)\<rparr>\<rparr>, d\<lparr>sv_port_llr := n'\<rparr>))
             (llr_port_send p vc mac n))"

definition frame_packet :: "sue_packet \<Rightarrow> vc_id \<Rightarrow> sue_device \<Rightarrow> (sue_packet \<times> sue_device) option" where
  "frame_packet p vc d =
    (if is_switch d then frame_at_port p vc (sv_remote d) d else Some (frame_at_node p vc d))"

text \<open>\<open>SendLlrAck\<close> and \<open>SendLlrNack\<close>: the packet that will be sent to the peer.\<close>

definition reply_packet :: "vc_id \<Rightarrow> llr_reply \<Rightarrow> mac48 \<Rightarrow> mac48 \<Rightarrow> sue_packet" where
  "reply_packet vc r src dst =
    (let (proto, seq) = (case r of Llr_Ack n \<Rightarrow> (ack_rev, n) | Llr_Nack n \<Rightarrow> (nack_rev, n))
     in \<lparr>sk_ppp = ether_to_ppp proto, sk_cbfc = Some \<lparr>ch_vc = vc, ch_credits = 0\<rparr>, sk_eth = Some (src, dst), sk_vc = vc,
         sk_body = 0, sk_tag = Some \<lparr>st_seq = seq, st_link_type = 0\<rparr>, sk_id = 0\<rparr>)"

definition schedule_reply :: "ns \<Rightarrow> vc_id \<Rightarrow> llr_reply option \<Rightarrow> mac48 \<Rightarrow> sue_device \<Rightarrow> sue_device" where
  "schedule_reply now vc ro dst d = (case ro of
     None \<Rightarrow> d
   | Some r \<Rightarrow> schedule (now + sc_ack_header_delay (sv_config d))
       (SendReply (reply_packet vc r (sv_address d) dst) (case r of Llr_Ack _ \<Rightarrow> ack_rev | Llr_Nack _ \<Rightarrow> nack_rev)) d)"

section \<open>The transmitter\<close>

definition transmit_start :: "ns \<Rightarrow> sue_packet \<Rightarrow> sue_device \<Rightarrow> sue_device option" where
  "transmit_start now p d =
    (if sv_busy d then None
     else let finish = now + sc_tx_time (sv_config d) (sk_size p) + sc_gap (sv_config d);
              d1 = schedule finish TransmitComplete (d\<lparr>sv_busy := True, sv_current := Some p\<rparr>)
       in if \<not> is_switch d \<or> sk_ppp p = Some 0x00FB then Some (d1\<lparr>sv_wire := sv_wire d1 @ [(now, p)]\<rparr>)
          else (case (extract_vc p, extract_source p, sk_eth p) of
             (Some vc, Some target, Some (_, dst)) \<Rightarrow>
               let p' = p\<lparr>sk_eth := Some (sv_address d, dst)\<rparr>
               in Some ((schedule finish (EgressReturn target vc (sk_size p')) (d1\<lparr>sv_current := Some p'\<rparr>))
                    \<lparr>sv_wire := sv_wire d1 @ [(now, p')]\<rparr>)
           | _ \<Rightarrow> None))"

text \<open>The virtual channels from \<open>vc\<close> on, in the order of the loop.\<close>

definition vc_order :: "u8 \<Rightarrow> u8 \<Rightarrow> vc_id list" where
  "vc_order lastVC n = map (\<lambda>i. of_nat ((unat lastVC + i) mod unat n)) [0..<unat n]"

text \<open>The body of the loop: the packet to send from a channel, taken from its queue and paid for.\<close>

definition take_packet :: "vc_id \<Rightarrow> sue_device \<Rightarrow> sue_packet option \<times> sue_device" where
  "take_packet vc d =
    (if is_vc_queue_empty (sv_queues d) vc then (None, d)
     else if sc_cbfc (sv_config d)
     then let n = get_first_packet_size (sv_queues d) vc
       in if 0 < n \<and> has_enough_credits (sv_cbfc d) (sv_remote d) vc n
          then let (po, q) = dequeue_from_vc_queue vc (sv_queues d); d1 = d\<lparr>sv_queues := q\<rparr>
            in (case po of
                 None \<Rightarrow> (None, d1)
               | Some p \<Rightarrow> let (ok, c) = consume_dynamic_credits (sv_remote d) vc (sk_size p) (sv_cbfc d)
                   in if ok then (Some p, d1\<lparr>sv_cbfc := c\<rparr>) else (None, d1))
          else (None, d)
     else let (po, q) = dequeue_from_vc_queue vc (sv_queues d) in (po, d\<lparr>sv_queues := q\<rparr>))"

fun poll_vcs :: "ns \<Rightarrow> vc_id list \<Rightarrow> u8 \<times> sue_device \<Rightarrow> (u8 \<times> sue_device) option" where
  "poll_vcs now [] st = Some st"
| "poll_vcs now (vc # vcs) (lastVC, d) = (case take_packet vc d of
     (None, d1) \<Rightarrow> poll_vcs now vcs (lastVC, d1)
   | (Some p, d1) \<Rightarrow> map_option (Pair ((vc + 1) mod sc_num_vcs (sv_config d))) (transmit_start now p d1))"

text \<open>\<open>lastVC\<close>: the static variable, one for all devices.\<close>

definition try_transmit :: "ns \<Rightarrow> u8 \<times> sue_device \<Rightarrow> (u8 \<times> sue_device) option" where
  "try_transmit now st =
    (let (lastVC, d) = st in
     if sv_busy d then Some st
     else (case sv_main d of
         p # ps \<Rightarrow> map_option (Pair lastVC) (transmit_start now p (d\<lparr>sv_main := ps\<rparr>))
       | [] \<Rightarrow> poll_vcs now (vc_order lastVC (sc_num_vcs (sv_config d))) st))"

definition has_packets :: "sue_device \<Rightarrow> bool" where
  "has_packets d \<longleftrightarrow> sv_main d \<noteq> [] \<or>
     (\<exists>vc \<in> set (map of_nat [0..<unat (sc_num_vcs (sv_config d))]). \<not> is_vc_queue_empty (sv_queues d) vc)"

definition transmit_complete :: "ns \<Rightarrow> sue_device \<Rightarrow> sue_device option" where
  "transmit_complete now d =
    (if \<not> sv_busy d \<or> sv_current d = None then None
     else let d1 = d\<lparr>sv_busy := False, sv_current := None\<rparr>
       in Some (if has_packets d1 then schedule (now + sc_vc_delay (sv_config d)) TryTransmit d1 else d1))"

text \<open>The retransmission managers' callback \<open>m_tryTransmit\<close>.\<close>

definition llr_try_transmit :: "ns \<Rightarrow> sue_device \<Rightarrow> sue_device option" where
  "llr_try_transmit now d = (case sv_current d of
     None \<Rightarrow> Some d | Some p \<Rightarrow> if sv_busy d then Some d else transmit_start now p d)"

text \<open>\<open>if (m_txMachineState == READY)\<close> schedule \<open>TryTransmit\<close>.\<close>

definition wake :: "ns \<Rightarrow> sue_device \<Rightarrow> sue_device" where
  "wake now d = (if sv_busy d then d else schedule (now + sc_vc_delay (sv_config d)) TryTransmit d)"

section \<open>Queueing\<close>

definition llr_receive :: "ns \<Rightarrow> vc_id \<Rightarrow> u32 \<Rightarrow> mac48 \<Rightarrow> sue_device \<Rightarrow> (bool \<times> sue_device) option" where
  "llr_receive now vc seq mac d =
    (if is_switch d
     then map_option (\<lambda>(r, ok, n). (ok, schedule_reply now vc r mac (d\<lparr>sv_port_llr := n\<rparr>))) (llr_port_receive vc seq mac (sv_port_llr d))
     else let (r, n) = llr_node_receive vc seq (sv_node_llr d) in Some (True, schedule_reply now vc r (sv_remote d) (d\<lparr>sv_node_llr := n\<rparr>)))"

definition frame_and_queue :: "ns \<Rightarrow> sue_packet \<Rightarrow> sue_device \<Rightarrow> sue_device option" where
  "frame_and_queue now p d = (case extract_vc p of
     None \<Rightarrow> None
   | Some vc \<Rightarrow> map_option (\<lambda>(p1, d1). wake now (d1\<lparr>sv_queues := snd (enqueue_to_vc_queue p1 vc (sv_queues d1))\<rparr>)) (frame_packet p vc d))"

text \<open>\<open>EnqueueToVcQueue\<close>, from the application or from another port of the switch.\<close>

definition enqueue_to_vc :: "ns \<Rightarrow> sue_packet \<Rightarrow> sue_device \<Rightarrow> (bool \<times> sue_device) option" where
  "enqueue_to_vc now p d0 =
    (let d = init_llr (init_cbfc d0)
     in case (extract_vc p, Option.bind (sk_ppp p) ppp_to_ether) of
          (None, _) \<Rightarrow> None
        | (Some vc, None) \<Rightarrow> map_option (Pair True) (frame_and_queue now p d)
        | (Some vc, Some proto) \<Rightarrow>
            (case (extract_source p, sk_tag p) of
               (None, _) \<Rightarrow> None
             | (_, None) \<Rightarrow> Some (False, d)
             | (Some mac, Some tag) \<Rightarrow>
                 if sc_llr (sv_config d) \<and> proto = ack_rev then Some (True, schedule (now + sc_ack_process_delay (sv_config d)) (LlrAck p) d)
                 else if sc_llr (sv_config d) \<and> proto = nack_rev then Some (True, schedule (now + sc_ack_process_delay (sv_config d)) (LlrNack p) d)
                 else (case (if sc_llr (sv_config d) then llr_receive now vc (st_seq tag) mac d else Some (True, d)) of
                   None \<Rightarrow> None
                 | Some (_, d1) \<Rightarrow> map_option (Pair True) (frame_and_queue now (p\<lparr>sk_ppp := None\<rparr>) d1))))"

definition enqueue_main :: "sue_packet \<Rightarrow> sue_device \<Rightarrow> bool \<times> sue_device" where
  "enqueue_main p d =
    (if sc_main_max (sv_config d) < length (sv_main d) + 1 then (False, d) else (True, d\<lparr>sv_main := sv_main d @ [p]\<rparr>))"

text \<open>\<open>Send\<close>; \<open>dest\<close>: what \<open>GetMacForIp\<close> finds for the packet's IP destination.\<close>

definition sue_send :: "ns \<Rightarrow> sue_packet \<Rightarrow> mac48 \<Rightarrow> u16 \<Rightarrow> sue_device \<Rightarrow> (bool \<times> sue_device) option" where
  "sue_send now p dest proto d0 =
    (if \<not> sv_link_up d0 then Some (False, d0)
     else let d = init_llr (init_cbfc d0)
       in if proto = prot_cbfc_update then
            (let (ok, d1) = enqueue_main (p\<lparr>sk_ppp := Some 0x00FB\<rparr>) d in Some (ok, if ok then wake now d1 else d1))
          else if proto = ack_rev \<or> proto = nack_rev then Some (True, wake now (snd (enqueue_main p d)))
          else map_option (\<lambda>(_, d1). (True, d1))
            (enqueue_to_vc now (if is_switch d then p else p\<lparr>sk_eth := Some (sv_address d, dest)\<rparr>) d))"

text \<open>\<open>FindDeviceAndSend\<close>\<close>

definition find_device_and_send :: "ns \<Rightarrow> sue_packet \<Rightarrow> mac48 \<Rightarrow> u16 \<Rightarrow> sue_device \<Rightarrow> sue_device option" where
  "find_device_and_send now p target proto d =
    (if target = sv_remote d then map_option snd (sue_send now p target proto d)
     else if target \<in> snd ` set (sv_ports d)
     then let p' = p\<lparr>sk_ppp := Some 0x00FB\<rparr>
       in Some (d\<lparr>sv_internal := sv_internal d @
            [(now + sc_processing_time (sv_config d) (sk_size p') + sc_forward_delay (sv_config d), target, p')]\<rparr>)
     else Some d)"

definition return_credits :: "ns \<Rightarrow> mac48 \<Rightarrow> vc_id \<Rightarrow> sue_device \<Rightarrow> sue_device" where
  "return_credits now target vc d =
    (let (cp, c) = credit_return (sv_address d) target vc (sv_cbfc d); d1 = d\<lparr>sv_cbfc := c\<rparr>
     in case cp of None \<Rightarrow> d1 | Some x \<Rightarrow> schedule (now + cb_generate_delay c) (SendCredits x) d1)"

definition count_credits :: "mac48 \<Rightarrow> vc_id \<Rightarrow> u32 \<Rightarrow> sue_device \<Rightarrow> sue_device" where
  "count_credits source vc n d = d\<lparr>sv_cbfc := handle_credit_return source vc n (sv_cbfc d)\<rparr>"

definition credit_frame :: "credit_packet \<Rightarrow> sue_packet" where
  "credit_frame x = \<lparr>sk_ppp = None, sk_cbfc = Some (cp_header x), sk_eth = Some (cp_source x, cp_dest x), sk_vc = 0,
     sk_body = 0, sk_tag = None, sk_id = 0\<rparr>"

section \<open>Reception\<close>

definition enqueue_to_processing :: "ns \<Rightarrow> process_item \<Rightarrow> sue_device \<Rightarrow> sue_device" where
  "enqueue_to_processing now item d =
    (let d1 = d\<lparr>sv_processing := sv_processing d @ [item], sv_processing_size := sv_processing_size d + 1,
          sv_processing_bytes := sv_processing_bytes d + sk_size (pi_packet item)\<rparr>
     in if sv_scheduled d then d1 else schedule (now + sc_schedule_delay (sv_config d)) StartProcessing d1)"

text \<open>The end of \<open>Receive\<close>, for a data packet whose PPP header is off.\<close>

definition receive_data :: "ns \<Rightarrow> sue_packet \<Rightarrow> sue_packet \<Rightarrow> vc_id \<Rightarrow> u16 \<Rightarrow> sue_device \<Rightarrow> sue_device" where
  "receive_data now original p vc proto d =
    (if sv_processing_bytes d + sk_size p \<le> sc_processing_max (sv_config d)
     then enqueue_to_processing now \<lparr>pi_original = original, pi_packet = p, pi_vc = vc, pi_protocol = proto\<rparr> d
     else d)"

definition receive_credits :: "ns \<Rightarrow> sue_packet \<Rightarrow> sue_device \<Rightarrow> sue_device option" where
  "receive_credits now p d = (case (sk_cbfc p, sk_eth p) of
     (Some h, Some (src, dst)) \<Rightarrow>
       let (some, c) = receive_credit_packet \<lparr>cp_source = src, cp_dest = dst, cp_header = h\<rparr> (sv_cbfc d); d1 = d\<lparr>sv_cbfc := c\<rparr>
       in Some (if some then wake now d1 else d1)
   | _ \<Rightarrow> None)"

definition sue_receive :: "ns \<Rightarrow> bool \<Rightarrow> sue_packet \<Rightarrow> sue_device \<Rightarrow> sue_device option" where
  "sue_receive now corrupt p d0 =
    (let d = init_llr (init_cbfc d0); llr = sc_llr (sv_config d)
     in if corrupt then Some d
        else (case sk_ppp p of
            None \<Rightarrow> None
          | Some ppp \<Rightarrow>
              if llr \<and> ppp = 0x1111 then Some (schedule (now + sc_ack_process_delay (sv_config d)) (LlrAck p) d)
              else if llr \<and> ppp = 0x2222 then Some (schedule (now + sc_ack_process_delay (sv_config d)) (LlrNack p) d)
              else if ppp = 0x00FB then receive_credits now p d
              else let q = p\<lparr>sk_ppp := None\<rparr>
                in (case (extract_vc q, ppp_to_ether ppp, extract_source q) of
                     (Some vc, Some proto, Some mac) \<Rightarrow>
                       (case sk_tag q of
                          None \<Rightarrow> Some d
                        | Some tag \<Rightarrow> map_option (\<lambda>(ok, d1). if ok then receive_data now p q vc proto d1 else d1)
                            (if llr then llr_receive now vc (st_seq tag) mac d else Some (True, d)))
                   | _ \<Rightarrow> None)))"

section \<open>Processing and forwarding\<close>

definition start_processing :: "ns \<Rightarrow> sue_device \<Rightarrow> sue_device" where
  "start_processing now d = (case sv_processing d of
     [] \<Rightarrow> d
   | item # _ \<Rightarrow>
       if sv_scheduled d then d
       else schedule (now + sc_processing_time (sv_config d) (sk_size (pi_packet item))) (ProcessReceived item)
         (d\<lparr>sv_scheduled := True\<rparr>))"

definition pop_processing :: "u32 \<Rightarrow> sue_device \<Rightarrow> sue_device option" where
  "pop_processing n d = (case sv_processing d of
     [] \<Rightarrow> None
   | _ # items \<Rightarrow> Some (d\<lparr>sv_processing := items, sv_processing_size := sv_processing_size d - 1,
       sv_processing_bytes := sv_processing_bytes d - n\<rparr>))"

text \<open>\<open>ProcessSwitchForwarding\<close>: the credits for the egress port.\<close>

definition pay_forwarding :: "mac48 \<Rightarrow> vc_id \<Rightarrow> u32 \<Rightarrow> sue_device \<Rightarrow> sue_device option" where
  "pay_forwarding mac vc n d =
    (if \<not> cb_enabled (sv_cbfc d) then Some d
     else if \<not> has_enough_credits (sv_cbfc d) mac vc n then None
     else let (ok, c) = consume_dynamic_credits mac vc n (sv_cbfc d) in if ok then Some (d\<lparr>sv_cbfc := c\<rparr>) else None)"

definition process_switch_forwarding :: "ns \<Rightarrow> process_item \<Rightarrow> mac48 \<times> mac48 \<Rightarrow> sue_device \<Rightarrow> (bool \<times> sue_device) option" where
  "process_switch_forwarding now item eth d =
    (let (src, dst) = eth; p = pi_packet item in
     if sw_busy (sv_switch d) then Some (False, d)
     else (case map_of (sw_table (sv_switch d)) dst of
         None \<Rightarrow> None
       | Some out \<Rightarrow> (case map_of (sv_ports d) out of
           None \<Rightarrow> Some (False, d)
         | Some mac \<Rightarrow>
             if sv_index d = out then map_option (\<lambda>(_, d1). (True, d1)) (sue_send now p dst (pi_protocol item) d)
             else (case pay_forwarding mac (pi_vc item) (sk_size p) d of
               None \<Rightarrow> Some (False, d)
             | Some d1 \<Rightarrow>
                 let p' = p\<lparr>sk_eth := Some (sv_address d, dst)\<rparr>
                 in Some (True, (schedule (now + sc_forward_delay (sv_config d) + sc_tx_time (sv_config d) (sk_size p'))
                        (ForwardingComplete mac p' src (pi_vc item)) d1)\<lparr>sv_switch := (sv_switch d1)\<lparr>sw_busy := True\<rparr>\<rparr>))))) "

definition forwarding_complete :: "ns \<Rightarrow> mac48 \<Rightarrow> sue_packet \<Rightarrow> mac48 \<Rightarrow> vc_id \<Rightarrow> sue_device \<Rightarrow> sue_device" where
  "forwarding_complete now target p src vc d =
    (let d1 = d\<lparr>sv_forwarded := sv_forwarded d @ [(target, p)], sv_switch := (sv_switch d)\<lparr>sw_busy := False\<rparr>\<rparr>
     in if cb_enabled (sv_cbfc d) then schedule now (SendReturn src vc) (schedule now (HandleReturn src vc (sk_size p)) d1) else d1)"

text \<open>\<open>ProcessingReceivedPacket\<close> on an endpoint, and the whole of it.\<close>

definition process_at_endpoint :: "ns \<Rightarrow> process_item \<Rightarrow> mac48 \<times> mac48 \<Rightarrow> sue_device \<Rightarrow> sue_device" where
  "process_at_endpoint now item eth d =
    (let p = (pi_packet item)\<lparr>sk_eth := None\<rparr>
     in return_credits now (fst eth) (pi_vc item) (count_credits (fst eth) (pi_vc item) (sk_size p)
          (d\<lparr>sv_delivered := sv_delivered d @ [(p, pi_protocol item)]\<rparr>)))"

definition processing_received :: "ns \<Rightarrow> process_item \<Rightarrow> sue_device \<Rightarrow> sue_device option" where
  "processing_received now item d0 =
    (let d = d0\<lparr>sv_scheduled := False\<rparr>; n = sk_size (pi_packet item)
     in case sk_eth (pi_packet item) of
          None \<Rightarrow> None
        | Some eth \<Rightarrow> map_option (\<lambda>d2. if sv_processing d2 = [] then d2
              else schedule (now + sc_schedule_delay (sv_config d2)) StartProcessing d2)
            (if is_switch d
             then (case process_switch_forwarding now item eth d of
                 None \<Rightarrow> None
               | Some (forwarded, d1) \<Rightarrow> if forwarded then pop_processing n d1 else Some d1)
             else map_option (process_at_endpoint now item eth) (pop_processing n d)))"

section \<open>Events\<close>

definition llr_answer :: "ns \<Rightarrow> bool \<Rightarrow> sue_packet \<Rightarrow> sue_device \<Rightarrow> sue_device option" where
  "llr_answer now ack p d = (case (sk_tag p, sk_cbfc p, sk_eth p) of
     (None, _, _) \<Rightarrow> Some d
   | (Some tag, Some h, Some (src, _)) \<Rightarrow>
       if is_switch d
       then map_option (\<lambda>n. d\<lparr>sv_port_llr := n\<rparr>)
         ((if ack then llr_port_ack else llr_port_nack) (ch_vc h) (st_seq tag) src (sv_port_llr d))
       else Some (d\<lparr>sv_node_llr := (if ack then llr_node_ack else llr_node_nack) (ch_vc h) (st_seq tag) (sv_node_llr d)\<rparr>)
   | _ \<Rightarrow> None)"

text \<open>The retransmission timer of a channel; \<open>mac\<close>: the peer, at a switch port.\<close>

definition llr_timer :: "ns \<Rightarrow> vc_id \<Rightarrow> mac48 \<Rightarrow> sue_device \<Rightarrow> sue_device option" where
  "llr_timer now vc mac d =
    (if is_switch d
     then (case llr_port_resend vc mac (sv_port_llr d) of
         None \<Rightarrow> None
       | Some (again, n) \<Rightarrow> let d1 = d\<lparr>sv_port_llr := n\<rparr> in if again then llr_try_transmit now d1 else Some d1)
     else let (again, n) = llr_node_resend vc (sv_node_llr d); d1 = d\<lparr>sv_node_llr := n\<rparr>
       in if again then llr_try_transmit now d1 else Some d1)"

definition run_event :: "ns \<Rightarrow> sue_event \<Rightarrow> u8 \<times> sue_device \<Rightarrow> (u8 \<times> sue_device) option" where
  "run_event now e st = (let (lastVC, d) = st; keep = map_option (Pair lastVC) in case e of
     TryTransmit \<Rightarrow> try_transmit now st
   | TransmitComplete \<Rightarrow> keep (transmit_complete now d)
   | EgressReturn target vc n \<Rightarrow> keep (Some (return_credits now target vc (count_credits target vc n d)))
   | StartProcessing \<Rightarrow> keep (Some (start_processing now d))
   | ProcessReceived item \<Rightarrow> keep (processing_received now item d)
   | ForwardingComplete target p src vc \<Rightarrow> keep (Some (forwarding_complete now target p src vc d))
   | HandleReturn src vc n \<Rightarrow> keep (Some (count_credits src vc n d))
   | SendReturn src vc \<Rightarrow> keep (Some (return_credits now src vc d))
   | SendCredits x \<Rightarrow> keep (find_device_and_send now (credit_frame x) (cp_dest x) prot_cbfc_update d)
   | SendReply p proto \<Rightarrow> keep (if bit (sv_remote d) 40 then Some d else find_device_and_send now p (sv_remote d) proto d)
   | LlrAck p \<Rightarrow> keep (llr_answer now True p d)
   | LlrNack p \<Rightarrow> keep (llr_answer now False p d))"

end
