(* ===== verification/SueDeviceInv.thy ===== *)
theory SueDeviceInv
  imports SueDevice
begin

text \<open>
  Invariants of a SUE device over all its operations and events: the transmitter and its pending events, and
  the processing queue and its.
\<close>

unbundle bit_operations_syntax

section \<open>Runs\<close>

text \<open>\<open>others\<close>: another device moves the shared \<open>lastVC\<close>. A packet of the network has at most \<open>2 ^ 16\<close> bytes.\<close>

inductive sue_step :: "u8 \<times> sue_device \<Rightarrow> u8 \<times> sue_device \<Rightarrow> bool" where
  event: "(now, e) \<in> set (sv_events d) \<Longrightarrow>
    run_event now e (lv, d\<lparr>sv_events := remove1 (now, e) (sv_events d)\<rparr>) = Some st \<Longrightarrow> sue_step (lv, d) st"
| attach: "sue_step (lv, d) (lv, sue_attach d)"
| send: "sue_send now p dest proto d = Some (ok, d') \<Longrightarrow> sue_step (lv, d) (lv, d')"
| internal: "enqueue_to_vc now p d = Some (ok, d') \<Longrightarrow> sue_step (lv, d) (lv, d')"
| receive: "sue_receive now corrupt p d = Some d' \<Longrightarrow> unat (sk_body p) < 0x10000 \<Longrightarrow> sue_step (lv, d) (lv, d')"
| timer: "llr_timer now vc mac d = Some d' \<Longrightarrow> sue_step (lv, d) (lv, d')"
| others: "sue_step (lv, d) (lv', d)"

inductive sue_reachable :: "sue_config \<Rightarrow> u8 \<times> sue_device \<Rightarrow> bool" for config where
  start: "sue_reachable config (lv, new_sue_device config addr remote index ports table)"
| step: "sue_reachable config st \<Longrightarrow> sue_step st st' \<Longrightarrow> sue_reachable config st'"

section \<open>The view of the transmitter\<close>

definition completions :: "sue_device \<Rightarrow> nat" where
  "completions d = length (filter (\<lambda>x. snd x = TransmitComplete) (sv_events d))"

definition tries :: "sue_device \<Rightarrow> ns set" where
  "tries d = {t. (t, TryTransmit) \<in> set (sv_events d)}"

definition eligible :: "vc_id \<Rightarrow> sue_device \<Rightarrow> bool" where
  "eligible vc d \<longleftrightarrow> \<not> is_vc_queue_empty (sv_queues d) vc \<and> (sc_cbfc (sv_config d) \<longrightarrow>
     0 < get_first_packet_size (sv_queues d) vc \<and>
     has_enough_credits (sv_cbfc d) (sv_remote d) vc (get_first_packet_size (sv_queues d) vc))"

text \<open>Something could be sent now.\<close>

definition can_send :: "sue_device \<Rightarrow> bool" where
  "can_send d \<longleftrightarrow> sv_main d \<noteq> [] \<or> (\<exists>vc < sc_num_vcs (sv_config d). eligible vc d)"

definition untouched :: "sue_device \<Rightarrow> bool" where
  "untouched d \<longleftrightarrow> (cb_initialized (sv_cbfc d) \<or> (\<forall>vc. is_vc_queue_empty (sv_queues d) vc))"

definition identity_of :: "sue_device \<Rightarrow> sue_config \<times> mac48 \<times> mac48 \<times> u32 \<times> (u32 \<times> mac48) list" where
  "identity_of d = (sv_config d, sv_address d, sv_remote d, sv_index d, sv_ports d)"

text \<open>The peers for which the port manager has numbers, and those it ever initialises.\<close>

definition flow_peers :: "'p llr_port \<Rightarrow> mac48 set" where
  "flow_peers n = dom (lp_flows n)"

definition known_peers :: "sue_device \<Rightarrow> mac48 set" where
  "known_peers d = flow_peers (sv_port_llr d)"

definition peers_of :: "sue_device \<Rightarrow> mac48 set" where
  "peers_of d = insert (sv_remote d) (snd ` set (sv_ports d))"

text \<open>An operation that leaves the transmission under way alone and announces what becomes ready.\<close>

definition calm :: "sue_device \<Rightarrow> sue_device \<Rightarrow> bool" where
  "calm d d' \<longleftrightarrow> identity_of d' = identity_of d \<and> sv_busy d' = sv_busy d \<and> sv_current d' = sv_current d \<and>
     sv_wire d' = sv_wire d \<and> completions d' = completions d \<and> tries d \<subseteq> tries d' \<and>
     known_peers d' \<subseteq> known_peers d \<union> peers_of d \<and>
     (untouched d \<longrightarrow> untouched d' \<and> (\<not> sv_busy d \<and> can_send d' \<longrightarrow> can_send d \<or> tries d' \<noteq> {}))"

lemma calm_refl [simp]: "calm d d" by (simp add: calm_def)

lemma peers_same: "identity_of d' = identity_of d \<Longrightarrow> peers_of d' = peers_of d"
  by (simp add: identity_of_def peers_of_def)

lemma calm_trans: "calm d d' \<Longrightarrow> calm d' d'' \<Longrightarrow> calm d d''"
  using peers_same [of d' d] unfolding calm_def by (elim conjE, intro conjI) (simp_all, blast+)

lemma events_schedule [simp]:
  "completions (schedule t e d) = completions d + (if e = TransmitComplete then 1 else 0)"
  "tries (schedule t e d) = tries d \<union> (if e = TryTransmit then {t} else {})"
  by (auto simp: completions_def tries_def known_peers_def schedule_def)

lemma schedule_fields [simp]:
  "sv_config (schedule t e d) = sv_config d" "sv_address (schedule t e d) = sv_address d"
  "sv_remote (schedule t e d) = sv_remote d" "sv_index (schedule t e d) = sv_index d" "sv_ports (schedule t e d) = sv_ports d"
  "sv_busy (schedule t e d) = sv_busy d" "sv_current (schedule t e d) = sv_current d" "sv_main (schedule t e d) = sv_main d"
  "sv_cbfc (schedule t e d) = sv_cbfc d" "sv_queues (schedule t e d) = sv_queues d" "sv_wire (schedule t e d) = sv_wire d"
  "sv_processing (schedule t e d) = sv_processing d" "sv_processing_bytes (schedule t e d) = sv_processing_bytes d"
  "sv_processing_size (schedule t e d) = sv_processing_size d" "sv_scheduled (schedule t e d) = sv_scheduled d"
  "sv_delivered (schedule t e d) = sv_delivered d" "sv_switch (schedule t e d) = sv_switch d"
  "sv_node_llr (schedule t e d) = sv_node_llr d" "sv_port_llr (schedule t e d) = sv_port_llr d"
  "sv_events (schedule t e d) = sv_events d @ [(t, e)]"
  by (simp_all add: schedule_def)

lemma eligible_cong:
  "sv_queues d' = sv_queues d \<Longrightarrow> cb_tx (sv_cbfc d') = cb_tx (sv_cbfc d) \<Longrightarrow> calculate_credits_for_packet (sv_cbfc d') = calculate_credits_for_packet (sv_cbfc d) \<Longrightarrow>
   sv_config d' = sv_config d \<Longrightarrow> sv_remote d' = sv_remote d \<Longrightarrow> eligible vc d' = eligible vc d"
  by (simp add: eligible_def has_enough_credits_def split: option.split)

text \<open>The parts the transmitter does not look at.\<close>

lemma calm_other:
  assumes "identity_of d' = identity_of d" "sv_busy d' = sv_busy d" "sv_current d' = sv_current d" "sv_wire d' = sv_wire d"
    "sv_main d' = sv_main d" "sv_cbfc d' = sv_cbfc d" "sv_queues d' = sv_queues d" "completions d' = completions d" "tries d \<subseteq> tries d'"
    "known_peers d' \<subseteq> known_peers d \<union> peers_of d"
  shows "calm d d'"
proof -
  have "eligible vc d' = eligible vc d" for vc by (rule eligible_cong) (use assms in \<open>simp_all add: identity_of_def\<close>)
  then have "can_send d' = can_send d" using assms by (simp add: can_send_def identity_of_def)
  then show ?thesis using assms by (simp add: calm_def untouched_def)
qed

lemma calm_schedule: "e \<noteq> TransmitComplete \<Longrightarrow> calm d (schedule t e d)"
  by (rule calm_other) (simp_all add: identity_of_def known_peers_def)

lemma calm_wake:
  assumes "identity_of d1 = identity_of d" "sv_busy d1 = sv_busy d" "sv_current d1 = sv_current d" "sv_wire d1 = sv_wire d"
    "sv_events d1 = sv_events d" "sv_port_llr d1 = sv_port_llr d" "untouched d \<Longrightarrow> untouched d1"
  shows "calm d (wake now d1)"
proof -
  have u: "untouched (schedule t e d1) = untouched d1" for t e by (simp add: untouched_def)
  have i: "identity_of (schedule t e d1) = identity_of d1" for t e by (simp add: identity_of_def)
  have e: "completions d1 = completions d" "tries d1 = tries d" using assms(5) by (simp_all add: completions_def tries_def known_peers_def)
  show ?thesis using assms e by (auto simp: calm_def wake_def u i known_peers_def)
qed

lemma calm_cbfc:
  assumes "cb_initialized c = cb_initialized (sv_cbfc d)"
    and "\<And>vc n. has_enough_credits c (sv_remote d) vc n \<Longrightarrow> has_enough_credits (sv_cbfc d) (sv_remote d) vc n"
  shows "calm d (d\<lparr>sv_cbfc := c\<rparr>)"
proof -
  have "eligible vc (d\<lparr>sv_cbfc := c\<rparr>) \<Longrightarrow> eligible vc d" for vc using assms(2) by (auto simp: eligible_def)
  then have "can_send (d\<lparr>sv_cbfc := c\<rparr>) \<Longrightarrow> can_send d" by (auto simp: can_send_def)
  then show ?thesis using assms(1) by (auto simp: calm_def identity_of_def untouched_def completions_def tries_def known_peers_def)
qed

section \<open>Initialisation\<close>

lemma initialized_add [simp]: "cb_initialized (add_peer_vc mac n vc c) = cb_initialized c"
  by (simp add: add_peer_vc_def)

lemma initialized_fold: "cb_initialized (fold (add_peer_vc mac n) vcs c) = cb_initialized c"
  by (induction vcs arbitrary: c) simp_all

lemma initialized_peer: "cb_initialized (add_peer_device mac n c)"
  by (simp add: add_peer_device_def initialized_fold Let_def initialize_basic_def)

lemma initialized_switch: "cb_initialized c \<Longrightarrow> cb_initialized (add_switch_peers local n ds c)"
proof (induction ds arbitrary: c)
  case (Cons x ds)
  then show ?case by (cases x) (simp_all add: initialized_peer)
qed simp

lemma initialized_port: "cb_initialized (initialize_port vcs n en b t r sw sc nd l tr h bpc c)"
  by (simp add: initialize_port_def set_advanced_credit_calculation_def set_dynamic_credit_mode_def initialize_cbfc_def
      initialize_peer_device_credits_def initialized_peer initialized_switch Let_def split: option.split)

lemma empty_add: "is_vc_queue_empty m v \<Longrightarrow> is_vc_queue_empty (add_vc_queue vc m) v"
  by (simp add: is_vc_queue_empty_def add_vc_queue_def new_drop_tail_def)

lemma empty_fold: "\<forall>v. is_vc_queue_empty m v \<Longrightarrow> \<forall>v. is_vc_queue_empty (fold add_vc_queue vcs m) v"
proof (induction vcs arbitrary: m)
  case (Cons vc vcs)
  then have "\<forall>v. is_vc_queue_empty (add_vc_queue vc m) v" using empty_add by blast
  from Cons.IH [OF this] show ?case by simp
qed simp

lemma empty_initialize: "\<forall>v. is_vc_queue_empty m v \<Longrightarrow> is_vc_queue_empty (qm_initialize n limit h m) v"
proof -
  have "\<forall>v. is_vc_queue_empty (m\<lparr>qm_num_vcs := n, qm_max_bytes := limit, qm_header_size := h, qm_queues := Map.empty,
      qm_reserved := Map.empty\<rparr>) v" by (simp add: is_vc_queue_empty_def)
  from empty_fold [OF this] show "\<forall>v. is_vc_queue_empty m v \<Longrightarrow> is_vc_queue_empty (qm_initialize n limit h m) v"
    by (simp add: qm_initialize_def) (simp add: is_vc_queue_empty_def)
qed

lemma initialized_cbfc [simp]: "cb_initialized (sv_cbfc (init_cbfc d))"
  by (simp add: init_cbfc_def initialized_port Let_def)

lemma calm_init_cbfc: "calm d (init_cbfc d)"
proof (cases "cb_initialized (sv_cbfc d)")
  case False
  have same: "identity_of (init_cbfc d) = identity_of d" "sv_main (init_cbfc d) = sv_main d" "sv_busy (init_cbfc d) = sv_busy d"
    "sv_current (init_cbfc d) = sv_current d" "sv_wire (init_cbfc d) = sv_wire d" "sv_events (init_cbfc d) = sv_events d" "known_peers (init_cbfc d) = known_peers d"
    by (simp_all add: init_cbfc_def Let_def identity_of_def known_peers_def)
  have "\<not> eligible vc (init_cbfc d)" if "untouched d" for vc
    using that False empty_initialize [of "sv_queues d"] by (simp add: eligible_def init_cbfc_def Let_def untouched_def)
  then show ?thesis using same by (auto simp: calm_def can_send_def untouched_def completions_def tries_def known_peers_def)
qed (simp add: init_cbfc_def)

lemma known_initialize: "flow_peers (initialize_peer_flows mac n) = insert mac (flow_peers n)"
  by (simp add: initialize_peer_flows_def Let_def flow_peers_def)

lemma known_fold: "flow_peers (fold (\<lambda>x m. case x of None \<Rightarrow> m
     | Some mac \<Rightarrow> if mac \<noteq> local \<and> mac \<noteq> peer then initialize_peer_flows mac m else m) xs n) \<subseteq> flow_peers n \<union> {mac. Some mac \<in> set xs}"
proof (induction xs arbitrary: n)
  case (Cons x xs)
  show ?case
  proof (cases x)
    case (Some mac)
    then show ?thesis using Cons.IH [of "if mac \<noteq> local \<and> mac \<noteq> peer then initialize_peer_flows mac n else n"]
      by (auto simp: known_initialize split: if_splits)
  qed (use Cons.IH [of n] in auto)
qed simp

lemma known_port: "flow_peers (llr_port_initialize en w t n peer sw (Some xs) local m) \<subseteq> flow_peers m \<union> insert peer {mac. Some mac \<in> set xs}"
proof -
  let ?n = "initialize_peer_flows peer (m\<lparr>lp_enabled := en, lp_window := w, lp_timeout := t, lp_num_vcs := n, lp_peer := peer\<rparr>)"
  have "flow_peers ?n = insert peer (flow_peers m)" unfolding known_initialize by (simp add: flow_peers_def)
  then show ?thesis using known_fold [of local peer xs ?n] by (auto simp: llr_port_initialize_def Let_def)
qed

lemma calm_init_llr: "calm d (init_llr d)"
proof (rule calm_other)
  have "{mac. Some mac \<in> set (map (Some \<circ> snd) (sv_ports d))} = snd ` set (sv_ports d)" by auto
  then show "known_peers (init_llr d) \<subseteq> known_peers d \<union> peers_of d"
    using known_port [of True "sc_window (sv_config d)" "sc_llr_timeout (sv_config d)" "sc_num_vcs (sv_config d)" "sv_remote d" True
        "map (Some \<circ> snd) (sv_ports d)" "sv_address d" "sv_port_llr d"]
    by (auto simp: init_llr_def Let_def known_peers_def peers_of_def)
qed (simp_all add: init_llr_def Let_def identity_of_def completions_def tries_def)

lemma initialized_llr [simp]: "sv_cbfc (init_llr d) = sv_cbfc d"
  by (simp add: init_llr_def Let_def)

lemma calm_init: "calm d (init_llr (init_cbfc d))"
  by (rule calm_trans [OF calm_init_cbfc calm_init_llr])

section \<open>Queueing and reception are calm\<close>

lemma known_put: "flow_peers (put_port_flow mac vc e n) = flow_peers n"
  by (auto simp: put_port_flow_def flow_peers_def split: option.split)

lemma known_llr:
  "llr_port_send p vc mac n = Some (seq, n') \<Longrightarrow> flow_peers n' = flow_peers n"
  "llr_port_receive vc k mac n = Some (r, ok, n') \<Longrightarrow> flow_peers n' = flow_peers n"
  "llr_port_ack vc k mac n = Some n' \<Longrightarrow> flow_peers n' = flow_peers n"
  "llr_port_nack vc k mac n = Some n' \<Longrightarrow> flow_peers n' = flow_peers n"
  "llr_port_resend vc mac n = Some (again, n') \<Longrightarrow> flow_peers n' = flow_peers n"
  by (auto simp: llr_port_send_def llr_port_receive_def llr_port_ack_def llr_port_nack_def llr_port_resend_def known_put
      split: if_splits option.splits prod.splits)

lemma calm_frame: "frame_packet p vc d = Some (p', d') \<Longrightarrow> calm d d' \<and> sv_cbfc d' = sv_cbfc d \<and> sv_events d' = sv_events d"
  by (auto simp: frame_packet_def frame_at_node_def frame_at_port_def Let_def identity_of_def completions_def tries_def
      known_peers_def dest: known_llr intro!: calm_other split: if_splits prod.splits)

lemma calm_frame_and_queue:
  assumes "frame_and_queue now p d = Some d'" "cb_initialized (sv_cbfc d)"
  shows "calm d d'"
proof -
  obtain vc p1 d1 where f: "frame_packet p vc d = Some (p1, d1)"
      "d' = wake now (d1\<lparr>sv_queues := snd (enqueue_to_vc_queue p1 vc (sv_queues d1))\<rparr>)"
    using assms(1) by (auto simp: frame_and_queue_def split: option.splits)
  have "calm d1 (wake now (d1\<lparr>sv_queues := snd (enqueue_to_vc_queue p1 vc (sv_queues d1))\<rparr>))"
    using calm_frame [OF f(1)] assms(2) by (intro calm_wake) (simp_all add: identity_of_def untouched_def)
  then show ?thesis using calm_frame [OF f(1)] calm_trans f(2) by blast
qed

lemma calm_reply: "calm d (schedule_reply now vc r mac d)"
  by (simp add: schedule_reply_def calm_schedule split: option.split)

lemma reply_cbfc [simp]: "sv_cbfc (schedule_reply now vc r mac d) = sv_cbfc d"
  by (simp add: schedule_reply_def split: option.split)

lemma calm_llr: "flow_peers n = known_peers d \<Longrightarrow> calm d (d\<lparr>sv_port_llr := n\<rparr>)" "calm d (d\<lparr>sv_node_llr := m\<rparr>)"
  by (rule calm_other; simp add: identity_of_def completions_def tries_def known_peers_def)+

lemma calm_llr_receive: "llr_receive now vc seq mac d = Some (ok, d') \<Longrightarrow> calm d d' \<and> sv_cbfc d' = sv_cbfc d"
  by (auto simp: llr_receive_def known_peers_def dest: known_llr(2) intro!: calm_trans [OF calm_llr(1) calm_reply]
      calm_trans [OF calm_llr(2) calm_reply] split: if_splits prod.splits)

lemma calm_enqueue:
  assumes "enqueue_to_vc now p d = Some (ok, d')"
  shows "calm d d'"
proof -
  let ?d = "init_llr (init_cbfc d)"
  have "calm ?d d'"
  proof (cases "extract_vc p")
    case (Some vc)
    note v = Some
    show ?thesis
    proof (cases "Option.bind (sk_ppp p) ppp_to_ether")
      case None
      then show ?thesis using assms v by (auto simp: enqueue_to_vc_def Let_def intro: calm_frame_and_queue)
    next
      case (Some proto)
      note a = assms [unfolded enqueue_to_vc_def Let_def v Some prod.case option.case]
      show ?thesis
      proof (cases "sc_llr (sv_config ?d) \<and> (proto = ack_rev \<or> proto = nack_rev)")
        case True
        then show ?thesis using a by (auto split: option.splits if_splits intro: calm_schedule)
      next
        case False
        then have "Some d' = Some ?d \<or> (\<exists>mac seq k d1. (if sc_llr (sv_config ?d) then llr_receive now vc seq mac ?d else Some (True, ?d)) = Some (k, d1) \<and>
            frame_and_queue now (p\<lparr>sk_ppp := None\<rparr>) d1 = Some d')"
          using a by (auto split: option.splits if_splits)
        then show ?thesis
        proof (elim disjE exE conjE)
          fix mac seq k d1
          assume r: "(if sc_llr (sv_config ?d) then llr_receive now vc seq mac ?d else Some (True, ?d)) = Some (k, d1)"
            and q: "frame_and_queue now (p\<lparr>sk_ppp := None\<rparr>) d1 = Some d'"
          have "calm ?d d1 \<and> sv_cbfc d1 = sv_cbfc ?d" using r calm_llr_receive by (auto split: if_splits)
          then show ?thesis using calm_frame_and_queue [OF q] calm_trans by auto
        qed simp
      qed
    qed
  qed (use assms in \<open>simp add: enqueue_to_vc_def Let_def\<close>)
  then show ?thesis using calm_trans [OF calm_init] by blast
qed

lemma calm_main: "enqueue_main p d = (ok, d') \<Longrightarrow> cb_initialized (sv_cbfc d) \<Longrightarrow> calm d (wake now d') \<and> (\<not> ok \<longrightarrow> d' = d)"
  by (auto simp: enqueue_main_def identity_of_def untouched_def intro!: calm_wake split: if_splits)

lemma calm_send:
  assumes "sue_send now p dest proto d = Some (ok, d')"
  shows "calm d d'"
proof (cases "sv_link_up d")
  case True
  let ?d = "init_llr (init_cbfc d)"
  have i: "cb_initialized (sv_cbfc ?d)" by simp
  have "calm ?d d'"
  proof (cases "proto = prot_cbfc_update")
    case True
    obtain k e where m: "enqueue_main (p\<lparr>sk_ppp := Some 0x00FB\<rparr>) ?d = (k, e)" by fastforce
    then have "d' = (if k then wake now e else e)" using assms True \<open>sv_link_up d\<close> by (auto simp: sue_send_def Let_def)
    then show ?thesis using calm_main [OF m i] by (cases k) simp_all
  next
    case False
    then show ?thesis using assms calm_main [OF surjective_pairing i] \<open>sv_link_up d\<close>
      by (auto simp: sue_send_def Let_def dest!: calm_enqueue split: if_splits)
  qed
  then show ?thesis using calm_trans [OF calm_init] by blast
qed (use assms in \<open>simp add: sue_send_def\<close>)

lemma calm_find:
  assumes "find_device_and_send now p target proto d = Some d'"
  shows "calm d d'"
proof (cases "target = sv_remote d")
  case True
  then show ?thesis using assms by (auto simp: find_device_and_send_def intro: calm_send)
next
  case False
  then show ?thesis using assms
    by (auto simp: find_device_and_send_def Let_def identity_of_def completions_def tries_def known_peers_def intro!: calm_other split: if_splits)
qed

lemma calm_count: "calm d (count_credits src vc n d)"
  unfolding count_credits_def
  by (rule calm_cbfc) (auto simp: handle_credit_return_def has_enough_credits_def calculate_credits_for_packet_def split: option.splits if_splits)

lemma credit_return_tx: "credit_return local target vc c = (x, c') \<Longrightarrow>
    cb_tx c' = cb_tx c \<and> cb_initialized c' = cb_initialized c \<and> calculate_credits_for_packet c' = calculate_credits_for_packet c"
  by (auto simp: credit_return_def clear_credits_to_return_def Let_def calculate_credits_for_packet_def fun_eq_iff
      split: if_splits option.splits)

lemma calm_return: "calm d (return_credits now target vc d)"
proof -
  obtain x c where r: "credit_return (sv_address d) target vc (sv_cbfc d) = (x, c)" by fastforce
  have "calm d (d\<lparr>sv_cbfc := c\<rparr>)"
    by (rule calm_cbfc) (use credit_return_tx [OF r] in \<open>simp_all add: has_enough_credits_def split: option.splits\<close>)
  then show ?thesis using r by (auto simp: return_credits_def Let_def intro: calm_trans [OF _ calm_schedule] split: option.split)
qed

lemma calm_credits: "receive_credits now p d = Some d' \<Longrightarrow> cb_initialized (sv_cbfc d) \<Longrightarrow> calm d d'"
proof -
  assume r: "receive_credits now p d = Some d'" and i: "cb_initialized (sv_cbfc d)"
  obtain h src dst where h: "sk_cbfc p = Some h" "sk_eth p = Some (src, dst)"
    using r by (auto simp: receive_credits_def split: option.splits)
  let ?x = "\<lparr>cp_source = src, cp_dest = dst, cp_header = h\<rparr>"
  show ?thesis
  proof (cases "0 < (ucast (ch_credits h) :: u32)")
    case True
    then have "d' = wake now (d\<lparr>sv_cbfc := snd (receive_credit_packet ?x (sv_cbfc d))\<rparr>)"
      using r h by (simp add: receive_credits_def receive_credit_packet_def Let_def)
    moreover have "cb_initialized (snd (receive_credit_packet ?x (sv_cbfc d)))"
      using i by (simp add: receive_credit_packet_def add_tx_credits_def Let_def)
    ultimately show ?thesis by (auto intro!: calm_wake simp: identity_of_def untouched_def)
  next
    case False
    then show ?thesis using r h by (simp add: receive_credits_def receive_credit_packet_def Let_def)
  qed
qed

lemma calm_processing: "calm d (enqueue_to_processing now item d)"
  unfolding enqueue_to_processing_def Let_def
  by (auto simp: identity_of_def completions_def tries_def known_peers_def intro!: calm_other)

lemma calm_data: "calm d (receive_data now original p vc proto d)"
  by (simp add: receive_data_def calm_processing)

lemma calm_receive:
  assumes "sue_receive now corrupt p d = Some d'"
  shows "calm d d'"
proof -
  let ?d = "init_llr (init_cbfc d)"
  have "calm ?d d'"
  proof (cases "corrupt \<or> sk_ppp p = None")
    case True
    then show ?thesis using assms by (auto simp: sue_receive_def Let_def split: if_splits)
  next
    case False
    then obtain ppp where p: "sk_ppp p = Some ppp" "\<not> corrupt" by blast
    note a = assms [unfolded sue_receive_def Let_def p(1) option.case if_not_P [OF p(2)]]
    consider (ack) "sc_llr (sv_config ?d) \<and> (ppp = 0x1111 \<or> ppp = 0x2222)" | (credit) "ppp = 0x00FB"
      | (data) "\<not> (sc_llr (sv_config ?d) \<and> ppp = 0x1111)" "\<not> (sc_llr (sv_config ?d) \<and> ppp = 0x2222)" "ppp \<noteq> 0x00FB" by blast
    then show ?thesis
    proof cases
      case ack
      then show ?thesis using a by (auto intro: calm_schedule split: if_splits)
    next
      case credit
      then show ?thesis using a by (auto intro: calm_schedule calm_credits split: if_splits)
    next
      case data
      note b = a [unfolded if_not_P [OF data(1)] if_not_P [OF data(2)] if_not_P [OF data(3)]]
      from b show ?thesis
        by (auto split: option.splits if_splits intro: calm_data dest!: calm_llr_receive intro: calm_trans [OF _ calm_data])
    qed
  qed
  then show ?thesis using calm_trans [OF calm_init] by blast
qed

section \<open>Processing is calm\<close>

lemma calm_start: "calm d (start_processing now d)"
  by (auto simp: start_processing_def identity_of_def completions_def tries_def known_peers_def intro!: calm_other split: list.split)

lemma calm_pop: "pop_processing n d = Some d' \<Longrightarrow> calm d d'"
  by (auto simp: pop_processing_def identity_of_def completions_def tries_def known_peers_def intro!: calm_other split: list.splits)

lemma calm_pay: "pay_forwarding mac vc n d = Some d' \<Longrightarrow> calm d d'"
  by (auto simp: pay_forwarding_def consume_dynamic_credits_def decrement_tx_credits_def intro!: calm_cbfc
      split: if_splits option.splits)
    (auto simp: has_enough_credits_def calculate_credits_for_packet_def word_le_nat_alt unat_sub split: if_splits option.splits)

lemma calm_switch [simp]: "calm d (d\<lparr>sv_switch := w\<rparr>)" "calm d (d\<lparr>sv_forwarded := x\<rparr>)" "calm d (d\<lparr>sv_delivered := y\<rparr>)"
    "calm d (d\<lparr>sv_scheduled := b\<rparr>)" "calm d (d\<lparr>sv_link_up := u\<rparr>)"
  by (rule calm_other; simp add: identity_of_def completions_def tries_def known_peers_def)+

lemma calm_forwarding:
  assumes "process_switch_forwarding now item eth d = Some (ok, d')"
  shows "calm d d'"
proof -
  obtain src dst where e: "eth = (src, dst)" by fastforce
  show ?thesis
  proof (cases "sw_busy (sv_switch d) \<or> map_of (sw_table (sv_switch d)) dst = None")
    case True
    then show ?thesis using assms e by (auto simp: process_switch_forwarding_def Let_def split: if_splits)
  next
    case False
    then obtain out where o: "map_of (sw_table (sv_switch d)) dst = Some out" "\<not> sw_busy (sv_switch d)" by blast
    note a = assms [unfolded e process_switch_forwarding_def Let_def prod.case if_not_P [OF o(2)] o(1) option.case]
    show ?thesis
    proof (cases "map_of (sv_ports d) out")
      case (Some mac)
      show ?thesis
      proof (cases "sv_index d = out")
        case True
        then show ?thesis using a Some by (auto dest!: calm_send)
      next
        case False
        then show ?thesis using a Some calm_pay
          by (auto split: option.splits intro: calm_trans [OF calm_trans [OF _ calm_schedule] calm_switch(1)])
      qed
    qed (use a in simp)
  qed
qed

lemma calm_forwarded: "calm d (forwarding_complete now target p src vc d)"
  unfolding forwarding_complete_def Let_def
  by (auto simp: identity_of_def completions_def tries_def known_peers_def intro!: calm_other)

lemma calm_endpoint: "calm d (process_at_endpoint now item eth d)"
  unfolding process_at_endpoint_def Let_def
  by (rule calm_trans [OF calm_trans [OF calm_switch(3) calm_count] calm_return])

lemma calm_received:
  assumes "processing_received now item d = Some d'"
  shows "calm d d'"
proof -
  let ?d = "d\<lparr>sv_scheduled := False\<rparr>" and ?n = "sk_size (pi_packet item)"
  obtain eth where e: "sk_eth (pi_packet item) = Some eth" using assms by (auto simp: processing_received_def Let_def split: option.splits)
  obtain d2 where d2: "(if is_switch ?d
             then (case process_switch_forwarding now item eth ?d of
                 None \<Rightarrow> None
               | Some (forwarded, d1) \<Rightarrow> if forwarded then pop_processing ?n d1 else Some d1)
             else map_option (process_at_endpoint now item eth) (pop_processing ?n ?d)) = Some d2"
      "d' = (if sv_processing d2 = [] then d2 else schedule (now + sc_schedule_delay (sv_config d2)) StartProcessing d2)"
    using assms by (auto simp: processing_received_def e Let_def)
  have "calm ?d d2" using d2(1)
    by (auto split: if_splits option.splits intro: calm_trans [OF _ calm_endpoint] dest!: calm_forwarding calm_pop
        elim: calm_trans)
  from calm_trans [OF calm_switch(4) this] have "calm d d2" .
  then show ?thesis by (auto simp: d2(2) intro: calm_trans [OF _ calm_schedule])
qed

lemma calm_ports:
  "llr_port_ack vc k mac (sv_port_llr d) = Some n \<Longrightarrow> calm d (d\<lparr>sv_port_llr := n\<rparr>)"
  "llr_port_nack vc k mac (sv_port_llr d) = Some n \<Longrightarrow> calm d (d\<lparr>sv_port_llr := n\<rparr>)"
  by (rule calm_llr(1), drule known_llr(3) known_llr(4), simp add: known_peers_def)+

lemma calm_answer: "llr_answer now ack p d = Some d' \<Longrightarrow> calm d d'"
  by (auto simp: llr_answer_def intro: calm_ports calm_llr(2) split: option.splits if_splits)

section \<open>The transmitter\<close>

definition sender_ok :: "sue_device \<Rightarrow> bool" where
  "sender_ok d \<longleftrightarrow> (sv_busy d \<longleftrightarrow> sv_current d \<noteq> None) \<and> completions d = (if sv_busy d then 1 else 0) \<and>
     untouched d \<and> (\<not> sv_busy d \<and> can_send d \<longrightarrow> tries d \<noteq> {})"

lemma sender_calm: "calm d d' \<Longrightarrow> sender_ok d \<Longrightarrow> sender_ok d'"
  by (auto simp: calm_def sender_ok_def)

text \<open>A transmission that begins.\<close>

definition begins :: "sue_device \<Rightarrow> sue_device \<Rightarrow> bool" where
  "begins d d' \<longleftrightarrow> identity_of d' = identity_of d \<and> \<not> sv_busy d \<and> sv_busy d' \<and> sv_current d' \<noteq> None \<and> completions d' = completions d + 1 \<and>
     (untouched d \<longrightarrow> untouched d') \<and> length (sv_wire d') = length (sv_wire d) + 1"

lemma begins_start: "transmit_start now p d = Some d' \<Longrightarrow> begins d d'"
  by (auto simp: transmit_start_def begins_def identity_of_def completions_def untouched_def schedule_def Let_def
      split: if_splits option.splits)

lemma first_packet:
  assumes "\<not> is_vc_queue_empty m vc"
  obtains p m' where "dequeue_from_vc_queue vc m = (Some p, m')" "get_first_packet_size m vc = sk_size p"
    "\<And>v. is_vc_queue_empty m v \<Longrightarrow> is_vc_queue_empty m' v"
proof -
  obtain q p ps where q: "qm_queues m vc = Some q" "dq_items q = p # ps"
    using assms by (auto simp: is_vc_queue_empty_def neq_Nil_conv split: option.splits)
  show thesis
  proof (rule that)
    show "dequeue_from_vc_queue vc m = (Some p, m\<lparr>qm_queues := (qm_queues m)(vc \<mapsto> q\<lparr>dq_items := ps, dq_bytes := dq_bytes q - sk_size p\<rparr>)\<rparr>)"
      by (simp add: dequeue_from_vc_queue_def dq_dequeue_def q)
    show "get_first_packet_size m vc = sk_size p" by (simp add: get_first_packet_size_def q)
    show "is_vc_queue_empty (m\<lparr>qm_queues := (qm_queues m)(vc \<mapsto> q\<lparr>dq_items := ps, dq_bytes := dq_bytes q - sk_size p\<rparr>)\<rparr>) v"
      if "is_vc_queue_empty m v" for v using that q by (auto simp: is_vc_queue_empty_def)
  qed
qed

text \<open>A packet that was found affordable is paid for.\<close>

lemma consume_enough:
  assumes "has_enough_credits c mac vc n"
  obtains c' where "consume_dynamic_credits mac vc n c = (True, c')" "cb_initialized c' = cb_initialized c"
  using assms by (auto simp: has_enough_credits_def consume_dynamic_credits_def decrement_tx_credits_def split: option.splits)

lemma take_none: "\<not> eligible vc d \<Longrightarrow> take_packet vc d = (None, d)"
  by (auto simp: eligible_def take_packet_def Let_def)

lemma take_some:
  assumes "eligible vc d"
  obtains p d1 where "take_packet vc d = (Some p, d1)" "identity_of d1 = identity_of d" "sv_busy d1 = sv_busy d"
    "completions d1 = completions d" "sv_wire d1 = sv_wire d" "untouched d \<Longrightarrow> untouched d1"
proof -
  have ne: "\<not> is_vc_queue_empty (sv_queues d) vc" using assms by (simp add: eligible_def)
  obtain p m' where q: "dequeue_from_vc_queue vc (sv_queues d) = (Some p, m')" "get_first_packet_size (sv_queues d) vc = sk_size p"
    "\<And>v. is_vc_queue_empty (sv_queues d) v \<Longrightarrow> is_vc_queue_empty m' v" using first_packet [OF ne] by blast
  show thesis
  proof (cases "sc_cbfc (sv_config d)")
    case True
    then have e: "0 < sk_size p" "has_enough_credits (sv_cbfc d) (sv_remote d) vc (sk_size p)"
      using assms q(2) by (auto simp: eligible_def)
    obtain c where c: "consume_dynamic_credits (sv_remote d) vc (sk_size p) (sv_cbfc d) = (True, c)"
        "cb_initialized c = cb_initialized (sv_cbfc d)" using consume_enough [OF e(2)] by blast
    have "take_packet vc d = (Some p, d\<lparr>sv_queues := m', sv_cbfc := c\<rparr>)" using True ne q e c by (simp add: take_packet_def Let_def)
    then show thesis by (rule that) (use q(3) c(2) in \<open>auto simp: identity_of_def completions_def untouched_def\<close>)
  next
    case False
    then have "take_packet vc d = (Some p, d\<lparr>sv_queues := m'\<rparr>)" using ne q by (simp add: take_packet_def Let_def)
    then show thesis by (rule that) (use q(3) in \<open>auto simp: identity_of_def completions_def untouched_def\<close>)
  qed
qed

lemma begins_after:
  "begins d1 d' \<Longrightarrow> identity_of d1 = identity_of d \<Longrightarrow> sv_busy d1 = sv_busy d \<Longrightarrow> completions d1 = completions d \<Longrightarrow>
   sv_wire d1 = sv_wire d \<Longrightarrow> (untouched d \<Longrightarrow> untouched d1) \<Longrightarrow> begins d d'"
  by (simp add: begins_def)

lemma poll_result:
  "poll_vcs now vcs (lv, d) = Some (lv', d') \<Longrightarrow>
   begins d d' \<or> (d' = d \<and> lv' = lv \<and> (\<forall>vc \<in> set vcs. \<not> eligible vc d))"
proof (induction vcs)
  case (Cons vc vcs)
  show ?case
  proof (cases "eligible vc d")
    case True
    obtain p d1 where t: "take_packet vc d = (Some p, d1)" "identity_of d1 = identity_of d" "sv_busy d1 = sv_busy d"
      "completions d1 = completions d" "sv_wire d1 = sv_wire d" "untouched d \<Longrightarrow> untouched d1" using take_some [OF True] by blast
    have "transmit_start now p d1 = Some d'" using Cons.prems t(1) by auto
    from begins_after [OF begins_start [OF this] t(2-6)] show ?thesis by blast
  next
    case False
    then show ?thesis using Cons take_none [OF False] by simp
  qed
qed simp

lemma vc_order_all: "set (vc_order lv n) = {vc. vc < n}"
proof (cases "n = 0")
  case False
  then have n: "0 < unat n" by (simp add: unat_gt_0)
  have "\<exists>i < unat n. vc = of_nat ((unat lv + i) mod unat n)" if "vc < n" for vc
  proof -
    let ?i = "(unat vc + (unat n - unat lv mod unat n)) mod unat n"
    have "(unat lv + ?i) mod unat n = (unat lv mod unat n + (unat vc + (unat n - unat lv mod unat n))) mod unat n"
      by (simp add: mod_simps)
    also have "\<dots> = (unat vc + unat n) mod unat n" using mod_less_divisor [OF n, of "unat lv"] by (simp add: add.commute)
    also have "\<dots> = unat vc" using that by (simp add: word_less_nat_alt)
    finally have "vc = of_nat ((unat lv + ?i) mod unat n)" by simp
    then show ?thesis using mod_less_divisor [OF n] by blast
  qed
  moreover have "of_nat ((unat lv + i) mod unat n) < n" for i
  proof -
    have m: "(unat lv + i) mod unat n < unat n" using n by simp
    then have "(unat lv + i) mod unat n < 256" using unsigned_less [of n, where ?'a = nat] by simp
    then show ?thesis using m by (simp add: word_less_nat_alt unat_of_nat)
  qed
  ultimately show ?thesis by (fastforce simp: vc_order_def image_iff Bex_def)
qed (simp add: vc_order_def)

lemma try_result:
  assumes "try_transmit now (lv, d) = Some (lv', d')"
  shows "begins d d' \<or> (d' = d \<and> lv' = lv \<and> (sv_busy d \<or> \<not> can_send d))"
proof (cases "sv_busy d")
  case False
  show ?thesis
  proof (cases "sv_main d")
    case Nil
    then have "poll_vcs now (vc_order lv (sc_num_vcs (sv_config d))) (lv, d) = Some (lv', d')"
      using assms False by (simp add: try_transmit_def)
    from poll_result [OF this] show ?thesis using Nil by (auto simp: can_send_def vc_order_all)
  next
    case (Cons p ps)
    then have "transmit_start now p (d\<lparr>sv_main := ps\<rparr>) = Some d'" using assms False by (auto simp: try_transmit_def)
    from begins_after [OF begins_start [OF this], of d] show ?thesis
      by (auto simp: identity_of_def completions_def untouched_def)
  qed
qed (use assms in \<open>simp add: try_transmit_def\<close>)

section \<open>Every step\<close>

lemma completions_remove:
  "(now, e) \<in> set (sv_events d) \<Longrightarrow> completions (d\<lparr>sv_events := remove1 (now, e) (sv_events d)\<rparr>) =
     completions d - (if e = TransmitComplete then 1 else 0)"
  by (auto simp: completions_def filter_remove1 length_remove1)

lemma tries_remove: "e \<noteq> TryTransmit \<Longrightarrow> tries (d\<lparr>sv_events := remove1 (now, e) (sv_events d)\<rparr>) = tries d"
proof -
  assume "e \<noteq> TryTransmit"
  then have "(t, TryTransmit) \<in> set (remove1 (now, e) xs) \<longleftrightarrow> (t, TryTransmit) \<in> set xs" for t xs
    by (induction xs) auto
  then show ?thesis by (simp add: tries_def)
qed

lemma eligible_events [simp]: "eligible vc (d\<lparr>sv_events := es\<rparr>) = eligible vc d"
  by (simp add: eligible_def)

lemma can_send_events [simp]: "can_send (d\<lparr>sv_events := es\<rparr>) = can_send d" "untouched (d\<lparr>sv_events := es\<rparr>) = untouched d"
    "identity_of (d\<lparr>sv_events := es\<rparr>) = identity_of d"
  by (simp_all add: can_send_def untouched_def identity_of_def)

lemma sender_remove:
  assumes "sender_ok d" "(now, e) \<in> set (sv_events d)" "e \<noteq> TryTransmit" "e \<noteq> TransmitComplete"
  shows "sender_ok (d\<lparr>sv_events := remove1 (now, e) (sv_events d)\<rparr>)"
  using assms completions_remove [OF assms(2)] tries_remove [OF assms(3)] by (simp add: sender_ok_def)

lemma sender_begins: "begins d d' \<Longrightarrow> completions d = 0 \<Longrightarrow> untouched d \<Longrightarrow> sender_ok d'"
  by (simp add: begins_def sender_ok_def)

lemma callback_idle: "sender_ok d \<Longrightarrow> llr_try_transmit now d = Some d"
  by (auto simp: sender_ok_def llr_try_transmit_def split: option.split)

lemma sends_packets: "can_send d \<Longrightarrow> has_packets d"
  using vcs_below [of "sc_num_vcs (sv_config d)"] by (auto simp: can_send_def has_packets_def eligible_def)

lemma complete_result:
  assumes "sender_ok d" "(now, TransmitComplete) \<in> set (sv_events d)"
  obtains d' where "transmit_complete now (d\<lparr>sv_events := remove1 (now, TransmitComplete) (sv_events d)\<rparr>) = Some d'" "sender_ok d'"
proof -
  let ?d = "d\<lparr>sv_events := remove1 (now, TransmitComplete) (sv_events d), sv_busy := False, sv_current := None\<rparr>"
  let ?d' = "if has_packets ?d then schedule (now + sc_vc_delay (sv_config d)) TryTransmit ?d else ?d"
  have "0 < completions d" using assms(2) by (auto simp: completions_def length_filter_conv_card card_gt_0_iff in_set_conv_nth)
  then have b: "sv_busy d" "sv_current d \<noteq> None" "completions d = 1" using assms(1) by (auto simp: sender_ok_def split: if_splits)
  have "completions ?d = 0" using completions_remove [OF assms(2)] b(3) by (simp add: completions_def)
  moreover have "untouched ?d" using assms(1) by (simp add: sender_ok_def untouched_def)
  moreover have "can_send ?d' = can_send ?d" by (simp add: can_send_def eligible_def)
  ultimately have "sender_ok ?d'"
    using sends_packets [of ?d] by (auto simp: sender_ok_def untouched_def can_send_def eligible_def)
  then show thesis using b by (intro that [of ?d']) (simp_all add: transmit_complete_def Let_def)
qed

lemma calm_timer:
  assumes "llr_timer now vc mac d = Some d'" "sender_ok d"
  shows "calm d d'"
proof (cases "is_switch d")
  case True
  then obtain again n where r: "llr_port_resend vc mac (sv_port_llr d) = Some (again, n)"
      "(if again then llr_try_transmit now (d\<lparr>sv_port_llr := n\<rparr>) else Some (d\<lparr>sv_port_llr := n\<rparr>)) = Some d'"
    using assms(1) by (auto simp: llr_timer_def Let_def split: option.splits)
  have c: "calm d (d\<lparr>sv_port_llr := n\<rparr>)" using known_llr(5) [OF r(1)] by (intro calm_llr) (simp add: known_peers_def)
  then show ?thesis using r(2) callback_idle [OF sender_calm [OF c assms(2)]] by (auto split: if_splits)
next
  case False
  obtain again n where r: "llr_node_resend vc (sv_node_llr d) = (again, n)" by fastforce
  then show ?thesis using assms(1) False callback_idle [OF sender_calm [OF calm_llr(2) assms(2)], of now n] calm_llr(2)
    by (auto simp: llr_timer_def Let_def split: if_splits)
qed

lemma calm_event:
  assumes "run_event now e (lv, d) = Some (lv', d')" "e \<noteq> TryTransmit" "e \<noteq> TransmitComplete"
  shows "calm d d'"
proof (cases e)
  case (EgressReturn target vc n)
  then show ?thesis using assms(1) calm_trans [OF calm_count calm_return] by (auto simp: run_event_def Let_def)
next
  case (SendReply p proto)
  then show ?thesis using assms(1) by (auto simp: run_event_def Let_def intro: calm_find split: if_splits)
qed (use assms in \<open>auto simp: run_event_def Let_def intro: calm_start calm_received calm_forwarded calm_count calm_return
       calm_find calm_answer\<close>)

lemma sender_ok_step: "sue_step st st' \<Longrightarrow> sender_ok (snd st) \<Longrightarrow> sender_ok (snd st')"
proof (induction rule: sue_step.induct)
  case (event now e d lv st)
  let ?d = "d\<lparr>sv_events := remove1 (now, e) (sv_events d)\<rparr>"
  obtain lv' d' where st: "st = (lv', d')" by fastforce
  note ok = event(3) [unfolded snd_conv]
  consider "e = TryTransmit" | "e = TransmitComplete" | "e \<noteq> TryTransmit" "e \<noteq> TransmitComplete" by blast
  then show ?case
  proof cases
    case 1
    have c: "completions ?d = completions d" using completions_remove [OF event(1)] 1 by simp
    have "try_transmit now (lv, ?d) = Some (lv', d')" using event(2) 1 st by (simp add: run_event_def)
    from try_result [OF this] show ?thesis
    proof (elim disjE conjE)
      assume b: "begins ?d d'"
      then show ?thesis using sender_begins [OF b] ok c by (simp add: st sender_ok_def begins_def)
    qed (use ok c in \<open>simp_all add: st sender_ok_def\<close>)
  next
    case 2
    then show ?thesis using event(2) complete_result [OF ok, of now] event(1) by (auto simp: run_event_def st)
  next
    case 3
    then show ?thesis using sender_calm [OF calm_event [OF event(2) [unfolded st]] sender_remove [OF ok event(1)]] by (simp add: st)
  qed
next
  case (timer now vc mac d d' lv)
  then show ?case using sender_calm [OF calm_timer [OF timer(1)]] by simp
qed (auto dest: calm_send calm_enqueue calm_receive intro: sender_calm sender_calm [OF calm_switch(5)] simp: sue_attach_def)

lemma sender_start: "sender_ok (new_sue_device config addr remote index ports table)"
  by (simp add: sender_ok_def new_sue_device_def completions_def tries_def known_peers_def untouched_def can_send_def eligible_def
      is_vc_queue_empty_def new_queue_manager_def)

lemma sender_reachable: "sue_reachable config st \<Longrightarrow> sender_ok (snd st)"
  by (induction rule: sue_reachable.induct) (use sender_start sender_ok_step in auto)

lemma calm_config: "calm d d' \<Longrightarrow> identity_of d' = identity_of d"
  by (simp add: calm_def)

end
