(* ===== verification/SueProcessing.thy ===== *)
theory SueProcessing
  imports SueDeviceInv
begin

text \<open>
  The processing queue of a SUE device over all its operations and events: what it holds, what it counts, and
  the events that move it on.
\<close>

section \<open>The view of the queue\<close>

definition rx_view :: "sue_device \<Rightarrow> process_item list \<times> u32 \<times> u32 \<times> bool \<times> (sue_packet \<times> u16) list" where
  "rx_view d = (sv_processing d, sv_processing_size d, sv_processing_bytes d, sv_scheduled d, sv_delivered d)"

definition processing_events :: "(ns \<times> sue_event) list \<Rightarrow> process_item list" where
  "processing_events es = List.map_filter (\<lambda>(t, e). case e of ProcessReceived item \<Rightarrow> Some item | _ \<Rightarrow> None) es"

definition start_pending :: "sue_device \<Rightarrow> bool" where
  "start_pending d \<longleftrightarrow> StartProcessing \<in> snd ` set (sv_events d)"

text \<open>An operation that does not touch the processing queue.\<close>

definition quiet :: "sue_device \<Rightarrow> sue_device \<Rightarrow> bool" where
  "quiet d d' \<longleftrightarrow> identity_of d' = identity_of d \<and> rx_view d' = rx_view d \<and>
     (\<exists>es. sv_events d' = sv_events d @ es \<and> processing_events es = [])"

lemma processing_append [simp]: "processing_events (es @ fs) = processing_events es @ processing_events fs"
  by (simp add: processing_events_def map_filter_def)

lemma processing_one [simp]: "processing_events [] = []"
    "processing_events ((t, e) # es) = (case e of ProcessReceived item \<Rightarrow> [item] | _ \<Rightarrow> []) @ processing_events es"
  by (simp_all add: processing_events_def map_filter_simps split: sue_event.split)

lemma quiet_refl [simp]: "quiet d d" by (simp add: quiet_def)

lemma quiet_trans: "quiet d d' \<Longrightarrow> quiet d' d'' \<Longrightarrow> quiet d d''"
  by (fastforce simp: quiet_def)

lemma quiet_same: "identity_of d' = identity_of d \<Longrightarrow> rx_view d' = rx_view d \<Longrightarrow> sv_events d' = sv_events d \<Longrightarrow> quiet d d'"
  by (simp add: quiet_def)

lemma quiet_schedule: "(\<And>item. e \<noteq> ProcessReceived item) \<Longrightarrow> quiet d (schedule t e d)"
  by (simp add: quiet_def identity_of_def rx_view_def split: sue_event.split)

lemma quiet_wake: "quiet d (wake now d)"
  by (simp add: wake_def quiet_schedule)

lemma quiet_fields [simp]: "quiet d (d\<lparr>sv_queues := q\<rparr>)" "quiet d (d\<lparr>sv_cbfc := c\<rparr>)" "quiet d (d\<lparr>sv_port_llr := n\<rparr>)"
    "quiet d (d\<lparr>sv_node_llr := m\<rparr>)" "quiet d (d\<lparr>sv_main := ps\<rparr>)" "quiet d (d\<lparr>sv_switch := w\<rparr>)" "quiet d (d\<lparr>sv_internal := x\<rparr>)"
    "quiet d (d\<lparr>sv_link_up := u\<rparr>)" "quiet d (d\<lparr>sv_forwarded := y\<rparr>)" "quiet d (d\<lparr>sv_wire := v\<rparr>)" "quiet d (d\<lparr>sv_busy := b, sv_current := k\<rparr>)"
    "quiet d (d\<lparr>sv_current := k\<rparr>)"
  by (rule quiet_same; simp add: identity_of_def rx_view_def)+

lemma quiet_init: "quiet d (init_llr (init_cbfc d))"
  by (rule quiet_same) (simp_all add: init_llr_def init_cbfc_def Let_def identity_of_def rx_view_def)

lemma quiet_frame: "frame_packet p vc d = Some (p', d') \<Longrightarrow> quiet d d'"
  by (auto simp: frame_packet_def frame_at_node_def frame_at_port_def Let_def split: if_splits prod.splits)

lemma quiet_frame_and_queue: "frame_and_queue now p d = Some d' \<Longrightarrow> quiet d d'"
  by (auto simp: frame_and_queue_def split: option.splits dest!: quiet_frame
      elim: quiet_trans intro: quiet_trans [OF quiet_trans [OF _ quiet_fields(1)] quiet_wake])

lemma quiet_reply: "quiet d (schedule_reply now vc r mac d)"
  by (simp add: schedule_reply_def quiet_schedule split: option.split)

lemma quiet_llr_receive: "llr_receive now vc seq mac d = Some (ok, d') \<Longrightarrow> quiet d d'"
  by (auto simp: llr_receive_def intro: quiet_trans [OF quiet_fields(3) quiet_reply] quiet_trans [OF quiet_fields(4) quiet_reply]
      split: if_splits prod.splits)

lemma quiet_enqueue: "enqueue_to_vc now p d = Some (ok, d') \<Longrightarrow> quiet d d'"
  unfolding enqueue_to_vc_def Let_def
  by (rule quiet_trans [OF quiet_init])
    (auto split: option.splits if_splits intro: quiet_schedule quiet_frame_and_queue
      dest!: quiet_frame_and_queue quiet_llr_receive elim: quiet_trans)

lemma quiet_main: "quiet d (snd (enqueue_main p d))"
  by (simp add: enqueue_main_def)

lemma quiet_send:
  assumes "sue_send now p dest proto d = Some (ok, d')"
  shows "quiet d d'"
proof (cases "sv_link_up d")
  case True
  let ?d = "init_llr (init_cbfc d)"
  obtain p' where "d' = snd (enqueue_main p' ?d) \<or> d' = wake now (snd (enqueue_main p' ?d)) \<or> (\<exists>k. enqueue_to_vc now p' ?d = Some (k, d'))"
    using assms True by (auto simp: sue_send_def Let_def split: if_splits prod.splits) (metis snd_conv)+
  then have "quiet ?d d'" using quiet_main quiet_trans [OF quiet_main quiet_wake] quiet_enqueue by auto
  then show ?thesis by (rule quiet_trans [OF quiet_init])
qed (use assms in \<open>simp add: sue_send_def\<close>)

lemma quiet_find: "find_device_and_send now p target proto d = Some d' \<Longrightarrow> quiet d d'"
  by (auto simp: find_device_and_send_def Let_def split: if_splits dest!: quiet_send)

lemma quiet_count: "quiet d (count_credits src vc n d)"
  by (simp add: count_credits_def)

lemma quiet_return: "quiet d (return_credits now target vc d)"
  by (auto simp: return_credits_def Let_def intro: quiet_trans [OF quiet_fields(2) quiet_schedule] split: option.split prod.split)

lemma quiet_credits: "receive_credits now p d = Some d' \<Longrightarrow> quiet d d'"
  by (auto simp: receive_credits_def Let_def intro: quiet_trans [OF quiet_fields(2) quiet_wake] split: option.splits prod.splits if_splits)

lemma quiet_answer: "llr_answer now ack p d = Some d' \<Longrightarrow> quiet d d'"
  by (auto simp: llr_answer_def split: option.splits if_splits)

lemma quiet_pay: "pay_forwarding mac vc n d = Some d' \<Longrightarrow> quiet d d'"
  by (auto simp: pay_forwarding_def split: if_splits prod.splits)

lemma quiet_forwarded: "quiet d (forwarding_complete now target p src vc d)"
  by (simp add: forwarding_complete_def Let_def quiet_def identity_of_def rx_view_def)

lemma quiet_transmit: "transmit_start now p d = Some d' \<Longrightarrow> quiet d d'"
  by (auto simp: transmit_start_def Let_def quiet_def identity_of_def rx_view_def split: if_splits option.splits)

lemma quiet_take: "take_packet vc d = (po, d') \<Longrightarrow> quiet d d'"
  by (auto simp: take_packet_def Let_def quiet_def identity_of_def rx_view_def split: if_splits option.splits prod.splits)

lemma quiet_poll: "poll_vcs now vcs (lv, d) = Some (lv', d') \<Longrightarrow> quiet d d'"
proof (induction vcs arbitrary: d)
  case (Cons vc vcs)
  then show ?case by (auto split: prod.splits option.splits dest!: quiet_take quiet_transmit elim: quiet_trans)
qed simp

lemma quiet_try: "try_transmit now (lv, d) = Some (lv', d') \<Longrightarrow> quiet d d'"
  by (auto simp: try_transmit_def split: if_splits list.splits dest!: quiet_poll quiet_transmit intro: quiet_trans [OF quiet_fields(5)])

lemma quiet_complete: "transmit_complete now d = Some d' \<Longrightarrow> quiet d d'"
  by (auto simp: transmit_complete_def Let_def intro: quiet_trans [OF quiet_fields(11) quiet_schedule] split: if_splits)

lemma quiet_timer: "llr_timer now vc mac d = Some d' \<Longrightarrow> quiet d d'"
  by (auto simp: llr_timer_def llr_try_transmit_def Let_def split: if_splits option.splits prod.splits
      dest!: quiet_transmit intro: quiet_trans [OF quiet_fields(3)] quiet_trans [OF quiet_fields(4)])

lemma quiet_forwarding:
  assumes "process_switch_forwarding now item eth d = Some (ok, d')"
  shows "quiet d d'"
proof -
  obtain src dst where e: "eth = (src, dst)" by fastforce
  show ?thesis
  proof (cases "sw_busy (sv_switch d) \<or> map_of (sw_table (sv_switch d)) dst = None")
    case True
    then show ?thesis using assms e by (auto simp: process_switch_forwarding_def Let_def split: if_splits)
  next
    case False
    then obtain out where o: "map_of (sw_table (sv_switch d)) dst = Some out" "\<not> sw_busy (sv_switch d)" by blast
    note a = assms [unfolded e process_switch_forwarding_def Let_def prod.case if_not_P [OF o(2)] o(1) option.case]
    have f: "quiet d1 ((schedule t (ForwardingComplete mac p src vc) d1)\<lparr>sv_switch := w\<rparr>)" for t mac p vc d1 w
      by (rule quiet_trans [OF quiet_schedule quiet_fields(6)]) simp
    show ?thesis using a
      by (auto split: option.splits if_splits dest!: quiet_send quiet_pay intro: quiet_trans [OF _ f])
  qed
qed

section \<open>The invariant\<close>

abbreviation item_size :: "process_item \<Rightarrow> nat" where
  "item_size item \<equiv> unat (sk_size (pi_packet item))"

definition queue_ok :: "sue_device \<Rightarrow> bool" where
  "queue_ok d \<longleftrightarrow> (\<forall>item \<in> set (sv_processing d). sk_eth (pi_packet item) \<noteq> None) \<and>
     sv_processing_size d = of_nat (length (sv_processing d)) \<and>
     unat (sv_processing_bytes d) = (\<Sum>item \<leftarrow> sv_processing d. item_size item) \<and>
     sv_processing_bytes d \<le> sc_processing_max (sv_config d) \<and>
     (sv_scheduled d \<longrightarrow> sv_processing d \<noteq> []) \<and>
     processing_events (sv_events d) = (if sv_scheduled d then [hd (sv_processing d)] else []) \<and>
     (sv_processing d \<noteq> [] \<and> \<not> sv_scheduled d \<longrightarrow> start_pending d)"

lemma quiet_ok: "quiet d d' \<Longrightarrow> queue_ok d \<Longrightarrow> queue_ok d'"
  by (auto simp: quiet_def queue_ok_def rx_view_def identity_of_def start_pending_def)

lemma processing_remove:
  "(\<And>item. e \<noteq> ProcessReceived item) \<Longrightarrow> processing_events (remove1 (now, e) es) = processing_events es"
  "(now, ProcessReceived item) \<in> set es \<Longrightarrow> length (processing_events (remove1 (now, ProcessReceived item) es)) = length (processing_events es) - 1"
  "(now, ProcessReceived item) \<in> set es \<Longrightarrow> item \<in> set (processing_events es)"
proof -
  show "processing_events (remove1 (now, e) es) = processing_events es" if "\<And>item. e \<noteq> ProcessReceived item"
    using that by (induction es) (auto split: sue_event.split)
  show m: "item \<in> set (processing_events es)" if "(now, ProcessReceived item) \<in> set es" for es
    using that by (induction es) (auto split: sue_event.split)
  have "(now, ProcessReceived item) \<in> set es \<Longrightarrow>
      Suc (length (processing_events (remove1 (now, ProcessReceived item) es))) = length (processing_events es)"
    by (induction es) (auto split: sue_event.split)
  then show "(now, ProcessReceived item) \<in> set es \<Longrightarrow>
      length (processing_events (remove1 (now, ProcessReceived item) es)) = length (processing_events es) - 1" by simp
qed

lemma ok_remove:
  assumes "queue_ok d" "\<And>item. e \<noteq> ProcessReceived item" "e \<noteq> StartProcessing"
  shows "queue_ok (d\<lparr>sv_events := remove1 (now, e) (sv_events d)\<rparr>)"
proof -
  have "StartProcessing \<in> snd ` set (remove1 (now, e) es) \<longleftrightarrow> StartProcessing \<in> snd ` set es" for es
    using assms(3) by (induction es) auto
  then show ?thesis using assms(1) processing_remove(1) [OF assms(2)] by (simp add: queue_ok_def start_pending_def)
qed

text \<open>The event of a received packet: it is the first of the queue.\<close>

lemma ok_processing:
  assumes "queue_ok d" "(now, ProcessReceived item) \<in> set (sv_events d)"
  obtains rest where "sv_processing d = item # rest" "sv_scheduled d"
    "processing_events (remove1 (now, ProcessReceived item) (sv_events d)) = []"
proof -
  have i: "item \<in> set (processing_events (sv_events d))" by (rule processing_remove(3) [OF assms(2)])
  then have s: "sv_scheduled d" "processing_events (sv_events d) = [hd (sv_processing d)]" "sv_processing d \<noteq> []"
    using assms(1) by (auto simp: queue_ok_def split: if_splits)
  then have "item = hd (sv_processing d)" using i by simp
  then have "sv_processing d = item # tl (sv_processing d)" using s(3) by simp
  moreover have "processing_events (remove1 (now, ProcessReceived item) (sv_events d)) = []"
    using processing_remove(2) [OF assms(2)] s(2) by simp
  ultimately show thesis using that s(1) by blast
qed

lemma small_size:
  assumes "unat (sk_body p) < 0x10000"
  shows "unat (sk_size p) < 0x20000"
proof -
  have "sk_size p = sk_body p + of_nat ((if sk_eth p = None then 0 else 14) + (if sk_cbfc p = None then 0 else 2) + (if sk_ppp p = None then 0 else 2))"
    by (simp add: sk_size_def ethernet_header_size_def ppp_header_size_def)
  then have "unat (sk_size p) \<le> unat (sk_body p) + unat (of_nat ((if sk_eth p = None then 0 else 14) + (if sk_cbfc p = None then 0 else 2) + (if sk_ppp p = None then 0 else 2)) :: u32)"
    by (simp add: unat_word_ariths(1))
  also have "\<dots> \<le> unat (sk_body p) + 18" by simp
  finally show ?thesis using assms by simp
qed

lemma ok_data:
  assumes "queue_ok d" "sk_eth p \<noteq> None" "unat (sk_body p) < 0x10000" "unat (sc_processing_max (sv_config d)) \<le> 0x80000000"
  shows "queue_ok (receive_data now original p vc proto d)"
proof (cases "sv_processing_bytes d + sk_size p \<le> sc_processing_max (sv_config d)")
  case True
  have b: "unat (sv_processing_bytes d) \<le> 0x80000000" using assms(1,4) by (auto simp: queue_ok_def word_le_nat_alt)
  then have sum: "unat (sv_processing_bytes d + sk_size p) = unat (sv_processing_bytes d) + unat (sk_size p)"
    using small_size [OF assms(3)] by (simp add: unat_add_lem [THEN iffD1])
  have hd: "sv_scheduled d \<Longrightarrow> hd (sv_processing d @ xs) = hd (sv_processing d)" for xs
    using assms(1) by (simp add: queue_ok_def)
  show ?thesis using True assms(1,2) sum hd
    by (auto simp: receive_data_def enqueue_to_processing_def Let_def queue_ok_def start_pending_def)
qed (use assms(1) in \<open>simp add: receive_data_def\<close>)

lemma receive_result:
  assumes "sue_receive now corrupt p d = Some d'"
  obtains "quiet d d'"
  | d1 original vc proto where "quiet d d1" "sk_eth p \<noteq> None" "d' = receive_data now original (p\<lparr>sk_ppp := None\<rparr>) vc proto d1"
proof -
  let ?d = "init_llr (init_cbfc d)"
  note base = quiet_init [of d]
  show thesis
  proof (cases "corrupt \<or> sk_ppp p = None")
    case True
    then have "d' = ?d" using assms by (auto simp: sue_receive_def Let_def split: if_splits)
    then show thesis using that(1) base by simp
  next
    case False
    then obtain ppp where p: "sk_ppp p = Some ppp" "\<not> corrupt" by blast
    note a = assms [unfolded sue_receive_def Let_def p(1) option.case if_not_P [OF p(2)]]
    consider (ack) "sc_llr (sv_config ?d) \<and> (ppp = 0x1111 \<or> ppp = 0x2222)" | (credit) "ppp = 0x00FB"
      | (data) "\<not> (sc_llr (sv_config ?d) \<and> ppp = 0x1111)" "\<not> (sc_llr (sv_config ?d) \<and> ppp = 0x2222)" "ppp \<noteq> 0x00FB" by blast
    then show thesis
    proof cases
      case ack
      then have "quiet ?d d'" using a by (auto intro: quiet_schedule split: if_splits)
      then show thesis using that(1) quiet_trans [OF base] by blast
    next
      case credit
      then have "quiet ?d d'" using a by (auto intro: quiet_schedule quiet_credits split: if_splits)
      then show thesis using that(1) quiet_trans [OF base] by blast
    next
      case data
      note b = a [unfolded if_not_P [OF data(1)] if_not_P [OF data(2)] if_not_P [OF data(3)]]
      let ?q = "p\<lparr>sk_ppp := None\<rparr>"
      have e: "extract_vc ?q \<noteq> None \<Longrightarrow> sk_eth p \<noteq> None" by (simp add: extract_vc_def split: option.splits)
      obtain vc proto mac where x: "extract_vc ?q = Some vc" "ppp_to_ether ppp = Some proto" "extract_source ?q = Some mac"
        using b by (auto split: option.splits)
      show thesis
      proof (cases "sk_tag p")
        case None
        then have "d' = ?d" using b x by simp
        then show thesis using that(1) base by simp
      next
        case (Some tag)
        obtain ok d1 where r: "(if sc_llr (sv_config ?d) then llr_receive now vc (st_seq tag) mac ?d else Some (True, ?d)) = Some (ok, d1)"
            "d' = (if ok then receive_data now p ?q vc proto d1 else d1)"
          using b x Some by auto
        have "quiet ?d d1" using r(1) by (auto split: if_splits dest: quiet_llr_receive)
        then have "quiet d d1" by (rule quiet_trans [OF base])
        then show thesis using that r(2) e x(1) by (cases ok) auto
      qed
    qed
  qed
qed

text \<open>A processed packet leaves the queue, and at an endpoint goes to the application.\<close>

lemma ok_pop:
  assumes "sv_processing d = item # rest" "sv_processing_size d = of_nat (length (sv_processing d))"
    "unat (sv_processing_bytes d) = (\<Sum>item \<leftarrow> sv_processing d. item_size item)" "sv_processing_bytes d \<le> limit"
  obtains d' where "pop_processing (sk_size (pi_packet item)) d = Some d'" "quiet (d\<lparr>sv_processing := rest,
      sv_processing_size := of_nat (length rest), sv_processing_bytes := sv_processing_bytes d - sk_size (pi_packet item)\<rparr>) d'"
    "unat (sv_processing_bytes d') = (\<Sum>item \<leftarrow> rest. item_size item)" "sv_processing_bytes d' \<le> limit"
proof (rule that)
  let ?b = "sv_processing_bytes d - sk_size (pi_packet item)"
  let ?d' = "d\<lparr>sv_processing := rest, sv_processing_size := sv_processing_size d - 1, sv_processing_bytes := ?b\<rparr>"
  have le: "sk_size (pi_packet item) \<le> sv_processing_bytes d" using assms(1,3) by (simp add: word_le_nat_alt)
  show "pop_processing (sk_size (pi_packet item)) d = Some ?d'" by (simp add: pop_processing_def assms(1))
  show "quiet (d\<lparr>sv_processing := rest, sv_processing_size := of_nat (length rest), sv_processing_bytes := ?b\<rparr>) ?d'"
    using assms(1,2) by (simp add: quiet_def identity_of_def rx_view_def)
  show u: "unat (sv_processing_bytes ?d') = (\<Sum>item \<leftarrow> rest. item_size item)"
    using assms(1,3) by (simp add: unat_sub [OF le])
  show "sv_processing_bytes ?d' \<le> limit" using assms(1,3,4) u by (simp add: word_le_nat_alt)
qed

lemma endpoint_view:
  "rx_view (process_at_endpoint now item eth d) = (sv_processing d, sv_processing_size d, sv_processing_bytes d, sv_scheduled d,
     sv_delivered d @ [((pi_packet item)\<lparr>sk_eth := None\<rparr>, pi_protocol item)])"
  "identity_of (process_at_endpoint now item eth d) = identity_of d"
  "\<exists>es. sv_events (process_at_endpoint now item eth d) = sv_events d @ es \<and> processing_events es = []"
proof -
  let ?p = "(pi_packet item)\<lparr>sk_eth := None\<rparr>"
  let ?d = "d\<lparr>sv_delivered := sv_delivered d @ [(?p, pi_protocol item)]\<rparr>"
  have q: "quiet ?d (process_at_endpoint now item eth d)"
    unfolding process_at_endpoint_def Let_def by (rule quiet_trans [OF quiet_count quiet_return])
  show "rx_view (process_at_endpoint now item eth d) = (sv_processing d, sv_processing_size d, sv_processing_bytes d, sv_scheduled d,
     sv_delivered d @ [(?p, pi_protocol item)])" using q by (simp add: quiet_def rx_view_def)
  show "identity_of (process_at_endpoint now item eth d) = identity_of d" using q by (simp add: quiet_def identity_of_def)
  show "\<exists>es. sv_events (process_at_endpoint now item eth d) = sv_events d @ es \<and> processing_events es = []"
    using q by (simp add: quiet_def)
qed

text \<open>Between the end of processing a packet and the start of the next.\<close>

definition between :: "sue_device \<Rightarrow> bool" where
  "between d \<longleftrightarrow> (\<forall>item \<in> set (sv_processing d). sk_eth (pi_packet item) \<noteq> None) \<and>
     sv_processing_size d = of_nat (length (sv_processing d)) \<and>
     unat (sv_processing_bytes d) = (\<Sum>item \<leftarrow> sv_processing d. item_size item) \<and>
     sv_processing_bytes d \<le> sc_processing_max (sv_config d) \<and> \<not> sv_scheduled d \<and> processing_events (sv_events d) = []"

lemma between_quiet: "quiet d d' \<Longrightarrow> between d \<Longrightarrow> between d'"
  by (auto simp: quiet_def between_def rx_view_def identity_of_def)

lemma between_ok:
  "between d \<Longrightarrow> queue_ok (if sv_processing d = [] then d else schedule t StartProcessing d)"
  by (auto simp: between_def queue_ok_def start_pending_def)

lemma between_pop:
  assumes "between d" "sv_processing d = item # rest"
  obtains d' where "pop_processing (sk_size (pi_packet item)) d = Some d'" "between d'" "sv_processing d' = rest"
    "sv_delivered d' = sv_delivered d" "sv_address d' = sv_address d"
proof -
  obtain d' where p: "pop_processing (sk_size (pi_packet item)) d = Some d'" "quiet (d\<lparr>sv_processing := rest,
      sv_processing_size := of_nat (length rest), sv_processing_bytes := sv_processing_bytes d - sk_size (pi_packet item)\<rparr>) d'"
    "unat (sv_processing_bytes d') = (\<Sum>item \<leftarrow> rest. item_size item)" "sv_processing_bytes d' \<le> sc_processing_max (sv_config d)"
    using ok_pop [of d item rest "sc_processing_max (sv_config d)"] assms by (auto simp: between_def)
  show thesis
    by (rule that [OF p(1)]) (use p(2-4) assms in \<open>auto simp: quiet_def between_def rx_view_def identity_of_def\<close>)
qed

lemma between_endpoint: "between d \<Longrightarrow> between (process_at_endpoint now item eth d)"
  using endpoint_view [of now item eth d] by (auto simp: between_def rx_view_def identity_of_def)

lemma begin_processing:
  assumes "queue_ok d" "(now, ProcessReceived item) \<in> set (sv_events d)"
  obtains rest eth where "between (d\<lparr>sv_events := remove1 (now, ProcessReceived item) (sv_events d), sv_scheduled := False\<rparr>)"
    "sv_processing d = item # rest" "sk_eth (pi_packet item) = Some eth"
proof -
  obtain rest where r: "sv_processing d = item # rest" "sv_scheduled d"
    "processing_events (remove1 (now, ProcessReceived item) (sv_events d)) = []" using ok_processing [OF assms] by blast
  then show thesis using that assms(1) by (auto simp: queue_ok_def between_def)
qed

lemma received_ok:
  assumes "queue_ok d" "(now, ProcessReceived item) \<in> set (sv_events d)"
    and "processing_received now item (d\<lparr>sv_events := remove1 (now, ProcessReceived item) (sv_events d)\<rparr>) = Some d'"
  shows "queue_ok d'"
proof -
  let ?d = "d\<lparr>sv_events := remove1 (now, ProcessReceived item) (sv_events d), sv_scheduled := False\<rparr>" and ?n = "sk_size (pi_packet item)"
  obtain rest eth where b: "between ?d" "sv_processing d = item # rest" "sk_eth (pi_packet item) = Some eth"
    using begin_processing [OF assms(1,2)] by blast
  obtain d2 where d2: "(if is_switch ?d
             then (case process_switch_forwarding now item eth ?d of
                 None \<Rightarrow> None
               | Some (forwarded, d1) \<Rightarrow> if forwarded then pop_processing ?n d1 else Some d1)
             else map_option (process_at_endpoint now item eth) (pop_processing ?n ?d)) = Some d2"
      "d' = (if sv_processing d2 = [] then d2 else schedule (now + sc_schedule_delay (sv_config d2)) StartProcessing d2)"
    using assms(3) by (auto simp: processing_received_def b(3) Let_def)
  have "between d2"
  proof (cases "is_switch ?d")
    case True
    then obtain fwd d1 where f: "process_switch_forwarding now item eth ?d = Some (fwd, d1)" "(if fwd then pop_processing ?n d1 else Some d1) = Some d2"
      using d2(1) by (auto split: option.splits)
    have q: "quiet ?d d1" by (rule quiet_forwarding [OF f(1)])
    have b1: "between d1" by (rule between_quiet [OF q b(1)])
    have "sv_processing d1 = item # rest" using q b(2) by (simp add: quiet_def rx_view_def)
    then obtain d3 where "pop_processing ?n d1 = Some d3" "between d3" using between_pop [OF b1] by blast
    then show ?thesis using f(2) b1 by (cases fwd) auto
  next
    case False
    have "sv_processing ?d = item # rest" using b(2) by simp
    then obtain d3 where "pop_processing ?n ?d = Some d3" "between d3" using between_pop [OF b(1)] by blast
    then show ?thesis using d2(1) False by (auto intro: between_endpoint)
  qed
  then show ?thesis unfolding d2(2) by (rule between_ok)
qed

lemma start_ok:
  assumes "queue_ok d" "(now, StartProcessing) \<in> set (sv_events d)"
  shows "queue_ok (start_processing now (d\<lparr>sv_events := remove1 (now, StartProcessing) (sv_events d)\<rparr>))"
  using assms processing_remove(1) [of StartProcessing now "sv_events d"]
  by (cases "sv_processing d") (auto simp: start_processing_def queue_ok_def start_pending_def)

lemma queue_step:
  assumes "sue_step st st'" "queue_ok (snd st)" "unat (sc_processing_max (sv_config (snd st))) \<le> 0x80000000"
  shows "queue_ok (snd st')"
  using assms
proof (induction rule: sue_step.induct)
  case (event now e d lv st)
  let ?d = "d\<lparr>sv_events := remove1 (now, e) (sv_events d)\<rparr>"
  obtain lv' d' where st: "st = (lv', d')" by fastforce
  note ok = event(3) [unfolded snd_conv]
  show ?case
  proof (cases "(\<exists>item. e = ProcessReceived item) \<or> e = StartProcessing")
    case True
    then show ?thesis using event(1,2) ok received_ok start_ok by (auto simp: run_event_def st)
  next
    case False
    have "quiet ?d d'"
    proof (cases e)
      case TryTransmit
      then show ?thesis using event(2) st by (auto simp: run_event_def intro: quiet_try)
    next
      case (EgressReturn target vc n)
      then show ?thesis using event(2) st quiet_trans [OF quiet_count quiet_return] by (auto simp: run_event_def Let_def)
    next
      case (SendReply p proto)
      then show ?thesis using event(2) st by (auto simp: run_event_def Let_def intro: quiet_find split: if_splits)
    qed (use event(2) st False in \<open>auto simp: run_event_def Let_def intro: quiet_complete quiet_forwarded quiet_count quiet_return
       quiet_find quiet_answer\<close>)
    moreover have "queue_ok ?d" using ok_remove [OF ok] False by blast
    ultimately show ?thesis using quiet_ok st by simp
  qed
next
  case (receive now corrupt p d d' lv)
  from receive(1) show ?case
  proof (cases rule: receive_result)
    case 1
    then show ?thesis using quiet_ok receive by simp
  next
    case (2 d1 original vc proto)
    have "queue_ok d1" "sv_config d1 = sv_config d" using 2(1) receive(3) quiet_ok by (auto simp: quiet_def identity_of_def)
    then show ?thesis using 2(2,3) receive(2,4) ok_data [of d1 "p\<lparr>sk_ppp := None\<rparr>"] by simp
  qed
next
  case (timer now vc mac d d' lv)
  then show ?case using quiet_ok [OF quiet_timer [OF timer(1)]] by simp
qed (auto dest: quiet_send quiet_enqueue intro: quiet_ok quiet_ok [OF quiet_fields(8)] simp: sue_attach_def)

end
