(* ===== verification/SueDeviceProps.thy ===== *)
theory SueDeviceProps
  imports SueProcessing
begin

text \<open>
  Properties of the SUE device: its transmitter never fails and never sleeps on work, its processing queue is
  first in first out; what the shared round-robin pointer and the retransmission at switch ports break.
\<close>

unbundle bit_operations_syntax

section \<open>Configuration and peers\<close>

lemma event_identity: "run_event now e (lv, d) = Some (lv', d') \<Longrightarrow> identity_of d' = identity_of d"
proof (cases "e = TryTransmit \<or> e = TransmitComplete")
  case True
  then show "run_event now e (lv, d) = Some (lv', d') \<Longrightarrow> identity_of d' = identity_of d"
    by (auto simp: run_event_def quiet_def dest!: quiet_try quiet_complete)
next
  case False
  then show "run_event now e (lv, d) = Some (lv', d') \<Longrightarrow> identity_of d' = identity_of d"
    using calm_event [of now e lv d lv' d'] by (auto simp: calm_def)
qed

lemma step_identity: "sue_step st st' \<Longrightarrow> identity_of (snd st') = identity_of (snd st)"
proof (induction rule: sue_step.induct)
  case (event now e d lv st)
  then show ?case using event_identity [of now e lv _ "fst st" "snd st"] by simp
next
  case (timer now vc mac d d' lv)
  then show ?case using quiet_timer [OF timer] by (simp add: quiet_def)
qed (auto dest: calm_send calm_enqueue calm_receive simp: calm_def sue_attach_def identity_of_def)

lemma reachable_config: "sue_reachable config st \<Longrightarrow> sv_config (snd st) = config"
proof (induction rule: sue_reachable.induct)
  case (step st st')
  then show ?case using step_identity [of st st'] by (simp add: identity_of_def)
qed (simp add: new_sue_device_def)

lemma port_start: "transmit_start now p d = Some d' \<Longrightarrow> sv_port_llr d' = sv_port_llr d"
  by (auto simp: transmit_start_def Let_def split: if_splits option.splits)

lemma port_poll: "poll_vcs now vcs (lv, d) = Some (lv', d') \<Longrightarrow> sv_port_llr d' = sv_port_llr d"
proof (induction vcs arbitrary: d)
  case (Cons vc vcs)
  have "sv_port_llr (snd (take_packet vc d)) = sv_port_llr d"
    by (simp add: take_packet_def Let_def split: prod.split option.split)
  then show ?case using Cons by (auto split: prod.splits option.splits dest!: port_start)
qed simp

lemma port_event:
  assumes "run_event now e (lv, d) = Some (lv', d')" "e = TryTransmit \<or> e = TransmitComplete"
  shows "known_peers d' = known_peers d"
  using assms by (auto simp: run_event_def try_transmit_def transmit_complete_def known_peers_def Let_def
      split: if_splits list.splits dest!: port_start port_poll)

lemma peers_step:
  assumes "sue_step st st'" "sender_ok (snd st)" "known_peers (snd st) \<subseteq> peers_of (snd st)"
  shows "known_peers (snd st') \<subseteq> peers_of (snd st')"
proof -
  have c: "calm d d' \<Longrightarrow> known_peers d \<subseteq> peers_of d \<Longrightarrow> known_peers d' \<subseteq> peers_of d'" for d d'
    using peers_same [of d' d] by (auto simp: calm_def)
  show ?thesis using assms
  proof (induction rule: sue_step.induct)
    case (event now e d lv st)
    let ?d = "d\<lparr>sv_events := remove1 (now, e) (sv_events d)\<rparr>"
    obtain lv' d' where st: "st = (lv', d')" by fastforce
    have k: "known_peers ?d \<subseteq> peers_of ?d" using event(4) by (simp add: known_peers_def peers_of_def)
    show ?case
    proof (cases "e = TryTransmit \<or> e = TransmitComplete")
      case True
      then show ?thesis
        using k port_event [OF event(2) [unfolded st]] peers_same [OF event_identity [OF event(2) [unfolded st]]] st by simp
    next
      case False
      then have "calm ?d d'" using calm_event [OF event(2) [unfolded st]] by blast
      then show ?thesis using c [OF _ k] st by simp
    qed
  next
    case (timer now vc mac d d' lv)
    then show ?case using c [OF calm_timer [OF timer(1)]] by simp
  next
    case (attach lv d)
    then show ?case using c [OF calm_switch(5)] by (simp add: sue_attach_def)
  next
    case (send now p dest proto d ok d' lv)
    then show ?case using c [OF calm_send [OF send(1)]] by simp
  next
    case (internal now p d ok d' lv)
    then show ?case using c [OF calm_enqueue [OF internal(1)]] by simp
  next
    case (receive now corrupt p d d' lv)
    then show ?case using c [OF calm_receive [OF receive(1)]] by simp
  qed simp
qed

lemma reachable_peers: "sue_reachable config st \<Longrightarrow> known_peers (snd st) \<subseteq> peers_of (snd st)"
proof (induction rule: sue_reachable.induct)
  case (step st st')
  then show ?case using peers_step sender_reachable by blast
qed (simp add: new_sue_device_def known_peers_def flow_peers_def new_llr_port_def)

section \<open>The transmitter\<close>

text \<open>
  The assertions of the transmitter hold in every reachable state: a device is busy exactly while it has a
  current packet, and then exactly one completion is pending, which finds it so. The callback by which
  link-level retransmission asks for a transmission therefore never does anything.
\<close>

theorem transmitter_sound:
  assumes "sue_reachable config (lv, d)"
  shows "(sv_busy d \<longleftrightarrow> sv_current d \<noteq> None) \<and>
    length (filter (\<lambda>(t, e). e = TransmitComplete) (sv_events d)) = (if sv_busy d then 1 else 0) \<and>
    ((now, TransmitComplete) \<in> set (sv_events d) \<longrightarrow>
      transmit_complete now (d\<lparr>sv_events := remove1 (now, TransmitComplete) (sv_events d)\<rparr>) \<noteq> None) \<and>
    llr_try_transmit now d = Some d"
proof -
  have s: "sender_ok d" using sender_reachable [OF assms] by simp
  have "completions d = length (filter (\<lambda>(t, e). e = TransmitComplete) (sv_events d))"
    by (simp add: completions_def case_prod_beta')
  moreover have "transmit_complete now (d\<lparr>sv_events := remove1 (now, TransmitComplete) (sv_events d)\<rparr>) \<noteq> None"
    if "(now, TransmitComplete) \<in> set (sv_events d)"
    using complete_result [OF s that] by (metis option.distinct(1))
  ultimately show ?thesis using s callback_idle [OF s] by (simp add: sender_ok_def)
qed

lemma endpoint_starts: "\<not> is_switch d \<Longrightarrow> \<not> sv_busy d \<Longrightarrow> transmit_start now p d \<noteq> None"
  by (simp add: transmit_start_def Let_def)

lemma endpoint_polls: "\<not> is_switch d \<Longrightarrow> \<not> sv_busy d \<Longrightarrow> poll_vcs now vcs (lv, d) \<noteq> None"
proof (induction vcs arbitrary: d)
  case (Cons vc vcs)
  show ?case
  proof (cases "eligible vc d")
    case True
    obtain p d1 where t: "take_packet vc d = (Some p, d1)" "identity_of d1 = identity_of d" "sv_busy d1 = sv_busy d"
      using take_some [OF True] by metis
    then have "\<not> is_switch d1" using Cons.prems(1) by (simp add: is_switch_def identity_of_def)
    from endpoint_starts [OF this, of now p] show ?thesis using t Cons.prems by auto
  qed (use Cons take_none in simp)
qed simp

lemma endpoint_tries: "\<not> is_switch d \<Longrightarrow> \<not> sv_busy d \<Longrightarrow> try_transmit now (lv, d) \<noteq> None"
  using endpoint_polls [of d now] endpoint_starts [of "d\<lparr>sv_main := tl (sv_main d)\<rparr>" now]
  by (cases "sv_main d") (simp_all add: try_transmit_def is_switch_def)

text \<open>
  C30: No wake-up is lost: when the transmitter is idle although a packet waits in the main queue, or first in a
  virtual channel that can pay for it, then an attempt to transmit is pending, and it sends a packet. On an
  endpoint the attempt cannot fail.
\<close>

theorem no_lost_wakeup:
  assumes "sue_reachable config (lv, d)" "\<not> sv_busy d"
    and "sv_main d \<noteq> [] \<or> (\<exists>vc < sc_num_vcs config. \<not> is_vc_queue_empty (sv_queues d) vc \<and> (sc_cbfc config \<longrightarrow>
      0 < get_first_packet_size (sv_queues d) vc \<and>
      has_enough_credits (sv_cbfc d) (sv_remote d) vc (get_first_packet_size (sv_queues d) vc)))"
  shows "\<exists>t. (t, TryTransmit) \<in> set (sv_events d) \<and>
    (case run_event t TryTransmit (lv', d\<lparr>sv_events := remove1 (t, TryTransmit) (sv_events d)\<rparr>) of
       None \<Rightarrow> is_switch d | Some (_, d') \<Rightarrow> sv_busy d' \<and> length (sv_wire d') = length (sv_wire d) + 1)"
proof -
  have s: "sender_ok d" using sender_reachable [OF assms(1)] by simp
  have c: "can_send d" using assms(3) reachable_config [OF assms(1)] by (simp add: can_send_def eligible_def)
  then have "tries d \<noteq> {}" using s assms(2) by (simp add: sender_ok_def)
  then obtain t where t: "(t, TryTransmit) \<in> set (sv_events d)" by (auto simp: tries_def)
  let ?d = "d\<lparr>sv_events := remove1 (t, TryTransmit) (sv_events d)\<rparr>"
  have e: "run_event t TryTransmit (lv', ?d) = try_transmit t (lv', ?d)" by (simp add: run_event_def)
  show ?thesis
  proof (cases "try_transmit t (lv', ?d)")
    case None
    then have "is_switch ?d" using endpoint_tries [of ?d t lv'] assms(2) by auto
    then show ?thesis using t e None by (auto simp: is_switch_def)
  next
    case (Some st)
    obtain l d' where st: "st = (l, d')" by fastforce
    have "begins ?d d'" using try_result [OF Some [unfolded st]] c assms(2) by auto
    then show ?thesis using t e Some st by (auto simp: begins_def)
  qed
qed

section \<open>The processing queue\<close>

lemma processing_event: "item \<in> set (processing_events es) \<Longrightarrow> \<exists>t. (t, ProcessReceived item) \<in> set es"
proof (induction es)
  case (Cons x es)
  then show ?case by (cases x) (auto split: sue_event.splits)
qed simp

text \<open>
  C31: In every reachable state the processing queue counts its packets and bytes exactly and stays within its
  limit, and a packet in it is either being processed, the first one, or the start of the next is pending. On
  an endpoint the processing of the first packet never fails and hands exactly this packet to the application.
\<close>

theorem processing_queue_sound:
  assumes "sue_reachable config (lv, d)" "sc_processing_max config \<le> 0x80000000"
  shows "unat (sv_processing_bytes d) = (\<Sum>item \<leftarrow> sv_processing d. unat (sk_size (pi_packet item))) \<and>
    sv_processing_bytes d \<le> sc_processing_max config \<and> sv_processing_size d = of_nat (length (sv_processing d)) \<and>
    (sv_processing d \<noteq> [] \<longrightarrow> (\<exists>t. (t, if sv_scheduled d then ProcessReceived (hd (sv_processing d)) else StartProcessing) \<in> set (sv_events d))) \<and>
    ((now, ProcessReceived item) \<in> set (sv_events d) \<and> \<not> is_switch d \<longrightarrow>
      (\<exists>d'. processing_received now item (d\<lparr>sv_events := remove1 (now, ProcessReceived item) (sv_events d)\<rparr>) = Some d' \<and>
        sv_processing d = item # sv_processing d' \<and>
        sv_delivered d' = sv_delivered d @ [((pi_packet item)\<lparr>sk_eth := None\<rparr>, pi_protocol item)]))"
proof -
  have c: "sv_config d = config" using reachable_config [OF assms(1)] by simp
  have ok: "queue_ok d"
  proof -
    have "queue_ok (snd st)" if "sue_reachable config st" for st using that
    proof (induction rule: sue_reachable.induct)
      case (step st st')
      have "unat (sc_processing_max (sv_config (snd st))) \<le> 0x80000000"
        using assms(2) reachable_config [OF step(1)] by (simp add: word_le_nat_alt)
      from queue_step [OF step(2) _ this] step(3) show ?case by simp
    qed (simp add: new_sue_device_def queue_ok_def)
    from this [OF assms(1)] show ?thesis by simp
  qed
  have pending: "\<exists>t. (t, if sv_scheduled d then ProcessReceived (hd (sv_processing d)) else StartProcessing) \<in> set (sv_events d)"
    if "sv_processing d \<noteq> []"
  proof (cases "sv_scheduled d")
    case True
    then have "hd (sv_processing d) \<in> set (processing_events (sv_events d))" using ok by (simp add: queue_ok_def)
    then show ?thesis using True by (auto dest: processing_event)
  next
    case False
    then show ?thesis using ok that by (auto simp: queue_ok_def start_pending_def)
  qed
  have deliver: "\<exists>d'. processing_received now item (d\<lparr>sv_events := remove1 (now, ProcessReceived item) (sv_events d)\<rparr>) = Some d' \<and>
        sv_processing d = item # sv_processing d' \<and>
        sv_delivered d' = sv_delivered d @ [((pi_packet item)\<lparr>sk_eth := None\<rparr>, pi_protocol item)]"
    if e: "(now, ProcessReceived item) \<in> set (sv_events d)" "\<not> is_switch d"
  proof -
    let ?d = "d\<lparr>sv_events := remove1 (now, ProcessReceived item) (sv_events d), sv_scheduled := False\<rparr>"
    obtain rest eth where b: "between ?d" "sv_processing d = item # rest" "sk_eth (pi_packet item) = Some eth"
      using begin_processing [OF ok e(1)] by blast
    obtain d2 where d2: "pop_processing (sk_size (pi_packet item)) ?d = Some d2" "sv_processing d2 = rest" "sv_delivered d2 = sv_delivered d"
      using between_pop [OF b(1), of item rest] b(2) by auto
    have v: "sv_processing (process_at_endpoint now item eth d2) = rest"
      "sv_delivered (process_at_endpoint now item eth d2) = sv_delivered d @ [((pi_packet item)\<lparr>sk_eth := None\<rparr>, pi_protocol item)]"
      using endpoint_view(1) [of now item eth d2] d2(2,3) by (simp_all add: rx_view_def)
    have "\<not> is_switch ?d" using e(2) by (simp add: is_switch_def)
    then show ?thesis using b(2,3) d2(1) v by (auto simp: processing_received_def Let_def)
  qed
  show ?thesis using ok pending deliver c by (simp add: queue_ok_def)
qed

section \<open>The shared round-robin pointer\<close>

definition lane :: "vc_id \<Rightarrow> sue_device \<Rightarrow> sue_packet list" where
  "lane vc d = (case qm_queues (sv_queues d) vc of None \<Rightarrow> [] | Some q \<Rightarrow> dq_items q)"

text \<open>A transmission and its completion, and two devices that transmit in turn.\<close>

definition transmit_once :: "ns \<Rightarrow> u8 \<times> sue_device \<Rightarrow> (u8 \<times> sue_device) option" where
  "transmit_once now st = Option.bind (try_transmit now st) (\<lambda>(lv, d). map_option (Pair lv) (transmit_complete now d))"

fun in_turn :: "nat \<Rightarrow> u8 \<times> sue_device \<times> sue_device \<Rightarrow> (u8 \<times> sue_device \<times> sue_device) option" where
  "in_turn 0 st = Some st"
| "in_turn (Suc n) (lv, a, b) = Option.bind (transmit_once 0 (lv, a)) (\<lambda>(lv1, a1).
     Option.bind (transmit_once 0 (lv1, b)) (\<lambda>(lv2, b1). in_turn n (lv2, a1, b1)))"

definition two_lanes :: "sue_device \<Rightarrow> bool" where
  "two_lanes d \<longleftrightarrow> \<not> is_switch d \<and> \<not> sv_busy d \<and> sv_main d = [] \<and> sc_num_vcs (sv_config d) = 2 \<and> \<not> sc_cbfc (sv_config d)"

lemma order_of_two: "vc_order 0 2 = [0, 1]" "vc_order 1 2 = [1, 0]"
  by (simp_all add: vc_order_def upt_rec)

lemma lane_sent:
  assumes "two_lanes d" "lv < 2" "lane lv d = p # ps"
  shows "\<exists>d'. transmit_once now (lv, d) = Some (1 - lv, d') \<and> two_lanes d' \<and> lane lv d' = ps \<and> lane (1 - lv) d' = lane (1 - lv) d"
proof -
  have lv: "lv = 0 \<or> lv = 1" using assms(2) by unat_arith
  obtain q where q: "qm_queues (sv_queues d) lv = Some q" "dq_items q = p # ps"
    using assms(3) by (auto simp: lane_def split: option.splits)
  let ?q = "q\<lparr>dq_items := ps, dq_bytes := dq_bytes q - sk_size p\<rparr>"
  let ?d = "d\<lparr>sv_queues := (sv_queues d)\<lparr>qm_queues := (qm_queues (sv_queues d))(lv \<mapsto> ?q)\<rparr>\<rparr>"
  have take: "take_packet lv d = (Some p, ?d)"
    using assms(1) q by (simp add: take_packet_def two_lanes_def is_vc_queue_empty_def dequeue_from_vc_queue_def dq_dequeue_def Let_def)
  obtain d1 where s: "transmit_start now p ?d = Some d1" "sv_busy d1" "sv_current d1 \<noteq> None" "sv_queues d1 = sv_queues ?d"
      "sv_main d1 = []" "sv_config d1 = sv_config d" "sv_address d1 = sv_address d"
    using assms(1) by (auto simp: transmit_start_def two_lanes_def is_switch_def Let_def)
  have "try_transmit now (lv, d) = Some (1 - lv, d1)"
    using assms(1) lv take s(1) by (auto simp: try_transmit_def two_lanes_def order_of_two)
  moreover obtain d2 where "transmit_complete now d1 = Some d2" "\<not> sv_busy d2" "sv_queues d2 = sv_queues ?d"
      "sv_main d2 = []" "sv_config d2 = sv_config d" "sv_address d2 = sv_address d"
    using s by (auto simp: transmit_complete_def Let_def)
  ultimately show ?thesis using assms(1) lv by (auto simp: transmit_once_def two_lanes_def is_switch_def lane_def)
qed

text \<open>Alone, a device serves its channels in turn.\<close>

lemma alone_in_turn:
  assumes "two_lanes d" "lv < 2" "lane lv d = p # ps" "lane (1 - lv) d = q # qs"
  shows "\<exists>d'. Option.bind (transmit_once now (lv, d)) (transmit_once now) = Some (lv, d') \<and> lane lv d' = ps \<and> lane (1 - lv) d' = qs"
proof -
  obtain d1 where 1: "transmit_once now (lv, d) = Some (1 - lv, d1)" "two_lanes d1" "lane lv d1 = ps" "lane (1 - lv) d1 = q # qs"
    using lane_sent [OF assms(1-3)] assms(4) by metis
  have "1 - lv < 2" using assms(2) by unat_arith
  from lane_sent [OF 1(2) this 1(4), of now] 1 show ?thesis by auto
qed

text \<open>
  The round-robin pointer is one static variable for all devices. When two devices transmit in turn each
  finds it where the other left it: each serves one channel only, and as long as this channel has packets the
  other waits, however many packets are sent.
\<close>

theorem shared_pointer_starves:
  assumes "two_lanes a" "two_lanes b" "lv < 2" "n \<le> length (lane lv a)" "n \<le> length (lane (1 - lv) b)"
  shows "\<exists>a' b'. in_turn n (lv, a, b) = Some (lv, a', b') \<and>
    lane lv a' = drop n (lane lv a) \<and> lane (1 - lv) a' = lane (1 - lv) a \<and>
    lane (1 - lv) b' = drop n (lane (1 - lv) b) \<and> lane lv b' = lane lv b"
  using assms
proof (induction n arbitrary: a b)
  case (Suc n)
  obtain p ps where p: "lane lv a = p # ps" using Suc.prems(4) by (cases "lane lv a") auto
  obtain q qs where q: "lane (1 - lv) b = q # qs" using Suc.prems(5) by (cases "lane (1 - lv) b") auto
  have lv: "1 - lv < 2" using Suc.prems(3) by unat_arith
  obtain a1 where a1: "transmit_once 0 (lv, a) = Some (1 - lv, a1)" "two_lanes a1" "lane lv a1 = ps" "lane (1 - lv) a1 = lane (1 - lv) a"
    using lane_sent [OF Suc.prems(1,3) p] by blast
  obtain b1 where b1: "transmit_once 0 (1 - lv, b) = Some (lv, b1)" "two_lanes b1" "lane (1 - lv) b1 = qs" "lane lv b1 = lane lv b"
    using lane_sent [OF Suc.prems(2) lv q, of 0] by auto
  show ?case using Suc.IH [OF a1(2) b1(2) Suc.prems(3)] Suc.prems(4,5) p q a1 b1 by auto
qed simp

section \<open>Retransmission at a switch port\<close>

lemma shifted_large:
  assumes "src \<noteq> 0" "src < 0x100000000"
  shows "\<not> shifted_source src < 0x10000"
proof
  assume "shifted_source src < 0x10000"
  then have "unat (shifted_source src) div 2 ^ 16 = 0" by (simp add: word_less_nat_alt)
  then have z: "drop_bit 16 (shifted_source src) = 0"
    by (simp add: drop_bit_eq_div word_unat_eq_iff unat_div)
  have "drop_bit 16 (shifted_source src) = drop_bit 16 (push_bit 16 src)"
    by (simp add: shifted_source_def)
  also have "\<dots> = take_bit 32 src" by (rule bit_word_eqI) (auto simp: bit_simps)
  also have "\<dots> = src" using assms(2) by (simp add: take_bit_eq_mod word_less_nat_alt word_unat_eq_iff unat_mod)
  finally show False using z assms(1) by simp
qed

lemma peer_switches: "lp_enabled (initialize_peer_flows mac n) = lp_enabled n" "lp_num_vcs (initialize_peer_flows mac n) = lp_num_vcs n"
  by (simp_all add: initialize_peer_flows_def Let_def)

lemma fold_switches:
  "lp_enabled (fold (\<lambda>x m. case x of None \<Rightarrow> m | Some mac \<Rightarrow> if mac \<noteq> local \<and> mac \<noteq> peer then initialize_peer_flows mac m else m) xs n) = lp_enabled n \<and>
   lp_num_vcs (fold (\<lambda>x m. case x of None \<Rightarrow> m | Some mac \<Rightarrow> if mac \<noteq> local \<and> mac \<noteq> peer then initialize_peer_flows mac m else m) xs n) = lp_num_vcs n"
  by (induction xs arbitrary: n) (simp_all add: peer_switches split: option.split)

lemma port_switches: "lp_enabled (llr_port_initialize en w t n peer sw (Some xs) local m) = en \<and>
    lp_num_vcs (llr_port_initialize en w t n peer sw (Some xs) local m) = n"
  by (simp add: llr_port_initialize_def Let_def fold_switches peer_switches)

lemma init_port_switches:
  "sc_llr (sv_config d) \<Longrightarrow> is_switch d \<Longrightarrow>
    lp_enabled (sv_port_llr (init_llr d)) \<and> lp_num_vcs (sv_port_llr (init_llr d)) = sc_num_vcs (sv_config d)"
  by (simp add: init_llr_def Let_def port_switches)

text \<open>
  With link-level retransmission no data packet gets through a switch port. \<open>Receive\<close> takes the source
  address from the packet after the PPP header is gone, two bytes too far, and the port manager indexes its
  tables with it: they have no entry for it, whatever happened before. Addresses are numbered from 1, as ns-3
  does.
\<close>

theorem switch_port_refuses_data:
  assumes "sue_reachable config (lv, d)" "sc_llr config" "is_switch d"
    and "\<forall>mac \<in> insert (sv_remote d) (snd ` set (sv_ports d)). mac < 0x10000"
    and "sk_ppp p = Some 0x0021" "sk_cbfc p = None" "sk_eth p = Some (src, dst)" "src \<noteq> 0" "src < 0x100000000" "dst < 0x100000000"
    and "sk_tag p \<noteq> None" "sk_vc p < sc_num_vcs config"
  shows "sue_receive now False p d = None"
proof -
  let ?d = "init_llr (init_cbfc d)" and ?q = "p\<lparr>sk_ppp := None\<rparr>"
  have c: "sv_config d = config" using reachable_config [OF assms(1)] by simp
  have i: "identity_of (init_llr (init_cbfc d)) = identity_of d" using calm_init calm_config by blast
  then have d: "sv_config ?d = config" "is_switch ?d" using c assms(3) by (simp_all add: identity_of_def is_switch_def)
  have "known_peers ?d \<subseteq> peers_of d"
    using calm_init [of d] reachable_peers [OF assms(1)] by (auto simp: calm_def)
  then have "\<forall>mac \<in> known_peers ?d. mac < 0x10000" using assms(4) unfolding peers_of_def by blast
  then have "shifted_source src \<notin> known_peers ?d" using shifted_large [OF assms(8,9)] by blast
  then have f: "port_flow (sv_port_llr ?d) (shifted_source src) vc = None" for vc
    by (auto simp: port_flow_def known_peers_def flow_peers_def split: option.split)
  have p: "lp_enabled (sv_port_llr ?d) \<and> lp_num_vcs (sv_port_llr ?d) = sc_num_vcs config"
  proof -
    have "identity_of (init_cbfc d) = identity_of d" using calm_init_cbfc [of d] by (simp add: calm_def)
    then have "sv_config (init_cbfc d) = config" "is_switch (init_cbfc d)"
      using c assms(3) by (simp_all add: identity_of_def is_switch_def)
    then show ?thesis using init_port_switches [of "init_cbfc d"] assms(2) by simp
  qed
  have "drop_bit 32 dst = 0" using assms(10) by (simp add: drop_bit_eq_div word_unat_eq_iff unat_div word_less_nat_alt)
  then have x: "extract_vc ?q = Some (sk_vc p)" "extract_source ?q = Some (shifted_source src)"
    using assms(6,7) by (simp_all add: extract_vc_def extract_source_def)
  have "llr_receive now (sk_vc p) seq (shifted_source src) ?d = None" for seq
    using d(2) p f assms(12) by (simp add: llr_receive_def llr_port_receive_def not_le)
  then show ?thesis using assms(2,5,11) d(1) x by (auto simp: sue_receive_def Let_def ppp_to_ether_def)
qed

section \<open>Concrete devices\<close>

definition demo_sue_config :: "bool \<Rightarrow> bool \<Rightarrow> sue_config" where
  "demo_sue_config cbfc llr = \<lparr>sc_num_vcs = 2, sc_initial = 20, sc_batch = 1, sc_switch_credits = 85, sc_vc_bytes = 2097152,
     sc_extra_header = 46, sc_header = 52, sc_transaction = 256, sc_cbfc = cbfc, sc_bytes_per_credit = 256,
     sc_processing_max = 2097152, sc_main_max = 100, sc_gap = 0, sc_generate_delay = 10, sc_forward_delay = 150, sc_vc_delay = 8,
     sc_schedule_delay = 5, sc_llr = llr, sc_window = 10, sc_llr_timeout = 10000, sc_ack_header_delay = 10,
     sc_ack_process_delay = 10, sc_tx_time = (\<lambda>n. int (unat n)), sc_processing_time = (\<lambda>n. int (unat n))\<rparr>"

definition demo_body :: "vc_id \<Rightarrow> sue_packet" where
  "demo_body vc = \<lparr>sk_ppp = None, sk_cbfc = None, sk_eth = None, sk_vc = vc, sk_body = 256, sk_tag = None, sk_id = 1\<rparr>"

text \<open>An endpoint with address 1, connected to the switch port 2.\<close>

definition demo_endpoint :: "bool \<Rightarrow> sue_device" where
  "demo_endpoint cbfc = sue_attach (new_sue_device (demo_sue_config cbfc False) 1 2 1 [(1, 1)] [])"

definition queue_one :: "vc_id \<Rightarrow> sue_device \<Rightarrow> sue_device" where
  "queue_one vc d = snd (the (sue_send 0 (demo_body vc) 3 0x0800 d))"

definition demo_waiting :: sue_device where "demo_waiting = queue_one 1 (demo_endpoint True)"

lemma reach_endpoint: "sue_reachable (demo_sue_config cbfc False) (0, demo_endpoint cbfc)"
  unfolding demo_endpoint_def by (rule sue_reachable.step [OF sue_reachable.start sue_step.attach])

lemma reach_queued:
  assumes "sue_reachable config (lv, d)" "sue_send 0 (demo_body vc) 3 0x0800 d \<noteq> None"
  shows "sue_reachable config (lv, queue_one vc d)"
proof -
  obtain ok d' where s: "sue_send 0 (demo_body vc) 3 0x0800 d = Some (ok, d')" using assms(2) by auto
  then show ?thesis using sue_reachable.step [OF assms(1) sue_step.send [OF s]] by (simp add: queue_one_def)
qed

lemma demo_waiting_facts: "sue_send 0 (demo_body 1) 3 0x0800 (demo_endpoint True) \<noteq> None" "\<not> sv_busy demo_waiting"
    "\<not> is_switch demo_waiting" "sv_remote demo_waiting = 2" "get_first_packet_size (sv_queues demo_waiting) 1 = 272"
    "has_enough_credits (sv_cbfc demo_waiting) 2 1 272" "\<not> is_vc_queue_empty (sv_queues demo_waiting) 1"
    "sv_events demo_waiting = [(8, TryTransmit)]"
  by code_simp+

text \<open>The device while it sends the packet, and an endpoint that has received one.\<close>

definition demo_sending :: sue_device where
  "demo_sending = snd (the (run_event 8 TryTransmit (0, demo_waiting\<lparr>sv_events := []\<rparr>)))"

definition demo_wire_packet :: sue_packet where
  "demo_wire_packet = (demo_body 1)\<lparr>sk_ppp := Some 0x0021, sk_eth := Some (3, 1), sk_tag := Some \<lparr>st_seq = 0, st_link_type = 0\<rparr>\<rparr>"

definition demo_sue_received :: sue_device where
  "demo_sue_received = the (sue_receive 0 False demo_wire_packet (demo_endpoint True))"

definition demo_item :: process_item where
  "demo_item = hd (sv_processing demo_sue_received)"

definition demo_processing :: sue_device where
  "demo_processing = snd (the (run_event 5 StartProcessing (0, demo_sue_received\<lparr>sv_events := []\<rparr>)))"

text \<open>A switch port: its address is even.\<close>

definition demo_switch_port :: sue_device where
  "demo_switch_port = new_sue_device (demo_sue_config False True) 2 1 1 [(1, 2), (2, 4)] []"

lemma run_facts:
    "sv_events demo_waiting = [(8, TryTransmit)]" "map_option fst (run_event 8 TryTransmit (0, demo_waiting\<lparr>sv_events := []\<rparr>)) = Some 0"
    "sue_receive 0 False demo_wire_packet (demo_endpoint True) \<noteq> None" "sv_events demo_sue_received = [(5, StartProcessing)]"
    "map_option fst (run_event 5 StartProcessing (0, demo_sue_received\<lparr>sv_events := []\<rparr>)) = Some 0"
    "sv_events demo_sending = [(280, TransmitComplete)]" "sv_busy demo_sending"
    "\<not> is_switch demo_processing" "map fst (sv_events demo_processing) = [275]"
    "map snd (sv_events demo_processing) = [ProcessReceived demo_item]"
  by code_simp+

lemma demo_wire_packet_small: "unat (sk_body demo_wire_packet) < 0x10000"
  by (simp add: demo_wire_packet_def demo_body_def)

lemma demo_runs:
    "run_event 8 TryTransmit (0, demo_waiting\<lparr>sv_events := remove1 (8, TryTransmit) (sv_events demo_waiting)\<rparr>) = Some (0, demo_sending)"
    "sue_receive 0 False demo_wire_packet (demo_endpoint True) = Some demo_sue_received"
    "run_event 5 StartProcessing (0, demo_sue_received\<lparr>sv_events := remove1 (5, StartProcessing) (sv_events demo_sue_received)\<rparr>) = Some (0, demo_processing)"
    "sv_events demo_processing = [(275, ProcessReceived demo_item)]"
  using run_facts(1-5,9,10) by (auto simp: demo_sending_def demo_sue_received_def demo_processing_def)

lemma reach_waiting: "sue_reachable (demo_sue_config True False) (0, demo_waiting)"
  unfolding demo_waiting_def by (rule reach_queued [OF reach_endpoint demo_waiting_facts(1)])

lemma reach_sending: "sue_reachable (demo_sue_config True False) (0, demo_sending)"
  by (rule sue_reachable.step [OF reach_waiting sue_step.event [OF _ demo_runs(1)]]) (simp add: run_facts(1))

lemma reach_processing: "sue_reachable (demo_sue_config True False) (0, demo_processing)"
  by (rule sue_reachable.step [OF sue_reachable.step [OF reach_endpoint sue_step.receive [OF demo_runs(2) demo_wire_packet_small]]
        sue_step.event [OF _ demo_runs(3)]]) (simp add: run_facts(4))

definition demo_lanes :: sue_device where
  "demo_lanes = queue_one 1 (queue_one 0 (demo_endpoint False))"

lemma demo_lanes_facts: "two_lanes demo_lanes" "length (lane 0 demo_lanes) = 1" "length (lane 1 demo_lanes) = 1"
  by code_simp+

section \<open>Applications of the properties\<close>

theorem transmitter_sound_witness:
  "sv_current demo_sending \<noteq> None \<and>
   transmit_complete 280 (demo_sending\<lparr>sv_events := remove1 (280, TransmitComplete) (sv_events demo_sending)\<rparr>) \<noteq> None"
  using transmitter_sound [OF reach_sending, of 280] run_facts(6,7) by simp

theorem no_lost_wakeup_witness:
  "\<exists>t. (t, TryTransmit) \<in> set (sv_events demo_waiting) \<and>
    (case run_event t TryTransmit (0, demo_waiting\<lparr>sv_events := remove1 (t, TryTransmit) (sv_events demo_waiting)\<rparr>) of
       None \<Rightarrow> is_switch demo_waiting | Some (_, d') \<Rightarrow> sv_busy d' \<and> length (sv_wire d') = length (sv_wire demo_waiting) + 1)"
proof (rule no_lost_wakeup [OF reach_waiting demo_waiting_facts(2)], rule disjI2, rule exI [of _ 1], intro conjI impI)
  show "1 < sc_num_vcs (demo_sue_config True False)" by (simp add: demo_sue_config_def)
qed (use demo_waiting_facts in simp_all)

theorem processing_queue_sound_witness:
  "\<exists>d'. processing_received 275 demo_item (demo_processing\<lparr>sv_events := []\<rparr>) = Some d' \<and>
     sv_processing demo_processing = demo_item # sv_processing d' \<and>
     sv_delivered d' = sv_delivered demo_processing @ [((pi_packet demo_item)\<lparr>sk_eth := None\<rparr>, pi_protocol demo_item)]"
proof -
  have "sc_processing_max (demo_sue_config True False) \<le> 0x80000000" by (simp add: demo_sue_config_def)
  from processing_queue_sound [OF reach_processing this, of 275 demo_item] demo_runs(4) run_facts(8) show ?thesis by simp
qed

theorem shared_pointer_starves_witness:
  "\<exists>a' b'. in_turn 1 (0, demo_lanes, demo_lanes) = Some (0, a', b') \<and> lane 0 a' = [] \<and> lane 1 a' = lane 1 demo_lanes \<and>
    lane 1 b' = [] \<and> lane 0 b' = lane 0 demo_lanes"
  using shared_pointer_starves [of demo_lanes demo_lanes 0 1] demo_lanes_facts by simp

theorem switch_port_refuses_data_witness: "sue_receive 7 False demo_wire_packet demo_switch_port = None"
proof (rule switch_port_refuses_data [where config = "demo_sue_config False True" and lv = 0 and src = 3 and dst = 1])
  show "sue_reachable (demo_sue_config False True) (0, demo_switch_port)" unfolding demo_switch_port_def by (rule sue_reachable.start)
  show "is_switch demo_switch_port" "sk_vc demo_wire_packet < sc_num_vcs (demo_sue_config False True)"
    "\<forall>mac \<in> insert (sv_remote demo_switch_port) (snd ` set (sv_ports demo_switch_port)). mac < 0x10000" by code_simp+
qed (simp_all add: demo_sue_config_def demo_wire_packet_def demo_body_def)

end
