(* ===== verification/IpdcQueue.thy ===== *)
theory IpdcQueue
  imports Ipdc
begin

text \<open>
  What the queues and credits of an IPDC do: the receive queue is a bounded first-in first-out
  queue, the credits stay inside their windows, and sending neither uses credits nor numbers
  packets.
\<close>

section \<open>The receive queue is a bounded FIFO\<close>

text \<open>The specification: a bounded queue that, when full, either loses its oldest element or
  refuses the new one.\<close>

definition bounded_push :: "bool \<Rightarrow> nat \<Rightarrow> 'a list \<Rightarrow> 'a \<Rightarrow> 'a list" where
  "bounded_push drop_oldest n q x =
    (if length q < n then q @ [x] else if drop_oldest then tl q @ [x] else q)"

definition accepts :: "ipdc \<Rightarrow> packet \<Rightarrow> bool" where
  "accepts i p \<longleftrightarrow> pb_active (ip_base i) \<and> ipdc_validate_packet i p \<and> il_max_receive (ip_limits i) \<noteq> 0"

text \<open>What receiving a packet leaves unchanged.\<close>

definition ipdc_view :: "ipdc \<Rightarrow> bool \<times> pdc_config \<times> pdc_config \<times> ipdc_limits" where
  "ipdc_view i = (pb_active (ip_base i), pb_config (ip_base i), ip_config i, ip_limits i)"

lemma accepts_view: "ipdc_view i' = ipdc_view i \<Longrightarrow> accepts i' p = accepts i p"
  by (simp add: accepts_def ipdc_view_def ipdc_validate_packet_def pdc_validate_packet_def)

lemma record_entry_view: "pb_config (record_packet_entry now p b) = pb_config b" "pb_active (record_packet_entry now p b) = pb_active b"
  by (simp_all add: record_packet_entry_def cleanup_expired_timestamps_def Let_def)

lemma handle_received_accept:
  assumes "accepts i p"
  shows "ipdc_view (snd (ipdc_handle_received now (Some p) i)) = ipdc_view i \<and>
    map qp_packet (ip_receive_queue (snd (ipdc_handle_received now (Some p) i))) =
      bounded_push (il_flow_control (ip_limits i)) (unat (il_max_receive (ip_limits i)))
        (map qp_packet (ip_receive_queue i)) p"
proof -
  let ?b = "record_packet_entry now p (ip_base i)"
  let ?i1 = "i\<lparr>ip_base := ?b\<rparr>"
  have v: "validate_and_record now (ipdc_validate_packet i) (Some p) (ip_base i) = (None, ?b)"
    using assms by (simp add: validate_and_record_def accepts_def parsed_dest_fep_def)
  have a: "ipdc_validate_packet ?i1 p" "pb_active (ip_base i)" "il_max_receive (ip_limits ?i1) \<noteq> 0"
    using assms by (simp_all add: accepts_def ipdc_validate_packet_def pdc_validate_packet_def record_entry_view)
  have "ipdc_handle_received now (Some p) i =
    (let (ok, q, i2) = enqueue_packet now (ip_receive_queue ?i1) p False False (il_max_receive (ip_limits ?i1)) ?i1
     in (ok, i2\<lparr>ip_receive_queue := q\<rparr>))"
    using v a by (simp add: ipdc_handle_received_def Let_def)
  then show ?thesis
    by (simp add: enqueue_packet_def ipdc_generate_sequence_def count_drop_def bounded_push_def ipdc_view_def
        record_entry_view map_tl Let_def split: if_splits)
qed

text \<open>
  The receive queue of an IPDC implements a bounded FIFO: whatever valid packets arrive, its
  packets are those of the specification's queue, in order; a full queue loses its oldest packet
  when flow control is enabled and refuses the new one otherwise.
\<close>

theorem ipdc_receive_fifo:
  assumes "\<And>p. p \<in> snd ` set ps \<Longrightarrow> accepts i p"
  shows "map qp_packet (ip_receive_queue (fold (\<lambda>(now, p) i. snd (ipdc_handle_received now (Some p) i)) ps i)) =
    foldl (bounded_push (il_flow_control (ip_limits i)) (unat (il_max_receive (ip_limits i))))
      (map qp_packet (ip_receive_queue i)) (map snd ps)"
  using assms
proof (induction ps arbitrary: i)
  case (Cons x ps)
  obtain now p where x: "x = (now, p)" by (cases x)
  let ?i = "snd (ipdc_handle_received now (Some p) i)"
  have p: "ipdc_view ?i = ipdc_view i" "map qp_packet (ip_receive_queue ?i) =
      bounded_push (il_flow_control (ip_limits i)) (unat (il_max_receive (ip_limits i)))
        (map qp_packet (ip_receive_queue i)) p"
    using handle_received_accept [of i p now] Cons.prems [of p] by (auto simp: x)
  have "accepts ?i p'" if "p' \<in> snd ` set ps" for p'
    using accepts_view [OF p(1)] Cons.prems [of p'] that by auto
  then show ?case using Cons.IH [of ?i] p by (simp add: x ipdc_view_def)
qed simp

definition demo_ipdc :: ipdc where
  "demo_ipdc = \<lparr>ip_base = \<lparr>pb_config = \<lparr>pc_pdc_id = 3, pc_local = 1, pc_remote = 2, pc_tc = 0, pc_type = IPDC,
       pc_mode = 0, pc_max_packet = 1500, pc_sequence = 1\<rparr>, pb_active = True, pb_stats = zero_stats,
       pb_processing = True, pb_queue = [], pb_timestamps = [], pb_max_age = 60000000000, pb_max_entries = 10000\<rparr>,
     ip_config = \<lparr>pc_pdc_id = 3, pc_local = 1, pc_remote = 2, pc_tc = 0, pc_type = IPDC,
       pc_mode = 0, pc_max_packet = 1500, pc_sequence = 1\<rparr>, ip_limits = default_limits\<lparr>il_max_receive := 2\<rparr>,
     ip_next_seq = 1, ip_send_credits = 64, ip_receive_credits = 64, ip_flow_active = False,
     ip_send_queue = [], ip_receive_queue = [], ip_cleanup_pending = True, ip_stats = zero_ipdc_stats,
     ip_device = True, ip_channel = True, ip_out = []\<rparr>"

definition demo_ipdc_packet :: "u8 \<Rightarrow> packet" where
  "demo_ipdc_packet b = empty_packet\<lparr>pk_payload := [b]\<rparr>"

lemma demo_accepts: "accepts demo_ipdc (demo_ipdc_packet b)"
  by (simp add: accepts_def demo_ipdc_def demo_ipdc_packet_def ipdc_validate_packet_def pdc_validate_packet_def
      pk_size_def empty_packet_def default_limits_def)

lemma ipdc_receive_fifo_witness:
  "map qp_packet (ip_receive_queue (fold (\<lambda>(now, p) i. snd (ipdc_handle_received now (Some p) i))
     [(1, demo_ipdc_packet 1), (2, demo_ipdc_packet 2), (3, demo_ipdc_packet 3)] demo_ipdc)) =
   [demo_ipdc_packet 2, demo_ipdc_packet 3]"
proof -
  have d: "il_flow_control (ip_limits demo_ipdc)" "unat (il_max_receive (ip_limits demo_ipdc)) = 2"
    "ip_receive_queue demo_ipdc = []" by (simp_all add: demo_ipdc_def default_limits_def)
  show ?thesis
    by (subst ipdc_receive_fifo) (auto simp: demo_accepts d bounded_push_def)
qed

section \<open>Bounds\<close>

definition ipdc_inv :: "ipdc \<Rightarrow> bool" where
  "ipdc_inv i \<longleftrightarrow> il_flow_control (ip_limits i) \<and>
     length (ip_receive_queue i) \<le> unat (il_max_receive (ip_limits i)) \<and>
     ip_send_credits i \<le> il_send_window (ip_limits i) \<and> ip_receive_credits i \<le> il_receive_window (ip_limits i)"

lemma ipdc_inv_frame [simp]:
  "ipdc_inv (ipdc_handle_error e i) = ipdc_inv i"
  "ipdc_inv (note_queue_time now q i) = ipdc_inv i"
  "ipdc_inv (count_drop i) = ipdc_inv i"
  "ipdc_inv (i\<lparr>ip_base := b\<rparr>) = ipdc_inv i"
  "ipdc_inv (i\<lparr>ip_stats := st\<rparr>) = ipdc_inv i"
  "ipdc_inv (i\<lparr>ip_send_queue := sq\<rparr>) = ipdc_inv i"
  "ipdc_inv (snd (ipdc_transmit q i)) = ipdc_inv i"
  by (simp_all add: ipdc_inv_def ipdc_handle_error_def note_queue_time_def count_drop_def ipdc_transmit_def)

lemma ipdc_inv_transmit_now: "ipdc_inv i \<Longrightarrow> ipdc_inv (snd (transmit_now now p som eom i))"
  by (simp add: transmit_now_def ipdc_generate_sequence_def ipdc_transmit_def ipdc_inv_def)

lemma ipdc_inv_send: "ipdc_inv i \<Longrightarrow> ipdc_inv (snd (ipdc_send_packet now po som eom i))"
  by (auto simp: ipdc_send_packet_def intro: ipdc_inv_transmit_now split: option.split)

lemma ipdc_inv_direct: "ipdc_inv i \<Longrightarrow> ipdc_inv (snd (ipdc_send_direct now po som eom i))"
  by (auto simp: ipdc_send_direct_def intro: ipdc_inv_transmit_now split: option.split)

lemma ipdc_inv_received:
  assumes "ipdc_inv i"
  shows "ipdc_inv (snd (ipdc_handle_received now po i))"
proof -
  obtain e b where v: "validate_and_record now (ipdc_validate_packet i) po (ip_base i) = (e, b)" by fastforce
  let ?i1 = "i\<lparr>ip_base := b\<rparr>"
  have inv: "ipdc_inv ?i1" using assms by simp
  have "ipdc_inv (i2\<lparr>ip_receive_queue := q\<rparr>)"
    if "enqueue_packet now (ip_receive_queue ?i1) p False False (il_max_receive (ip_limits ?i1)) ?i1 = (ok, q, i2)"
      "il_max_receive (ip_limits ?i1) \<noteq> 0" for p ok q i2
    using that inv
    by (auto simp: enqueue_packet_def ipdc_generate_sequence_def count_drop_def ipdc_inv_def Let_def
        unat_gt_0 Suc_leI split: if_splits)
  then show ?thesis using assms v
    by (auto simp: ipdc_handle_received_def Let_def split: option.split prod.split)
qed

lemma ipdc_inv_process_send: "ipdc_inv i \<Longrightarrow> ipdc_inv (ipdc_process_send_queue now i)"
proof (induction "length (ip_send_queue i)" arbitrary: i rule: less_induct)
  case less
  show ?case
  proof (cases "ip_send_queue i")
    case (Cons q qs)
    show ?thesis
    proof (cases "check_flow_control i")
      case True
      let ?i1 = "note_queue_time now q (i\<lparr>ip_send_queue := qs\<rparr>)"
      obtain ok i2 where t: "ipdc_transmit q ?i1 = (ok, i2)" by fastforce
      have pos: "0 < ip_send_credits i" using True less.prems by (simp add: check_flow_control_def ipdc_inv_def)
      have i2: "ipdc_inv i2" "ip_send_queue i2 = qs" "ip_send_credits i2 = ip_send_credits i"
        using ipdc_inv_frame(7) [of q ?i1] less.prems arg_cong [OF t, of snd]
        by (auto simp: t ipdc_transmit_def note_queue_time_def)
      let ?next = "if ok then i2\<lparr>ip_base := pdc_update_statistics now True (qp_packet q) (ip_base i2),
          ip_send_credits := ip_send_credits i2 - 1\<rparr> else ipdc_handle_error PROTOCOL_ERROR i2"
      have "ip_send_credits i - 1 \<le> ip_send_credits i" using pos by (simp add: word_le_nat_alt unat_dec_pos)
      then have "ipdc_inv ?next" if ok using i2 that by (auto simp: ipdc_inv_def)
      moreover have "ipdc_inv ?next" if "\<not> ok" using i2 that by simp
      ultimately have "ipdc_inv ?next" by blast
      moreover have "length (ip_send_queue ?next) < length (ip_send_queue i)"
        using i2(2) Cons by (simp add: ipdc_handle_error_def)
      moreover have "ipdc_process_send_queue now i = ipdc_process_send_queue now ?next"
        using Cons True t by (subst ipdc_process_send_queue.simps) simp
      ultimately show ?thesis using less.hyps by simp
    qed (use Cons less.prems in \<open>simp add: ipdc_process_send_queue.simps [of now i]\<close>)
  qed (use less.prems in \<open>simp add: ipdc_process_send_queue.simps [of now i]\<close>)
qed

lemma ipdc_inv_update_flow: "ipdc_inv i \<Longrightarrow> ipdc_inv (update_flow_control i)"
  by (auto simp: update_flow_control_def ipdc_inv_def Let_def intro: inc_le)

lemma ipdc_inv_receive_all: "ipdc_inv i \<Longrightarrow> ipdc_inv (receive_all now qs i)"
proof (induction qs arbitrary: i)
  case (Cons q qs)
  let ?i = "(note_queue_time now q i)\<lparr>ip_base := pdc_update_statistics now False (qp_packet q)
    (ip_base (note_queue_time now q i))\<rparr>"
  have inv: "ipdc_inv ?i" using Cons.prems by simp
  then have "ipdc_inv (?i\<lparr>ip_receive_credits := ip_receive_credits ?i + 1\<rparr>)"
    if "ip_receive_credits ?i < il_receive_window (ip_limits ?i)"
    using inc_le [OF that] by (simp add: ipdc_inv_def)
  then show ?case using Cons.IH inv by (simp add: Let_def)
qed simp

text \<open>The operations of an IPDC, between two changes of its configuration.\<close>

inductive ipdc_step :: "ipdc \<Rightarrow> ipdc \<Rightarrow> bool" where
  "ipdc_step i (snd (ipdc_send_packet now po som eom i))"
| "ipdc_step i (snd (ipdc_send_direct now po som eom i))"
| "ipdc_step i (snd (ipdc_handle_received now po i))"
| "ipdc_step i (ipdc_process_send_queue now i)"
| "ipdc_step i (ipdc_process_receive_queue now i)"
| "ipdc_step i (cleanup_expired_packets now i)"
| "ipdc_step i (handle_packet_delivery now p ok i)"
| "ipdc_step i (snd (clear_send_queue i))"
| "ipdc_step i (snd (clear_receive_queue i))"
| "ipdc_step i (i\<lparr>ip_base := pdc_activate (ip_base i)\<rparr>)"
| "ipdc_step i (i\<lparr>ip_base := pdc_deactivate (ip_base i)\<rparr>)"

lemma ipdc_inv_process_receive: "ipdc_inv i \<Longrightarrow> ipdc_inv (ipdc_process_receive_queue now i)"
  unfolding ipdc_process_receive_queue_def
  by (intro ipdc_inv_update_flow ipdc_inv_receive_all) (simp add: ipdc_inv_def)

lemma ipdc_inv_cleanup: "ipdc_inv i \<Longrightarrow> ipdc_inv (cleanup_expired_packets now i)"
  by (auto simp: cleanup_expired_packets_def ipdc_inv_def Let_def intro: order_trans [OF length_filter_le])

lemma ipdc_inv_step: "ipdc_step i i' \<Longrightarrow> ipdc_inv i \<Longrightarrow> ipdc_inv i'"
  by (erule ipdc_step.cases)
    (simp_all add: ipdc_inv_send ipdc_inv_direct ipdc_inv_received ipdc_inv_process_send ipdc_inv_process_receive
      ipdc_inv_cleanup handle_packet_delivery_def clear_send_queue_def clear_receive_queue_def, simp_all add: ipdc_inv_def)

text \<open>
  From initialization on, with flow control enabled, an IPDC's receive queue never exceeds its
  maximum and its send and receive credits never exceed their windows, whatever is sent,
  received, processed, expired or cleared.
\<close>

theorem ipdc_bounds:
  assumes "ipdc_initialize cfg limits i = (True, i0)" "il_flow_control limits" "ip_receive_queue i = []"
    and "ipdc_step\<^sup>*\<^sup>* i0 j"
  shows "length (ip_receive_queue j) \<le> unat (il_max_receive (ip_limits j)) \<and>
    ip_send_credits j \<le> il_send_window (ip_limits j) \<and> ip_receive_credits j \<le> il_receive_window (ip_limits j)"
proof -
  have "ipdc_inv i0"
    using assms(1-3) by (auto simp: ipdc_initialize_def ipdc_inv_def schedule_queue_cleanup_def Let_def
        split: prod.splits if_splits)
  with assms(4) have "ipdc_inv j" by (induction rule: rtranclp_induct) (auto intro: ipdc_inv_step)
  then show ?thesis by (simp add: ipdc_inv_def)
qed

definition demo_ipdc_config :: pdc_config where
  "demo_ipdc_config = ip_config demo_ipdc"

lemma ipdc_bounds_witness:
  "ip_send_credits (ipdc_process_receive_queue 7 (snd (ipdc_initialize demo_ipdc_config default_limits demo_ipdc))) \<le> 64"
proof -
  let ?i = "snd (ipdc_initialize demo_ipdc_config default_limits demo_ipdc)"
  have ok: "ipdc_initialize demo_ipdc_config default_limits demo_ipdc = (True, ?i)"
    by (simp add: ipdc_initialize_def pdc_base_initialize_def demo_ipdc_config_def demo_ipdc_def)
  have "ipdc_step\<^sup>*\<^sup>* ?i (ipdc_process_receive_queue 7 ?i)" by (rule r_into_rtranclp) (rule ipdc_step.intros)
  then have "ip_send_credits (ipdc_process_receive_queue 7 ?i) \<le>
      il_send_window (ip_limits (ipdc_process_receive_queue 7 ?i))"
    using ipdc_bounds [OF ok] by (simp add: default_limits_def demo_ipdc_def)
  moreover have "ip_limits (ipdc_process_receive_queue 7 ?i) = default_limits"
    by (simp add: ipdc_process_receive_queue_def update_flow_control_def ipdc_initialize_def pdc_base_initialize_def
        demo_ipdc_config_def demo_ipdc_def schedule_queue_cleanup_def Let_def)
  ultimately show ?thesis by (simp add: default_limits_def)
qed

section \<open>What sending leaves out\<close>

lemma send_transmits:
  assumes "ipdc_send_packet now (Some p) som eom i = (True, j)"
  shows "ip_out j = ip_out i @ [add_header (create_pds_header (ip_base i) som eom) p] \<and>
    ip_send_credits j = ip_send_credits i \<and> pb_config (ip_base j) = pb_config (ip_base i)"
  using assms
  by (auto simp: ipdc_send_packet_def transmit_now_def ipdc_generate_sequence_def ipdc_transmit_def
      pdc_update_statistics_def Let_def split: if_splits)

text \<open>
  Sending uses up nothing and numbers nothing: a successful \<open>SendPacket\<close> leaves the send credits
  as they are, so they never run out on this path, and any two packets of an IPDC carry the
  same sequence number in their header, that of the configuration.
\<close>

theorem ipdc_sending_is_unmetered:
  assumes "ipdc_send_packet now (Some p) som eom i = (True, j)" "ipdc_send_packet now' (Some p') som' eom' j = (True, k)"
  shows "ip_send_credits k = ip_send_credits i \<and>
    (\<exists>h h'. peek_header (last (ip_out j)) = Some h \<and> peek_header (last (ip_out k)) = Some h' \<and>
      ph_seq h = ph_seq h' \<and> ph_seq h = pc_sequence (pb_config (ip_base i)))"
  using send_transmits [OF assms(1)] send_transmits [OF assms(2)] by (simp add: create_pds_header_def)

lemma ipdc_sending_is_unmetered_witness:
  "ip_send_credits (snd (ipdc_send_packet 2 (Some (demo_ipdc_packet 2)) True True
     (snd (ipdc_send_packet 1 (Some (demo_ipdc_packet 1)) True True demo_ipdc)))) = 64"
proof -
  have sends: "fst (ipdc_send_packet now (Some (demo_ipdc_packet b)) True True i)"
    if "accepts i (demo_ipdc_packet b)" "0 < ip_send_credits i" "\<not> ip_flow_active i" "ip_device i" "ip_channel i" for now b i
    using that by (simp add: ipdc_send_packet_def accepts_def check_flow_control_def transmit_now_def
        ipdc_generate_sequence_def ipdc_transmit_def)
  let ?i = "snd (ipdc_send_packet 1 (Some (demo_ipdc_packet 1)) True True demo_ipdc)"
  have d: "0 < ip_send_credits demo_ipdc" "\<not> ip_flow_active demo_ipdc" "ip_device demo_ipdc" "ip_channel demo_ipdc"
    by (simp_all add: demo_ipdc_def)
  have one: "ipdc_send_packet 1 (Some (demo_ipdc_packet 1)) True True demo_ipdc = (True, ?i)"
    using sends [OF demo_accepts d, of 1 1] by (simp add: prod_eq_iff)
  have frame: "ipdc_view ?i = ipdc_view demo_ipdc" "\<not> ip_flow_active ?i" "ip_device ?i" "ip_channel ?i"
    using demo_accepts [of 1] d by (simp_all add: ipdc_send_packet_def accepts_def check_flow_control_def
        transmit_now_def ipdc_generate_sequence_def ipdc_transmit_def ipdc_view_def pdc_update_statistics_def Let_def)
  have "0 < ip_send_credits ?i" using send_transmits [OF one] d by simp
  then have "fst (ipdc_send_packet 2 (Some (demo_ipdc_packet 2)) True True ?i)"
    using sends [of ?i 2 2] accepts_view [OF frame(1)] demo_accepts frame(2-4) by simp
  then have "ipdc_send_packet 2 (Some (demo_ipdc_packet 2)) True True ?i =
      (True, snd (ipdc_send_packet 2 (Some (demo_ipdc_packet 2)) True True ?i))" by (simp add: prod_eq_iff)
  from ipdc_sending_is_unmetered [OF one this] show ?thesis by (simp add: demo_ipdc_def)
qed

text \<open>
  \<open>ConvertFepToAddress\<close> drops the low byte of the endpoint: two endpoints have the same address
  exactly when they agree above it, so 256 endpoints share each address.
\<close>

theorem fep_address_collisions:
  "convert_fep_to_address a = convert_fep_to_address b \<longleftrightarrow> drop_bit 8 a = drop_bit 8 b"
proof
  assume eq: "convert_fep_to_address a = convert_fep_to_address b"
  have bytes: "ucast (drop_bit k a) = (ucast (drop_bit k b) :: u8)" if "k \<in> {8, 16, 24}" for k
    using eq that by (auto simp: convert_fep_to_address_def)
  show "drop_bit 8 a = drop_bit 8 b"
  proof (rule bit_word_eqI)
    fix n assume "n < LENGTH(32)"
    have b: "bit (drop_bit k a) m = bit (drop_bit k b) m" if "k \<in> {8, 16, 24}" "m < 8" for k m
      using arg_cong [OF bytes [OF that(1)], of "\<lambda>w. bit w m"] that(2) by (simp add: bit_simps)
    have high: "\<not> bit w (8 + n)" if "24 \<le> n" for w :: u32 using that by (auto dest: bit_imp_le_length)
    show "bit (drop_bit 8 a) n = bit (drop_bit 8 b) n"
      using b [of 8 n] b [of 16 "n - 8"] b [of 24 "n - 16"] high
      by (cases "n < 8"; cases "n < 16"; cases "n < 24") (simp_all add: bit_simps)
  qed
next
  assume eq: "drop_bit 8 a = drop_bit 8 b"
  have "drop_bit 16 x = drop_bit 8 (drop_bit 8 x)" "drop_bit 24 x = drop_bit 16 (drop_bit 8 x)" for x :: u32
    by (simp_all add: drop_bit_drop_bit)
  then show "convert_fep_to_address a = convert_fep_to_address b"
    using eq unfolding convert_fep_to_address_def by metis
qed

end
