(* ===== verification/RtoTimer.thy ===== *)
theory RtoTimer
  imports Prelude
begin

text \<open>
  \<open>RtoTimer\<close> (\<open>model/pdc/rto-timer/rto-timer.cc\<close>): a state machine around an \<open>ns3::Timer\<close>. The
  pending event of the timer is the field \<open>rt_due\<close>; \<open>Timer::Schedule\<close> demands that none is pending.
\<close>

datatype timer_state = STOPPED | RUNNING | EXPIRED

record rto_timer =
  rt_due :: "ns option"
  rt_timeout :: ns
  rt_state :: timer_state
  rt_expired :: bool
  rt_pdc_id :: u16
  rt_seq :: u32

definition new_rto_timer :: rto_timer where
  "new_rto_timer = \<lparr>rt_due = None, rt_timeout = 1000000000, rt_state = STOPPED, rt_expired = False,
     rt_pdc_id = 0, rt_seq = 0\<rparr>"

definition rto_set_timeout :: "ns \<Rightarrow> rto_timer \<Rightarrow> rto_timer" where
  "rto_set_timeout d t = t\<lparr>rt_timeout := d\<rparr>"

text \<open>\<open>Timer::Schedule\<close> on a timer that is already running aborts the program: \<open>None\<close>.\<close>

definition timer_schedule :: "ns \<Rightarrow> rto_timer \<Rightarrow> rto_timer option" where
  "timer_schedule now t = (if rt_due t = None then Some (t\<lparr>rt_due := Some (now + rt_timeout t)\<rparr>) else None)"

definition rto_start :: "ns \<Rightarrow> rto_timer \<Rightarrow> rto_timer option" where
  "rto_start now t =
    (let t1 = (if rt_state t = RUNNING then t\<lparr>rt_due := None\<rparr> else t)
     in timer_schedule now (t1\<lparr>rt_expired := False, rt_state := RUNNING\<rparr>))"

definition rto_restart :: "ns \<Rightarrow> rto_timer \<Rightarrow> rto_timer option" where
  "rto_restart now t =
    (let t1 = (if rt_state t = RUNNING then t\<lparr>rt_due := None\<rparr> else t)
     in timer_schedule now (t1\<lparr>rt_expired := False, rt_state := RUNNING\<rparr>))"

definition rto_stop :: "rto_timer \<Rightarrow> rto_timer" where
  "rto_stop t = (if rt_state t = RUNNING then t\<lparr>rt_due := None, rt_state := STOPPED\<rparr> else t)"

definition rto_is_running :: "rto_timer \<Rightarrow> bool" where
  "rto_is_running t \<longleftrightarrow> rt_state t = RUNNING \<and> \<not> rt_expired t"

text \<open>\<open>HandleTimeout\<close>, run as the timer's event.\<close>

definition rto_handle_timeout :: "rto_timer \<Rightarrow> rto_timer" where
  "rto_handle_timeout t = t\<lparr>rt_due := None, rt_state := EXPIRED, rt_expired := True\<rparr>"

inductive rto_step :: "rto_timer \<Rightarrow> rto_timer option \<Rightarrow> bool" where
  "rto_step t (rto_start now t)"
| "rto_step t (rto_restart now t)"
| "rto_step t (Some (rto_stop t))"
| "rto_step t (Some (rto_set_timeout d t))"
| "rt_due t = Some now \<Longrightarrow> rto_step t (Some (rto_handle_timeout t))"

inductive rto_reachable :: "rto_timer \<Rightarrow> bool" where
  init: "rto_reachable new_rto_timer"
| step: "rto_reachable t \<Longrightarrow> rto_step t (Some t') \<Longrightarrow> rto_reachable t'"

definition rto_inv :: "rto_timer \<Rightarrow> bool" where
  "rto_inv t \<longleftrightarrow> (rt_state t = RUNNING \<longleftrightarrow> rt_due t \<noteq> None) \<and> (rt_state t = EXPIRED \<longleftrightarrow> rt_expired t)"

lemmas rto_defs = rto_start_def rto_restart_def rto_stop_def rto_set_timeout_def rto_handle_timeout_def
  timer_schedule_def Let_def

lemma rto_inv_step: "rto_inv t \<Longrightarrow> rto_step t (Some t') \<Longrightarrow> rto_inv t'"
  by (erule rto_step.cases) (auto simp: rto_inv_def rto_defs split: if_splits)

lemma rto_inv_reachable: "rto_reachable t \<Longrightarrow> rto_inv t"
proof (induction rule: rto_reachable.induct)
  case init
  show ?case by (simp add: rto_inv_def new_rto_timer_def)
next
  case (step t t')
  then show ?case using rto_inv_step by blast
qed

text \<open>
  C21: The retransmission timer never schedules twice: in every reachable state starting it succeeds
  and leaves exactly one event, one timeout ahead; it counts as running exactly while an event
  is pending, and as expired exactly when that event has fired.
\<close>

theorem rto_timer_consistent:
  assumes "rto_reachable t"
  shows "(\<exists>t'. rto_start now t = Some t' \<and> rt_due t' = Some (now + rt_timeout t) \<and> rto_is_running t') \<and>
    rto_restart now t = rto_start now t \<and>
    (rto_is_running t \<longleftrightarrow> rt_due t \<noteq> None) \<and> (rt_expired t \<longleftrightarrow> rt_state t = EXPIRED) \<and> rt_due (rto_stop t) = None"
  using rto_inv_reachable [OF assms]
  by (cases "rt_state t") (auto simp: rto_inv_def rto_is_running_def rto_defs)

lemma rto_timer_consistent_witness: "\<exists>t'. rto_start 5 new_rto_timer = Some t' \<and> rt_due t' = Some 1000000005"
  using rto_timer_consistent [OF rto_reachable.init, of 5] by (auto simp: new_rto_timer_def)

end
