(* ===== verification/CbfcLink.thy ===== *)
theory CbfcLink
  imports Cbfc
begin

text \<open>
  Two ports joined by a wire: credits are neither created nor, without losses, destroyed as long
  as the headers do not matter; what a receiver must be able to hold; how the code loses credits.
\<close>

section \<open>The meter\<close>

text \<open>The three parameters on which the conversion of sizes to credits depends.\<close>

definition meter :: "cbfc \<Rightarrow> bool \<times> u32 \<times> u32" where
  "meter c = (cb_dynamic c, cb_base c, cb_bytes_per_credit c)"

definition charge :: "u32 \<Rightarrow> u32 \<Rightarrow> u32" where
  "charge bpc n = max ((n + bpc - 1) div bpc) 1"

lemma calculate_charge:
  "meter c = (True, 1, bpc) \<Longrightarrow> calculate_credits_for_packet c n = charge bpc n"
  by (auto simp: meter_def calculate_credits_for_packet_def charge_def)

lemma unat_charge:
  assumes "unat n + unat bpc < 2 ^ 32" "bpc \<noteq> 0"
  shows "unat (charge bpc n) = max ((unat n + unat bpc - 1) div unat bpc) 1"
proof -
  have p: "0 < unat bpc" using assms(2) by (simp add: unat_gt_0)
  then have le: "1 \<le> n + bpc" using assms by (simp add: word_le_nat_alt unat_add_nowrap)
  have "unat (n + bpc - 1) = unat n + unat bpc - 1"
    using assms(1) le by (simp add: unat_sub unat_add_nowrap)
  then show ?thesis by (simp add: charge_def max_def word_le_nat_alt unat_div)
qed

lemma charge_mono:
  assumes "unat n + unat bpc < 2 ^ 32" "bpc \<noteq> 0" "m \<le> n"
  shows "unat (charge bpc m) \<le> unat (charge bpc n)"
proof -
  have "unat m \<le> unat n" using assms(3) by (simp add: word_le_nat_alt)
  then show ?thesis
    using assms by (simp add: unat_charge div_le_mono max_def)
      (meson div_le_mono diff_le_mono add_le_mono1 le_trans not_less_eq_eq)
qed

lemma charge_covers:
  assumes "unat n + unat bpc < 2 ^ 32" "bpc \<noteq> 0"
  shows "unat n \<le> unat (charge bpc n) * unat bpc"
proof -
  let ?b = "unat bpc" and ?q = "(unat n + unat bpc - 1) div unat bpc"
  have p: "0 < ?b" using assms(2) by (simp add: unat_gt_0)
  have "unat n + ?b - 1 < (?q + 1) * ?b"
    using p by (metis dividend_less_div_times add.commute add_mult_distrib mult_1)
  then have "unat n \<le> ?q * ?b" using p by (simp add: add_mult_distrib)
  also have "\<dots> \<le> unat (charge bpc n) * ?b"
    using assms by (simp add: unat_charge)
  finally show ?thesis .
qed

section \<open>The manager's operations\<close>

lemma add_peer_vcs:
  "cb_tx (fold (add_peer_vc p n) vs c) (q, v) = (if q = p \<and> v \<in> set vs then Some n else cb_tx c (q, v))"
  "cb_to_return (fold (add_peer_vc p n) vs c) (q, v) =
     (if q = p \<and> v \<in> set vs then Some 0 else cb_to_return c (q, v))"
  by (induction vs arbitrary: c) (auto simp: add_peer_vc_def)

lemma add_peer_frame:
  "cb_enabled (fold (add_peer_vc p n) vs c) = cb_enabled c"
  "cb_callbacks (fold (add_peer_vc p n) vs c) = cb_callbacks c"
  "cb_batch (fold (add_peer_vc p n) vs c) = cb_batch c"
  by (induction vs arbitrary: c) (auto simp: add_peer_vc_def)

text \<open>An endpoint's port after \<open>InitializeCbfc\<close>.\<close>

definition endpoint_port :: "u8 \<Rightarrow> u32 \<Rightarrow> u32 \<Rightarrow> u32 \<Rightarrow> mac48 \<Rightarrow> mac48 \<Rightarrow> cbfc" where
  "endpoint_port num_vcs initial batch bpc local remote =
    initialize_port num_vcs initial True batch 10 remote False 85 None local 256 52 bpc new_cbfc"

lemma endpoint_port_fields:
  "meter (endpoint_port k i b bpc l r) = (True, 1, bpc)"
  "cb_enabled (endpoint_port k i b bpc l r)" "cb_callbacks (endpoint_port k i b bpc l r)"
  "cb_batch (endpoint_port k i b bpc l r) = b"
  "get_tx_credits (endpoint_port k i b bpc l r) r v = (if v < k then i else 0)"
  "get_credits_to_return (endpoint_port k i b bpc l r) r v = 0"
  by (simp_all add: endpoint_port_def initialize_port_def initialize_cbfc_def initialize_peer_device_credits_def
      add_peer_device_def set_advanced_credit_calculation_def set_dynamic_credit_mode_def new_cbfc_def
      configure_def set_callbacks_def initialize_basic_def meter_def get_tx_credits_def
      get_credits_to_return_def add_peer_vcs add_peer_frame vcs_below Let_def del: set_map)

lemma meter_frame [simp]:
  "meter (snd (consume_dynamic_credits p v n c)) = meter c"
  "meter (add_tx_credits p v w c) = meter c"
  "meter (handle_credit_return p v n c) = meter c"
  "meter (snd (credit_return l p v c)) = meter c"
  by (simp_all add: meter_def consume_dynamic_credits_def decrement_tx_credits_def add_tx_credits_def
      handle_credit_return_def credit_return_def clear_credits_to_return_def Let_def split: option.split)

text \<open>What the operations do to the two tables.\<close>

lemma consume_tx:
  assumes "has_enough_credits c p v n"
  shows "calculate_credits_for_packet c n \<le> get_tx_credits c p v"
    "fst (consume_dynamic_credits p v n c)"
    "get_tx_credits (snd (consume_dynamic_credits p v n c)) p w =
      (if w = v then get_tx_credits c p v - calculate_credits_for_packet c n else get_tx_credits c p w)"
  using assms by (auto simp: has_enough_credits_def consume_dynamic_credits_def decrement_tx_credits_def
      get_tx_credits_def split: option.splits)

lemma add_tx:
  "get_tx_credits (add_tx_credits p v n c) p w =
    (if w = v then get_tx_credits c p v + n else get_tx_credits c p w)"
  by (auto simp: add_tx_credits_def get_tx_credits_def word_gt_0)

lemma handle_return:
  assumes "cb_enabled c"
  shows "get_credits_to_return (handle_credit_return p v n c) p w =
    (if w = v then get_credits_to_return c p v + calculate_credits_for_packet c n
     else get_credits_to_return c p w)"
  using assms by (auto simp: handle_credit_return_def get_credits_to_return_def)

lemma credit_return_cases:
  assumes "cb_enabled c" "cb_callbacks c"
  shows "credit_return l p v c =
    (if get_credits_to_return c p v < cb_batch c then (None, c)
     else (Some \<lparr>cp_source = l, cp_dest = p, cp_header = \<lparr>ch_vc = v, ch_credits = ucast (get_credits_to_return c p v)\<rparr>\<rparr>,
           snd (clear_credits_to_return p v c)))"
  using assms by (simp add: credit_return_def Let_def)

lemma clear_return:
  "get_credits_to_return (snd (clear_credits_to_return p v c)) p w =
    (if w = v then 0 else get_credits_to_return c p w)"
  by (auto simp: clear_credits_to_return_def get_credits_to_return_def split: option.split)

section \<open>The wire\<close>

text \<open>
  A sending port, a receiving endpoint, the data packets (virtual channel and size) and the credit
  packets between them, in order. The events are those of the net device: \<open>TryTransmit\<close> sends a
  packet when there are credits for it, \<open>ProcessingReceivedPacket\<close> and \<open>Receive\<close> take what
  arrives; either kind of packet may be lost (error model, full queue). Packets are shorter than
  2 GiB and have their 16 bytes of PPP and Ethernet header.
\<close>

record link =
  lk_snd :: cbfc
  lk_rcv :: cbfc
  lk_data :: "(vc_id \<times> u32) list"
  lk_credit :: "credit_packet list"

datatype link_event =
    Link_Send vc_id u32
  | Link_Data
  | Link_Credit
  | Link_Data_Lost
  | Link_Credit_Lost

definition link_send :: "mac48 \<Rightarrow> vc_id \<Rightarrow> u32 \<Rightarrow> link \<Rightarrow> link" where
  "link_send b vc n k = k\<lparr>lk_snd := snd (consume_dynamic_credits b vc n (lk_snd k)),
     lk_data := lk_data k @ [(vc, n)]\<rparr>"

definition link_receive :: "mac48 \<Rightarrow> mac48 \<Rightarrow> vc_id \<Rightarrow> u32 \<Rightarrow> link \<Rightarrow> link" where
  "link_receive a b vc n k =
    (let (p, r) = process_data_at_endpoint b a vc n (lk_rcv k)
     in k\<lparr>lk_rcv := r, lk_credit := lk_credit k @ (case p of Some q \<Rightarrow> [q] | None \<Rightarrow> [])\<rparr>)"

definition link_credited :: "credit_packet \<Rightarrow> link \<Rightarrow> link" where
  "link_credited p k = k\<lparr>lk_snd := snd (receive_credit_packet p (lk_snd k))\<rparr>"

inductive link_step :: "mac48 \<Rightarrow> mac48 \<Rightarrow> link \<Rightarrow> link_event \<Rightarrow> link \<Rightarrow> bool" for a b where
  send: "link_step a b k (Link_Send vc n) (link_send b vc n k)"
    if "has_enough_credits (lk_snd k) b vc n" "16 \<le> n" "n < 0x80000000"
| data: "link_step a b k Link_Data (link_receive a b vc n (k\<lparr>lk_data := ds\<rparr>))"
    if "lk_data k = (vc, n) # ds"
| credit: "link_step a b k Link_Credit (link_credited p (k\<lparr>lk_credit := ps\<rparr>))"
    if "lk_credit k = p # ps"
| data_lost: "link_step a b k Link_Data_Lost (k\<lparr>lk_data := ds\<rparr>)"
    if "lk_data k = (vc, n) # ds"
| credit_lost: "link_step a b k Link_Credit_Lost (k\<lparr>lk_credit := ps\<rparr>)"
    if "lk_credit k = p # ps"

inductive link_run :: "mac48 \<Rightarrow> mac48 \<Rightarrow> link \<Rightarrow> link_event list \<Rightarrow> link \<Rightarrow> bool" for a b where
  none: "link_run a b k [] k"
| more: "link_run a b k (es @ [e]) k''" if "link_run a b k es k'" "link_step a b k' e k''"

definition link_start :: "mac48 \<Rightarrow> mac48 \<Rightarrow> u8 \<Rightarrow> u32 \<Rightarrow> u32 \<Rightarrow> u32 \<Rightarrow> link" where
  "link_start a b num_vcs initial batch bpc =
    \<lparr>lk_snd = endpoint_port num_vcs initial batch bpc a b, lk_rcv = endpoint_port num_vcs initial batch bpc b a,
     lk_data = [], lk_credit = []\<rparr>"

section \<open>Credits are not created\<close>

definition data_credits :: "u32 \<Rightarrow> vc_id \<Rightarrow> (vc_id \<times> u32) list \<Rightarrow> nat" where
  "data_credits bpc v ds = (\<Sum>d\<leftarrow>ds. if fst d = v then unat (charge bpc (snd d)) else 0)"

definition packet_credits :: "vc_id \<Rightarrow> credit_packet list \<Rightarrow> nat" where
  "packet_credits v ps = (\<Sum>p\<leftarrow>ps. if ch_vc (cp_header p) = v then unat (ch_credits (cp_header p)) else 0)"

text \<open>All credits of a virtual channel, wherever they are.\<close>

definition held :: "u32 \<Rightarrow> mac48 \<Rightarrow> mac48 \<Rightarrow> vc_id \<Rightarrow> link \<Rightarrow> nat" where
  "held bpc a b v k = unat (get_tx_credits (lk_snd k) b v) + data_credits bpc v (lk_data k) +
     unat (get_credits_to_return (lk_rcv k) a v) + packet_credits v (lk_credit k)"

lemma credits_simps [simp]:
  "data_credits bpc v [] = 0" "packet_credits v [] = 0"
  "data_credits bpc v (d # ds) = (if fst d = v then unat (charge bpc (snd d)) else 0) + data_credits bpc v ds"
  "data_credits bpc v (ds @ es) = data_credits bpc v ds + data_credits bpc v es"
  "packet_credits v (p # ps) = (if ch_vc (cp_header p) = v then unat (ch_credits (cp_header p)) else 0) + packet_credits v ps"
  "packet_credits v (ps @ qs) = packet_credits v ps + packet_credits v qs"
  by (simp_all add: data_credits_def packet_credits_def)

text \<open>The configuration a run keeps, and the shape of what is on the wire.\<close>

definition link_ok :: "u32 \<Rightarrow> u32 \<Rightarrow> mac48 \<Rightarrow> link \<Rightarrow> bool" where
  "link_ok batch bpc b k \<longleftrightarrow> meter (lk_snd k) = (True, 1, bpc) \<and> meter (lk_rcv k) = (True, 1, bpc) \<and>
     cb_enabled (lk_rcv k) \<and> cb_callbacks (lk_rcv k) \<and> cb_batch (lk_rcv k) = batch \<and>
     (\<forall>d\<in>set (lk_data k). 16 \<le> snd d \<and> snd d < 0x80000000) \<and> (\<forall>p\<in>set (lk_credit k). cp_source p = b)"

lemma receiver_frame [simp]:
  "cb_enabled (handle_credit_return p v n c) = cb_enabled c"
  "cb_callbacks (handle_credit_return p v n c) = cb_callbacks c"
  "cb_batch (handle_credit_return p v n c) = cb_batch c"
  "cb_enabled (snd (credit_return l p v c)) = cb_enabled c"
  "cb_callbacks (snd (credit_return l p v c)) = cb_callbacks c"
  "cb_batch (snd (credit_return l p v c)) = cb_batch c"
  by (simp_all add: handle_credit_return_def credit_return_def clear_credits_to_return_def Let_def split: option.split)

lemma credit_return_source:
  "fst (credit_return l p v c) = Some q \<Longrightarrow> cp_source q = l"
  by (auto simp: credit_return_def Let_def split: if_splits)

lemma link_ok_step:
  assumes "link_step a b k e k'" "link_ok batch bpc b k"
  shows "link_ok batch bpc b k'"
  using assms
  by cases (auto simp: link_ok_def link_send_def link_receive_def link_credited_def receive_credit_packet_def
      process_data_at_endpoint_def case_prod_beta Let_def credit_return_source split: option.splits)

lemma link_receive_fields:
  "lk_snd (link_receive a b v n k) = lk_snd k" "lk_data (link_receive a b v n k) = lk_data k"
  "lk_rcv (link_receive a b v n k) = snd (credit_return b a v (handle_credit_return a v (n - 16) (lk_rcv k)))"
  "lk_credit (link_receive a b v n k) = lk_credit k @
     (case fst (credit_return b a v (handle_credit_return a v (n - 16) (lk_rcv k))) of Some q \<Rightarrow> [q] | None \<Rightarrow> [])"
  by (simp_all add: link_receive_def case_prod_beta process_data_at_endpoint_def ppp_header_size_def
      ethernet_header_size_def)

lemma held_send:
  assumes "link_ok batch bpc b k" "has_enough_credits (lk_snd k) b v n"
  shows "held bpc a b w (link_send b v n k) = held bpc a b w k"
proof -
  have m: "meter (lk_snd k) = (True, 1, bpc)" using assms(1) by (simp add: link_ok_def)
  note c = consume_tx [OF assms(2), unfolded calculate_charge [OF m]]
  have "unat (get_tx_credits (lk_snd k) b v - charge bpc n) + unat (charge bpc n) = unat (get_tx_credits (lk_snd k) b v)"
    using c(1) by (simp add: unat_sub word_le_nat_alt)
  then show ?thesis using c(3) by (cases "w = v") (simp_all add: held_def link_send_def)
qed

text \<open>
  Delivering a data packet at an endpoint: the credits counted there are those of the size without
  its headers, and a credit packet takes the count modulo 256.
\<close>

lemma held_receive:
  assumes ok: "link_ok batch bpc b k"
    and room: "unat (get_credits_to_return (lk_rcv k) a v) + unat (charge bpc (n - 16)) < 2 ^ 32"
  defines "r \<equiv> unat (get_credits_to_return (lk_rcv k) a v) + unat (charge bpc (n - 16))"
  shows "held bpc a b w (link_receive a b v n k) + (if w = v \<and> unat batch \<le> r then r - r mod 256 else 0) =
    held bpc a b w k + (if w = v then unat (charge bpc (n - 16)) else 0)"
proof -
  let ?c = "handle_credit_return a v (n - 16) (lk_rcv k)"
  have m: "meter (lk_rcv k) = (True, 1, bpc)" "cb_enabled ?c" "cb_callbacks ?c" "cb_batch (lk_rcv k) = batch"
    using ok by (simp_all add: link_ok_def)
  have g: "get_credits_to_return ?c a u = (if u = v then get_credits_to_return (lk_rcv k) a v + charge bpc (n - 16)
      else get_credits_to_return (lk_rcv k) a u)" for u
    using ok by (simp add: handle_return link_ok_def calculate_charge [OF m(1)])
  have u: "unat (get_credits_to_return (lk_rcv k) a v + charge bpc (n - 16)) = r"
    using room by (simp add: r_def unat_add_nowrap)
  have t: "unat (ucast x :: u8) = unat x mod 256" for x :: u32
    by (simp add: unsigned_ucast_eq take_bit_eq_mod)
  have le: "r mod 256 \<le> r" and r: "unat (get_credits_to_return (lk_rcv k) a v) + unat (charge bpc (n - 16)) = r"
    by (simp_all add: r_def)
  show ?thesis
    using le r by (simp add: held_def link_receive_fields credit_return_cases [OF m(2,3)] g clear_return m(4) word_less_nat_alt u
        word_le_nat_alt t)
qed

lemma held_credited:
  assumes "unat (get_tx_credits (lk_snd k) b (ch_vc (cp_header p))) + unat (ch_credits (cp_header p)) < 2 ^ 32"
    "cp_source p = b"
  shows "held bpc a b w (link_credited p k) = held bpc a b w k +
    (if ch_vc (cp_header p) = w then unat (ch_credits (cp_header p)) else 0)"
proof (cases "ch_credits (cp_header p) = 0")
  case True
  then show ?thesis by (simp add: held_def link_credited_def receive_credit_packet_def)
next
  case False
  have u: "unat (ucast (ch_credits (cp_header p)) :: u32) = unat (ch_credits (cp_header p))"
    using unsigned_less [of "ch_credits (cp_header p)", where ?'a = nat] by (simp add: unsigned_ucast_eq take_bit_eq_mod)
  have "(ucast (ch_credits (cp_header p)) :: u32) \<noteq> 0"
    using False u by (metis unat_eq_zero)
  moreover have "unat (get_tx_credits (lk_snd k) b (ch_vc (cp_header p)) + ucast (ch_credits (cp_header p))) =
      unat (get_tx_credits (lk_snd k) b (ch_vc (cp_header p))) + unat (ch_credits (cp_header p))"
    using assms(1) u by (subst unat_add_nowrap) simp_all
  ultimately show ?thesis
    using assms(2) by (cases "ch_vc (cp_header p) = w")
      (simp_all add: held_def link_credited_def receive_credit_packet_def Let_def word_gt_0 add_tx)
qed

lemma held_step:
  assumes step: "link_step a b k e k'" and ok: "link_ok batch bpc b k"
    and bound: "\<And>v. held bpc a b v k < 2 ^ 32"
    and bpc: "bpc \<noteq> 0" "unat bpc \<le> 2 ^ 31"
  shows "held bpc a b w k' \<le> held bpc a b w k"
  using step
proof cases
  case (send v n)
  then show ?thesis using held_send [OF ok] by simp
next
  case (data v n ds)
  let ?k = "k\<lparr>lk_data := ds\<rparr>"
  have n: "16 \<le> n" "n < 0x80000000" using ok data by (simp_all add: link_ok_def)
  have "n - 16 \<le> n" using n(1) by (simp add: word_le_nat_alt unat_sub)
  moreover have "unat n + unat bpc < 2 ^ 32" using n(2) bpc(2) by (simp add: word_less_nat_alt)
  ultimately have c: "unat (charge bpc (n - 16)) \<le> unat (charge bpc n)"
    using bpc(1) by (intro charge_mono)
  have "unat (get_credits_to_return (lk_rcv ?k) a v) + unat (charge bpc (n - 16)) \<le> held bpc a b v k"
    using data c by (simp add: held_def)
  then have room: "unat (get_credits_to_return (lk_rcv ?k) a v) + unat (charge bpc (n - 16)) < 2 ^ 32"
    using bound [of v] by linarith
  have "link_ok batch bpc b ?k" using ok data by (simp add: link_ok_def)
  from held_receive [OF this room, of w] c show ?thesis
    using data by (simp add: held_def split: if_splits)
next
  case (credit p ps)
  let ?k = "k\<lparr>lk_credit := ps\<rparr>"
  have "unat (get_tx_credits (lk_snd ?k) b (ch_vc (cp_header p))) + unat (ch_credits (cp_header p)) \<le>
      held bpc a b (ch_vc (cp_header p)) k"
    using credit by (simp add: held_def)
  then have "unat (get_tx_credits (lk_snd ?k) b (ch_vc (cp_header p))) + unat (ch_credits (cp_header p)) < 2 ^ 32"
    using bound [of "ch_vc (cp_header p)"] by linarith
  from held_credited [OF this] show ?thesis
    using credit ok by (simp add: held_def link_ok_def)
next
  case (data_lost v n ds)
  then show ?thesis by (simp add: held_def)
next
  case (credit_lost p ps)
  then show ?thesis by (simp add: held_def)
qed

definition link_inv :: "mac48 \<Rightarrow> mac48 \<Rightarrow> u32 \<Rightarrow> u32 \<Rightarrow> u32 \<Rightarrow> link \<Rightarrow> bool" where
  "link_inv a b initial batch bpc k \<longleftrightarrow> link_ok batch bpc b k \<and> (\<forall>v. held bpc a b v k \<le> unat initial)"

lemma held_start:
  "held bpc a b v (link_start a b num_vcs initial batch bpc) = (if v < num_vcs then unat initial else 0)"
  by (simp add: held_def link_start_def endpoint_port_fields)

lemma link_inv_start: "link_inv a b initial batch bpc (link_start a b num_vcs initial batch bpc)"
  by (simp add: link_inv_def held_start) (simp add: link_ok_def link_start_def endpoint_port_fields)

lemma link_inv_run:
  assumes "link_run a b k es k'" "link_inv a b initial batch bpc k" "bpc \<noteq> 0" "unat bpc \<le> 2 ^ 31"
  shows "link_inv a b initial batch bpc k'"
  using assms
proof (induction rule: link_run.induct)
  case (more k es k' e k'')
  then have i: "link_inv a b initial batch bpc k'" by simp
  have lt: "held bpc a b v k' < 2 ^ 32" for v
    using i unsigned_less [of initial, where ?'a = nat] by (force simp: link_inv_def intro: le_less_trans)
  have "held bpc a b v k'' \<le> held bpc a b v k'" for v
    by (rule held_step [OF more.hyps(2) _ lt more.prems(2,3), where batch = batch]) (use i in \<open>simp_all add: link_inv_def\<close>)
  then show ?case
    using i link_ok_step [OF more.hyps(2)] unfolding link_inv_def by (meson le_trans)
qed simp

text \<open>The bytes of a virtual channel that are on the wire.\<close>

definition data_bytes :: "vc_id \<Rightarrow> (vc_id \<times> u32) list \<Rightarrow> nat" where
  "data_bytes v ds = (\<Sum>d\<leftarrow>ds. if fst d = v then unat (snd d) else 0)"

lemma data_bytes_covered:
  assumes "\<forall>d\<in>set ds. snd d < 0x80000000" "bpc \<noteq> 0" "unat bpc \<le> 2 ^ 31"
  shows "data_bytes v ds \<le> data_credits bpc v ds * unat bpc"
  using assms(1)
proof (induction ds)
  case (Cons d ds)
  have "unat (snd d) + unat bpc < 2 ^ 32"
    using Cons.prems assms(3) by (simp add: word_less_nat_alt)
  from charge_covers [OF this assms(2)] Cons show ?case
    by (simp add: data_bytes_def add_mult_distrib)
qed (simp add: data_bytes_def)

section \<open>Without losses credits come back\<close>

definition lossless :: "link_event list \<Rightarrow> bool" where
  "lossless es \<longleftrightarrow> Link_Data_Lost \<notin> set es \<and> Link_Credit_Lost \<notin> set es"

text \<open>A size whose charge the headers do not change and that fits a credit packet.\<close>

definition exact_size :: "u32 \<Rightarrow> u32 \<Rightarrow> u32 \<Rightarrow> bool" where
  "exact_size batch bpc n \<longleftrightarrow> charge bpc (n - 16) = charge bpc n \<and>
     unat (charge bpc n) + max (unat batch) 1 \<le> 256"

definition link_exact :: "mac48 \<Rightarrow> u32 \<Rightarrow> u32 \<Rightarrow> link \<Rightarrow> bool" where
  "link_exact a batch bpc k \<longleftrightarrow> (\<forall>d\<in>set (lk_data k). exact_size batch bpc (snd d)) \<and>
     (\<forall>v. unat (get_credits_to_return (lk_rcv k) a v) < max (unat batch) 1)"

lemma link_receive_owed:
  assumes ok: "link_ok batch bpc b k" and small: "unat (get_credits_to_return (lk_rcv k) a w) < max (unat batch) 1"
  shows "unat (get_credits_to_return (lk_rcv (link_receive a b v n k)) a w) < max (unat batch) 1"
proof -
  let ?c = "handle_credit_return a v (n - 16) (lk_rcv k)"
  have m: "cb_enabled ?c" "cb_callbacks ?c" "cb_enabled (lk_rcv k)" "cb_batch (lk_rcv k) = batch"
    using ok by (simp_all add: link_ok_def)
  show ?thesis
    using small by (auto simp: link_receive_fields credit_return_cases [OF m(1,2)] clear_return
        handle_return [OF m(3)] word_less_nat_alt m(4))
qed

lemma link_exact_step:
  assumes step: "link_step a b k e k'" and ok: "link_ok batch bpc b k" and ex: "link_exact a batch bpc k"
    and bound: "\<And>v. held bpc a b v k < 2 ^ 32"
    and e: "e \<noteq> Link_Data_Lost" "e \<noteq> Link_Credit_Lost" "\<And>v n. e = Link_Send v n \<Longrightarrow> exact_size batch bpc n"
  shows "link_exact a batch bpc k' \<and> held bpc a b w k' = held bpc a b w k"
  using step
proof cases
  case (send v n)
  then show ?thesis
    using ex e(3) held_send [OF ok] by (auto simp: link_exact_def link_send_def)
next
  case (data v n ds)
  let ?k = "k\<lparr>lk_data := ds\<rparr>"
  have ok': "link_ok batch bpc b ?k" and n: "exact_size batch bpc n"
    using ok ex data by (simp_all add: link_ok_def link_exact_def)
  have owed: "unat (get_credits_to_return (lk_rcv ?k) a u) < max (unat batch) 1" for u
    using ex by (simp add: link_exact_def)
  let ?r = "unat (get_credits_to_return (lk_rcv ?k) a v) + unat (charge bpc (n - 16))"
  have r: "?r < 256" using owed [of v] n by (simp add: exact_size_def)
  then have h: "held bpc a b w (link_receive a b v n ?k) =
      held bpc a b w ?k + (if w = v then unat (charge bpc n) else 0)"
    using held_receive [OF ok', of a v n w] n by (simp add: exact_size_def split: if_splits)
  have "link_exact a batch bpc (link_receive a b v n ?k)"
    using ex data link_receive_owed [OF ok' owed] by (simp add: link_exact_def link_receive_fields)
  then show ?thesis using data h by (simp add: held_def)
next
  case (credit p ps)
  let ?k = "k\<lparr>lk_credit := ps\<rparr>"
  have "unat (get_tx_credits (lk_snd ?k) b (ch_vc (cp_header p))) + unat (ch_credits (cp_header p)) \<le>
      held bpc a b (ch_vc (cp_header p)) k"
    using credit by (simp add: held_def)
  then have "unat (get_tx_credits (lk_snd ?k) b (ch_vc (cp_header p))) + unat (ch_credits (cp_header p)) < 2 ^ 32"
    using bound [of "ch_vc (cp_header p)"] by linarith
  from held_credited [OF this] show ?thesis
    using credit ok ex by (simp add: held_def link_ok_def link_exact_def link_credited_def)
qed (use e in simp_all)

lemma link_exact_start: "link_exact a batch bpc (link_start a b num_vcs initial batch bpc)"
  by (simp add: link_exact_def link_start_def endpoint_port_fields)

lemma link_exact_run:
  assumes "link_run a b k es k'" "link_inv a b initial batch bpc k" "link_exact a batch bpc k"
    "bpc \<noteq> 0" "unat bpc \<le> 2 ^ 31" "lossless es" "\<forall>v n. Link_Send v n \<in> set es \<longrightarrow> exact_size batch bpc n"
  shows "link_exact a batch bpc k' \<and> held bpc a b w k' = held bpc a b w k"
  using assms
proof (induction rule: link_run.induct)
  case (more k es k' e k'')
  have l: "lossless es" "e \<noteq> Link_Data_Lost" "e \<noteq> Link_Credit_Lost"
    using more.prems(5) by (auto simp: lossless_def)
  have ih: "link_exact a batch bpc k' \<and> held bpc a b w k' = held bpc a b w k"
    by (rule more.IH [OF more.prems(1-4) l(1)]) (use more.prems(6) in auto)
  have i: "link_inv a b initial batch bpc k'"
    by (rule link_inv_run [OF more.hyps(1) more.prems(1,3,4)])
  have lt: "held bpc a b v k' < 2 ^ 32" for v
    using i unsigned_less [of initial, where ?'a = nat] by (force simp: link_inv_def intro: le_less_trans)
  have "link_exact a batch bpc k'' \<and> held bpc a b w k'' = held bpc a b w k'"
    by (rule link_exact_step [OF more.hyps(2) _ _ lt l(2,3)]) (use i ih more.prems(6) in \<open>auto simp: link_inv_def\<close>)
  then show ?case using ih by simp
qed simp

section \<open>The properties of the link\<close>

text \<open>
  C22: Whatever is sent, delivered or lost on the link, the credits of a virtual channel - the
  sender's, those of the packets on the wire, those owed by the receiver and those in credit
  packets - never exceed the initial credits, so no addition of credits wraps and the data that is
  on the wire never exceeds the initial credits times the bytes per credit.
\<close>

theorem credits_never_created:
  assumes "link_run a b (link_start a b num_vcs initial batch bpc) es k" "bpc \<noteq> 0" "unat bpc \<le> 2 ^ 31"
  shows "held bpc a b v k \<le> unat initial \<and> data_bytes v (lk_data k) \<le> unat initial * unat bpc"
proof -
  have i: "link_inv a b initial batch bpc k"
    by (rule link_inv_run [OF assms(1) link_inv_start assms(2,3)])
  then have h: "held bpc a b v k \<le> unat initial" by (simp add: link_inv_def)
  have "data_bytes v (lk_data k) \<le> data_credits bpc v (lk_data k) * unat bpc"
    using i by (intro data_bytes_covered [OF _ assms(2,3)]) (simp add: link_inv_def link_ok_def)
  also have "\<dots> \<le> unat initial * unat bpc" using h by (simp add: held_def)
  finally show ?thesis using h by simp
qed

text \<open>
  C23: On a link that loses nothing, if for every size sent the charge is the same with and without
  the headers and the charge plus one batch is at most 256, so that a count of owed credits fits its
  byte (\<open>exact_size\<close>), no credit is destroyed: the sum stays the initial credits, and when the wire
  has drained the sender misses less than one batch.
\<close>

theorem credits_restored:
  assumes "link_run a b (link_start a b num_vcs initial batch bpc) es k" "bpc \<noteq> 0" "unat bpc \<le> 2 ^ 31"
    "lossless es" "\<And>w n. Link_Send w n \<in> set es \<Longrightarrow> exact_size batch bpc n" "v < num_vcs"
  shows "held bpc a b v k = unat initial \<and>
    (lk_data k = [] \<and> lk_credit k = [] \<longrightarrow>
      unat initial < unat (get_tx_credits (lk_snd k) b v) + max (unat batch) 1)"
proof -
  have e: "link_exact a batch bpc k \<and> held bpc a b v k = unat initial"
    using link_exact_run [OF assms(1) link_inv_start link_exact_start assms(2-4), where w = v] assms(5,6)
    by (simp add: held_start)
  then have "unat (get_credits_to_return (lk_rcv k) a v) < max (unat batch) 1" by (simp add: link_exact_def)
  then show ?thesis using e by (auto simp: held_def)
qed

section \<open>How credits are lost\<close>

text \<open>
  A link at rest: nothing on the wire, nothing owed for the virtual channel.
\<close>

definition at_rest :: "mac48 \<Rightarrow> vc_id \<Rightarrow> link \<Rightarrow> bool" where
  "at_rest a v k \<longleftrightarrow> lk_data k = [] \<and> lk_credit k = [] \<and> get_credits_to_return (lk_rcv k) a v = 0"

lemma held_at_rest: "at_rest a v k \<Longrightarrow> held bpc a b v k = unat (get_tx_credits (lk_snd k) b v)"
  by (simp add: held_def at_rest_def)

text \<open>A packet whose headers cost credits, once around the link.\<close>

lemma round_trip:
  assumes i: "link_inv a b initial batch bpc k" and rest: "at_rest a v k"
    and enough: "has_enough_credits (lk_snd k) b v n"
    and n: "16 \<le> n" "n < 0x80000000"
    and r: "unat (charge bpc (n - 16)) < 256" "batch \<le> charge bpc (n - 16)"
    and bpc: "bpc \<noteq> 0" "unat bpc \<le> 2 ^ 31"
  shows "\<exists>k'. link_run a b k [Link_Send v n, Link_Data, Link_Credit] k' \<and> at_rest a v k' \<and>
    unat (get_tx_credits (lk_snd k') b v) + unat (charge bpc n) =
      unat (get_tx_credits (lk_snd k) b v) + unat (charge bpc (n - 16))"
proof -
  let ?k1 = "link_send b v n k"
  let ?d = "?k1\<lparr>lk_data := []\<rparr>"
  let ?k2 = "link_receive a b v n ?d"
  let ?q = "\<lparr>cp_source = b, cp_dest = a, cp_header = \<lparr>ch_vc = v, ch_credits = ucast (charge bpc (n - 16))\<rparr>\<rparr>"
  let ?k3 = "link_credited ?q (?k2\<lparr>lk_credit := []\<rparr>)"
  have ok: "link_ok batch bpc b k" and rest': "lk_data k = []" "lk_credit k = []" "get_credits_to_return (lk_rcv k) a v = 0"
    using i rest by (simp_all add: link_inv_def at_rest_def)
  have ok1: "link_ok batch bpc b ?d" and f: "cb_enabled (lk_rcv k)" "cb_callbacks (lk_rcv k)"
      "cb_batch (lk_rcv k) = batch" "meter (lk_rcv k) = (True, 1, bpc)"
    using ok by (auto simp: link_ok_def link_send_def)
  have owed: "get_credits_to_return (handle_credit_return a v (n - 16) (lk_rcv k)) a v = charge bpc (n - 16)"
    using f rest'(3) by (simp add: handle_return calculate_charge)
  have k2: "lk_credit ?k2 = [?q]" "lk_data ?k2 = []" "get_credits_to_return (lk_rcv ?k2) a v = 0"
    using rest' f owed leD [OF r(2)] by (simp_all add: link_receive_fields link_send_def credit_return_cases clear_return)
  have s1: "link_step a b k (Link_Send v n) ?k1" by (rule link_step.send [OF enough n])
  have s2: "link_step a b ?k1 Link_Data ?k2"
    using rest' by (intro link_step.data) (simp add: link_send_def)
  have s3: "link_step a b ?k2 Link_Credit ?k3"
    using k2(1) by (intro link_step.credit)
  have run: "link_run a b k [Link_Send v n, Link_Data, Link_Credit] ?k3"
    using link_run.more [OF link_run.more [OF link_run.more [OF link_run.none s1] s2] s3] by simp
  have rest3: "at_rest a v ?k3" using k2 by (simp add: at_rest_def link_credited_def)
  have m: "meter (lk_snd k) = (True, 1, bpc)" using ok by (simp add: link_ok_def)
  note c = consume_tx [OF enough, unfolded calculate_charge [OF m]]
  have u: "unat (ucast (ucast (charge bpc (n - 16)) :: u8) :: u32) = unat (charge bpc (n - 16))"
    using r(1) by (simp add: unsigned_ucast_eq take_bit_eq_mod unat_mod)
  then have w: "(ucast (ucast (charge bpc (n - 16)) :: u8) :: u32) = charge bpc (n - 16)"
    by (simp add: word_unat_eq_iff)
  have "get_tx_credits (lk_snd ?k3) b v = get_tx_credits (lk_snd k) b v - charge bpc n + charge bpc (n - 16)"
    using c(3) w by (simp add: link_credited_def receive_credit_packet_def Let_def link_receive_fields
        link_send_def add_tx word_gt_0)
  moreover have "n - 16 \<le> n" "unat n + unat bpc < 2 ^ 32"
    using n bpc(2) by (simp_all add: word_le_nat_alt word_less_nat_alt unat_sub)
  then have "unat (charge bpc (n - 16)) \<le> unat (charge bpc n)" using bpc(1) by (intro charge_mono)
  then have "unat (get_tx_credits (lk_snd k) b v - charge bpc n + charge bpc (n - 16)) =
      unat (get_tx_credits (lk_snd k) b v) - unat (charge bpc n) + unat (charge bpc (n - 16))"
    using c(1) unsigned_less [of "get_tx_credits (lk_snd k) b v", where ?'a = nat]
    by (subst unat_add_nowrap) (simp_all add: unat_sub word_le_nat_alt)
  ultimately have "unat (get_tx_credits (lk_snd ?k3) b v) + unat (charge bpc n) =
      unat (get_tx_credits (lk_snd k) b v) + unat (charge bpc (n - 16))"
    using c(1) by (simp add: word_le_nat_alt)
  then show ?thesis using run rest3 by blast
qed

lemma link_run_append:
  assumes "link_run a b k' fs k''" "link_run a b k es k'"
  shows "link_run a b k (es @ fs) k''"
  using assms
proof (induction rule: link_run.induct)
  case (more k' fs l e k'')
  then have "link_run a b k (es @ fs) l" by simp
  from link_run.more [OF this more.hyps(2)] show ?case by simp
qed simp

lemma rest_blocks:
  assumes "link_run a b (link_start a b num_vcs initial batch bpc) es k" "at_rest a v k"
      "set es \<subseteq> {Link_Send v n, Link_Data, Link_Credit}" "v < num_vcs"
    and n: "16 \<le> n" "n < 0x80000000" "charge bpc (n - 16) < charge bpc n"
    and r: "unat (charge bpc (n - 16)) < 256" "batch \<le> charge bpc (n - 16)"
    and bpc: "bpc \<noteq> 0" "unat bpc \<le> 2 ^ 31"
  shows "\<exists>fs k'. link_run a b (link_start a b num_vcs initial batch bpc) fs k' \<and>
    set fs \<subseteq> {Link_Send v n, Link_Data, Link_Credit} \<and> at_rest a v k' \<and> \<not> has_enough_credits (lk_snd k') b v n"
  using assms(1,2,3)
proof (induction "unat (get_tx_credits (lk_snd k) b v)" arbitrary: es k rule: less_induct)
  case less
  show ?case
  proof (cases "has_enough_credits (lk_snd k) b v n")
    case True
    have "link_inv a b initial batch bpc k"
      by (rule link_inv_run [OF less.prems(1) link_inv_start bpc])
    from round_trip [OF this less.prems(2) True n(1,2) r bpc] obtain k' where
      k': "link_run a b k [Link_Send v n, Link_Data, Link_Credit] k'" "at_rest a v k'"
        "unat (get_tx_credits (lk_snd k') b v) + unat (charge bpc n) =
         unat (get_tx_credits (lk_snd k) b v) + unat (charge bpc (n - 16))" by blast
    then have "unat (get_tx_credits (lk_snd k') b v) < unat (get_tx_credits (lk_snd k) b v)"
      using n(3) by (simp add: word_less_nat_alt)
    from less.hyps [OF this link_run_append [OF k'(1) less.prems(1)] k'(2)] less.prems(3)
    show ?thesis by simp
  next
    case False
    then show ?thesis using less.prems by blast
  qed
qed

text \<open>
  For a packet size whose headers cost a credit, sending it again and again leads the loss-free link
  to rest with too few credits to send it ever again.
\<close>

theorem link_comes_to_rest:
  assumes "v < num_vcs" "16 \<le> n" "n < 0x80000000" "charge bpc (n - 16) < charge bpc n"
    "unat (charge bpc (n - 16)) < 256" "batch \<le> charge bpc (n - 16)" "bpc \<noteq> 0" "unat bpc \<le> 2 ^ 31"
  shows "\<exists>es k. link_run a b (link_start a b num_vcs initial batch bpc) es k \<and>
    set es \<subseteq> {Link_Send v n, Link_Data, Link_Credit} \<and> lk_data k = [] \<and> lk_credit k = [] \<and>
    get_credits_to_return (lk_rcv k) a v = 0 \<and> \<not> has_enough_credits (lk_snd k) b v n"
proof -
  have "at_rest a v (link_start a b num_vcs initial batch bpc)"
    by (simp add: at_rest_def link_start_def endpoint_port_fields)
  from rest_blocks [OF link_run.none this _ assms] show ?thesis by (simp add: at_rest_def)
qed

text \<open>The credits that the headers of a packet cost for good.\<close>

definition header_cost :: "u32 \<Rightarrow> u32 \<Rightarrow> nat" where
  "header_cost bpc n = unat (charge bpc n) - unat (charge bpc (n - 16))"

definition on_wire :: "vc_id \<Rightarrow> u32 \<Rightarrow> link \<Rightarrow> nat" where
  "on_wire v n k = count_list (lk_data k) (v, n)"

lemma count_list_append: "count_list (xs @ ys) x = count_list xs x + count_list ys x"
  by (induction xs) simp_all

lemma header_cost_le: "header_cost bpc n \<le> unat (charge bpc n)"
  by (simp add: header_cost_def)

text \<open>A delivery or loss of a packet costs at least its headers.\<close>

lemma held_step_cost:
  assumes step: "link_step a b k e k'" and ok: "link_ok batch bpc b k"
    and bound: "\<And>v. held bpc a b v k < 2 ^ 32"
    and bpc: "bpc \<noteq> 0" "unat bpc \<le> 2 ^ 31"
  shows "of_bool (e = Link_Send w n) * header_cost bpc n + held bpc a b w k' + on_wire w n k * header_cost bpc n \<le>
    held bpc a b w k + on_wire w n k' * header_cost bpc n"
  using step
proof cases
  case (send v m)
  then show ?thesis
    using held_send [OF ok] by (auto simp: on_wire_def link_send_def count_list_append)
next
  case (data v m ds)
  let ?k = "k\<lparr>lk_data := ds\<rparr>"
  have m: "16 \<le> m" "m < 0x80000000" using ok data by (simp_all add: link_ok_def)
  have "m - 16 \<le> m" using m(1) by (simp add: word_le_nat_alt unat_sub)
  moreover have "unat m + unat bpc < 2 ^ 32" using m(2) bpc(2) by (simp add: word_less_nat_alt)
  ultimately have c: "unat (charge bpc (m - 16)) \<le> unat (charge bpc m)"
    using bpc(1) by (intro charge_mono)
  have "unat (get_credits_to_return (lk_rcv ?k) a v) + unat (charge bpc (m - 16)) \<le> held bpc a b v k"
    using data c by (simp add: held_def)
  then have room: "unat (get_credits_to_return (lk_rcv ?k) a v) + unat (charge bpc (m - 16)) < 2 ^ 32"
    using bound [of v] by linarith
  have "link_ok batch bpc b ?k" using ok data by (simp add: link_ok_def)
  from held_receive [OF this room, of w]
  have "held bpc a b w k' + (if w = v then unat (charge bpc m) - unat (charge bpc (m - 16)) else 0) \<le> held bpc a b w k"
    using data c by (simp add: held_def split: if_splits)
  moreover have "lk_data k' = ds" using data by (simp add: link_receive_fields)
  ultimately show ?thesis
    using data by (auto simp: on_wire_def header_cost_def)
next
  case (credit p ps)
  then show ?thesis
    using held_step [OF step ok bound bpc, of w] by (simp add: on_wire_def link_credited_def)
next
  case (data_lost v m ds)
  then show ?thesis
    using header_cost_le [of bpc n] by (auto simp: held_def on_wire_def)
next
  case (credit_lost p ps)
  then show ?thesis by (simp add: held_def on_wire_def)
qed

lemma sends_cost:
  assumes "link_run a b k es k'" "link_inv a b initial batch bpc k" "bpc \<noteq> 0" "unat bpc \<le> 2 ^ 31"
  shows "count_list es (Link_Send w n) * header_cost bpc n + held bpc a b w k' + on_wire w n k * header_cost bpc n \<le>
    held bpc a b w k + on_wire w n k' * header_cost bpc n"
  using assms
proof (induction rule: link_run.induct)
  case (more k es k' e k'')
  have i: "link_inv a b initial batch bpc k'"
    by (rule link_inv_run [OF more.hyps(1) more.prems])
  have lt: "held bpc a b v k' < 2 ^ 32" for v
    using i unsigned_less [of initial, where ?'a = nat] by (force simp: link_inv_def intro: le_less_trans)
  have "link_ok batch bpc b k'" using i by (simp add: link_inv_def)
  from held_step_cost [OF more.hyps(2) this lt more.prems(2,3), of w n] more.IH [OF more.prems]
  show ?case by (auto simp: count_list_append)
qed simp

lemma on_wire_covered: "on_wire w n k * header_cost bpc n \<le> data_credits bpc w (lk_data k)"
proof -
  have "count_list ds (w, n) * header_cost bpc n \<le> data_credits bpc w ds" for ds
    using header_cost_le [of bpc n] by (induction ds) auto
  then show ?thesis by (simp add: on_wire_def)
qed

text \<open>
  C24: The two ends count different sizes: the sender charges a packet with its PPP and Ethernet
  headers, the endpoint returns credits for the size without them. In every run of the link, whatever
  else is sent, delivered or lost, the number of packets of a size that are sent times the credits
  that their headers cost is at most the initial credits. So a size whose headers cost a credit can
  be sent on a virtual channel no more often than there are initial credits, however long the run.
\<close>

theorem headers_block_link:
  assumes "link_run a b (link_start a b num_vcs initial batch bpc) es k" "bpc \<noteq> 0" "unat bpc \<le> 2 ^ 31"
  shows "count_list es (Link_Send v n) * header_cost bpc n \<le> unat initial \<and>
    (charge bpc (n - 16) < charge bpc n \<longrightarrow> count_list es (Link_Send v n) \<le> unat initial)"
proof -
  let ?k0 = "link_start a b num_vcs initial batch bpc"
  have "on_wire v n k * header_cost bpc n \<le> held bpc a b v k"
    using on_wire_covered [of v n k bpc] by (simp add: held_def)
  with sends_cost [OF assms(1) link_inv_start assms(2,3), of v n]
  have c: "count_list es (Link_Send v n) * header_cost bpc n \<le> unat initial"
    using held_start [of bpc a b v num_vcs initial batch] by (auto simp: on_wire_def link_start_def split: if_splits)
  moreover have "count_list es (Link_Send v n) \<le> unat initial" if "charge bpc (n - 16) < charge bpc n"
  proof -
    have "1 \<le> header_cost bpc n" using that by (simp add: header_cost_def word_less_nat_alt)
    then have "count_list es (Link_Send v n) * 1 \<le> count_list es (Link_Send v n) * header_cost bpc n"
      by (rule mult_le_mono2)
    then show ?thesis using c by linarith
  qed
  ultimately show ?thesis by blast
qed

text \<open>
  A credit packet counts modulo 256 while the whole count is cleared: of the credits that a
  receiver owes, the sender gets back the remainder modulo 256 and the rest are destroyed.
\<close>

theorem returned_count_truncated:
  assumes "cb_enabled r" "cb_callbacks r" "cb_batch r \<le> get_credits_to_return r a v"
  shows "\<exists>p r'. credit_return b a v r = (Some p, r') \<and> get_credits_to_return r' a v = 0 \<and>
    get_tx_credits (snd (receive_credit_packet p s)) b v =
      get_tx_credits s b v + get_credits_to_return r a v mod 256"
proof -
  let ?n = "get_credits_to_return r a v"
  let ?p = "\<lparr>cp_source = b, cp_dest = a, cp_header = \<lparr>ch_vc = v, ch_credits = ucast ?n\<rparr>\<rparr>"
  have c: "credit_return b a v r = (Some ?p, snd (clear_credits_to_return a v r))"
    using assms leD [OF assms(3)] by (simp add: credit_return_cases)
  have u: "(ucast (ucast ?n :: u8) :: u32) = ?n mod 256"
    by (simp add: word_unat_eq_iff unsigned_ucast_eq take_bit_eq_mod unat_mod)
  have "get_tx_credits (snd (receive_credit_packet ?p s)) b v = get_tx_credits s b v + ?n mod 256"
    by (simp add: receive_credit_packet_def Let_def u add_tx word_gt_0)
  then show ?thesis using c by (auto simp: clear_return)
qed

section \<open>Witnesses\<close>

lemma charges_256: "charge 256 300 = 2" "charge 256 284 = 2" "charge 256 260 = 2" "charge 256 244 = 1"
  by (simp_all add: charge_def)

lemma demo_enough: "has_enough_credits (lk_snd (link_start 1 2 4 20 1 256)) 2 0 300"
  by code_simp

lemma demo_round:
  "\<exists>k. link_run 1 2 (link_start 1 2 4 20 1 256) [Link_Send 0 300, Link_Data, Link_Credit] k \<and> at_rest 1 0 k"
proof -
  have "at_rest 1 0 (link_start 1 2 4 20 1 256)"
    by (simp add: at_rest_def link_start_def endpoint_port_fields)
  from round_trip [OF link_inv_start this demo_enough] show ?thesis by (auto simp: charges_256)
qed

lemma credits_never_created_witness:
  "\<exists>k. link_run 1 2 (link_start 1 2 4 20 1 256) [Link_Send 0 300] k \<and> data_bytes 0 (lk_data k) = 300 \<and>
    held 256 1 2 0 k \<le> 20 \<and> data_bytes 0 (lk_data k) \<le> 20 * 256"
proof -
  let ?k = "link_send 2 0 300 (link_start 1 2 4 20 1 256)"
  have "link_run 1 2 (link_start 1 2 4 20 1 256) ([] @ [Link_Send 0 300]) ?k"
    by (rule link_run.more [OF link_run.none link_step.send [OF demo_enough]]) simp_all
  moreover from credits_never_created [OF this, of 0] have "held 256 1 2 0 ?k \<le> 20 \<and> data_bytes 0 (lk_data ?k) \<le> 20 * 256"
    by simp
  moreover have "data_bytes 0 (lk_data ?k) = 300" by (simp add: data_bytes_def link_send_def link_start_def)
  ultimately show ?thesis by auto
qed

lemma credits_restored_witness:
  "\<exists>k. link_run 1 2 (link_start 1 2 4 20 1 256) [Link_Send 0 300, Link_Data, Link_Credit] k \<and>
    unat (20 :: u32) < unat (get_tx_credits (lk_snd k) 2 0) + 1"
proof -
  obtain k where k: "link_run 1 2 (link_start 1 2 4 20 1 256) [Link_Send 0 300, Link_Data, Link_Credit] k" "at_rest 1 0 k"
    using demo_round by blast
  have "unat (20 :: u32) < unat (get_tx_credits (lk_snd k) 2 0) + max (unat (1 :: u32)) 1"
    using credits_restored [OF k(1), of 0] k(2)
    by (auto simp: lossless_def exact_size_def charges_256 at_rest_def)
  then show ?thesis using k by auto
qed

lemma link_comes_to_rest_witness:
  "\<exists>es k. link_run 1 2 (link_start 1 2 4 20 1 256) es k \<and>
    set es \<subseteq> {Link_Send 0 260, Link_Data, Link_Credit} \<and> lk_data k = [] \<and> lk_credit k = [] \<and>
    get_credits_to_return (lk_rcv k) 1 0 = 0 \<and> \<not> has_enough_credits (lk_snd k) 2 0 260"
  by (rule link_comes_to_rest) (simp_all add: charges_256)

text \<open>A loss-free run that ends blocked: the bound holds of it.\<close>

lemma headers_block_link_witness:
  "\<exists>es k. link_run 1 2 (link_start 1 2 4 20 1 256) es k \<and> lossless es \<and>
    \<not> has_enough_credits (lk_snd k) 2 0 260 \<and> count_list es (Link_Send 0 260) \<le> 20"
proof -
  obtain es k where k: "link_run 1 2 (link_start 1 2 4 20 1 256) es k"
      "set es \<subseteq> {Link_Send 0 260, Link_Data, Link_Credit}" "\<not> has_enough_credits (lk_snd k) 2 0 260"
    using link_comes_to_rest_witness by blast
  have "lossless es" using k(2) by (auto simp: lossless_def)
  moreover have "count_list es (Link_Send 0 260) \<le> 20"
    using headers_block_link [OF k(1), of 0 260] by (simp add: charges_256)
  ultimately show ?thesis using k by blast
qed

lemma returned_count_truncated_witness:
  "\<exists>p r'. credit_return 2 1 0 (endpoint_port 4 20 10 256 2 1\<lparr>cb_to_return := [(1, 0) \<mapsto> 300]\<rparr>) = (Some p, r') \<and>
    get_credits_to_return r' 1 0 = 0 \<and>
    get_tx_credits (snd (receive_credit_packet p (endpoint_port 4 20 10 256 1 2))) 2 0 = 20 + 44"
proof -
  let ?r = "endpoint_port 4 20 10 256 2 1\<lparr>cb_to_return := [(1, 0) \<mapsto> 300]\<rparr>"
  have t: "get_credits_to_return ?r 1 0 = 300" by (simp add: get_credits_to_return_def)
  from returned_count_truncated [of ?r 1 0 2 "endpoint_port 4 20 10 256 1 2", unfolded t] show ?thesis
    by (simp add: endpoint_port_fields)
qed

end
