(* ===== verification/LlrLink.thy ===== *)
theory LlrLink
  imports Llr
begin

text \<open>
  What link-level retransmission gives and what it does not: one direction is in order and without
  repetition, but only the packet sent last is kept for another try; the two directions of a port disturb each other; the net device
  empties the stored packets before every use.
\<close>

section \<open>One direction\<close>

text \<open>
  A port that only sends and a switch port that only receives, with a network between them that
  may lose, repeat, delay and reorder: a message that was put on the wire may arrive at any time,
  any number of times. The net device calls \<open>InitializeLlr\<close> before it sends or receives any packet,
  so every operation begins by emptying the stored packets, and a packet of another virtual channel
  empties them as well.
\<close>

record 'p llr_link =
  ll_snd :: "'p llr_flow"
  ll_resend_seq :: u32
  ll_rcv :: "'p llr_flow"
  ll_data :: "(u32 \<times> 'p) set"
  ll_replies :: "llr_reply set"
  ll_sent :: "'p list"
  ll_forwarded :: "'p list"

definition llr_start :: "'p llr_link" where
  "llr_start = \<lparr>ll_snd = new_flow, ll_resend_seq = 0, ll_rcv = new_flow, ll_data = {}, ll_replies = {},
     ll_sent = [], ll_forwarded = []\<rparr>"

definition link_transmit :: "'p \<Rightarrow> 'p llr_link \<Rightarrow> 'p llr_link" where
  "link_transmit p k = (let (seq, f) = flow_send p (clear_flow (ll_snd k))
     in k\<lparr>ll_snd := f, ll_data := insert (seq, p) (ll_data k), ll_sent := ll_sent k @ [p]\<rparr>)"

definition link_deliver :: "u32 \<times> 'p \<Rightarrow> 'p llr_link \<Rightarrow> 'p llr_link" where
  "link_deliver d k = (let (r, ok, f) = flow_receive (fst d) (clear_flow (ll_rcv k))
     in k\<lparr>ll_rcv := f, ll_replies := insert r (ll_replies k),
          ll_forwarded := ll_forwarded k @ (if ok then [snd d] else [])\<rparr>)"

definition link_reply :: "llr_reply \<Rightarrow> 'p llr_link \<Rightarrow> 'p llr_link" where
  "link_reply r k = (case r of
     Llr_Ack s \<Rightarrow> k\<lparr>ll_snd := flow_ack s (clear_flow (ll_snd k))\<rparr>
   | Llr_Nack s \<Rightarrow> (let (t, f) = flow_nack s (clear_flow (ll_snd k))
       in k\<lparr>ll_snd := f, ll_resend_seq := (case t of Some n \<Rightarrow> n | None \<Rightarrow> ll_resend_seq k)\<rparr>))"

definition link_timeout :: "'p llr_link \<Rightarrow> 'p llr_link" where
  "link_timeout k = (let (t, f) = flow_resend (ll_snd k)
     in k\<lparr>ll_snd := f, ll_resend_seq := (case t of Some n \<Rightarrow> n | None \<Rightarrow> ll_resend_seq k)\<rparr>)"

definition link_retransmit :: "'p llr_link \<Rightarrow> 'p llr_link" where
  "link_retransmit k = (let (e, f) = flow_resend_packet (ll_resend_seq k) (ll_snd k)
     in case e of None \<Rightarrow> k\<lparr>ll_snd := f\<rparr>
        | Some d \<Rightarrow> k\<lparr>ll_snd := f, ll_data := insert d (ll_data k), ll_resend_seq := ll_resend_seq k + 1\<rparr>)"

text \<open>A packet of another virtual channel at the sender; at the receiver nothing is stored.\<close>

definition link_other :: "'p llr_link \<Rightarrow> 'p llr_link" where
  "link_other k = k\<lparr>ll_snd := clear_flow (ll_snd k)\<rparr>"

inductive llr_reachable :: "'p llr_link \<Rightarrow> bool" where
  start: "llr_reachable llr_start"
| transmit: "llr_reachable (link_transmit p k)" if "llr_reachable k" "Suc (length (ll_sent k)) < 2 ^ 32"
| deliver: "llr_reachable (link_deliver d k)" if "llr_reachable k" "d \<in> ll_data k"
| reply: "llr_reachable (link_reply r k)" if "llr_reachable k" "r \<in> ll_replies k"
| other: "llr_reachable (link_other k)" if "llr_reachable k"
| timeout: "llr_reachable (link_timeout k)" if "llr_reachable k"
| retransmit: "llr_reachable (link_retransmit k)" if "llr_reachable k"

definition numbered :: "'p list \<Rightarrow> u32 \<times> 'p \<Rightarrow> bool" where
  "numbered ps d \<longleftrightarrow> unat (fst d) < length ps \<and> ps ! unat (fst d) = snd d"

text \<open>A flow that stores at most the packet sent last.\<close>

definition newest_only :: "'p llr_flow \<Rightarrow> bool" where
  "newest_only f \<longleftrightarrow> set (fl_list f) \<subseteq> {fl_send f - 1} \<times> UNIV \<and> length (fl_list f) \<le> 1"

definition llr_inv :: "'p llr_link \<Rightarrow> bool" where
  "llr_inv k \<longleftrightarrow> length (ll_sent k) < 2 ^ 32 \<and> unat (fl_send (ll_snd k)) = length (ll_sent k) \<and>
     (\<forall>d\<in>ll_data k. numbered (ll_sent k) d) \<and>
     (\<forall>d\<in>set (fl_list (ll_snd k)). numbered (ll_sent k) d) \<and> newest_only (ll_snd k) \<and>
     unat (fl_wait (ll_rcv k)) \<le> length (ll_sent k) \<and>
     ll_forwarded k = take (unat (fl_wait (ll_rcv k))) (ll_sent k)"

lemma numbered_snoc: "numbered ps d \<Longrightarrow> numbered (ps @ [p]) d"
  by (auto simp: numbered_def nth_append)

lemma flow_resend_list:
  "fl_list (snd (flow_resend f)) = fl_list f" "fl_send (snd (flow_resend f)) = fl_send f"
  "fl_list (snd (flow_resend_packet s f)) = fl_list f" "fl_send (snd (flow_resend_packet s f)) = fl_send f"
  "fst (flow_resend_packet s f) = Some d \<Longrightarrow> d \<in> set (fl_list f)"
  by (auto simp: flow_resend_def flow_resend_packet_def map_of_SomeD split: list.splits option.splits if_splits)

lemma newest_only_shrink:
  assumes "newest_only f" "fl_send g = fl_send f" "set (fl_list g) \<subseteq> set (fl_list f)" "length (fl_list g) \<le> length (fl_list f)"
  shows "newest_only g"
  using assms unfolding newest_only_def by auto

lemma newest_only_flow:
  assumes "newest_only f"
  shows "newest_only (flow_ack s f)" "newest_only (snd (flow_nack s f))" "newest_only (snd (flow_resend f))"
    "newest_only (snd (flow_resend_packet s f))" "newest_only (snd (snd (flow_receive s f)))"
proof -
  have e: "set (erase_before s (fl_list f)) \<subseteq> set (fl_list f)" "length (erase_before s (fl_list f)) \<le> length (fl_list f)"
    by (auto simp: erase_before_def)
  have d: "set (AList.delete s (erase_before s (fl_list f))) \<subseteq> set (fl_list f)"
      "length (AList.delete s (erase_before s (fl_list f))) \<le> length (fl_list f)"
    using e order_trans [OF length_filter_le e(2)] by (auto simp: AList.delete_eq)
  show "newest_only (flow_ack s f)" "newest_only (snd (flow_nack s f))" "newest_only (snd (flow_resend f))"
    "newest_only (snd (flow_resend_packet s f))" "newest_only (snd (snd (flow_receive s f)))"
    using d e by (auto intro!: newest_only_shrink [OF assms] simp: flow_ack_def flow_nack_def flow_resend_list
        flow_receive_def split: if_splits)
qed

text \<open>With nothing stored an acknowledgment, negative or not, changes nothing.\<close>

lemma clear_flow_simps [simp]:
  "fl_list (clear_flow f) = []" "fl_send (clear_flow f) = fl_send f" "fl_wait (clear_flow f) = fl_wait f"
  "flow_ack s (clear_flow f) = clear_flow f" "flow_nack s (clear_flow f) = (None, clear_flow f)"
  by (simp_all add: clear_flow_def flow_ack_def flow_nack_def)

lemma inv_sender:
  assumes "llr_inv k" "fl_send f = fl_send (ll_snd k)" "set (fl_list f) \<subseteq> set (fl_list (ll_snd k))"
    "length (fl_list f) \<le> length (fl_list (ll_snd k))"
  shows "llr_inv (k\<lparr>ll_snd := f\<rparr>)" "llr_inv (k\<lparr>ll_snd := f, ll_resend_seq := q\<rparr>)"
  using assms newest_only_shrink [of "ll_snd k" f] by (auto simp: llr_inv_def)

lemma inv_transmit:
  assumes i: "llr_inv k" and room: "Suc (length (ll_sent k)) < 2 ^ 32"
  shows "llr_inv (link_transmit p k)"
proof -
  let ?n = "fl_send (ll_snd k)"
  have n: "unat ?n = length (ll_sent k)" using i by (simp add: llr_inv_def)
  then have s: "unat (?n + 1) = Suc (length (ll_sent k))"
    using room by (simp add: unat_word_ariths)
  have "numbered (ll_sent k @ [p]) (?n, p)" using n by (simp add: numbered_def)
  then show ?thesis
    using i s room by (auto simp: llr_inv_def link_transmit_def flow_send_def newest_only_def intro!: numbered_snoc)
qed

lemma inv_deliver:
  assumes i: "llr_inv k" and d: "d \<in> ll_data k"
  shows "llr_inv (link_deliver d k)"
proof (cases "fst d = fl_wait (ll_rcv k)")
  case True
  let ?w = "fl_wait (ll_rcv k)"
  have n: "unat ?w < length (ll_sent k)" "ll_sent k ! unat ?w = snd d" "length (ll_sent k) < 2 ^ 32"
    using i d True by (auto simp: llr_inv_def numbered_def)
  then have "unat (?w + 1) = Suc (unat ?w)" by (simp add: unat_word_ariths)
  then show ?thesis
    using i True n by (auto simp: llr_inv_def link_deliver_def flow_receive_def take_Suc_conv_app_nth)
next
  case False
  then show ?thesis using i by (auto simp: llr_inv_def link_deliver_def flow_receive_def)
qed

lemma inv_clear: "llr_inv k \<Longrightarrow> llr_inv (k\<lparr>ll_snd := clear_flow (ll_snd k)\<rparr>)"
  by (rule inv_sender) simp_all

lemma inv_reply: "llr_inv k \<Longrightarrow> llr_inv (link_reply r k)"
  by (simp add: link_reply_def inv_clear split: llr_reply.split)

lemma inv_timeout: "llr_inv k \<Longrightarrow> llr_inv (link_timeout k)"
  unfolding link_timeout_def case_prod_beta Let_def
  by (rule inv_sender) (simp_all add: flow_resend_list)

lemma inv_retransmit:
  assumes i: "llr_inv k"
  shows "llr_inv (link_retransmit k)"
proof (cases "fst (flow_resend_packet (ll_resend_seq k) (ll_snd k))")
  case None
  then show ?thesis
    using inv_sender(1) [OF i, of "snd (flow_resend_packet (ll_resend_seq k) (ll_snd k))"]
    by (simp add: link_retransmit_def case_prod_beta Let_def flow_resend_list)
next
  case (Some d)
  let ?f = "snd (flow_resend_packet (ll_resend_seq k) (ll_snd k))"
  have "numbered (ll_sent k) d" using i flow_resend_list(5) [OF Some] by (simp add: llr_inv_def)
  moreover have "llr_inv (k\<lparr>ll_snd := ?f, ll_resend_seq := ll_resend_seq k + 1\<rparr>)"
    by (rule inv_sender [OF i]) (simp_all add: flow_resend_list)
  ultimately show ?thesis
    using Some by (simp add: link_retransmit_def case_prod_beta Let_def llr_inv_def)
qed

lemma llr_inv_reachable: "llr_reachable k \<Longrightarrow> llr_inv k"
proof (induction rule: llr_reachable.induct)
  case start
  show ?case by (simp add: llr_inv_def llr_start_def new_flow_def newest_only_def)
qed (simp_all add: inv_transmit inv_deliver inv_reply inv_timeout inv_retransmit inv_clear link_other_def)

text \<open>
  C25: In one direction, while fewer than \<open>2 ^ 32\<close> packets are sent, what the receiving switch port
  passes on is exactly the beginning of what was sent, in order and without repetition, although the
  wire loses, repeats, delays and reorders packets and replies and the device empties the stored
  packets before each use: a packet that arrives is passed on if it is the next one and only then,
  and all that the sender can send again is the packet it sent last.
\<close>

theorem llr_one_way:
  assumes "llr_reachable k"
  defines "n \<equiv> unat (fl_wait (ll_rcv k))"
  shows "n \<le> length (ll_sent k) \<and> ll_forwarded k = take n (ll_sent k) \<and>
    (\<forall>(s, p)\<in>ll_data k. unat s < length (ll_sent k) \<and> p = ll_sent k ! unat s \<and>
      ll_forwarded (link_deliver (s, p) k) = ll_forwarded k @ (if unat s = n then [p] else [])) \<and>
    (\<forall>(s, p)\<in>set (fl_list (ll_snd k)). Suc (unat s) = length (ll_sent k) \<and> p = last (ll_sent k))"
proof (intro conjI)
  have i: "llr_inv k" by (rule llr_inv_reachable [OF assms(1)])
  then show "n \<le> length (ll_sent k)" "ll_forwarded k = take n (ll_sent k)" by (simp_all add: llr_inv_def n_def)
  show "\<forall>(s, p)\<in>ll_data k. unat s < length (ll_sent k) \<and> p = ll_sent k ! unat s \<and>
      ll_forwarded (link_deliver (s, p) k) = ll_forwarded k @ (if unat s = n then [p] else [])"
  proof clarify
    fix s p assume "(s, p) \<in> ll_data k"
    then have "numbered (ll_sent k) (s, p)" using i by (simp add: llr_inv_def)
    then show "unat s < length (ll_sent k) \<and> p = ll_sent k ! unat s \<and>
        ll_forwarded (link_deliver (s, p) k) = ll_forwarded k @ (if unat s = n then [p] else [])"
      by (simp add: numbered_def link_deliver_def flow_receive_def n_def word_unat_eq_iff)
  qed
  show "\<forall>(s, p)\<in>set (fl_list (ll_snd k)). Suc (unat s) = length (ll_sent k) \<and> p = last (ll_sent k)"
  proof clarify
    fix s p assume m: "(s, p) \<in> set (fl_list (ll_snd k))"
    then have s: "s = fl_send (ll_snd k) - 1" and q: "unat s < length (ll_sent k)" "ll_sent k ! unat s = p"
      and l: "unat (fl_send (ll_snd k)) = length (ll_sent k)"
      using i by (auto simp: llr_inv_def newest_only_def numbered_def)
    then have "fl_send (ll_snd k) \<noteq> 0" by auto
    then have "Suc (unat s) = length (ll_sent k)" using s l q(1) by (simp add: unat_minus_one)
    then show "Suc (unat s) = length (ll_sent k) \<and> p = last (ll_sent k)"
      using q by (metis diff_Suc_1 last_conv_nth list.size(3) nat.distinct(1))
  qed
qed

section \<open>Two directions\<close>

lemma put_port_flow_lookup:
  assumes "port_flow n mac vc = Some e"
  shows "port_flow (put_port_flow mac vc e' n) mac vc = Some e'" "put_port_flow mac vc e n = n"
    "lp_enabled (put_port_flow mac vc e' n) = lp_enabled n" "lp_num_vcs (put_port_flow mac vc e' n) = lp_num_vcs n"
  using assms by (auto simp: port_flow_def put_port_flow_def fun_upd_idem split: option.splits if_splits)

text \<open>
  C26: A switch port uses one number for what it expects from a peer and for what the peer has
  acknowledged. Once an acknowledgment of its own packet \<open>k\<close> has been processed, every packet of the
  peer numbered up to \<open>k\<close> is discarded although it was never received, and acknowledged, so that the
  peer drops its stored copy.
\<close>

theorem acknowledgment_swallows_packets:
  assumes port: "lp_enabled n" "vc < lp_num_vcs n" "port_flow n mac vc = Some (f, q)"
    and ack: "fl_wait f \<le> k" "map_of (fl_list f) k \<noteq> None" "k < k + 1"
    and seq: "seq \<le> k"
  shows "\<exists>n'. llr_port_ack vc k mac n = Some n' \<and>
    llr_port_receive vc seq mac n' = Some (Some (Llr_Ack seq), False, n') \<and>
    (fl_wait g \<le> seq \<longrightarrow> map_of (fl_list (flow_ack seq g)) seq = None)"
proof -
  let ?f = "flow_ack k f"
  let ?n = "put_port_flow mac vc (?f, q) n"
  have w: "fl_wait ?f = k + 1" using ack by (auto simp: flow_ack_def)
  have "llr_port_ack vc k mac n = Some ?n"
    using port by (simp add: llr_port_ack_def)
  moreover have "flow_receive seq ?f = (Llr_Ack seq, False, ?f)"
    using seq ack(3) w by (auto simp: flow_receive_def)
  then have "llr_port_receive vc seq mac ?n = Some (Some (Llr_Ack seq), False, ?n)"
    using port put_port_flow_lookup [OF port(3)] put_port_flow_lookup(2) [of ?n mac vc "(?f, q)"]
    by (simp add: llr_port_receive_def)
  moreover have "fl_wait g \<le> seq \<longrightarrow> map_of (fl_list (flow_ack seq g)) seq = None"
    by (auto simp: flow_ack_def AList.delete_conv')
  ultimately show ?thesis by blast
qed

section \<open>The net device's use of the node manager\<close>

text \<open>
  \<open>Send\<close>, \<open>EnqueueToVcQueue\<close> and \<open>Receive\<close> call \<open>InitializeLlr\<close> before anything else, on every
  packet; acknowledgments and timers come as events of their own.
\<close>

record llr_config =
  lc_enabled :: bool
  lc_window :: u32
  lc_timeout :: ns
  lc_num_vcs :: u8
  lc_remote :: mac48

definition initialize_llr :: "llr_config \<Rightarrow> 'p llr_node \<Rightarrow> 'p llr_node" where
  "initialize_llr c n =
    (if \<not> lc_enabled c then n
     else llr_node_initialize (lc_enabled c) (lc_window c) (lc_timeout c) (lc_num_vcs c) (lc_remote c) n)"

definition node_enqueue :: "llr_config \<Rightarrow> 'p \<Rightarrow> vc_id \<Rightarrow> 'p llr_node \<Rightarrow> u32 \<times> 'p llr_node" where
  "node_enqueue c p vc n = llr_node_send p vc (initialize_llr c n)"

definition node_receive :: "llr_config \<Rightarrow> vc_id \<Rightarrow> u32 \<Rightarrow> 'p llr_node \<Rightarrow> llr_reply option \<times> 'p llr_node" where
  "node_receive c vc seq n = llr_node_receive vc seq (initialize_llr c n)"

inductive node_reachable :: "llr_config \<Rightarrow> 'p llr_node \<Rightarrow> bool" for c where
  start: "node_reachable c new_llr_node"
| enqueue: "node_reachable c (snd (node_enqueue c p vc n))" if "node_reachable c n"
| receive: "node_reachable c (snd (node_receive c vc seq n))" if "node_reachable c n"
| ack: "node_reachable c (llr_node_ack vc seq n)" if "node_reachable c n"
| nack: "node_reachable c (llr_node_nack vc seq n)" if "node_reachable c n"
| resend: "node_reachable c (snd (llr_node_resend vc n))" if "node_reachable c n"
| resend_packet: "node_reachable c (snd (llr_node_resend_packet vc n))" if "node_reachable c n"

definition node_inv :: "llr_config \<Rightarrow> 'p llr_node \<Rightarrow> bool" where
  "node_inv c n \<longleftrightarrow> (ln_enabled n \<longrightarrow> lc_enabled c \<and> unat (ln_num_vcs n) = length (ln_flows n)) \<and>
     (\<forall>f\<in>set (ln_flows n). newest_only f)"

lemma node_inv_put:
  assumes "node_inv c n" "newest_only f"
  shows "node_inv c (n\<lparr>ln_flows := (ln_flows n)[i := f]\<rparr>)"
    "node_inv c (n\<lparr>ln_flows := (ln_flows n)[i := f], ln_resend_seq := q\<rparr>)"
  using assms set_update_subset_insert [of "ln_flows n" i f] unfolding node_inv_def by auto

lemma node_inv_flow:
  assumes "node_inv c n" "ln_enabled n" "\<not> ln_num_vcs n \<le> vc"
  shows "newest_only (ln_flows n ! unat vc)"
  using assms by (auto simp: node_inv_def word_le_nat_alt)

lemma node_inv_init:
  assumes "node_inv c n"
  shows "node_inv c (initialize_llr c n)" "lc_enabled c \<Longrightarrow> \<forall>f\<in>set (ln_flows (initialize_llr c n)). fl_list f = []"
  using assms by (auto simp: initialize_llr_def llr_node_initialize_def node_inv_def clear_flow_def newest_only_def
      resize_def)

lemma put_resend_seq_flows: "ln_flows (put_resend_seq t n) = ln_flows n" "ln_enabled (put_resend_seq t n) = ln_enabled n"
  "ln_num_vcs (put_resend_seq t n) = ln_num_vcs n"
  by (simp_all add: put_resend_seq_def split: option.split)

lemma node_inv_resend_seq: "node_inv c n \<Longrightarrow> node_inv c (put_resend_seq t n)"
  by (simp add: node_inv_def put_resend_seq_flows)

lemma newest_only_send: "fl_list f = [] \<Longrightarrow> newest_only (snd (flow_send p f))"
  by (simp add: newest_only_def flow_send_def)

lemma node_inv_enqueue:
  assumes "node_inv c n"
  shows "node_inv c (snd (node_enqueue c p vc n))"
proof -
  let ?m = "initialize_llr c n"
  have i: "node_inv c ?m" by (rule node_inv_init(1) [OF assms])
  show ?thesis
  proof (cases "ln_enabled ?m \<and> vc < ln_num_vcs ?m")
    case True
    then have "lc_enabled c" using i by (simp add: node_inv_def)
    from node_inv_init(2) [OF assms this] have "fl_list (ln_flows ?m ! unat vc) = []"
      using i True by (auto simp: node_inv_def word_less_nat_alt)
    from node_inv_put(1) [OF i newest_only_send [OF this], of "unat vc" p] show ?thesis
      using True by (auto simp: node_enqueue_def llr_node_send_def Let_def case_prod_beta)
  next
    case False
    then show ?thesis using i by (auto simp: node_enqueue_def llr_node_send_def not_le)
  qed
qed

lemma node_inv_reachable: "node_reachable c n \<Longrightarrow> node_inv c n"
proof (induction rule: node_reachable.induct)
  case start
  show ?case by (simp add: node_inv_def new_llr_node_def)
next
  case (enqueue n p vc)
  then show ?case by (simp add: node_inv_enqueue)
next
  case (receive n vc seq)
  have i: "node_inv c (initialize_llr c n)" by (rule node_inv_init(1) [OF receive.IH])
  show ?case
    using i node_inv_put(1) [OF i newest_only_flow(5) [OF node_inv_flow [OF i]]]
    by (auto simp: node_receive_def llr_node_receive_def Let_def case_prod_beta)
next
  case (ack n vc seq)
  then show ?case
    using node_inv_put(1) [OF ack.IH newest_only_flow(1) [OF node_inv_flow [OF ack.IH]]]
    by (auto simp: llr_node_ack_def)
next
  case (nack n vc seq)
  then show ?case
    using node_inv_resend_seq [OF node_inv_put(1) [OF nack.IH newest_only_flow(2) [OF node_inv_flow [OF nack.IH]]]]
    by (auto simp: llr_node_nack_def Let_def case_prod_beta)
next
  case (resend n vc)
  then show ?case
    using node_inv_resend_seq [OF node_inv_put(1) [OF resend.IH newest_only_flow(3) [OF node_inv_flow [OF resend.IH]]]]
    by (auto simp: llr_node_resend_def Let_def case_prod_beta)
next
  case (resend_packet n vc)
  then show ?case
    using node_inv_put [OF resend_packet.IH newest_only_flow(4) [OF node_inv_flow [OF resend_packet.IH]]]
    by (auto simp: llr_node_resend_packet_def Let_def case_prod_beta)
qed

text \<open>
  Since the net device initialises the manager before every packet it sends or receives, and
  initialising empties the stored packets, a node never stores more than the packet it sent last on
  a virtual channel, whatever the window: a negative acknowledgment for any other packet finds
  nothing and changes nothing, so that packet is never sent again.
\<close>

theorem only_newest_packet_stored:
  assumes "node_reachable c n" "vc < ln_num_vcs n" "ln_enabled n"
  shows "length (fl_list (ln_flows n ! unat vc)) \<le> 1 \<and>
    (seq \<noteq> fl_send (ln_flows n ! unat vc) - 1 \<longrightarrow> llr_node_nack vc seq n = n \<and> llr_node_ack vc seq n = n)"
proof -
  let ?f = "ln_flows n ! unat vc"
  have o: "newest_only ?f"
    using node_inv_flow [OF node_inv_reachable [OF assms(1)] assms(3)] assms(2) by simp
  have none: "map_of (fl_list ?f) seq = None" if "seq \<noteq> fl_send ?f - 1"
    using o that by (auto simp: newest_only_def map_of_eq_None_iff)
  then have "seq \<noteq> fl_send ?f - 1 \<longrightarrow> flow_nack seq ?f = (None, ?f) \<and> flow_ack seq ?f = ?f"
    by (auto simp: flow_nack_def flow_ack_def)
  then show ?thesis
    using o assms(2,3) by (auto simp: newest_only_def llr_node_nack_def llr_node_ack_def put_resend_seq_def)
qed

section \<open>Witnesses\<close>

lemma llr_one_way_witness:
  "\<exists>k :: nat llr_link. ll_sent k = [7, 8] \<and> ll_forwarded k = [7] \<and> fl_list (ll_snd k) = [(1, 8)] \<and>
    (1, 8) \<in> ll_data k \<and> ll_forwarded (link_deliver (1, 8) k) = [7, 8]"
proof -
  let ?k1 = "link_transmit 7 llr_start :: nat llr_link"
  let ?k = "link_transmit 8 (link_deliver (0, 7) ?k1)"
  have s: "ll_sent ?k = [7, 8]" "fl_wait (ll_rcv ?k) = 1" "fl_list (ll_snd ?k) = [(1, 8)]"
      "(0, 7) \<in> ll_data ?k1" "(1, 8) \<in> ll_data ?k" "Suc (length (ll_sent (link_deliver (0, 7) ?k1))) < 2 ^ 32"
    by (simp_all add: llr_start_def link_transmit_def link_deliver_def flow_send_def flow_receive_def new_flow_def)
  have "llr_reachable ?k1"
    by (intro llr_reachable.transmit llr_reachable.start) (simp add: llr_start_def)
  from llr_reachable.transmit [OF llr_reachable.deliver [OF this s(4)] s(6)] have "llr_reachable ?k" .
  note p = llr_one_way [OF this]
  have "ll_forwarded ?k = [7]" "ll_forwarded (link_deliver (1, 8) ?k) = [7, 8]"
    using p s by fastforce+
  then show ?thesis using s by blast
qed

definition demo_port :: "nat llr_port" where
  "demo_port = new_llr_port\<lparr>lp_enabled := True, lp_peer := 5,
     lp_flows := [5 \<mapsto> replicate 4 (snd (flow_send 7 new_flow), 0)]\<rparr>"

lemma acknowledgment_swallows_packets_witness:
  "\<exists>n'. llr_port_ack 1 0 5 demo_port = Some n' \<and>
    llr_port_receive 1 0 5 n' = Some (Some (Llr_Ack 0), False, n') \<and>
    map_of (fl_list (flow_ack 0 (snd (flow_send (9 :: nat) new_flow)))) 0 = None"
proof -
  have "port_flow demo_port 5 1 = Some (snd (flow_send 7 new_flow), 0)"
    by (simp add: demo_port_def port_flow_def)
  from acknowledgment_swallows_packets [OF _ _ this, of 0 0 "snd (flow_send (9 :: nat) new_flow)"]
  show ?thesis by (simp add: demo_port_def new_llr_port_def flow_send_def new_flow_def)
qed

definition demo_llr_config :: llr_config where
  "demo_llr_config = \<lparr>lc_enabled = True, lc_window = 10, lc_timeout = 10000, lc_num_vcs = 4, lc_remote = 5\<rparr>"

lemma only_newest_packet_stored_witness:
  "\<exists>n :: nat llr_node. ln_enabled n \<and> fl_send (ln_flows n ! unat 0) = 2 \<and> llr_node_nack 0 0 n = n"
proof -
  let ?n1 = "snd (node_enqueue demo_llr_config 7 0 new_llr_node) :: nat llr_node"
  let ?n = "snd (node_enqueue demo_llr_config 8 0 ?n1)"
  have r: "node_reachable demo_llr_config ?n"
    by (intro node_reachable.enqueue node_reachable.start)
  have v: "ln_enabled ?n" "ln_num_vcs ?n = 4" "fl_send (ln_flows ?n ! unat 0) = 2"
    by code_simp+
  from only_newest_packet_stored [OF r, of 0 0] have "llr_node_nack 0 0 ?n = ?n"
    using v(3) by (simp add: v(1,2) del: One_nat_def)
  then show ?thesis using v by blast
qed

end
