(* ===== verification/SueClient.thy ===== *)
theory SueClient
  imports SueQueue Ordered_Maps "HOL-Library.Product_Lexorder" "HOL-Library.Monad_Syntax"
begin

text \<open>
  The SUE client (\<open>sue-sim-module/model/sue-client.cc\<close>): destination queues of transactions, the
  choice of a queue, the packing of transactions into packets for the port with most room, the
  reservation of that room, and the delayed sending of the packets. The ports are the queue managers
  of the devices the client manages. Statistics, logging and the names of sockets and addresses are
  left out; whether a port has a socket and whether a send succeeds are arguments.
\<close>

unbundle bit_operations_syntax

section \<open>State\<close>

text \<open>
  A transaction: the virtual channel \<open>GetVc\<close> reads from its SUE header (two bits of its 8 bytes) and its
  payload.
\<close>

record transaction =
  tr_vc :: vc_id
  tr_payload :: "u8 list"

definition sue_header_size :: u32 where "sue_header_size = 8"

definition tr_size :: "transaction \<Rightarrow> u32" where
  "tr_size t = sue_header_size + of_nat (length (tr_payload t))"

text \<open>\<open>Destination\<close>, ordered by the XPU and then by the virtual channel.\<close>

type_synonym destination = "u32 \<times> vc_id"

record dest_queue =
  dest_items :: "(ns \<times> transaction) list"
  dest_bytes :: u32

text \<open>A packed packet: the SUE header's fields and the payloads one after the other.\<close>

record burst =
  bp_psn :: u16
  bp_xpu :: u16
  bp_vc :: vc_id
  bp_payload :: "u8 list"

definition bp_size :: "burst \<Rightarrow> u32" where
  "bp_size b = sue_header_size + of_nat (length (bp_payload b))"

record sue_client =
  cl_queues :: "(destination \<times> dest_queue) list"
  cl_max_burst :: u32
  cl_psn :: u16
  cl_packets_sent :: u32
  cl_vc_num :: u32
  cl_dest_limit :: u32
  cl_packing_delay :: ns
  cl_last_used :: u32
  cl_interval :: ns
  cl_transaction_size :: u32
  cl_header_size :: u32

text \<open>The constructor and the attributes' defaults.\<close>

definition new_client :: sue_client where
  "new_client = \<lparr>cl_queues = [], cl_max_burst = 2048, cl_psn = 0, cl_packets_sent = 0, cl_vc_num = 4,
     cl_dest_limit = 30720, cl_packing_delay = 3, cl_last_used = 0, cl_interval = 10, cl_transaction_size = 128,
     cl_header_size = 44\<rparr>"

definition dest_of :: "sue_client \<Rightarrow> destination \<Rightarrow> dest_queue" where
  "dest_of c d = (case map_of (cl_queues c) d of Some q \<Rightarrow> q | None \<Rightarrow> \<lparr>dest_items = [], dest_bytes = 0\<rparr>)"

section \<open>Destination queues\<close>

text \<open>\<open>AddTransaction\<close>: \<open>m_destQueues[key]\<close> creates the queue even when the transaction is dropped.\<close>

definition add_transaction :: "ns \<Rightarrow> transaction \<Rightarrow> u32 \<Rightarrow> sue_client \<Rightarrow> sue_client" where
  "add_transaction now t xpu c =
    (let key = (xpu, tr_vc t); q = dest_of c key
     in if cl_dest_limit c < dest_bytes q + tr_size t then c\<lparr>cl_queues := map_put key q (cl_queues c)\<rparr>
        else c\<lparr>cl_queues := map_put key \<lparr>dest_items = dest_items q @ [(now, t)], dest_bytes = dest_bytes q + tr_size t\<rparr>
                 (cl_queues c)\<rparr>)"

text \<open>\<open>PopTransactionsFromQueue\<close>.\<close>

fun pop_items :: "nat \<Rightarrow> dest_queue \<Rightarrow> dest_queue" where
  "pop_items 0 q = q"
| "pop_items (Suc n) q = (case dest_items q of
     [] \<Rightarrow> q
   | e # es \<Rightarrow> pop_items n \<lparr>dest_items = es, dest_bytes = dest_bytes q - tr_size (snd e)\<rparr>)"

definition pop_transactions :: "destination \<Rightarrow> u32 \<Rightarrow> sue_client \<Rightarrow> sue_client" where
  "pop_transactions d count c = (case map_of (cl_queues c) d of
     None \<Rightarrow> c | Some q \<Rightarrow> c\<lparr>cl_queues := map_put d (pop_items (unat count) q) (cl_queues c)\<rparr>)"

text \<open>
  \<open>ScheduleNextSend\<close>, first part: the non-empty queue whose first transaction waits longest; a
  transaction that came in this instant does not wait.
\<close>

fun select_queue :: "ns \<Rightarrow> ns \<Rightarrow> destination option \<Rightarrow> (destination \<times> dest_queue) list \<Rightarrow> destination option" where
  "select_queue now best sel [] = sel"
| "select_queue now best sel ((d, q) # qs) = (case dest_items q of
     [] \<Rightarrow> select_queue now best sel qs
   | e # es \<Rightarrow> if best < now - fst e then select_queue now (now - fst e) (Some d) qs
       else select_queue now best sel qs)"

section \<open>Room at the ports\<close>

text \<open>The port with most room on the virtual channel: the first among equals, none without room.\<close>

fun best_port :: "u32 \<Rightarrow> vc_id \<Rightarrow> nat \<Rightarrow> u32 \<Rightarrow> nat option \<Rightarrow> queue_manager list \<Rightarrow> u32 \<times> nat option" where
  "best_port vc_num vc i best sel [] = (best, sel)"
| "best_port vc_num vc i best sel (m # ms) =
    (if ucast vc < vc_num \<and> best < get_vc_available_capacity m vc
     then best_port vc_num vc (Suc i) (get_vc_available_capacity m vc) (Some i) ms
     else best_port vc_num vc (Suc i) best sel ms)"

text \<open>
  The loop that counts how many transactions fit, with the room that is left at its end; \<open>numTemp\<close>
  is a \<open>uint8_t\<close>. \<open>None\<close> stands for a loop that does not end, or for a division by zero.
\<close>

partial_function (option) plan_transactions :: "u32 \<Rightarrow> u32 \<Rightarrow> u32 \<Rightarrow> u32 \<Rightarrow> u32 \<Rightarrow> (u32 \<times> u32) option" where
  "plan_transactions tsize burst header room count =
    (if tsize + sue_header_size + header < room then
       (if tsize = 0 then None
        else let available = room - sue_header_size - header
        in if burst < available then
             plan_transactions tsize burst header (room - (burst + sue_header_size + header)) (count + burst div tsize)
           else let n = ucast (ucast (available div tsize) :: u8)
             in plan_transactions tsize burst header (room - (n * tsize + sue_header_size + header)) (count + n))
     else Some (count, room))"

declare plan_transactions.simps [code]

section \<open>Packing\<close>

text \<open>\<open>SmartPacking\<close>: the payloads of each packet.\<close>

fun smart_packing :: "u32 \<Rightarrow> u32 \<Rightarrow> nat \<Rightarrow> transaction list \<Rightarrow> u8 list list \<Rightarrow> u32 \<Rightarrow> u8 list list list" where
  "smart_packing tsize burst 0 ts batch bytes = (if batch = [] then [] else [batch])"
| "smart_packing tsize burst (Suc n) [] batch bytes = (if batch = [] then [] else [batch])"
| "smart_packing tsize burst (Suc n) (t # ts) batch bytes =
    (if burst < bytes + tsize \<and> batch \<noteq> []
     then batch # smart_packing tsize burst n ts [tr_payload t] (of_nat (length (tr_payload t)))
     else smart_packing tsize burst n ts (batch @ [tr_payload t]) (bytes + of_nat (length (tr_payload t))))"

definition create_combined_packet :: "u16 \<Rightarrow> destination \<Rightarrow> u8 list list \<Rightarrow> burst" where
  "create_combined_packet psn d ps = \<lparr>bp_psn = psn, bp_xpu = ucast (fst d) AND 0x3FF, bp_vc = snd d AND 3, bp_payload = concat ps\<rparr>"

text \<open>\<open>AnalyzeTransactionCount\<close>.\<close>

definition analyze_transaction_count :: "u32 \<Rightarrow> burst \<Rightarrow> u32" where
  "analyze_transaction_count tsize b =
    (let n = of_nat (length (bp_payload b))
     in if n = 0 then 1 else max ((n + tsize - 1) div tsize) 1)"

section \<open>Scheduling\<close>

text \<open>A pending \<open>DoSendBurst\<close>: when it is due, the packet, its destination and the port.\<close>

record pending_send =
  ps_due :: ns
  ps_burst :: burst
  ps_dest :: destination
  ps_port :: nat

record client_world =
  cw_client :: sue_client
  cw_ports :: "queue_manager list"
  cw_pending :: "pending_send list"

definition update_port :: "nat \<Rightarrow> (queue_manager \<Rightarrow> queue_manager) \<Rightarrow> client_world \<Rightarrow> client_world" where
  "update_port i f w = w\<lparr>cw_ports := (cw_ports w)[i := f (cw_ports w ! i)]\<rparr>"

text \<open>
  The loop over the packed packets. \<open>ReserveVcCapacity\<close> stands inside \<open>NS_ASSERT_MSG\<close>: with assertions
  compiled in, a failed reservation aborts the program, which is \<open>None\<close> here. Without a socket for the
  port the reservation is released and the packet is skipped.
\<close>

fun schedule_packets :: "ns \<Rightarrow> bool \<Rightarrow> nat \<Rightarrow> destination \<Rightarrow> nat \<Rightarrow> burst list \<Rightarrow> client_world \<Rightarrow> client_world option" where
  "schedule_packets now socket i d port [] w = Some w"
| "schedule_packets now socket i d port (b # bs) w =
    (let (ok, m) = reserve_vc_capacity (bp_vc b) (bp_size b) (cw_ports w ! port)
     in if \<not> ok then None
        else let w1 = update_port port (\<lambda>_. m) w
          in if socket then
               schedule_packets now socket (Suc i) d port bs
                 (w1\<lparr>cw_pending := cw_pending w1 @
                    [\<lparr>ps_due = now + cl_packing_delay (cw_client w) * (int i + 1), ps_burst = b, ps_dest = d, ps_port = port\<rparr>]\<rparr>)
             else
               schedule_packets now socket (Suc i) d port bs
                 (update_port port (release_vc_capacity (bp_vc b) (bp_size b)) w1))"

text \<open>
  \<open>ScheduleNextSend\<close>; its own next event is the caller's. With more than 255 virtual channels the
  8-bit counter of \<open>GetDeviceCapacities\<close> never reaches their number: that loop does not end. The same
  holds of the loop over the packets in \<open>SmartPacking\<close>, which only reports statistics.
\<close>

definition schedule_next_send :: "ns \<Rightarrow> bool \<Rightarrow> client_world \<Rightarrow> client_world option" where
  "schedule_next_send now socket w =
    (let c = cw_client w
     in case select_queue now 0 None (cl_queues c) of
          None \<Rightarrow> Some w
        | Some d \<Rightarrow>
           (if cw_ports w = [] then Some w
            else if 255 < cl_vc_num c then None
            else case best_port (cl_vc_num c) (snd d) 0 0 None (cw_ports w) of
              (room, None) \<Rightarrow> Some w
            | (room, Some port) \<Rightarrow>
               do {
                 (count, left) \<leftarrow> plan_transactions (cl_transaction_size c) (cl_max_burst c) (cl_header_size c) room 0;
                 if left = 0 then Some w
                 else
                   let items = map snd (dest_items (dest_of c d));
                       n = min count (of_nat (length items));
                       packets = map (create_combined_packet (cl_psn c) d)
                         (smart_packing (cl_transaction_size c) (cl_max_burst c) (unat n) items [] 0)
                   in if 255 < length packets then None else schedule_packets now socket 0 d port packets w
               }))"

text \<open>
  \<open>DoSendBurst\<close>: \<open>valid\<close> is the socket's state, \<open>ok\<close> the result of \<open>SendTo\<close>. With an invalid socket or
  the unset destination nothing happens: the reservation is kept.
\<close>

definition do_send_burst :: "bool \<Rightarrow> bool \<Rightarrow> pending_send \<Rightarrow> client_world \<Rightarrow> client_world" where
  "do_send_burst valid ok p w =
    (if \<not> valid \<or> fst (ps_dest p) = 0xFFFFFFFF then w
     else
       let c = cw_client w;
           count = analyze_transaction_count (cl_transaction_size c) (ps_burst p);
           w1 = (if ok then w\<lparr>cw_client := pop_transactions (ps_dest p) count
                        (c\<lparr>cl_psn := cl_psn c + 1, cl_packets_sent := cl_packets_sent c + 1\<rparr>)\<rparr>
                 else w)
       in update_port (ps_port p) (release_vc_capacity (bp_vc (ps_burst p)) (bp_size (ps_burst p))) w1)"

section \<open>Runs\<close>

text \<open>
  The events of the simulator on a client: transactions come in, \<open>ScheduleNextSend\<close> runs every
  \<open>m_schedulingInterval\<close>, the packed packets are sent when due. What is due first comes first, and a
  scheduling event comes before a sending event of the same instant (it was scheduled earlier).
  The history records, for every destination, the payload bytes accepted and those sent.
\<close>

record client_run =
  cr_now :: ns
  cr_tick :: ns
  cr_world :: client_world
  cr_accepted :: "destination \<Rightarrow> u8 list"
  cr_sent :: "destination \<Rightarrow> u8 list"

definition accepts :: "transaction \<Rightarrow> u32 \<Rightarrow> sue_client \<Rightarrow> bool" where
  "accepts t xpu c \<longleftrightarrow> \<not> cl_dest_limit c < dest_bytes (dest_of c (xpu, tr_vc t)) + tr_size t"

definition arrival :: "ns \<Rightarrow> transaction \<Rightarrow> u32 \<Rightarrow> client_run \<Rightarrow> client_run" where
  "arrival t tr xpu r = r\<lparr>cr_now := t,
     cr_world := (cr_world r)\<lparr>cw_client := add_transaction t tr xpu (cw_client (cr_world r))\<rparr>,
     cr_accepted := (if accepts tr xpu (cw_client (cr_world r))
       then (cr_accepted r)((xpu, tr_vc tr) := cr_accepted r (xpu, tr_vc tr) @ tr_payload tr) else cr_accepted r)\<rparr>"

definition tick :: "client_run \<Rightarrow> client_run option" where
  "tick r = (case schedule_next_send (cr_tick r) True (cr_world r) of
     None \<Rightarrow> None
   | Some w \<Rightarrow> Some (r\<lparr>cr_now := cr_tick r, cr_tick := cr_tick r + cl_interval (cw_client w), cr_world := w\<rparr>))"

definition sending :: "pending_send \<Rightarrow> pending_send list \<Rightarrow> client_run \<Rightarrow> client_run" where
  "sending p ps r = r\<lparr>cr_now := ps_due p, cr_world := do_send_burst True True p ((cr_world r)\<lparr>cw_pending := ps\<rparr>),
     cr_sent := (cr_sent r)(ps_dest p := cr_sent r (ps_dest p) @ bp_payload (ps_burst p))\<rparr>"

text \<open>
  What the traffic generator offers: transactions of the configured size, with a virtual channel of
  two bits, for a set destination.
\<close>

definition offered :: "transaction \<Rightarrow> u32 \<Rightarrow> sue_client \<Rightarrow> bool" where
  "offered tr xpu c \<longleftrightarrow> length (tr_payload tr) = unat (cl_transaction_size c) \<and> tr_vc tr AND 3 = tr_vc tr \<and>
     xpu \<noteq> 0xFFFFFFFF"

inductive client_step :: "client_run \<Rightarrow> client_run \<Rightarrow> bool" where
  arrive: "offered tr xpu (cw_client (cr_world r)) \<Longrightarrow> cr_now r \<le> t \<Longrightarrow> t \<le> cr_tick r \<Longrightarrow> (\<forall>p\<in>set (cw_pending (cr_world r)). t \<le> ps_due p) \<Longrightarrow>
     client_step r (arrival t tr xpu r)"
| schedule: "(\<forall>p\<in>set (cw_pending (cr_world r)). cr_tick r \<le> ps_due p) \<Longrightarrow> tick r = Some r' \<Longrightarrow> client_step r r'"
| send: "cw_pending (cr_world r) = ps @ p # qs \<Longrightarrow> (\<forall>q\<in>set (ps @ qs). ps_due p \<le> ps_due q) \<Longrightarrow>
     (\<forall>q\<in>set ps. ps_due p < ps_due q) \<Longrightarrow> ps_due p < cr_tick r \<Longrightarrow> client_step r (sending p (ps @ qs) r)"

end
