(* ===== verification/SuePacking.thy ===== *)
theory SuePacking
  imports SueClient
begin

text \<open>
  The arithmetic of the SUE client: the planning loop ends and stays inside the room it was given,
  packing puts the transactions in order into as few packets as planned, and so the reservations
  that \<open>ScheduleNextSend\<close> asserts succeed.
\<close>

section \<open>The planning loop\<close>

text \<open>What the sizes must satisfy: no sum of a packet's parts wraps.\<close>

definition sizes_ok :: "u32 \<Rightarrow> u32 \<Rightarrow> u32 \<Rightarrow> bool" where
  "sizes_ok tsize burst header \<longleftrightarrow> tsize \<noteq> 0 \<and> tsize \<le> burst \<and>
     unat burst + unat tsize + unat header + 8 < 2 ^ 32"

lemma header_sums:
  assumes "sizes_ok tsize burst header"
  shows "unat (tsize + sue_header_size + header) = unat tsize + 8 + unat header"
    "unat (burst + sue_header_size + header) = unat burst + 8 + unat header"
    "0 < unat tsize" "unat tsize \<le> unat burst"
proof -
  have a: "0 < unat tsize" "unat tsize \<le> unat burst" "unat burst + unat tsize + unat header + 8 < 2 ^ 32"
    using assms by (simp_all add: sizes_ok_def unat_gt_0 word_le_nat_alt)
  then show "0 < unat tsize" "unat tsize \<le> unat burst" by simp_all
  show "unat (tsize + sue_header_size + header) = unat tsize + 8 + unat header"
    "unat (burst + sue_header_size + header) = unat burst + 8 + unat header"
    using a by (simp_all add: sue_header_size_def unat_word_ariths)
qed

text \<open>
  The plan is made of \<open>r\<close> packets with \<open>a\<close> transactions in all, at most \<open>burst div tsize\<close> in each; with
  their headers they fit the room.
\<close>

definition planned :: "u32 \<Rightarrow> u32 \<Rightarrow> u32 \<Rightarrow> u32 \<Rightarrow> nat \<Rightarrow> bool" where
  "planned tsize burst header room a \<longleftrightarrow> (\<exists>r. a \<le> r * (unat burst div unat tsize) \<and>
     a * unat tsize + r * (8 + unat header) \<le> unat room)"

lemma planned_more:
  assumes "planned tsize burst header room' a" "n \<le> unat burst div unat tsize"
    "unat room' + (n * unat tsize + 8 + unat header) \<le> unat room"
  shows "planned tsize burst header room (n + a)"
proof -
  obtain r where r: "a \<le> r * (unat burst div unat tsize)" "a * unat tsize + r * (8 + unat header) \<le> unat room'"
    using assms(1) by (auto simp: planned_def)
  have "n + a \<le> Suc r * (unat burst div unat tsize)" using r(1) assms(2) by simp
  moreover have "(n + a) * unat tsize + Suc r * (8 + unat header) \<le> unat room"
    using r(2) assms(3) by (simp add: algebra_simps)
  ultimately show ?thesis unfolding planned_def by blast
qed

lemma plan_turn:
  assumes ok: "sizes_ok tsize burst header" and more: "tsize + sue_header_size + header < room"
    and count: "unat count + unat room < 2 ^ 32"
  obtains n room' count' where
    "plan_transactions tsize burst header room count = plan_transactions tsize burst header room' count'"
    "n \<le> unat burst div unat tsize" "unat count' = unat count + n"
    "unat room' + (n * unat tsize + 8 + unat header) \<le> unat room" "unat room' < unat room"
proof -
  note s = header_sums [OF ok]
  have nz: "tsize \<noteq> 0" using ok by (simp add: sizes_ok_def)
  let ?avail = "room - sue_header_size - header"
  have lt: "unat tsize + 8 + unat header < unat room" using more s(1) by (simp add: word_less_nat_alt)
  have "unat (room - sue_header_size) = unat room - 8"
    using lt by (simp add: sue_header_size_def unat_sub word_le_nat_alt)
  then have av: "unat ?avail = unat room - 8 - unat header"
    using lt by (simp add: unat_sub word_le_nat_alt)
  show thesis
  proof (cases "burst < ?avail")
    case True
    let ?room = "room - (burst + sue_header_size + header)" and ?n = "unat burst div unat tsize"
    have b: "unat burst + 8 + unat header < unat room" using True av by (simp add: word_less_nat_alt)
    then have r: "unat ?room = unat room - (unat burst + 8 + unat header)"
      using s(2) by (simp add: unat_sub word_le_nat_alt)
    have "?n * unat tsize \<le> unat burst" by (rule div_times_less_eq_dividend)
    then have le: "unat ?room + (?n * unat tsize + 8 + unat header) \<le> unat room" "unat ?room < unat room"
      using r b by linarith+
    have "?n \<le> unat burst" by (rule div_le_dividend)
    then have "unat count + ?n < 2 ^ 32" using count b by linarith
    then have c: "unat (count + burst div tsize) = unat count + ?n"
      by (subst unat_add_nowrap) (simp_all add: unat_div)
    have "plan_transactions tsize burst header room count =
        plan_transactions tsize burst header ?room (count + burst div tsize)"
      using more True nz by (simp add: plan_transactions.simps [of tsize burst header room count] Let_def)
    from that [OF this le_refl c le] show thesis .
  next
    case False
    let ?n = "ucast (ucast (?avail div tsize) :: u8) :: u32"
    have n: "unat ?n \<le> unat ?avail div unat tsize"
      by (simp add: unsigned_ucast_eq take_bit_eq_mod unat_div unat_mod le_trans [OF mod_less_eq_dividend])
    have "unat ?n * unat tsize \<le> unat ?avail"
      using mult_le_mono1 [OF n] by (rule order_trans) simp
    moreover have n': "unat ?n \<le> unat burst div unat tsize"
      using n False by (meson div_le_mono le_trans not_le word_le_nat_alt)
    moreover have ca: "unat count + unat ?n < 2 ^ 32"
      using n count av div_le_dividend [of "unat ?avail" "unat tsize"] by linarith
    ultimately have p: "unat (?n * tsize + sue_header_size + header) = unat ?n * unat tsize + 8 + unat header"
        "unat ?n * unat tsize + 8 + unat header \<le> unat room"
      using av lt unsigned_less [of room, where ?'a = nat] by (simp_all add: sue_header_size_def unat_word_ariths)
    let ?room = "room - (?n * tsize + sue_header_size + header)"
    have r: "unat ?room = unat room - (unat ?n * unat tsize + 8 + unat header)"
      using p by (simp add: unat_sub word_le_nat_alt)
    show thesis
      using that [of ?room "count + ?n" "unat ?n"] more False r p n' ca nz
      by (simp add: plan_transactions.simps [of tsize burst header room count] Let_def unat_add_nowrap)
  qed
qed

lemma plan_fits:
  assumes "sizes_ok tsize burst header" "unat count + unat room < 2 ^ 32"
  shows "\<exists>a left. plan_transactions tsize burst header room count = Some (count + of_nat a, left) \<and>
    planned tsize burst header room a \<and> unat count + a < 2 ^ 32"
  using assms(2)
proof (induction "unat room" arbitrary: room count rule: less_induct)
  case less
  show ?case
  proof (cases "tsize + sue_header_size + header < room")
    case True
    obtain n room' count' where t:
        "plan_transactions tsize burst header room count = plan_transactions tsize burst header room' count'"
        "n \<le> unat burst div unat tsize" "unat count' = unat count + n"
        "unat room' + (n * unat tsize + 8 + unat header) \<le> unat room" "unat room' < unat room"
      by (rule plan_turn [OF assms(1) True less.prems])
    have "unat count' + unat room' < 2 ^ 32"
      using t(3,4) less.prems header_sums(3) [OF assms(1)] by (cases "unat tsize") (simp_all add: algebra_simps)
    from less.hyps [OF t(5) this] obtain a left where
      a: "plan_transactions tsize burst header room' count' = Some (count' + of_nat a, left)"
        "planned tsize burst header room' a" "unat count' + a < 2 ^ 32" by blast
    have "count' = count + of_nat n"
      using arg_cong [OF t(3), of "of_nat :: nat \<Rightarrow> u32"] by simp
    then have "plan_transactions tsize burst header room count = Some (count + of_nat (n + a), left)"
      using t(1) a(1) by (simp add: algebra_simps)
    moreover have "planned tsize burst header room (n + a)" by (rule planned_more [OF a(2) t(2,4)])
    moreover have "unat count + (n + a) < 2 ^ 32" using a(3) t(3) by simp
    ultimately show ?thesis by blast
  next
    case False
    then have "plan_transactions tsize burst header room count = Some (count + of_nat 0, room)"
      by (simp add: plan_transactions.simps [of tsize burst header room count])
    moreover have "planned tsize burst header room 0" by (auto simp: planned_def intro: exI [of _ 0])
    ultimately show ?thesis using less.prems by fastforce
  qed
qed

section \<open>Packing\<close>

definition transactions_in :: "u32 \<Rightarrow> u8 list list \<Rightarrow> bool" where
  "transactions_in tsize ps \<longleftrightarrow> (\<forall>p\<in>set ps. length p = unat tsize)"

lemma full_iff:
  assumes ok: "sizes_ok tsize burst header" and m: "unat bytes = m * unat tsize" "m \<le> unat burst div unat tsize"
  shows "burst < bytes + tsize \<longleftrightarrow> m = unat burst div unat tsize"
proof -
  have t: "0 < unat tsize" "unat burst + unat tsize < 2 ^ 32"
    using ok by (simp_all add: sizes_ok_def unat_gt_0)
  have "m * unat tsize \<le> unat burst"
    using mult_le_mono1 [OF m(2), of "unat tsize"] by (rule order_trans) (rule div_times_less_eq_dividend)
  then have "unat (bytes + tsize) = Suc m * unat tsize" using m(1) t(2) by (simp add: unat_add_nowrap)
  then have "burst < bytes + tsize \<longleftrightarrow> \<not> Suc m * unat tsize \<le> unat burst" by (simp only: word_less_nat_alt not_le)
  also have "\<dots> \<longleftrightarrow> \<not> Suc m \<le> unat burst div unat tsize" using t(1) by (simp only: less_eq_div_iff_mult_less_eq)
  also have "\<dots> \<longleftrightarrow> m = unat burst div unat tsize" using m(2) by linarith
  finally show ?thesis .
qed

definition packed :: "nat \<Rightarrow> u8 list list \<Rightarrow> u8 list list list \<Rightarrow> bool" where
  "packed k ps bs \<longleftrightarrow> concat bs = ps \<and> (\<forall>b\<in>set bs. b \<noteq> [] \<and> length b \<le> k) \<and>
     (bs = [] \<or> (length bs - 1) * k < length ps)"

lemma packed_last: "length batch \<le> k \<Longrightarrow> packed k batch (if batch = [] then [] else [batch])"
  by (simp add: packed_def)

lemma packed_more:
  assumes "packed k ps bs" "ps \<noteq> []" "length batch = k" "0 < k"
  shows "packed k (batch @ ps) (batch # bs)"
proof -
  have "bs \<noteq> []" using assms(1,2) by (auto simp: packed_def)
  then show ?thesis using assms by (cases bs) (auto simp: packed_def)
qed

lemma packing_spec:
  assumes ok: "sizes_ok tsize burst header"
    and ts: "\<forall>t\<in>set ts. length (tr_payload t) = unat tsize"
    and batch: "unat bytes = length batch * unat tsize" "length batch \<le> unat burst div unat tsize"
  shows "packed (unat burst div unat tsize) (batch @ map tr_payload (take n ts))
    (smart_packing tsize burst n ts batch bytes)"
  using ts batch
proof (induction ts arbitrary: n batch bytes)
  case Nil
  then show ?case by (cases n) (simp_all add: packed_last)
next
  case (Cons t ts)
  let ?k = "unat burst div unat tsize"
  have k: "0 < ?k" using ok by (auto simp: sizes_ok_def div_greater_zero_iff word_le_nat_alt unat_gt_0)
  have len: "unat (of_nat (length (tr_payload t)) :: u32) = unat tsize"
    using Cons.prems(1) by simp
  show ?case
  proof (cases n)
    case 0
    then show ?thesis using Cons.prems by (simp add: packed_last)
  next
    case (Suc m)
    note full = full_iff [OF ok Cons.prems(2,3)]
    show ?thesis
    proof (cases "burst < bytes + tsize \<and> batch \<noteq> []")
      case True
      have "packed ?k ([tr_payload t] @ map tr_payload (take m ts))
          (smart_packing tsize burst m ts [tr_payload t] (of_nat (length (tr_payload t))))"
        by (rule Cons.IH) (use Cons.prems(1) len k in simp_all)
      from packed_more [OF this] show ?thesis using True Suc full k by simp
    next
      case False
      then have lt: "length batch < ?k" using full Cons.prems(3) k by auto
      have "length batch * unat tsize + unat tsize \<le> ?k * unat tsize"
        using mult_le_mono1 [OF Suc_leI [OF lt], of "unat tsize"] by (simp add: add.commute)
      then have "length batch * unat tsize + unat tsize \<le> unat burst"
        by (rule order_trans) (rule div_times_less_eq_dividend)
      then have "unat (bytes + of_nat (length (tr_payload t))) = length (batch @ [tr_payload t]) * unat tsize"
        using Cons.prems(2) len unsigned_less [of burst, where ?'a = nat] by (subst unat_add_nowrap) simp_all
      then have "packed ?k ((batch @ [tr_payload t]) @ map tr_payload (take m ts))
          (smart_packing tsize burst m ts (batch @ [tr_payload t]) (bytes + of_nat (length (tr_payload t))))"
        by (intro Cons.IH) (use Cons.prems(1) lt in simp_all)
      then show ?thesis using False Suc by auto
    qed
  qed
qed

text \<open>Packets that hold at most what was planned need at most the planned room.\<close>

lemma packed_bytes:
  assumes "packed k ps bs" "\<forall>p\<in>set ps. length p = t"
  shows "(\<Sum>b\<leftarrow>bs. length (concat b)) = length ps * t"
proof -
  have "length (concat b) = length b * t" if "\<forall>p\<in>set b. length p = t" for b :: "u8 list list"
    using that by (induction b) auto
  moreover have "\<forall>b\<in>set bs. \<forall>p\<in>set b. length p = t" using assms by (auto simp: packed_def)
  moreover have "(\<Sum>b\<leftarrow>bs. length b * t) = length (concat bs) * t"
    by (simp add: length_concat sum_list_mult_const comp_def)
  ultimately have "(\<Sum>b\<leftarrow>bs. length (concat b)) = length (concat bs) * t"
    by (metis (mono_tags, lifting) map_cong)
  then show ?thesis using assms(1) by (simp add: packed_def)
qed

lemma packed_room:
  assumes "planned tsize burst header room a" "packed (unat burst div unat tsize) ps bs" "length ps \<le> a"
    "0 < unat burst div unat tsize"
  shows "length ps * unat tsize + length bs * (8 + unat header) \<le> unat room"
proof -
  let ?k = "unat burst div unat tsize"
  obtain r where r: "a \<le> r * ?k" "a * unat tsize + r * (8 + unat header) \<le> unat room"
    using assms(1) by (auto simp: planned_def)
  have "length bs \<le> r"
  proof (cases "bs = []")
    case False
    then have "(length bs - 1) * ?k < length ps" using assms(2) by (simp add: packed_def)
    then have "(length bs - 1) * ?k < r * ?k" using assms(3) r(1) by linarith
    then have "length bs - 1 < r" by simp
    then show ?thesis by simp
  qed simp
  then have "length bs * (8 + unat header) \<le> r * (8 + unat header)" by (rule mult_le_mono1)
  moreover have "length ps * unat tsize \<le> a * unat tsize" using assms(3) by (rule mult_le_mono1)
  ultimately show ?thesis using r(2) by linarith
qed

section \<open>The reservations\<close>

lemma reserve_room:
  assumes "vc < qm_num_vcs m" "unat (amount + qm_header_size m) \<le> unat (get_vc_available_capacity m vc)"
  shows "\<exists>m'. reserve_vc_capacity vc amount m = (True, m') \<and> qm_num_vcs m' = qm_num_vcs m \<and>
    qm_header_size m' = qm_header_size m \<and>
    unat (get_vc_available_capacity m vc) \<le> unat (get_vc_available_capacity m' vc) + unat (amount + qm_header_size m)"
proof -
  let ?n = "amount + qm_header_size m"
  let ?m' = "m\<lparr>qm_reserved := (qm_reserved m)(vc \<mapsto> get_reserved m vc + ?n)\<rparr>"
  have vc: "\<not> qm_num_vcs m \<le> vc" using assms(1) by simp
  have r: "reserve_vc_capacity vc amount m = (True, ?m')"
    using assms(2) vc by (simp add: reserve_vc_capacity_def Let_def word_le_nat_alt [symmetric])
  have "unat (get_vc_available_capacity m vc) \<le> unat (get_vc_available_capacity ?m' vc) + unat ?n"
  proof (cases "qm_queues m vc")
    case None
    then show ?thesis using vc by (simp add: get_vc_available_capacity_def)
  next
    case (Some d)
    let ?u = "dq_bytes d + get_reserved m vc"
    show ?thesis
    proof (cases "qm_max_bytes m \<le> ?u")
      case True
      then show ?thesis using Some vc by (simp add: get_vc_available_capacity_def)
    next
      case False
      then have av: "unat (get_vc_available_capacity m vc) = unat (qm_max_bytes m) - unat ?u"
        using Some vc by (simp add: get_vc_available_capacity_def Let_def not_le unat_sub)
      have "unat ?u + unat ?n \<le> unat (qm_max_bytes m)"
        using assms(2) False unfolding av by (simp add: word_le_nat_alt not_le)
      then have "unat (?u + ?n) = unat ?u + unat ?n"
        using unsigned_less [of "qm_max_bytes m", where ?'a = nat] by (intro unat_add_nowrap) simp
      moreover have "get_reserved ?m' vc = get_reserved m vc + ?n" by (simp add: get_reserved_def)
      then have "get_vc_available_capacity ?m' vc = (if qm_max_bytes m \<le> ?u + ?n then 0 else qm_max_bytes m - (?u + ?n))"
        using Some vc by (simp add: get_vc_available_capacity_def Let_def add.assoc)
      ultimately show ?thesis
        by (auto simp: av unat_sub word_le_nat_alt)
    qed
  qed
  then show ?thesis using r by auto
qed

definition sends_at :: "ns \<Rightarrow> ns \<Rightarrow> nat \<Rightarrow> nat \<Rightarrow> ns list" where
  "sends_at now delay i n = map (\<lambda>j. now + delay * (int j + 1)) [i..<i + n]"

lemma sends_at_Suc: "sends_at now delay i (Suc n) = (now + delay * (int i + 1)) # sends_at now delay (Suc i) n"
  by (simp add: sends_at_def upt_conv_Cons del: upt_Suc)

lemma schedule_packets_fits:
  assumes "\<forall>b\<in>set bs. bp_vc b = vc \<and> unat (bp_size b + qm_header_size (cw_ports w ! port)) \<le> f b"
    "(\<Sum>b\<leftarrow>bs. f b) \<le> unat (get_vc_available_capacity (cw_ports w ! port) vc)"
    "vc < qm_num_vcs (cw_ports w ! port)" "port < length (cw_ports w)"
  shows "\<exists>w' ps. schedule_packets now True i d port bs w = Some w' \<and> cw_client w' = cw_client w \<and>
    map qm_header_size (cw_ports w') = map qm_header_size (cw_ports w) \<and>
    cw_pending w' = cw_pending w @ ps \<and> map ps_burst ps = bs \<and> (\<forall>p\<in>set ps. ps_dest p = d) \<and>
    map ps_due ps = sends_at now (cl_packing_delay (cw_client w)) i (length bs)"
  using assms
proof (induction bs arbitrary: i w)
  case (Cons b bs)
  let ?m = "cw_ports w ! port"
  have b: "bp_vc b = vc" "unat (bp_size b + qm_header_size ?m) \<le> f b" using Cons.prems(1) by simp_all
  have "unat (bp_size b + qm_header_size ?m) \<le> unat (get_vc_available_capacity ?m vc)"
    using b(2) Cons.prems(2) by simp
  from reserve_room [OF Cons.prems(3) this] obtain m' where
    m': "reserve_vc_capacity vc (bp_size b) ?m = (True, m')" "qm_num_vcs m' = qm_num_vcs ?m"
      "qm_header_size m' = qm_header_size ?m"
      "unat (get_vc_available_capacity ?m vc) \<le> unat (get_vc_available_capacity m' vc) + unat (bp_size b + qm_header_size ?m)"
    by blast
  let ?w1 = "update_port port (\<lambda>_. m') w"
  let ?p = "\<lparr>ps_due = now + cl_packing_delay (cw_client w) * (int i + 1), ps_burst = b, ps_dest = d, ps_port = port\<rparr>"
  let ?w = "?w1\<lparr>cw_pending := cw_pending ?w1 @ [?p]\<rparr>"
  have w: "cw_ports ?w ! port = m'" "cw_client ?w = cw_client w" "length (cw_ports ?w) = length (cw_ports w)"
      "cw_pending ?w = cw_pending w @ [?p]" "map qm_header_size (cw_ports ?w) = map qm_header_size (cw_ports w)"
    using Cons.prems(4) m'(3) by (simp_all add: update_port_def map_update list_update_same_conv)
  have "\<exists>w' ps. schedule_packets now True (Suc i) d port bs ?w = Some w' \<and> cw_client w' = cw_client ?w \<and>
      map qm_header_size (cw_ports w') = map qm_header_size (cw_ports ?w) \<and>
      cw_pending w' = cw_pending ?w @ ps \<and> map ps_burst ps = bs \<and> (\<forall>p\<in>set ps. ps_dest p = d) \<and>
      map ps_due ps = sends_at now (cl_packing_delay (cw_client ?w)) (Suc i) (length bs)"
    by (rule Cons.IH) (use Cons.prems m' b w in auto)
  then obtain w' ps where ih: "schedule_packets now True (Suc i) d port bs ?w = Some w'" "cw_client w' = cw_client ?w"
      "map qm_header_size (cw_ports w') = map qm_header_size (cw_ports ?w)"
      "cw_pending w' = cw_pending ?w @ ps" "map ps_burst ps = bs" "\<forall>p\<in>set ps. ps_dest p = d"
      "map ps_due ps = sends_at now (cl_packing_delay (cw_client ?w)) (Suc i) (length bs)" by blast
  have "schedule_packets now True i d port (b # bs) w = Some w'"
    using m'(1) b(1) ih(1) by (simp add: Let_def)
  moreover have "cw_pending w' = cw_pending w @ (?p # ps)" using ih(4) w(4) by simp
  moreover have "map ps_due (?p # ps) = sends_at now (cl_packing_delay (cw_client w)) i (length (b # bs))"
    using ih(7) w(2) by (simp add: sends_at_Suc)
  ultimately show ?case using ih(2,3,5,6) w(2,5) by (intro exI [of _ w'] exI [of _ "?p # ps"]) simp
qed (simp add: sends_at_def)

lemma best_port_spec:
  assumes "best_port n vc i b sel (drop i ms) = (room, Some p)"
    "\<And>q. sel = Some q \<Longrightarrow> q < length ms \<and> b = get_vc_available_capacity (ms ! q) vc \<and> 0 < b"
  shows "p < length ms \<and> room = get_vc_available_capacity (ms ! p) vc \<and> 0 < room"
  using assms
proof (induction "length ms - i" arbitrary: i b sel)
  case 0
  then show ?case by auto
next
  case (Suc l)
  then have d: "drop i ms = ms ! i # drop (Suc i) ms" "l = length ms - Suc i" "i < length ms"
    by (simp_all add: Cons_nth_drop_Suc)
  have step: "best_port n vc i b sel (drop i ms) =
      (if ucast vc < n \<and> b < get_vc_available_capacity (ms ! i) vc
       then best_port n vc (Suc i) (get_vc_available_capacity (ms ! i) vc) (Some i) (drop (Suc i) ms)
       else best_port n vc (Suc i) b sel (drop (Suc i) ms))"
    unfolding d(1) by simp
  show ?case
  proof (cases "ucast vc < n \<and> b < get_vc_available_capacity (ms ! i) vc")
    case True
    then have pos: "0 < get_vc_available_capacity (ms ! i) vc" using le_less_trans [OF word_zero_le] by blast
    have "best_port n vc (Suc i) (get_vc_available_capacity (ms ! i) vc) (Some i) (drop (Suc i) ms) = (room, Some p)"
      using Suc.prems(1) True step by simp
    from Suc.hyps(1) [OF d(2) this] pos d(3) show ?thesis by blast
  next
    case False
    have "best_port n vc (Suc i) b sel (drop (Suc i) ms) = (room, Some p)"
      using Suc.prems(1) unfolding step if_not_P [OF False] .
    from Suc.hyps(1) [OF d(2) this Suc.prems(2)] show ?thesis .
  qed
qed

definition client_ok :: "client_world \<Rightarrow> bool" where
  "client_ok w \<longleftrightarrow> sizes_ok (cl_transaction_size (cw_client w)) (cl_max_burst (cw_client w)) (cl_header_size (cw_client w)) \<and>
     (\<forall>m\<in>set (cw_ports w). qm_header_size m \<le> cl_header_size (cw_client w)) \<and>
     cl_vc_num (cw_client w) \<le> 255 \<and> (\<forall>d\<in>fst ` set (cl_queues (cw_client w)). snd d AND 3 = snd d) \<and>
     (\<forall>d. \<forall>e\<in>set (dest_items (dest_of (cw_client w) d)).
        length (tr_payload (snd e)) = unat (cl_transaction_size (cw_client w)))"

definition per_packet :: "sue_client \<Rightarrow> nat" where
  "per_packet c = unat (cl_max_burst c) div unat (cl_transaction_size c)"

text \<open>No queue needs more than 255 packets.\<close>

definition short_queues :: "sue_client \<Rightarrow> bool" where
  "short_queues c \<longleftrightarrow> (\<forall>d. length (dest_items (dest_of c d)) div per_packet c \<le> 254)"

lemma packed_fits_room:
  assumes ok: "client_ok w" and p: "packed (per_packet (cw_client w)) ps bs"
    and ps: "\<forall>p\<in>set ps. length p = unat (cl_transaction_size (cw_client w))"
    and a: "planned (cl_transaction_size (cw_client w)) (cl_max_burst (cw_client w)) (cl_header_size (cw_client w)) room a"
      "length ps \<le> a" and m: "m \<in> set (cw_ports w)"
    and vc: "snd d AND 3 = snd d"
  defines "f \<equiv> \<lambda>b. length (bp_payload b) + (8 + unat (cl_header_size (cw_client w)))"
  shows "(\<forall>b\<in>set (map (create_combined_packet psn d) bs).
      bp_vc b = snd d \<and> unat (bp_size b + qm_header_size m) \<le> f b) \<and>
    (\<Sum>b\<leftarrow>map (create_combined_packet psn d) bs. f b) \<le> unat room"
proof (intro conjI)
  let ?c = "cw_client w" and ?k = "per_packet (cw_client w)"
  let ?t = "unat (cl_transaction_size (cw_client w))"
  have s: "0 < ?t" "?t \<le> unat (cl_max_burst ?c)" "unat (cl_max_burst ?c) + ?t + unat (cl_header_size ?c) + 8 < 2 ^ 32"
    using ok by (simp_all add: client_ok_def sizes_ok_def unat_gt_0 word_le_nat_alt)
  then have k: "0 < ?k" by (simp add: per_packet_def div_greater_zero_iff)
  have h: "unat (qm_header_size m) \<le> unat (cl_header_size ?c)"
    using ok m by (simp add: client_ok_def word_le_nat_alt)
  have "bp_vc (create_combined_packet psn d b) = snd d \<and>
      unat (bp_size (create_combined_packet psn d b) + qm_header_size m) \<le> f (create_combined_packet psn d b)"
    if b: "b \<in> set bs" for b
  proof -
    have "packed ?k b [b]" using p b k by (auto simp: packed_def)
    moreover have "\<forall>x\<in>set b. length x = ?t" using p ps b by (auto simp: packed_def)
    ultimately have l: "length (concat b) = length b * ?t" using packed_bytes by fastforce
    have "length b * ?t \<le> ?k * ?t" using p b by (simp add: packed_def)
    also have "\<dots> \<le> unat (cl_max_burst ?c)" unfolding per_packet_def by (rule div_times_less_eq_dividend)
    finally have le: "length (concat b) \<le> unat (cl_max_burst ?c)" by (simp only: l)
    then have u: "unat (of_nat (length (concat b)) :: u32) = length (concat b)"
      using s(3) by (simp only: unat_of_nat take_bit_eq_mod) simp
    have "unat (bp_size (create_combined_packet psn d b) + qm_header_size m) \<le>
        length (concat b) + 8 + unat (qm_header_size m)"
      using u le h s(3) by (simp add: bp_size_def create_combined_packet_def sue_header_size_def unat_word_ariths)
    then show ?thesis using h vc by (simp add: f_def create_combined_packet_def)
  qed
  then show "\<forall>b\<in>set (map (create_combined_packet psn d) bs).
      bp_vc b = snd d \<and> unat (bp_size b + qm_header_size m) \<le> f b" by simp
  have "(\<Sum>b\<leftarrow>map (create_combined_packet psn d) bs. f b) =
      (\<Sum>b\<leftarrow>bs. length (concat b)) + length bs * (8 + unat (cl_header_size ?c))"
    by (simp add: f_def create_combined_packet_def comp_def sum_list_addf sum_list_triv algebra_simps)
  then show "(\<Sum>b\<leftarrow>map (create_combined_packet psn d) bs. f b) \<le> unat room"
    using packed_room [OF a(1) p [unfolded per_packet_def] a(2) k [unfolded per_packet_def]] packed_bytes [OF p ps] by simp
qed

lemma items_of_size:
  assumes "client_ok w" "t \<in> set (map snd (dest_items (dest_of (cw_client w) d)))"
  shows "length (tr_payload t) = unat (cl_transaction_size (cw_client w))"
proof -
  from assms(2) obtain e where "e \<in> set (dest_items (dest_of (cw_client w) d))" "t = snd e" by auto
  with assms(1) show ?thesis unfolding client_ok_def by blast
qed

lemma smart_packing_client:
  assumes ok: "client_ok w"
  shows "packed (per_packet (cw_client w)) (map tr_payload (take n (map snd (dest_items (dest_of (cw_client w) d)))))
    (smart_packing (cl_transaction_size (cw_client w)) (cl_max_burst (cw_client w)) n
       (map snd (dest_items (dest_of (cw_client w) d))) [] 0)"
proof -
  have s: "sizes_ok (cl_transaction_size (cw_client w)) (cl_max_burst (cw_client w)) (cl_header_size (cw_client w))"
    using ok by (simp add: client_ok_def)
  show ?thesis unfolding per_packet_def
    using packing_spec [OF s, of "map snd (dest_items (dest_of (cw_client w) d))" 0 "[]" n] items_of_size [OF ok]
    by simp
qed

lemma round_length:
  assumes p: "packed k (map tr_payload (take n items)) bs" and l: "length items \<le> m" and k: "0 < k"
  shows "length bs \<le> m div k + 1"
proof (cases "bs = []")
  case False
  then have "(length bs - 1) * k < m" using p l by (auto simp: packed_def)
  then have "length bs - 1 \<le> m div k" using k by (simp add: less_eq_div_iff_mult_less_eq)
  then show ?thesis by simp
qed simp

lemma per_packet_pos: "client_ok w \<Longrightarrow> 0 < per_packet (cw_client w)"
  by (auto simp: client_ok_def sizes_ok_def per_packet_def div_greater_zero_iff word_le_nat_alt unat_gt_0)

lemma selected_queue:
  "select_queue now best sel qs = Some d \<Longrightarrow> sel = Some d \<or> d \<in> fst ` set qs"
  by (induction now best sel qs rule: select_queue.induct) (force split: list.splits if_splits)+

text \<open>
  What one scheduling event does: nothing, or the first transactions of one queue are packed, in order,
  into pending packets for it.
\<close>

definition packing_round :: "ns \<Rightarrow> client_world \<Rightarrow> client_world \<Rightarrow> bool" where
  "packing_round now w w' \<longleftrightarrow> (\<exists>d n bs ps.
     packed (per_packet (cw_client w)) (map tr_payload (take n (map snd (dest_items (dest_of (cw_client w) d))))) bs \<and>
     cw_pending w' = cw_pending w @ ps \<and>
     map ps_burst ps = map (create_combined_packet (cl_psn (cw_client w)) d) bs \<and>
     (\<forall>p\<in>set ps. ps_dest p = d) \<and>
     map ps_due ps = sends_at now (cl_packing_delay (cw_client w)) 0 (length ps))"

lemma packets_round:
  fixes w d port n
  defines "items \<equiv> map snd (dest_items (dest_of (cw_client w) d))"
  defines "bs \<equiv> smart_packing (cl_transaction_size (cw_client w)) (cl_max_burst (cw_client w)) n items [] 0"
  assumes ok: "client_ok w" and port: "port < length (cw_ports w)"
    "0 < get_vc_available_capacity (cw_ports w ! port) (snd d)"
    and a: "planned (cl_transaction_size (cw_client w)) (cl_max_burst (cw_client w)) (cl_header_size (cw_client w))
      (get_vc_available_capacity (cw_ports w ! port) (snd d)) a" "n \<le> a"
    and d: "snd d AND 3 = snd d"
  shows "\<exists>w'. schedule_packets now True 0 d port (map (create_combined_packet (cl_psn (cw_client w)) d) bs) w = Some w' \<and>
    cw_client w' = cw_client w \<and> map qm_header_size (cw_ports w') = map qm_header_size (cw_ports w) \<and> packing_round now w w'"
proof -
  let ?c = "cw_client w"
  have p: "packed (per_packet ?c) (map tr_payload (take n items)) bs"
    unfolding bs_def items_def by (rule smart_packing_client [OF ok])
  have len: "\<forall>x\<in>set (map tr_payload (take n items)). length x = unat (cl_transaction_size ?c)"
  proof
    fix x assume "x \<in> set (map tr_payload (take n items))"
    then obtain t where "t \<in> set (take n items)" "x = tr_payload t" by (metis image_iff list.set_map)
    with items_of_size [OF ok in_set_takeD [of t n, folded items_def]] show "length x = unat (cl_transaction_size ?c)"
      by (simp add: items_def)
  qed
  have le: "length (map tr_payload (take n items)) \<le> a" using a(2) by simp
  have vc: "snd d < qm_num_vcs (cw_ports w ! port)"
    using port(2) by (auto simp: get_vc_available_capacity_def not_le split: if_splits)
  note f = packed_fits_room [OF ok p len a(1) le nth_mem [OF port(1)] d, of "cl_psn ?c"]
  from schedule_packets_fits [OF conjunct1 [OF f] conjunct2 [OF f] vc port(1), of now 0 d]
  obtain w' ps where w': "schedule_packets now True 0 d port (map (create_combined_packet (cl_psn ?c) d) bs) w = Some w'"
      "cw_client w' = ?c" "map qm_header_size (cw_ports w') = map qm_header_size (cw_ports w)"
      "cw_pending w' = cw_pending w @ ps" "map ps_burst ps = map (create_combined_packet (cl_psn ?c) d) bs"
      "\<forall>p\<in>set ps. ps_dest p = d" "map ps_due ps = sends_at now (cl_packing_delay ?c) 0 (length bs)"
    by (simp only: length_map) blast
  have "length ps = length bs" using arg_cong [OF w'(5), of length] by simp
  then have "map ps_due ps = sends_at now (cl_packing_delay ?c) 0 (length ps)" using w'(7) by simp
  then have "packing_round now w w'" unfolding packing_round_def using p [unfolded items_def] w'(4-6) by blast
  then show ?thesis using w'(1-3) by blast
qed

lemma few_packets:
  assumes "client_ok w" "short_queues (cw_client w)"
  shows "\<not> 255 < length (smart_packing (cl_transaction_size (cw_client w)) (cl_max_burst (cw_client w)) n
    (map snd (dest_items (dest_of (cw_client w) d))) [] 0)"
proof -
  let ?items = "map snd (dest_items (dest_of (cw_client w) d))"
  have "length ?items div per_packet (cw_client w) \<le> 254"
    using assms(2) unfolding short_queues_def length_map by blast
  with round_length [OF smart_packing_client [OF assms(1), of n d] order_refl per_packet_pos [OF assms(1)]]
  show ?thesis by linarith
qed

lemma schedule_spec:
  assumes ok: "client_ok w" "short_queues (cw_client w)"
  shows "\<exists>w'. schedule_next_send now True w = Some w' \<and> cw_client w' = cw_client w \<and>
    map qm_header_size (cw_ports w') = map qm_header_size (cw_ports w) \<and> (w' = w \<or> packing_round now w w')"
proof -
  let ?c = "cw_client w"
  have n: "\<not> 255 < cl_vc_num ?c" using ok(1) by (simp add: client_ok_def not_less)
  show ?thesis
  proof (cases "select_queue now 0 None (cl_queues ?c)")
    case None
    then show ?thesis by (simp add: schedule_next_send_def)
  next
    case (Some d)
    have d: "snd d AND 3 = snd d" using selected_queue [OF Some] ok(1) by (auto simp: client_ok_def)
    show ?thesis
    proof (cases "cw_ports w = [] \<or> snd (best_port (cl_vc_num ?c) (snd d) 0 0 None (cw_ports w)) = None")
      case True
      then show ?thesis
        using Some n by (cases "best_port (cl_vc_num ?c) (snd d) 0 0 None (cw_ports w)")
          (auto simp: schedule_next_send_def Let_def)
    next
      case False
      then obtain room port where b: "best_port (cl_vc_num ?c) (snd d) 0 0 None (cw_ports w) = (room, Some port)"
        by (metis option.exhaust prod.collapse)
      have port: "port < length (cw_ports w)"
          "room = get_vc_available_capacity (cw_ports w ! port) (snd d)" "0 < room"
        using best_port_spec [of _ _ 0, simplified, OF b] by blast+
      have sizes: "sizes_ok (cl_transaction_size ?c) (cl_max_burst ?c) (cl_header_size ?c)"
        using ok(1) by (simp add: client_ok_def)
      have "unat (0::u32) + unat room < 2 ^ 32" using unsigned_less [of room, where ?'a = nat] by simp
      from plan_fits [OF sizes this] obtain a left where
        pl: "plan_transactions (cl_transaction_size ?c) (cl_max_burst ?c) (cl_header_size ?c) room 0 = Some (of_nat a, left)"
          "planned (cl_transaction_size ?c) (cl_max_burst ?c) (cl_header_size ?c) room a" "a < 2 ^ 32"
        by (simp only: unsigned_0 add_0) blast
      define n where "n = unat (min (of_nat a) (of_nat (length (map snd (dest_items (dest_of ?c d))))) :: u32)"
      have "n \<le> a" using pl(3) by (simp add: n_def min_def word_le_nat_alt unat_of_nat take_bit_eq_mod)
      from packets_round [OF ok(1) port(1) port(3) [unfolded port(2)] pl(2) [unfolded port(2)] this d, of now] show ?thesis
        using Some False b pl(1) n few_packets [OF ok, of n d]
        by (auto simp: schedule_next_send_def Let_def n_def split: if_splits)
    qed
  qed
qed

text \<open>
  C28: With transactions of the configured size, a positive transaction size that fits a burst, sums
  that fit 32 bits, at most 255 virtual channels, queues of at most 255 packets and a planning header
  no smaller than the ports', a scheduling event always ends: the planning loop terminates from every
  amount of free room, and every reservation that the code asserts succeeds.
\<close>

theorem scheduling_never_aborts:
  assumes "client_ok w" "short_queues (cw_client w)"
  shows "\<exists>w'. schedule_next_send now True w = Some w' \<and> cw_client w' = cw_client w"
  using schedule_spec [OF assms] by blast

end
