(* ===== verification/SueRuns.thy ===== *)
theory SueRuns
  imports SuePacking
begin

text \<open>
  Runs of the SUE client: as long as the packets of one scheduling event leave before the next, every
  destination's transactions leave once and in order; with the default delays they need not.
\<close>

section \<open>Queues of the destinations\<close>

definition queue_of :: "client_run \<Rightarrow> destination \<Rightarrow> u8 list list" where
  "queue_of r d = map (tr_payload \<circ> snd) (dest_items (dest_of (cw_client (cr_world r)) d))"

lemma dest_of_put [simp]:
  "dest_of (c\<lparr>cl_queues := map_put d q (cl_queues c)\<rparr>) d' = (if d' = d then q else dest_of c d')"
  by (simp add: dest_of_def)

lemma dest_of_more [simp]:
  "dest_of (c\<lparr>cl_psn := p, cl_packets_sent := n\<rparr>) = dest_of c"
  by (simp add: dest_of_def fun_eq_iff)

lemma dest_of_add:
  "dest_of (add_transaction now t xpu c) d =
    (if d = (xpu, tr_vc t) \<and> accepts t xpu c
     then \<lparr>dest_items = dest_items (dest_of c d) @ [(now, t)], dest_bytes = dest_bytes (dest_of c d) + tr_size t\<rparr>
     else dest_of c d)"
  by (auto simp: add_transaction_def accepts_def Let_def)

lemma items_pop: "dest_items (pop_items n q) = drop n (dest_items q)"
  by (induction n q rule: pop_items.induct) (auto split: list.splits)

lemma dest_of_pop: "dest_of (pop_transactions d n c) d' = (if d' = d then pop_items (unat n) (dest_of c d) else dest_of c d')"
proof (cases "map_of (cl_queues c) d")
  case None
  have "pop_items m \<lparr>dest_items = [], dest_bytes = 0\<rparr> = \<lparr>dest_items = [], dest_bytes = 0\<rparr>" for m
    by (cases m) simp_all
  then show ?thesis using None by (simp add: pop_transactions_def dest_of_def)
next
  case (Some q)
  then have "dest_of c d = q" by (simp add: dest_of_def)
  then show ?thesis using Some by (simp add: pop_transactions_def)
qed

text \<open>The configuration of a client: what no operation changes.\<close>

definition same_configuration :: "sue_client \<Rightarrow> sue_client \<Rightarrow> bool" where
  "same_configuration c c' \<longleftrightarrow> cl_max_burst c' = cl_max_burst c \<and> cl_vc_num c' = cl_vc_num c \<and>
     cl_dest_limit c' = cl_dest_limit c \<and> cl_packing_delay c' = cl_packing_delay c \<and> cl_interval c' = cl_interval c \<and>
     cl_transaction_size c' = cl_transaction_size c \<and> cl_header_size c' = cl_header_size c"

lemma configuration_kept [simp]:
  "same_configuration c c" "same_configuration c (add_transaction now t xpu c)"
  "same_configuration c (pop_transactions d n (c\<lparr>cl_psn := p, cl_packets_sent := s\<rparr>))"
  by (auto simp: same_configuration_def add_transaction_def pop_transactions_def Let_def split: option.split)

section \<open>The pace of a client\<close>

text \<open>
  The most transactions a destination queue holds, and the condition that all packets of a full
  queue leave within one scheduling interval.
\<close>

definition capacity :: "sue_client \<Rightarrow> nat" where
  "capacity c = unat (cl_dest_limit c) div (unat (cl_transaction_size c) + 8)"

definition paced :: "sue_client \<Rightarrow> bool" where
  "paced c \<longleftrightarrow> 0 \<le> cl_packing_delay c \<and> 0 < cl_interval c \<and>
     cl_packing_delay c * (int (capacity c div per_packet c) + 1) < cl_interval c \<and>
     capacity c div per_packet c \<le> 254 \<and> unat (cl_dest_limit c) + unat (cl_transaction_size c) + 8 < 2 ^ 32"

text \<open>A queue's byte count is right, and the count keeps it within the limit.\<close>

definition counted :: "sue_client \<Rightarrow> dest_queue \<Rightarrow> bool" where
  "counted c q \<longleftrightarrow> dest_bytes q = of_nat (length (dest_items q) * (unat (cl_transaction_size c) + 8)) \<and>
     length (dest_items q) * (unat (cl_transaction_size c) + 8) \<le> unat (cl_dest_limit c)"

lemma counted_capacity: "counted c q \<Longrightarrow> length (dest_items q) \<le> capacity c"
  by (simp add: counted_def capacity_def less_eq_div_iff_mult_less_eq)

lemma sized:
  assumes "length (tr_payload t) = unat (cl_transaction_size c)"
  shows "tr_size t = of_nat (unat (cl_transaction_size c) + 8)"
  using assms by (simp add: tr_size_def sue_header_size_def)

lemma counted_add:
  assumes "counted c q" "paced c" "length (tr_payload t) = unat (cl_transaction_size c)"
    "\<not> cl_dest_limit c < dest_bytes q + tr_size t"
  shows "counted c \<lparr>dest_items = dest_items q @ [(now, t)], dest_bytes = dest_bytes q + tr_size t\<rparr>"
proof -
  let ?s = "unat (cl_transaction_size c) + 8"
  have b: "dest_bytes q + tr_size t = of_nat (Suc (length (dest_items q)) * ?s)"
    using assms(1) sized [OF assms(3)] by (simp only: counted_def of_nat_add [symmetric] mult_Suc add.commute)
  have "Suc (length (dest_items q)) * ?s < 2 ^ 32"
    using assms(1,2) by (auto simp: counted_def paced_def)
  then have "unat (dest_bytes q + tr_size t) = Suc (length (dest_items q)) * ?s"
    unfolding b by (simp only: unat_of_nat take_bit_eq_mod) simp
  then show ?thesis using assms(4) b by (simp add: counted_def not_less word_le_nat_alt)
qed

lemma counted_pop:
  assumes "counted c q" "\<forall>e\<in>set (dest_items q). length (tr_payload (snd e)) = unat (cl_transaction_size c)"
  shows "counted c (pop_items n q)"
  using assms
proof (induction n q rule: pop_items.induct)
  case (2 n q)
  show ?case
  proof (cases "dest_items q")
    case Nil
    then show ?thesis using "2.prems"(1) by simp
  next
    case (Cons e es)
    have "tr_size (snd e) = of_nat (unat (cl_transaction_size c) + 8)"
      using "2.prems"(2) Cons by (intro sized) simp
    then have "counted c \<lparr>dest_items = es, dest_bytes = dest_bytes q - tr_size (snd e)\<rparr>"
      using "2.prems"(1) Cons by (auto simp: counted_def)
    then show ?thesis using "2.IH" [OF Cons] "2.prems"(2) Cons by simp
  qed
qed simp

section \<open>The invariant\<close>

text \<open>
  The packets that wait to be sent are the first transactions of one queue, in order; what was sent
  to a destination and what is queued for it are together what was accepted for it.
\<close>

definition front_pending :: "client_run \<Rightarrow> bool" where
  "front_pending r \<longleftrightarrow> (\<exists>d bs rest. (\<forall>p\<in>set (cw_pending (cr_world r)). ps_dest p = d) \<and>
     map (bp_payload \<circ> ps_burst) (cw_pending (cr_world r)) = map concat bs \<and>
     (\<forall>b\<in>set bs. b \<noteq> [] \<and> length b \<le> per_packet (cw_client (cr_world r))) \<and>
     queue_of r d = concat bs @ rest)"

definition timely :: "client_run \<Rightarrow> bool" where
  "timely r \<longleftrightarrow> (\<forall>p\<in>set (cw_pending (cr_world r)). ps_due p < cr_tick r \<and> fst (ps_dest p) \<noteq> 0xFFFFFFFF) \<and>
     sorted (map ps_due (cw_pending (cr_world r)))"

definition queues_ok :: "client_run \<Rightarrow> bool" where
  "queues_ok r \<longleftrightarrow> (\<forall>d. counted (cw_client (cr_world r)) (dest_of (cw_client (cr_world r)) d)) \<and>
     (\<forall>d\<in>fst ` set (cl_queues (cw_client (cr_world r))). fst d \<noteq> 0xFFFFFFFF)"

definition settled :: "client_run \<Rightarrow> bool" where
  "settled r \<longleftrightarrow> (\<forall>d. cr_sent r d @ concat (queue_of r d) = cr_accepted r d)"

definition run_ok :: "client_run \<Rightarrow> bool" where
  "run_ok r \<longleftrightarrow> client_ok (cr_world r) \<and> paced (cw_client (cr_world r)) \<and> queues_ok r \<and> timely r \<and>
     front_pending r \<and> settled r"

lemma queue_after_arrival:
  "queue_of (arrival t tr xpu r) d = queue_of r d @
    (if d = (xpu, tr_vc tr) \<and> accepts tr xpu (cw_client (cr_world r)) then [tr_payload tr] else [])"
  by (simp add: queue_of_def arrival_def dest_of_add)

lemma arrival_client:
  "cw_client (cr_world (arrival t tr xpu r)) = add_transaction t tr xpu (cw_client (cr_world r))"
  "cw_ports (cr_world (arrival t tr xpu r)) = cw_ports (cr_world r)"
  "cw_pending (cr_world (arrival t tr xpu r)) = cw_pending (cr_world r)"
  "cr_tick (arrival t tr xpu r) = cr_tick r" "cr_sent (arrival t tr xpu r) = cr_sent r"
  by (simp_all add: arrival_def)

lemma add_configuration:
  "cl_max_burst (add_transaction t tr xpu c) = cl_max_burst c" "cl_vc_num (add_transaction t tr xpu c) = cl_vc_num c"
  "cl_dest_limit (add_transaction t tr xpu c) = cl_dest_limit c"
  "cl_packing_delay (add_transaction t tr xpu c) = cl_packing_delay c"
  "cl_interval (add_transaction t tr xpu c) = cl_interval c"
  "cl_transaction_size (add_transaction t tr xpu c) = cl_transaction_size c"
  "cl_header_size (add_transaction t tr xpu c) = cl_header_size c"
  "fst ` set (cl_queues (add_transaction t tr xpu c)) = insert (xpu, tr_vc tr) (fst ` set (cl_queues c))"
  by (simp_all add: add_transaction_def Let_def keys_put)

lemma settled_arrival:
  assumes "settled r"
  shows "settled (arrival t tr xpu r)"
proof -
  have "cr_accepted (arrival t tr xpu r) d = cr_accepted r d @
      (if d = (xpu, tr_vc tr) \<and> accepts tr xpu (cw_client (cr_world r)) then tr_payload tr else [])" for d
    by (simp add: arrival_def)
  then show ?thesis using assms
    unfolding settled_def arrival_client queue_after_arrival by (simp flip: append_assoc)
qed

lemma front_arrival:
  assumes "front_pending r"
  shows "front_pending (arrival t tr xpu r)"
  using assms unfolding front_pending_def arrival_client queue_after_arrival per_packet_def add_configuration
  by (metis append_assoc)

lemma client_ok_arrival:
  assumes "client_ok (cr_world r)" "offered tr xpu (cw_client (cr_world r))"
  shows "client_ok (cr_world (arrival t tr xpu r))"
  using assms unfolding client_ok_def arrival_client add_configuration offered_def
  by (auto simp: dest_of_add)

lemma queues_ok_arrival:
  assumes "queues_ok r" "paced (cw_client (cr_world r))" "offered tr xpu (cw_client (cr_world r))"
  shows "queues_ok (arrival t tr xpu r)"
proof -
  have c: "counted (add_transaction t tr xpu c) q = counted c q" for c q
    by (simp add: counted_def add_configuration)
  have "counted (cw_client (cr_world r)) (dest_of (add_transaction t tr xpu (cw_client (cr_world r))) d)" for d
  proof (cases "d = (xpu, tr_vc tr) \<and> accepts tr xpu (cw_client (cr_world r))")
    case True
    then show ?thesis using assms by (auto simp: dest_of_add queues_ok_def accepts_def offered_def intro!: counted_add)
  next
    case False
    then show ?thesis using assms(1) unfolding dest_of_add queues_ok_def if_not_P [OF False] by blast
  qed
  then show ?thesis using assms unfolding queues_ok_def arrival_client c add_configuration offered_def by auto
qed

lemma run_ok_arrival:
  assumes "run_ok r" "offered tr xpu (cw_client (cr_world r))"
  shows "run_ok (arrival t tr xpu r)"
proof -
  have "paced (add_transaction t tr xpu c) = paced c" for c
    by (simp add: paced_def capacity_def per_packet_def add_configuration)
  moreover have "timely (arrival t tr xpu r) = timely r" by (simp add: timely_def arrival_client)
  ultimately show ?thesis
    using assms client_ok_arrival queues_ok_arrival front_arrival settled_arrival
    by (simp add: run_ok_def arrival_client)
qed

section \<open>Scheduling\<close>

text \<open>A scheduling event finds nothing pending, so its own packets are the only ones.\<close>

lemma timely_tick:
  assumes "timely r" "\<forall>p\<in>set (cw_pending (cr_world r)). cr_tick r \<le> ps_due p"
  shows "cw_pending (cr_world r) = []"
  using assms by (cases "cw_pending (cr_world r)") (auto simp: timely_def)

lemma sends_within:
  assumes "n \<le> m" "0 \<le> delay" "t \<in> set (sends_at now delay 0 n)"
  shows "t \<le> now + delay * int m"
proof -
  from assms(3) obtain j where "t = now + delay * (int j + 1)" "j \<in> set [0..<0 + n]"
    unfolding sends_at_def set_map by blast
  then have j: "t = now + delay * (int j + 1)" "j < n" by simp_all
  have "delay * (int j + 1) \<le> delay * int m" using j(2) assms(1,2) by (intro mult_left_mono) auto
  then show ?thesis using j(1) by simp
qed

lemma sends_sorted: "0 \<le> delay \<Longrightarrow> sorted (sends_at now delay i n)"
  by (auto simp: sends_at_def sorted_map intro!: sorted_wrt_mono_rel [OF _ sorted_upt] mult_left_mono)

text \<open>What a scheduling event leaves unchanged.\<close>

lemma tick_world:
  assumes "tick r = Some r'" "client_ok (cr_world r)" "short_queues (cw_client (cr_world r))"
  shows "cw_client (cr_world r') = cw_client (cr_world r)" "client_ok (cr_world r')"
    "cr_tick r' = cr_tick r + cl_interval (cw_client (cr_world r))" "cr_sent r' = cr_sent r" "cr_accepted r' = cr_accepted r"
    "cr_world r' = cr_world r \<or> packing_round (cr_tick r) (cr_world r) (cr_world r')"
proof -
  obtain w where w: "schedule_next_send (cr_tick r) True (cr_world r) = Some w" "cw_client w = cw_client (cr_world r)"
      "map qm_header_size (cw_ports w) = map qm_header_size (cw_ports (cr_world r))"
      "w = cr_world r \<or> packing_round (cr_tick r) (cr_world r) w"
    using schedule_spec [OF assms(2,3)] by blast
  have r': "r' = r\<lparr>cr_now := cr_tick r, cr_tick := cr_tick r + cl_interval (cw_client w), cr_world := w\<rparr>"
    using assms(1) w(1) by (simp add: tick_def)
  have h: "qm_header_size ` set (cw_ports w) = qm_header_size ` set (cw_ports (cr_world r))"
    using arg_cong [OF w(3), of set] by simp
  have "\<forall>x\<in>qm_header_size ` set (cw_ports w). x \<le> cl_header_size (cw_client (cr_world r))"
    unfolding h using assms(2) by (simp add: client_ok_def)
  then have "\<forall>m\<in>set (cw_ports w). qm_header_size m \<le> cl_header_size (cw_client (cr_world r))" by blast
  then have "client_ok w" using assms(2) unfolding client_ok_def w(2) by blast
  then show "cw_client (cr_world r') = cw_client (cr_world r)" "client_ok (cr_world r')"
    "cr_tick r' = cr_tick r + cl_interval (cw_client (cr_world r))" "cr_sent r' = cr_sent r" "cr_accepted r' = cr_accepted r"
    "cr_world r' = cr_world r \<or> packing_round (cr_tick r) (cr_world r) (cr_world r')"
    using w(2,4) by (simp_all add: r')
qed

lemma queue_same: "cw_client (cr_world r') = cw_client (cr_world r) \<Longrightarrow> queue_of r' = queue_of r"
  by (simp add: queue_of_def fun_eq_iff)

lemma round_front:
  assumes e: "cw_pending (cr_world r) = []" and c: "cw_client (cr_world r') = cw_client (cr_world r)"
    and w: "packing_round t (cr_world r) (cr_world r')"
  shows "front_pending r'"
proof -
  let ?c = "cw_client (cr_world r)"
  obtain d n bs ps where b: "packed (per_packet ?c) (map tr_payload (take n (map snd (dest_items (dest_of ?c d))))) bs"
      "cw_pending (cr_world r') = ps" "map ps_burst ps = map (create_combined_packet (cl_psn ?c) d) bs"
      "\<forall>p\<in>set ps. ps_dest p = d"
    using w e unfolding packing_round_def by auto
  have "queue_of r' d = concat bs @ drop n (queue_of r' d)"
    using b(1) c by (simp add: packed_def queue_of_def take_map drop_map comp_def flip: map_append)
  moreover have "map (bp_payload \<circ> ps_burst) ps = map concat bs"
    using arg_cong [OF b(3), of "map bp_payload"] by (simp add: create_combined_packet_def comp_def)
  moreover have "\<forall>b\<in>set bs. b \<noteq> [] \<and> length b \<le> per_packet ?c" using b(1) by (simp add: packed_def)
  ultimately show ?thesis using b(2,4) unfolding front_pending_def c by blast
qed

lemma round_timely:
  assumes e: "cw_pending (cr_world r) = []" and ok: "client_ok (cr_world r)" "paced (cw_client (cr_world r))" "queues_ok r"
    and w: "packing_round (cr_tick r) (cr_world r) (cr_world r')"
    and t: "cr_tick r' = cr_tick r + cl_interval (cw_client (cr_world r))"
  shows "timely r'"
proof -
  let ?c = "cw_client (cr_world r)"
  let ?m = "capacity ?c div per_packet ?c + 1"
  obtain d n bs ps where b: "packed (per_packet ?c) (map tr_payload (take n (map snd (dest_items (dest_of ?c d))))) bs"
      "cw_pending (cr_world r') = ps" "map ps_burst ps = map (create_combined_packet (cl_psn ?c) d) bs"
      "\<forall>p\<in>set ps. ps_dest p = d" "map ps_due ps = sends_at (cr_tick r) (cl_packing_delay ?c) 0 (length ps)"
    using w e unfolding packing_round_def by auto
  have delay: "0 \<le> cl_packing_delay ?c" "cl_packing_delay ?c * int ?m < cl_interval ?c"
    using ok(2) by (simp_all add: paced_def add.commute)
  have "counted ?c (dest_of ?c d)" using ok(3) unfolding queues_ok_def by blast
  then have "length (map snd (dest_items (dest_of ?c d))) \<le> capacity ?c" by (simp add: counted_capacity)
  then have "length bs \<le> ?m" by (rule round_length [OF b(1) _ per_packet_pos [OF ok(1)]])
  then have m: "length ps \<le> ?m" using arg_cong [OF b(3), of length] by simp
  have due: "ps_due p < cr_tick r'" if "p \<in> set ps" for p
  proof -
    have "ps_due p \<in> set (sends_at (cr_tick r) (cl_packing_delay ?c) 0 (length ps))"
      unfolding b(5) [symmetric] using that by simp
    from sends_within [OF m delay(1) this] delay(2) t show ?thesis by linarith
  qed
  have "fst d \<noteq> 0xFFFFFFFF" if "ps \<noteq> []"
  proof -
    have "bs \<noteq> []" using that b(3) by auto
    then have "dest_items (dest_of ?c d) \<noteq> []" using b(1) by (cases bs) (auto simp: packed_def)
    then have "d \<in> fst ` set (cl_queues ?c)"
      by (auto simp: dest_of_def split: option.splits dest!: map_of_SomeD intro!: image_eqI)
    then show ?thesis using ok(3) unfolding queues_ok_def by blast
  qed
  moreover have "sorted (map ps_due ps)" unfolding b(5) by (rule sends_sorted [OF delay(1)])
  ultimately show ?thesis using due b(4) unfolding timely_def b(2) by (cases "ps = []") auto
qed

lemma short_queues:
  assumes "queues_ok r" "paced (cw_client (cr_world r))"
  shows "short_queues (cw_client (cr_world r))"
  unfolding short_queues_def
proof
  fix d
  have "counted (cw_client (cr_world r)) (dest_of (cw_client (cr_world r)) d)"
    using assms(1) unfolding queues_ok_def by blast
  from div_le_mono [OF counted_capacity [OF this]] assms(2)
  show "length (dest_items (dest_of (cw_client (cr_world r)) d)) div per_packet (cw_client (cr_world r)) \<le> 254"
    unfolding paced_def by (blast intro: order_trans)
qed

lemma run_ok_tick:
  assumes ok: "run_ok r" and t: "tick r = Some r'" and late: "\<forall>p\<in>set (cw_pending (cr_world r)). cr_tick r \<le> ps_due p"
  shows "run_ok r'"
proof -
  have r: "client_ok (cr_world r)" "paced (cw_client (cr_world r))" "queues_ok r" "timely r" "front_pending r" "settled r"
    using ok by (simp_all add: run_ok_def)
  note w = tick_world [OF t r(1) short_queues [OF r(3,2)]]
  have e: "cw_pending (cr_world r) = []" by (rule timely_tick [OF r(4) late])
  have "queues_ok r'" "settled r'" using r(3,6) queue_same [OF w(1)] w(1,4,5) by (simp_all add: queues_ok_def settled_def)
  moreover have "timely r' \<and> front_pending r'"
  proof (cases "packing_round (cr_tick r) (cr_world r) (cr_world r')")
    case True
    then show ?thesis using round_timely [OF e r(1-3) _ w(3)] round_front [OF e w(1)] by blast
  next
    case False
    then have "cw_pending (cr_world r') = []" using w(6) e by auto
    then show ?thesis by (auto simp: timely_def front_pending_def)
  qed
  ultimately show ?thesis using r(2) w(1,2) by (simp add: run_ok_def)
qed

section \<open>Sending\<close>

lemma packet_count:
  assumes ok: "sizes_ok tsize burst header" and b: "batch \<noteq> []" "\<forall>x\<in>set batch. length x = unat tsize"
    "length batch \<le> unat burst div unat tsize" "bp_payload p = concat batch"
  shows "unat (analyze_transaction_count tsize p) = length batch"
proof -
  have t: "0 < unat tsize" "unat burst + unat tsize < 2 ^ 32" using ok by (simp_all add: sizes_ok_def unat_gt_0)
  have l: "length (concat batch) = length batch * unat tsize"
    using b(2) by (induction batch) auto
  have le: "length batch * unat tsize \<le> unat burst" using b(3) t(1) by (simp add: less_eq_div_iff_mult_less_eq)
  let ?n = "of_nat (length (concat batch)) :: u32"
  have u: "unat ?n = length batch * unat tsize" unfolding l using le t(2) by (simp only: unat_of_nat take_bit_eq_mod) simp
  have pos: "0 < length batch" using b(1) by simp
  have "unat (?n + tsize - 1) = length batch * unat tsize + unat tsize - 1"
    using u t le by (subst unat_sub) (simp_all add: word_le_nat_alt unat_word_ariths)
  moreover have "(length batch * unat tsize + unat tsize - 1) div unat tsize = length batch"
    using t(1) by (intro div_nat_eqI) (auto simp: algebra_simps)
  ultimately have d: "unat ((?n + tsize - 1) div tsize) = length batch" by (simp add: unat_div)
  have "?n \<noteq> 0" using u pos t(1) by (metis mult_eq_0_iff nat_less_le unsigned_0)
  moreover have "1 \<le> (?n + tsize - 1) div tsize" using d pos by (simp add: word_le_nat_alt Suc_le_eq)
  ultimately show ?thesis using d b(4) by (simp add: analyze_transaction_count_def Let_def max_absorb1)
qed

lemma sending_client:
  assumes "fst (ps_dest p) \<noteq> 0xFFFFFFFF"
  shows "cw_client (cr_world (sending p qs r)) =
      pop_transactions (ps_dest p) (analyze_transaction_count (cl_transaction_size (cw_client (cr_world r))) (ps_burst p))
        ((cw_client (cr_world r))\<lparr>cl_psn := cl_psn (cw_client (cr_world r)) + 1,
           cl_packets_sent := cl_packets_sent (cw_client (cr_world r)) + 1\<rparr>)"
    "cw_pending (cr_world (sending p qs r)) = qs" "cr_tick (sending p qs r) = cr_tick r"
    "cr_accepted (sending p qs r) = cr_accepted r"
    "cr_sent (sending p qs r) = (cr_sent r)(ps_dest p := cr_sent r (ps_dest p) @ bp_payload (ps_burst p))"
  using assms by (simp_all add: sending_def do_send_burst_def update_port_def Let_def)

lemma release_header: "qm_header_size (release_vc_capacity vc n m) = qm_header_size m"
  by (simp add: release_vc_capacity_def Let_def split: option.split)

lemma sending_ports:
  "qm_header_size ` set (cw_ports (cr_world (sending p qs r))) = qm_header_size ` set (cw_ports (cr_world r))"
proof -
  have "map qm_header_size (cw_ports (cr_world (sending p qs r))) = map qm_header_size (cw_ports (cr_world r))"
    by (cases "ps_port p < length (cw_ports (cr_world r))")
      (simp_all add: sending_def do_send_burst_def update_port_def Let_def map_update list_update_same_conv list_update_beyond
        release_header)
  then show ?thesis by (metis list.set_map)
qed

lemma pop_configuration:
  "cl_max_burst (pop_transactions d n c) = cl_max_burst c" "cl_vc_num (pop_transactions d n c) = cl_vc_num c"
  "cl_dest_limit (pop_transactions d n c) = cl_dest_limit c"
  "cl_packing_delay (pop_transactions d n c) = cl_packing_delay c"
  "cl_interval (pop_transactions d n c) = cl_interval c"
  "cl_transaction_size (pop_transactions d n c) = cl_transaction_size c"
  "cl_header_size (pop_transactions d n c) = cl_header_size c"
  by (simp_all add: pop_transactions_def split: option.split)

lemma pop_keys: "fst ` set (cl_queues (pop_transactions d n c)) = fst ` set (cl_queues c)"
proof (cases "map_of (cl_queues c) d")
  case (Some q)
  then have "d \<in> fst ` set (cl_queues c)" by (metis domI dom_map_of_conv_image_fst)
  then show ?thesis using Some by (simp add: pop_transactions_def keys_put insert_absorb)
qed (simp add: pop_transactions_def)


text \<open>The packet at the front of the pending ones carries the first transactions of its queue.\<close>

lemma front_packet:
  assumes f: "front_pending r" and p: "cw_pending (cr_world r) = p # qs" and ok: "client_ok (cr_world r)"
  obtains b rest where "bp_payload (ps_burst p) = concat b" "queue_of r (ps_dest p) = b @ rest"
    "unat (analyze_transaction_count (cl_transaction_size (cw_client (cr_world r))) (ps_burst p)) = length b"
    "\<exists>bs more. (\<forall>q\<in>set qs. ps_dest q = ps_dest p) \<and> map (bp_payload \<circ> ps_burst) qs = map concat bs \<and>
       (\<forall>b\<in>set bs. b \<noteq> [] \<and> length b \<le> per_packet (cw_client (cr_world r))) \<and> rest = concat bs @ more"
proof -
  obtain d bs more where b: "\<forall>q\<in>set (p # qs). ps_dest q = d"
      "map (bp_payload \<circ> ps_burst) (p # qs) = map concat bs"
      "\<forall>b\<in>set bs. b \<noteq> [] \<and> length b \<le> per_packet (cw_client (cr_world r))" "queue_of r d = concat bs @ more"
    using f unfolding front_pending_def p by blast
  obtain b bs' where bs: "bs = b # bs'" using b(2) by (cases bs) auto
  have "set b \<subseteq> set (queue_of r d)" using b(4) bs by auto
  moreover have "length x = unat (cl_transaction_size (cw_client (cr_world r)))" if "x \<in> set (queue_of r d)" for x
  proof -
    from that obtain t where "t \<in> set (map snd (dest_items (dest_of (cw_client (cr_world r)) d)))" "x = tr_payload t"
      by (auto simp: queue_of_def)
    with items_of_size [OF ok] show ?thesis by blast
  qed
  ultimately have "\<forall>x\<in>set b. length x = unat (cl_transaction_size (cw_client (cr_world r)))" by blast
  moreover have "sizes_ok (cl_transaction_size (cw_client (cr_world r))) (cl_max_burst (cw_client (cr_world r)))
      (cl_header_size (cw_client (cr_world r)))" using ok by (simp add: client_ok_def)
  moreover have "b \<noteq> []" "length b \<le> per_packet (cw_client (cr_world r))" "bp_payload (ps_burst p) = concat b"
    using b(2,3) bs by simp_all
  ultimately have "unat (analyze_transaction_count (cl_transaction_size (cw_client (cr_world r))) (ps_burst p)) = length b"
    by (intro packet_count) (simp_all add: per_packet_def)
  moreover have "queue_of r (ps_dest p) = b @ (concat bs' @ more)" using b(1,4) bs by simp
  ultimately show thesis
    using that [of b "concat bs' @ more"] b(1-3) bs by auto
qed

lemma queue_after_sending:
  assumes "fst (ps_dest p) \<noteq> 0xFFFFFFFF"
  shows "queue_of (sending p qs r) d = (if d = ps_dest p then
    drop (unat (analyze_transaction_count (cl_transaction_size (cw_client (cr_world r))) (ps_burst p))) (queue_of r d)
    else queue_of r d)"
  by (simp add: queue_of_def sending_client(1) [OF assms] dest_of_pop items_pop drop_map)

lemma client_ok_sending:
  assumes "client_ok (cr_world r)" "fst (ps_dest p) \<noteq> 0xFFFFFFFF"
  shows "client_ok (cr_world (sending p qs r))"
proof -
  have hdr: "(\<forall>m\<in>A. qm_header_size m \<le> h) = (\<forall>x\<in>qm_header_size ` A. x \<le> h)" for A h by simp
  have "length (tr_payload (snd e)) = unat (cl_transaction_size (cw_client (cr_world r)))"
    if "e \<in> set (dest_items (dest_of (cw_client (cr_world (sending p qs r))) d))" for d e
  proof -
    have "e \<in> set (dest_items (dest_of (cw_client (cr_world r)) d))"
      using that by (auto simp: sending_client(1) [OF assms(2)] dest_of_pop items_pop split: if_splits dest: in_set_dropD)
    then show ?thesis using assms(1) unfolding client_ok_def by blast
  qed
  then show ?thesis using assms(1)
    unfolding client_ok_def hdr sending_ports sending_client(1) [OF assms(2)] pop_configuration pop_keys
    by simp
qed

lemma queues_ok_sending:
  assumes "queues_ok r" "client_ok (cr_world r)" "fst (ps_dest p) \<noteq> 0xFFFFFFFF"
  shows "queues_ok (sending p qs r)"
proof -
  have c: "counted (cw_client (cr_world (sending p qs r))) q = counted (cw_client (cr_world r)) q" for q
    by (simp add: counted_def sending_client(1) [OF assms(3)] pop_configuration)
  have "counted (cw_client (cr_world r)) (dest_of (cw_client (cr_world (sending p qs r))) d)" for d
  proof (cases "d = ps_dest p")
    case True
    have "counted (cw_client (cr_world r)) (dest_of (cw_client (cr_world r)) d)"
      using assms(1) unfolding queues_ok_def by blast
    moreover have "\<forall>e\<in>set (dest_items (dest_of (cw_client (cr_world r)) d)).
        length (tr_payload (snd e)) = unat (cl_transaction_size (cw_client (cr_world r)))"
      using assms(2) unfolding client_ok_def by blast
    ultimately show ?thesis using True by (simp add: sending_client(1) [OF assms(3)] dest_of_pop counted_pop)
  next
    case False
    then have "dest_of (cw_client (cr_world (sending p qs r))) d = dest_of (cw_client (cr_world r)) d"
      by (simp add: sending_client(1) [OF assms(3)] dest_of_pop)
    then show ?thesis using assms(1) unfolding queues_ok_def by metis
  qed
  then show ?thesis using assms(1)
    unfolding queues_ok_def c by (simp add: sending_client(1) [OF assms(3)] pop_keys)
qed

lemma run_ok_sending:
  assumes ok: "run_ok r" and p: "cw_pending (cr_world r) = p # qs"
  shows "run_ok (sending p qs r)"
proof -
  have r: "client_ok (cr_world r)" "paced (cw_client (cr_world r))" "queues_ok r" "timely r" "front_pending r" "settled r"
    using ok by (simp_all add: run_ok_def)
  have d: "fst (ps_dest p) \<noteq> 0xFFFFFFFF" using r(4) p by (simp add: timely_def)
  obtain b rest where b: "bp_payload (ps_burst p) = concat b" "queue_of r (ps_dest p) = b @ rest"
      "unat (analyze_transaction_count (cl_transaction_size (cw_client (cr_world r))) (ps_burst p)) = length b"
      "\<exists>bs more. (\<forall>q\<in>set qs. ps_dest q = ps_dest p) \<and> map (bp_payload \<circ> ps_burst) qs = map concat bs \<and>
         (\<forall>b\<in>set bs. b \<noteq> [] \<and> length b \<le> per_packet (cw_client (cr_world r))) \<and> rest = concat bs @ more"
    by (rule front_packet [OF r(5) p r(1)])
  have q: "queue_of (sending p qs r) d = (if d = ps_dest p then rest else queue_of r d)" for d
    using b(2,3) by (simp add: queue_after_sending [OF d])
  have "paced (cw_client (cr_world (sending p qs r)))" and k: "per_packet (cw_client (cr_world (sending p qs r))) =
      per_packet (cw_client (cr_world r))"
    using r(2) by (simp_all add: sending_client(1) [OF d] paced_def capacity_def per_packet_def pop_configuration)
  moreover have "timely (sending p qs r)" using r(4) p by (simp add: timely_def sending_client [OF d])
  moreover have "front_pending (sending p qs r)"
    using b(4) unfolding front_pending_def sending_client(2) [OF d] k by (metis q)
  moreover have "settled (sending p qs r)"
    unfolding settled_def sending_client(4,5) [OF d] q
  proof
    fix e
    have "cr_sent r e @ concat (queue_of r e) = cr_accepted r e" using r(6) unfolding settled_def by blast
    then show "((cr_sent r)(ps_dest p := cr_sent r (ps_dest p) @ bp_payload (ps_burst p))) e @
        concat (if e = ps_dest p then rest else queue_of r e) = cr_accepted r e"
      using b(1,2) by auto
  qed
  ultimately show ?thesis
    using client_ok_sending [OF r(1) d] queues_ok_sending [OF r(3,1) d] by (simp add: run_ok_def)
qed

lemma first_due:
  assumes "sorted (map ps_due (ps @ p # qs))" "\<forall>q\<in>set ps. ps_due p < ps_due q"
  shows "ps = []"
  using assms by (cases ps) auto

lemma run_ok_step:
  assumes "client_step r r'" "run_ok r"
  shows "run_ok r'"
  using assms
proof cases
  case (arrive tr xpu t)
  then show ?thesis using run_ok_arrival assms(2) by simp
next
  case schedule
  then show ?thesis using run_ok_tick assms(2) by blast
next
  case (send ps p qs)
  then have "ps = []" using first_due assms(2) by (auto simp: run_ok_def timely_def)
  then show ?thesis using send run_ok_sending assms(2) by simp
qed

definition start_run :: "sue_client \<Rightarrow> queue_manager list \<Rightarrow> client_run" where
  "start_run c ms = \<lparr>cr_now = 0, cr_tick = 0, cr_world = \<lparr>cw_client = c, cw_ports = ms, cw_pending = []\<rparr>,
     cr_accepted = (\<lambda>_. []), cr_sent = (\<lambda>_. [])\<rparr>"

definition well_configured :: "sue_client \<Rightarrow> queue_manager list \<Rightarrow> bool" where
  "well_configured c ms \<longleftrightarrow> cl_queues c = [] \<and>
     sizes_ok (cl_transaction_size c) (cl_max_burst c) (cl_header_size c) \<and>
     list_all (\<lambda>m. qm_header_size m \<le> cl_header_size c) ms \<and> cl_vc_num c \<le> 255"

lemma run_ok_start:
  assumes "well_configured c ms" "paced c"
  shows "run_ok (start_run c ms)"
  using assms by (simp add: run_ok_def well_configured_def start_run_def client_ok_def dest_of_def queues_ok_def counted_def
      timely_def front_pending_def settled_def queue_of_def list_all_iff)

lemma run_ok_reachable:
  assumes "rtranclp client_step (start_run c ms) r" "well_configured c ms" "paced c"
  shows "run_ok r"
  using assms(1)
proof (induction rule: rtranclp_induct)
  case base
  then show ?case by (rule run_ok_start [OF assms(2,3)])
next
  case (step r r')
  then show ?case by (blast intro: run_ok_step)
qed

text \<open>
  C29: When all packets of a full destination queue (at most 255) leave within one scheduling interval,
  the client sends, to every destination, exactly the transactions it accepted for it, once and in order: at any
  moment what was sent and what still waits in the queue make up what was accepted.
\<close>

theorem client_is_fifo:
  assumes "rtranclp client_step (start_run c ms) r" "well_configured c ms" "paced c"
  shows "cr_sent r d @ concat (queue_of r d) = cr_accepted r d"
  using run_ok_reachable [OF assms] unfolding run_ok_def settled_def by blast

end
