(* ===== verification/SueOverlap.thy ===== *)
theory SueOverlap
  imports SueRuns
begin

text \<open>
  Concrete runs of the SUE client: a paced configuration, and the default delays, with which a
  scheduling event packs transactions again that are already on their way.
\<close>

section \<open>Executing runs\<close>

datatype client_event = Arrival ns transaction u32 | Schedule | Send nat

definition exec_event :: "client_event \<Rightarrow> client_run \<Rightarrow> client_run option" where
  "exec_event e r = (case e of
     Arrival t tr xpu \<Rightarrow>
       (if offered tr xpu (cw_client (cr_world r)) \<and> cr_now r \<le> t \<and> t \<le> cr_tick r \<and>
           list_all (\<lambda>p. t \<le> ps_due p) (cw_pending (cr_world r))
        then Some (arrival t tr xpu r) else None)
   | Schedule \<Rightarrow> (if list_all (\<lambda>p. cr_tick r \<le> ps_due p) (cw_pending (cr_world r)) then tick r else None)
   | Send i \<Rightarrow> (let ps = take i (cw_pending (cr_world r))
       in case drop i (cw_pending (cr_world r)) of
         [] \<Rightarrow> None
       | p # qs \<Rightarrow> if list_all (\<lambda>q. ps_due p \<le> ps_due q) (ps @ qs) \<and> list_all (\<lambda>q. ps_due p < ps_due q) ps \<and>
             ps_due p < cr_tick r then Some (sending p (ps @ qs) r) else None))"

fun exec :: "client_event list \<Rightarrow> client_run \<Rightarrow> client_run option" where
  "exec [] r = Some r"
| "exec (e # es) r = (case exec_event e r of None \<Rightarrow> None | Some r' \<Rightarrow> exec es r')"

lemma exec_event_step:
  assumes "exec_event e r = Some r'"
  shows "client_step r r'"
proof (cases e)
  case (Arrival t tr xpu)
  then show ?thesis using assms
    by (auto simp: exec_event_def list_all_iff split: if_splits intro!: client_step.arrive)
next
  case Schedule
  then show ?thesis using assms
    by (auto simp: exec_event_def list_all_iff split: if_splits intro!: client_step.schedule)
next
  case (Send i)
  let ?ps = "take i (cw_pending (cr_world r))"
  obtain p qs where p: "drop i (cw_pending (cr_world r)) = p # qs" "r' = sending p (?ps @ qs) r"
      "\<forall>q\<in>set (?ps @ qs). ps_due p \<le> ps_due q" "\<forall>q\<in>set ?ps. ps_due p < ps_due q" "ps_due p < cr_tick r"
    using assms Send by (auto simp: exec_event_def Let_def list_all_iff split: list.splits if_splits)
  have "cw_pending (cr_world r) = ?ps @ p # qs" unfolding p(1) [symmetric] by simp
  from client_step.send [OF this p(3-5)] show ?thesis unfolding p(2) .
qed

lemma exec_reachable: "exec es r = Some r' \<Longrightarrow> rtranclp client_step r r'"
proof (induction es arbitrary: r)
  case (Cons e es)
  then show ?case by (auto split: option.splits intro: converse_rtranclp_into_rtranclp exec_event_step)
qed simp

section \<open>Concrete configurations\<close>

text \<open>One-byte transactions, one per packet; the default interval of 10 ns and packing delay of 3 ns.\<close>

definition small_client :: sue_client where
  "small_client = new_client\<lparr>cl_transaction_size := 1, cl_max_burst := 1, cl_header_size := 46\<rparr>"

definition small_port :: queue_manager where
  "small_port = new_queue_manager\<lparr>qm_initialized := True, qm_num_vcs := 1, qm_header_size := 46, qm_max_bytes := 1000\<rparr>"

definition letter :: "u8 \<Rightarrow> transaction" where "letter b = \<lparr>tr_vc = 0, tr_payload = [b]\<rparr>"

definition overlapping :: "client_event list" where
  "overlapping = [Schedule, Arrival 1 (letter 1) 7, Arrival 1 (letter 2) 7, Arrival 1 (letter 3) 7,
     Arrival 1 (letter 4) 7, Arrival 1 (letter 5) 7, Schedule, Send 0, Send 0, Send 0, Schedule, Send 0, Send 1,
     Arrival 24 (letter 6) 7, Send 0, Send 0]"

lemma overlapping_run:
  "case exec overlapping (start_run small_client [small_port]) of None \<Rightarrow> False
   | Some r \<Rightarrow> cr_accepted r (7, 0) = [1, 2, 3, 4, 5, 6] \<and> cr_sent r (7, 0) = [1, 2, 3, 4, 4, 5, 5] \<and>
       dest_items (dest_of (cw_client (cr_world r)) (7, 0)) = [] \<and> cw_pending (cr_world r) = []"
  by code_simp

text \<open>
  With the default scheduling interval (10 ns) and packing delay (3 ns per packet), a round of five
  packets is still being sent when the next round packs its last two again. They leave twice, every
  departure removes a transaction from the queue, and a transaction that came in meanwhile is removed
  although it was never sent.
\<close>

theorem overlapping_rounds_lose:
  "\<exists>r. rtranclp client_step (start_run small_client [small_port]) r \<and>
     cl_interval small_client = cl_interval new_client \<and> cl_packing_delay small_client = cl_packing_delay new_client \<and>
     cr_accepted r (7, 0) = [1, 2, 3, 4, 5, 6] \<and> cr_sent r (7, 0) = [1, 2, 3, 4, 4, 5, 5] \<and>
     queue_of r (7, 0) = [] \<and> cw_pending (cr_world r) = []"
proof -
  obtain r where r: "exec overlapping (start_run small_client [small_port]) = Some r"
      "cr_accepted r (7, 0) = [1, 2, 3, 4, 5, 6]" "cr_sent r (7, 0) = [1, 2, 3, 4, 4, 5, 5]"
      "dest_items (dest_of (cw_client (cr_world r)) (7, 0)) = []" "cw_pending (cr_world r) = []"
    using overlapping_run by (auto split: option.splits)
  then show ?thesis
    using exec_reachable [OF r(1)] by (auto simp: queue_of_def small_client_def intro!: exI [of _ r])
qed

text \<open>With an interval longer than a full queue takes, the same transactions arrive as they were accepted.\<close>

definition slow_client :: sue_client where
  "slow_client = small_client\<lparr>cl_interval := 20, cl_dest_limit := 45\<rparr>"

definition unhurried :: "client_event list" where
  "unhurried = [Schedule, Arrival 1 (letter 1) 7, Arrival 1 (letter 2) 7, Arrival 1 (letter 3) 7, Schedule, Send 0, Send 0]"

lemma slow_client_ok: "well_configured slow_client [small_port]" "paced slow_client"
  by (simp_all add: well_configured_def paced_def sizes_ok_def capacity_def per_packet_def slow_client_def
      small_client_def new_client_def small_port_def new_queue_manager_def)

lemma unhurried_run:
  "case exec unhurried (start_run slow_client [small_port]) of None \<Rightarrow> False
   | Some r \<Rightarrow> cr_accepted r (7, 0) = [1, 2, 3] \<and> cr_sent r (7, 0) = [1, 2]"
  by code_simp

theorem client_is_fifo_witness:
  "\<exists>r. cr_sent r (7, 0) = [1, 2] \<and> cr_accepted r (7, 0) = [1, 2, 3] \<and>
     cr_sent r (7, 0) @ concat (queue_of r (7, 0)) = cr_accepted r (7, 0)"
proof -
  obtain r where r: "exec unhurried (start_run slow_client [small_port]) = Some r"
      "cr_accepted r (7, 0) = [1, 2, 3]" "cr_sent r (7, 0) = [1, 2]"
    using unhurried_run by (auto split: option.splits)
  show ?thesis
    using client_is_fifo [OF exec_reachable [OF r(1)] slow_client_ok, of "(7, 0)"] r(2,3) by blast
qed

theorem scheduling_never_aborts_witness:
  "\<exists>w'. schedule_next_send 10 True (cr_world (arrival 1 (letter 1) 7 (start_run small_client [small_port]))) = Some w' \<and>
     length (cw_pending w') = 1"
proof -
  let ?w = "cr_world (arrival 1 (letter 1) 7 (start_run small_client [small_port]))"
  have "client_ok ?w"
    by (auto simp: client_ok_def arrival_def start_run_def small_client_def small_port_def letter_def new_client_def
        new_queue_manager_def add_transaction_def dest_of_def sizes_ok_def Let_def tr_size_def sue_header_size_def)
  moreover have "short_queues (cw_client ?w)"
    by (auto simp: short_queues_def arrival_def start_run_def small_client_def letter_def new_client_def
        add_transaction_def dest_of_def Let_def per_packet_def)
  ultimately have "\<exists>w'. schedule_next_send 10 True ?w = Some w' \<and> cw_client w' = cw_client ?w"
    by (rule scheduling_never_aborts)
  then obtain w' where w': "schedule_next_send 10 True ?w = Some w'" by blast
  have "map_option (length \<circ> cw_pending) (schedule_next_send 10 True ?w) = Some 1" by code_simp
  then show ?thesis using w' by simp
qed

text \<open>
  The defaults of the classes do not fit together: the client plans with 44 bytes of headers, the ports
  reserve 46 for each packet. A port with little room makes the asserted reservation fail.
\<close>

lemma default_headers_abort:
  "schedule_next_send 10 True (cr_world (arrival 1 \<lparr>tr_vc = 0, tr_payload = replicate 128 0\<rparr> 7
     (start_run new_client [small_port\<lparr>qm_max_bytes := 181\<rparr>]))) = None"
  by code_simp

end
