(* ===== verification/SesResponder.thy ===== *)
theory SesResponder
  imports SesDispatch
begin

text \<open>
  The responder's side of \<open>SesManager\<close> (requests from the network, responses that wait to be sent),
  the responses a requester gets, periodic processing and reset.
\<close>

section \<open>Responses that wait\<close>

definition response_fragment :: "ns \<Rightarrow> u32 \<Rightarrow> u32 \<Rightarrow> pending_response \<Rightarrow> packet option" where
  "response_fragment now mtu i e =
    (let n = (if pe_packets e = 0 then 1 else pe_packets e); off = i * mtu;
         total = (if pe_with_data e then pe_modified e else of_nat (pk_size (pe_payload e)))
     in map_option (\<lambda>p. (attach_semantic_tags (pe_meta e) off (pe_modified e) True (pe_opcode e) (pe_return_code e)
            (pe_modified e) p)\<lparr>pk_timing := Some now\<rparr>)
          (if \<not> pe_with_data e \<or> n = 1 then Some (pe_payload e)
           else create_fragment off (min mtu (total - off)) (pe_payload e)))"

fun send_fragments :: "ns \<Rightarrow> pending_response \<Rightarrow> nat list \<Rightarrow> ses \<Rightarrow> (bool \<times> ses) option" where
  "send_fragments now e [] s = Some (True, s)"
| "send_fragments now e (i # is) s =
    (case response_fragment now (get_payload_mtu s) (of_nat i) e of
       None \<Rightarrow> None
     | Some p \<Rightarrow> (case dispatch_semantic_packet now (pe_meta e) p s of
         None \<Rightarrow> None
       | Some (ok, s1) \<Rightarrow> if ok then send_fragments now e is s1
           else Some (False, bump (\<lambda>c. c\<lparr>sc_response_failures := sc_response_failures c + 1\<rparr>) s1)))"

text \<open>\<open>TryDispatchPendingResponse\<close>\<close>

definition try_dispatch_pending :: "ns \<Rightarrow> request_key \<Rightarrow> pending_response \<Rightarrow> ses \<Rightarrow> (bool \<times> ses) option" where
  "try_dispatch_pending now k e s =
    (if 0 < se_fail_next s
     then Some (False, (bump (\<lambda>c. c\<lparr>sc_response_failures := sc_response_failures c + 1\<rparr>) s)
            \<lparr>se_fail_next := se_fail_next s - 1\<rparr>)
     else map_option (\<lambda>(sent, s1). (sent, if sent then s1\<lparr>se_pending := AList.update k
            (e\<lparr>pe_terminal := True, pe_enqueued := False\<rparr>) (se_pending s1)\<rparr> else s1))
          (send_fragments now e [0..<unat (if pe_packets e = 0 then 1 else pe_packets e)] s))"

definition release_pending_budget :: "ns \<Rightarrow> request_key \<Rightarrow> ses \<Rightarrow> ses" where
  "release_pending_budget now k s = (case map_of (se_pending s) k of
     None \<Rightarrow> s
   | Some e \<Rightarrow> if pe_reserved e
       then (let s1 = snd (on_plane now (\<lambda>p. (True, release_read_responder_budget now (pe_peer e) (pe_bytes e) p)) s)
         in s1\<lparr>se_pending := AList.update k (e\<lparr>pe_reserved := False, pe_peer := 0, pe_bytes := 0\<rparr>) (se_pending s1)\<rparr>)
       else s)"

definition remove_pending_response :: "ns \<Rightarrow> request_key \<Rightarrow> ses \<Rightarrow> ses" where
  "remove_pending_response now k s =
    (let s1 = release_pending_budget now k s;
         s2 = (case map_of (se_queues s1) (lk_peer k) of
             None \<Rightarrow> s1
           | Some q \<Rightarrow> let ks = remove1 k (pq_responses q)
               in s1\<lparr>se_queues := (if ks = [] then AList.delete (lk_peer k) (se_queues s1)
                      else AList.update (lk_peer k) (q\<lparr>pq_responses := ks\<rparr>) (se_queues s1))\<rparr>)
     in s2\<lparr>se_pending := AList.delete k (se_pending s2)\<rparr>)"

definition enqueue_pending_response :: "ns \<Rightarrow> request_key \<Rightarrow> ses \<Rightarrow> ses" where
  "enqueue_pending_response now k s = (case map_of (se_pending s) k of
     None \<Rightarrow> s
   | Some e \<Rightarrow> if pe_enqueued e then s
       else let q = (case map_of (se_queues s) (lk_peer k) of
                None \<Rightarrow> \<lparr>pq_responses = [], pq_drain = None\<rparr> | Some q \<Rightarrow> q)
         in schedule_response_drain now (lk_peer k) True
              (s\<lparr>se_queues := AList.update (lk_peer k) (q\<lparr>pq_responses := pq_responses q @ [k]\<rparr>) (se_queues s),
                 se_pending := AList.update k (e\<lparr>pe_enqueued := True, pe_next := now_ms now\<rparr>) (se_pending s)\<rparr>))"

text \<open>\<open>DrainPendingResponseQueue\<close>: every turn of the loop removes one response, or is the last.\<close>

partial_function (option) response_loop :: "ns \<Rightarrow> u32 \<Rightarrow> ses \<Rightarrow> ses option" where
  "response_loop now peer s = (case map_of (se_queues s) peer of
     None \<Rightarrow> Some s
   | Some q \<Rightarrow> (case pq_responses q of
       [] \<Rightarrow> Some s
     | k # _ \<Rightarrow> (case map_of (se_pending s) k of
         None \<Rightarrow> response_loop now peer (remove_pending_response now k s)
       | Some e \<Rightarrow>
           if pe_terminal e then response_loop now peer (remove_pending_response now k s)
           else if now_ms now < pe_next e then Some s
           else (case try_dispatch_pending now k e s of
               None \<Rightarrow> None
             | Some (ok, s1) \<Rightarrow>
                 if ok then response_loop now peer (remove_pending_response now k s1)
                 else Some (bump (\<lambda>c. c\<lparr>sc_response_retries := sc_response_retries c + 1\<rparr>)
                   (s1\<lparr>se_pending := AList.update k (e\<lparr>pe_retries := pe_retries e + 1,
                         pe_next := now_ms now + now_ms (se_interval s1)\<rparr>) (se_pending s1)\<rparr>))))))"

declare response_loop.simps [code]

definition drain_pending_responses :: "ns \<Rightarrow> u32 \<Rightarrow> ses \<Rightarrow> ses option" where
  "drain_pending_responses now peer s =
    map_option (schedule_response_drain now peer False) (response_loop now peer s)"

text \<open>The drain as the scheduled event, which is then no longer pending.\<close>

definition run_response_drain :: "ns \<Rightarrow> u32 \<Rightarrow> ses \<Rightarrow> ses option" where
  "run_response_drain now peer s = (case map_of (se_queues s) peer of
     None \<Rightarrow> Some s
   | Some q \<Rightarrow> drain_pending_responses now peer
       (s\<lparr>se_queues := AList.update peer (q\<lparr>pq_drain := None\<rparr>) (se_queues s)\<rparr>))"

definition response_metadata :: "request_key \<Rightarrow> u32 \<Rightarrow> u32 \<Rightarrow> u8 \<Rightarrow> u32 \<Rightarrow> ext_metadata" where
  "response_metadata k local remote opcode modified =
    set_source_endpoint local 1 (set_destination_endpoint remote 1
      (op_metadata.extend (default_metadata\<lparr>om_op := (if opcode = UET_RESPONSE_W_DATA then READ else SEND),
          om_job_id := ucast (lk_job k), om_messages_id := ucast (lk_msg k), om_length := ucast modified,
          om_delivery_mode := 0, om_expect_response := False\<rparr>)
        (ext_metadata.fields 0 0 0 0)))"

definition new_response ::
  "u32 \<Rightarrow> request_key \<Rightarrow> u32 \<Rightarrow> u32 \<Rightarrow> u8 \<Rightarrow> u8 \<Rightarrow> u32 \<Rightarrow> packet option \<Rightarrow> bool \<Rightarrow> u32 \<Rightarrow> u32 \<Rightarrow> pending_response" where
  "new_response mtu k local remote opcode rc modified payload reserved peer bytes =
    (let data = (opcode = UET_RESPONSE_W_DATA);
         p = (case payload of Some p \<Rightarrow> p | None \<Rightarrow> empty_packet\<lparr>pk_payload := [0]\<rparr>);
         total = (if data then modified else of_nat (pk_size p))
     in \<lparr>pe_meta = response_metadata k local remote opcode modified, pe_payload = p, pe_opcode = opcode,
         pe_return_code = rc, pe_modified = modified, pe_with_data = data, pe_reserved = reserved, pe_peer = peer,
         pe_bytes = bytes, pe_packets = (if \<not> data \<or> total = 0 then 1 else max 1 ((total + mtu - 1) div mtu)),
         pe_retries = 0, pe_next = 0, pe_enqueued = False, pe_terminal = False\<rparr>)"

text \<open>\<open>SendSemanticResponseForRequest\<close> overwrites a response that waits under the same key.\<close>

definition send_response ::
  "ns \<Rightarrow> request_key \<Rightarrow> u32 \<Rightarrow> u32 \<Rightarrow> u8 \<Rightarrow> u8 \<Rightarrow> u32 \<Rightarrow> packet option \<Rightarrow> bool \<Rightarrow> u32 \<Rightarrow> u32 \<Rightarrow> ses \<Rightarrow> ses option" where
  "send_response now k local remote opcode rc modified payload reserved peer bytes s =
    (let e = new_response (get_payload_mtu s) k local remote opcode rc modified payload reserved peer bytes;
         s1 = s\<lparr>se_pending := AList.update k e (se_pending s)\<rparr>
     in map_option (\<lambda>(ok, s2). if ok then remove_pending_response now k s2 else enqueue_pending_response now k s2)
          (try_dispatch_pending now k e s1))"

definition send_plain :: "ns \<Rightarrow> request_key \<Rightarrow> u32 \<Rightarrow> u32 \<Rightarrow> u8 \<Rightarrow> u8 \<Rightarrow> u32 \<Rightarrow> ses \<Rightarrow> ses option" where
  "send_plain now k local remote opcode rc modified s =
    send_response now k local remote opcode rc modified None False 0 0 s"

definition deny :: "ns \<Rightarrow> request_key \<Rightarrow> u32 \<Rightarrow> u32 \<Rightarrow> u8 \<Rightarrow> ses \<Rightarrow> (bool \<times> ses) option" where
  "deny now k local remote rc s = map_option (Pair False) (send_plain now k local remote UET_NACK rc 0 s)"

section \<open>Requests from the network\<close>

definition local_endpoint :: "ses \<Rightarrow> u32" where
  "local_endpoint s = (case se_device s of None \<Rightarrow> 0 | Some d \<Rightarrow> dv_fep d)"

definition handle_incoming_send ::
  "ns \<Rightarrow> request_key \<Rightarrow> pdc_ses_request \<Rightarrow> header_tag \<Rightarrow> meta_tag \<Rightarrow> ses \<Rightarrow> (bool \<times> ses) option" where
  "handle_incoming_send now k q h m s =
    (let (r, s1) = on_rx (handle_incoming_send_packet now (pq_pdc_id q) h m (Some (pq_packet q))) s
     in if \<not> rr_handled r \<or> \<not> rr_response_ready r then Some (rr_handled r, s1)
        else map_option (Pair True) (send_plain now k (local_endpoint s) (lk_peer k) (rr_response_opcode r)
               (rr_return_code r) (rr_modified_length r) s1))"

definition write_packet_bytes :: "packet \<Rightarrow> u64 \<Rightarrow> u32 \<Rightarrow> u32 \<Rightarrow> mem \<Rightarrow> bool \<times> mem" where
  "write_packet_bytes p base off max_len mm =
    (if base = 0 \<or> max_len \<le> off then (False, mm)
     else (True, mem_write (base + ucast off)
       (take (unat (min (of_nat (pk_size p)) (max_len - off))) (pk_bytes p)) mm))"

definition handle_incoming_write ::
  "ns \<Rightarrow> request_key \<Rightarrow> pdc_ses_request \<Rightarrow> header_tag \<Rightarrow> meta_tag \<Rightarrow> ses \<Rightarrow> (bool \<times> ses) option" where
  "handle_incoming_write now k q h m s =
    (let n = of_nat (pk_size (pq_packet q)) :: u32
     in case validate_rma_request h m True n s of
          Some rc \<Rightarrow> deny now k (local_endpoint s) (lk_peer k) rc s
        | None \<Rightarrow>
            let (ok, s1) = on_plane now (try_reserve_write_budget now (lk_peer k) n) s
            in if \<not> ok then deny now k (local_endpoint s) (lk_peer k) RC_RESOURCE_EXHAUST s1
               else
                 let s2 = snd (on_rx (\<lambda>x. (True, x\<lparr>rs_mem := snd (write_packet_bytes (pq_packet q)
                        (mt_remote_address m + ucast (mt_fragment_offset m)) 0 n (rs_mem x))\<rparr>)) s1);
                     s3 = snd (on_plane now (\<lambda>p. (True, release_write_budget now (lk_peer k) n p)) s2)
                 in map_option (Pair True)
                      (send_plain now k (local_endpoint s) (lk_peer k) UET_DEFAULT_RESPONSE RC_OK n s3))"

definition handle_incoming_read ::
  "ns \<Rightarrow> request_key \<Rightarrow> header_tag \<Rightarrow> meta_tag \<Rightarrow> ses \<Rightarrow> (bool \<times> ses) option" where
  "handle_incoming_read now k h m s =
    (case validate_rma_request h m False 0 s of
       Some rc \<Rightarrow> deny now k (ht_dst h) (lk_peer k) rc s
     | None \<Rightarrow>
         let n = mt_request_length m;
             p = empty_packet\<lparr>pk_payload := mem_read (rs_mem (mg_rx (se_manager s))) (mt_remote_address m) (unat n)\<rparr>;
             (ok, s1) = on_plane now (try_reserve_read_responder_budget now (lk_peer k) n) s
         in if \<not> ok then deny now k (ht_dst h) (lk_peer k) RC_RESOURCE_EXHAUST s1
            else map_option (Pair True) (send_response now k (ht_dst h) (lk_peer k) UET_RESPONSE_W_DATA RC_OK n
                   (Some p) True (lk_peer k) n s1))"

definition handle_incoming_request ::
  "ns \<Rightarrow> pdc_ses_request \<Rightarrow> header_tag \<Rightarrow> meta_tag \<Rightarrow> ses \<Rightarrow> (bool \<times> ses) option" where
  "handle_incoming_request now q h m s =
    (let k = tag_key h m
     in case validate_inbound_header h m s of
          Some rc \<Rightarrow> deny now k (ht_dst h) (ht_src h) rc s
        | None \<Rightarrow> (case mt_op m of
            SEND \<Rightarrow> handle_incoming_send now k q h m s
          | WRITE \<Rightarrow> handle_incoming_write now k q h m s
          | READ \<Rightarrow> handle_incoming_read now k h m s
          | _ \<Rightarrow> deny now k (ht_dst h) (ht_src h) RC_INVALID_OP s))"

text \<open>\<open>ProcessReceiveRequest\<close>\<close>

definition process_receive_request :: "ns \<Rightarrow> pdc_ses_request \<Rightarrow> ses \<Rightarrow> (bool \<times> ses) option" where
  "process_receive_request now q s =
    (let s1 = bump (\<lambda>c. c\<lparr>sc_receive := sc_receive c + 1\<rparr>) s;
         bad = bump (\<lambda>c. c\<lparr>sc_errors := sc_errors c + 1\<rparr>) s1
     in if \<not> validate_pdc_ses_request q s1 then Some (False, bad)
        else if \<not> se_rud s1 then Some (True, case se_device s1 of None \<Rightarrow> s1
          | Some _ \<Rightarrow> s1\<lparr>se_manager := (se_manager s1)\<lparr>mg_delivered := mg_delivered (se_manager s1) @ [pq_packet q]\<rparr>\<rparr>)
        else (case try_get_packet_tags (pq_packet q) of
          None \<Rightarrow> Some (False, bad)
        | Some (h, m) \<Rightarrow> handle_incoming_request now q h m s1))"

section \<open>Responses from the network\<close>

definition succeed :: "ns \<Rightarrow> request_key \<Rightarrow> meta_tag \<Rightarrow> u32 \<Rightarrow> ses \<Rightarrow> ses" where
  "succeed now k m bytes s = terminalize_request now k RC_OK_RESPONSE
    (set_request_completion_outcome k (mt_return_code m) bytes
      (record_response_event now k (mt_response_opcode m) (mt_return_code m) (mt_modified_length m) s))"

text \<open>
  The receiver has consumed a SEND: its admission is given back at once. \<open>aux\<close> is the time the
  response's timing tag names, 0 without one.
\<close>

definition note_consumed :: "ns \<Rightarrow> request_key \<Rightarrow> meta_tag \<Rightarrow> u64 \<Rightarrow> ses \<Rightarrow> ses" where
  "note_consumed now k m aux s =
    (if mt_op m = SEND \<and> mt_return_code m = RC_OK
     then let s1 = change_request k (\<lambda>r. if 0 < aux \<and> (rq_consumed r = 0 \<or> aux < rq_consumed r)
            then r\<lparr>rq_consumed := aux\<rparr> else r) s
       in (case request_of k s1 of None \<Rightarrow> s1
         | Some r \<Rightarrow> if rq_send_reserved r \<and> rq_consumed r \<noteq> 0 then release_dispatch_budget now k s1 else s1)
     else s)"

definition receive_read_data ::
  "ns \<Rightarrow> request_key \<Rightarrow> u16 \<Rightarrow> header_tag \<Rightarrow> meta_tag \<Rightarrow> packet \<Rightarrow> ses \<Rightarrow> ses" where
  "receive_read_data now k pdc_id h m p s =
    (let (x, s1) = on_rx (handle_incoming_read_response_packet now pdc_id h m (Some p)) s
     in if \<not> rr_handled x then s1
        else if rr_failed x \<or> rr_return_code x \<noteq> RC_OK
        then fail_request now k (rr_return_code x) PROTOCOL_ERROR_REASON s1
        else if rr_delivery_complete x
        then let s2 = change_request k (\<lambda>r. r\<lparr>rq_target := False, rq_response_attempt := rq_attempt r\<rparr>) s1;
                 len = (case request_of k s2 of None \<Rightarrow> 0 | Some r \<Rightarrow> ucast (om_length (rq_meta r)))
          in succeed now k m (if mt_modified_length m \<noteq> 0 then mt_modified_length m else len) s2
        else change_request k (\<lambda>r. arm_response_timeout now s1
               (r\<lparr>rq_waiting := True, rq_waiting_attempt := rq_attempt r\<rparr>)) s1)"

definition receive_ok :: "ns \<Rightarrow> request_key \<Rightarrow> meta_tag \<Rightarrow> ses \<Rightarrow> ses" where
  "receive_ok now k m s =
    (let s1 = change_request k (\<lambda>r. r\<lparr>rq_waiting := False, rq_pending := 0, rq_deadline := 0,
           rq_response_attempt := rq_attempt r\<rparr>) s
     in succeed now k m (case request_of k s1 of None \<Rightarrow> 0 | Some r \<Rightarrow> ucast (om_length (rq_meta r))) s1)"

definition receive_error :: "ns \<Rightarrow> request_key \<Rightarrow> meta_tag \<Rightarrow> ses \<Rightarrow> ses" where
  "receive_error now k m s =
    (let s1 = record_response_event now k (mt_response_opcode m) (mt_return_code m) (mt_modified_length m) s
     in if mt_return_code m = RC_NO_MATCH \<and> mt_op m = SEND
        then (if se_retry_enabled s then schedule_retry now k NO_MATCH_TRIGGER s1
              else fail_request now k (mt_return_code m) RC_NO_MATCH_TERMINAL s1)
        else fail_request now k (mt_return_code m) PROTOCOL_ERROR_REASON s1)"

text \<open>A response to a request that has ended is only counted.\<close>

definition late_response :: "request_state \<Rightarrow> meta_tag \<Rightarrow> ses \<Rightarrow> ses" where
  "late_response r m s = bump (\<lambda>c.
    if mt_op m = SEND \<and> rq_reason r = RC_OK_RESPONSE \<and> rq_return_code r = RC_OK \<and> mt_return_code m = RC_OK \<and>
       mt_response_opcode m = UET_DEFAULT_RESPONSE
    then c\<lparr>sc_duplicate_ok := sc_duplicate_ok c + 1\<rparr> else c\<lparr>sc_late := sc_late c + 1\<rparr>) s"

definition handle_response ::
  "ns \<Rightarrow> u64 \<Rightarrow> pdc_ses_response \<Rightarrow> header_tag \<Rightarrow> meta_tag \<Rightarrow> ses \<Rightarrow> ses" where
  "handle_response now aux q h m s0 =
    (let k = tag_key h m; s = change_request k (\<lambda>r. r\<lparr>rq_progress := now_ms now\<rparr>) s0
     in case request_of k s of
          None \<Rightarrow> (if mt_op m = SEND then bump (\<lambda>c. c\<lparr>sc_missing := sc_missing c + 1\<rparr>) s else s)
        | Some r \<Rightarrow>
            if rq_terminal r then late_response r m s
            else let s1 = note_consumed now k m aux s
              in if mt_return_code m \<noteq> RC_OK then receive_error now k m s1
                 else if mt_response_opcode m = UET_RESPONSE_W_DATA
                 then receive_read_data now k (ps_pdc_id q) h m (ps_packet q) s1
                 else receive_ok now k m s1)"

text \<open>\<open>ProcessReceiveResponse\<close>\<close>

definition process_receive_response :: "ns \<Rightarrow> u64 \<Rightarrow> pdc_ses_response \<Rightarrow> ses \<Rightarrow> bool \<times> ses" where
  "process_receive_response now aux q s =
    (let s1 = bump (\<lambda>c. c\<lparr>sc_responses := sc_responses c + 1\<rparr>) s
     in case try_get_packet_tags (ps_packet q) of
          None \<Rightarrow> (False, bump (\<lambda>c. c\<lparr>sc_errors := sc_errors c + 1\<rparr>) s1)
        | Some (h, m) \<Rightarrow> if is_response m then (True, handle_response now aux q h m s1)
            else (False, bump (\<lambda>c. c\<lparr>sc_errors := sc_errors c + 1\<rparr>) s1))"

section \<open>Periodic processing\<close>

text \<open>
  The tables are hash maps: the order in which \<open>DoPeriodicProcessing\<close> visits peers and requests is an
  argument.
\<close>

fun drain_all :: "ns \<Rightarrow> u32 list \<Rightarrow> ses \<Rightarrow> ses option" where
  "drain_all now [] s = Some s"
| "drain_all now (p # ps) s = (case (case map_of (se_queues s) p of None \<Rightarrow> Some s
      | Some _ \<Rightarrow> drain_pending_responses now p s) of None \<Rightarrow> None | Some s1 \<Rightarrow> drain_all now ps s1)"

definition check_timeout :: "ns \<Rightarrow> request_key \<Rightarrow> ses \<Rightarrow> ses" where
  "check_timeout now k s = (case request_of k s of
     None \<Rightarrow> s
   | Some r \<Rightarrow>
       if rq_terminal r \<or> \<not> rq_waiting r \<or> rq_deadline r = 0 then s
       else if (case map_of (se_retries s) k of None \<Rightarrow> False | Some y \<Rightarrow> ry_event y \<noteq> None) then s
       else if rq_waiting_attempt r \<noteq> rq_attempt r
       then bump (\<lambda>c. c\<lparr>sc_stale_timeouts := sc_stale_timeouts c + 1\<rparr>)
              (put_request k (r\<lparr>rq_deadline := 0\<rparr>) s)
       else if now_ms now < rq_deadline r then s
       else if \<not> se_retry_enabled s
       then fail_request now k RC_INTERNAL_ERROR RESPONSE_TIMEOUT_EXHAUSTED
              (put_request k (r\<lparr>rq_exhausted := True\<rparr>) s)
       else schedule_retry now k RESPONSE_TIMEOUT s)"

text \<open>\<open>DoPeriodicProcessing\<close> runs as the scheduled event.\<close>

definition do_periodic_processing :: "ns \<Rightarrow> u32 list \<Rightarrow> request_key list \<Rightarrow> ses \<Rightarrow> ses option" where
  "do_periodic_processing now peers keys s0 =
    (let s = s0\<lparr>se_process := None\<rparr>
     in if \<not> se_rud s then Some s
        else map_option (\<lambda>s1. schedule_processing now
               (snd (on_rx (\<lambda>x. (True, prune_receive_state now x)) (fold (check_timeout now) keys s1))))
             (drain_all now peers s))"

section \<open>Probes and reset\<close>

definition get_latest_response :: "u64 \<Rightarrow> u16 \<Rightarrow> ses \<Rightarrow> response_event option" where
  "get_latest_response job msg s = find (\<lambda>e. re_job e = job \<and> re_msg e = msg) (rev (se_history s))"

definition saw_return_code :: "u64 \<Rightarrow> u16 \<Rightarrow> u8 \<Rightarrow> ses \<Rightarrow> bool" where
  "saw_return_code job msg rc s \<longleftrightarrow>
     list_ex (\<lambda>e. re_job e = job \<and> re_msg e = msg \<and> re_return_code e = rc) (se_history s)"

text \<open>\<open>RequestTerminalProbe\<close>: whether there is a request or a retry, whether it has ended, why and when.\<close>

record terminal_probe =
  tp_present :: bool
  tp_retry :: bool
  tp_terminal :: bool
  tp_reason :: terminal_reason
  tp_at :: ms

definition query_request_terminal_probe :: "request_key \<Rightarrow> ses \<Rightarrow> terminal_probe" where
  "query_request_terminal_probe k s =
    (let retry = map_of (se_retries s) k \<noteq> None
     in case request_of k s of
          None \<Rightarrow> \<lparr>tp_present = retry, tp_retry = retry, tp_terminal = False, tp_reason = NO_REASON, tp_at = 0\<rparr>
        | Some r \<Rightarrow> \<lparr>tp_present = True, tp_retry = retry, tp_terminal = rq_terminal r, tp_reason = rq_reason r,
            tp_at = rq_terminal_at r\<rparr>)"

definition ops_in_flight :: "ses \<Rightarrow> nat" where
  "ops_in_flight s = length (filter (\<lambda>(_, r). \<not> rq_terminal r) (se_requests s))"

text \<open>\<open>Reset\<close>: the counters of requests, errors and packets stay.\<close>

definition ses_reset :: "ses \<Rightarrow> ses" where
  "ses_reset s = s\<lparr>se_requests := [], se_retries := [], se_blocked := [], se_pending := [], se_queues := [],
     se_process := None, se_phase := SES_IDLE, se_message_id := 0,
     se_counts := (se_counts s)\<lparr>sc_started := 0, sc_terminal := 0, sc_success := 0, sc_failed := 0,
       sc_stale_timeouts := 0, sc_stale_retries := 0, sc_late := 0, sc_duplicate_ok := 0,
       sc_response_failures := 0, sc_response_retries := 0\<rparr>,
     se_manager := (se_manager s)\<lparr>mg_rx := reset_rx_tables (mg_rx (se_manager s)), mg_receive := [],
       mg_plane := reset_plane (mg_plane (se_manager s))\<rparr>\<rparr>"

end
