(* ===== verification/SesFrames.thy ===== *)
theory SesFrames
  imports SesResponder
begin

text \<open>What the operations of \<open>SesManager\<close> leave unchanged, and how the request table follows them.\<close>

section \<open>The PDS manager's other parts\<close>

definition semantics_of :: "manager \<Rightarrow> rx_state \<times> plane" where
  "semantics_of m = (mg_rx m, mg_plane m)"

lemma semantics_count [simp]: "semantics_of (count_stat f m) = semantics_of m"
  by (simp add: semantics_of_def count_stat_def)

lemma semantics_inform [simp]: "semantics_of (inform ns m) = semantics_of m"
  by (simp add: semantics_of_def inform_def)

lemma semantics_fields [simp]:
  "semantics_of (m\<lparr>mg_pdcs := p\<rparr>) = semantics_of m" "semantics_of (m\<lparr>mg_sessions := x\<rparr>) = semantics_of m"
  "semantics_of (m\<lparr>mg_used := u\<rparr>) = semantics_of m" "semantics_of (m\<lparr>mg_free := f\<rparr>) = semantics_of m"
  "semantics_of (m\<lparr>mg_next := n\<rparr>) = semantics_of m"
  by (simp_all add: semantics_of_def)

lemma semantics_take: "take_id m = Some (i, m') \<Longrightarrow> semantics_of m' = semantics_of m"
  by (auto simp: take_id_def split: list.splits)

lemma semantics_install: "semantics_of (install_pdc i p dest tc dm m) = semantics_of m"
  by (simp add: install_pdc_def semantics_of_def count_stat_def)

lemma semantics_allocate_new: "allocate_new dest tc dm m = Some (i, m') \<Longrightarrow> semantics_of m' = semantics_of m"
  using semantics_take [of m]
  by (auto simp: allocate_new_def Let_def semantics_install split: if_splits option.splits)

lemma semantics_allocate: "allocate_pdc dest tc dm m = Some (i, m') \<Longrightarrow> semantics_of m' = semantics_of m"
  by (auto simp: allocate_pdc_def dest: semantics_allocate_new split: if_splits option.splits)

lemma semantics_through: "semantics_of (snd (send_packet_through_pdc now i po som eom m)) = semantics_of m"
  by (auto simp: send_packet_through_pdc_def Let_def split: option.split prod.split)

lemma semantics_dispatch:
  assumes "dispatch_packet now r m = Some (ok, m')"
  shows "semantics_of m' = semantics_of m"
proof -
  obtain i m1 where a: "allocate_pdc (sr_dst r) (sr_tc r) (sr_mode r) (inform [NotifyPause True] m) = Some (i, m1)"
    using assms by (auto simp: dispatch_packet_def split: option.splits)
  have 1: "semantics_of m1 = semantics_of m" using semantics_allocate [OF a] by simp
  show ?thesis
  proof (cases "i = NO_PDC")
    case True
    then show ?thesis using assms a 1 by (auto simp: dispatch_packet_def)
  next
    case False
    obtain b m2 where t: "send_packet_through_pdc now i (sr_packet r) (sr_som r) (sr_eom r) m1 = (b, m2)"
      by fastforce
    then have "semantics_of m2 = semantics_of m1"
      using semantics_through [of now i "sr_packet r" "sr_som r" "sr_eom r" m1] by simp
    then show ?thesis using assms a 1 t False by (auto simp: dispatch_packet_def)
  qed
qed

text \<open>What a semantic packet changes: the contexts of the manager.\<close>

lemma dispatch_semantic:
  assumes "dispatch_semantic_packet now m p s = Some (ok, s')"
  shows "\<exists>g. s' = s\<lparr>se_manager := g\<rparr> \<and> semantics_of g = semantics_of (se_manager s)"
  using assms semantics_dispatch by (fastforce simp: dispatch_semantic_packet_def)

section \<open>Call-backs\<close>

text \<open>
  The call-backs touch only wake-up and drain events: everything that \<open>core\<close> shows is unchanged, and
  the queues keep their requests and responses.
\<close>

definition blocked_keys :: "ses \<Rightarrow> u32 \<Rightarrow> request_key list" where
  "blocked_keys s peer = (case map_of (se_blocked s) peer of None \<Rightarrow> [] | Some q \<Rightarrow> bq_requests q)"

definition queued_keys :: "ses \<Rightarrow> u32 \<Rightarrow> request_key list" where
  "queued_keys s peer = (case map_of (se_queues s) peer of None \<Rightarrow> [] | Some q \<Rightarrow> pq_responses q)"

record core =
  co_requests :: "(request_key \<times> request_state) list"
  co_retries :: "(request_key \<times> retry_state) list"
  co_pending :: "(request_key \<times> pending_response) list"
  co_blocked :: "u32 \<Rightarrow> request_key list"
  co_queued :: "u32 \<Rightarrow> request_key list"
  co_counts :: ses_counts
  co_timeout :: ns
  co_rud :: bool

definition core :: "ses \<Rightarrow> core" where
  "core s = \<lparr>co_requests = se_requests s, co_retries = se_retries s, co_pending = se_pending s,
     co_blocked = blocked_keys s, co_queued = queued_keys s, co_counts = se_counts s, co_timeout = se_retry_timeout s,
     co_rud = se_rud s\<rparr>"

lemma core_wakeup: "core (schedule_blocked_wakeup peer s) = core s"
  by (auto simp: core_def schedule_blocked_wakeup_def blocked_keys_def queued_keys_def fun_eq_iff
      update_conv' split: option.split)

lemma core_drain: "core (schedule_response_drain now peer b s) = core s"
  by (auto simp: core_def schedule_response_drain_def blocked_keys_def queued_keys_def fun_eq_iff
      update_conv' split: option.split)

lemma core_hear: "core (hear now n s) = core s"
  by (cases n) (simp_all add: notify_peer_credits_def core_drain core_wakeup)

lemma core_fold_hear: "core (fold (hear now) ns s) = core s"
  by (induction ns arbitrary: s) (simp_all add: core_hear)

lemma core_manager [simp]: "core (s\<lparr>se_manager := g\<rparr>) = core s"
  by (simp add: core_def blocked_keys_def queued_keys_def fun_eq_iff)

lemma core_on_plane: "core (snd (on_plane now f s)) = core s"
  by (simp add: on_plane_def core_fold_hear case_prod_beta)

lemma core_on_rx: "core (snd (on_rx f s)) = core s"
  by (simp add: on_rx_def case_prod_beta)

lemma manager_hear [simp]: "se_manager (hear now n s) = se_manager s"
  by (cases n) (auto simp: notify_peer_credits_def schedule_blocked_wakeup_def schedule_response_drain_def split: option.split)

lemma manager_fold_hear [simp]: "se_manager (fold (hear now) ns s) = se_manager s"
  by (induction ns arbitrary: s) simp_all

lemma on_plane_plane:
  "mg_plane (se_manager (snd (on_plane now f s))) = snd (f ((mg_plane (se_manager s))\<lparr>pn_notes := []\<rparr>))"
  "fst (on_plane now f s) = fst (f ((mg_plane (se_manager s))\<lparr>pn_notes := []\<rparr>))"
  "mg_rx (se_manager (snd (on_plane now f s))) = mg_rx (se_manager s)"
  by (simp_all add: on_plane_def case_prod_beta)

lemma on_rx_plane: "mg_plane (se_manager (snd (on_rx f s))) = mg_plane (se_manager s)"
  by (simp add: on_rx_def case_prod_beta)

section \<open>The request table\<close>

lemma request_of_core: "core s' = core s \<Longrightarrow> request_of k s' = request_of k s"
  by (simp add: request_of_def core_def)

lemma request_put [simp]: "request_of k' (put_request k r s) = (if k' = k then Some r else request_of k' s)"
  by (simp add: request_of_def put_request_def update_conv')

lemma request_change [simp]:
  "request_of k' (change_request k f s) = (if k' = k then map_option f (request_of k s) else request_of k' s)"
  by (simp add: change_request_def split: option.split)

lemma request_frames [simp]:
  "request_of k (s\<lparr>se_manager := g\<rparr>) = request_of k s" "request_of k (s\<lparr>se_blocked := b\<rparr>) = request_of k s"
  "request_of k (s\<lparr>se_retries := y\<rparr>) = request_of k s" "request_of k (s\<lparr>se_phase := ph\<rparr>) = request_of k s"
  "request_of k (s\<lparr>se_history := hs\<rparr>) = request_of k s" "request_of k (s\<lparr>se_pending := e\<rparr>) = request_of k s"
  "request_of k (bump f s) = request_of k s"
  by (simp_all add: request_of_def bump_def)

lemma request_unqueue [simp]: "request_of k (unqueue k' s) = request_of k s"
  by (simp add: unqueue_def Let_def split: option.split)

lemma request_on_plane [simp]: "request_of k (snd (on_plane now f s)) = request_of k s"
  by (rule request_of_core [OF core_on_plane])

lemma request_on_rx [simp]: "request_of k (snd (on_rx f s)) = request_of k s"
  by (rule request_of_core [OF core_on_rx])

end
