(* ===== verification/SesBudgets.thy ===== *)
theory SesBudgets
  imports SesFrames PdsManagerProps
begin

text \<open>
  Budgets that \<open>SesManager\<close> takes and does not give back: the admission of a SEND that is retried, and the
  responder's budget of a READ that arrives again while its response waits.
\<close>

section \<open>The responder's budget\<close>

fun reserved :: "(request_key \<times> pending_response) list \<Rightarrow> nat" where
  "reserved [] = 0"
| "reserved ((k, e) # es) = (if pe_reserved e then 1 else 0) + reserved es"

lemma reserved_update:
  "map_of es k = Some e \<Longrightarrow>
   reserved (AList.update k e' es) + (if pe_reserved e then 1 else 0) = reserved es + (if pe_reserved e' then 1 else 0)"
  by (induction es) (auto split: if_splits)

lemma reserved_delete:
  "distinct (map fst es) \<Longrightarrow> map_of es k = Some e \<Longrightarrow>
   reserved (AList.delete k es) + (if pe_reserved e then 1 else 0) = reserved es"
proof (induction es)
  case (Cons x es)
  then show ?case
  proof (cases "fst x = k")
    case True
    then have "AList.delete k es = es" using Cons.prems(1) by (intro AList.delete_id) auto
    then show ?thesis using True Cons.prems by (cases x) (auto simp: AList.delete_eq)
  next
    case False
    then show ?thesis using Cons by (cases x) (auto simp: AList.delete_eq)
  qed
qed simp

definition read_messages :: "ses \<Rightarrow> nat" where
  "read_messages s = unat (bg_messages (pn_read (mg_plane (se_manager s))))"

lemma core_pending: "core s' = core s \<Longrightarrow> se_pending s' = se_pending s"
  by (simp add: core_def)

lemma send_fragments_frame:
  assumes "send_fragments now e is s = Some (ok, s')"
  shows "se_pending s' = se_pending s \<and> mg_plane (se_manager s') = mg_plane (se_manager s)"
  using assms
proof (induction "now" e "is" s rule: send_fragments.induct)
  case (2 now e i "is" s)
  obtain p where p: "response_fragment now (get_payload_mtu s) (of_nat i) e = Some p"
    using "2.prems" by (auto split: option.splits)
  obtain b s1 where d: "dispatch_semantic_packet now (pe_meta e) p s = Some (b, s1)"
    using "2.prems" p by (auto split: option.splits)
  from dispatch_semantic [OF d] have f: "se_pending s1 = se_pending s" "mg_plane (se_manager s1) = mg_plane (se_manager s)"
    by (auto simp: semantics_of_def)
  show ?case
  proof (cases b)
    case True
    then show ?thesis using "2.IH" [OF p d [unfolded True] refl] "2.prems" p d f by simp
  next
    case False
    then show ?thesis using "2.prems" p d f by (auto simp: bump_def)
  qed
qed simp

lemma try_dispatch_frame:
  assumes "try_dispatch_pending now k e s = Some (ok, s')"
  shows "mg_plane (se_manager s') = mg_plane (se_manager s) \<and>
    se_pending s' = (if ok then AList.update k (e\<lparr>pe_terminal := True, pe_enqueued := False\<rparr>) (se_pending s)
      else se_pending s)"
proof (cases "0 < se_fail_next s")
  case True
  then show ?thesis using assms by (auto simp: try_dispatch_pending_def bump_def)
next
  case False
  let ?n = "[0..<unat (if pe_packets e = 0 then 1 else pe_packets e)]"
  obtain s1 where s1: "send_fragments now e ?n s = Some (ok, s1)"
      "s' = (if ok then s1\<lparr>se_pending := AList.update k (e\<lparr>pe_terminal := True, pe_enqueued := False\<rparr>) (se_pending s1)\<rparr>
         else s1)"
    using assms False by (auto simp: try_dispatch_pending_def)
  show ?thesis using send_fragments_frame [OF s1(1)] by (simp add: s1(2))
qed

lemma remove_pending_reserved:
  assumes "map_of (se_pending s) k = Some e" "pe_reserved e" "distinct (map fst (se_pending s))" "0 < read_messages s"
  shows "read_messages (remove_pending_response now k s) = read_messages s - 1"
    "reserved (se_pending (remove_pending_response now k s)) + 1 = reserved (se_pending s)"
proof -
  let ?s1 = "snd (on_plane now (\<lambda>p. (True, release_read_responder_budget now (pe_peer e) (pe_bytes e) p)) s)"
  let ?e = "e\<lparr>pe_reserved := False, pe_peer := 0, pe_bytes := 0\<rparr>"
  have r: "release_pending_budget now k s = ?s1\<lparr>se_pending := AList.update k ?e (se_pending ?s1)\<rparr>"
    using assms(1,2) by (simp add: release_pending_budget_def Let_def)
  have p: "se_pending ?s1 = se_pending s" by (rule core_pending [OF core_on_plane])
  have "bg_messages (pn_read (mg_plane (se_manager ?s1))) = bg_messages (pn_read (mg_plane (se_manager s))) - 1"
    using assms(4) by (simp add: on_plane_plane release_read_responder_budget_def tell_ses_def block_peer_def
        put_control_def give_budget_def read_messages_def unat_gt_0 word_neq_0_conv)
  then have m: "read_messages (release_pending_budget now k s) = read_messages s - 1"
    using assms(4) by (simp add: r read_messages_def unat_dec_pos unat_gt_0 word_neq_0_conv)
  show "read_messages (remove_pending_response now k s) = read_messages s - 1"
    using m by (simp add: remove_pending_response_def Let_def read_messages_def split: option.split)
  have "se_pending (remove_pending_response now k s) = AList.delete k (AList.update k ?e (se_pending s))"
    by (simp add: remove_pending_response_def Let_def r p split: option.split)
  also have "\<dots> = AList.delete k (se_pending s)" by (rule AList.delete_update_same)
  finally show "reserved (se_pending (remove_pending_response now k s)) + 1 = reserved (se_pending s)"
    using reserved_delete [OF assms(3,1)] assms(2) by simp
qed

lemma new_response_fields [simp]:
  "pe_reserved (new_response mtu k local remote opcode rc n po res peer bytes) = res"
  by (simp add: new_response_def Let_def)

lemma enqueue_pending_reserved:
  assumes "map_of (se_pending s) k = Some e" "pe_reserved e"
  shows "read_messages (enqueue_pending_response now k s) = read_messages s"
    "reserved (se_pending (enqueue_pending_response now k s)) = reserved (se_pending s)"
  using assms reserved_update [OF assms(1), of "e\<lparr>pe_enqueued := True, pe_next := now_ms now\<rparr>"]
  by (auto simp: enqueue_pending_response_def read_messages_def schedule_response_drain_def Let_def update_conv'
      split: option.split)

lemma send_response_reserved:
  assumes s: "send_response now k local remote opcode rc n po True peer bytes s = Some s'"
    and e: "map_of (se_pending s) k = Some e" "pe_reserved e" "distinct (map fst (se_pending s))"
    and m: "read_messages s = reserved (se_pending s) + 1"
  shows "read_messages s' = reserved (se_pending s') + 1"
proof -
  let ?e = "new_response (get_payload_mtu s) k local remote opcode rc n po True peer bytes"
  let ?s = "s\<lparr>se_pending := AList.update k ?e (se_pending s)\<rparr>"
  have r: "reserved (se_pending ?s) = reserved (se_pending s)"
    using reserved_update [OF e(1), of ?e] e(2) by simp
  obtain ok s2 where t: "try_dispatch_pending now k ?e ?s = Some (ok, s2)"
      "s' = (if ok then remove_pending_response now k s2 else enqueue_pending_response now k s2)"
    using s by (auto simp: send_response_def Let_def)
  from try_dispatch_frame [OF t(1)] have p: "mg_plane (se_manager s2) = mg_plane (se_manager s)"
      "se_pending s2 = (if ok then AList.update k (?e\<lparr>pe_terminal := True, pe_enqueued := False\<rparr>) (se_pending ?s)
        else se_pending ?s)"
    by simp_all
  have m2: "read_messages s2 = read_messages s" using p(1) by (simp add: read_messages_def)
  obtain e2 where e2: "map_of (se_pending s2) k = Some e2" "pe_reserved e2" "reserved (se_pending s2) = reserved (se_pending s)"
      "distinct (map fst (se_pending s2))"
    using p(2) r e(3) reserved_update [of "se_pending ?s" k ?e "?e\<lparr>pe_terminal := True, pe_enqueued := False\<rparr>"]
    by (cases ok) (auto simp: update_conv' distinct_update)
  show ?thesis
  proof (cases ok)
    case True
    then show ?thesis using remove_pending_reserved [OF e2(1,2,4), of now] m m2 e2(3) t(2) by simp
  next
    case False
    then show ?thesis using enqueue_pending_reserved [OF e2(1,2), of now] m m2 e2(3) t(2) by simp
  qed
qed

text \<open>
  C34: A READ request that arrives again while the response to it still waits takes the responder's
  budget a second time, and the waiting response, whose reservation nothing gives back, is
  overwritten: before, the budget counts exactly the waiting responses; afterwards it counts one more.
\<close>

theorem repeated_read_leaks_budget:
  assumes "handle_incoming_read now k h m s = Some (ok, s')" "validate_rma_request h m False 0 s = None"
    and "map_of (se_pending s) k = Some e" "pe_reserved e" "distinct (map fst (se_pending s))"
    and "read_messages s = reserved (se_pending s)" "read_messages s + 1 < 2 ^ 32"
    and "messages_ok (pn_read (mg_plane (se_manager s)))"
      "bytes_ok (mt_request_length m) (pn_read (mg_plane (se_manager s)))"
  shows "read_messages s' = reserved (se_pending s') + 1"
proof -
  let ?n = "mt_request_length m"
  let ?s = "snd (on_plane now (try_reserve_read_responder_budget now (lk_peer k) ?n) s)"
  have g: "fst (on_plane now (try_reserve_read_responder_budget now (lk_peer k) ?n) s)"
    "mg_plane (se_manager ?s) = (mg_plane (se_manager s))\<lparr>pn_notes := [], pn_read := take_budget ?n (pn_read (mg_plane (se_manager s)))\<rparr>"
    using assms(8,9) by (simp_all add: on_plane_plane try_reserve_read_responder_budget_def Let_def)
  then have "read_messages ?s = read_messages s + 1"
    using assms(7) by (simp add: read_messages_def take_budget_def Let_def unat_word_ariths)
  moreover have p: "se_pending ?s = se_pending s" by (rule core_pending [OF core_on_plane])
  ultimately have "read_messages ?s = reserved (se_pending ?s) + 1" using assms(6) by simp
  moreover obtain po where "send_response now k (ht_dst h) (lk_peer k) UET_RESPONSE_W_DATA RC_OK ?n po True (lk_peer k) ?n ?s = Some s'"
    using assms(1,2) g(1) by (auto simp: handle_incoming_read_def Let_def case_prod_beta)
  ultimately show ?thesis using send_response_reserved assms(3-5) unfolding p [symmetric] by blast
qed

text \<open>A responder whose next response fails, with one READ answered and not yet sent.\<close>

definition demo_ses :: ses where
  "demo_ses = (new_ses demo_manager (Some demo_device))\<lparr>se_fail_next := 1,
     se_regions := [3 \<mapsto> \<lparr>mr_start = 0x1000, mr_length = 64, mr_readable = True, mr_writable = True\<rparr>]\<rparr>"

definition demo_key :: request_key where
  "demo_key = \<lparr>lk_job = 5, lk_msg = 9, lk_peer = 2\<rparr>"

definition demo_rma_header :: header_tag where
  "demo_rma_header = \<lparr>ht_pds_type = RUD_REQ, ht_pdc_id = 0, ht_psn = 0, ht_src = 2, ht_dst = 7, ht_job = 5\<rparr>"

definition demo_rma_tag :: "op_type \<Rightarrow> u64 \<Rightarrow> meta_tag" where
  "demo_rma_tag op addr = \<lparr>mt_op = op, mt_msg_id = 9, mt_res_index = 0, mt_reliable = True, mt_request_length = 8,
     mt_fragment_offset = 0, mt_remote_address = addr, mt_remote_key = 3, mt_flags = 0, mt_response_opcode = 0,
     mt_return_code = 0, mt_modified_length = 0\<rparr>"

lemmas demo_ses_defs = demo_ses_def demo_key_def demo_rma_header_def demo_rma_tag_def new_ses_def

definition demo_leaking :: ses where
  "demo_leaking = demo_ses
     \<lparr>se_pending := [(demo_key, new_response 1000 demo_key 7 2 UET_RESPONSE_W_DATA RC_OK 8 None True 2 8)],
      se_manager := demo_manager\<lparr>mg_plane := demo_plane\<lparr>pn_read := unlimited_budget\<lparr>bg_messages := 1, bg_bytes := 8\<rparr>\<rparr>\<rparr>\<rparr>"

lemma demo_rma_valid:
  "validate_rma_request demo_rma_header (demo_rma_tag READ 0x1000) False 0 demo_leaking = None"
  by (simp add: validate_rma_request_def validate_inbound_header_def validate_operation_def demo_leaking_def
      demo_ses_defs)

lemma response_fails:
  "0 < se_fail_next s \<Longrightarrow> send_response now k local remote opcode rc n po res peer bytes s \<noteq> None"
  by (simp add: send_response_def try_dispatch_pending_def Let_def)

lemma fail_next_on_plane [simp]: "se_fail_next (snd (on_plane now f s)) = se_fail_next s"
proof -
  have h: "se_fail_next (hear now n t) = se_fail_next t" for n t
    by (cases n) (auto simp: notify_peer_credits_def schedule_blocked_wakeup_def schedule_response_drain_def
        split: option.split)
  have "se_fail_next (fold (hear now) ns t) = se_fail_next t" for ns t
    by (induction ns arbitrary: t) (simp_all add: h)
  then show ?thesis by (simp add: on_plane_def case_prod_beta)
qed

lemma read_answers:
  "0 < se_fail_next s \<Longrightarrow> handle_incoming_read now k h m s \<noteq> None"
  by (cases "validate_rma_request h m False 0 s";
      cases "fst (on_plane now (try_reserve_read_responder_budget now (lk_peer k) (mt_request_length m)) s)")
    (simp_all add: response_fails handle_incoming_read_def deny_def send_plain_def Let_def case_prod_beta del: not_None_eq)

lemma repeated_read_leaks_budget_witness:
  "\<exists>ok s. handle_incoming_read 0 demo_key demo_rma_header (demo_rma_tag READ 0x1000) demo_leaking = Some (ok, s) \<and>
     read_messages s = reserved (se_pending s) + 1"
proof -
  have f: "0 < se_fail_next demo_leaking" by (simp add: demo_leaking_def demo_ses_def)
  obtain ok s where s: "handle_incoming_read 0 demo_key demo_rma_header (demo_rma_tag READ 0x1000) demo_leaking = Some (ok, s)"
    using read_answers [OF f] by (metis not_None_eq prod.exhaust)
  have "read_messages s = reserved (se_pending s) + 1"
    by (rule repeated_read_leaks_budget [OF s demo_rma_valid, where e =
          "new_response 1000 demo_key 7 2 UET_RESPONSE_W_DATA RC_OK 8 None True 2 8"])
      (simp_all add: demo_leaking_def demo_ses_def read_messages_def messages_ok_def bytes_ok_def unlimited_budget_def)
  then show ?thesis using s by blast
qed

section \<open>A retry that waits for itself\<close>

definition send_budget :: "ses \<Rightarrow> budget" where
  "send_budget s = pn_send (mg_plane (se_manager s))"

text \<open>
  A live SEND at the head of its peer's queue, with no admission, no timeout and no retry event, while
  the only admission there is counts as taken.
\<close>

definition stuck :: "request_key \<Rightarrow> ses \<Rightarrow> bool" where
  "stuck k s \<longleftrightarrow> (\<exists>r. request_of k s = Some r \<and> rq_linked r \<and> \<not> rq_terminal r \<and> \<not> rq_waiting r \<and>
       rq_deadline r = 0 \<and> \<not> rq_send_reserved r \<and> om_op (rq_meta r) = SEND) \<and>
     blocked_keys s (lk_peer k) = [k] \<and> bg_message_limit (send_budget s) = 1 \<and> bg_messages (send_budget s) = 1"

text \<open>The scheduled retry of a SEND that holds the only admission.\<close>

definition retry_due :: "request_key \<Rightarrow> request_state \<Rightarrow> retry_state \<Rightarrow> ses \<Rightarrow> bool" where
  "retry_due k r y s \<longleftrightarrow> request_of k s = Some r \<and> \<not> rq_terminal r \<and> rq_send_reserved r \<and>
     map_of (se_retries s) k = Some y \<and> ry_attempt y = rq_attempt r \<and> om_is_retry (ry_meta y) \<and>
     om_op (ry_meta y) = SEND \<and> metadata_key (ry_meta y) = k \<and> om_delivery_mode (ry_meta y) \<le> 3 \<and>
     of_nat (pk_size (ry_packet y)) \<le> om_length (ry_meta y) \<and> validate_operation_metadata (ry_meta y) s \<and>
     blocked_keys s (lk_peer k) = [] \<and> bg_message_limit (send_budget s) = 1 \<and> bg_messages (send_budget s) = 1"

lemma blocked_reserve:
  assumes "bg_message_limit (send_budget s) = 1" "bg_messages (send_budget s) = 1"
  shows "\<not> fst (on_plane now (try_reserve_send_admission now peer n) s)"
    "bg_message_limit (send_budget (snd (on_plane now (try_reserve_send_admission now peer n) s))) = 1"
    "bg_messages (send_budget (snd (on_plane now (try_reserve_send_admission now peer n) s))) = 1"
proof -
  have m: "\<not> messages_ok (pn_send (mg_plane (se_manager s)))"
    using assms by (simp add: messages_ok_def send_budget_def word_le_nat_alt)
  then show "\<not> fst (on_plane now (try_reserve_send_admission now peer n) s)"
    "bg_message_limit (send_budget (snd (on_plane now (try_reserve_send_admission now peer n) s))) = 1"
    "bg_messages (send_budget (snd (on_plane now (try_reserve_send_admission now peer n) s))) = 1"
    using assms
    by (simp_all add: on_plane_plane send_budget_def try_reserve_send_admission_def Let_def block_peer_def
      put_control_def)
qed

lemma blocked_keys_enqueue:
  assumes "request_of k s = Some r" "\<not> rq_linked r"
  shows "blocked_keys (enqueue_blocked k s) (lk_peer k) = blocked_keys s (lk_peer k) @ [k]"
  using assms by (simp add: enqueue_blocked_def Let_def blocked_keys_def put_request_def update_conv' split: option.split)

lemma blocked_keys_frames [simp]:
  "blocked_keys (change_request k f s) = blocked_keys s" "blocked_keys (put_request k r s) = blocked_keys s"
  "blocked_keys (bump g s) = blocked_keys s" "blocked_keys (s\<lparr>se_phase := ph\<rparr>) = blocked_keys s"
  "blocked_keys (s\<lparr>se_retries := ry\<rparr>) = blocked_keys s"
  by (auto simp: blocked_keys_def change_request_def put_request_def bump_def fun_eq_iff split: option.split)

lemma blocked_keys_core: "core s' = core s \<Longrightarrow> blocked_keys s' = blocked_keys s"
  by (simp add: core_def)

lemma manager_frames [simp]:
  "se_manager (change_request k f s) = se_manager s" "se_manager (put_request k r s) = se_manager s"
  "se_manager (bump g s) = se_manager s" "se_manager (enqueue_blocked k s) = se_manager s"
  by (simp_all add: change_request_def put_request_def bump_def enqueue_blocked_def Let_def split: option.split)

lemma request_enqueue:
  "request_of k' (enqueue_blocked k s) =
    (if k' = k then map_option (\<lambda>r. r\<lparr>rq_linked := True, rq_blocked := rq_blocked r \<or> \<not> rq_linked r\<rparr>) (request_of k s)
     else request_of k' s)"
  by (auto simp: enqueue_blocked_def Let_def split: option.split)

text \<open>Dispatching a SEND that has no admission when there is none left: it is queued.\<close>

lemma dispatch_blocked:
  assumes "request_of k s = Some r" "\<not> rq_terminal r" "\<not> rq_waiting r" "rq_deadline r = 0" "\<not> rq_send_reserved r"
    "om_op (rq_meta r) = SEND" "blocked_keys s (lk_peer k) = (if rq_linked r then [k] else [])"
    "bg_message_limit (send_budget s) = 1" "bg_messages (send_budget s) = 1"
  shows "\<exists>s'. dispatch_request_packets now k s = Some (True, s') \<and> stuck k s' \<and> se_retries s' = se_retries s"
proof -
  let ?n = "ucast (om_length (rq_meta r)) :: u32"
  let ?s = "snd (on_plane now (try_reserve_send_admission now (lk_peer k) ?n) s)"
  note b = blocked_reserve [OF assms(8,9), of now "lk_peer k" ?n]
  have t: "try_reserve_dispatch_budget now k r s = (False, ?s)"
    using b(1) assms(5,6) by (simp add: try_reserve_dispatch_budget_def Let_def case_prod_beta prod_eq_iff)
  have head: "rq_linked r \<Longrightarrow> is_blocked_head k s"
    using assms(7) by (simp add: blocked_keys_def is_blocked_head_def split: option.splits)
  let ?s' = "change_request k (\<lambda>r. r\<lparr>rq_blocked := True\<rparr>) (enqueue_blocked k ?s)"
  have d: "dispatch_request_packets now k s = Some (True, ?s')"
    using assms(1,2) t head by (cases "rq_linked r") (simp_all add: dispatch_request_packets_def)
  have "blocked_keys ?s' (lk_peer k) = [k]"
  proof (cases "rq_linked r")
    case True
    then show ?thesis using assms(1,7) blocked_keys_core [OF core_on_plane]
      by (simp add: enqueue_blocked_def)
  next
    case False
    then show ?thesis using assms(1,7) blocked_keys_core [OF core_on_plane]
      by (simp add: blocked_keys_enqueue)
  qed
  then have "stuck k ?s'" using assms b(2,3) by (simp add: stuck_def request_enqueue send_budget_def)
  moreover have "se_retries ?s' = se_retries s"
    using core_on_plane [of now "try_reserve_send_admission now (lk_peer k) ?n" s]
    by (simp add: core_def enqueue_blocked_def change_request_def put_request_def Let_def split: option.split)
  ultimately show ?thesis using d by blast
qed

lemma drain_stuck:
  assumes "stuck k s"
  shows "\<exists>s'. drain_blocked_peer_queue now (lk_peer k) s = Some s' \<and> stuck k s'"
proof -
  obtain q where q: "map_of (se_blocked s) (lk_peer k) = Some q" "bq_requests q = [k]"
    using assms by (auto simp: stuck_def blocked_keys_def split: option.splits)
  let ?s = "s\<lparr>se_blocked := AList.update (lk_peer k) (q\<lparr>bq_wakeup := False\<rparr>) (se_blocked s)\<rparr>"
  have m: "map_of (se_blocked ?s) (lk_peer k) = Some (q\<lparr>bq_wakeup := False\<rparr>)" by (simp add: update_conv')
  obtain r where r: "request_of k s = Some r" "rq_linked r" "\<not> rq_terminal r" "\<not> rq_waiting r" "rq_deadline r = 0"
      "\<not> rq_send_reserved r" "om_op (rq_meta r) = SEND"
    using assms by (auto simp: stuck_def)
  have "blocked_keys ?s (lk_peer k) = [k]" using m q(2) by (simp add: blocked_keys_def)
  then obtain s' where s': "dispatch_request_packets now k ?s = Some (True, s')" "stuck k s'"
    using dispatch_blocked [of k ?s r now] r assms by (auto simp: stuck_def send_budget_def)
  obtain r' where r': "request_of k s' = Some r'" "rq_linked r'" using s'(2) by (auto simp: stuck_def)
  have "drain_loop now (lk_peer k) ?s = Some s'"
    using m q(2) r(1,3) s'(1) r' by (subst drain_loop.simps) simp
  then show ?thesis using q(1) s'(2) by (simp add: drain_blocked_peer_queue_def)
qed

lemma retries_frames [simp]:
  "se_retries (put_request k r s) = se_retries s" "se_retries (bump f s) = se_retries s"
  by (simp_all add: put_request_def bump_def)

lemma open_request_facts:
  assumes "k = metadata_key m" "request_of k s = Some r"
  shows "request_of k (open_request now m p s) = Some (renew_request now (get_payload_mtu s) m p (Some r))"
    "blocked_keys (open_request now m p s) = blocked_keys s" "se_manager (open_request now m p s) = se_manager s"
    "se_retries (open_request now m p s) = se_retries s"
  using assms by (simp_all add: open_request_def Let_def)

text \<open>The retry opens the request anew: the reservation of its first attempt is forgotten.\<close>

lemma retry_reopens:
  assumes "retry_due k r y s"
  shows "\<exists>s2. process_send_request now (ry_meta y) (Some (ry_packet y))
       (s\<lparr>se_retries := AList.update k (y\<lparr>ry_event := None\<rparr>) (se_retries s)\<rparr>) =
     (case dispatch_request_packets now k s2 of None \<Rightarrow> None | Some (ok, s3) \<Rightarrow> Some
        (if ok then (True, (bump (\<lambda>c. c\<lparr>sc_successful := sc_successful c + 1\<rparr>) (complete_unanswered now k s3))
             \<lparr>se_phase := SES_IDLE\<rparr>)
         else (False, (handle_dispatch_failure now k s3)\<lparr>se_phase := SES_IDLE\<rparr>))) \<and>
     request_of k s2 = Some (renew_request now (get_payload_mtu s) (ry_meta y) (ry_packet y) (Some r)) \<and>
     blocked_keys s2 = blocked_keys s \<and> send_budget s2 = send_budget s \<and>
     map_of (se_retries s2) k = Some (y\<lparr>ry_event := None\<rparr>)"
proof -
  let ?m = "ry_meta y" and ?s0 = "s\<lparr>se_retries := AList.update k (y\<lparr>ry_event := None\<rparr>) (se_retries s)\<rparr>"
  let ?sa = "(bump (\<lambda>c. c\<lparr>sc_send := sc_send c + 1\<rparr>) ?s0)\<lparr>se_phase := SES_BUSY\<rparr>"
  let ?sb = "authorize_job (ucast (om_job_id ?m)) ?sa"
  have "validate_operation_metadata ?m ?sa = validate_operation_metadata ?m s"
    by (cases "se_checker s") (simp_all add: validate_operation_metadata_def validate_authorization_def bump_def)
  then have v: "validate_operation_metadata ?m ?sa" using assms by (simp add: retry_due_def)
  have mode: "\<not> 3 < om_delivery_mode ?m" using assms by (simp add: retry_due_def not_less)
  have c: "complete_metadata ?m ?sa = (?m, ?sa)"
    using v mode by (simp add: complete_metadata_def validate_operation_metadata_def Let_def)
  have l: "?m\<lparr>om_length := max (om_length ?m) (of_nat (pk_size (ry_packet y)))\<rparr> = ?m"
    using assms by (simp add: retry_due_def max_absorb1)
  have sb: "request_of k ?sb = Some r" "blocked_keys ?sb = blocked_keys s" "send_budget ?sb = send_budget s"
      "get_payload_mtu ?sb = get_payload_mtu s" "map_of (se_retries ?sb) k = Some (y\<lparr>ry_event := None\<rparr>)"
    using assms
    by (simp_all add: authorize_job_def retry_due_def request_of_def bump_def blocked_keys_def fun_eq_iff send_budget_def
        get_payload_mtu_def update_conv')
  have k: "metadata_key ?m = k" "om_is_retry ?m" using assms by (simp_all add: retry_due_def)
  let ?s2 = "open_request now ?m (ry_packet y) ?sb"
  have drop: "drop_scheduled_retry k ?sb = ?sb" using sb(5) by (simp add: drop_scheduled_retry_def)
  have "process_send_request now ?m (Some (ry_packet y)) ?s0 = start_request now ?m (ry_packet y) ?sb"
    using v c l by (simp add: process_send_request_def Let_def request_packet_def)
  moreover have "request_of k ?s2 = Some (renew_request now (get_payload_mtu s) ?m (ry_packet y) (Some r))"
      "blocked_keys ?s2 = blocked_keys s" "send_budget ?s2 = send_budget s"
      "map_of (se_retries ?s2) k = Some (y\<lparr>ry_event := None\<rparr>)"
    using open_request_facts [OF _ sb(1), of ?m now "ry_packet y"] sb(2-) k by (simp_all add: send_budget_def)
  ultimately show ?thesis
    using k drop by (intro exI [of _ ?s2]) (simp add: start_request_def Let_def)
qed

text \<open>
  C35: When the response to a SEND that holds the only admission is lost, the retry that the timeout
  scheduled waits for the admission of its own first attempt: the request ends up at the head of its
  peer's queue with no timeout and no retry left to move it, and waking the queue changes nothing.
\<close>

theorem retry_waits_for_itself:
  assumes "retry_due k r y s"
  shows "\<exists>s'. execute_retry now k s = Some s' \<and> stuck k s' \<and>
    (\<forall>y. map_of (se_retries s') k = Some y \<longrightarrow> ry_event y = None) \<and>
    (\<forall>t. \<exists>s''. drain_blocked_peer_queue t (lk_peer k) s' = Some s'' \<and> stuck k s'')"
proof -
  obtain s2 where s2: "process_send_request now (ry_meta y) (Some (ry_packet y))
       (s\<lparr>se_retries := AList.update k (y\<lparr>ry_event := None\<rparr>) (se_retries s)\<rparr>) =
     (case dispatch_request_packets now k s2 of None \<Rightarrow> None | Some (ok, s3) \<Rightarrow> Some
        (if ok then (True, (bump (\<lambda>c. c\<lparr>sc_successful := sc_successful c + 1\<rparr>) (complete_unanswered now k s3))
             \<lparr>se_phase := SES_IDLE\<rparr>)
         else (False, (handle_dispatch_failure now k s3)\<lparr>se_phase := SES_IDLE\<rparr>)))"
    and r2: "request_of k s2 = Some (renew_request now (get_payload_mtu s) (ry_meta y) (ry_packet y) (Some r))"
      "blocked_keys s2 = blocked_keys s" "send_budget s2 = send_budget s"
      "map_of (se_retries s2) k = Some (y\<lparr>ry_event := None\<rparr>)"
    using retry_reopens [OF assms, of now] by blast
  obtain s3 where s3: "dispatch_request_packets now k s2 = Some (True, s3)" "stuck k s3" "se_retries s3 = se_retries s2"
    using dispatch_blocked [of k s2 _ now, OF r2(1)] r2(2,3) assms
    by (auto simp: retry_due_def renew_request_def blank_request_def Let_def)
  let ?s3 = "(bump (\<lambda>c. c\<lparr>sc_successful := sc_successful c + 1\<rparr>) (complete_unanswered now k s3))\<lparr>se_phase := SES_IDLE\<rparr>"
  obtain r3 where r3: "request_of k s3 = Some r3" "rq_linked r3" using s3(2) by (auto simp: stuck_def)
  have u: "complete_unanswered now k s3 = s3" using r3 by (simp add: complete_unanswered_def)
  have e: "execute_retry now k s = Some (after_retry k ?s3)"
    using assms s2 s3(1) by (simp add: execute_retry_def retry_due_def)
  have y: "map_of (se_retries ?s3) k = Some (y\<lparr>ry_event := None\<rparr>)" using r2(4) s3(3) by (simp add: u bump_def)
  have "stuck k (after_retry k ?s3)"
    using s3(2) y by (simp add: u after_retry_def stuck_def send_budget_def)
  moreover have "\<forall>z. map_of (se_retries (after_retry k ?s3)) k = Some z \<longrightarrow> ry_event z = None"
    using y r3(1) by (auto simp: u after_retry_def update_conv')
  ultimately show ?thesis using e drain_stuck by blast
qed

definition demo_request_meta :: ext_metadata where
  "demo_request_meta = set_source_endpoint 7 1 (set_destination_endpoint 2 1 (op_metadata.extend
     (default_metadata\<lparr>om_job_id := 5, om_messages_id := 9, om_length := 3, om_is_retry := True\<rparr>)
     (ext_metadata.fields 0 0 0 0)))"

definition demo_request :: request_state where
  "demo_request = (blank_request demo_request_meta (empty_packet\<lparr>pk_payload := [1, 2, 3]\<rparr>))
     \<lparr>rq_send_reserved := True, rq_send_bytes := 3, rq_attempt := 1, rq_retries := 1\<rparr>"

definition demo_retry :: retry_state where
  "demo_retry = \<lparr>ry_meta = demo_request_meta, ry_packet = empty_packet\<lparr>pk_payload := [1, 2, 3]\<rparr>, ry_waiting = False,
     ry_count = 1, ry_next = 80, ry_attempt = 1, ry_trigger = RESPONSE_TIMEOUT, ry_event = Some 80000000\<rparr>"

definition demo_retrying :: ses where
  "demo_retrying = demo_ses\<lparr>se_requests := [(demo_key, demo_request)], se_retries := [(demo_key, demo_retry)],
      se_manager := demo_manager\<lparr>mg_plane := demo_plane
        \<lparr>pn_send := unlimited_budget\<lparr>bg_message_limit := 1, bg_messages := 1, bg_bytes := 3\<rparr>\<rparr>\<rparr>\<rparr>"

lemma demo_retry_due: "retry_due demo_key demo_request demo_retry demo_retrying"
  by (simp add: retry_due_def demo_retrying_def demo_request_def demo_retry_def demo_request_meta_def demo_ses_defs
      request_of_def blank_request_def metadata_key_def build_request_key_def set_source_endpoint_def
      set_destination_endpoint_def op_metadata.defs ext_metadata.defs default_metadata_def pk_size_def empty_packet_def
      validate_operation_metadata_def validate_operation_def validate_authorization_def ext_metadata_valid_def
      blocked_keys_def send_budget_def unlimited_budget_def)

lemma retry_waits_for_itself_witness: "\<exists>s. execute_retry 80000000 demo_key demo_retrying = Some s \<and> stuck demo_key s"
  using retry_waits_for_itself [OF demo_retry_due] by blast

end
