(* ===== verification/SesMemory.thy ===== *)
theory SesMemory
  imports SesBudgets
begin

text \<open>Which memory a request from the network can change: the range check of remote memory access.\<close>

section \<open>The range check\<close>

definition rma_address :: "meta_tag \<Rightarrow> bool \<Rightarrow> u64" where
  "rma_address m write_request =
    (if write_request then mt_remote_address m + ucast (mt_fragment_offset m) else mt_remote_address m)"

definition rma_length :: "meta_tag \<Rightarrow> bool \<Rightarrow> u32 \<Rightarrow> u32" where
  "rma_length m write_request actual = (if write_request then max 1 actual else mt_request_length m)"

declare unat_ucast_u64 [simp]

text \<open>An accepted request is authorised and permitted, and without overflow its range lies in the region.\<close>

lemma accepted_rma:
  assumes "validate_rma_request h m w n s = None"
  obtains r where "se_regions s (mt_remote_key m) = Some r" "if w then mr_writable r else mr_readable r"
    "se_allow_all s \<or> ucast (ht_job h) \<in> set (se_jobs s)" "mr_start r \<le> rma_address m w"
    "rma_address m w + ucast (rma_length m w n) \<le> mr_start r + ucast (mr_length r)"
proof -
  have v: "validate_inbound_header h m s = None" "se_allow_all s \<or> ucast (ht_job h) \<in> set (se_jobs s)"
    using assms by (auto simp: validate_rma_request_def split: option.splits if_splits)
  obtain r where r: "se_regions s (mt_remote_key m) = Some r"
    using assms v by (auto simp: validate_rma_request_def split: option.splits if_splits)
  have "(if w then mr_writable r else mr_readable r) \<and> mr_start r \<le> rma_address m w \<and>
      rma_address m w + ucast (rma_length m w n) \<le> mr_start r + ucast (mr_length r)"
    using assms v r
    by (cases w) (auto simp: validate_rma_request_def rma_address_def rma_length_def Let_def not_less split: if_splits)
  then show thesis using that r v(2) by blast
qed

lemma rma_in_region:
  assumes "validate_rma_request h m w n s = None"
    and "unat (rma_address m w) + unat (rma_length m w n) < 2 ^ 64"
    and "\<And>r. se_regions s (mt_remote_key m) = Some r \<Longrightarrow> unat (mr_start r) + unat (mr_length r) < 2 ^ 64"
  obtains r where "se_regions s (mt_remote_key m) = Some r" "if w then mr_writable r else mr_readable r"
    "se_allow_all s \<or> ucast (ht_job h) \<in> set (se_jobs s)" "unat (mr_start r) \<le> unat (rma_address m w)"
    "unat (rma_address m w) + unat (rma_length m w n) \<le> unat (mr_start r) + unat (mr_length r)"
proof -
  obtain r where r: "se_regions s (mt_remote_key m) = Some r" "if w then mr_writable r else mr_readable r"
    "se_allow_all s \<or> ucast (ht_job h) \<in> set (se_jobs s)" "mr_start r \<le> rma_address m w"
    "rma_address m w + ucast (rma_length m w n) \<le> mr_start r + ucast (mr_length r)"
    by (rule accepted_rma [OF assms(1)])
  have "unat (rma_address m w + ucast (rma_length m w n)) = unat (rma_address m w) + unat (rma_length m w n)"
    using assms(2) by (subst unat_add_nowrap) simp_all
  moreover have "unat (mr_start r + ucast (mr_length r)) = unat (mr_start r) + unat (mr_length r)"
    using assms(3) [OF r(1)] by (subst unat_add_nowrap) simp_all
  ultimately show thesis using that r by (simp add: word_le_nat_alt)
qed

section \<open>The memory of a responder\<close>

definition memory :: "ses \<Rightarrow> mem" where
  "memory s = rs_mem (mg_rx (se_manager s))"

lemma memory_on_plane [simp]: "memory (snd (on_plane now f s)) = memory s"
  by (simp add: memory_def on_plane_plane)

lemma memory_frames [simp]:
  "memory (s\<lparr>se_pending := e\<rparr>) = memory s" "memory (s\<lparr>se_queues := q\<rparr>) = memory s" "memory (bump f s) = memory s"
  "memory (s\<lparr>se_fail_next := x\<rparr>) = memory s"
  by (simp_all add: memory_def bump_def)

lemma memory_fragments: "send_fragments now e is s = Some (ok, s') \<Longrightarrow> memory s' = memory s"
proof (induction "now" e "is" s rule: send_fragments.induct)
  case (2 now e i "is" s)
  obtain p where p: "response_fragment now (get_payload_mtu s) (of_nat i) e = Some p"
    using "2.prems" by (auto split: option.splits)
  obtain b s1 where d: "dispatch_semantic_packet now (pe_meta e) p s = Some (b, s1)"
    using "2.prems" p by (auto split: option.splits)
  from dispatch_semantic [OF d] have f: "memory s1 = memory s" by (auto simp: memory_def semantics_of_def)
  show ?case
  proof (cases b)
    case True
    then show ?thesis using "2.IH" [OF p d [unfolded True] refl] "2.prems" p d f by simp
  next
    case False
    then show ?thesis using "2.prems" p d f by auto
  qed
qed simp

lemma memory_try:
  assumes "try_dispatch_pending now k e s = Some (ok, s')"
  shows "memory s' = memory s"
proof (cases "0 < se_fail_next s")
  case True
  then show ?thesis using assms by (auto simp: try_dispatch_pending_def)
next
  case False
  let ?n = "[0..<unat (if pe_packets e = 0 then 1 else pe_packets e)]"
  obtain s1 where s1: "send_fragments now e ?n s = Some (ok, s1)"
      "s' = (if ok then s1\<lparr>se_pending := AList.update k (e\<lparr>pe_terminal := True, pe_enqueued := False\<rparr>) (se_pending s1)\<rparr>
         else s1)"
    using assms False by (auto simp: try_dispatch_pending_def)
  show ?thesis using memory_fragments [OF s1(1)] by (simp add: s1(2))
qed

lemma memory_remove [simp]: "memory (remove_pending_response now k s) = memory s"
  by (simp add: remove_pending_response_def release_pending_budget_def Let_def split: option.split)

lemma memory_drain [simp]: "memory (schedule_response_drain now peer b s) = memory s"
  by (simp add: schedule_response_drain_def split: option.split)

lemma memory_enqueue [simp]: "memory (enqueue_pending_response now k s) = memory s"
  by (simp add: enqueue_pending_response_def Let_def memory_def schedule_response_drain_def split: option.split)

lemma memory_send: "send_response now k local remote opcode rc n po res peer bytes s = Some s' \<Longrightarrow> memory s' = memory s"
  by (auto simp: send_response_def Let_def dest: memory_try split: if_splits)

lemma memory_plain: "send_plain now k local remote opcode rc n s = Some s' \<Longrightarrow> memory s' = memory s"
  unfolding send_plain_def by (rule memory_send)

lemma memory_deny: "deny now k local remote rc s = Some (ok, s') \<Longrightarrow> memory s' = memory s"
  by (auto simp: deny_def dest: memory_plain)

text \<open>An accepted WRITE puts the packet's bytes at its address, whatever becomes of the response.\<close>

definition write_budget_free :: "ns \<Rightarrow> request_key \<Rightarrow> pdc_ses_request \<Rightarrow> ses \<Rightarrow> bool" where
  "write_budget_free now k q s =
    fst (on_plane now (try_reserve_write_budget now (lk_peer k) (of_nat (pk_size (pq_packet q)))) s)"

lemma write_effect:
  assumes "handle_incoming_write now k q h m s = Some (ok, s')"
    "validate_rma_request h m True (of_nat (pk_size (pq_packet q))) s = None" "write_budget_free now k q s"
  shows "ok \<and> memory s' =
    snd (write_packet_bytes (pq_packet q) (rma_address m True) 0 (of_nat (pk_size (pq_packet q))) (memory s))"
proof -
  let ?n = "of_nat (pk_size (pq_packet q)) :: u32"
  let ?r = "on_plane now (try_reserve_write_budget now (lk_peer k) ?n) s"
  obtain s3 s4 where s3: "send_plain now k (local_endpoint s) (lk_peer k) UET_DEFAULT_RESPONSE RC_OK ?n s3 = Some s4"
      "ok" "s' = s4" "s3 = snd (on_plane now (\<lambda>p. (True, release_write_budget now (lk_peer k) ?n p))
        (snd (on_rx (\<lambda>x. (True, x\<lparr>rs_mem := snd (write_packet_bytes (pq_packet q) (rma_address m True) 0 ?n (rs_mem x))\<rparr>))
          (snd ?r))))"
    using assms unfolding write_budget_free_def
    by (auto simp: handle_incoming_write_def Let_def case_prod_beta rma_address_def)
  have "memory s3 = snd (write_packet_bytes (pq_packet q) (rma_address m True) 0 ?n (memory (snd ?r)))"
    unfolding s3(4) memory_on_plane by (simp add: memory_def on_rx_def case_prod_beta on_plane_plane)
  then show ?thesis using memory_plain [OF s3(1)] s3(2,3) by simp
qed

lemma write_memory:
  assumes "handle_incoming_write now k q h m s = Some (ok, s')" "memory s' \<noteq> memory s"
  shows "validate_rma_request h m True (of_nat (pk_size (pq_packet q))) s = None \<and>
    memory s' = snd (write_packet_bytes (pq_packet q) (rma_address m True) 0 (of_nat (pk_size (pq_packet q))) (memory s))"
proof (cases "validate_rma_request h m True (of_nat (pk_size (pq_packet q))) s")
  case None
  let ?r = "on_plane now (try_reserve_write_budget now (lk_peer k) (of_nat (pk_size (pq_packet q)))) s"
  have "write_budget_free now k q s"
  proof (rule ccontr)
    assume "\<not> write_budget_free now k q s"
    then have "deny now k (local_endpoint s) (lk_peer k) RC_RESOURCE_EXHAUST (snd ?r) = Some (ok, s')"
      using assms(1) None by (simp add: handle_incoming_write_def Let_def case_prod_beta write_budget_free_def)
    from memory_deny [OF this] show False using assms(2) by simp
  qed
  then show ?thesis using write_effect [OF assms(1) None] None by simp
next
  case (Some rc)
  then have "deny now k (local_endpoint s) (lk_peer k) rc s = Some (ok, s')"
    using assms(1) by (simp add: handle_incoming_write_def Let_def)
  from memory_deny [OF this] show ?thesis using assms(2) by simp
qed

lemma written_at:
  assumes "snd (write_packet_bytes p base 0 n mm) a \<noteq> mm a" "unat base + unat n < 2 ^ 64"
  shows "unat base \<le> unat a \<and> unat a < unat base + unat n"
proof -
  have d: "unat (a - base) < unat n"
    using assms(1) by (auto simp: write_packet_bytes_def mem_write_def word_less_nat_alt word_le_nat_alt min_def split: if_splits)
  then have "unat (base + (a - base)) = unat base + unat (a - base)"
    using assms(2) by (subst unat_add_nowrap) simp_all
  then show ?thesis using d by simp
qed

text \<open>
  C32: An incoming WRITE changes memory only inside a registered region that is writable, under its key
  and for an authorised job, provided neither the packet's range nor the region wraps around 64 bits.
\<close>

theorem write_stays_in_region:
  assumes "handle_incoming_write now k q h m s = Some (ok, s')" "memory s' a \<noteq> memory s a"
    and "unat (rma_address m True) + unat (rma_length m True (of_nat (pk_size (pq_packet q)))) < 2 ^ 64"
    and "\<And>r. se_regions s (mt_remote_key m) = Some r \<Longrightarrow> unat (mr_start r) + unat (mr_length r) < 2 ^ 64"
  shows "\<exists>r. se_regions s (mt_remote_key m) = Some r \<and> mr_writable r \<and>
    (se_allow_all s \<or> ucast (ht_job h) \<in> set (se_jobs s)) \<and>
    unat (mr_start r) \<le> unat a \<and> unat a < unat (mr_start r) + unat (mr_length r)"
proof -
  let ?n = "of_nat (pk_size (pq_packet q)) :: u32"
  have w: "validate_rma_request h m True ?n s = None"
      "memory s' = snd (write_packet_bytes (pq_packet q) (rma_address m True) 0 ?n (memory s))"
    using write_memory [OF assms(1)] assms(2) by metis+
  obtain r where r: "se_regions s (mt_remote_key m) = Some r" "mr_writable r"
      "se_allow_all s \<or> ucast (ht_job h) \<in> set (se_jobs s)" "unat (mr_start r) \<le> unat (rma_address m True)"
      "unat (rma_address m True) + unat (rma_length m True ?n) \<le> unat (mr_start r) + unat (mr_length r)"
    by (rule rma_in_region [OF w(1) assms(3,4)]) auto
  have l: "unat ?n \<le> unat (rma_length m True ?n)" by (simp add: rma_length_def word_le_nat_alt [symmetric])
  have "unat (rma_address m True) \<le> unat a \<and> unat a < unat (rma_address m True) + unat ?n"
    using assms(2,3) w(2) l by (intro written_at) auto
  then show ?thesis using r l by (intro exI [of _ r]) auto
qed

text \<open>
  C33: The end of a WRITE's range is computed modulo 2^64: a WRITE to the last bytes of the address space ends
  at 0 and is accepted under every writable region, wherever that lies below.
\<close>

theorem top_of_memory_written:
  assumes "handle_incoming_write now k q h m s = Some (ok, s')" "validate_inbound_header h m s = None"
    and "se_allow_all s \<or> ucast (ht_job h) \<in> set (se_jobs s)"
    and "se_regions s (mt_remote_key m) = Some r" "mr_writable r"
    and "rma_address m True = - of_nat (pk_size (pq_packet q))" "0 < pk_size (pq_packet q)" "pk_size (pq_packet q) < 2 ^ 32"
    and "unat (mr_start r) + pk_size (pq_packet q) \<le> 2 ^ 64" "write_budget_free now k q s"
  shows "ok \<and> memory s' = mem_write (- of_nat (pk_size (pq_packet q))) (pk_bytes (pq_packet q)) (memory s)"
proof -
  let ?z = "pk_size (pq_packet q)"
  have z: "unat (of_nat ?z :: u32) = ?z" "unat (of_nat ?z :: u64) = ?z"
    using assms(8) by (simp_all only: unat_of_nat take_bit_eq_mod) simp_all
  then have n: "max 1 (of_nat ?z) = (of_nat ?z :: u32)" "(of_nat ?z :: u64) \<noteq> 0" "ucast (of_nat ?z :: u32) = (of_nat ?z :: u64)"
    using assms(7) by (simp_all add: max_def word_le_nat_alt flip: word_unat_eq_iff) (auto simp: word_unat_eq_iff)
  have "unat (- of_nat ?z :: u64) = 2 ^ 64 - ?z" using unat_sub_if' [of 0 "of_nat ?z :: u64"] n(2) z assms(7) by simp
  then have start: "mr_start r \<le> - of_nat ?z" using assms(9) by (simp add: word_le_nat_alt)
  have v: "validate_rma_request h m True (of_nat ?z) s = None"
    using assms(2-6) start n
    by (simp add: validate_rma_request_def Let_def rma_address_def not_less)
  show ?thesis
    using write_effect [OF assms(1) v assms(10)] assms(6,7) n z
    by (simp add: write_packet_bytes_def length_pk_bytes [symmetric] word_le_nat_alt)
qed

section \<open>Witnesses\<close>

definition demo_write :: pdc_ses_request where
  "demo_write = \<lparr>pq_pdc_id = 0, pq_packet = empty_packet\<lparr>pk_payload := [1, 2]\<rparr>, pq_len = 2, pq_psn = 0\<rparr>"

lemma demo_write_size [simp]: "pk_size (pq_packet demo_write) = 2" "pk_bytes (pq_packet demo_write) = [1, 2]"
  by (simp_all add: demo_write_def pk_size_def pk_bytes_def empty_packet_def)

lemma write_answers:
  assumes "0 < se_fail_next s"
  shows "\<exists>ok s'. handle_incoming_write now k q h m s = Some (ok, s')"
proof -
  have x: "se_fail_next (snd (on_rx f t)) = se_fail_next t" for f :: "rx_state \<Rightarrow> bool \<times> rx_state" and t
    by (simp add: on_rx_def case_prod_beta)
  have "handle_incoming_write now k q h m s \<noteq> None"
    using assms x
    by (cases "validate_rma_request h m True (of_nat (pk_size (pq_packet q))) s";
        cases "fst (on_plane now (try_reserve_write_budget now (lk_peer k) (of_nat (pk_size (pq_packet q)))) s)")
      (simp_all add: response_fails handle_incoming_write_def deny_def send_plain_def Let_def case_prod_beta del: not_None_eq)
  then show ?thesis by (metis not_None_eq prod.exhaust)
qed

lemma demo_write_valid:
  "validate_inbound_header demo_rma_header (demo_rma_tag WRITE a) demo_ses = None"
  "validate_rma_request demo_rma_header (demo_rma_tag WRITE 0x1000) True 2 demo_ses = None"
  "write_budget_free 0 demo_key demo_write demo_ses"
  by (simp_all add: validate_rma_request_def validate_inbound_header_def validate_operation_def demo_ses_defs
      write_budget_free_def on_plane_plane try_reserve_write_budget_def messages_ok_def bytes_ok_def
      demo_manager_def set_net_device_def new_manager_def demo_plane_def unlimited_budget_def Let_def)

lemma demo_memory: "memory demo_ses a = 0"
  by (simp add: memory_def demo_ses_defs demo_manager_def set_net_device_def new_manager_def demo_rx_def)

lemma write_stays_in_region_witness:
  "\<exists>ok s. handle_incoming_write 0 demo_key demo_write demo_rma_header (demo_rma_tag WRITE 0x1000) demo_ses = Some (ok, s) \<and>
     memory s 0x1001 = 2 \<and> (\<exists>r. se_regions demo_ses 3 = Some r \<and> mr_writable r \<and> unat (mr_start r) \<le> 0x1001 \<and>
       0x1001 < unat (mr_start r) + unat (mr_length r))"
proof -
  let ?m = "demo_rma_tag WRITE 0x1000"
  have f: "0 < se_fail_next demo_ses" by (simp add: demo_ses_def)
  obtain ok s where s: "handle_incoming_write 0 demo_key demo_write demo_rma_header ?m demo_ses = Some (ok, s)"
    using write_answers [OF f] by blast
  have w: "memory s 0x1001 = 2"
    using write_effect [OF s] demo_write_valid
    by (simp add: write_packet_bytes_def rma_address_def demo_rma_tag_def mem_write_def)
  have ne: "memory s 0x1001 \<noteq> memory demo_ses 0x1001" using w by (simp add: demo_memory)
  have "\<exists>r. se_regions demo_ses (mt_remote_key ?m) = Some r \<and> mr_writable r \<and>
      (se_allow_all demo_ses \<or> ucast (ht_job demo_rma_header) \<in> set (se_jobs demo_ses)) \<and>
      unat (mr_start r) \<le> unat (0x1001 :: u64) \<and> unat (0x1001 :: u64) < unat (mr_start r) + unat (mr_length r)"
    by (rule write_stays_in_region [OF s ne])
      (simp_all add: rma_address_def rma_length_def demo_rma_tag_def demo_ses_def split: if_splits)
  then show ?thesis using s w by (auto simp: demo_rma_tag_def)
qed

lemma top_of_memory_written_witness:
  "\<exists>ok s. handle_incoming_write 0 demo_key demo_write demo_rma_header (demo_rma_tag WRITE (- 2)) demo_ses = Some (ok, s) \<and>
     memory s (- 1) = 2"
proof -
  let ?m = "demo_rma_tag WRITE (- 2)"
  have f: "0 < se_fail_next demo_ses" by (simp add: demo_ses_def)
  obtain ok s where s: "handle_incoming_write 0 demo_key demo_write demo_rma_header ?m demo_ses = Some (ok, s)"
    using write_answers [OF f] by blast
  have "ok \<and> memory s = mem_write (- of_nat (pk_size (pq_packet demo_write))) (pk_bytes (pq_packet demo_write)) (memory demo_ses)"
    by (rule top_of_memory_written [OF s demo_write_valid(1) _ _ _ _ _ _ _ demo_write_valid(3),
          where r = "\<lparr>mr_start = 0x1000, mr_length = 64, mr_readable = True, mr_writable = True\<rparr>"])
      (simp_all add: demo_ses_def new_ses_def demo_rma_tag_def rma_address_def)
  then have "memory s (- 1) = 2" by (simp add: mem_write_def)
  then show ?thesis using s by blast
qed

end
