(* ===== verification/SesDelivery.thy ===== *)
theory SesDelivery
  imports SesResponder PdsDelivery
begin

text \<open>
  From requester to receiver: the packets that \<open>SesManager\<close> makes of a request are the chunks that
  \<open>PdsManager\<close> counts, orders and puts together.
\<close>

section \<open>The packets of a request\<close>

lemma chunks_concat:
  assumes "0 < P"
  shows "concat (map (\<lambda>i. chunk P i msg) [0..<n]) = take (n * P) msg"
proof (induction n)
  case (Suc n)
  then show ?case using take_add [of "n * P" P msg] by (simp add: chunk_def add.commute [of P])
qed simp

lemma n_chunks_cover: "0 < P \<Longrightarrow> L \<le> n_chunks P L * P"
proof -
  assume P: "0 < P"
  have "L + P - 1 < Suc ((L + P - 1) div P) * P" using P by (simp add: dividend_less_div_times)
  then have "0 < L \<Longrightarrow> L \<le> (L + P - 1) div P * P" using P unfolding mult_Suc by linarith
  then show ?thesis using P by (cases "L = 0") (simp_all add: n_chunks_def)
qed

lemma n_chunks_pos: "0 < P \<Longrightarrow> 0 < n_chunks P L"
  using n_chunks_cover [of P L] by (auto simp: n_chunks_def intro: gr0I)

text \<open>A request whose metadata names the size of its packet, and whose packets have been counted.\<close>

definition sized :: "u32 \<Rightarrow> request_state \<Rightarrow> bool" where
  "sized mtu r \<longleftrightarrow> om_op (rq_meta r) \<noteq> READ \<and> unat (om_length (rq_meta r)) = pk_size (rq_packet r) \<and>
     rq_packets r = calculate_packet_count mtu (rq_meta r) \<and> mtu \<noteq> 0 \<and>
     pk_size (rq_packet r) + unat mtu \<le> 2 ^ 32"

lemma sized_length:
  assumes "sized mtu r"
  shows "unat (ucast (om_length (rq_meta r)) :: u32) = pk_size (rq_packet r)"
proof -
  have "0 < unat mtu" using assms by (simp add: sized_def unat_gt_0)
  then have "pk_size (rq_packet r) < 2 ^ 32" using assms by (simp add: sized_def)
  then show ?thesis using assms by (simp add: sized_def unsigned_ucast_eq take_bit_nat_eq_self)
qed

lemma packet_count_expected:
  "mtu \<noteq> 0 \<Longrightarrow> calculate_packet_count mtu m = compute_expected_chunks mtu (ucast (om_length m))"
  by (simp add: calculate_packet_count_def compute_expected_chunks_def Let_def)

lemma packets_counted:
  assumes "sized mtu r"
  shows "unat (rq_packets r) = n_chunks (unat mtu) (pk_size (rq_packet r))" "max 1 (rq_packets r) = rq_packets r"
proof -
  have P: "0 < unat mtu" using assms by (simp add: sized_def unat_gt_0)
  show n: "unat (rq_packets r) = n_chunks (unat mtu) (pk_size (rq_packet r))"
    using assms expected_chunks_nat [OF P, of "ucast (om_length (rq_meta r))"]
    by (simp add: sized_length [OF assms] packet_count_expected sized_def)
  show "max 1 (rq_packets r) = rq_packets r"
    using n_chunks_pos [OF P] n by (intro max_one_pos) simp
qed

text \<open>Packet \<open>i\<close> exists and carries chunk \<open>i\<close>.\<close>

lemma fragment_carries:
  assumes r: "sized mtu r" and i: "i < n_chunks (unat mtu) (pk_size (rq_packet r))"
  obtains p m where "request_fragment now mtu (rq_packets r) (of_nat i) r = Some p" "pk_meta p = Some m"
    "carries (unat mtu) i (pk_bytes (rq_packet r)) m (Some p)" "mt_msg_id m = om_messages_id (rq_meta r)"
    "mt_request_length m = ucast (om_length (rq_meta r))" "mt_op m = om_op (rq_meta r)"
proof -
  let ?P = "unat mtu" and ?L = "pk_size (rq_packet r)" and ?m = "rq_meta r"
  have P: "0 < ?P" using r by (simp add: sized_def unat_gt_0)
  have below: "i * ?P < ?L \<or> ?L = 0 \<and> i = 0" by (rule n_chunks_below [OF P i])
  have i32: "i * ?P < 2 ^ 32" using below r by (auto simp: sized_def)
  then have "i < 2 ^ 32" using P by (metis less_le_trans nat_le_iff_add mult.right_neutral mult_le_mono2 not_less Suc_leI One_nat_def le_less_trans)
  then have ui: "unat (of_nat i :: u32) = i" by (intro unat_of_nat_lt) simp
  have off: "of_nat i * mtu = (of_nat (i * ?P) :: u32)" by simp
  have uoff: "unat (of_nat i * mtu) = i * ?P" unfolding off by (rule unat_of_nat_lt) (use i32 in simp)
  let ?total = "ucast (om_length ?m) :: u32"
  have "of_nat i * mtu \<le> ?total" using below by (auto simp: word_le_nat_alt uoff sized_length [OF r])
  then have len: "unat (min mtu (?total - of_nat i * mtu)) = min ?P (?L - i * ?P)"
    by (simp add: min_def word_le_nat_alt unat_sub uoff sized_length [OF r])
  define t where "t = attach_semantic_tags ?m (of_nat i * mtu) ?total False 0 0 ?total"
  have frag: "\<exists>q. (if rq_packets r = 1 \<or> om_op ?m = READ then Some (rq_packet r)
       else create_fragment (of_nat i * mtu) (min mtu (?total - of_nat i * mtu)) (rq_packet r)) = Some q \<and>
       pk_bytes q = chunk ?P i (pk_bytes (rq_packet r))"
  proof (cases "rq_packets r = 1")
    case True
    then have "n_chunks ?P ?L = 1" using packets_counted(1) [OF r] by simp
    then have "i = 0" "?L \<le> ?P" using i n_chunks_cover [OF P, of ?L] by simp_all
    then show ?thesis using True by (simp add: chunk_def length_pk_bytes)
  next
    case False
    have le: "i * ?P + min ?P (?L - i * ?P) \<le> ?L" using below by auto
    have "create_fragment (of_nat i * mtu) (min mtu (?total - of_nat i * mtu)) (rq_packet r) =
        Some ((rq_packet r)\<lparr>pk_headers := [], pk_payload := take (min ?P (?L - i * ?P)) (drop (i * ?P) (pk_bytes (rq_packet r)))\<rparr>)"
      using le by (simp only: create_fragment_def uoff len not_less [symmetric] if_False)
    moreover have "take (min ?P (?L - i * ?P)) (drop (i * ?P) (pk_bytes (rq_packet r))) = chunk ?P i (pk_bytes (rq_packet r))"
      by (simp add: chunk_def min_def length_pk_bytes)
    ultimately show ?thesis using False r by (simp add: sized_def pk_bytes_def [of "_ \<lparr>pk_payload := _\<rparr>"])
  qed
  then obtain q where q: "(if rq_packets r = 1 \<or> om_op ?m = READ then Some (rq_packet r)
       else create_fragment (of_nat i * mtu) (min mtu (?total - of_nat i * mtu)) (rq_packet r)) = Some q"
    "pk_bytes q = chunk ?P i (pk_bytes (rq_packet r))" by blast
  have f: "request_fragment now mtu (rq_packets r) (of_nat i) r = Some ((t q)\<lparr>pk_timing := Some now\<rparr>)"
    by (simp add: request_fragment_def Let_def q(1) t_def)
  have b: "pk_bytes ((t q)\<lparr>pk_timing := Some now\<rparr>) = pk_bytes q" by (simp add: t_def attach_semantic_tags_def pk_bytes_def)
  obtain m where m: "pk_meta ((t q)\<lparr>pk_timing := Some now\<rparr>) = Some m" "mt_fragment_offset m = of_nat i * mtu"
      "mt_msg_id m = om_messages_id ?m" "mt_request_length m = ucast (om_length ?m)" "mt_op m = om_op ?m"
    by (simp add: t_def attach_semantic_tags_def set_is_response_def set_is_retry_def metadata_tag_def)
  have "carries ?P i (pk_bytes (rq_packet r)) m (Some ((t q)\<lparr>pk_timing := Some now\<rparr>))"
    unfolding carries_def copy_packet_bytes_def option.case b q(2) m(2) off by simp
  then show thesis using that f m by blast
qed

text \<open>
  C3: The two sides of a SEND or WRITE agree: the packets the requester makes of it, put one after the
  other, are the packet it was given; the receiver, from the tag of packet \<open>i\<close> alone, computes the index
  \<open>i\<close> and the number of packets the requester counted.
\<close>

theorem fragmentation_agrees:
  assumes "sized mtu r"
  shows "\<exists>ps. map (\<lambda>i. request_fragment now mtu (rq_packets r) (of_nat i) r) [0..<unat (rq_packets r)] = map Some ps \<and>
    concat (map pk_bytes ps) = pk_bytes (rq_packet r) \<and>
    (\<forall>i < length ps. \<exists>m. pk_meta (ps ! i) = Some m \<and> compute_chunk_index m mtu = of_nat i \<and>
       compute_expected_chunks mtu (mt_request_length m) = rq_packets r)"
proof -
  let ?f = "\<lambda>i. request_fragment now mtu (rq_packets r) (of_nat i) r" and ?P = "unat mtu"
  let ?n = "n_chunks ?P (pk_size (rq_packet r))" and ?msg = "pk_bytes (rq_packet r)"
  let ?ps = "map (\<lambda>i. the (?f i)) [0..<?n]"
  have P: "0 < ?P" using assms by (simp add: sized_def unat_gt_0)
  note n = packets_counted(1) [OF assms]
  have frag: "\<exists>p m. ?f i = Some p \<and> pk_meta p = Some m \<and> carries ?P i ?msg m (Some p) \<and>
      mt_request_length m = ucast (om_length (rq_meta r))" if "i < ?n" for i
    using fragment_carries [OF assms that, of now] by metis
  have bytes: "pk_bytes (the (?f i)) = chunk ?P i ?msg" if "i < ?n" for i
    using frag [OF that] by (auto simp: carries_def copy_packet_bytes_def)
  have "map ?f [0..<?n] = map Some ?ps" using frag by (fastforce intro!: map_cong)
  moreover have "concat (map pk_bytes ?ps) = concat (map (\<lambda>i. chunk ?P i ?msg) [0..<?n])"
    by (rule arg_cong [where f = concat]) (use bytes in \<open>auto simp del: map_map simp: map_map [symmetric] intro!: nth_equalityI\<close>)
  then have "concat (map pk_bytes ?ps) = ?msg"
    using chunks_concat [OF P] n_chunks_cover [OF P, of "length ?msg"] by (simp add: length_pk_bytes)
  moreover have "\<exists>m. pk_meta (?ps ! i) = Some m \<and> compute_chunk_index m mtu = of_nat i \<and>
       compute_expected_chunks mtu (mt_request_length m) = rq_packets r" if i: "i < ?n" for i
  proof -
    obtain p m where p: "?f i = Some p" "pk_meta p = Some m" "carries ?P i ?msg m (Some p)"
        "mt_request_length m = ucast (om_length (rq_meta r))" using frag [OF i] by blast
    have "i * ?P < 2 ^ 32" using n_chunks_below [OF P i] assms by (auto simp: sized_def)
    then have "unat (compute_chunk_index m mtu) = i" by (rule carries_index [OF p(3) P])
    then have "compute_chunk_index m mtu = of_nat i" by (metis of_nat_unat ucast_id)
    then show ?thesis using p i assms by (simp add: packet_count_expected sized_def)
  qed
  ultimately show ?thesis unfolding n by (intro exI [of _ ?ps]) simp
qed

section \<open>Delivery\<close>

lemma renew_sized:
  assumes "om_op m \<noteq> READ" "unat (om_length m) = pk_size p" "mtu \<noteq> 0" "pk_size p + unat mtu \<le> 2 ^ 32"
  shows "sized mtu (renew_request now mtu m p e)"
  using assms by (simp add: sized_def renew_request_def blank_request_def Let_def)

lemma renew_fields [simp]:
  "rq_packet (renew_request now mtu m p e) = p" "rq_meta (renew_request now mtu m p e) = m"
  by (simp_all add: renew_request_def blank_request_def Let_def)

text \<open>
  C2: From memory to memory: the packets the requester makes of a SEND arrive in any order, each at
  least once and any number of times, also from several attempts, within one state time-to-live of a
  receiver that has posted a buffer. Then the buffer holds the requester's bytes (cut off at its length), no other
  byte of memory changed, and the OK answer goes out with the packet that completes the message and
  with no earlier one.
\<close>

theorem request_delivered:
  fixes s :: rx_state
  defines "P \<equiv> compute_payload_per_packet s"
  assumes r: "r = renew_request t0 P meta pkt earlier" "om_op meta = SEND" "unat (om_length meta) = pk_size pkt"
      "pk_size pkt + unat P \<le> 2 ^ 32"
    and h: "ht_src h = em_src_node meta" "ht_job h = om_job_id meta"
    and k: "k = \<lparr>rk_op = SEND, rk_job = ucast (om_job_id meta), rk_msg = ucast (om_messages_id meta),
        rk_src = em_src_node meta, rk_pdc = pdc\<rparr>"
    and lk: "lk = \<lparr>lk_job = ucast (om_job_id meta), lk_msg = ucast (om_messages_id meta), lk_peer = em_src_node meta\<rparr>"
    and new: "map_of (rs_ctxs s) k = None" "map_of (rs_tombs s) k = None" "map_of (rs_lookup_tombs s) lk = None"
    and posted: "map_of (rs_posted s) lk = Some b" "\<not> pr_consumed b" "pr_base b \<noteq> 0" "pr_length b \<noteq> 0"
    and free: "pl_arrival (rs_pool s) < pl_max_arrival (rs_pool s)"
    and sent: "list_all2 (\<lambda>(t, p) i. i < unat (rq_packets r) \<and>
        (\<exists>now. request_fragment now P (rq_packets r) (of_nat i) r = Some p) \<and>
        from_ms \<le> now_ms t \<and> now_ms t < from_ms + state_ttl s) xs idx"
    and all_packets: "set idx = {..<unat (rq_packets r)}"
    and run: "receive_sends pdc h (map (\<lambda>(t, p). (t, the (pk_meta p), Some p)) xs) s = (rs, s')"
  shows "rs_mem s' = mem_write (pr_base b) (take (unat (pr_length b)) (pk_bytes pkt)) (rs_mem s) \<and>
    length rs = length xs \<and>
    (\<forall>j < length xs. send_answer (fst (xs ! j)) (set (take (Suc j) idx) = {..<unat (rq_packets r)}) (pk_size pkt) (rs ! j))"
proof -
  have P0: "P \<noteq> 0" using payload_per_packet_pos [of s] by (auto simp: P_def)
  have sized: "sized P r" unfolding r(1) by (rule renew_sized) (use r P0 in simp_all)
  have n: "unat (rq_packets r) = n_chunks (unat P) (length (pk_bytes pkt))"
    using packets_counted(1) [OF sized] by (simp add: r(1) length_pk_bytes)
  have one: "packet_of (pk_bytes pkt) (unat P) (om_messages_id meta) from_ms (state_ttl s) (t, the (pk_meta p), Some p) i"
    if "i < unat (rq_packets r)" "request_fragment now P (rq_packets r) (of_nat i) r = Some p"
      "from_ms \<le> now_ms t" "now_ms t < from_ms + state_ttl s" for t p i now
  proof -
    note t = that
    have i: "i < n_chunks (unat P) (pk_size (rq_packet r))" using that(1) n by (simp add: r(1) length_pk_bytes)
    have "unat (ucast (om_length meta) :: u32) = pk_size pkt" using sized_length [OF sized] by (simp add: r(1))
    moreover obtain m where "pk_meta p = Some m" "carries (unat P) i (pk_bytes pkt) m (Some p)"
        "mt_msg_id m = om_messages_id meta" "mt_request_length m = ucast (om_length meta)"
      by (rule fragment_carries [OF sized i, of now]) (use t(2) in \<open>simp add: r(1)\<close>)
    ultimately show ?thesis using t n by (simp add: packet_of_def r(1) length_pk_bytes)
  qed
  have "list_all2 (packet_of (pk_bytes pkt) (unat P) (om_messages_id meta) from_ms (state_ttl s))
      (map (\<lambda>(t, p). (t, the (pk_meta p), Some p)) xs) idx"
    using sent unfolding list_all2_map1 by (rule list_all2_mono) (auto intro: one)
  from send_delivery [OF _ _ new posted free _ this [unfolded P_def] _ run] k lk h r(4) all_packets n
  show ?thesis by (simp add: P_def length_pk_bytes case_prod_beta)
qed

section \<open>Witnesses\<close>

definition three_bytes :: packet where
  "three_bytes = empty_packet\<lparr>pk_payload := [10, 11, 12]\<rparr>"

definition send_three :: ext_metadata where
  "send_three = set_source_endpoint 2 1 (set_destination_endpoint 1 1 (op_metadata.extend
     (default_metadata\<lparr>om_job_id := 5, om_messages_id := 9, om_length := 3\<rparr>) (ext_metadata.fields 0 0 0 0)))"

lemma send_three_fields [simp]:
  "om_op send_three = SEND" "om_length send_three = 3" "om_job_id send_three = 5" "om_messages_id send_three = 9"
  "em_src_node send_three = 2" "pk_size three_bytes = 3" "pk_bytes three_bytes = [10, 11, 12]"
  by (simp_all add: send_three_def set_source_endpoint_def set_destination_endpoint_def op_metadata.defs
      ext_metadata.defs default_metadata_def three_bytes_def pk_size_def pk_bytes_def empty_packet_def)

lemma send_three_packets [simp]:
  "sized 2 (renew_request 0 2 send_three three_bytes None)" "rq_packets (renew_request 0 2 send_three three_bytes None) = 2"
  by (simp add: renew_sized) (simp add: renew_request_def calculate_packet_count_def Let_def)

lemma fragmentation_agrees_witness:
  "\<exists>p q. map (\<lambda>i. request_fragment 0 2 2 (of_nat i) (renew_request 0 2 send_three three_bytes None)) [0, 1] = [Some p, Some q] \<and>
     pk_bytes p @ pk_bytes q = [10, 11, 12]"
proof -
  let ?r = "renew_request 0 2 send_three three_bytes None"
  obtain ps where ps: "map (\<lambda>i. request_fragment 0 2 (rq_packets ?r) (of_nat i) ?r) [0..<unat (rq_packets ?r)] = map Some ps"
      "concat (map pk_bytes ps) = pk_bytes (rq_packet ?r)"
    using fragmentation_agrees [OF send_three_packets(1), of 0] by blast
  have "length ps = 2" using arg_cong [OF ps(1), of length] by simp
  then obtain p q where "ps = [p, q]" by (auto simp: length_Suc_conv numeral_2_eq_2)
  then show ?thesis using ps by (intro exI [of _ p] exI [of _ q]) (simp add: upt_rec)
qed

lemma request_delivered_witness:
  "\<exists>p q rs s. request_fragment 0 2 2 0 (renew_request 0 2 send_three three_bytes None) = Some p \<and>
     request_fragment 0 2 2 1 (renew_request 0 2 send_three three_bytes None) = Some q \<and>
     receive_sends 7 demo_header [(1000, the (pk_meta q), Some q), (2000, the (pk_meta q), Some q), (3000, the (pk_meta p), Some p)]
       demo_state = (rs, s) \<and> rs_mem s = mem_write 0x1000 [10, 11, 12] (\<lambda>_. 0)"
proof -
  let ?r = "renew_request 0 2 send_three three_bytes None"
  obtain p q where pq: "request_fragment 0 2 2 0 ?r = Some p" "request_fragment 0 2 2 1 ?r = Some q"
    using fragmentation_agrees_witness by auto
  let ?xs = "[(1000, q), (2000, q), (3000, p)] :: (ns \<times> packet) list"
  obtain rs s where run: "receive_sends 7 demo_header (map (\<lambda>(t, p). (t, the (pk_meta p), Some p)) ?xs) demo_state = (rs, s)"
    by fastforce
  have P: "compute_payload_per_packet demo_state = 2" by (simp add: demo_defs compute_payload_per_packet_def)
  have "rs_mem s = mem_write (pr_base \<lparr>pr_base = 0x1000, pr_length = 8, pr_consumed = False\<rparr>)
      (take (unat (pr_length \<lparr>pr_base = 0x1000, pr_length = 8, pr_consumed = False\<rparr>)) (pk_bytes three_bytes)) (rs_mem demo_state) \<and>
      length rs = length ?xs \<and> (\<forall>j < length ?xs. send_answer (fst (?xs ! j))
        (set (take (Suc j) [1, 1, 0]) = {..<unat (rq_packets ?r)}) (pk_size three_bytes) (rs ! j))"
    by (rule request_delivered [where meta = send_three and earlier = None and pkt = three_bytes and ?t0.0 = 0
          and k = "\<lparr>rk_op = SEND, rk_job = 5, rk_msg = 9, rk_src = 2, rk_pdc = 7\<rparr>"
          and lk = "\<lparr>lk_job = 5, lk_msg = 9, lk_peer = 2\<rparr>" and from_ms = 0, OF _ _ _ _ _ _ _ _ _ _ _ _ _ _ _ _ _ _ run])
      (use pq in \<open>auto simp: demo_defs state_ttl_def compute_payload_per_packet_def\<close>)
  then show ?thesis using pq run by (auto simp: demo_state_def)
qed

end
