(* ===== verification/SesInv.thy ===== *)
theory SesInv
  imports SesFrames
begin

text \<open>
  Every operation on a request touches that request, its retry and its place in the queue of its peer, and
  no other; and what the manager keeps of a request: while it is alive something is pending that will
  move it on, and when it has ended its record holds nothing.
\<close>

section \<open>What an operation on one request touches\<close>

definition retry_of :: "request_key \<Rightarrow> ses \<Rightarrow> retry_state option" where
  "retry_of k s = map_of (se_retries s) k"

definition queued :: "request_key \<Rightarrow> ses \<Rightarrow> bool" where
  "queued k s \<longleftrightarrow> k \<in> set (blocked_keys s (lk_peer k))"

text \<open>Authorisation is not withdrawn and the retry timeout stays.\<close>

definition policy_kept :: "ses \<Rightarrow> ses \<Rightarrow> bool" where
  "policy_kept s s' \<longleftrightarrow> se_checker s' = se_checker s \<and> se_allow_all s' = se_allow_all s \<and>
     set (se_jobs s) \<subseteq> set (se_jobs s') \<and> se_retry_timeout s' = se_retry_timeout s"

definition touches :: "request_key \<Rightarrow> ses \<Rightarrow> ses \<Rightarrow> bool" where
  "touches k s s' \<longleftrightarrow> policy_kept s s' \<and> (\<forall>k'. k' \<noteq> k \<longrightarrow>
     request_of k' s' = request_of k' s \<and> retry_of k' s' = retry_of k' s \<and> queued k' s' = queued k' s)"

text \<open>Nothing of any request changes.\<close>

definition same :: "ses \<Rightarrow> ses \<Rightarrow> bool" where
  "same s s' \<longleftrightarrow> policy_kept s s' \<and> (\<forall>k. request_of k s' = request_of k s \<and> retry_of k s' = retry_of k s \<and> queued k s' = queued k s)"

lemma policy_kept_refl [simp]: "policy_kept s s" by (simp add: policy_kept_def)

lemma policy_kept_trans: "policy_kept s s' \<Longrightarrow> policy_kept s' s'' \<Longrightarrow> policy_kept s s''" by (auto simp: policy_kept_def)

lemma touches_refl [simp]: "touches k s s" by (simp add: touches_def)

lemma touches_trans [trans]: "touches k s s' \<Longrightarrow> touches k s' s'' \<Longrightarrow> touches k s s''"
  by (auto simp: touches_def intro: policy_kept_trans)

lemma same_refl [simp]: "same s s" by (simp add: same_def)

lemma same_trans [trans]: "same s s' \<Longrightarrow> same s' s'' \<Longrightarrow> same s s''"
  by (auto simp: same_def intro: policy_kept_trans)

lemma same_touches: "same s s' \<Longrightarrow> touches k s s'" by (simp add: same_def touches_def)

lemma same_facts:
  assumes "same s s'"
  shows "request_of k s' = request_of k s" "retry_of k s' = retry_of k s" "queued k s' = queued k s" "policy_kept s s'"
  using assms by (simp_all add: same_def)

lemma policy_kept_core: "core s' = core s \<Longrightarrow> se_checker s' = se_checker s \<Longrightarrow> se_allow_all s' = se_allow_all s \<Longrightarrow>
    se_jobs s' = se_jobs s \<Longrightarrow> same s s'"
  by (simp add: same_def policy_kept_def core_def request_of_def retry_of_def queued_def)

lemma policy_hear: "se_checker (hear now n s) = se_checker s \<and> se_allow_all (hear now n s) = se_allow_all s \<and>
    se_jobs (hear now n s) = se_jobs s"
  by (cases n) (auto simp: notify_peer_credits_def schedule_blocked_wakeup_def schedule_response_drain_def split: option.split)

lemma policy_fold_hear: "se_checker (fold (hear now) ns s) = se_checker s \<and>
    se_allow_all (fold (hear now) ns s) = se_allow_all s \<and> se_jobs (fold (hear now) ns s) = se_jobs s"
  by (induction ns arbitrary: s) (simp_all add: policy_hear)

lemma same_on_plane [simp]: "same s (snd (on_plane now f s))"
  by (rule policy_kept_core) (simp_all add: core_on_plane, simp_all add: on_plane_def case_prod_beta policy_fold_hear)

lemma same_on_rx [simp]: "same s (snd (on_rx f s))"
  by (rule policy_kept_core) (simp_all add: core_on_rx, simp_all add: on_rx_def case_prod_beta)

lemma same_frames [simp]:
  "same s (bump f s)" "same s (s\<lparr>se_manager := g\<rparr>)" "same s (s\<lparr>se_phase := ph\<rparr>)" "same s (s\<lparr>se_history := hs\<rparr>)"
  "same s (s\<lparr>se_pending := e\<rparr>)" "same s (s\<lparr>se_queues := q\<rparr>)" "same s (s\<lparr>se_fail_next := x\<rparr>)"
  "same s (s\<lparr>se_process := pr\<rparr>)" "same s (s\<lparr>se_message_id := i\<rparr>)" "same s (authorize_job job s)"
  by (auto simp: same_def policy_kept_def request_of_def retry_of_def queued_def blocked_keys_def bump_def authorize_job_def)

lemma same_wakeup [simp]: "same s (schedule_blocked_wakeup peer s)"
  by (rule policy_kept_core) (simp_all add: core_wakeup, simp_all add: schedule_blocked_wakeup_def split: option.split)

lemma same_drain [simp]: "same s (schedule_response_drain now peer b s)"
  by (rule policy_kept_core) (simp_all add: core_drain, simp_all add: schedule_response_drain_def split: option.split)

lemma touches_put [simp]: "touches k s (put_request k r s)"
  by (simp add: touches_def policy_kept_def retry_of_def queued_def put_request_def request_of_def update_conv' blocked_keys_def)

lemma touches_change [simp]: "touches k s (change_request k f s)"
  by (simp add: change_request_def split: option.split)

lemma touches_retries [simp]:
  "touches k s (s\<lparr>se_retries := AList.update k y (se_retries s)\<rparr>)" "touches k s (s\<lparr>se_retries := AList.delete k (se_retries s)\<rparr>)"
  by (simp_all add: touches_def policy_kept_def retry_of_def queued_def update_conv' delete_conv' blocked_keys_def)

lemma queued_unqueue: "k' \<noteq> k \<Longrightarrow> queued k' (unqueue k s) = queued k' s"
proof (cases "map_of (se_blocked s) (lk_peer k)")
  case (Some q)
  assume k: "k' \<noteq> k"
  then have r: "k' \<in> set (remove1 k (bq_requests q)) \<longleftrightarrow> k' \<in> set (bq_requests q)" by simp
  then have "remove1 k (bq_requests q) = [] \<Longrightarrow> k' \<notin> set (bq_requests q)" by auto
  then show ?thesis using k Some r
    by (auto simp: queued_def blocked_keys_def unqueue_def Let_def update_conv' delete_conv' split: option.split)
qed (simp add: unqueue_def)

lemma touches_unqueue [simp]: "touches k s (unqueue k s)"
  by (auto simp: touches_def queued_unqueue) (auto simp: unqueue_def Let_def policy_kept_def retry_of_def split: option.split)

lemma touches_enqueue [simp]: "touches k s (enqueue_blocked k s)"
proof (cases "request_of k s")
  case (Some r)
  show ?thesis
  proof (cases "rq_linked r")
    case False
    let ?s = "enqueue_blocked k s"
    have "queued k' ?s = queued k' s" if "k' \<noteq> k" for k'
      using Some False that
      by (auto simp: enqueue_blocked_def Let_def queued_def blocked_keys_def put_request_def update_conv' split: option.split)
    then show ?thesis using Some False
      by (auto simp: touches_def enqueue_blocked_def Let_def policy_kept_def retry_of_def put_request_def request_of_def update_conv')
  qed (simp add: enqueue_blocked_def Some)
qed (simp add: enqueue_blocked_def)

section \<open>The end of a request\<close>

lemma touches_remove [simp]: "touches k s (remove_blocked k s)"
  unfolding remove_blocked_def by (rule touches_trans [OF touches_change touches_unqueue])

lemma request_remove [simp]:
  "request_of k' (remove_blocked k s) = (if k' = k
     then map_option (\<lambda>r. r\<lparr>rq_linked := False, rq_blocked := False\<rparr>) (request_of k s) else request_of k' s)"
  by (simp add: remove_blocked_def)

lemma request_release_send [simp]:
  "request_of k (release_send_part now k s) =
    map_option (\<lambda>r. if rq_send_reserved r then r\<lparr>rq_send_reserved := False, rq_send_bytes := 0\<rparr> else r) (request_of k s)"
  by (simp add: release_send_part_def split: option.split)

lemma request_release_write [simp]:
  "request_of k (release_write_part now k s) =
    map_option (\<lambda>r. if rq_write_reserved r then r\<lparr>rq_write_reserved := False, rq_write_bytes := 0\<rparr> else r) (request_of k s)"
  by (simp add: release_write_part_def split: option.split)

lemma touches_release_parts [simp]: "touches k s (release_send_part now k s)" "touches k s (release_write_part now k s)"
  by (auto simp: release_send_part_def release_write_part_def split: option.split
      intro: touches_trans [OF same_touches [OF same_on_plane] touches_change])

lemma touches_release [simp]: "touches k s (release_dispatch_budget now k s)"
  unfolding release_dispatch_budget_def by (rule touches_trans [OF touches_release_parts(1) touches_release_parts(2)])

lemma touches_target [simp]: "touches k s (release_read_target now k s)"
  by (auto simp: release_read_target_def split: option.split intro: touches_trans [OF same_touches [OF same_on_rx] touches_change])

lemma touches_count [simp]: "touches k s (count_completion k s)"
  by (auto simp: count_completion_def record_completion_def split: option.split
      intro: touches_trans [OF same_touches [OF same_frames(1)] touches_change])

lemma touches_terminalize [simp]: "touches k s (terminalize_request now k why s)"
proof (cases "request_of k s")
  case (Some r)
  let ?s1 = "s\<lparr>se_retries := AList.delete k (se_retries s)\<rparr>"
  have "touches k s ?s1" by simp
  also have "touches k ?s1 (remove_blocked k ?s1)" by simp
  also have "touches k \<dots> (release_dispatch_budget now k (remove_blocked k ?s1))" by simp
  also have "touches k \<dots> (change_request k (finish now why) (release_dispatch_budget now k (remove_blocked k ?s1)))" by simp
  also have "touches k \<dots> (release_read_target now k (change_request k (finish now why)
      (release_dispatch_budget now k (remove_blocked k ?s1))))" by simp
  also have "touches k \<dots> (terminalize_request now k why s)" using Some by (simp add: terminalize_request_def)
  finally show ?thesis .
qed (simp add: terminalize_request_def)

lemma touches_fail [simp]: "touches k s (fail_request now k rc why s)"
  unfolding fail_request_def set_request_completion_outcome_def by (rule touches_trans [OF touches_change touches_terminalize])

lemma touches_failure [simp]: "touches k s (handle_dispatch_failure now k s)"
  by (auto simp: handle_dispatch_failure_def split: option.split
      intro: touches_trans [OF touches_fail same_touches [OF same_frames(1)]])

text \<open>Own effects: the retry goes, and the request has ended and holds nothing.\<close>

definition released :: "request_state \<Rightarrow> bool" where
  "released r \<longleftrightarrow> rq_terminal r \<and> \<not> rq_waiting r \<and> \<not> rq_started r \<and> \<not> rq_linked r \<and> rq_deadline r = 0 \<and>
     \<not> rq_send_reserved r \<and> \<not> rq_write_reserved r \<and> rq_counted r"

lemma retry_frames [simp]:
  "retry_of k' (change_request k f s) = retry_of k' s" "retry_of k' (put_request k r s) = retry_of k' s"
  "retry_of k' (unqueue k s) = retry_of k' s" "retry_of k' (bump g s) = retry_of k' s"
  "retry_of k' (s\<lparr>se_history := hs\<rparr>) = retry_of k' s" "retry_of k' (s\<lparr>se_phase := ph\<rparr>) = retry_of k' s"
  "retry_of k' (enqueue_blocked k s) = retry_of k' s"
  by (simp_all add: retry_of_def change_request_def put_request_def unqueue_def bump_def enqueue_blocked_def Let_def split: option.split)

lemma queued_frames [simp]:
  "queued k' (change_request k f s) = queued k' s" "queued k' (put_request k r s) = queued k' s"
  "queued k' (bump g s) = queued k' s" "queued k' (s\<lparr>se_retries := ys\<rparr>) = queued k' s"
  "queued k' (snd (on_plane now h s)) = queued k' s" "queued k' (snd (on_rx h' s)) = queued k' s"
  by (simp_all add: same_facts(3) [OF same_on_plane] same_facts(3) [OF same_on_rx])
    (simp_all add: queued_def change_request_def put_request_def bump_def blocked_keys_def split: option.split)

lemma retry_plane [simp]: "retry_of k (snd (on_plane now f s)) = retry_of k s" "retry_of k (snd (on_rx g s)) = retry_of k s"
  by (simp_all add: same_facts(2) [OF same_on_plane] same_facts(2) [OF same_on_rx])

lemma retry_release [simp]: "retry_of k (release_dispatch_budget now k s) = retry_of k s"
  by (simp add: release_dispatch_budget_def release_send_part_def release_write_part_def split: option.split)

lemma request_release [simp]:
  "request_of k (release_dispatch_budget now k s) = map_option (\<lambda>r. r\<lparr>rq_send_reserved := False,
     rq_send_bytes := if rq_send_reserved r then 0 else rq_send_bytes r, rq_write_reserved := False,
     rq_write_bytes := if rq_write_reserved r then 0 else rq_write_bytes r\<rparr>) (request_of k s)"
  by (cases "request_of k s") (auto simp: release_dispatch_budget_def)

lemma request_target:
  assumes "request_of k s = Some r"
  shows "\<exists>b. request_of k (release_read_target now k s) = Some (r\<lparr>rq_target := b\<rparr>)"
proof (cases "om_op (rq_meta r) = READ \<and> rq_target r")
  case True
  then show ?thesis using assms by (simp add: release_read_target_def) blast
next
  case False
  then have "release_read_target now k s = s" using assms by (auto simp: release_read_target_def)
  then show ?thesis using assms by (intro exI [of _ "rq_target r"]) simp
qed

lemma retry_target [simp]: "retry_of k (release_read_target now k s) = retry_of k s"
  by (simp add: release_read_target_def split: option.split)

lemma terminalize_ends:
  assumes "request_of k s = Some r"
  shows "\<exists>r'. request_of k (terminalize_request now k why s) = Some r' \<and> released r' \<and> rq_meta r' = rq_meta r \<and>
      rq_reason r' = why" "retry_of k (terminalize_request now k why s) = None"
proof -
  let ?u = "s\<lparr>se_retries := AList.delete k (se_retries s)\<rparr>"
  let ?s = "change_request k (finish now why) (release_dispatch_budget now k (remove_blocked k ?u))"
  define r0 where "r0 = r\<lparr>rq_linked := False, rq_blocked := False\<rparr>"
  define r1 where "r1 = r0\<lparr>rq_send_reserved := False, rq_send_bytes := if rq_send_reserved r0 then 0 else rq_send_bytes r0,
     rq_write_reserved := False, rq_write_bytes := if rq_write_reserved r0 then 0 else rq_write_bytes r0\<rparr>"
  have "request_of k (remove_blocked k ?u) = Some r0" using assms by (simp add: r0_def)
  then have "request_of k (release_dispatch_budget now k (remove_blocked k ?u)) = Some r1"
    by (simp only: request_release option.map r1_def)
  then have "request_of k ?s = Some (finish now why r1)" by (simp only: request_change option.map if_True simp_thms)
  then have r1: "request_of k ?s = Some (finish now why r1)" "\<not> rq_linked r1" "\<not> rq_send_reserved r1"
      "\<not> rq_write_reserved r1" "rq_meta r1 = rq_meta r" by (simp_all only: r1_def r0_def) simp_all
  obtain b where b: "request_of k (release_read_target now k ?s) = Some ((finish now why r1)\<lparr>rq_target := b\<rparr>)"
    using request_target [OF r1(1)] by blast
  have t: "terminalize_request now k why s = count_completion k (release_read_target now k ?s)"
    using assms by (simp add: terminalize_request_def)
  have "request_of k (count_completion k s1) = map_option (\<lambda>r. r\<lparr>rq_counted := True\<rparr>) (request_of k s1)" for s1
    by (simp add: count_completion_def record_completion_def split: option.split)
  then show "\<exists>r'. request_of k (terminalize_request now k why s) = Some r' \<and> released r' \<and> rq_meta r' = rq_meta r \<and>
      rq_reason r' = why"
    using b r1 by (simp add: t released_def finish_def)
  have c: "retry_of k (count_completion k s1) = retry_of k s1" for s1
    by (simp add: count_completion_def record_completion_def split: option.split)
  have "retry_of k ?u = None" by (simp add: retry_of_def delete_conv')
  then show "retry_of k (terminalize_request now k why s) = None"
    unfolding t c by (simp add: remove_blocked_def)
qed

lemma fail_ends:
  assumes "request_of k s = Some r"
  shows "\<exists>r'. request_of k (fail_request now k rc why s) = Some r' \<and> released r' \<and> rq_meta r' = rq_meta r"
    "retry_of k (fail_request now k rc why s) = None"
proof -
  have "request_of k (set_request_completion_outcome k rc 0 s) = Some (r\<lparr>rq_return_code := rc, rq_completed_bytes := 0\<rparr>)"
    using assms by (simp add: set_request_completion_outcome_def)
  from terminalize_ends [OF this, of now why]
  show "\<exists>r'. request_of k (fail_request now k rc why s) = Some r' \<and> released r' \<and> rq_meta r' = rq_meta r"
    "retry_of k (fail_request now k rc why s) = None" by (auto simp: fail_request_def)
qed

section \<open>Dispatching\<close>

definition waits_armed :: "request_state \<Rightarrow> bool" where
  "waits_armed r \<longleftrightarrow> rq_waiting r \<and> rq_started r \<and> rq_deadline r \<noteq> 0 \<and> rq_waiting_attempt r = rq_attempt r"

lemma deadline_positive: "0 \<le> now \<Longrightarrow> 1000000 \<le> t \<Longrightarrow> 0 < now_ms now + now_ms t"
  by (simp add: add_nonneg_pos pos_imp_zdiv_nonneg_iff pos_imp_zdiv_pos_iff)

lemma armed:
  assumes "0 \<le> now" "1000000 \<le> se_retry_timeout s" "rq_waiting r" "rq_started r" "rq_waiting_attempt r = rq_attempt r"
  shows "waits_armed (arm_response_timeout now s r)"
  using assms deadline_positive [OF assms(1,2)] by (simp add: waits_armed_def arm_response_timeout_def)

lemma dispatched_fields:
  "rq_meta (dispatched now s r) = rq_meta r" "rq_terminal (dispatched now s r) = rq_terminal r"
  "rq_linked (dispatched now s r) = rq_linked r" "rq_blocked (dispatched now s r) = rq_blocked r"
  "rq_started (dispatched now s r)"
  by (simp_all add: dispatched_def arm_response_timeout_def Let_def)

lemma dispatched_waits:
  assumes "0 \<le> now" "1000000 \<le> se_retry_timeout s" "om_expect_response (rq_meta r)"
  shows "waits_armed (dispatched now s r)"
proof -
  let ?r = "r\<lparr>rq_attempt := rq_attempt r + 1, rq_started := True, rq_waiting := True, rq_waiting_attempt := rq_attempt r + 1\<rparr>"
  have "waits_armed (arm_response_timeout now s ?r)" by (rule armed [OF assms(1,2)]) simp_all
  then show ?thesis using assms(3) by (simp add: dispatched_def Let_def waits_armed_def)
qed

lemma dispatch_semantic_same: "dispatch_semantic_packet now m p s = Some (ok, s') \<Longrightarrow> same s s'"
  using dispatch_semantic by (metis same_frames(2))

lemma dispatch_fragments_facts:
  assumes "dispatch_fragments now k n r is s = Some (ok, s')"
  shows "if ok then same s s' else \<exists>s1. same s s1 \<and> s' = release_dispatch_budget now k s1"
  using assms
proof (induction "now" k n r "is" s rule: dispatch_fragments.induct)
  case (2 now k n r i "is" s)
  obtain p where p: "request_fragment now (get_payload_mtu s) n (of_nat i) r = Some p"
    using "2.prems" by (auto split: option.splits)
  obtain b s1 where d: "dispatch_semantic_packet now (rq_meta r) p s = Some (b, s1)"
    using "2.prems" p by (auto split: option.splits)
  have s1: "same s s1" by (rule dispatch_semantic_same [OF d])
  show ?case
  proof (cases b)
    case True
    let ?s1 = "bump (\<lambda>c. c\<lparr>sc_generated := sc_generated c + 1\<rparr>) s1"
    have "dispatch_fragments now k n r is ?s1 = Some (ok, s')" using "2.prems" p d True by simp
    from "2.IH" [OF p d refl True this] same_trans [OF s1 same_frames(1)]
    show ?thesis by (auto split: if_splits intro: same_trans)
  next
    case False
    then show ?thesis using "2.prems" p d s1 by auto
  qed
qed simp

lemma register_target_facts:
  assumes "register_target now k r s = (ok, s')"
  shows "ok" "touches k s s'" "retry_of k s' = retry_of k s" "queued k s' = queued k s"
    "\<exists>b. request_of k s' = map_option (\<lambda>r. if b then r\<lparr>rq_target := True\<rparr> else r) (request_of k s)"
proof -
  let ?m = "rq_meta r"
  let ?s = "snd (on_rx (register_read_response_target now (ucast (om_job_id ?m)) (ucast (om_messages_id ?m))
      (em_dst_node ?m) (om_start_addr ?m) (ucast (om_length ?m))) s)"
  have t: "touches k s (change_request k f ?s)" for f
    by (rule touches_trans [OF same_touches [OF same_on_rx] touches_change])
  have q: "queued k (change_request k f ?s) = queued k s" for f by simp
  have "fst (register_read_response_target now job msg peer base len x)" for job msg peer base len x
    by (simp add: register_read_response_target_def Let_def)
  then have e: "(ok, s') = (True, s) \<or> (ok, s') = (True, change_request k (\<lambda>r. r\<lparr>rq_target := True\<rparr>) ?s)"
    using assms by (auto simp: register_target_def Let_def on_rx_def case_prod_beta split: if_splits)
  show "ok" "touches k s s'" "retry_of k s' = retry_of k s" "queued k s' = queued k s" using e t q by auto
  show "\<exists>b. request_of k s' = map_option (\<lambda>r. if b then r\<lparr>rq_target := True\<rparr> else r) (request_of k s)"
    using e by (auto simp: option.map_id [unfolded id_def] intro: exI [of _ False] exI [of _ True])
qed

lemma reserve_facts:
  assumes "try_reserve_dispatch_budget now k r s = (ok, s')" "request_of k s = Some r1"
  shows "touches k s s'" "retry_of k s' = retry_of k s" "queued k s' = queued k s"
    "\<exists>a b c d. request_of k s' = Some (r1\<lparr>rq_send_reserved := a, rq_send_bytes := b, rq_write_reserved := c, rq_write_bytes := d\<rparr>)"
proof -
  obtain g where g: "s' = s \<or> s' = snd (on_plane now g s) \<or>
      (\<exists>n. s' = change_request k (\<lambda>r. r\<lparr>rq_send_reserved := True, rq_send_bytes := n\<rparr>) (snd (on_plane now g s))) \<or>
      (\<exists>n. s' = change_request k (\<lambda>r. r\<lparr>rq_write_reserved := True, rq_write_bytes := n\<rparr>) (snd (on_plane now g s)))"
    using assms(1) by (auto simp: try_reserve_dispatch_budget_def Let_def case_prod_beta split: if_splits)
  have t: "touches k s (snd (on_plane now g s))" "touches k s (change_request k f (snd (on_plane now g s)))" for f
    by (simp add: same_touches) (rule touches_trans [OF same_touches [OF same_on_plane] touches_change])
  show "touches k s s'" "retry_of k s' = retry_of k s" "queued k s' = queued k s" using g t by auto
  have e: "r1 = r1\<lparr>rq_send_reserved := rq_send_reserved r1, rq_send_bytes := rq_send_bytes r1,
      rq_write_reserved := rq_write_reserved r1, rq_write_bytes := rq_write_bytes r1\<rparr>" by simp
  show "\<exists>a b c d. request_of k s' = Some (r1\<lparr>rq_send_reserved := a, rq_send_bytes := b, rq_write_reserved := c, rq_write_bytes := d\<rparr>)"
    using g
  proof (elim disjE exE)
    fix n assume "s' = change_request k (\<lambda>r. r\<lparr>rq_send_reserved := True, rq_send_bytes := n\<rparr>) (snd (on_plane now g s))"
    then have "request_of k s' = Some (r1\<lparr>rq_send_reserved := True, rq_send_bytes := n,
        rq_write_reserved := rq_write_reserved r1, rq_write_bytes := rq_write_bytes r1\<rparr>)" using assms(2) by simp
    then show ?thesis by blast
  next
    fix n assume "s' = change_request k (\<lambda>r. r\<lparr>rq_write_reserved := True, rq_write_bytes := n\<rparr>) (snd (on_plane now g s))"
    then have "request_of k s' = Some (r1\<lparr>rq_send_reserved := rq_send_reserved r1, rq_send_bytes := rq_send_bytes r1,
        rq_write_reserved := True, rq_write_bytes := n\<rparr>)" using assms(2) by simp
    then show ?thesis by blast
  qed (use e assms(2) in \<open>metis request_on_plane\<close>)+
qed

text \<open>The request after its packets went out, or after the first that did not.\<close>

lemma send_request_facts:
  assumes "send_request_packets now k r0 s = Some (ok, s')" "request_of k s = Some r" "rq_linked r0 = rq_linked r"
    and "0 \<le> now" "1000000 \<le> se_retry_timeout s"
  shows "touches k s s'" "retry_of k s' = retry_of k s"
    "\<exists>r'. request_of k s' = Some r' \<and> rq_meta r' = rq_meta r \<and> rq_terminal r' = rq_terminal r \<and> \<not> rq_linked r' \<and>
       (ok \<longrightarrow> \<not> rq_blocked r' \<and> rq_started r' \<and> (om_expect_response (rq_meta r) \<longrightarrow> waits_armed r'))"
proof -
  let ?s1 = "change_request k (\<lambda>r. r\<lparr>rq_blocked := False\<rparr>) (if rq_linked r0 then remove_blocked k s else s)"
  obtain s2 where t: "register_target now k r0 ?s1 = (True, s2)"
    using register_target_facts(1) by (metis surj_pair)
  note T = register_target_facts [OF t]
  have s1: "touches k s ?s1" "retry_of k ?s1 = retry_of k s"
    using touches_trans [OF touches_remove touches_change] by (auto simp: remove_blocked_def)
  have "request_of k ?s1 = Some (r\<lparr>rq_linked := False, rq_blocked := False\<rparr>)" using assms(2,3) by auto
  then obtain r2 where r2: "request_of k s2 = Some r2" "rq_meta r2 = rq_meta r" "rq_terminal r2 = rq_terminal r"
      "\<not> rq_linked r2" "\<not> rq_blocked r2" using T(5) by (auto split: if_splits)
  obtain s3 idx where d: "dispatch_fragments now k (max 1 (rq_packets r0)) r0 idx s2 = Some (ok, s3)"
      "s' = (if ok then change_request k (dispatched now s3) s3 else s3)"
    using assms(1) t by (auto simp: send_request_packets_def Let_def)
  note D = dispatch_fragments_facts [OF d(1)]
  have t2: "touches k s s2" by (rule touches_trans [OF s1(1) T(2)])
  have goal: "touches k s s' \<and> retry_of k s' = retry_of k s \<and>
    (\<exists>r'. request_of k s' = Some r' \<and> rq_meta r' = rq_meta r \<and> rq_terminal r' = rq_terminal r \<and> \<not> rq_linked r' \<and>
       (ok \<longrightarrow> \<not> rq_blocked r' \<and> rq_started r' \<and> (om_expect_response (rq_meta r) \<longrightarrow> waits_armed r')))"
  proof (cases ok)
    case True
    then have s3: "same s2 s3" "s' = change_request k (dispatched now s3) s3" using D d(2) by simp_all
    have "touches k s s3" by (rule touches_trans [OF t2 same_touches [OF s3(1)]])
    then have "touches k s s'" "se_retry_timeout s3 = se_retry_timeout s"
      unfolding s3(2) using touches_trans [OF _ touches_change] by (auto simp: touches_def policy_kept_def)
    moreover have "retry_of k s' = retry_of k s" using same_facts(2) [OF s3(1)] T(3) s1(2) by (simp add: s3(2))
    moreover have "request_of k s' = Some (dispatched now s3 r2)" using same_facts(1) [OF s3(1)] r2(1) by (simp add: s3(2))
    ultimately show ?thesis using r2 assms(4,5) dispatched_waits [of now s3 r2] by (simp add: dispatched_fields)
  next
    case False
    then obtain s4 where s4: "same s2 s4" "s' = release_dispatch_budget now k s4" using D d(2) by auto
    have "touches k s s'" unfolding s4(2)
      by (rule touches_trans [OF touches_trans [OF t2 same_touches [OF s4(1)]] touches_release])
    then show ?thesis using same_facts [OF s4(1)] T(3) s1(2) r2 False by (simp add: s4(2))
  qed
  then show "touches k s s'" "retry_of k s' = retry_of k s"
    "\<exists>r'. request_of k s' = Some r' \<and> rq_meta r' = rq_meta r \<and> rq_terminal r' = rq_terminal r \<and> \<not> rq_linked r' \<and>
       (ok \<longrightarrow> \<not> rq_blocked r' \<and> rq_started r' \<and> (om_expect_response (rq_meta r) \<longrightarrow> waits_armed r'))" by auto
qed

lemma queued_enqueue: "request_of k s = Some r \<Longrightarrow> \<not> rq_linked r \<Longrightarrow> queued k (enqueue_blocked k s)"
  by (simp add: enqueue_blocked_def Let_def queued_def blocked_keys_def put_request_def update_conv')

text \<open>A request that is dispatched waits in its queue, or waits for a response, or needs none, or has failed.\<close>

lemma dispatch_facts:
  assumes "dispatch_request_packets now k s = Some (ok, s')" "request_of k s = Some r" "\<not> rq_terminal r"
    and "rq_linked r \<longrightarrow> queued k s" "0 \<le> now" "1000000 \<le> se_retry_timeout s"
  shows "touches k s s' \<and> retry_of k s' = retry_of k s \<and>
    (\<exists>r'. request_of k s' = Some r' \<and> rq_meta r' = rq_meta r \<and> \<not> rq_terminal r' \<and>
       (if ok then rq_blocked r' \<and> rq_linked r' \<and> queued k s' \<or>
          \<not> rq_blocked r' \<and> \<not> rq_linked r' \<and> rq_started r' \<and> (om_expect_response (rq_meta r) \<longrightarrow> waits_armed r')
        else \<not> rq_linked r'))"
proof (cases "rq_linked r \<and> \<not> is_blocked_head k s")
  case True
  then have "ok" "s' = change_request k (\<lambda>r. r\<lparr>rq_blocked := True\<rparr>) s"
    using assms(1-3) by (auto simp: dispatch_request_packets_def)
  then show ?thesis using assms(2-4) True by simp
next
  case False
  obtain b s1 where b: "try_reserve_dispatch_budget now k r s = (b, s1)" by fastforce
  note B = reserve_facts [OF b assms(2)]
  obtain r1 where r1: "request_of k s1 = Some r1" "rq_meta r1 = rq_meta r" "rq_linked r1 = rq_linked r" "\<not> rq_terminal r1"
    using B(4) assms(3) by auto
  have to: "1000000 \<le> se_retry_timeout s1" using B(1) assms(6) by (simp add: touches_def policy_kept_def)
  show ?thesis
  proof (cases b)
    case True
    then have "send_request_packets now k r s1 = Some (ok, s')"
      using assms(1-3) False b by (auto simp: dispatch_request_packets_def)
    note S = send_request_facts [OF this r1(1) r1(3) [symmetric] assms(5) to]
    show ?thesis using touches_trans [OF B(1) S(1)] S(2,3) B(2) r1 by auto
  next
    case not: False
    then have s': "ok" "s' = change_request k (\<lambda>r. r\<lparr>rq_blocked := True\<rparr>) (enqueue_blocked k s1)"
      using assms(1-3) False b by (auto simp: dispatch_request_packets_def)
    have "touches k s s'" unfolding s'(2) by (rule touches_trans [OF touches_trans [OF B(1) touches_enqueue] touches_change])
    moreover have "request_of k (enqueue_blocked k s1) = Some (if rq_linked r1 then r1 else r1\<lparr>rq_linked := True, rq_blocked := True\<rparr>)"
      using r1(1) by (simp add: enqueue_blocked_def Let_def)
    moreover have "queued k (enqueue_blocked k s1)"
      using queued_enqueue [OF r1(1)] B(3) assms(4) r1 by (cases "rq_linked r1") (auto simp: enqueue_blocked_def)
    ultimately show ?thesis using B(2) r1 s' by auto
  qed
qed

end
