(* ===== verification/SesRuns.thy ===== *)
theory SesRuns
  imports SesInv SesBudgets
begin

text \<open>
  The requests of \<open>SesManager\<close> over all its operations and events: none is forgotten, and the record of one
  that has ended holds nothing.
\<close>

section \<open>The invariant\<close>

definition known :: "request_key \<Rightarrow> ext_metadata \<Rightarrow> ses \<Rightarrow> bool" where
  "known k m s \<longleftrightarrow> metadata_key m = k \<and> validate_operation_metadata m s"

text \<open>Something is pending that moves the request on: a timeout, a retry, or a place in its peer's queue.\<close>

definition tracked :: "request_key \<Rightarrow> request_state \<Rightarrow> ses \<Rightarrow> bool" where
  "tracked k r s \<longleftrightarrow> waits_armed r \<or>
     (\<exists>y. retry_of k s = Some y \<and> ry_event y \<noteq> None \<and> ry_attempt y = rq_attempt r) \<or> rq_linked r"

definition fine :: "request_key \<Rightarrow> ses \<Rightarrow> bool" where
  "fine k s \<longleftrightarrow> (\<forall>y. retry_of k s = Some y \<longrightarrow> known k (ry_meta y) s) \<and>
     (\<forall>r. request_of k s = Some r \<longrightarrow> known k (rq_meta r) s \<and> (rq_linked r \<longrightarrow> queued k s) \<and>
       (if rq_terminal r then released r \<and> retry_of k s = None else tracked k r s))"

definition inv_but :: "request_key \<Rightarrow> ses \<Rightarrow> bool" where
  "inv_but k s \<longleftrightarrow> 1000000 \<le> se_retry_timeout s \<and> (\<forall>k'. k' \<noteq> k \<longrightarrow> fine k' s)"

definition ses_inv :: "ses \<Rightarrow> bool" where
  "ses_inv s \<longleftrightarrow> 1000000 \<le> se_retry_timeout s \<and> (\<forall>k. fine k s)"

lemma ses_inv_iff: "ses_inv s \<longleftrightarrow> inv_but k s \<and> fine k s"
  by (auto simp: ses_inv_def inv_but_def)

lemma known_keeps: "policy_kept s s' \<Longrightarrow> known k m s \<Longrightarrow> known k m s'"
  by (auto simp: known_def policy_kept_def validate_operation_metadata_def validate_authorization_def split: option.splits)

lemma fine_mono:
  assumes k: "\<And>m. known k m s \<Longrightarrow> known k m s'"
    and "request_of k s' = request_of k s" "retry_of k s' = retry_of k s" "queued k s' = queued k s" "fine k s"
  shows "fine k s'"
proof -
  have t: "tracked k r s' = tracked k r s" for r by (simp add: tracked_def assms(3))
  show ?thesis unfolding fine_def assms(2-4) t
  proof (intro conjI allI impI)
    fix y assume "retry_of k s = Some y"
    then show "known k (ry_meta y) s'" using assms(5) k by (simp add: fine_def)
  next
    fix r assume "request_of k s = Some r"
    then have f: "known k (rq_meta r) s" "rq_linked r \<longrightarrow> queued k s"
        "if rq_terminal r then released r \<and> retry_of k s = None else tracked k r s"
      using assms(5) by (simp_all add: fine_def)
    show "known k (rq_meta r) s'" by (rule k [OF f(1)])
    show "rq_linked r \<Longrightarrow> queued k s" using f(2) by blast
    show "if rq_terminal r then released r \<and> retry_of k s = None else tracked k r s" by (rule f(3))
  qed
qed

lemma fine_cong:
  "policy_kept s s' \<Longrightarrow> request_of k s' = request_of k s \<Longrightarrow> retry_of k s' = retry_of k s \<Longrightarrow> queued k s' = queued k s \<Longrightarrow>
    fine k s \<Longrightarrow> fine k s'"
  by (rule fine_mono [OF known_keeps])

lemma fine_other: "touches k s s' \<Longrightarrow> k' \<noteq> k \<Longrightarrow> fine k' s \<Longrightarrow> fine k' s'"
  by (rule fine_cong [of s]) (simp_all add: touches_def)

lemma fine_same: "same s s' \<Longrightarrow> fine k s \<Longrightarrow> fine k s'"
  by (rule fine_cong [of s]) (simp_all add: same_def)

lemma policy_kept_timeout: "policy_kept s s' \<Longrightarrow> se_retry_timeout s' = se_retry_timeout s" by (simp add: policy_kept_def)

lemma touches_keeps: "touches k s s' \<Longrightarrow> policy_kept s s'" by (simp add: touches_def)

lemma inv_but_touches: "inv_but k s \<Longrightarrow> touches k s s' \<Longrightarrow> inv_but k s'"
  using policy_kept_timeout [OF touches_keeps] fine_other by (simp add: inv_but_def)

lemma inv_same: "same s s' \<Longrightarrow> ses_inv s \<Longrightarrow> ses_inv s'"
  using policy_kept_timeout [OF same_facts(4)] fine_same by (simp add: ses_inv_def)

lemma inv_touch: "ses_inv s \<Longrightarrow> touches k s s' \<Longrightarrow> fine k s' \<Longrightarrow> ses_inv s'"
  unfolding ses_inv_iff [of _ k] using inv_but_touches by blast

lemma if_inv: "(c \<Longrightarrow> ses_inv a) \<Longrightarrow> (\<not> c \<Longrightarrow> ses_inv b) \<Longrightarrow> ses_inv (if c then a else b)" by simp

lemma inv_fine: "ses_inv s \<Longrightarrow> fine k s" "ses_inv s \<Longrightarrow> 1000000 \<le> se_retry_timeout s"
  by (simp_all add: ses_inv_def)

section \<open>Requests that end\<close>

lemma ended_fine:
  assumes "request_of k s = Some r" "released r" "known k (rq_meta r) s" "retry_of k s = None"
  shows "fine k s"
  using assms by (simp add: fine_def released_def)

lemma terminalize_fine:
  assumes "request_of k s = Some r" "known k (rq_meta r) s"
  shows "fine k (terminalize_request now k why s)"
proof -
  obtain r' where r': "request_of k (terminalize_request now k why s) = Some r'" "released r'" "rq_meta r' = rq_meta r"
    using terminalize_ends(1) [OF assms(1)] by blast
  show ?thesis
    by (rule ended_fine [OF r'(1,2) _ terminalize_ends(2) [OF assms(1)]])
      (use known_keeps [OF touches_keeps [OF touches_terminalize] assms(2)] r'(3) in simp)
qed

lemma fail_fine:
  assumes "request_of k s = Some r" "known k (rq_meta r) s"
  shows "fine k (fail_request now k rc why s)"
proof -
  let ?s = "set_request_completion_outcome k rc 0 s"
  have "known k (rq_meta r) ?s"
    using known_keeps [OF touches_keeps [OF touches_change] assms(2)] by (simp add: set_request_completion_outcome_def)
  then show ?thesis using terminalize_fine [of k ?s "r\<lparr>rq_return_code := rc, rq_completed_bytes := 0\<rparr>"] assms(1)
    by (simp add: fail_request_def set_request_completion_outcome_def)
qed

lemma failure_fine:
  assumes "request_of k s = Some r" "known k (rq_meta r) s" "\<not> rq_terminal r"
  shows "fine k (handle_dispatch_failure now k s)"
  using fine_same [OF same_frames(1) fail_fine [OF assms(1,2)]] assms by (simp add: handle_dispatch_failure_def)

text \<open>After a successful dispatch the request is queued, waits, or ends at once.\<close>

definition moved_on :: "request_key \<Rightarrow> ses \<Rightarrow> bool" where
  "moved_on k s \<longleftrightarrow> (\<exists>r. request_of k s = Some r \<and> known k (rq_meta r) s \<and> \<not> rq_terminal r \<and>
     (rq_blocked r \<and> rq_linked r \<and> queued k s \<or>
      \<not> rq_blocked r \<and> \<not> rq_linked r \<and> rq_started r \<and> (om_expect_response (rq_meta r) \<longrightarrow> waits_armed r)))"

lemma touches_unanswered [simp]: "touches k s (complete_unanswered now k s)"
proof -
  have "touches k s (terminalize_request now k RC_OK_RESPONSE (set_request_completion_outcome k RC_OK n s))" for n
    unfolding set_request_completion_outcome_def by (rule touches_trans [OF touches_change touches_terminalize])
  then show ?thesis by (simp add: complete_unanswered_def split: option.split)
qed

lemma unanswered_fine:
  assumes "moved_on k s" "\<forall>y. retry_of k s = Some y \<longrightarrow> known k (ry_meta y) s"
  shows "fine k (complete_unanswered now k s)"
proof -
  obtain r where r: "request_of k s = Some r" "known k (rq_meta r) s" "\<not> rq_terminal r"
      "rq_blocked r \<and> rq_linked r \<and> queued k s \<or>
       \<not> rq_blocked r \<and> \<not> rq_linked r \<and> rq_started r \<and> (om_expect_response (rq_meta r) \<longrightarrow> waits_armed r)"
    using assms(1) by (auto simp: moved_on_def)
  show ?thesis
  proof (cases "\<not> om_expect_response (rq_meta r) \<and> rq_started r \<and> \<not> rq_blocked r \<and> \<not> rq_linked r")
    case True
    let ?s = "set_request_completion_outcome k RC_OK (ucast (om_length (rq_meta r))) s"
    let ?r = "r\<lparr>rq_return_code := RC_OK, rq_completed_bytes := ucast (om_length (rq_meta r))\<rparr>"
    have e: "request_of k ?s = Some ?r" using r(1) by (simp add: set_request_completion_outcome_def)
    have "known k (rq_meta r) ?s"
      using known_keeps [OF touches_keeps [OF touches_change] r(2)] by (simp add: set_request_completion_outcome_def)
    then have "known k (rq_meta ?r) ?s" by simp
    from terminalize_fine [OF e this] have "fine k (terminalize_request now k RC_OK_RESPONSE ?s)" .
    then show ?thesis using r(1) True by (simp add: complete_unanswered_def)
  next
    case False
    then have "complete_unanswered now k s = s" by (simp only: complete_unanswered_def r(1) option.case False if_False)
    have "tracked k r s \<and> (rq_linked r \<longrightarrow> queued k s)" using r(4) False unfolding tracked_def by blast
    then have "fine k s" unfolding fine_def r(1) using r(2,3) assms(2) by simp
    then show ?thesis using \<open>complete_unanswered now k s = s\<close> by simp
  qed
qed

section \<open>New requests and retries\<close>

lemma same_complete: "same s (snd (complete_metadata m s))"
  by (simp add: complete_metadata_def generate_message_id_def Let_def case_prod_beta)

lemma touches_open: "metadata_key m = k \<Longrightarrow> touches k s (open_request now m p s)"
  using touches_trans [OF touches_put same_touches [OF same_frames(1)]] by (simp add: open_request_def Let_def)

lemma touches_drop [simp]: "touches k s (drop_scheduled_retry k s)"
  using touches_trans [OF touches_retries(2) same_touches [OF same_frames(1)]]
  by (simp add: drop_scheduled_retry_def split: option.split)

lemma drop_retry: "retry_of k (drop_scheduled_retry k s) = Some y \<Longrightarrow> retry_of k s = Some y"
  by (auto simp: drop_scheduled_retry_def retry_of_def bump_def delete_conv' split: option.splits if_splits)

lemma renewed:
  "rq_meta (renew_request now mtu m p e) = m" "\<not> rq_terminal (renew_request now mtu m p e)"
  "\<not> rq_linked (renew_request now mtu m p e)"
  by (simp_all add: renew_request_def blank_request_def Let_def)

lemma opened:
  assumes "metadata_key m = k"
  shows "\<exists>r. request_of k (open_request now m p s) = Some r \<and> rq_meta r = m \<and> \<not> rq_terminal r \<and> \<not> rq_linked r"
    "retry_of k (open_request now m p s) = retry_of k s"
  using assms by (auto simp: open_request_def Let_def renewed)

lemma start_inv:
  assumes "start_request now m p s = Some (ok, s')" "known k m s" "inv_but k s" "0 \<le> now"
    and "\<And>y. retry_of k s = Some y \<Longrightarrow> known k (ry_meta y) s"
  shows "ses_inv s'"
proof -
  have k: "metadata_key m = k" using assms(2) by (simp add: known_def)
  let ?s1 = "if om_is_retry m then drop_scheduled_retry k s else s"
  let ?s2 = "open_request now m p ?s1"
  obtain s3 where d: "dispatch_request_packets now k ?s2 = Some (ok, s3)"
    and s': "same (if ok then complete_unanswered now k s3 else handle_dispatch_failure now k s3) s'"
    using assms(1) same_trans [OF same_frames(1) same_frames(3)]
    by (auto simp: start_request_def k Let_def split: option.splits if_splits)
  have t2: "touches k s ?s2"
    by (rule touches_trans [OF _ touches_open [OF k]]) simp
  obtain r where r: "request_of k ?s2 = Some r" "rq_meta r = m" "\<not> rq_terminal r" "\<not> rq_linked r"
    using opened(1) [OF k] by blast
  have "1000000 \<le> se_retry_timeout ?s2" using inv_but_touches [OF assms(3) t2] by (simp add: inv_but_def)
  from dispatch_facts [OF d r(1,3) _ assms(4) this] r(4)
  obtain r' where D: "touches k ?s2 s3" "retry_of k s3 = retry_of k ?s2" "request_of k s3 = Some r'" "rq_meta r' = m"
      "\<not> rq_terminal r'"
      "if ok then rq_blocked r' \<and> rq_linked r' \<and> queued k s3 \<or>
          \<not> rq_blocked r' \<and> \<not> rq_linked r' \<and> rq_started r' \<and> (om_expect_response m \<longrightarrow> waits_armed r')
        else \<not> rq_linked r'"
    unfolding r(2) by blast
  have t3: "touches k s s3" by (rule touches_trans [OF t2 D(1)])
  note kn = known_keeps [OF touches_keeps [OF t3], of k]
  have m: "known k (rq_meta r') s3" using kn [OF assms(2)] D(4) by simp
  have ys: "\<forall>y. retry_of k s3 = Some y \<longrightarrow> known k (ry_meta y) s3"
  proof (intro allI impI)
    fix y assume "retry_of k s3 = Some y"
    then have "retry_of k ?s1 = Some y" using D(2) opened(2) [OF k] by simp
    then have "retry_of k s = Some y" by (auto dest: drop_retry split: if_splits)
    then show "known k (ry_meta y) s3" by (rule kn [OF assms(5)])
  qed
  show ?thesis
  proof (cases ok)
    case True
    have "rq_blocked r' \<and> rq_linked r' \<and> queued k s3 \<or> \<not> rq_blocked r' \<and> \<not> rq_linked r' \<and> rq_started r' \<and>
        (om_expect_response (rq_meta r') \<longrightarrow> waits_armed r')"
      using D(6) unfolding D(4) if_P [OF True] .
    then have "moved_on k s3" unfolding moved_on_def using D(3,5) m by blast
    from unanswered_fine [OF this ys] have "fine k (complete_unanswered now k s3)" .
    then have "ses_inv (complete_unanswered now k s3)"
      using inv_but_touches [OF assms(3) touches_trans [OF t3 touches_unanswered]] by (simp add: ses_inv_iff [of _ k])
    then show ?thesis using inv_same [OF s'] True by simp
  next
    case False
    have "ses_inv (handle_dispatch_failure now k s3)"
      using inv_but_touches [OF assms(3) touches_trans [OF t3 touches_failure]] failure_fine [OF D(3) m D(5)]
      by (simp add: ses_inv_iff [of _ k])
    then show ?thesis using inv_same [OF s'] False by simp
  qed
qed

lemma known_longer: "known k m s \<Longrightarrow> known k (m\<lparr>om_length := max (om_length m) n\<rparr>) s"
  by (auto simp: known_def metadata_key_def validate_operation_metadata_def validate_authorization_def
      ext_metadata_valid_def max_def split: option.splits)

lemma known_mode: "known k m s \<Longrightarrow> known k (m\<lparr>om_delivery_mode := 0\<rparr>) s"
  by (auto simp: known_def metadata_key_def validate_operation_metadata_def validate_authorization_def
      ext_metadata_valid_def split: option.splits)

lemma known_retry: "known k m s \<Longrightarrow> known k (m\<lparr>om_is_retry := True\<rparr>) s"
  by (auto simp: known_def metadata_key_def validate_operation_metadata_def validate_authorization_def
      ext_metadata_valid_def split: option.splits)

lemma inv_but_same: "same s s' \<Longrightarrow> inv_but k s \<Longrightarrow> inv_but k s'"
  using inv_but_touches same_touches by blast

lemma process_inv:
  assumes "process_send_request now m po s = Some (ok, s')" "ses_inv s" "0 \<le> now"
  shows "ses_inv s'"
proof -
  let ?s0 = "(bump (\<lambda>c. c\<lparr>sc_send := sc_send c + 1\<rparr>) s)\<lparr>se_phase := SES_BUSY\<rparr>"
  obtain m1 s1 where c: "complete_metadata m ?s0 = (m1, s1)" by fastforce
  have "same s ?s0" by (rule same_trans [OF same_frames(1) same_frames(3)])
  then have s1: "same s s1" using same_complete [of ?s0 m] by (auto simp: c intro: same_trans)
  have refused: "same s (snd (refuse s1))"
    using same_trans [OF s1 same_trans [OF same_frames(1) same_frames(3)]] by (simp add: refuse_def)
  have r: "same s s'" if "Some (refuse s1) = Some (ok, s')" using refused that by simp
  show ?thesis
  proof (cases "request_packet m1 po")
    case None
    then show ?thesis using assms(1,2) r inv_same by (simp add: process_send_request_def c Let_def)
  next
    case (Some p)
    let ?m = "m1\<lparr>om_length := max (om_length m1) (of_nat (pk_size p))\<rparr>"
    let ?s2 = "authorize_job (ucast (om_job_id ?m)) s1"
    show ?thesis
    proof (cases "validate_operation_metadata ?m s1")
      case True
      then have st: "start_request now ?m p ?s2 = Some (ok, s')"
        using assms(1) Some by (simp add: process_send_request_def c Let_def)
      have s2: "same s ?s2" by (rule same_trans [OF s1 same_frames(10)])
      have "known (metadata_key ?m) ?m ?s2"
        by (rule known_keeps [OF same_facts(4) [OF same_frames(10)]]) (use True in \<open>simp add: known_def\<close>)
      moreover have i: "ses_inv ?s2" by (rule inv_same [OF s2 assms(2)])
      ultimately show ?thesis
        using start_inv [OF st _ _ assms(3)] by (simp add: ses_inv_iff [of _ "metadata_key ?m"] fine_def)
    next
      case False
      then show ?thesis using assms(1,2) r inv_same Some by (simp add: process_send_request_def c Let_def)
    qed
  qed
qed

text \<open>A retry is not refused: its metadata were valid and no authorisation has been withdrawn.\<close>

lemma repeat_inv:
  assumes "process_send_request now m (Some p) s = Some (ok, s')" "known k m s" "inv_but k s" "0 \<le> now"
    and "\<And>y. retry_of k s = Some y \<Longrightarrow> known k (ry_meta y) s"
  shows "ses_inv s'"
proof -
  let ?s0 = "(bump (\<lambda>c. c\<lparr>sc_send := sc_send c + 1\<rparr>) s)\<lparr>se_phase := SES_BUSY\<rparr>"
  have s0: "same s ?s0" by (rule same_trans [OF same_frames(1) same_frames(3)])
  have nz: "om_job_id m \<noteq> 0" "om_messages_id m \<noteq> 0"
    using assms(2) by (simp_all add: known_def validate_operation_metadata_def)
  define m1 where "m1 = (if 3 < om_delivery_mode m then m\<lparr>om_delivery_mode := 0\<rparr> else m)"
  have c: "complete_metadata m ?s0 = (m1, ?s0)" using nz by (simp add: complete_metadata_def m1_def)
  define m2 where "m2 = m1\<lparr>om_length := max (om_length m1) (of_nat (pk_size p))\<rparr>"
  let ?s2 = "authorize_job (ucast (om_job_id m2)) ?s0"
  have k1: "known k m1 s" using assms(2) known_mode by (simp add: m1_def)
  have k2: "known k m2 s" unfolding m2_def by (rule known_longer [OF k1])
  have k0: "known k m2 ?s0" by (rule known_keeps [OF same_facts(4) [OF s0] k2])
  then have "validate_operation_metadata m2 ?s0" by (simp add: known_def)
  then have st: "start_request now m2 p ?s2 = Some (ok, s')"
    using assms(1) by (simp add: process_send_request_def c Let_def request_packet_def m2_def)
  have s2: "same s ?s2" by (rule same_trans [OF s0 same_frames(10)])
  show ?thesis
  proof (rule start_inv [OF st known_keeps [OF same_facts(4) [OF s2] k2] inv_but_same [OF s2 assms(3)] assms(4)])
    fix y assume "retry_of k ?s2 = Some y"
    then show "known k (ry_meta y) ?s2" using known_keeps [OF same_facts(4) [OF s2] assms(5)] same_facts(2) [OF s2] by simp
  qed
qed

lemma touches_after [simp]: "touches k s (after_retry k s)"
  by (simp add: after_retry_def split: option.split)

lemma after_inv:
  assumes "ses_inv s"
  shows "ses_inv (after_retry k s)"
proof (rule inv_touch [OF assms touches_after])
  have f: "fine k s" by (rule inv_fine(1) [OF assms])
  show "fine k (after_retry k s)"
  proof (cases "retry_of k s")
    case (Some y)
    define y' where "y' = (case request_of k s of
         None \<Rightarrow> y\<lparr>ry_waiting := False\<rparr>
       | Some r \<Rightarrow> y\<lparr>ry_waiting := rq_waiting r, ry_next := rq_deadline r, ry_attempt := rq_attempt r\<rparr>)"
    have a: "after_retry k s = s\<lparr>se_retries := AList.update k y' (se_retries s)\<rparr>"
      using Some by (simp add: after_retry_def y'_def retry_of_def)
    have y': "retry_of k (after_retry k s) = Some y'" "ry_meta y' = ry_meta y" "ry_event y' = ry_event y"
        "request_of k s = Some r \<Longrightarrow> ry_attempt y' = rq_attempt r" for r
      by (auto simp: a retry_of_def update_conv') (simp_all add: y'_def split: option.split)
    note kn = known_keeps [OF touches_keeps [OF touches_after], of k _ s k]
    show ?thesis unfolding fine_def
    proof (intro conjI allI impI)
      fix z assume "retry_of k (after_retry k s) = Some z"
      then show "known k (ry_meta z) (after_retry k s)" using f Some kn y'(1,2) by (simp add: fine_def)
    next
      fix r assume "request_of k (after_retry k s) = Some r"
      then have r: "request_of k s = Some r" by (simp add: a)
      then have g: "known k (rq_meta r) s" "rq_linked r \<longrightarrow> queued k s" "\<not> rq_terminal r" "tracked k r s"
        using f Some by (auto simp: fine_def split: if_splits)
      show "known k (rq_meta r) (after_retry k s)" by (rule kn [OF g(1)])
      show "rq_linked r \<Longrightarrow> queued k (after_retry k s)" using g(2) by (simp add: a)
      have "tracked k r (after_retry k s)" using g(4) Some y' r unfolding tracked_def by auto
      then show "if rq_terminal r then released r \<and> retry_of k (after_retry k s) = None else tracked k r (after_retry k s)"
        using g(3) by simp
    qed
  qed (use f in \<open>simp add: after_retry_def retry_of_def\<close>)
qed

lemma fine_split:
  assumes "fine k s" "request_of k s = Some r"
  shows "known k (rq_meta r) s" "rq_linked r \<Longrightarrow> queued k s"
    "rq_terminal r \<Longrightarrow> released r \<and> retry_of k s = None" "\<not> rq_terminal r \<Longrightarrow> tracked k r s"
  using assms by (auto simp: fine_def)

lemma fineI:
  assumes "\<And>y. retry_of k s = Some y \<Longrightarrow> known k (ry_meta y) s"
    and "\<And>r. request_of k s = Some r \<Longrightarrow> known k (rq_meta r) s \<and> (rq_linked r \<longrightarrow> queued k s) \<and>
       (rq_terminal r \<longrightarrow> released r \<and> retry_of k s = None) \<and> (\<not> rq_terminal r \<longrightarrow> tracked k r s)"
  shows "fine k s"
  using assms by (simp add: fine_def)

lemma execute_inv:
  assumes "execute_retry now k s = Some s'" "ses_inv s" "0 \<le> now"
  shows "ses_inv s'"
proof (cases "retry_of k s")
  case None
  then show ?thesis using assms by (simp add: execute_retry_def retry_of_def)
next
  case (Some y)
  note f = inv_fine(1) [OF assms(2), of k]
  let ?sd = "s\<lparr>se_retries := AList.delete k (se_retries s)\<rparr>"
  let ?su = "s\<lparr>se_retries := AList.update k (y\<lparr>ry_event := None\<rparr>) (se_retries s)\<rparr>"
  have ky: "known k (ry_meta y) s" using f Some by (simp add: fine_def)
  show ?thesis
  proof (cases "case request_of k s of None \<Rightarrow> False | Some r \<Rightarrow> rq_attempt r \<noteq> ry_attempt y")
    case True
    then obtain r where r: "request_of k s = Some r" "rq_attempt r \<noteq> ry_attempt y" by (auto split: option.splits)
    note g = fine_split [OF f r(1)]
    have kn: "known k (rq_meta r) ?sd" by (rule known_keeps [OF touches_keeps [OF touches_retries(2)] g(1)])
    have none: "retry_of k ?sd = None" by (simp add: retry_of_def delete_conv')
    have "\<not> rq_terminal r \<Longrightarrow> tracked k r ?sd" using g(4) Some r(2) unfolding tracked_def by auto
    then have "fine k ?sd" by (intro fineI) (use g none kn r(1) Some in auto)
    then have "ses_inv ?sd" by (rule inv_touch [OF assms(2) touches_retries(2)])
    moreover have "s' = bump (\<lambda>c. c\<lparr>sc_stale_retries := sc_stale_retries c + 1\<rparr>) ?sd"
      using assms(1) Some True by (simp add: execute_retry_def retry_of_def)
    ultimately show ?thesis using inv_same [OF same_frames(1)] by simp
  next
    case False
    then obtain ok s1 where p: "process_send_request now (ry_meta y) (Some (ry_packet y)) ?su = Some (ok, s1)" "s' = after_retry k s1"
      using assms(1) Some by (auto simp: execute_retry_def retry_of_def)
    have k: "known k (ry_meta y) ?su" by (rule known_keeps [OF touches_keeps [OF touches_retries(1)] ky])
    have "inv_but k ?su" using inv_but_touches [OF _ touches_retries(1)] assms(2) by (simp add: ses_inv_iff [of _ k])
    then have "ses_inv s1"
      by (rule repeat_inv [OF p(1) k _ assms(3)]) (use k in \<open>auto simp: retry_of_def update_conv'\<close>)
    then show ?thesis unfolding p(2) by (rule after_inv)
  qed
qed

section \<open>Timeouts and the retries they schedule\<close>

lemma schedule_retry_inv:
  assumes "ses_inv s" "request_of k s = Some r" "\<not> rq_terminal r"
  shows "ses_inv (schedule_retry now k trigger s)"
proof -
  let ?y = "next_retry r trigger (retry_of k s)"
  let ?s1 = "(put_request k (await_retry trigger r) s)\<lparr>se_retries := AList.update k ?y (se_retries s)\<rparr>"
  let ?y' = "?y\<lparr>ry_meta := (ry_meta ?y)\<lparr>om_is_retry := True\<rparr>, ry_next := now_ms now + now_ms (se_retry_timeout s),
      ry_event := Some (now + se_retry_timeout s)\<rparr>"
  let ?s2 = "change_request k (\<lambda>r. r\<lparr>rq_exhausted := True\<rparr>) ?s1"
  let ?s3 = "?s1\<lparr>se_retries := AList.update k ?y' (se_retries s)\<rparr>"
  have t1: "touches k s ?s1" "touches k s ?s3"
    by (simp_all add: touches_def policy_kept_def put_request_def request_of_def retry_of_def queued_def blocked_keys_def update_conv')
  note g = fine_split [OF inv_fine(1) [OF assms(1)] assms(2)]
  have r1: "rq_meta (await_retry trigger r) = rq_meta r" "rq_terminal (await_retry trigger r) = rq_terminal r"
      "rq_linked (await_retry trigger r) = rq_linked r" "rq_attempt (await_retry trigger r) = rq_attempt r"
    by (simp_all add: await_retry_def)
  show ?thesis
  proof (cases "Max_RTO_Retx_Cnt < ry_count ?y")
    case True
    let ?why = "if trigger = RESPONSE_TIMEOUT then RESPONSE_TIMEOUT_EXHAUSTED else RETRY_EXHAUSTED"
    have t2: "touches k s ?s2" by (rule touches_trans [OF t1(1) touches_change])
    have e: "schedule_retry now k trigger s = fail_request now k RC_INTERNAL_ERROR ?why ?s2"
      using assms(2) True by (simp add: schedule_retry_def Let_def retry_of_def)
    have "known k (rq_meta r) ?s2" by (rule known_keeps [OF touches_keeps [OF t2] g(1)])
    then have "fine k (fail_request now k RC_INTERNAL_ERROR ?why ?s2)"
      using fail_fine [of k ?s2 "(await_retry trigger r)\<lparr>rq_exhausted := True\<rparr>"] by (simp add: r1)
    then show ?thesis unfolding e by (rule inv_touch [OF assms(1) touches_trans [OF t2 touches_fail]])
  next
    case False
    have e: "schedule_retry now k trigger s = ?s3"
      using assms(2) False by (simp add: schedule_retry_def Let_def retry_of_def)
    have kn: "known k (rq_meta r) ?s3" by (rule known_keeps [OF touches_keeps [OF t1(2)] g(1)])
    then have km: "known k ((rq_meta r)\<lparr>om_is_retry := True\<rparr>) ?s3" by (rule known_retry)
    have y: "retry_of k ?s3 = Some ?y'" by (simp add: retry_of_def update_conv')
    have q: "queued k ?s3 = queued k s" by (simp add: queued_def blocked_keys_def put_request_def)
    have "request_of k ?s3 = Some (await_retry trigger r)" by simp
    moreover have "tracked k (await_retry trigger r) ?s3" unfolding tracked_def y by (simp add: r1 next_retry_def)
    ultimately have "fine k ?s3"
      by (intro fineI) (use kn km g(2) q y assms(3) r1 in \<open>auto simp: next_retry_def\<close>)
    then show ?thesis unfolding e by (rule inv_touch [OF assms(1) t1(2)])
  qed
qed

text \<open>A change of a request that keeps what matters.\<close>

lemma fine_change:
  assumes "fine k s" "request_of k s = Some r" "rq_meta (f r) = rq_meta r" "rq_linked (f r) = rq_linked r"
    "rq_terminal (f r) = rq_terminal r" "released r \<Longrightarrow> released (f r)" "tracked k r s \<Longrightarrow> tracked k (f r) s"
  shows "fine k (change_request k f s)"
proof -
  note g = fine_split [OF assms(1,2)]
  have c: "change_request k f s = put_request k (f r) s" using assms(2) by (simp add: change_request_def)
  have t: "tracked k x (change_request k f s) = tracked k x s" for x by (simp add: tracked_def)
  note kn = known_keeps [OF touches_keeps [OF touches_change], of k _ s k f]
  show ?thesis
  proof (rule fineI)
    fix y assume "retry_of k (change_request k f s) = Some y"
    then show "known k (ry_meta y) (change_request k f s)" using assms(1) kn by (simp add: fine_def)
  next
    fix x assume "request_of k (change_request k f s) = Some x"
    then have x: "x = f r" using assms(2) by simp
    have "known k (rq_meta r) (change_request k f s)" by (rule kn [OF g(1)])
    then show "known k (rq_meta x) (change_request k f s) \<and> (rq_linked x \<longrightarrow> queued k (change_request k f s)) \<and>
        (rq_terminal x \<longrightarrow> released x \<and> retry_of k (change_request k f s) = None) \<and>
        (\<not> rq_terminal x \<longrightarrow> tracked k x (change_request k f s))"
      unfolding x t assms(3-5) using g(2-4) assms(6,7) by simp
  qed
qed

lemma inv_change:
  assumes "ses_inv s"
    and "\<And>r. rq_meta (f r) = rq_meta r" "\<And>r. rq_linked (f r) = rq_linked r" "\<And>r. rq_terminal (f r) = rq_terminal r"
    and "\<And>r. released r \<Longrightarrow> released (f r)"
    and "\<And>r. request_of k s = Some r \<Longrightarrow> tracked k r s \<Longrightarrow> tracked k (f r) s"
  shows "ses_inv (change_request k f s)"
proof (cases "request_of k s")
  case (Some r)
  show ?thesis
    by (rule inv_touch [OF assms(1) touches_change fine_change [OF inv_fine(1) [OF assms(1)] Some]])
      (use assms(2-) Some in simp_all)
qed (use assms(1) in \<open>simp add: change_request_def\<close>)

lemma tracked_cong:
  "waits_armed r' = waits_armed r \<Longrightarrow> rq_attempt r' = rq_attempt r \<Longrightarrow> rq_linked r' = rq_linked r \<Longrightarrow>
   tracked k r' s = tracked k r s"
  by (simp add: tracked_def)

lemma put_change: "request_of k s = Some r \<Longrightarrow> put_request k (f r) s = change_request k f s"
  by (simp add: change_request_def)

lemma fail_inv:
  assumes "ses_inv s" "request_of k s = Some r"
  shows "ses_inv (fail_request now k rc why s)"
  by (rule inv_touch [OF assms(1) touches_fail fail_fine [OF assms(2) fine_split(1) [OF inv_fine(1) [OF assms(1)] assms(2)]]])

lemma timeout_inv:
  assumes "ses_inv s"
  shows "ses_inv (check_timeout now k s)"
proof (cases "request_of k s")
  case (Some r)
  let ?skip = "rq_terminal r \<or> \<not> rq_waiting r \<or> rq_deadline r = 0 \<or>
      (case map_of (se_retries s) k of None \<Rightarrow> False | Some y \<Rightarrow> ry_event y \<noteq> None)"
  note t = fine_split(4) [OF inv_fine(1) [OF assms] Some]
  consider (skip) "?skip" | (stale) "\<not> ?skip" "rq_waiting_attempt r \<noteq> rq_attempt r"
    | (early) "\<not> ?skip" "rq_waiting_attempt r = rq_attempt r" "now_ms now < rq_deadline r"
    | (fail) "\<not> ?skip" "rq_waiting_attempt r = rq_attempt r" "\<not> now_ms now < rq_deadline r" "\<not> se_retry_enabled s"
    | (retry) "\<not> ?skip" "rq_waiting_attempt r = rq_attempt r" "\<not> now_ms now < rq_deadline r" "se_retry_enabled s" by blast
  then show ?thesis
  proof cases
    case skip
    then have "check_timeout now k s = s" using Some by (auto simp: check_timeout_def split: option.split)
    then show ?thesis using assms by simp
  next
    case stale
    let ?f = "\<lambda>r. r\<lparr>rq_deadline := 0\<rparr>"
    have "check_timeout now k s = bump (\<lambda>c. c\<lparr>sc_stale_timeouts := sc_stale_timeouts c + 1\<rparr>) (change_request k ?f s)"
      using Some stale by (simp add: check_timeout_def put_change)
    moreover have "ses_inv (change_request k ?f s)"
      by (rule inv_change [OF assms]) (use stale Some in \<open>auto simp: released_def tracked_def waits_armed_def\<close>)
    ultimately show ?thesis using inv_same [OF same_frames(1)] by simp
  next
    case early
    then have "check_timeout now k s = s" using Some by (simp add: check_timeout_def)
    then show ?thesis using assms by simp
  next
    case fail
    let ?f = "\<lambda>r. r\<lparr>rq_exhausted := True\<rparr>"
    have e: "check_timeout now k s = fail_request now k RC_INTERNAL_ERROR RESPONSE_TIMEOUT_EXHAUSTED (change_request k ?f s)"
      using Some fail by (simp add: check_timeout_def put_change)
    have "ses_inv (change_request k ?f s)"
      by (rule inv_change [OF assms]) (auto simp: released_def tracked_def waits_armed_def)
    then show ?thesis unfolding e by (rule fail_inv [where r = "?f r"]) (use Some in simp)
  next
    case retry
    then show ?thesis using Some schedule_retry_inv [OF assms Some] by (simp add: check_timeout_def)
  qed
qed (use assms in \<open>simp add: check_timeout_def\<close>)

section \<open>Responses\<close>

lemma same_event [simp]: "same s (record_response_event now k opcode rc n s)"
  by (simp add: record_response_event_def)

lemma succeed_inv:
  assumes "inv_but k s" "request_of k s = Some r" "known k (rq_meta r) s"
  shows "ses_inv (succeed now k m bytes s)"
proof -
  let ?s1 = "record_response_event now k (mt_response_opcode m) (mt_return_code m) (mt_modified_length m) s"
  let ?f = "\<lambda>r. r\<lparr>rq_return_code := mt_return_code m, rq_completed_bytes := bytes\<rparr>"
  let ?s2 = "change_request k ?f ?s1"
  have t: "touches k s ?s2" by (rule touches_trans [OF same_touches [OF same_event] touches_change])
  have e: "succeed now k m bytes s = terminalize_request now k RC_OK_RESPONSE ?s2"
    by (simp add: succeed_def set_request_completion_outcome_def)
  have "request_of k ?s2 = Some (?f r)" using assms(2) by (simp add: record_response_event_def)
  moreover have "known k (rq_meta (?f r)) ?s2" using known_keeps [OF touches_keeps [OF t] assms(3)] by simp
  ultimately have "fine k (terminalize_request now k RC_OK_RESPONSE ?s2)" by (rule terminalize_fine)
  then show ?thesis
    using inv_but_touches [OF assms(1) touches_trans [OF t touches_terminalize]] by (simp add: e ses_inv_iff [of _ k])
qed

lemma release_inv:
  assumes "ses_inv s"
  shows "ses_inv (release_dispatch_budget now k s)"
proof (rule inv_touch [OF assms touches_release fineI])
  note kn = known_keeps [OF touches_keeps [OF touches_release], of k _ s "now" k]
  note f = inv_fine(1) [OF assms, of k]
  fix y assume "retry_of k (release_dispatch_budget now k s) = Some y"
  then show "known k (ry_meta y) (release_dispatch_budget now k s)" using f kn by (simp add: fine_def)
next
  note kn = known_keeps [OF touches_keeps [OF touches_release], of k _ s "now" k]
  fix x assume "request_of k (release_dispatch_budget now k s) = Some x"
  then obtain r where r: "request_of k s = Some r" "x = r\<lparr>rq_send_reserved := False,
     rq_send_bytes := if rq_send_reserved r then 0 else rq_send_bytes r, rq_write_reserved := False,
     rq_write_bytes := if rq_write_reserved r then 0 else rq_write_bytes r\<rparr>" by auto
  note g = fine_split [OF inv_fine(1) [OF assms] r(1)]
  have q: "queued k (release_dispatch_budget now k s) = queued k s"
    by (simp add: release_dispatch_budget_def release_send_part_def release_write_part_def split: option.split)
  have x: "rq_meta x = rq_meta r" "rq_linked x = rq_linked r" "rq_terminal x = rq_terminal r" "released r \<Longrightarrow> released x"
      "tracked k x (release_dispatch_budget now k s) = tracked k r s"
    by (simp_all add: r(2) released_def tracked_def waits_armed_def)
  show "known k (rq_meta x) (release_dispatch_budget now k s) \<and> (rq_linked x \<longrightarrow> queued k (release_dispatch_budget now k s)) \<and>
      (rq_terminal x \<longrightarrow> released x \<and> retry_of k (release_dispatch_budget now k s) = None) \<and>
      (\<not> rq_terminal x \<longrightarrow> tracked k x (release_dispatch_budget now k s))"
    unfolding q x(1-3,5) using g kn [OF g(1)] x(4) by simp
qed

lemma consumed_inv:
  assumes "ses_inv s"
  shows "ses_inv (note_consumed now k m aux s)"
proof -
  let ?f = "\<lambda>r. if 0 < aux \<and> (rq_consumed r = 0 \<or> aux < rq_consumed r) then r\<lparr>rq_consumed := aux\<rparr> else r"
  have "ses_inv (change_request k ?f s)"
    by (rule inv_change [OF assms]) (auto simp: released_def tracked_def waits_armed_def)
  then show ?thesis using assms release_inv by (simp add: note_consumed_def Let_def split: option.split)
qed

lemma consumed_request:
  "request_of k s = Some r \<Longrightarrow> \<exists>r'. request_of k (note_consumed now k m aux s) = Some r' \<and> rq_terminal r' = rq_terminal r"
  by (simp add: note_consumed_def Let_def)

lemma read_data_inv:
  assumes "ses_inv s" "request_of k s = Some r" "\<not> rq_terminal r" "0 \<le> now"
  shows "ses_inv (receive_read_data now k i h m p s)"
proof -
  obtain x s1 where x: "on_rx (handle_incoming_read_response_packet now i h m (Some p)) s = (x, s1)" by fastforce
  have s1: "same s s1" using same_on_rx [of s "handle_incoming_read_response_packet now i h m (Some p)"] by (simp add: x)
  have i: "ses_inv s1" by (rule inv_same [OF s1 assms(1)])
  have r: "request_of k s1 = Some r" using same_facts(1) [OF s1] assms(2) by simp
  have kn: "known k (rq_meta r) s1" by (rule fine_split(1) [OF inv_fine(1) [OF i] r])
  have 1: "ses_inv (fail_request now k rc why s1)" for rc why by (rule fail_inv [OF i r])
  have 2: "ses_inv (succeed now k m n (change_request k (\<lambda>r. r\<lparr>rq_target := False, rq_response_attempt := rq_attempt r\<rparr>) s1))" for n
    by (rule succeed_inv [OF inv_but_touches [OF _ touches_change], where r = "r\<lparr>rq_target := False, rq_response_attempt := rq_attempt r\<rparr>"])
      (use i r known_keeps [OF touches_keeps [OF touches_change] kn] in \<open>simp_all add: ses_inv_iff [of _ k]\<close>)
  have 3: "ses_inv (change_request k (\<lambda>r. arm_response_timeout now s1 (r\<lparr>rq_waiting := True, rq_waiting_attempt := rq_attempt r\<rparr>)) s1)"
  proof (rule inv_touch [OF i touches_change fine_change [OF inv_fine(1) [OF i] r]])
    show "tracked k r s1 \<Longrightarrow> tracked k (arm_response_timeout now s1 (r\<lparr>rq_waiting := True, rq_waiting_attempt := rq_attempt r\<rparr>)) s1"
      using armed [OF assms(4) inv_fine(2) [OF i], of "r\<lparr>rq_waiting := True, rq_waiting_attempt := rq_attempt r\<rparr>"]
      by (auto simp: tracked_def waits_armed_def arm_response_timeout_def)
  qed (use assms(3) in \<open>simp_all add: arm_response_timeout_def released_def\<close>)
  show ?thesis
    unfolding receive_read_data_def x Let_def case_prod_conv by (intro if_inv i 1 2 3)
qed

lemma receive_ok_inv:
  assumes "ses_inv s" "request_of k s = Some r"
  shows "ses_inv (SesResponder.receive_ok now k m s)"
proof -
  let ?f = "\<lambda>r. r\<lparr>rq_waiting := False, rq_pending := 0, rq_deadline := 0, rq_response_attempt := rq_attempt r\<rparr>"
  have "known k (rq_meta r) (change_request k ?f s)"
    by (rule known_keeps [OF touches_keeps [OF touches_change] fine_split(1) [OF inv_fine(1) [OF assms(1)] assms(2)]])
  then have "ses_inv (succeed now k m n (change_request k ?f s))" for n
    using succeed_inv [OF inv_but_touches [OF _ touches_change], of k s ?f "?f r"] assms by (simp add: ses_inv_iff [of _ k])
  then show ?thesis by (simp add: SesResponder.receive_ok_def Let_def)
qed

lemma receive_error_inv:
  assumes "ses_inv s" "request_of k s = Some r" "\<not> rq_terminal r"
  shows "ses_inv (receive_error now k m s)"
proof -
  let ?s1 = "record_response_event now k (mt_response_opcode m) (mt_return_code m) (mt_modified_length m) s"
  have i: "ses_inv ?s1" by (rule inv_same [OF same_event assms(1)])
  have r: "request_of k ?s1 = Some r" using same_facts(1) [OF same_event] assms(2) by simp
  show ?thesis
    unfolding receive_error_def Let_def
    by (intro if_inv fail_inv [OF i r] schedule_retry_inv [OF i r assms(3)])
qed

lemma handle_response_inv:
  assumes "ses_inv s" "0 \<le> now"
  shows "ses_inv (handle_response now aux q h m s)"
proof -
  let ?k = "tag_key h m" and ?f = "\<lambda>r. r\<lparr>rq_progress := now_ms now\<rparr>"
  let ?s = "change_request ?k ?f s"
  have i: "ses_inv ?s"
    by (rule inv_change [OF assms(1)]) (auto simp: released_def tracked_def waits_armed_def)
  show ?thesis
  proof (cases "request_of ?k ?s")
    case None
    then show ?thesis unfolding handle_response_def Let_def None option.case by (intro if_inv i inv_same [OF same_frames(1) i])
  next
    case (Some r)
    show ?thesis
    proof (cases "rq_terminal r")
      case True
      show ?thesis unfolding handle_response_def Let_def Some option.case if_P [OF True] late_response_def
        by (rule inv_same [OF same_frames(1) i])
    next
      case False
      let ?s1 = "note_consumed now ?k m aux ?s"
      obtain r1 where r1: "request_of ?k ?s1 = Some r1" "\<not> rq_terminal r1"
        using consumed_request [OF Some] False by metis
      have i1: "ses_inv ?s1" by (rule consumed_inv [OF i])
      have e: "handle_response now aux q h m s =
          (if mt_return_code m \<noteq> RC_OK then receive_error now ?k m ?s1
           else if mt_response_opcode m = UET_RESPONSE_W_DATA then receive_read_data now ?k (ps_pdc_id q) h m (ps_packet q) ?s1
           else SesResponder.receive_ok now ?k m ?s1)"
        unfolding handle_response_def Let_def Some option.case if_not_P [OF False] ..
      show ?thesis unfolding e
        by (intro if_inv receive_error_inv [OF i1 r1] read_data_inv [OF i1 r1 assms(2)]
            receive_ok_inv [OF i1 r1(1)])
    qed
  qed
qed

lemma response_inv:
  assumes "process_receive_response now aux q s = (ok, s')" "ses_inv s" "0 \<le> now"
  shows "ses_inv s'"
proof -
  have "ses_inv (bump f s)" "ses_inv (bump g (bump f s))" for f g
    by (rule inv_same [OF _ assms(2)], simp) (rule inv_same [OF same_trans [OF same_frames(1) same_frames(1)] assms(2)])
  then show ?thesis
    using assms(1) handle_response_inv [OF _ assms(3)]
    by (auto simp: process_receive_response_def Let_def split: option.splits if_splits)
qed

section \<open>Waking a blocked queue\<close>

lemma remove_inv:
  assumes "ses_inv s" "\<And>r. request_of k s = Some r \<Longrightarrow> rq_terminal r"
  shows "ses_inv (remove_blocked k s)"
proof (rule inv_touch [OF assms(1) touches_remove fineI])
  note kn = known_keeps [OF touches_keeps [OF touches_remove], of k _ s k]
  note f = inv_fine(1) [OF assms(1), of k]
  have y: "retry_of k (remove_blocked k s) = retry_of k s" by (simp add: remove_blocked_def)
  {
    fix y assume "retry_of k (remove_blocked k s) = Some y"
    then show "known k (ry_meta y) (remove_blocked k s)" using f kn y by (simp add: fine_def)
  next
    fix x assume "request_of k (remove_blocked k s) = Some x"
    then obtain r where r: "request_of k s = Some r" "x = r\<lparr>rq_linked := False, rq_blocked := False\<rparr>" by auto
    have t: "rq_terminal r" by (rule assms(2) [OF r(1)])
    note g = fine_split [OF f r(1)]
    have "released x" using g(3) [OF t] by (simp add: r(2) released_def)
    moreover have "known k (rq_meta x) (remove_blocked k s)" using kn [OF g(1)] by (simp add: r(2))
    moreover have "rq_terminal x" "\<not> rq_linked x" using t by (simp_all add: r(2))
    ultimately show "known k (rq_meta x) (remove_blocked k s) \<and> (rq_linked x \<longrightarrow> queued k (remove_blocked k s)) \<and>
      (rq_terminal x \<longrightarrow> released x \<and> retry_of k (remove_blocked k s) = None) \<and>
      (\<not> rq_terminal x \<longrightarrow> tracked k x (remove_blocked k s))"
      using g(3) [OF t] y by simp
  }
qed

text \<open>Dispatching the request at the head of the queue.\<close>

lemma redispatch:
  assumes "dispatch_request_packets now k s = Some (ok, s1)" "ses_inv s" "request_of k s = Some r" "\<not> rq_terminal r" "0 \<le> now"
  shows "\<not> ok \<Longrightarrow> ses_inv (handle_dispatch_failure now k s1)"
    "ok \<Longrightarrow> \<exists>r1. request_of k s1 = Some r1 \<and>
       (if rq_linked r1 \<or> rq_blocked r1 then ses_inv s1 else ses_inv (complete_unanswered now k s1))"
proof -
  note g = fine_split [OF inv_fine(1) [OF assms(2)] assms(3)]
  have b: "inv_but k s" using assms(2) by (simp add: ses_inv_iff [of _ k])
  have q: "rq_linked r \<longrightarrow> queued k s" using g(2) by blast
  from dispatch_facts [OF assms(1,3,4) q assms(5) inv_fine(2) [OF assms(2)]]
  obtain r1 where D: "touches k s s1" "retry_of k s1 = retry_of k s" "request_of k s1 = Some r1" "rq_meta r1 = rq_meta r"
      "\<not> rq_terminal r1"
      "if ok then rq_blocked r1 \<and> rq_linked r1 \<and> queued k s1 \<or>
          \<not> rq_blocked r1 \<and> \<not> rq_linked r1 \<and> rq_started r1 \<and> (om_expect_response (rq_meta r) \<longrightarrow> waits_armed r1)
        else \<not> rq_linked r1" by blast
  note kn = known_keeps [OF touches_keeps [OF D(1)], of k]
  have m: "known k (rq_meta r1) s1" using kn [OF g(1)] D(4) by simp
  have ys: "\<forall>y. retry_of k s1 = Some y \<longrightarrow> known k (ry_meta y) s1"
    using inv_fine(1) [OF assms(2), of k] kn D(2) by (simp add: fine_def)
  note b1 = inv_but_touches [OF b D(1)]
  show "\<not> ok \<Longrightarrow> ses_inv (handle_dispatch_failure now k s1)"
    using inv_but_touches [OF b1 touches_failure] failure_fine [OF D(3) m D(5)] by (simp add: ses_inv_iff [of _ k])
  assume ok
  have c: "rq_blocked r1 \<and> rq_linked r1 \<and> queued k s1 \<or> \<not> rq_blocked r1 \<and> \<not> rq_linked r1 \<and> rq_started r1 \<and>
        (om_expect_response (rq_meta r1) \<longrightarrow> waits_armed r1)"
    using D(6) unfolding D(4) if_P [OF \<open>ok\<close>] .
  then have "moved_on k s1" unfolding moved_on_def using D(3,5) m by blast
  from unanswered_fine [OF this ys] have u: "ses_inv (complete_unanswered now k s1)"
    using inv_but_touches [OF b1 touches_unanswered] by (simp add: ses_inv_iff [of _ k])
  have "fine k s1" if "rq_linked r1 \<or> rq_blocked r1"
    by (rule fineI) (use ys D(3,5) m c that in \<open>auto simp: tracked_def\<close>)
  then have "if rq_linked r1 \<or> rq_blocked r1 then ses_inv s1 else ses_inv (complete_unanswered now k s1)"
    using b1 u by (simp add: ses_inv_iff [of _ k])
  then show "\<exists>r1. request_of k s1 = Some r1 \<and>
       (if rq_linked r1 \<or> rq_blocked r1 then ses_inv s1 else ses_inv (complete_unanswered now k s1))"
    using D(3) by blast
qed

lemma drain_loop_inv:
  assumes "drain_loop now peer s = Some s'"
  shows "0 \<le> now \<longrightarrow> ses_inv s \<longrightarrow> ses_inv s'"
proof (rule drain_loop.raw_induct [where P = "\<lambda>t p s s'. 0 \<le> t \<longrightarrow> ses_inv s \<longrightarrow> ses_inv s'", OF _ assms])
  fix loop :: "ns \<Rightarrow> u32 \<Rightarrow> ses \<Rightarrow> ses option" and t :: ns and peer s s'
  assume IH: "\<And>t peer s s'. loop t peer s = Some s' \<Longrightarrow> 0 \<le> t \<longrightarrow> ses_inv s \<longrightarrow> ses_inv s'"
  assume eq: "(case map_of (se_blocked s) peer of
     None \<Rightarrow> Some s
   | Some q \<Rightarrow> (case bq_requests q of
       [] \<Rightarrow> Some s
     | k # _ \<Rightarrow> (case request_of k s of
         None \<Rightarrow> loop t peer (remove_blocked k s)
       | Some r \<Rightarrow>
           if rq_terminal r then loop t peer (remove_blocked k s)
           else (case dispatch_request_packets t k s of
               None \<Rightarrow> None
             | Some (ok, s1) \<Rightarrow>
                 if \<not> ok then loop t peer (handle_dispatch_failure t k s1)
                 else (case request_of k s1 of
                     None \<Rightarrow> loop t peer s1
                   | Some r1 \<Rightarrow> if rq_linked r1 \<or> rq_blocked r1 then Some s1
                       else loop t peer (complete_unanswered t k s1)))))) = Some s'"
  show "0 \<le> t \<longrightarrow> ses_inv s \<longrightarrow> ses_inv s'"
  proof (intro impI)
    assume i: "0 \<le> t" "ses_inv s"
    show "ses_inv s'"
    proof (cases "blocked_keys s peer")
      case Nil
      then have "s' = s" using eq by (auto simp: blocked_keys_def split: option.splits)
      then show ?thesis using i by simp
    next
      case (Cons k ks)
      then obtain q where q: "map_of (se_blocked s) peer = Some q" "bq_requests q = k # ks"
        by (auto simp: blocked_keys_def split: option.splits)
      note body = eq [unfolded q option.case list.case]
      show ?thesis
      proof (cases "request_of k s")
        case None
        then have "loop t peer (remove_blocked k s) = Some s'" using body by simp
        from IH [OF this] i remove_inv [of s k] None show ?thesis by simp
      next
        case (Some r)
        show ?thesis
        proof (cases "rq_terminal r")
          case True
          then have "loop t peer (remove_blocked k s) = Some s'" using body Some by simp
          from IH [OF this] i remove_inv [of s k] Some True show ?thesis by simp
        next
          case False
          then obtain ok s1 where d: "dispatch_request_packets t k s = Some (ok, s1)"
            using body Some by (auto split: option.splits)
          note R = redispatch [OF d i(2) Some False i(1)]
          note b = body [unfolded Some option.case if_not_P [OF False] d prod.case]
          show ?thesis
          proof (cases ok)
            case True
            then obtain r1 where r1: "request_of k s1 = Some r1"
                "if rq_linked r1 \<or> rq_blocked r1 then ses_inv s1 else ses_inv (complete_unanswered t k s1)" using R(2) by blast
            show ?thesis
            proof (cases "rq_linked r1 \<or> rq_blocked r1")
              case linked: True
              then have "s' = s1" using b True r1(1) by simp
              then show ?thesis using r1(2) linked by simp
            next
              case unlinked: False
              then have "loop t peer (complete_unanswered t k s1) = Some s'" using b True r1(1) by simp
              from IH [OF this] i r1(2) unlinked show ?thesis by simp
            qed
          next
            case False
            then have "loop t peer (handle_dispatch_failure t k s1) = Some s'" using b by simp
            from IH [OF this] i R(1) [OF False] show ?thesis by simp
          qed
        qed
      qed
    qed
  qed
qed

lemma same_unmark:
  assumes "map_of (se_blocked s) peer = Some q"
  shows "same s (s\<lparr>se_blocked := AList.update peer (q\<lparr>bq_wakeup := b\<rparr>) (se_blocked s)\<rparr>)"
  using assms by (auto simp: same_def policy_kept_def retry_of_def queued_def blocked_keys_def update_conv')

lemma drain_inv:
  assumes "drain_blocked_peer_queue now peer s = Some s'" "ses_inv s" "0 \<le> now"
  shows "ses_inv s'"
proof (cases "map_of (se_blocked s) peer")
  case (Some q)
  then show ?thesis
    using assms drain_loop_inv inv_same [OF same_unmark [OF Some] assms(2)] by (simp add: drain_blocked_peer_queue_def)
qed (use assms in \<open>simp add: drain_blocked_peer_queue_def\<close>)

section \<open>The responder changes no request\<close>

lemma send_fragments_same: "send_fragments now e is s = Some (ok, s') \<Longrightarrow> same s s'"
proof (induction "now" e "is" s rule: send_fragments.induct)
  case (2 now e i "is" s)
  obtain p where p: "response_fragment now (get_payload_mtu s) (of_nat i) e = Some p"
    using "2.prems" by (auto split: option.splits)
  obtain b s1 where d: "dispatch_semantic_packet now (pe_meta e) p s = Some (b, s1)"
    using "2.prems" p by (auto split: option.splits)
  have s1: "same s s1" by (rule dispatch_semantic_same [OF d])
  show ?case
  proof (cases b)
    case True
    then show ?thesis using "2.prems" p d same_trans [OF s1 "2.IH" [OF p d refl True]] by simp
  next
    case False
    then show ?thesis using "2.prems" p d same_trans [OF s1 same_frames(1)] by auto
  qed
qed simp

lemma try_pending_same:
  assumes "try_dispatch_pending now k e s = Some (ok, s')"
  shows "same s s'"
proof (cases "0 < se_fail_next s")
  case True
  then show ?thesis using assms same_trans [OF same_frames(1) same_frames(7)] by (auto simp: try_dispatch_pending_def)
next
  case False
  obtain s1 where s1: "send_fragments now e [0..<unat (if pe_packets e = 0 then 1 else pe_packets e)] s = Some (ok, s1)"
    and s': "s' = (if ok then s1\<lparr>se_pending := AList.update k (e\<lparr>pe_terminal := True, pe_enqueued := False\<rparr>) (se_pending s1)\<rparr> else s1)"
    using assms unfolding try_dispatch_pending_def if_not_P [OF False] by auto
  note t = send_fragments_same [OF s1]
  show ?thesis unfolding s' using t same_trans [OF t same_frames(5)] by simp
qed

lemma release_pending_same [simp]: "same s (release_pending_budget now k s)"
  using same_trans [OF same_on_plane same_frames(5)]
  by (auto simp: release_pending_budget_def Let_def split: option.split)

lemma remove_pending_same [simp]: "same s (remove_pending_response now k s)"
proof -
  have "same s1 (s1\<lparr>se_queues := q\<rparr>\<lparr>se_pending := e\<rparr>)" for s1 :: ses and q e
    by (rule same_trans [OF same_frames(6) same_frames(5)])
  from same_trans [OF release_pending_same this] same_trans [OF release_pending_same same_frames(5)] show ?thesis
    by (auto simp: remove_pending_response_def Let_def split: option.split)
qed

lemma enqueue_pending_same [simp]: "same s (enqueue_pending_response now k s)"
proof -
  have "same s (s\<lparr>se_queues := q\<rparr>\<lparr>se_pending := e\<rparr>)" for q e
    by (rule same_trans [OF same_frames(6) same_frames(5)])
  from same_trans [OF this same_drain] show ?thesis
    by (auto simp: enqueue_pending_response_def Let_def split: option.split)
qed

lemma response_loop_same:
  assumes "response_loop now peer s = Some s'"
  shows "same s s'"
proof (rule response_loop.raw_induct [where P = "\<lambda>t p s s'. same s s'", OF _ assms])
  fix loop :: "ns \<Rightarrow> u32 \<Rightarrow> ses \<Rightarrow> ses option" and t :: ns and peer s s'
  assume IH: "\<And>t peer s s'. loop t peer s = Some s' \<Longrightarrow> same s s'"
  assume eq: "(case map_of (se_queues s) peer of
     None \<Rightarrow> Some s
   | Some q \<Rightarrow> (case pq_responses q of
       [] \<Rightarrow> Some s
     | k # _ \<Rightarrow> (case map_of (se_pending s) k of
         None \<Rightarrow> loop t peer (remove_pending_response t k s)
       | Some e \<Rightarrow>
           if pe_terminal e then loop t peer (remove_pending_response t k s)
           else if now_ms t < pe_next e then Some s
           else (case try_dispatch_pending t k e s of
               None \<Rightarrow> None
             | Some (ok, s1) \<Rightarrow>
                 if ok then loop t peer (remove_pending_response t k s1)
                 else Some (bump (\<lambda>c. c\<lparr>sc_response_retries := sc_response_retries c + 1\<rparr>)
                   (s1\<lparr>se_pending := AList.update k (e\<lparr>pe_retries := pe_retries e + 1,
                         pe_next := now_ms t + now_ms (se_interval s1)\<rparr>) (se_pending s1)\<rparr>)))))) = Some s'"
  have r: "loop t peer (remove_pending_response t k u) = Some s' \<Longrightarrow> same u s'" for u k
    using same_trans [OF remove_pending_same IH] .
  have b: "same u (bump f (u\<lparr>se_pending := e\<rparr>))" for u f e by (rule same_trans [OF same_frames(5) same_frames(1)])
  have d: "(if ok then loop t peer (remove_pending_response t k s1)
      else Some (bump f (s1\<lparr>se_pending := e'\<rparr>))) = Some s' \<Longrightarrow> same s1 s'" for ok k s1 f e'
    using r b by (auto split: if_splits)
  show "same s s'"
  proof (cases "queued_keys s peer")
    case (Cons k ks)
    then obtain q where q: "map_of (se_queues s) peer = Some q" "pq_responses q = k # ks"
      by (auto simp: queued_keys_def split: option.splits)
    note body = eq [unfolded q option.case list.case]
    show ?thesis
    proof (cases "map_of (se_pending s) k")
      case (Some e)
      show ?thesis
      proof (cases "pe_terminal e \<or> now_ms t < pe_next e")
        case False
        then obtain ok s1 where "try_dispatch_pending t k e s = Some (ok, s1)"
          using body Some by (auto split: option.splits)
        then show ?thesis using body Some False same_trans [OF try_pending_same d] by simp
      qed (use body Some r in \<open>auto split: if_splits\<close>)
    qed (use body r in simp)
  qed (use eq in \<open>auto simp: queued_keys_def split: option.splits\<close>)
qed

lemma drain_pending_same: "drain_pending_responses now peer s = Some s' \<Longrightarrow> same s s'"
  using same_trans [OF response_loop_same same_drain] by (auto simp: drain_pending_responses_def)

lemma run_drain_same: "run_response_drain now peer s = Some s' \<Longrightarrow> same s s'"
  using same_trans [OF same_frames(6) drain_pending_same] by (auto simp: run_response_drain_def split: option.splits)

lemma send_response_same: "send_response now k local remote opcode rc n payload res peer bytes s = Some s' \<Longrightarrow> same s s'"
  using same_trans [OF same_frames(5) same_trans [OF try_pending_same remove_pending_same]]
    same_trans [OF same_frames(5) same_trans [OF try_pending_same enqueue_pending_same]]
  by (auto simp: send_response_def Let_def split: if_splits)

lemma deny_same: "deny now k local remote rc s = Some (ok, s') \<Longrightarrow> same s s'"
  using send_response_same by (auto simp: deny_def send_plain_def)

lemma plain_same: "send_plain now k local remote opcode rc n s = Some s' \<Longrightarrow> same s s'"
  using send_response_same by (simp add: send_plain_def)

lemma incoming_send_same: "handle_incoming_send now k q h m s = Some (ok, s') \<Longrightarrow> same s s'"
  using same_on_rx [of s "handle_incoming_send_packet now (pq_pdc_id q) h m (Some (pq_packet q))"]
    same_trans [OF same_on_rx plain_same]
  by (auto simp: handle_incoming_send_def Let_def case_prod_beta split: if_splits)

lemma incoming_write_same:
  assumes "handle_incoming_write now k q h m s = Some (ok, s')"
  shows "same s s'"
proof (cases "validate_rma_request h m True (of_nat (pk_size (pq_packet q))) s")
  case None
  let ?f = "try_reserve_write_budget now (lk_peer k) (of_nat (pk_size (pq_packet q)))"
  obtain b s1 where s1: "on_plane now ?f s = (b, s1)" by fastforce
  have 1: "same s s1" using same_on_plane [of s "now" ?f] by (simp add: s1)
  show ?thesis
    using assms None s1 same_trans [OF 1 deny_same]
      same_trans [OF same_trans [OF same_trans [OF 1 same_on_rx] same_on_plane] plain_same]
    by (auto simp: handle_incoming_write_def Let_def split: if_splits)
qed (use assms deny_same in \<open>auto simp: handle_incoming_write_def\<close>)

lemma incoming_read_same:
  assumes "handle_incoming_read now k h m s = Some (ok, s')"
  shows "same s s'"
proof (cases "validate_rma_request h m False 0 s")
  case None
  let ?f = "try_reserve_read_responder_budget now (lk_peer k) (mt_request_length m)"
  obtain b s1 where s1: "on_plane now ?f s = (b, s1)" by fastforce
  have 1: "same s s1" using same_on_plane [of s "now" ?f] by (simp add: s1)
  show ?thesis
    using assms None s1 same_trans [OF 1 deny_same] same_trans [OF 1 send_response_same]
    by (auto simp: handle_incoming_read_def Let_def split: if_splits)
qed (use assms deny_same in \<open>auto simp: handle_incoming_read_def\<close>)

lemma incoming_same: "handle_incoming_request now q h m s = Some (ok, s') \<Longrightarrow> same s s'"
  by (auto simp: handle_incoming_request_def Let_def split: option.splits op_type.splits
      dest: deny_same incoming_send_same incoming_write_same incoming_read_same)

lemma receive_request_same:
  assumes "process_receive_request now q s = Some (ok, s')"
  shows "same s s'"
proof -
  let ?s1 = "bump (\<lambda>c. c\<lparr>sc_receive := sc_receive c + 1\<rparr>) s"
  have 1: "same s ?s1" by (rule same_frames(1))
  consider (bad) "s' = bump (\<lambda>c. c\<lparr>sc_errors := sc_errors c + 1\<rparr>) ?s1" | (rudi) "s' = ?s1"
    | (up) g where "s' = ?s1\<lparr>se_manager := g\<rparr>" | (request) h m where "handle_incoming_request now q h m ?s1 = Some (ok, s')"
    using assms by (auto simp: process_receive_request_def Let_def split: if_splits option.splits)
  then show ?thesis
  proof cases
    case bad
    show ?thesis unfolding bad by (rule same_trans [OF 1 same_frames(1)])
  next
    case up
    show ?thesis unfolding up by (rule same_trans [OF 1 same_frames(2)])
  next
    case request
    show ?thesis by (rule same_trans [OF 1 incoming_same [OF request]])
  qed (use 1 in simp)
qed

section \<open>Periodic processing and reset\<close>

lemma drain_all_same: "drain_all now ps s = Some s' \<Longrightarrow> same s s'"
proof (induction ps arbitrary: s)
  case (Cons p ps)
  obtain s1 where s1: "(case map_of (se_queues s) p of None \<Rightarrow> Some s | Some _ \<Rightarrow> drain_pending_responses now p s) = Some s1"
      "drain_all now ps s1 = Some s'"
    using Cons.prems by (auto split: option.splits)
  have "same s s1" using s1(1) drain_pending_same by (auto split: option.splits)
  then show ?case using same_trans Cons.IH [OF s1(2)] by blast
qed simp

lemma timeouts_inv: "ses_inv s \<Longrightarrow> ses_inv (fold (check_timeout now) ks s)"
  by (induction ks arbitrary: s) (simp_all add: timeout_inv)

lemma same_schedule [simp]: "same s (schedule_processing now s)"
  by (simp add: schedule_processing_def)

lemma periodic_inv:
  assumes "do_periodic_processing now peers ks s = Some s'" "ses_inv s"
  shows "ses_inv s'"
proof -
  let ?s = "s\<lparr>se_process := None\<rparr>"
  have i: "ses_inv ?s" by (rule inv_same [OF same_frames(8) assms(2)])
  show ?thesis
  proof (cases "se_rud s")
    case True
    then obtain s1 where s1: "drain_all now peers ?s = Some s1"
        "s' = schedule_processing now (snd (on_rx (\<lambda>x. (True, prune_receive_state now x)) (fold (check_timeout now) ks s1)))"
      using assms(1) by (auto simp: do_periodic_processing_def)
    have "ses_inv (fold (check_timeout now) ks s1)"
      by (rule timeouts_inv [OF inv_same [OF drain_all_same [OF s1(1)] i]])
    then show ?thesis unfolding s1(2) by (rule inv_same [OF same_trans [OF same_on_rx same_schedule]])
  next
    case False
    then show ?thesis using assms(1) i by (simp add: do_periodic_processing_def)
  qed
qed

lemma blank_inv:
  "1000000 \<le> se_retry_timeout s \<Longrightarrow> se_requests s = [] \<Longrightarrow> se_retries s = [] \<Longrightarrow> ses_inv s"
  by (simp add: ses_inv_def fine_def request_of_def retry_of_def)

section \<open>Every operation and event\<close>

text \<open>
  The PDS manager underneath may change in any way, and so may the configuration, with two provisos: what is
  authorised stays authorised (\<open>policy\<close>), and the retry timeout is at least a millisecond, the unit in which
  deadlines are kept.
\<close>

inductive ses_step :: "ses \<Rightarrow> ses \<Rightarrow> bool" where
  send: "process_send_request now m po s = Some (ok, s') \<Longrightarrow> 0 \<le> now \<Longrightarrow> ses_step s s'"
| request: "process_receive_request now q s = Some (ok, s') \<Longrightarrow> ses_step s s'"
| response: "process_receive_response now aux r s = (ok, s') \<Longrightarrow> 0 \<le> now \<Longrightarrow> ses_step s s'"
| retry: "map_of (se_retries s) k = Some y \<Longrightarrow> ry_event y = Some now \<Longrightarrow> 0 \<le> now \<Longrightarrow>
    execute_retry now k s = Some s' \<Longrightarrow> ses_step s s'"
| wake: "map_of (se_blocked s) peer = Some q \<Longrightarrow> bq_wakeup q \<Longrightarrow> 0 \<le> now \<Longrightarrow>
    drain_blocked_peer_queue now peer s = Some s' \<Longrightarrow> ses_step s s'"
| drain: "map_of (se_queues s) peer = Some pq \<Longrightarrow> pq_drain pq = Some now \<Longrightarrow>
    run_response_drain now peer s = Some s' \<Longrightarrow> ses_step s s'"
| periodic: "se_process s = Some now \<Longrightarrow> do_periodic_processing now peers ks s = Some s' \<Longrightarrow> ses_step s s'"
| credits: "ses_step s (notify_peer_credits now peer s)"
| manager: "ses_step s (s\<lparr>se_manager := g\<rparr>)"
| authorize: "ses_step s (authorize_job job s)"
| policy: "s' = s\<lparr>se_checker := c, se_allow_all := b, se_jobs := js\<rparr> \<Longrightarrow>
    (\<And>m. validate_authorization m s \<Longrightarrow> validate_authorization m s') \<Longrightarrow> ses_step s s'"
| configure: "ses_step s (s\<lparr>se_payload_mtu := mtu, se_rud := rud, se_strict := strict, se_interval := interval\<rparr>)"
| memory: "ses_step s (register_memory_region rkey start len rd wr s)"
| receive: "ses_step s (snd (post_receive now job msg src base len s))"
| timeout: "1000000 \<le> t \<Longrightarrow> ses_step s (configure_retry enabled t s)"
| reset: "ses_step s (ses_reset s)"

inductive ses_reachable :: "ses \<Rightarrow> bool" where
  start: "ses_reachable (new_ses m d)"
| step: "ses_reachable s \<Longrightarrow> ses_step s s' \<Longrightarrow> ses_reachable s'"

inductive_cases ses_stepE: "ses_step s s'"

lemma known_timeout: "known k m (s\<lparr>se_retry_enabled := b, se_retry_timeout := t\<rparr>) = known k m s"
  by (cases "se_checker s") (simp_all add: known_def validate_operation_metadata_def validate_authorization_def)

lemma fine_timeout: "fine k (s\<lparr>se_retry_enabled := b, se_retry_timeout := t\<rparr>) = fine k s"
  unfolding fine_def known_timeout by (simp add: tracked_def request_of_def retry_of_def queued_def blocked_keys_def)

lemma same_memory: "same s (register_memory_region rkey start len rd wr s)" "same s (snd (post_receive now job msg src base n s))"
  by (simp_all add: register_memory_region_def post_receive_def case_prod_beta)
    (simp add: same_def policy_kept_def request_of_def retry_of_def queued_def blocked_keys_def)

lemma step_inv_ses: "ses_step s s' \<Longrightarrow> ses_inv s \<Longrightarrow> ses_inv s'"
proof (induction rule: ses_step.induct)
  case (timeout t s enabled)
  then show ?case by (simp add: ses_inv_def configure_retry_def fine_timeout)
next
  case (policy s' js b c s)
  have "known k m s \<Longrightarrow> known k m s'" for k m
    using policy(2) by (auto simp: known_def validate_operation_metadata_def)
  then have "fine k s \<Longrightarrow> fine k s'" for k
    by (rule fine_mono) (simp_all add: policy(1) request_of_def retry_of_def queued_def blocked_keys_def)
  then show ?case using policy(1,3) by (simp add: ses_inv_def)
next
  case (configure interval strict rud mtu s)
  show ?case
    by (rule inv_same [OF _ configure])
      (simp add: same_def policy_kept_def request_of_def retry_of_def queued_def blocked_keys_def)
next
  case (reset s)
  then show ?case by (intro blank_inv) (simp_all add: ses_reset_def inv_fine(2))
next
  case (credits s t peer)
  show ?case unfolding notify_peer_credits_def by (rule inv_same [OF same_trans [OF same_wakeup same_drain] credits])
next
  case (manager s g)
  show ?case by (rule inv_same [OF same_frames(2) manager])
next
  case (authorize s job)
  show ?case by (rule inv_same [OF same_frames(10) authorize])
qed (blast intro: process_inv execute_inv drain_inv periodic_inv response_inv inv_same [OF receive_request_same]
      inv_same [OF run_drain_same] inv_same [OF same_memory(1)] inv_same [OF same_memory(2)])+

lemma reachable_ses_inv: "ses_reachable s \<Longrightarrow> ses_inv s"
proof (induction rule: ses_reachable.induct)
  case (start m d)
  show ?case by (rule blank_inv) (simp_all add: new_ses_def)
qed (rule step_inv_ses)


definition demo_full :: ses where
  "demo_full = new_ses (demo_manager\<lparr>mg_plane := demo_plane
     \<lparr>pn_send := unlimited_budget\<lparr>bg_message_limit := 1, bg_messages := 1, bg_bytes := 3\<rparr>\<rparr>\<rparr>) None"

definition demo_first :: "(bool \<times> ses) option" where
  "demo_first = process_send_request 0 (demo_request_meta\<lparr>om_is_retry := False\<rparr>) (Some (empty_packet\<lparr>pk_payload := [1, 2, 3]\<rparr>)) demo_full"

lemma demo_first: "map_option (\<lambda>(ok, s). (ok, map_option (\<lambda>r. (rq_terminal r, rq_waiting r, rq_linked r)) (request_of demo_key s),
    map_of (se_retries s) demo_key = None)) demo_first = Some (True, Some (False, False, True), True)"
  by code_simp


end
