(* ===== verification/MsnTable.thy ===== *)
theory MsnTable
  imports Prelude
begin

text \<open>
  \<open>MsnEntry\<close> and \<open>MsnTable\<close> (\<open>model/ses/msn-entry.cc\<close>): the messages a semantic sublayer
  tracks by their job, the packet sequence number each expects next, and the bounded table of them. The
  hash map is an association list in the order of iteration. \<open>None\<close> is a dereferenced end iterator
  or a loop that does not end.
\<close>

section \<open>Entries\<close>

record msn_entry =
  me_job :: u64
  me_pdc :: u32
  me_last :: u64
  me_expected :: u64
  me_created :: ns
  me_count :: u32
  me_length :: u64
  me_complete :: bool
  me_psns :: "u64 set"

definition new_entry :: "u64 \<Rightarrow> u32 \<Rightarrow> u64 \<Rightarrow> ns \<Rightarrow> msn_entry" where
  "new_entry job pdc expected now = \<lparr>me_job = job, me_pdc = pdc, me_last = 0, me_expected = expected,
     me_created = now, me_count = 0, me_length = 0, me_complete = False, me_psns = {}\<rparr>"

definition is_expected_psn :: "u64 \<Rightarrow> msn_entry \<Rightarrow> bool" where
  "is_expected_psn psn e \<longleftrightarrow> (if me_count e = 0 then psn = 0 else psn = me_last e + 1)"

definition update_with_packet :: "u64 \<Rightarrow> u32 \<Rightarrow> bool \<Rightarrow> msn_entry \<Rightarrow> bool \<times> msn_entry" where
  "update_with_packet psn len eom e =
    (if \<not> is_expected_psn psn e then (False, e)
     else let n = me_length e + ucast len
       in (True, e\<lparr>me_last := psn, me_count := me_count e + 1, me_length := n, me_psns := insert psn (me_psns e),
             me_complete := me_complete e \<or> eom \<or> 0 < me_expected e \<and> me_expected e \<le> n\<rparr>))"

definition has_timed_out :: "ns \<Rightarrow> ns \<Rightarrow> msn_entry \<Rightarrow> bool" where
  "has_timed_out now timeout e \<longleftrightarrow> timeout < now - me_created e"

text \<open>The loop runs over \<open>uint64_t\<close> up to the last number, whatever that is.\<close>

definition get_missing_psns :: "msn_entry \<Rightarrow> u64 list option" where
  "get_missing_psns e =
    (if me_count e = 0 then Some [0]
     else if me_last e = - 1 then None
     else Some (filter (\<lambda>p. p \<notin> me_psns e) (map of_nat [0..<Suc (unat (me_last e))])))"

section \<open>The table\<close>

record msn_table =
  ms_entries :: "(u64 \<times> msn_entry) list"
  ms_max :: u64
  ms_auto :: bool
  ms_timer :: "ns option"
  ms_timeout :: ns
  ms_lookups :: u64
  ms_updates :: u64
  ms_removals :: u64

definition new_msn_table :: msn_table where
  "new_msn_table = \<lparr>ms_entries = [], ms_max = 1000, ms_auto = False, ms_timer = None, ms_timeout = 30000000000,
     ms_lookups = 0, ms_updates = 0, ms_removals = 0\<rparr>"

definition ms_full :: "msn_table \<Rightarrow> bool" where
  "ms_full t \<longleftrightarrow> unat (ms_max t) \<le> length (ms_entries t)"

text \<open>The entry created first, unless none is older than now: then the first one.\<close>

fun oldest :: "ns \<Rightarrow> u64 \<Rightarrow> (u64 \<times> msn_entry) list \<Rightarrow> u64" where
  "oldest t k [] = k"
| "oldest t k ((k', e) # es) = (if me_created e < t then oldest (me_created e) k' es else oldest t k es)"

definition remove_oldest :: "ns \<Rightarrow> msn_table \<Rightarrow> msn_table" where
  "remove_oldest now t = t\<lparr>ms_entries := AList.delete (oldest now (fst (hd (ms_entries t))) (ms_entries t)) (ms_entries t),
     ms_removals := ms_removals t + 1\<rparr>"

lemma oldest_hd: "es \<noteq> [] \<Longrightarrow> oldest now (fst (hd es)) es \<in> fst ` set es"
proof -
  have "oldest t k es = k \<or> oldest t k es \<in> fst ` set es" for t k es
    by (induction t k es rule: oldest.induct) auto
  then show "es \<noteq> [] \<Longrightarrow> oldest now (fst (hd es)) es \<in> fst ` set es"
    by (metis hd_in_set image_eqI)
qed

lemma remove_oldest_shrinks: "ms_entries t \<noteq> [] \<Longrightarrow> length (ms_entries (remove_oldest now t)) < length (ms_entries t)"
proof -
  assume "ms_entries t \<noteq> []"
  then have "oldest now (fst (hd (ms_entries t))) (ms_entries t) \<in> fst ` set (ms_entries t)" by (rule oldest_hd)
  then show ?thesis
    by (auto simp: remove_oldest_def AList.delete_eq intro!: length_filter_less)
qed

function enforce_max_size :: "ns \<Rightarrow> msn_table \<Rightarrow> (u32 \<times> msn_table) option" where
  "enforce_max_size now t =
    (if \<not> ms_full t then Some (0, t)
     else if ms_entries t = [] then None
     else map_option (\<lambda>(n, t'). (n + 1, t')) (enforce_max_size now (remove_oldest now t)))"
  by auto
termination by (relation "measure (\<lambda>(now, t). length (ms_entries t))") (auto simp: remove_oldest_shrinks)

declare enforce_max_size.simps [simp del]

definition add_entry :: "ns \<Rightarrow> u64 \<Rightarrow> u32 \<Rightarrow> u64 \<Rightarrow> msn_table \<Rightarrow> (bool \<times> msn_table) option" where
  "add_entry now job pdc expected t =
    (if map_of (ms_entries t) job \<noteq> None then Some (False, t)
     else case (if ms_full t then enforce_max_size now t else Some (0, t)) of
       None \<Rightarrow> None
     | Some (_, t1) \<Rightarrow> Some (if ms_full t1 then (False, t1)
         else (True, t1\<lparr>ms_entries := AList.update job (new_entry job pdc expected now) (ms_entries t1)\<rparr>)))"

definition find_entry :: "u64 \<Rightarrow> msn_table \<Rightarrow> msn_entry option \<times> msn_table" where
  "find_entry job t = (map_of (ms_entries t) job, t\<lparr>ms_lookups := ms_lookups t + 1\<rparr>)"

definition remove_entry :: "u64 \<Rightarrow> msn_table \<Rightarrow> bool \<times> msn_table" where
  "remove_entry job t = (case map_of (ms_entries t) job of
     None \<Rightarrow> (False, t)
   | Some _ \<Rightarrow> (True, t\<lparr>ms_entries := AList.delete job (ms_entries t), ms_removals := ms_removals t + 1\<rparr>))"

definition update_entry :: "u64 \<Rightarrow> u64 \<Rightarrow> u32 \<Rightarrow> bool \<Rightarrow> msn_table \<Rightarrow> bool \<times> msn_table" where
  "update_entry job psn len eom t =
    (let (eo, t1) = find_entry job (t\<lparr>ms_updates := ms_updates t + 1\<rparr>)
     in case eo of
          None \<Rightarrow> (False, t1)
        | Some e \<Rightarrow> let (ok, e') = update_with_packet psn len eom e
            in (ok, t1\<lparr>ms_entries := AList.update job e' (ms_entries t1)\<rparr>))"

definition validate_psn :: "ns \<Rightarrow> u64 \<Rightarrow> u64 \<Rightarrow> u64 \<Rightarrow> u32 \<Rightarrow> bool \<Rightarrow> msn_table \<Rightarrow> (bool \<times> msn_table) option" where
  "validate_psn now job psn expected pdc first t =
    (let (eo, t1) = find_entry job t
     in case eo of
          None \<Rightarrow> if first then add_entry now job pdc expected t1 else Some (False, t1)
        | Some e \<Rightarrow> Some (is_expected_psn psn e, t1))"

definition cleanup_timed_out :: "ns \<Rightarrow> ns \<Rightarrow> msn_table \<Rightarrow> u32 \<times> msn_table" where
  "cleanup_timed_out now timeout t =
    (let old = filter (\<lambda>(_, e). has_timed_out now timeout e) (ms_entries t)
     in (of_nat (length old), t\<lparr>ms_entries := filter (\<lambda>(_, e). \<not> has_timed_out now timeout e) (ms_entries t),
           ms_removals := ms_removals t + of_nat (length old)\<rparr>))"

definition ms_clear :: "msn_table \<Rightarrow> msn_table" where
  "ms_clear t = t\<lparr>ms_entries := []\<rparr>"

definition set_max_size :: "ns \<Rightarrow> u64 \<Rightarrow> msn_table \<Rightarrow> msn_table option" where
  "set_max_size now n t = map_option snd (enforce_max_size now (t\<lparr>ms_max := n\<rparr>))"

definition disable_auto_cleanup :: "msn_table \<Rightarrow> msn_table" where
  "disable_auto_cleanup t = t\<lparr>ms_timer := None, ms_auto := False\<rparr>"

definition enable_auto_cleanup :: "ns \<Rightarrow> ns \<Rightarrow> msn_table \<Rightarrow> msn_table" where
  "enable_auto_cleanup now interval t =
    (if ms_auto t then disable_auto_cleanup t else t)\<lparr>ms_auto := True, ms_timer := Some (now + interval)\<rparr>"

text \<open>\<open>DoAutoCleanup\<close> runs as the timer's event, which is then no longer pending.\<close>

definition do_auto_cleanup :: "ns \<Rightarrow> msn_table \<Rightarrow> msn_table" where
  "do_auto_cleanup now t0 =
    (let t = snd (cleanup_timed_out now (ms_timeout t0) (t0\<lparr>ms_timer := None\<rparr>))
     in if ms_auto t then t\<lparr>ms_timer := Some (now + ms_timeout t)\<rparr> else t)"

end
