(* ===== verification/MsnProps.thy ===== *)
theory MsnProps
  imports MsnTable
begin

text \<open>
  What the table of messages keeps: an entry takes the packets of its message in order and without gaps,
  and the table stays within its size by giving up its oldest entry.
\<close>

section \<open>One message\<close>

fun offer :: "(u64 \<times> u32 \<times> bool) list \<Rightarrow> msn_entry \<Rightarrow> bool list \<times> msn_entry" where
  "offer [] e = ([], e)"
| "offer ((psn, len, eom) # xs) e =
    (let (ok, e1) = update_with_packet psn len eom e; (oks, e2) = offer xs e1 in (ok # oks, e2))"

definition taken :: "'a list \<Rightarrow> bool list \<Rightarrow> 'a list" where
  "taken xs oks = map fst (filter snd (zip xs oks))"

lemma taken_Cons [simp]: "taken (x # xs) (ok # oks) = (if ok then [x] else []) @ taken xs oks"
  by (simp add: taken_def)

text \<open>The specification: of a sequence of packets, those whose number is the next one, from \<open>n\<close> on.\<close>

fun next_in_order :: "nat \<Rightarrow> (u64 \<times> u32 \<times> bool) list \<Rightarrow> (u64 \<times> u32 \<times> bool) list" where
  "next_in_order n [] = []"
| "next_in_order n (x # xs) = (if fst x = of_nat n then x # next_in_order (Suc n) xs else next_in_order n xs)"

definition bytes_of :: "(u64 \<times> u32 \<times> bool) list \<Rightarrow> u64" where
  "bytes_of xs = sum_list (map (\<lambda>(_, len, _). ucast len) xs)"

definition ends_message :: "u64 \<Rightarrow> (u64 \<times> u32 \<times> bool) list \<Rightarrow> bool" where
  "ends_message expected xs \<longleftrightarrow> (\<exists>i < length xs. snd (snd (xs ! i)) \<or>
     0 < expected \<and> expected \<le> bytes_of (take (Suc i) xs))"

text \<open>The entry after the packets \<open>xs\<close> of its message.\<close>

definition holds :: "(u64 \<times> u32 \<times> bool) list \<Rightarrow> msn_entry \<Rightarrow> bool" where
  "holds xs e \<longleftrightarrow> map fst xs = map of_nat [0..<length xs] \<and> me_count e = of_nat (length xs) \<and>
     me_psns e = set (map fst xs) \<and> (xs \<noteq> [] \<longrightarrow> me_last e = of_nat (length xs - 1)) \<and>
     me_length e = bytes_of xs \<and> (me_complete e \<longleftrightarrow> ends_message (me_expected e) xs)"

lemma bytes_of_snoc: "bytes_of (xs @ [(p, len, eom)]) = bytes_of xs + ucast len"
  by (simp add: bytes_of_def)

lemma ends_message_snoc:
  "ends_message ex (xs @ [(p, len, eom)]) \<longleftrightarrow> ends_message ex xs \<or> eom \<or> 0 < ex \<and> ex \<le> bytes_of (xs @ [(p, len, eom)])"
proof -
  let ?x = "(p, len, eom)"
  have "ends_message ex (xs @ [?x]) \<longleftrightarrow> (\<exists>i < length xs. snd (snd (xs ! i)) \<or> 0 < ex \<and> ex \<le> bytes_of (take (Suc i) xs)) \<or>
      eom \<or> 0 < ex \<and> ex \<le> bytes_of (xs @ [?x])"
    unfolding ends_message_def length_append_singleton Ex_less_Suc by (auto simp: nth_append)
  then show ?thesis by (simp add: ends_message_def)
qed

lemma holds_expected:
  assumes "holds xs e" "length xs < 2 ^ 32"
  shows "is_expected_psn psn e \<longleftrightarrow> psn = of_nat (length xs)"
proof (cases "length xs")
  case 0
  then show ?thesis using assms(1) by (simp add: is_expected_psn_def holds_def)
next
  case (Suc n)
  have "unat (of_nat (length xs) :: u32) = length xs" using assms(2) by (intro unat_of_nat_lt) simp
  then have "me_count e \<noteq> 0" using assms(1) Suc by (metis holds_def nat.distinct(1) unsigned_0)
  moreover have "me_last e = of_nat n" using assms(1) Suc by (auto simp: holds_def)
  ultimately show ?thesis using Suc by (simp add: is_expected_psn_def add.commute)
qed

lemma holds_psns: "holds xs e \<Longrightarrow> fst ` set xs = of_nat ` {0..<length xs} \<and> me_psns e = of_nat ` {0..<length xs}"
  unfolding holds_def by (metis list.set_map set_upt)

lemma update_holds:
  assumes "holds xs e" "length xs < 2 ^ 32" "update_with_packet psn len eom e = (ok, e')"
  shows "holds (if ok then xs @ [(psn, len, eom)] else xs) e' \<and> me_expected e' = me_expected e \<and>
    (ok \<longleftrightarrow> psn = of_nat (length xs))"
proof (cases "is_expected_psn psn e")
  case True
  then have p: "psn = of_nat (length xs)" using holds_expected [OF assms(1,2)] by simp
  have e': "ok" "e' = e\<lparr>me_last := psn, me_count := me_count e + 1, me_length := me_length e + ucast len,
      me_psns := insert psn (me_psns e), me_complete := me_complete e \<or> eom \<or>
        0 < me_expected e \<and> me_expected e \<le> me_length e + ucast len\<rparr>"
    using assms(3) True by (simp_all add: update_with_packet_def Let_def)
  have s: "fst ` set xs = of_nat ` {0..<length xs}" using holds_psns [OF assms(1)] by simp
  show ?thesis
    using assms(1) s unfolding e'(2) holds_def
    by (simp add: e'(1) p bytes_of_snoc ends_message_snoc add.commute)
next
  case False
  then show ?thesis using assms holds_expected [OF assms(1,2)] by (simp add: update_with_packet_def)
qed

lemma offer_holds:
  assumes "holds ys e" "length ys + length xs < 2 ^ 32" "offer xs e = (oks, e')"
  shows "holds (ys @ taken xs oks) e' \<and> me_expected e' = me_expected e \<and> taken xs oks = next_in_order (length ys) xs"
  using assms
proof (induction xs e arbitrary: ys oks e' rule: offer.induct)
  case (2 psn len eom xs e)
  obtain ok e1 where u: "update_with_packet psn len eom e = (ok, e1)" by fastforce
  obtain oks1 where o: "offer xs e1 = (oks1, e')" "oks = ok # oks1"
    using "2.prems"(3) u by (auto simp: Let_def split: prod.splits)
  have h: "holds (if ok then ys @ [(psn, len, eom)] else ys) e1" "me_expected e1 = me_expected e"
      "ok \<longleftrightarrow> psn = of_nat (length ys)"
    using update_holds [OF "2.prems"(1) _ u] "2.prems"(2) by auto
  show ?case using "2.IH" [OF u [symmetric] refl h(1) _ o(1)] "2.prems"(2) o(2) h(2,3) by (cases ok) auto
qed (simp add: taken_def)

lemma holds_missing:
  assumes "holds xs e" "length xs < 2 ^ 32"
  shows "get_missing_psns e = Some (if xs = [] then [0] else [])"
proof (cases "xs = []")
  case False
  let ?n = "length xs"
  have n: "unat (of_nat (?n - 1) :: u64) = ?n - 1" using assms(2) by (intro unat_of_nat_lt) simp
  have "me_count e \<noteq> 0"
    using assms False unat_of_nat_lt [of ?n, where 'a = 32] by (auto simp: holds_def word_unat_eq_iff)
  moreover have last: "me_last e = of_nat (?n - 1)" using assms(1) False by (simp add: holds_def)
  moreover have "me_last e \<noteq> - 1"
  proof
    assume "me_last e = - 1"
    then have "?n - 1 = unat (- 1 :: u64)" using n last by simp
    then show False using assms(2) by (simp add: unsigned_minus_1_eq_mask mask_eq_exp_minus_1)
  qed
  moreover have "me_psns e = of_nat ` {..<?n}"
    using holds_psns [OF assms(1)] by (simp add: atLeast0LessThan)
  moreover have "[0..<Suc (unat (me_last e))] = [0..<?n]" using False last n by (cases ?n) simp_all
  ultimately show ?thesis using False by (simp add: get_missing_psns_def del: upt_Suc)
qed (use assms(1) in \<open>simp add: holds_def get_missing_psns_def\<close>)

text \<open>
  C36: Of fewer than 2^32 packets that are offered to a new entry, in any order and with repetitions,
  it takes exactly those that have the next number when they come, starting with 0. Its length is the
  sum of theirs, it reports number 0 missing as long as it has taken none and nothing afterwards, and
  it is complete exactly when one of them ended the message or the expected length was reached.
\<close>

theorem message_in_order:
  assumes "offer xs (new_entry job pdc expected now) = (oks, e)" "length xs < 2 ^ 32"
  shows "taken xs oks = next_in_order 0 xs \<and>
    map fst (taken xs oks) = map of_nat [0..<length (taken xs oks)] \<and>
    get_missing_psns e = Some (if taken xs oks = [] then [0] else []) \<and>
    me_length e = bytes_of (taken xs oks) \<and> (me_complete e \<longleftrightarrow> ends_message expected (taken xs oks))"
proof -
  have "holds [] (new_entry job pdc expected now)"
    by (simp add: holds_def new_entry_def bytes_of_def ends_message_def)
  from offer_holds [OF this _ assms(1)] assms(2)
  have h: "holds (taken xs oks) e" "me_expected e = expected" "taken xs oks = next_in_order 0 xs" by (auto simp: new_entry_def)
  have "length (taken xs oks) \<le> length xs"
    using length_filter_le [of snd "zip xs oks"] by (simp add: taken_def)
  then have m: "get_missing_psns e = Some (if taken xs oks = [] then [0] else [])"
    using holds_missing [OF h(1)] assms(2) by simp
  have p: "map fst (taken xs oks) = map of_nat [0..<length (taken xs oks)]" using h(1) unfolding holds_def by (elim conjE)
  have q: "me_length e = bytes_of (taken xs oks)" using h(1) unfolding holds_def by (elim conjE)
  have c: "me_complete e \<longleftrightarrow> ends_message (me_expected e) (taken xs oks)" using h(1) unfolding holds_def by (elim conjE)
  show ?thesis by (intro conjI h(3) p m q c [unfolded h(2)])
qed

definition demo_offer :: "(u64 \<times> u32 \<times> bool) list" where
  "demo_offer = [(0, 10, False), (2, 10, False), (1, 20, True)]"

lemma message_in_order_witness:
  "map fst (taken demo_offer (fst (offer demo_offer (new_entry 5 1 0 0)))) = [0, 1] \<and>
   get_missing_psns (snd (offer demo_offer (new_entry 5 1 0 0))) = Some []"
proof -
  have t: "taken demo_offer (fst (offer demo_offer (new_entry 5 1 0 0))) = [(0, 10, False), (1, 20, True)]"
    by (simp add: demo_offer_def new_entry_def update_with_packet_def is_expected_psn_def Let_def) (simp add: taken_def)
  have "offer demo_offer (new_entry 5 1 0 0) =
      (fst (offer demo_offer (new_entry 5 1 0 0)), snd (offer demo_offer (new_entry 5 1 0 0)))" by simp
  from message_in_order [OF this] have m: "get_missing_psns (snd (offer demo_offer (new_entry 5 1 0 0))) = Some []"
    unfolding t by (simp add: demo_offer_def)
  show ?thesis unfolding t m by simp
qed

section \<open>The table\<close>

text \<open>The oldest entry, if one is older than the start value.\<close>

lemma oldest_least:
  "oldest t k es = k \<and> (\<forall>(_, e) \<in> set es. t \<le> me_created e) \<or>
   (\<exists>e. (oldest t k es, e) \<in> set es \<and> me_created e < t \<and> (\<forall>(_, e') \<in> set es. me_created e \<le> me_created e'))"
proof (induction t k es rule: oldest.induct)
  case (2 t k k' e es)
  show ?case
  proof (cases "me_created e < t")
    case True
    from "2.IH"(1) [OF True] show ?thesis
    proof
      assume "oldest (me_created e) k' es = k' \<and> (\<forall>(_, e') \<in> set es. me_created e \<le> me_created e')"
      then show ?thesis using True by (intro disjI2 exI [of _ e]) auto
    next
      assume "\<exists>f. (oldest (me_created e) k' es, f) \<in> set es \<and> me_created f < me_created e \<and>
          (\<forall>(_, e') \<in> set es. me_created f \<le> me_created e')"
      then obtain f where "(oldest (me_created e) k' es, f) \<in> set es" "me_created f < me_created e"
          "\<forall>(_, e') \<in> set es. me_created f \<le> me_created e'" by blast
      then show ?thesis using True by (intro disjI2 exI [of _ f]) auto
    qed
  next
    case False
    from "2.IH"(2) [OF False] show ?thesis
    proof
      assume "oldest t k es = k \<and> (\<forall>(_, e') \<in> set es. t \<le> me_created e')"
      then show ?thesis using False by (intro disjI1) auto
    next
      assume "\<exists>f. (oldest t k es, f) \<in> set es \<and> me_created f < t \<and> (\<forall>(_, e') \<in> set es. me_created f \<le> me_created e')"
      then obtain f where "(oldest t k es, f) \<in> set es" "me_created f < t" "\<forall>(_, e') \<in> set es. me_created f \<le> me_created e'"
        by blast
      then show ?thesis using False by (intro disjI2 exI [of _ f]) auto
    qed
  qed
qed simp

definition table_inv :: "ns \<Rightarrow> msn_table \<Rightarrow> bool" where
  "table_inv now t \<longleftrightarrow> distinct (map fst (ms_entries t)) \<and> length (ms_entries t) \<le> unat (ms_max t) \<and> ms_max t \<noteq> 0 \<and>
     (\<forall>(_, e) \<in> set (ms_entries t). me_created e \<le> now)"

lemma removed_entries: "set (ms_entries (remove_oldest now t)) \<subseteq> set (ms_entries t)"
  by (auto simp: remove_oldest_def AList.delete_eq)

lemma delete_inv: "table_inv now t \<Longrightarrow> table_inv now (t\<lparr>ms_entries := AList.delete k (ms_entries t), ms_removals := n\<rparr>)"
proof -
  assume t: "table_inv now t"
  have "set (AList.delete k (ms_entries t)) \<subseteq> set (ms_entries t)" by (auto simp: AList.delete_eq)
  then show ?thesis using t
    by (auto simp: table_inv_def AList.distinct_delete intro: le_trans [OF length_delete_le])
qed

lemma remove_oldest_inv: "table_inv now t \<Longrightarrow> table_inv now (remove_oldest now t)"
  by (simp add: remove_oldest_def delete_inv)

lemma enforce_inv:
  assumes "distinct (map fst (ms_entries t))" "ms_max t \<noteq> 0" "\<forall>(_, e) \<in> set (ms_entries t). me_created e \<le> now"
  shows "\<exists>n t'. enforce_max_size now t = Some (n, t') \<and> table_inv now t' \<and> length (ms_entries t') < unat (ms_max t') \<and>
    ms_max t' = ms_max t"
  using assms
proof (induction "now" t rule: enforce_max_size.induct)
  case (1 "now" t)
  show ?case
  proof (cases "ms_full t")
    case False
    then show ?thesis using "1.prems"
      by (intro exI [of _ 0] exI [of _ t]) (simp add: enforce_max_size.simps [of _ t] table_inv_def ms_full_def)
  next
    case True
    then have ne: "ms_entries t \<noteq> []" using "1.prems"(2) by (auto simp: ms_full_def unat_gt_0 [symmetric])
    have "\<exists>n t'. enforce_max_size now (remove_oldest now t) = Some (n, t') \<and> table_inv now t' \<and>
        length (ms_entries t') < unat (ms_max t') \<and> ms_max t' = ms_max (remove_oldest now t)"
      using "1.prems" True ne removed_entries [of now t]
      by (intro "1.IH") (auto simp: remove_oldest_def AList.distinct_delete)
    then show ?thesis using True ne by (auto simp: enforce_max_size.simps [of _ t] remove_oldest_def)
  qed
qed

lemma enforce_one:
  assumes "table_inv now t" "ms_full t"
  shows "enforce_max_size now t = Some (1, remove_oldest now t)"
proof -
  have ne: "ms_entries t \<noteq> []" using assms by (auto simp: table_inv_def ms_full_def unat_gt_0 [symmetric])
  then have "\<not> ms_full (remove_oldest now t)"
    using remove_oldest_shrinks [OF ne, of now] assms by (simp add: table_inv_def ms_full_def remove_oldest_def)
  then show ?thesis using assms(2) ne
    by (simp add: enforce_max_size.simps [of _ t] enforce_max_size.simps [of _ "remove_oldest now t"])
qed

lemma add_entry_cases:
  assumes "table_inv now t" "map_of (ms_entries t) job = None"
  defines "t1 \<equiv> (if ms_full t then remove_oldest now t else t)"
  shows "add_entry now job pdc ex t =
      Some (True, t1\<lparr>ms_entries := AList.update job (new_entry job pdc ex now) (ms_entries t1)\<rparr>)"
    "table_inv now t1" "length (ms_entries t1) < unat (ms_max t1)" "ms_max t1 = ms_max t"
proof -
  show i: "table_inv now t1" using assms(1) remove_oldest_inv by (simp add: t1_def)
  show l: "length (ms_entries t1) < unat (ms_max t1)"
  proof (cases "ms_full t")
    case True
    then have "ms_entries t \<noteq> []" using assms(1) by (auto simp: table_inv_def ms_full_def unat_gt_0 [symmetric])
    then show ?thesis using remove_oldest_shrinks [of t now] assms(1) True
      by (simp add: t1_def table_inv_def remove_oldest_def)
  qed (simp add: t1_def ms_full_def)
  show "ms_max t1 = ms_max t" by (simp add: t1_def remove_oldest_def)
  show "add_entry now job pdc ex t =
      Some (True, t1\<lparr>ms_entries := AList.update job (new_entry job pdc ex now) (ms_entries t1)\<rparr>)"
    using assms(2) l enforce_one [OF assms(1)]
    by (cases "ms_full t") (simp_all add: add_entry_def t1_def ms_full_def [of "remove_oldest now t"])
qed

text \<open>
  The operations at time \<open>now\<close>, with a size that is never 0. \<open>advance\<close> lets time pass.
\<close>

inductive msn_step :: "ns \<times> msn_table \<Rightarrow> ns \<times> msn_table \<Rightarrow> bool" where
  advance: "now \<le> now' \<Longrightarrow> msn_step (now, t) (now', t)"
| add: "add_entry now job pdc ex t = Some (ok, t') \<Longrightarrow> msn_step (now, t) (now, t')"
| find: "msn_step (now, t) (now, snd (find_entry job t))"
| remove: "msn_step (now, t) (now, snd (remove_entry job t))"
| update: "msn_step (now, t) (now, snd (update_entry job psn len eom t))"
| validate: "validate_psn now job psn ex pdc first t = Some (ok, t') \<Longrightarrow> msn_step (now, t) (now, t')"
| cleanup: "msn_step (now, t) (now, snd (cleanup_timed_out now timeout t))"
| clear: "msn_step (now, t) (now, ms_clear t)"
| resize: "n \<noteq> 0 \<Longrightarrow> set_max_size now n t = Some t' \<Longrightarrow> msn_step (now, t) (now, t')"
| enable: "msn_step (now, t) (now, enable_auto_cleanup now interval t)"
| disable: "msn_step (now, t) (now, disable_auto_cleanup t)"
| timer: "ms_timer t = Some now \<Longrightarrow> msn_step (now, t) (now, do_auto_cleanup now t)"

inductive msn_reachable :: "ns \<times> msn_table \<Rightarrow> bool" where
  init: "msn_reachable (now, new_msn_table)"
| step: "msn_reachable s \<Longrightarrow> msn_step s s' \<Longrightarrow> msn_reachable s'"

lemma table_inv_frames [simp]:
  "table_inv now (t\<lparr>ms_lookups := x\<rparr>) = table_inv now t" "table_inv now (t\<lparr>ms_timer := m\<rparr>) = table_inv now t"
  "table_inv now (t\<lparr>ms_auto := b\<rparr>) = table_inv now t" "table_inv now t \<Longrightarrow> table_inv now (t\<lparr>ms_entries := []\<rparr>)"
  by (simp_all add: table_inv_def)

lemma table_inv_update:
  assumes "table_inv now t" "map_of (ms_entries t) job \<noteq> None \<or> length (ms_entries t) < unat (ms_max t)" "me_created e \<le> now"
  shows "table_inv now (t\<lparr>ms_entries := AList.update job e (ms_entries t)\<rparr>)"
proof -
  have "set (AList.update job e es) \<subseteq> insert (job, e) (set es)" for es
    by (induction es) auto
  moreover have "length (AList.update job e es) = (if map_of es job = None then Suc (length es) else length es)" for es
    by (induction es) auto
  ultimately show ?thesis using assms unfolding table_inv_def by (fastforce simp: AList.distinct_update)
qed

lemma add_entry_inv:
  assumes "table_inv now t" "add_entry now job pdc ex t = Some (ok, t')"
  shows "table_inv now t'"
proof (cases "map_of (ms_entries t) job")
  case None
  note a = add_entry_cases [OF assms(1) None]
  have "table_inv now ((if ms_full t then remove_oldest now t else t)
      \<lparr>ms_entries := AList.update job (new_entry job pdc ex now) (ms_entries (if ms_full t then remove_oldest now t else t))\<rparr>)"
    by (rule table_inv_update [OF a(2)]) (use a(3) in \<open>simp_all add: new_entry_def\<close>)
  then show ?thesis using a(1) assms(2) by simp
next
  case (Some e)
  then show ?thesis using assms by (simp add: add_entry_def)
qed

lemma filter_inv:
  "table_inv now t \<Longrightarrow> table_inv now (t\<lparr>ms_entries := filter P (ms_entries t), ms_removals := n\<rparr>)"
  by (auto simp: table_inv_def distinct_map_filter intro: le_trans [OF length_filter_le])

lemma cleanup_inv: "table_inv now t \<Longrightarrow> table_inv now (snd (cleanup_timed_out now' timeout t))"
  by (simp add: cleanup_timed_out_def Let_def filter_inv)

lemma update_entry_inv: "table_inv now t \<Longrightarrow> table_inv now (snd (update_entry job psn len eom t))"
proof (cases "map_of (ms_entries t) job")
  case (Some e)
  assume t: "table_inv now t"
  have "me_created (snd (update_with_packet psn len eom e)) = me_created e"
    by (simp add: update_with_packet_def Let_def)
  moreover have "me_created e \<le> now" using t map_of_SomeD [OF Some] by (auto simp: table_inv_def)
  ultimately have "table_inv now (t\<lparr>ms_entries := AList.update job (snd (update_with_packet psn len eom e)) (ms_entries t)\<rparr>)"
    using t Some by (intro table_inv_update) auto
  then show ?thesis using Some
    by (simp add: update_entry_def find_entry_def Let_def case_prod_beta table_inv_def)
qed (simp add: update_entry_def find_entry_def Let_def table_inv_def)

lemma step_inv: "msn_step s s' \<Longrightarrow> table_inv (fst s) (snd s) \<Longrightarrow> table_inv (fst s') (snd s')"
proof (induction rule: msn_step.induct)
  case (advance "now" now' t)
  then show ?case by (fastforce simp: table_inv_def)
next
  case (remove "now" t job)
  then show ?case by (simp add: remove_entry_def delete_inv split: option.split)
next
  case (validate "now" job psn ex pdc first t ok t')
  have l: "table_inv now (t\<lparr>ms_lookups := ms_lookups t + 1\<rparr>)" using validate.prems by simp
  show ?case using validate.hyps l add_entry_inv [OF l]
    by (auto simp: validate_psn_def find_entry_def split: option.splits if_splits)
next
  case (resize n "now" t t')
  have "\<exists>m t''. enforce_max_size now (t\<lparr>ms_max := n\<rparr>) = Some (m, t'') \<and> table_inv now t'' \<and>
      length (ms_entries t'') < unat (ms_max t'') \<and> ms_max t'' = ms_max (t\<lparr>ms_max := n\<rparr>)"
    by (rule enforce_inv) (use resize in \<open>auto simp: table_inv_def\<close>)
  then show ?case using resize.hyps by (auto simp: set_max_size_def)
qed (auto simp: add_entry_inv update_entry_inv cleanup_inv find_entry_def ms_clear_def enable_auto_cleanup_def
     disable_auto_cleanup_def do_auto_cleanup_def Let_def)

lemma reachable_inv: "msn_reachable s \<Longrightarrow> table_inv (fst s) (snd s)"
proof (induction rule: msn_reachable.induct)
  case (init "now")
  then show ?case by (simp add: table_inv_def new_msn_table_def)
qed (rule step_inv)

text \<open>
  C37: In every state that the operations reach, a message of an unknown job is always admitted, the table
  stays within its size, and every other message is still tracked but for one at most, which goes
  only when the table was full and is no younger than any other.
\<close>

theorem table_admits:
  assumes "msn_reachable (now, t)" "map_of (ms_entries t) job = None"
  shows "\<exists>t'. add_entry now job pdc ex t = Some (True, t') \<and> length (ms_entries t') \<le> unat (ms_max t') \<and>
    map_of (ms_entries t') job = Some (new_entry job pdc ex now) \<and>
    (\<exists>v. \<forall>k. k \<noteq> job \<longrightarrow> k \<noteq> v \<longrightarrow> map_of (ms_entries t') k = map_of (ms_entries t) k) \<and>
    (\<forall>k e. map_of (ms_entries t) k = Some e \<longrightarrow> map_of (ms_entries t') k = None \<longrightarrow>
       length (ms_entries t) = unat (ms_max t) \<and> (\<forall>k' e'. map_of (ms_entries t) k' = Some e' \<longrightarrow> me_created e \<le> me_created e'))"
proof -
  have inv: "table_inv now t" using reachable_inv [OF assms(1)] by simp
  let ?t1 = "if ms_full t then remove_oldest now t else t"
  let ?t' = "?t1\<lparr>ms_entries := AList.update job (new_entry job pdc ex now) (ms_entries ?t1)\<rparr>"
  note a = add_entry_cases [OF inv assms(2)]
  have "table_inv now ?t'" by (rule table_inv_update [OF a(2)]) (use a(3) in \<open>simp_all add: new_entry_def\<close>)
  then have len: "length (ms_entries ?t') \<le> unat (ms_max ?t')" by (simp add: table_inv_def)
  let ?v = "oldest now (fst (hd (ms_entries t))) (ms_entries t)"
  have m: "map_of (ms_entries ?t') k = (if k = job then Some (new_entry job pdc ex now)
      else if ms_full t \<and> k = ?v then None else map_of (ms_entries t) k)" for k
    by (simp add: update_conv' remove_oldest_def delete_conv')
  have gone: "length (ms_entries t) = unat (ms_max t) \<and> me_created e \<le> me_created e'"
    if k: "map_of (ms_entries t) k = Some e" "map_of (ms_entries ?t') k = None" "map_of (ms_entries t) k' = Some e'" for k e k' e'
  proof -
    have v: "ms_full t" "k = ?v" using k(1,2) unfolding m by (auto split: if_splits)
    have d: "distinct (map fst (ms_entries t))" and old: "\<forall>(_, e) \<in> set (ms_entries t). me_created e \<le> now"
      using inv by (simp_all add: table_inv_def)
    have e: "(k, e) \<in> set (ms_entries t)" "(k', e') \<in> set (ms_entries t)" using k(1,3) by (simp_all add: map_of_SomeD)
    from oldest_least [of now "fst (hd (ms_entries t))" "ms_entries t"]
    have "me_created e \<le> me_created e'"
    proof
      assume "?v = fst (hd (ms_entries t)) \<and> (\<forall>(_, e) \<in> set (ms_entries t). now \<le> me_created e)"
      then show ?thesis using e old by fastforce
    next
      assume "\<exists>f. (?v, f) \<in> set (ms_entries t) \<and> me_created f < now \<and> (\<forall>(_, e') \<in> set (ms_entries t). me_created f \<le> me_created e')"
      then obtain f where f: "(?v, f) \<in> set (ms_entries t)" "\<forall>(_, e') \<in> set (ms_entries t). me_created f \<le> me_created e'" by blast
      have "f = e" using f(1) e(1) d v(2) by (metis eq_key_imp_eq_value)
      then show ?thesis using f(2) e(2) by auto
    qed
    then show ?thesis using v(1) inv by (simp add: table_inv_def ms_full_def)
  qed
  show ?thesis
    by (intro exI [of _ ?t'] conjI a(1) len exI [of _ ?v] allI impI) (use m gone in auto)
qed

lemma table_admits_witness: "\<exists>t. add_entry 0 5 1 0 new_msn_table = Some (True, t) \<and> map_of (ms_entries t) 5 = Some (new_entry 5 1 0 0)"
  using table_admits [OF msn_reachable.init [of 0], where job = 5 and pdc = 1 and ex = 0] by (auto simp: new_msn_table_def)

text \<open>The entry counts packets in 32 bits: after 2^32 of them it waits for number 0 again.\<close>

lemma count_wraps: "me_count e = - 1 \<Longrightarrow> is_expected_psn psn e \<Longrightarrow>
    is_expected_psn p (snd (update_with_packet psn len eom e)) \<longleftrightarrow> p = 0"
  by (simp add: update_with_packet_def Let_def is_expected_psn_def [of p])

text \<open>A size of 0 cannot be enforced: the empty table has no oldest entry.\<close>

lemma no_size_zero: "set_max_size now 0 (new_msn_table) = None"
  by (simp add: set_max_size_def) (subst enforce_max_size.simps, simp add: new_msn_table_def ms_full_def)

end
