(* ===== verification/FabricProps.thy ===== *)
theory FabricProps
  imports FabricChannel "HOL-Library.Multiset"
begin

text \<open>
  The fabric over any sequence of transmissions, flushes, arrivals and faults: what it carries is what it was
  given, flows keep their order on their path, and a new flow gets a least loaded path.
\<close>

section \<open>The choice of a path\<close>

text \<open>The lowest score of a list, and the positions that have it.\<close>

definition places :: "u64 \<Rightarrow> u64 list \<Rightarrow> u32 list" where
  "places m xs = map of_nat (filter (\<lambda>j. xs ! j = m) [0..<length xs])"

definition best_of :: "u64 list \<Rightarrow> (u64 \<times> u32 list) option" where
  "best_of xs = (if xs = [] then None else Some (Min (set xs), places (Min (set xs)) xs))"

lemma places_snoc: "places m (xs @ [x]) = places m xs @ (if x = m then [of_nat (length xs)] else [])"
proof -
  have "filter (\<lambda>j. (xs @ [x]) ! j = m) [0..<length xs] = filter (\<lambda>j. xs ! j = m) [0..<length xs]"
    by (rule filter_cong) (simp_all add: nth_append)
  then show ?thesis by (simp add: places_def)
qed

lemma places_none: "m \<notin> set xs \<Longrightarrow> places m xs = []"
  by (auto simp: places_def filter_empty_conv)

lemma best_of_snoc:
  "best_of (xs @ [x]) = (case best_of xs of
       None \<Rightarrow> Some (x, [of_nat (length xs)])
     | Some (y, is) \<Rightarrow> if x < y then Some (x, [of_nat (length xs)])
         else if x = y then Some (y, is @ [of_nat (length xs)]) else Some (y, is))"
proof (cases "xs = []")
  case False
  define l where "l = Min (set xs)"
  have m: "Min (set (xs @ [x])) = min x l" using False by (simp add: l_def)
  have b: "best_of (xs @ [x]) = Some (min x l, places (min x l) (xs @ [x]))" by (simp add: best_of_def m del: set_append)
  have o: "best_of xs = Some (l, places l xs)" using False by (simp add: best_of_def l_def)
  have none: "places x xs = []" if "x < l"
    by (rule places_none) (use that [unfolded l_def] in \<open>meson List.finite_set Min_le leD\<close>)
  show ?thesis unfolding b o places_snoc by (cases x l rule: linorder_cases) (simp_all add: none min_def less_le_not_le)
qed (simp add: best_of_def places_def)

lemma scan_best: "scan_scores (of_nat (length ys)) xs (best_of ys) = best_of (ys @ xs)"
proof (induction xs arbitrary: ys)
  case (Cons x xs)
  have "scan_scores (of_nat (length ys)) (x # xs) (best_of ys) = scan_scores (of_nat (length (ys @ [x]))) xs (best_of (ys @ [x]))"
    by (simp add: best_of_snoc add.commute)
  then show ?case using Cons.IH [of "ys @ [x]"] by simp
qed simp

lemma scan_scores_best: "scan_scores 0 xs None = best_of xs"
  using scan_best [of "[]" xs] by (simp add: best_of_def)

lemma best_of_facts:
  assumes "best_of xs = Some (m, js)" "length xs < 2 ^ 32"
  shows "js \<noteq> []" "i \<in> set js \<Longrightarrow> unat i < length xs \<and> xs ! unat i = m" "x \<in> set xs \<Longrightarrow> m \<le> x"
proof -
  have xs: "xs \<noteq> []" and m: "m = Min (set xs)" and pos: "js = map of_nat (filter (\<lambda>j. xs ! j = m) [0..<length xs])"
    using assms(1) by (auto simp: best_of_def places_def split: if_splits)
  have "m \<in> set xs" using xs m by simp
  then show "js \<noteq> []" by (auto simp: pos filter_empty_conv in_set_conv_nth)
  show "x \<in> set xs \<Longrightarrow> m \<le> x" by (simp add: m)
  assume "i \<in> set js"
  then obtain j where j: "i = of_nat j" "j < length xs" "xs ! j = m" by (auto simp: pos)
  then have "unat i = j" using assms(2) by (simp add: unat_of_nat_lt)
  then show "unat i < length xs \<and> xs ! unat i = m" using j by simp
qed

section \<open>Frames\<close>

text \<open>What only the configuration changes.\<close>

definition fixed :: "channel \<Rightarrow> channel \<Rightarrow> bool" where
  "fixed c c' \<longleftrightarrow> ch_devices c' = ch_devices c \<and> ch_seconds c' = ch_seconds c \<and> ch_path_rate c' = ch_path_rate c \<and>
     ch_path_delay c' = ch_path_delay c \<and> ch_extra c' = ch_extra c \<and> ch_path_count c' = ch_path_count c \<and>
     ch_ecmp c' = ch_ecmp c \<and> ch_dynamic c' = ch_dynamic c \<and> ch_hold_delay c' = ch_hold_delay c"

lemma fixed_refl [simp]: "fixed c c" by (simp add: fixed_def)

lemma fixed_trans: "fixed c c' \<Longrightarrow> fixed c' c'' \<Longrightarrow> fixed c c''" by (simp add: fixed_def)

text \<open>What is on its way, and the fault plan.\<close>

definition cargo :: "channel \<Rightarrow> delivery list \<times> held_transmission option \<times> u32 \<times> u32 \<times> bool \<times> (ns \<times> ns) option" where
  "cargo c = (ch_pending c, ch_held c, ch_drop_requests c, ch_drop_responses c, ch_hold_response c, ch_flush c)"

lemma ensure_frame [simp]: "fixed c (ensure_paths c)" "cargo (ensure_paths c) = cargo c"
  "ch_assigned (ensure_paths c) = ch_assigned c"
  by (simp_all add: ensure_paths_def fixed_def cargo_def Let_def)

lemma length_ensure [simp]: "length (ch_paths (ensure_paths c)) = unat (max 1 (ch_path_count c))"
  by (simp add: ensure_paths_def Let_def)

lemma ensure_idem: "length (ch_paths c) = unat (max 1 (ch_path_count c)) \<Longrightarrow> ensure_paths c = c"
  by (simp add: ensure_paths_def Let_def)

lemma adaptive_frame: "select_adaptive now f src dst c = (i, c') \<Longrightarrow> fixed c c' \<and> cargo c' = cargo c"
  by (auto simp: select_adaptive_def Let_def note_score_def ensure_paths_def fixed_def cargo_def
      split: if_splits option.splits prod.splits)

lemma select_frame: "select_path now f src dst c = (i, c') \<Longrightarrow> fixed c c' \<and> cargo c' = cargo c"
  using adaptive_frame by (auto simp: select_path_def split: if_splits)

lemma reserve_frame:
  assumes "reserve_path now f src dst c = Some (t, c')"
  shows "fixed c c' \<and> cargo c' = cargo c"
proof -
  obtain i c1 where s: "select_path now f src dst (ensure_paths c) = (i, c1)" by fastforce
  have "fixed c1 c' \<and> cargo c' = cargo c1"
    using assms by (auto simp: reserve_path_def s Let_def fixed_def cargo_def split: if_splits)
  then show ?thesis using select_frame [OF s] fixed_trans [OF ensure_frame(1)] fixed_trans by (metis ensure_frame(2))
qed

lemma schedule_frame: "schedule_delay now f c = (t, c') \<Longrightarrow> fixed c c' \<and> cargo c' = cargo c"
  by (auto simp: schedule_delay_def Let_def fixed_def cargo_def split: if_splits)

lemma delay_frame:
  assumes "packet_delay now f src dst r c = Some (t, r', c')"
  shows "fixed c c' \<and> cargo c' = cargo c"
  using assms reserve_frame schedule_frame
  by (auto simp: packet_delay_def split: if_splits option.splits prod.splits)

section \<open>Flows and their paths\<close>

text \<open>Explicit paths: more than one, and flows are hashed onto them or assigned to them.\<close>

definition paths_ready :: "channel \<Rightarrow> bool" where
  "paths_ready c \<longleftrightarrow> 1 < ch_path_count c \<and> ch_ecmp c \<and> (\<forall>bits rate. 0 \<le> ch_seconds c bits rate) \<and>
     (\<forall>k i. map_of (ch_assigned c) k = Some i \<longrightarrow> unat i < unat (ch_path_count c))"

definition route :: "channel \<Rightarrow> u64 \<Rightarrow> u32 option" where
  "route c key = (if ch_dynamic c then map_of (ch_assigned c) key
     else Some (ucast (mix_flow_key key mod ucast (ch_path_count c))))"

text \<open>When the last packet that was put on a path arrives.\<close>

definition latest :: "channel \<Rightarrow> u32 \<Rightarrow> ns" where
  "latest c i = pt_next (ch_paths (ensure_paths c) ! unat i) + ch_path_delay c + ch_extra c"

text \<open>Routes stay, and paths only get later.\<close>

definition onward :: "channel \<Rightarrow> channel \<Rightarrow> bool" where
  "onward c c' \<longleftrightarrow> fixed c c' \<and> (\<forall>k i. route c k = Some i \<longrightarrow> route c' k = Some i) \<and>
     (\<forall>i. unat i < unat (ch_path_count c) \<longrightarrow> latest c i \<le> latest c' i)"

lemma onward_refl [simp]: "onward c c" by (simp add: onward_def)

lemma onward_trans:
  assumes "onward c c'" "onward c' c''"
  shows "onward c c''"
proof -
  have f: "fixed c c''" using assms fixed_trans unfolding onward_def by blast
  have n: "ch_path_count c' = ch_path_count c" using assms(1) by (simp add: onward_def fixed_def)
  have l: "latest c i \<le> latest c'' i" if "unat i < unat (ch_path_count c)" for i
  proof -
    have "latest c i \<le> latest c' i" using assms(1) that by (simp add: onward_def)
    also have "\<dots> \<le> latest c'' i" using assms(2) that n by (simp add: onward_def)
    finally show ?thesis .
  qed
  show ?thesis using f l assms unfolding onward_def by blast
qed

lemma mod_below:
  fixes a b :: u64
  assumes "0 < b"
  shows "unat (a mod b) < unat b"
proof -
  have "0 < unat b" using assms by (simp add: word_less_nat_alt)
  then show ?thesis by (simp add: unat_mod)
qed

lemma ready_ensure [simp]: "paths_ready (ensure_paths c) = paths_ready c" "route (ensure_paths c) = route c"
  "latest (ensure_paths c) = latest c" "ensure_paths (ensure_paths c) = ensure_paths c"
proof -
  show e: "ensure_paths (ensure_paths c) = ensure_paths c"
    by (rule ensure_idem) (simp add: ensure_paths_def Let_def)
  show "latest (ensure_paths c) = latest c" unfolding latest_def e by (simp add: ensure_paths_def Let_def fun_eq_iff)
  show "paths_ready (ensure_paths c) = paths_ready c" "route (ensure_paths c) = route c"
    by (simp_all add: paths_ready_def route_def fun_eq_iff ensure_paths_def Let_def)
qed

lemma ready_max: "paths_ready c \<Longrightarrow> max 1 (ch_path_count c) = ch_path_count c"
  by (simp add: paths_ready_def max_absorb2)

lemma hashed_in_range:
  assumes "paths_ready c"
  shows "unat (ucast (mix_flow_key k mod ucast (ch_path_count c)) :: u32) < unat (ch_path_count c)"
proof -
  let ?n = "ucast (ch_path_count c) :: u64"
  have n: "unat ?n = unat (ch_path_count c)" by (rule unat_ucast_u64)
  have "1 < unat (ch_path_count c)" using assms by (simp add: paths_ready_def word_less_nat_alt)
  then have "0 < ?n" unfolding word_less_nat_alt n by simp
  then have l: "unat (mix_flow_key k mod ?n) < unat (ch_path_count c)" using mod_below n by metis
  also have "\<dots> < 2 ^ 32" using unsigned_less [of "ch_path_count c"] by simp
  finally have "unat (ucast (mix_flow_key k mod ?n) :: u32) = unat (mix_flow_key k mod ?n)"
    by (simp add: unsigned_ucast_eq take_bit_nat_eq_self)
  then show ?thesis using l by simp
qed

text \<open>A new flow gets one of the paths with the lowest score, and keeps it.\<close>

lemma adaptive_choice:
  assumes "select_adaptive now f src dst c = (i, c')" "paths_ready c" "length (ch_paths c) = unat (ch_path_count c)"
    and "map_of (ch_assigned c) (build_flow_key (fr_packet f) src dst) = None"
  defines "score \<equiv> \<lambda>j. path_score now (transmission_time f (ch_path_rate c) c) (refresh_path now (ch_paths c ! j))"
  shows "unat i < unat (ch_path_count c)" "j < unat (ch_path_count c) \<Longrightarrow> score (unat i) \<le> score j"
    "ch_assigned c' = AList.update (build_flow_key (fr_packet f) src dst) i (ch_assigned c)"
    "ch_paths c' = map (refresh_path now) (ch_paths c)"
proof -
  let ?key = "build_flow_key (fr_packet f) src dst" and ?tx = "transmission_time f (ch_path_rate c) c"
  let ?xs = "map (path_score now ?tx) (map (refresh_path now) (ch_paths c))"
  have n: "1 < unat (ch_path_count c)" using assms(2) by (simp add: paths_ready_def word_less_nat_alt)
  have e: "ensure_paths c = c" by (rule ensure_idem) (use assms(3) ready_max [OF assms(2)] in simp)
  have l: "length ?xs = unat (ch_path_count c)" using assms(3) by simp
  then have "?xs \<noteq> []" using n by (metis list.size(3) not_one_less_zero)
  then obtain m js where b: "best_of ?xs = Some (m, js)" by (simp add: best_of_def)
  have lt: "length ?xs < 2 ^ 32" unfolding l using unsigned_less [of "ch_path_count c"] by simp
  note B = best_of_facts [OF b lt]
  define i0 where "i0 = (if js = [] then 0 else if length js = 1 \<or> \<not> ch_ecmp c then hd js
     else js ! unat (mix_flow_key ?key mod of_nat (length js)))"
  have c1: "\<not> ch_path_count c \<le> 1" using assms(2) unfolding paths_ready_def not_le by blast
  have "(i, c') = (i0, note_score m (c\<lparr>ch_paths := map (refresh_path now) (ch_paths c),
      ch_assigned := AList.update ?key i0 (ch_assigned c), ch_assign_total := ch_assign_total c + 1,
      ch_assign_peak := max (ch_assign_peak c) (of_nat (length (AList.update ?key i0 (ch_assigned c))))\<rparr>))"
    using assms(1) unfolding select_adaptive_def if_not_P [OF c1] Let_def e assms(4) option.case scan_scores_best b
      prod.case i0_def by (rule sym)
  then have i: "i = i0" and c': "ch_assigned c' = AList.update ?key i0 (ch_assigned c)"
      "ch_paths c' = map (refresh_path now) (ch_paths c)" by (simp_all add: note_score_def)
  have len: "length js < 2 ^ 64"
  proof -
    have "length js \<le> length ?xs"
      using b length_filter_le [of _ "[0..<length ?xs]"] by (auto simp: best_of_def places_def split: if_splits)
    then show ?thesis using lt by simp
  qed
  have "i0 \<in> set js"
  proof (cases "length js = 1 \<or> \<not> ch_ecmp c")
    case False
    have u: "unat (of_nat (length js) :: u64) = length js" by (rule unat_of_nat_lt) (use len in simp)
    have "0 < unat (of_nat (length js) :: u64)" unfolding u using B(1) by simp
    then have "unat (mix_flow_key ?key mod of_nat (length js)) < length js"
      using mod_below [of "of_nat (length js)" "mix_flow_key ?key"] u by (simp add: word_less_nat_alt)
    then show ?thesis using False B(1) by (simp add: i0_def)
  qed (use B(1) in \<open>simp add: i0_def\<close>)
  note I = B(2) [OF this]
  show "unat i < unat (ch_path_count c)" using I l i by simp
  show "ch_assigned c' = AList.update ?key i (ch_assigned c)" "ch_paths c' = map (refresh_path now) (ch_paths c)"
    using c' i by simp_all
  assume j: "j < unat (ch_path_count c)"
  have "?xs ! j \<in> set ?xs" by (rule nth_mem) (use j l in simp)
  then have "m \<le> ?xs ! j" by (rule B(3))
  moreover have at: "?xs ! k = score k" if "k < unat (ch_path_count c)" for k using that assms(3) by (simp add: score_def)
  have u: "unat i0 < unat (ch_path_count c)" using I l by metis
  ultimately show "score (unat i) \<le> score j" using I at [OF j] at [OF u] i by simp
qed

lemma select_facts:
  assumes "select_path now f src dst c = (i, c')" "paths_ready c" "length (ch_paths c) = unat (ch_path_count c)"
  defines "key \<equiv> build_flow_key (fr_packet f) src dst"
  shows "unat i < unat (ch_path_count c)" "route c' key = Some i" "route c k = Some j \<Longrightarrow> route c' k = Some j"
    "map pt_next (ch_paths c') = map pt_next (ch_paths c)" "paths_ready c'"
proof -
  have c1: "\<not> ch_path_count c \<le> 1" using assms(2) unfolding paths_ready_def not_le by blast
  have e: "ensure_paths c = c" by (rule ensure_idem) (use assms(3) ready_max [OF assms(2)] in simp)
  have fx: "fixed c c'" using select_frame [OF assms(1)] by blast
  have goal: "unat i < unat (ch_path_count c) \<and> route c' key = Some i \<and>
      (\<forall>k j. route c k = Some j \<longrightarrow> route c' k = Some j) \<and>
      map pt_next (ch_paths c') = map pt_next (ch_paths c) \<and>
      (\<forall>k i. map_of (ch_assigned c') k = Some i \<longrightarrow> unat i < unat (ch_path_count c))"
  proof (cases "ch_dynamic c")
    case False
    then have "i = ucast (mix_flow_key key mod ucast (ch_path_count c))" "c' = c"
      using assms(1,2) c1 by (auto simp: select_path_def paths_ready_def key_def)
    then show ?thesis using hashed_in_range [OF assms(2)] False assms(2) by (simp add: route_def paths_ready_def)
  next
    case True
    then have sel: "select_adaptive now f src dst c = (i, c')" using assms(1) by (simp add: select_path_def)
    have d: "ch_dynamic c'" using fx True by (simp add: fixed_def)
    show ?thesis
    proof (cases "map_of (ch_assigned c) key")
      case None
      note A = adaptive_choice [OF sel assms(2,3) None [unfolded key_def]]
      have "map_of (ch_assigned c') k = (if k = key then Some i else map_of (ch_assigned c) k)" for k
        unfolding A(3) key_def by (simp add: update_conv')
      then show ?thesis using A(1,4) True d None assms(2) by (auto simp: route_def refresh_path_def paths_ready_def)
    next
      case (Some a)
      then have "i = a" "c' = c\<lparr>ch_reuse_total := ch_reuse_total c + 1\<rparr>"
        using sel c1 unfolding select_adaptive_def key_def by (simp_all add: e)
      then show ?thesis using Some True assms(2) by (simp add: route_def paths_ready_def)
    qed
  qed
  then show "unat i < unat (ch_path_count c)" "route c' key = Some i" "route c k = Some j \<Longrightarrow> route c' k = Some j"
    "map pt_next (ch_paths c') = map pt_next (ch_paths c)" by blast+
  show "paths_ready c'" using goal fx assms(2) by (simp add: paths_ready_def fixed_def)
qed

lemma transmission_nonneg: "paths_ready c \<Longrightarrow> 0 \<le> transmission_time f rate c"
  by (simp add: transmission_time_def paths_ready_def Let_def)

lemma reserve_path_facts:
  assumes "paths_ready c"
  shows "\<exists>t c' i. reserve_path now f src dst c = Some (t, c') \<and> onward c c' \<and> paths_ready c' \<and> cargo c' = cargo c \<and>
    route c' (build_flow_key (fr_packet f) src dst) = Some i \<and> unat i < unat (ch_path_count c) \<and> now + t = latest c' i \<and>
    length (ch_paths c') = unat (ch_path_count c)"
proof -
  let ?c0 = "ensure_paths c" and ?n = "unat (ch_path_count c)"
  have r0: "paths_ready ?c0" using assms by simp
  have n0: "ch_path_count ?c0 = ch_path_count c" using ensure_frame(1) [of c] unfolding fixed_def by blast
  have l0: "length (ch_paths ?c0) = ?n" using ready_max [OF assms] by simp
  obtain i c1 where s: "select_path now f src dst ?c0 = (i, c1)" by fastforce
  note S = select_facts [OF s r0 l0 [folded n0], unfolded n0]
  have f1: "fixed ?c0 c1" "cargo c1 = cargo ?c0" using select_frame [OF s] by auto
  have l1: "length (ch_paths c1) = ?n" using arg_cong [OF S(4), of length] l0 by simp
  define p where "p = ch_paths c1 ! unat i"
  define finish where "finish = max now (pt_next p) + transmission_time f (ch_path_rate c1) c1"
  define c2 where "c2 = c1\<lparr>ch_paths := (ch_paths c1)[unat i := use_path now finish (of_nat (pk_size (fr_packet f)))
      (build_flow_key (fr_packet f) src dst) (ch_ecn c1) p],
      ch_hotspots := (if dst \<noteq> 0 then AList.update dst ((case map_of (ch_hotspots c1) dst of None \<Rightarrow> 0 | Some b \<Rightarrow> b) +
        of_nat (pk_size (fr_packet f))) (ch_hotspots c1) else ch_hotspots c1)\<rparr>"
  have i1: "\<not> length (ch_paths c1) \<le> unat i" using S(1) l1 by simp
  have r: "reserve_path now f src dst c = Some (finish - now + ch_path_delay c1 + ch_extra c1, c2)"
    unfolding reserve_path_def s Let_def prod.case if_not_P [OF i1] p_def [symmetric] finish_def [symmetric] c2_def ..
  have n1: "ch_path_count c1 = ch_path_count c" using f1(1) n0 by (simp add: fixed_def)
  have f2: "fixed c1 c2" "cargo c2 = cargo c1" "route c2 = route c1" "paths_ready c2 = paths_ready c1"
    by (simp_all add: c2_def fixed_def cargo_def route_def paths_ready_def fun_eq_iff)
  have l2: "length (ch_paths c2) = ?n" using l1 by (simp add: c2_def)
  have e: "ensure_paths c1 = c1" "ensure_paths c2 = c2"
    using l1 l2 n1 ready_max [OF assms] f2(1) by (simp_all add: ensure_idem fixed_def)
  have next2: "pt_next (ch_paths c2 ! j) = (if j = unat i then finish else pt_next (ch_paths c1 ! j))" if "j < ?n" for j
    using that l1 by (simp add: c2_def nth_list_update use_path_def Let_def)
  have next1: "pt_next (ch_paths c1 ! j) = pt_next (ch_paths ?c0 ! j)" if "j < ?n" for j
    using arg_cong [OF S(4), of "\<lambda>xs. xs ! j"] that l0 l1 by simp
  have cfg: "ch_path_delay c2 = ch_path_delay c" "ch_extra c2 = ch_extra c" "ch_path_delay c1 = ch_path_delay c" "ch_extra c1 = ch_extra c"
    using f1(1) f2(1) ensure_frame(1) [of c] by (simp_all add: fixed_def)
  have "0 \<le> transmission_time f (ch_path_rate c1) c1" by (rule transmission_nonneg [OF S(5)])
  then have fin: "pt_next p \<le> finish" by (simp add: finish_def)
  have "latest c j \<le> latest c2 j" if "unat j < ?n" for j
  proof -
    have "pt_next (ch_paths ?c0 ! unat j) \<le> pt_next (ch_paths c2 ! unat j)"
      using next2 [OF that] next1 [OF that] next1 [OF S(1)] fin by (cases "unat j = unat i") (simp_all add: p_def)
    then show ?thesis by (simp add: latest_def e cfg)
  qed
  moreover have "route c2 k = Some j" if "route c k = Some j" for k j using S(3) [of k j] that f2(3) by simp
  moreover have "fixed c c2" using fixed_trans [OF ensure_frame(1) fixed_trans [OF f1(1) f2(1)]] .
  ultimately have on: "onward c c2" by (simp add: onward_def)
  have lat: "now + (finish - now + ch_path_delay c1 + ch_extra c1) = latest c2 i"
    using next2 [OF S(1)] by (simp add: latest_def e cfg)
  show ?thesis
    by (intro exI conjI, rule r, rule on) (use S(1,2,5) f1 f2 lat l2 in simp_all)
qed

section \<open>The order of a flow\<close>

definition flow_of :: "delivery \<Rightarrow> u64" where
  "flow_of x = build_flow_key (fr_packet (dl_frame x)) (dl_src x) (dl_dst x)"

text \<open>No packet on the way arrives after the time its path is busy to, and packets of one flow arrive in order.\<close>

definition on_route :: "u64 \<Rightarrow> ns \<Rightarrow> channel \<Rightarrow> bool" where
  "on_route key t c \<longleftrightarrow> (\<exists>i. route c key = Some i \<and> unat i < unat (ch_path_count c) \<and> t \<le> latest c i)"

definition in_order :: "delivery list \<Rightarrow> bool" where
  "in_order xs \<longleftrightarrow> sorted_wrt (\<lambda>x y. flow_of x = flow_of y \<longrightarrow> dl_at x \<le> dl_at y) xs"

definition flow_inv :: "channel \<Rightarrow> bool" where
  "flow_inv c \<longleftrightarrow> paths_ready c \<and> (\<forall>x \<in> set (ch_pending c). on_route (flow_of x) (dl_at x) c) \<and> in_order (ch_pending c)"

lemma on_route_onward: "on_route key t c \<Longrightarrow> onward c c' \<Longrightarrow> on_route key t c'"
  unfolding on_route_def onward_def fixed_def by (metis order_trans)

lemma flow_inv_onward: "flow_inv c \<Longrightarrow> onward c c' \<Longrightarrow> paths_ready c' \<Longrightarrow> ch_pending c' = ch_pending c \<Longrightarrow> flow_inv c'"
  unfolding flow_inv_def by (auto intro: on_route_onward)

text \<open>Changes that concern neither paths nor packets on the way.\<close>

lemma onward_same: "fixed c c' \<Longrightarrow> ch_paths c' = ch_paths c \<Longrightarrow> ch_assigned c' = ch_assigned c \<Longrightarrow>
    onward c c' \<and> (paths_ready c \<longrightarrow> paths_ready c')"
  by (auto simp: onward_def fixed_def route_def latest_def ensure_paths_def paths_ready_def Let_def)

lemma flow_inv_same: "flow_inv c \<Longrightarrow> fixed c c' \<Longrightarrow> ch_paths c' = ch_paths c \<Longrightarrow> ch_assigned c' = ch_assigned c \<Longrightarrow>
    ch_pending c' = ch_pending c \<Longrightarrow> flow_inv c'"
  using flow_inv_onward onward_same by (metis flow_inv_def)

text \<open>The packet whose arrival is the latest of its path.\<close>

definition due :: "u64 \<Rightarrow> ns \<Rightarrow> channel \<Rightarrow> bool" where
  "due key t c \<longleftrightarrow> (\<exists>i. route c key = Some i \<and> unat i < unat (ch_path_count c) \<and> t = latest c i)"

lemma due_same: "due key t c \<Longrightarrow> fixed c c' \<Longrightarrow> ch_paths c' = ch_paths c \<Longrightarrow> ch_assigned c' = ch_assigned c \<Longrightarrow> due key t c'"
  by (auto simp: due_def fixed_def route_def latest_def ensure_paths_def Let_def)

lemma schedule_inv:
  assumes "flow_inv c" "due (build_flow_key (fr_packet f) src dst) (now + t) c"
  shows "flow_inv (schedule_receive now t f d src dst c)"
proof -
  let ?c = "schedule_receive now t f d src dst c"
  have o: "onward c ?c" "paths_ready ?c"
    using onward_same [of c ?c] assms(1) by (simp_all add: schedule_receive_def fixed_def flow_inv_def)
  obtain i where i: "route c (build_flow_key (fr_packet f) src dst) = Some i" "unat i < unat (ch_path_count c)" "now + t = latest c i"
    using assms(2) by (auto simp: due_def)
  have new: "on_route (build_flow_key (fr_packet f) src dst) (now + t) ?c"
    by (rule on_route_onward [OF _ o(1)]) (use i in \<open>auto simp: on_route_def\<close>)
  have "dl_at x \<le> now + t" if "x \<in> set (ch_pending c)" "flow_of x = build_flow_key (fr_packet f) src dst" for x
    using assms(1) that i by (auto simp: flow_inv_def on_route_def)
  moreover have "\<forall>x \<in> set (ch_pending c). on_route (flow_of x) (dl_at x) ?c"
    using assms(1) on_route_onward [OF _ o(1)] by (simp add: flow_inv_def)
  ultimately show ?thesis using assms(1) o(2) new
    by (simp add: flow_inv_def in_order_def sorted_wrt_append schedule_receive_def flow_of_def)
qed

lemma stamp_packet [simp]: "fr_packet (stamp g f) = fr_packet f"
  by (simp add: stamp_def)

lemma cargo_pending: "cargo c' = cargo c \<Longrightarrow> ch_pending c' = ch_pending c" by (simp add: cargo_def)

lemma reserve_inv:
  assumes "flow_inv c"
  shows "\<exists>t c'. reserve_path now f src dst c = Some (t, c') \<and> flow_inv c' \<and> cargo c' = cargo c \<and> fixed c c' \<and>
    due (build_flow_key (fr_packet f) src dst) (now + t) c'"
proof -
  have "paths_ready c" using assms by (simp add: flow_inv_def)
  from reserve_path_facts [OF this] obtain t c' i where r: "reserve_path now f src dst c = Some (t, c')" "onward c c'"
      "paths_ready c'" "cargo c' = cargo c" "route c' (build_flow_key (fr_packet f) src dst) = Some i"
      "unat i < unat (ch_path_count c)" "now + t = latest c' i" by blast
  have "due (build_flow_key (fr_packet f) src dst) (now + t) c'"
    using r(2,5-7) by (auto simp: due_def onward_def fixed_def)
  then show ?thesis
    using r(1,4) flow_inv_onward [OF assms r(2,3) cargo_pending [OF r(4)]] r(2) by (auto simp: onward_def)
qed

text \<open>The loop over the devices, with the delay that the packet has reserved.\<close>

definition loop_inv :: "u64 \<Rightarrow> ns \<Rightarrow> ns option \<times> channel \<Rightarrow> bool" where
  "loop_inv key now st \<longleftrightarrow> flow_inv (snd st) \<and> (\<forall>t. fst st = Some t \<longrightarrow> due key (now + t) (snd st))"

lemma delay_inv:
  assumes "loop_inv (build_flow_key (fr_packet f) src dst) now (r, c)"
  shows "\<exists>t c'. packet_delay now f src dst r c = Some (t, Some t, c') \<and> cargo c' = cargo c \<and>
    loop_inv (build_flow_key (fr_packet f) src dst) now (Some t, c')"
proof -
  have m: "1 < ch_path_count c \<and> ch_ecmp c" using assms by (simp add: loop_inv_def flow_inv_def paths_ready_def)
  show ?thesis
  proof (cases r)
    case None
    from reserve_inv [of c "now" f src dst] assms obtain t c' where "reserve_path now f src dst c = Some (t, c')"
        "flow_inv c'" "cargo c' = cargo c" "due (build_flow_key (fr_packet f) src dst) (now + t) c'"
      by (auto simp: loop_inv_def)
    then show ?thesis using None m by (simp add: packet_delay_def loop_inv_def)
  next
    case (Some t)
    then show ?thesis using assms m by (simp add: packet_delay_def loop_inv_def)
  qed
qed

lemma loop_inv_same:
  assumes "loop_inv key now (r, c)" "fixed c c'" "ch_paths c' = ch_paths c" "ch_assigned c' = ch_assigned c" "ch_pending c' = ch_pending c"
  shows "loop_inv key now (r, c')"
  using assms flow_inv_same [OF _ assms(2-5)] due_same [OF _ assms(2-4)] by (auto simp: loop_inv_def)

lemma offer_inv:
  assumes "loop_inv (build_flow_key (fr_packet f) src dst) now st"
  shows "\<exists>st'. offer_to now lost late f d src dst st = Some st' \<and> loop_inv (build_flow_key (fr_packet f) src dst) now st'"
proof -
  let ?key = "build_flow_key (fr_packet f) src dst"
  obtain r c where st: "st = (r, c)" by fastforce
  have drop: "loop_inv ?key now (r, c\<lparr>ch_drop_requests := n\<rparr>)" "loop_inv ?key now (r, c\<lparr>ch_drop_responses := n\<rparr>)" for n
    using loop_inv_same [OF assms [unfolded st]] by (simp_all add: fixed_def)
  obtain t c' where t: "packet_delay now f src dst r c = Some (t, Some t, c')" "loop_inv ?key now (Some t, c')"
    using delay_inv [OF assms [unfolded st]] by blast
  have hold: "loop_inv ?key now (Some t, hold_packet now t f d src dst c')"
      "loop_inv ?key now (Some t, hold_packet now t f d src dst (c'\<lparr>ch_hold_response := False\<rparr>))"
    using loop_inv_same [OF t(2)] by (simp_all add: hold_packet_def fixed_def)
  let ?c = "schedule_receive now t (stamp g f) d src dst c'"
  have "flow_inv (schedule_receive now t (stamp g f) d src dst c')" for g
    by (rule schedule_inv) (use t(2) in \<open>simp_all add: loop_inv_def\<close>)
  moreover have "due ?key (now + t) (schedule_receive now t (stamp g f) d src dst c')" for g
    by (rule due_same [of _ _ c']) (use t(2) in \<open>simp_all add: loop_inv_def schedule_receive_def fixed_def\<close>)
  ultimately have send: "loop_inv ?key now (Some t, schedule_receive now t (stamp g f) d src dst c')" for g
    by (simp add: loop_inv_def)
  show ?thesis using drop hold send assms unfolding st offer_to_def by (simp add: t(1) Let_def)
qed

lemma transmit_loop_inv:
  "loop_inv (build_flow_key (fr_packet f) src dst) now st \<Longrightarrow>
   \<exists>st'. transmit_loop now lost late f from src dst i ds st = Some st' \<and>
     loop_inv (build_flow_key (fr_packet f) src dst) now st'"
proof (induction ds arbitrary: i st)
  case (Cons d ds)
  obtain st1 where "(if is_target from dst i d then offer_to now (lost i) (late i) f d src dst st else Some st) = Some st1"
      "loop_inv (build_flow_key (fr_packet f) src dst) now st1"
    using offer_inv [OF Cons.prems] Cons.prems by (metis (full_types))
  then show ?case using Cons.IH [of st1 "i + 1"] by simp
qed simp

lemma flow_inv_ensure:
  assumes "flow_inv c"
  shows "flow_inv (ensure_paths c)"
proof (rule flow_inv_onward [OF assms])
  show "onward c (ensure_paths c)" by (simp add: onward_def)
  show "paths_ready (ensure_paths c)" using assms by (simp add: flow_inv_def)
qed (simp add: ensure_paths_def Let_def)

lemma transmit_inv: "flow_inv c \<Longrightarrow> \<exists>c'. transmit now lost late f from src dst c = Some c' \<and> flow_inv c'"
  using transmit_loop_inv [of f src dst "now" "(None, ensure_paths c)" lost late "from" 0 "ch_devices c"] flow_inv_ensure
  by (auto simp: transmit_def loop_inv_def)

lemma release_inv_flow:
  assumes "flow_inv c"
  shows "\<exists>c'. release_held_packet now d c = Some c' \<and> flow_inv c'"
proof (cases "ch_held c")
  case (Some h)
  let ?c = "c\<lparr>ch_flush := None\<rparr>"
  have i: "flow_inv ?c" by (rule flow_inv_same [OF assms]) (simp_all add: fixed_def)
  then have m: "1 < ch_path_count c \<and> ch_ecmp c" by (simp add: flow_inv_def paths_ready_def)
  obtain t c1 where r: "reserve_path now (he_frame h) (he_src h) (he_dst h) ?c = Some (t, c1)" "flow_inv c1"
      "due (build_flow_key (fr_packet (he_frame h)) (he_src h) (he_dst h)) (now + t) c1"
    using reserve_inv [OF i] by blast
  let ?s = "schedule_receive now t (stamp (\<lambda>x. x\<lparr>cm_release := Some now\<rparr>) (he_frame h)) (he_dest h) (he_src h) (he_dst h) c1"
  have "flow_inv ?s" by (rule schedule_inv [OF r(2)]) (use r(3) in simp)
  then have "flow_inv (?s\<lparr>ch_held := None\<rparr>)" by (rule flow_inv_same) (simp_all add: fixed_def)
  then show ?thesis using Some m r(1) by (simp add: release_held_packet_def)
qed (use assms in \<open>simp add: release_held_packet_def\<close>)

section \<open>What the fabric carries\<close>

type_synonym item = "nat \<times> packet \<times> u32 \<times> u32"

definition item_of :: "fabric_frame \<Rightarrow> attached \<Rightarrow> u32 \<Rightarrow> u32 \<Rightarrow> item" where
  "item_of f d src dst = (at_id d, fr_packet f, src, dst)"

definition delivery_item :: "delivery \<Rightarrow> item" where
  "delivery_item x = item_of (dl_frame x) (dl_dest x) (dl_src x) (dl_dst x)"

text \<open>On the way, or held.\<close>

definition in_transit :: "channel \<Rightarrow> item multiset" where
  "in_transit c = mset (map delivery_item (ch_pending c)) +
     (case ch_held c of None \<Rightarrow> {#} | Some h \<Rightarrow> {#item_of (he_frame h) (he_dest h) (he_src h) (he_dst h)#})"

fun targets :: "fabric_frame \<Rightarrow> nat \<Rightarrow> u32 \<Rightarrow> u32 \<Rightarrow> nat \<Rightarrow> attached list \<Rightarrow> item multiset" where
  "targets f from src dst i [] = {#}"
| "targets f from src dst i (d # ds) =
    (if is_target from dst i d then {#item_of f d src dst#} else {#}) + targets f from src dst (i + 1) ds"

lemma transit_cargo: "cargo c' = cargo c \<Longrightarrow> in_transit c' = in_transit c"
  by (simp add: cargo_def in_transit_def)

lemma item_stamp [simp]: "item_of (stamp g f) d src dst = item_of f d src dst"
  by (simp add: item_of_def)

lemma transit_schedule [simp]:
  "in_transit (schedule_receive now t f d src dst c) = add_mset (item_of f d src dst) (in_transit c)"
  by (simp add: in_transit_def schedule_receive_def delivery_item_def)

lemma transit_hold:
  "ch_held c = None \<Longrightarrow> in_transit (hold_packet now t f d src dst c) = add_mset (item_of f d src dst) (in_transit c)"
  by (simp add: in_transit_def hold_packet_def)

lemma transit_fields [simp]:
  "in_transit (c\<lparr>ch_drop_requests := n\<rparr>) = in_transit c" "in_transit (c\<lparr>ch_drop_responses := n\<rparr>) = in_transit c"
  "in_transit (c\<lparr>ch_hold_response := b\<rparr>) = in_transit c" "in_transit (c\<lparr>ch_flush := e\<rparr>) = in_transit c"
  by (simp_all add: in_transit_def)

definition no_drops :: "channel \<Rightarrow> bool" where
  "no_drops c \<longleftrightarrow> ch_drop_requests c = 0 \<and> ch_drop_responses c = 0"

lemma offer_carries:
  assumes "offer_to now lost late f d src dst (r, c) = Some (r', c')"
  shows "in_transit c' = in_transit c \<or> in_transit c' = add_mset (item_of f d src dst) (in_transit c)"
    "no_drops c \<Longrightarrow> \<not> lost \<Longrightarrow> in_transit c' = add_mset (item_of f d src dst) (in_transit c) \<and> no_drops c'"
    "ch_devices c' = ch_devices c"
proof -
  let ?resp = "is_response_packet (fr_packet f)" and ?nack = "is_gap_nack (fr_packet f)"
  let ?skip = "\<not> ?resp \<and> 0 < ch_drop_requests c \<or> ?resp \<and> 0 < ch_drop_responses c \<or> \<not> ?nack \<and> lost"
  have "(in_transit c' = in_transit c \<or> in_transit c' = add_mset (item_of f d src dst) (in_transit c)) \<and>
    (no_drops c \<and> \<not> lost \<longrightarrow> in_transit c' = add_mset (item_of f d src dst) (in_transit c) \<and> no_drops c') \<and>
    ch_devices c' = ch_devices c"
  proof (cases ?skip)
    case True
    then show ?thesis using assms by (auto simp: offer_to_def Let_def no_drops_def split: if_splits option.splits)
  next
    case False
    then obtain t r1 c1 where p: "packet_delay now f src dst r c = Some (t, r1, c1)"
        "c' = (if ch_held c1 = None \<and> ?resp \<and> ch_hold_response c1
            then hold_packet now t f d src dst (c1\<lparr>ch_hold_response := False\<rparr>)
            else if ch_held c1 = None \<and> \<not> ?nack \<and> late then hold_packet now t f d src dst c1
            else schedule_receive now t
              (stamp (\<lambda>t'. t'\<lparr>cm_baseline := Some (now + t), cm_release := Some (now + t)\<rparr>) f) d src dst c1)"
      using assms by (auto simp: offer_to_def Let_def split: option.splits)
    note F = delay_frame [OF p(1)]
    have t: "in_transit c1 = in_transit c" using F transit_cargo by blast
    have n: "no_drops c1 = no_drops c" "ch_devices c1 = ch_devices c" using F by (simp_all add: no_drops_def cargo_def fixed_def)
    have "in_transit c' = add_mset (item_of f d src dst) (in_transit c)"
      unfolding p(2) by (simp add: transit_hold t)
    moreover have "no_drops c' = no_drops c" "ch_devices c' = ch_devices c"
      unfolding p(2) using n by (simp_all add: hold_packet_def schedule_receive_def no_drops_def)
    ultimately show ?thesis by simp
  qed
  then show "in_transit c' = in_transit c \<or> in_transit c' = add_mset (item_of f d src dst) (in_transit c)"
    "no_drops c \<Longrightarrow> \<not> lost \<Longrightarrow> in_transit c' = add_mset (item_of f d src dst) (in_transit c) \<and> no_drops c'"
    "ch_devices c' = ch_devices c" by blast+
qed

lemma loop_carries:
  "transmit_loop now lost late f from src dst i ds (r, c) = Some (r', c') \<Longrightarrow>
   (\<exists>sent. sent \<subseteq># targets f from src dst i ds \<and> in_transit c' = in_transit c + sent \<and>
     (no_drops c \<and> (\<forall>j. \<not> lost j) \<longrightarrow> sent = targets f from src dst i ds \<and> no_drops c')) \<and> ch_devices c' = ch_devices c"
proof (induction ds arbitrary: i r c)
  case (Cons d ds)
  show ?case
  proof (cases "is_target from dst i d")
    case False
    then show ?thesis using Cons by simp
  next
    case True
    then obtain r1 c1 where o: "offer_to now (lost i) (late i) f d src dst (r, c) = Some (r1, c1)"
        "transmit_loop now lost late f from src dst (i + 1) ds (r1, c1) = Some (r', c')"
      using Cons.prems by (auto split: option.splits)
    note O = offer_carries [OF o(1)]
    obtain sent where s: "sent \<subseteq># targets f from src dst (i + 1) ds" "in_transit c' = in_transit c1 + sent"
        "no_drops c1 \<and> (\<forall>j. \<not> lost j) \<longrightarrow> sent = targets f from src dst (i + 1) ds \<and> no_drops c'" "ch_devices c' = ch_devices c1"
      using Cons.IH [OF o(2)] by blast
    let ?x = "item_of f d src dst"
    have dv: "ch_devices c' = ch_devices c" using s(4) O(3) by simp
    from O(1) show ?thesis
    proof
      assume e: "in_transit c1 = in_transit c"
      then have "\<not> (no_drops c \<and> (\<forall>j. \<not> lost j))" using O(2) by auto
      moreover have "sent \<subseteq># targets f from src dst i (d # ds)" by (rule subset_mset.order_trans [OF s(1)]) (use True in simp)
      ultimately show ?thesis using e s(2) dv by auto
    next
      assume e: "in_transit c1 = add_mset ?x (in_transit c)"
      have "add_mset ?x sent \<subseteq># targets f from src dst i (d # ds)" using s(1) True by simp
      moreover have "in_transit c' = in_transit c + add_mset ?x sent" using e s(2) by simp
      moreover have "no_drops c \<and> (\<forall>j. \<not> lost j) \<longrightarrow> add_mset ?x sent = targets f from src dst i (d # ds) \<and> no_drops c'"
        using O(2) s(3) True by auto
      ultimately show ?thesis using dv by blast
    qed
  qed
qed simp

lemma transmit_carries:
  assumes "transmit now lost late f from src dst c = Some c'"
  shows "\<exists>sent. sent \<subseteq># targets f from src dst 0 (ch_devices c) \<and> in_transit c' = in_transit c + sent \<and>
    (no_drops c \<and> (\<forall>j. \<not> lost j) \<longrightarrow> sent = targets f from src dst 0 (ch_devices c) \<and> no_drops c')"
proof -
  obtain r' where l: "transmit_loop now lost late f from src dst 0 (ch_devices c) (None, ensure_paths c) = Some (r', c')"
    using assms by (auto simp: transmit_def)
  have "no_drops (ensure_paths c) = no_drops c" using ensure_frame(2) [of c] by (simp add: no_drops_def cargo_def)
  then show ?thesis using loop_carries [OF l] transit_cargo [OF ensure_frame(2)] by simp
qed

lemma release_carries:
  assumes "release_held_packet now d c = Some c'"
  shows "in_transit c' = in_transit c" "no_drops c \<Longrightarrow> no_drops c'"
proof -
  have "in_transit c' = in_transit c \<and> no_drops c' = no_drops c"
  proof (cases "ch_held c")
    case None
    then show ?thesis using assms by (simp add: release_held_packet_def)
  next
    case (Some h)
    let ?c = "c\<lparr>ch_flush := None\<rparr>"
    obtain t c1 where r: "(if 1 < ch_path_count ?c \<and> ch_ecmp ?c then reserve_path now (he_frame h) (he_src h) (he_dst h) ?c
          else Some (if ch_serialize ?c then schedule_delay now (he_frame h) ?c else (d, ?c))) = Some (t, c1)"
      and c1: "c' = (schedule_receive now t (stamp (\<lambda>x. x\<lparr>cm_release := Some now\<rparr>) (he_frame h)) (he_dest h)
          (he_src h) (he_dst h) c1)\<lparr>ch_held := None\<rparr>"
      using assms unfolding release_held_packet_def Some option.case Let_def map_option_eq_Some by force
    have c2: "cargo c1 = cargo ?c"
    proof (cases "1 < ch_path_count ?c \<and> ch_ecmp ?c")
      case True
      then show ?thesis using r reserve_frame by auto
    next
      case False
      then show ?thesis using r schedule_frame [of "now" "he_frame h" ?c t c1] by (cases "ch_serialize c") auto
    qed
    have "ch_pending c1 = ch_pending c" "no_drops c1 = no_drops c" using c2 by (simp_all add: cargo_def no_drops_def)
    then show ?thesis using Some by (simp add: c1 in_transit_def schedule_receive_def delivery_item_def no_drops_def)
  qed
  then show "in_transit c' = in_transit c" "no_drops c \<Longrightarrow> no_drops c'" by simp_all
qed

section \<open>Runs\<close>

text \<open>
  The fabric, the time, and what it was given and what has arrived. In a clean run nothing is
  dropped: no drops are planned and no draw falls below the drop probability.
\<close>

record fabric =
  fb_now :: ns
  fb_channel :: channel
  fb_offered :: "item multiset"
  fb_arrived :: "item multiset"

inductive fabric_step :: "bool \<Rightarrow> fabric \<Rightarrow> fabric \<Rightarrow> bool" for clean where
  tick: "fb_now s \<le> t \<Longrightarrow> fabric_step clean s (s\<lparr>fb_now := t\<rparr>)"
| send: "transmit (fb_now s) lost late f from src dst (fb_channel s) = Some c \<Longrightarrow> (clean \<Longrightarrow> \<forall>i. \<not> lost i) \<Longrightarrow>
    fabric_step clean s (s\<lparr>fb_channel := c,
      fb_offered := fb_offered s + targets f from src dst 0 (ch_devices (fb_channel s))\<rparr>)"
| flush: "flush_held_packet (fb_now s) (fb_channel s) = Some c \<Longrightarrow> fabric_step clean s (s\<lparr>fb_channel := c\<rparr>)"
| auto: "ch_flush (fb_channel s) = Some (fb_now s, d) \<Longrightarrow> run_flush (fb_now s) (fb_channel s) = Some c \<Longrightarrow>
    fabric_step clean s (s\<lparr>fb_channel := c\<rparr>)"
| arrive: "x \<in> set (ch_pending (fb_channel s)) \<Longrightarrow> dl_at x = fb_now s \<Longrightarrow>
    fabric_step clean s (s\<lparr>fb_channel := (fb_channel s)\<lparr>ch_pending := remove1 x (ch_pending (fb_channel s))\<rparr>,
      fb_arrived := add_mset (delivery_item x) (fb_arrived s)\<rparr>)"
| requests: "\<not> clean \<Longrightarrow> fabric_step clean s (s\<lparr>fb_channel := drop_next_requests n (fb_channel s)\<rparr>)"
| responses: "\<not> clean \<Longrightarrow> fabric_step clean s (s\<lparr>fb_channel := drop_next_responses n (fb_channel s)\<rparr>)"
| hold: "fabric_step clean s (s\<lparr>fb_channel := hold_next_response (fb_channel s)\<rparr>)"
| clear: "fabric_step clean s (s\<lparr>fb_channel := clear_fault_plan (fb_channel s)\<rparr>)"

inductive fabric_run :: "bool \<Rightarrow> channel \<Rightarrow> fabric \<Rightarrow> bool" for clean c0 where
  start: "fabric_run clean c0 \<lparr>fb_now = 0, fb_channel = c0, fb_offered = {#}, fb_arrived = {#}\<rparr>"
| step: "fabric_run clean c0 s \<Longrightarrow> fabric_step clean s s' \<Longrightarrow> fabric_run clean c0 s'"

definition idle :: "channel \<Rightarrow> bool" where
  "idle c \<longleftrightarrow> ch_pending c = [] \<and> ch_held c = None \<and> ch_flush c = None \<and> no_drops c"

definition balanced :: "bool \<Rightarrow> fabric \<Rightarrow> bool" where
  "balanced clean s \<longleftrightarrow> fb_arrived s + in_transit (fb_channel s) \<subseteq># fb_offered s \<and>
     (clean \<longrightarrow> fb_arrived s + in_transit (fb_channel s) = fb_offered s \<and> no_drops (fb_channel s))"

lemma balanced_same:
  "balanced clean s \<Longrightarrow> in_transit c = in_transit (fb_channel s) \<Longrightarrow> (no_drops (fb_channel s) \<Longrightarrow> no_drops c) \<Longrightarrow>
   balanced clean (s\<lparr>fb_channel := c\<rparr>)"
  by (simp add: balanced_def)

lemma transit_arrive:
  assumes "x \<in> set (ch_pending c)"
  shows "in_transit c = add_mset (delivery_item x) (in_transit (c\<lparr>ch_pending := remove1 x (ch_pending c)\<rparr>))"
proof -
  have "mset (ch_pending c) = add_mset x (mset (remove1 x (ch_pending c)))" using assms by simp
  then have "mset (map delivery_item (ch_pending c)) = add_mset (delivery_item x) (mset (map delivery_item (remove1 x (ch_pending c))))"
    by (metis image_mset_add_mset mset_map)
  then show ?thesis by (simp add: in_transit_def)
qed

lemma balanced_step: "fabric_step clean s s' \<Longrightarrow> balanced clean s \<Longrightarrow> balanced clean s'"
proof (induction rule: fabric_step.induct)
  case (send s lost late f "from" src dst c)
  obtain sent where t: "sent \<subseteq># targets f from src dst 0 (ch_devices (fb_channel s))"
      "in_transit c = in_transit (fb_channel s) + sent"
      "no_drops (fb_channel s) \<and> (\<forall>j. \<not> lost j) \<longrightarrow> sent = targets f from src dst 0 (ch_devices (fb_channel s)) \<and> no_drops c"
    using transmit_carries [OF send(1)] by blast
  have "fb_arrived s + in_transit (fb_channel s) + sent \<subseteq># fb_offered s + targets f from src dst 0 (ch_devices (fb_channel s))"
    using subset_mset.add_mono [OF _ t(1)] send(3) by (simp add: balanced_def)
  then show ?case using t send(2,3) by (auto simp: balanced_def add.assoc)
next
  case (flush s c)
  then show ?case using release_carries [of "fb_now s" 1 "fb_channel s" c]
    by (auto simp: flush_held_packet_def intro: balanced_same split: if_splits)
next
  case (auto s d c)
  then show ?case using release_carries [of "fb_now s" d "(fb_channel s)\<lparr>ch_flush := None\<rparr>" c]
    by (auto simp: run_flush_def no_drops_def intro!: balanced_same)
next
  case (arrive x s)
  then show ?case using transit_arrive [OF arrive(1)] by (simp add: balanced_def no_drops_def)
next
  case (hold s)
  then show ?case by (auto simp: hold_next_response_def no_drops_def intro: balanced_same)
next
  case (clear s)
  then show ?case by (auto simp: clear_fault_plan_def no_drops_def in_transit_def intro!: balanced_same)
qed (simp_all add: balanced_def drop_next_requests_def drop_next_responses_def)

text \<open>
  C38: The fabric makes nothing up and repeats nothing: what has arrived, is on the way or is held was
  offered to it, for that device, at most as often. Without drops it is everything that was offered, so that
  once nothing is on the way or held, every packet has arrived at every device it was for, exactly once.
\<close>

theorem fabric_conserves:
  assumes "fabric_run clean c0 s" "idle c0"
  shows "fb_arrived s + in_transit (fb_channel s) \<subseteq># fb_offered s \<and>
    (clean \<longrightarrow> fb_arrived s + in_transit (fb_channel s) = fb_offered s) \<and>
    (clean \<and> ch_pending (fb_channel s) = [] \<and> ch_held (fb_channel s) = None \<longrightarrow> fb_arrived s = fb_offered s)"
proof -
  from assms(1) have "balanced clean s"
  proof (induction rule: fabric_run.induct)
    case start
    then show ?case using assms(2) by (simp add: balanced_def in_transit_def idle_def)
  qed (rule balanced_step)
  moreover have "in_transit (fb_channel s) = {#}" if "ch_pending (fb_channel s) = []" "ch_held (fb_channel s) = None"
    using that by (simp add: in_transit_def)
  ultimately show ?thesis by (auto simp: balanced_def)
qed

lemma in_order_remove: "in_order xs \<Longrightarrow> in_order (remove1 x xs)"
  unfolding in_order_def by (induction xs) (use set_remove1_subset in \<open>fastforce+\<close>)

lemma flow_inv_step: "fabric_step clean s s' \<Longrightarrow> flow_inv (fb_channel s) \<Longrightarrow> flow_inv (fb_channel s')"
proof (induction rule: fabric_step.induct)
  case (send s lost late f "from" src dst c)
  then show ?case using transmit_inv [of "fb_channel s" "fb_now s" lost late f "from" src dst] by auto
next
  case (flush s c)
  then show ?case using release_inv_flow [of "fb_channel s" "fb_now s" 1] by (auto simp: flush_held_packet_def split: if_splits)
next
  case (auto s d c)
  have "flow_inv ((fb_channel s)\<lparr>ch_flush := None\<rparr>)" by (rule flow_inv_same [OF auto(3)]) (simp_all add: fixed_def)
  then show ?case using auto release_inv_flow [of _ "fb_now s" d] by (fastforce simp: run_flush_def)
next
  case (arrive x s)
  let ?c = "(fb_channel s)\<lparr>ch_pending := remove1 x (ch_pending (fb_channel s))\<rparr>"
  have o: "onward (fb_channel s) ?c \<and> (paths_ready (fb_channel s) \<longrightarrow> paths_ready ?c)"
    by (rule onward_same) (simp_all add: fixed_def)
  then show ?case using arrive(3) in_order_remove on_route_onward set_remove1_subset
    unfolding flow_inv_def by fastforce
qed (auto simp: drop_next_requests_def drop_next_responses_def hold_next_response_def clear_fault_plan_def
     fixed_def intro: flow_inv_same)

text \<open>
  C39: With explicit paths the packets of a flow arrive in the order in which they were put on the wire, a held
  packet when it is released, whether the paths are hashed or chosen by load and whatever is dropped; and no
  path outside the configured number is ever used.
\<close>

theorem flow_keeps_order:
  assumes "fabric_run clean c0 s" "idle c0" "paths_ready c0"
    and "i < j" "j < length (ch_pending (fb_channel s))"
    and "flow_of (ch_pending (fb_channel s) ! i) = flow_of (ch_pending (fb_channel s) ! j)"
  shows "dl_at (ch_pending (fb_channel s) ! i) \<le> dl_at (ch_pending (fb_channel s) ! j) \<and>
    transmit now lost late f from src dst (fb_channel s) \<noteq> None"
proof -
  from assms(1) have i: "flow_inv (fb_channel s)"
  proof (induction rule: fabric_run.induct)
    case start
    then show ?case using assms(2,3) by (simp add: flow_inv_def idle_def in_order_def)
  qed (rule flow_inv_step)
  then have "in_order (ch_pending (fb_channel s))" by (simp add: flow_inv_def)
  from sorted_wrt_nth_less [OF this [unfolded in_order_def] assms(4,5)] assms(6)
  moreover obtain c where "transmit now lost late f from src dst (fb_channel s) = Some c" using transmit_inv [OF i] by blast
  ultimately show ?thesis by simp
qed

text \<open>
  C40: A flow without a path gets one whose score, the backlog of the path and the time its queue takes, is
  lowest; from then on it keeps this path, and no other flow's path changes.
\<close>

theorem new_flow_least_loaded:
  assumes "select_adaptive now f src dst c = (i, c')" "paths_ready c" "length (ch_paths c) = unat (ch_path_count c)"
    and "map_of (ch_assigned c) (build_flow_key (fr_packet f) src dst) = None" "j < unat (ch_path_count c)"
  shows "unat i < unat (ch_path_count c) \<and>
    path_score now (transmission_time f (ch_path_rate c) c) (refresh_path now (ch_paths c ! unat i)) \<le>
      path_score now (transmission_time f (ch_path_rate c) c) (refresh_path now (ch_paths c ! j)) \<and>
    map_of (ch_assigned c') = (map_of (ch_assigned c)) (build_flow_key (fr_packet f) src dst \<mapsto> i)"
  using adaptive_choice [OF assms(1-4)] assms(5) by (simp add: update_conv')

text \<open>
  A path number that a flow keeps from a time with more paths is out of range: \<open>m_pathStates[pathIndex]\<close>
  is then undefined behaviour.
\<close>

lemma fewer_paths_break:
  assumes "ch_dynamic c" "1 < ch_path_count c" "map_of (ch_assigned c) (build_flow_key (fr_packet f) src dst) = Some i"
    and "ch_path_count c \<le> i"
  shows "reserve_path now f src dst c = None"
proof -
  have "\<not> ch_path_count c \<le> 1" using assms(2) by (simp only: not_le)
  then have "select_path now f src dst (ensure_paths c) = (i, (ensure_paths c)\<lparr>ch_reuse_total := ch_reuse_total (ensure_paths c) + 1\<rparr>)"
    using assms(1,3) by (simp add: select_path_def select_adaptive_def Let_def ensure_paths_def [of c])
      (simp add: ensure_paths_def Let_def max_def)
  moreover have "max 1 (ch_path_count c) = ch_path_count c" using assms(2) by (simp add: max_absorb2)
  ultimately show ?thesis using assms(4) by (simp add: reserve_path_def Let_def word_le_nat_alt)
qed

section \<open>A fabric of two devices\<close>

definition demo_fabric :: channel where
  "demo_fabric = connect [\<lparr>at_id = 0, at_fep = Some 7\<rparr>, \<lparr>at_id = 1, at_fep = Some 9\<rparr>]
     ((new_channel (\<lambda>bits rate. int (unat bits)))\<lparr>ch_path_count := 2, ch_ecmp := True, ch_dynamic := True\<rparr>)"

definition demo_frame :: fabric_frame where
  "demo_frame = \<lparr>fr_packet = empty_packet\<lparr>pk_payload := [1, 2, 3]\<rparr>, fr_timing = None\<rparr>"

definition demo_send :: "bool \<Rightarrow> channel option \<Rightarrow> channel option" where
  "demo_send late co = Option.bind co (\<lambda>c. transmit 0 (\<lambda>_. False) (\<lambda>_. late) demo_frame 0 7 9 c)"

lemma demo_twice: "map_option (\<lambda>c. (map dl_at (ch_pending c), map flow_of (ch_pending c), ch_held c = None)) (demo_send False (demo_send False (Some demo_fabric))) =
    Some ([124, 148], [0x700000009, 0x700000009], True)"
  by code_simp

text \<open>A held packet takes its path's time and is counted twice: when it is held and when it is released.\<close>

lemma held_packet_counted_twice:
  "map_option (\<lambda>c. sum_list (map pt_packets (ch_paths c))) (Option.bind (demo_send True (Some demo_fabric)) (flush_held_packet 0)) = Some 2"
  by code_simp

lemma demo_fabric_ready: "idle demo_fabric" "paths_ready demo_fabric"
  by (simp_all add: demo_fabric_def connect_def attach_def new_channel_def idle_def no_drops_def paths_ready_def)

lemma demo_run:
  assumes "demo_send False (demo_send False (Some demo_fabric)) = Some c"
  shows "\<exists>s. fabric_run True demo_fabric s \<and> fb_channel s = c"
proof -
  obtain c1 where c1: "transmit 0 (\<lambda>_. False) (\<lambda>_. False) demo_frame 0 7 9 demo_fabric = Some c1"
      "transmit 0 (\<lambda>_. False) (\<lambda>_. False) demo_frame 0 7 9 c1 = Some c"
    using assms by (auto simp: demo_send_def bind_eq_Some_conv)
  let ?s0 = "\<lparr>fb_now = 0, fb_channel = demo_fabric, fb_offered = {#}, fb_arrived = {#}\<rparr>"
  have 1: "fabric_step True ?s0 (?s0\<lparr>fb_channel := c1, fb_offered := fb_offered ?s0 +
      targets demo_frame 0 7 9 0 (ch_devices (fb_channel ?s0))\<rparr>)"
    by (rule fabric_step.send [where lost = "\<lambda>_. False" and late = "\<lambda>_. False"]) (use c1(1) in simp_all)
  let ?s1 = "?s0\<lparr>fb_channel := c1, fb_offered := fb_offered ?s0 + targets demo_frame 0 7 9 0 (ch_devices (fb_channel ?s0))\<rparr>"
  have 2: "fabric_step True ?s1 (?s1\<lparr>fb_channel := c, fb_offered := fb_offered ?s1 +
      targets demo_frame 0 7 9 0 (ch_devices (fb_channel ?s1))\<rparr>)"
    by (rule fabric_step.send [where lost = "\<lambda>_. False" and late = "\<lambda>_. False"]) (use c1(2) in simp_all)
  show ?thesis using fabric_run.step [OF fabric_run.step [OF fabric_run.start 1] 2] by force
qed

lemma fabric_conserves_witness:
  "\<exists>s :: fabric. length (ch_pending (fb_channel s)) = 2 \<and> fb_arrived s + in_transit (fb_channel s) = fb_offered s"
proof -
  obtain c where c: "demo_send False (demo_send False (Some demo_fabric)) = Some c" "length (ch_pending c) = 2"
    using demo_twice by (auto dest: arg_cong [of _ _ length])
  obtain s where s: "fabric_run True demo_fabric s" "fb_channel s = c" using demo_run [OF c(1)] by blast
  show ?thesis by (rule exI [of _ s]) (use fabric_conserves [OF s(1) demo_fabric_ready(1)] s(2) c(2) in simp)
qed

lemma flow_keeps_order_witness:
  "\<exists>s :: fabric. dl_at (ch_pending (fb_channel s) ! 0) = 124 \<and> dl_at (ch_pending (fb_channel s) ! 0) \<le> dl_at (ch_pending (fb_channel s) ! 1)"
proof -
  obtain c where c: "demo_send False (demo_send False (Some demo_fabric)) = Some c" "map dl_at (ch_pending c) = [124, 148]"
      "map flow_of (ch_pending c) = [0x700000009, 0x700000009]"
    using demo_twice by auto
  obtain s where s: "fabric_run True demo_fabric s" "fb_channel s = c" using demo_run [OF c(1)] by blast
  obtain x y where p: "ch_pending c = [x, y]" "dl_at x = 124" "flow_of x = flow_of y" using c(2,3) by (auto simp: map_eq_Cons_conv)
  show ?thesis by (rule exI [of _ s]) (use flow_keeps_order [OF s(1) demo_fabric_ready, of 0 1] s(2) p in simp)
qed

lemma new_flow_least_loaded_witness:
  "\<exists>i c. select_adaptive 0 demo_frame 7 9 (ensure_paths demo_fabric) = (i, c) \<and> map_of (ch_assigned c) 0x700000009 = Some i"
proof -
  obtain i c where s: "select_adaptive 0 demo_frame 7 9 (ensure_paths demo_fabric) = (i, c)" by fastforce
  have k: "build_flow_key (fr_packet demo_frame) 7 9 = 0x700000009" by code_simp
  have a: "map_of (ch_assigned (ensure_paths demo_fabric)) 0x700000009 = None" by code_simp
  have n: "ch_path_count (ensure_paths demo_fabric) = 2" by code_simp
  show ?thesis
    using new_flow_least_loaded [OF s, of 0] demo_fabric_ready(2) a n s by (simp add: k) (simp add: demo_fabric_def connect_def attach_def new_channel_def)
qed

end
